(* ===== verification/Utf8.thy ===== *)
theory Utf8
  imports Gateway_Prelude
begin

text \<open>
  The part of Go's \<^verbatim>\<open>unicode/utf8\<close> and \<^verbatim>\<open>unicode/utf16\<close> the canonical form rests on:
  decoding one rune from bytes, encoding one, the loop \<^verbatim>\<open>for _, r := range s\<close>, validity, and
  the pairing of surrogates.  A rune is a natural number; a byte that begins no rune decodes as
  \<open>rune_error\<close> of size one, as it does in Go.

  The lemmas show that encoding a scalar value and decoding it is the identity, whatever
  follows, and that a valid string is the concatenation of the encodings of its runes.
\<close>

definition rune_error :: nat where
  "rune_error = 0xFFFD"

definition is_cont :: "char \<Rightarrow> bool" where
  "is_cont c \<longleftrightarrow> 0x80 \<le> byte c \<and> byte c \<le> 0xBF"

text \<open>The range of the second byte of a three or four byte sequence, by its first byte.\<close>

definition second_ok :: "nat \<Rightarrow> char \<Rightarrow> bool" where
  "second_ok b c \<longleftrightarrow>
     (if b = 0xE0 then 0xA0 else if b = 0xF0 then 0x90 else 0x80) \<le> byte c \<and>
     byte c \<le> (if b = 0xED then 0x9F else if b = 0xF4 then 0x8F else 0xBF)"

text \<open>\<^verbatim>\<open>utf8.DecodeRune\<close>: the rune and its size in bytes.\<close>

definition decode2 :: "nat \<Rightarrow> bytes \<Rightarrow> nat \<times> nat" where
  "decode2 b cs =
     (case cs of
        c1 # _ \<Rightarrow> if is_cont c1 then ((b - 0xC0) * 64 + (byte c1 - 0x80), 2) else (rune_error, 1)
      | _ \<Rightarrow> (rune_error, 1))"

definition decode3 :: "nat \<Rightarrow> bytes \<Rightarrow> nat \<times> nat" where
  "decode3 b cs =
     (case cs of
        c1 # c2 # _ \<Rightarrow>
          if second_ok b c1 \<and> is_cont c2
          then ((b - 0xE0) * 4096 + (byte c1 - 0x80) * 64 + (byte c2 - 0x80), 3)
          else (rune_error, 1)
      | _ \<Rightarrow> (rune_error, 1))"

definition decode4 :: "nat \<Rightarrow> bytes \<Rightarrow> nat \<times> nat" where
  "decode4 b cs =
     (case cs of
        c1 # c2 # c3 # _ \<Rightarrow>
          if second_ok b c1 \<and> is_cont c2 \<and> is_cont c3
          then ((b - 0xF0) * 262144 + (byte c1 - 0x80) * 4096 + (byte c2 - 0x80) * 64
                + (byte c3 - 0x80), 4)
          else (rune_error, 1)
      | _ \<Rightarrow> (rune_error, 1))"

fun decode_rune :: "bytes \<Rightarrow> nat \<times> nat" where
  "decode_rune [] = (rune_error, 0)"
| "decode_rune (c # cs) =
     (let b = byte c in
      if b < 0x80 then (b, 1)
      else if 0xC2 \<le> b \<and> b \<le> 0xDF then decode2 b cs
      else if 0xE0 \<le> b \<and> b \<le> 0xEF then decode3 b cs
      else if 0xF0 \<le> b \<and> b \<le> 0xF4 then decode4 b cs
      else (rune_error, 1))"

text \<open>\<^verbatim>\<open>utf8.AppendRune\<close>, which \<^verbatim>\<open>strings.Builder.WriteRune\<close> is: a surrogate and a value past
  the last code point are written as \<open>rune_error\<close>.\<close>

definition is_surrogate :: "nat \<Rightarrow> bool" where
  "is_surrogate r \<longleftrightarrow> 0xD800 \<le> r \<and> r < 0xE000"

definition encode3 :: "nat \<Rightarrow> bytes" where
  "encode3 r = [char_of (0xE0 + r div 4096), char_of (0x80 + r div 64 mod 64),
                char_of (0x80 + r mod 64)]"

definition encode_rune :: "nat \<Rightarrow> bytes" where
  "encode_rune r =
     (if r < 0x80 then [char_of r]
      else if r < 0x800 then [char_of (0xC0 + r div 64), char_of (0x80 + r mod 64)]
      else if is_surrogate r \<or> 0x10FFFF < r then encode3 rune_error
      else if r < 0x10000 then encode3 r
      else [char_of (0xF0 + r div 262144), char_of (0x80 + r div 4096 mod 64),
            char_of (0x80 + r div 64 mod 64), char_of (0x80 + r mod 64)])"

definition is_scalar :: "nat \<Rightarrow> bool" where
  "is_scalar r \<longleftrightarrow> r \<le> 0x10FFFF \<and> \<not> is_surrogate r"

text \<open>\<^verbatim>\<open>utf16.DecodeRune\<close>: a high and a low surrogate, or \<open>rune_error\<close>.\<close>

definition utf16_decode :: "nat \<Rightarrow> nat \<Rightarrow> nat" where
  "utf16_decode r1 r2 =
     (if 0xD800 \<le> r1 \<and> r1 < 0xDC00 \<and> 0xDC00 \<le> r2 \<and> r2 < 0xE000
      then (r1 - 0xD800) * 1024 + (r2 - 0xDC00) + 0x10000 else rune_error)"

section \<open>Sizes\<close>

lemma decode2_size: "snd (decode2 b cs) \<in> {1, 2}"
  by (auto simp: decode2_def split: list.splits)

lemma decode3_size: "snd (decode3 b cs) \<in> {1, 3}"
  by (auto simp: decode3_def split: list.splits)

lemma decode4_size: "snd (decode4 b cs) \<in> {1, 4}"
  by (auto simp: decode4_def split: list.splits)

lemma decode_rune_size_pos: "s \<noteq> [] \<Longrightarrow> 0 < snd (decode_rune s)"
proof (cases s)
  case (Cons c cs)
  then show ?thesis
    using decode2_size [of "byte c" cs] decode3_size [of "byte c" cs] decode4_size [of "byte c" cs]
    by (auto simp: Let_def)
qed simp

text \<open>The loop \<^verbatim>\<open>for _, r := range s\<close>, and \<^verbatim>\<open>utf8.Valid\<close>.\<close>

function runes :: "bytes \<Rightarrow> nat list" where
  "runes s = (if s = [] then [] else fst (decode_rune s) # runes (drop (snd (decode_rune s)) s))"
  by auto
termination
  by (relation "measure length") (auto simp: decode_rune_size_pos diff_less)

function valid_utf8 :: "bytes \<Rightarrow> bool" where
  "valid_utf8 s =
     (if s = [] then True
      else decode_rune s \<noteq> (rune_error, 1) \<and> valid_utf8 (drop (snd (decode_rune s)) s))"
  by auto
termination
proof (relation "measure length", goal_cases)
  case (2 s)
  then show ?case using decode_rune_size_pos [of s] by (cases s) auto
qed simp

declare runes.simps [simp del] valid_utf8.simps [simp del]

lemma runes_Nil [simp]: "runes [] = []"
  by (simp add: runes.simps)

lemma valid_utf8_Nil [simp]: "valid_utf8 []"
  by (simp add: valid_utf8.simps)

section \<open>Encoding then decoding\<close>

lemma digits64:
  fixes q z :: nat
  assumes "z < 64"
  shows "(q * 64 + z) div 64 = q" and "(q * 64 + z) mod 64 = z"
  using assms by simp_all

lemma div64_div64:
  fixes r :: nat
  shows "r div 4096 = r div 64 div 64" and "r div 262144 = r div 64 div 64 div 64"
  by (simp_all flip: div_mult2_eq)

lemma is_cont_char_of [simp]: "n < 64 \<Longrightarrow> is_cont (char_of (0x80 + n :: nat))"
  by (simp add: is_cont_def)

lemma encode_rune_scalar_cases:
  assumes "is_scalar r"
  obtains (one) "r < 0x80" "encode_rune r = [char_of r]"
  | (two) "0x80 \<le> r" "r < 0x800"
      "encode_rune r = [char_of (0xC0 + r div 64), char_of (0x80 + r mod 64)]"
  | (three) "0x800 \<le> r" "r < 0x10000" "\<not> is_surrogate r" "encode_rune r = encode3 r"
  | (four) "0x10000 \<le> r" "r \<le> 0x10FFFF"
      "encode_rune r = [char_of (0xF0 + r div 262144), char_of (0x80 + r div 4096 mod 64),
            char_of (0x80 + r div 64 mod 64), char_of (0x80 + r mod 64)]"
  using assms by (cases "r < 0x80"; cases "r < 0x800"; cases "r < 0x10000")
    (auto simp: encode_rune_def is_scalar_def)

lemma sum_digits3:
  fixes r :: nat
  shows "r div 4096 * 4096 + r div 64 mod 64 * 64 + r mod 64 = r"
proof -
  have "r div 4096 * 4096 + r div 64 mod 64 * 64 + r mod 64
      = (r div 64 div 64 * 64 + r div 64 mod 64) * 64 + r mod 64"
    unfolding div64_div64 by (simp only: add_mult_distrib mult.assoc)
  also have "\<dots> = r" by (simp only: div_mult_mod_eq)
  finally show ?thesis .
qed

lemma sum_digits4:
  fixes r :: nat
  shows "r div 262144 * 262144 + r div 4096 mod 64 * 4096 + r div 64 mod 64 * 64 + r mod 64 = r"
proof -
  have "r div 262144 * 262144 + r div 4096 mod 64 * 4096 = r div 4096 * 4096"
  proof -
    have "r div 262144 * 262144 + r div 4096 mod 64 * 4096
        = (r div 64 div 64 div 64 * 64 + r div 64 div 64 mod 64) * 4096"
      unfolding div64_div64 by (simp only: add_mult_distrib mult.assoc)
    then show ?thesis unfolding div64_div64 by (simp only: div_mult_mod_eq)
  qed
  then show ?thesis using sum_digits3 [of r] by simp
qed

lemma second_ok_E0:
  assumes "x < 16" and "y < 64" and "x * 64 + y < 0x360 \<or> 0x380 \<le> x * 64 + y" and "0x20 \<le> x * 64 + y"
  shows "second_ok (0xE0 + x) (char_of (0x80 + y :: nat))"
proof -
  have b: "byte (char_of (0x80 + y)) = 0x80 + y" using assms(2) by simp
  show ?thesis unfolding second_ok_def b using assms by (auto split: if_split)
qed

lemma second_ok_F0:
  assumes "y < 64" and "x * 64 + y < 0x110" and "0x10 \<le> x * 64 + y"
  shows "second_ok (0xF0 + x) (char_of (0x80 + y :: nat))"
proof -
  have b: "byte (char_of (0x80 + y)) = 0x80 + y" using assms(1) by simp
  show ?thesis unfolding second_ok_def b using assms by (simp split: if_split)
qed

lemma decode3_encode:
  assumes "0x800 \<le> r" and "r < 0x10000" and "\<not> is_surrogate r"
  shows "decode_rune (encode3 r @ t) = (r, 3)"
proof -
  have d: "r div 4096 < 16" using assms by (simp add: less_mult_imp_div_less)
  have q: "r div 64 < 0x360 \<or> 0x380 \<le> r div 64" "0x20 \<le> r div 64"
    using assms by (auto simp: is_surrogate_def)
  have "r div 64 = r div 4096 * 64 + r div 64 mod 64" by (simp only: div64_div64 div_mult_mod_eq)
  with q d have "second_ok (0xE0 + r div 4096) (char_of (0x80 + r div 64 mod 64))"
    by (intro second_ok_E0) simp_all
  moreover have "r div 4096 * 4096 + r div 64 mod 64 * 64 + r mod 64 = r"
    by (rule sum_digits3)
  ultimately show ?thesis
    using d by (simp add: encode3_def decode3_def Let_def)
qed

lemma decode4_encode:
  assumes "0x10000 \<le> r" and "r \<le> 0x10FFFF"
  shows "decode_rune ([char_of (0xF0 + r div 262144), char_of (0x80 + r div 4096 mod 64),
            char_of (0x80 + r div 64 mod 64), char_of (0x80 + r mod 64)] @ t) = (r, 4)"
proof -
  have d: "r div 262144 \<le> 4" using assms by simp
  have q: "r div 4096 < 0x110" "0x10 \<le> r div 4096" using assms by auto
  have e: "r div 262144 = r div 4096 div 64" by (simp flip: div_mult2_eq)
  have "r div 4096 = r div 262144 * 64 + r div 4096 mod 64" by (simp only: e div_mult_mod_eq)
  with q have "second_ok (0xF0 + r div 262144) (char_of (0x80 + r div 4096 mod 64))"
    by (intro second_ok_F0) simp_all
  moreover have "r div 262144 * 262144 + r div 4096 mod 64 * 4096 + r div 64 mod 64 * 64 + r mod 64 = r"
    by (rule sum_digits4)
  ultimately show ?thesis
    using d by (simp add: decode4_def Let_def)
qed

lemma decode2_encode:
  assumes "0x80 \<le> r" and "r < 0x800"
  shows "decode_rune ([char_of (0xC0 + r div 64), char_of (0x80 + r mod 64)] @ t) = (r, 2)"
proof -
  have "2 \<le> r div 64" "r div 64 < 32" using assms by (auto simp: less_mult_imp_div_less)
  then show ?thesis by (simp add: decode2_def Let_def)
qed

lemma decode_rune_encode:
  assumes "is_scalar r"
  shows "decode_rune (encode_rune r @ t) = (r, length (encode_rune r))"
  using assms
proof (cases rule: encode_rune_scalar_cases)
  case one
  then show ?thesis by (simp add: Let_def)
next
  case two
  with decode2_encode [of r t] show ?thesis by simp
next
  case three
  with decode3_encode [of r t] show ?thesis by (simp add: encode3_def)
next
  case four
  with decode4_encode [of r t] show ?thesis by simp
qed

lemma encode_rune_neq_Nil [simp]: "encode_rune r \<noteq> []"
  by (simp add: encode_rune_def encode3_def)

lemma encode_rune_hd_high:
  assumes "is_scalar r" and "0x80 \<le> r"
  shows "0x80 \<le> byte (hd (encode_rune r))"
  using assms(1)
proof (cases rule: encode_rune_scalar_cases)
  case one
  with assms(2) show ?thesis by simp
next
  case two
  then have "r div 64 < 32" by (simp add: less_mult_imp_div_less)
  with two show ?thesis by simp
next
  case three
  then have "r div 4096 < 16" by (simp add: less_mult_imp_div_less)
  with three show ?thesis by (simp add: encode3_def)
next
  case four
  then have "r div 262144 \<le> 4" by simp
  with four show ?thesis by simp
qed

section \<open>Decoding then encoding\<close>

lemma decode2_sound:
  assumes "decode2 b cs = (r, 2)" and "0xC2 \<le> b" and "b \<le> 0xDF" and "b = byte c"
  shows "is_scalar r \<and> encode_rune r = take 2 (c # cs)"
proof -
  obtain c1 ds where cs: "cs = c1 # ds" and k: "is_cont c1"
    and r: "r = (b - 0xC0) * 64 + (byte c1 - 0x80)"
    using assms(1) by (auto simp: decode2_def split: list.splits if_splits)
  have lo: "byte c1 - 0x80 < 64" and k': "0x80 \<le> byte c1" using k by (auto simp: is_cont_def)
  then have "r div 64 = b - 0xC0" and "r mod 64 = byte c1 - 0x80"
    using digits64 [OF lo] by (simp_all only: r)
  moreover have "0x80 \<le> r" "r < 0x800" using assms(2,3) lo by (auto simp: r)
  ultimately show ?thesis
    using assms(2,4) k' by (simp add: encode_rune_def is_scalar_def is_surrogate_def cs)
qed

lemma decode3_sound:
  assumes "decode3 b cs = (r, 3)" and "0xE0 \<le> b" and "b \<le> 0xEF" and "b = byte c"
  shows "is_scalar r \<and> encode_rune r = take 3 (c # cs)"
proof -
  obtain c1 c2 ds where cs: "cs = c1 # c2 # ds" and s: "second_ok b c1" and k: "is_cont c2"
    and r: "r = (b - 0xE0) * 4096 + (byte c1 - 0x80) * 64 + (byte c2 - 0x80)"
    using assms(1) by (auto simp: decode3_def split: list.splits if_splits)
  define x y z where "x = b - 0xE0" and "y = byte c1 - 0x80" and "z = byte c2 - 0x80"
  have z: "z < 64" and z': "byte c2 = 0x80 + z" using k by (auto simp: is_cont_def z_def)
  have y: "y < 64" and y': "byte c1 = 0x80 + y"
    using s assms(2,3) by (auto simp: second_ok_def y_def split: if_splits)
  have x: "x < 16" and x': "b = 0xE0 + x" using assms(2,3) by (auto simp: x_def)
  have r': "r = x * 4096 + y * 64 + z" using r by (simp add: x_def y_def z_def)
  have r'': "r = (x * 64 + y) * 64 + z" by (simp add: r')
  have "r div 4096 = x" "r div 64 mod 64 = y" "r mod 64 = z"
    unfolding div64_div64 r'' by (simp_all only: digits64 y z)
  moreover have "0x800 \<le> r" "r < 0x10000" "\<not> is_surrogate r"
    using s x y z by (auto simp: second_ok_def x' y' r' is_surrogate_def split: if_splits)
  moreover have "char_of (0xE0 + x) = c" "char_of (0x80 + y) = c1" "char_of (0x80 + z) = c2"
    using assms(4) x' y' z' by (simp_all add: char_of_byte_diff)
  ultimately show ?thesis
    by (simp add: encode_rune_def encode3_def is_scalar_def cs)
qed

lemma decode4_sound:
  assumes "decode4 b cs = (r, 4)" and "0xF0 \<le> b" and "b \<le> 0xF4" and "b = byte c"
  shows "is_scalar r \<and> encode_rune r = take 4 (c # cs)"
proof -
  obtain c1 c2 c3 ds where cs: "cs = c1 # c2 # c3 # ds" and s: "second_ok b c1"
    and k: "is_cont c2" "is_cont c3"
    and r: "r = (b - 0xF0) * 262144 + (byte c1 - 0x80) * 4096 + (byte c2 - 0x80) * 64
                + (byte c3 - 0x80)"
    using assms(1) by (auto simp: decode4_def split: list.splits if_splits)
  define w x y z where "w = b - 0xF0" and "x = byte c1 - 0x80" and "y = byte c2 - 0x80"
    and "z = byte c3 - 0x80"
  have z: "z < 64" and z': "byte c3 = 0x80 + z" using k by (auto simp: is_cont_def z_def)
  have y: "y < 64" and y': "byte c2 = 0x80 + y" using k by (auto simp: is_cont_def y_def)
  have x: "x < 64" and x': "byte c1 = 0x80 + x"
    using s assms(2,3) by (auto simp: second_ok_def x_def split: if_splits)
  have w: "w \<le> 4" and w': "b = 0xF0 + w" using assms(2,3) by (auto simp: w_def)
  have r': "r = w * 262144 + x * 4096 + y * 64 + z" using r by (simp add: w_def x_def y_def z_def)
  have r'': "r = ((w * 64 + x) * 64 + y) * 64 + z" by (simp add: r')
  have "r div 262144 = w" "r div 4096 mod 64 = x" "r div 64 mod 64 = y" "r mod 64 = z"
    unfolding div64_div64 r'' by (simp_all only: digits64 x y z)
  moreover have "0x10000 \<le> r" "r \<le> 0x10FFFF"
    using s w x y z by (auto simp: second_ok_def w' x' r' split: if_splits)
  moreover have "char_of (0xF0 + w) = c" "char_of (0x80 + x) = c1" "char_of (0x80 + y) = c2"
    "char_of (0x80 + z) = c3"
    using assms(4) w' x' y' z' by (simp_all add: char_of_byte_diff)
  ultimately show ?thesis
    by (simp add: encode_rune_def is_scalar_def is_surrogate_def cs)
qed

lemma decode_rune_sound:
  assumes "decode_rune s = (r, n)" and "(r, n) \<noteq> (rune_error, 1)" and "s \<noteq> []"
  shows "is_scalar r \<and> encode_rune r = take n s \<and> n \<le> length s"
proof (cases s)
  case (Cons c cs)
  let ?b = "byte c"
  have len: "length (encode_rune r) = n \<Longrightarrow> encode_rune r = take n s \<Longrightarrow> n \<le> length s"
    by (metis length_take min.cobounded1)
  consider (a) "?b < 0x80" | (b) "0xC2 \<le> ?b" "?b \<le> 0xDF" | (c) "0xE0 \<le> ?b" "?b \<le> 0xEF"
    | (d) "0xF0 \<le> ?b" "?b \<le> 0xF4"
    using assms Cons by (fastforce simp: Let_def split: if_splits)
  then show ?thesis
  proof cases
    case a
    with assms Cons show ?thesis by (auto simp: encode_rune_def is_scalar_def is_surrogate_def)
  next
    case b
    with assms(1) Cons have d: "decode2 ?b cs = (r, n)" by simp
    with decode2_size [of ?b cs] assms(2) have "n = 2" by (auto simp: decode2_def split: list.splits if_splits)
    moreover from d this b have "is_scalar r \<and> encode_rune r = take 2 (c # cs)"
      using decode2_sound by blast
    moreover have "2 \<le> length s" using d \<open>n = 2\<close> Cons by (auto simp: decode2_def split: list.splits)
    ultimately show ?thesis using Cons by simp
  next
    case c
    with assms(1) Cons have d: "decode3 ?b cs = (r, n)" by simp
    with decode3_size [of ?b cs] assms(2) have "n = 3" by (auto simp: decode3_def split: list.splits if_splits)
    moreover from d this c have "is_scalar r \<and> encode_rune r = take 3 (c # cs)"
      using decode3_sound by blast
    moreover have "3 \<le> length s" using d \<open>n = 3\<close> Cons by (auto simp: decode3_def split: list.splits)
    ultimately show ?thesis using Cons by simp
  next
    case d
    with assms(1) Cons have e: "decode4 ?b cs = (r, n)" by simp
    with decode4_size [of ?b cs] assms(2) have "n = 4" by (auto simp: decode4_def split: list.splits if_splits)
    moreover from e this d have "is_scalar r \<and> encode_rune r = take 4 (c # cs)"
      using decode4_sound by blast
    moreover have "4 \<le> length s" using e \<open>n = 4\<close> Cons by (auto simp: decode4_def split: list.splits)
    ultimately show ?thesis using Cons by simp
  qed
qed (use assms in simp)

text \<open>A valid string, one rune at a time: the induction every proof about strings uses.\<close>

lemma valid_utf8_induct [consumes 1, case_names Nil Rune]:
  assumes "valid_utf8 s" and "P []"
    and "\<And>r t. is_scalar r \<Longrightarrow> valid_utf8 t \<Longrightarrow> P t \<Longrightarrow> P (encode_rune r @ t)"
  shows "P s"
  using assms(1)
proof (induction s rule: valid_utf8.induct)
  case (1 s)
  show ?case
  proof (cases "s = []")
    case False
    obtain r n where d: "decode_rune s = (r, n)" by fastforce
    from 1(2) False d have v: "(r, n) \<noteq> (rune_error, 1)" "valid_utf8 (drop n s)"
      by (auto simp: valid_utf8.simps [of s])
    from decode_rune_sound [OF d v(1) False] have "is_scalar r" "encode_rune r = take n s" by auto
    moreover have "P (drop n s)" using 1 False d v by auto
    ultimately show ?thesis using assms(3) [of r "drop n s"] v(2) by simp
  qed (use assms(2) in simp)
qed

lemma decode_rune_encode_not_error:
  "is_scalar r \<Longrightarrow> decode_rune (encode_rune r @ t) \<noteq> (rune_error, 1)"
  by (auto simp: decode_rune_encode)
    (auto simp: encode_rune_def encode3_def rune_error_def is_surrogate_def)

lemma runes_encode [simp]: "is_scalar r \<Longrightarrow> runes (encode_rune r @ t) = r # runes t"
  by (subst runes.simps) (simp add: decode_rune_encode)

lemma valid_utf8_encode [simp]:
  assumes "is_scalar r"
  shows "valid_utf8 (encode_rune r @ t) = valid_utf8 t"
  using decode_rune_encode_not_error [OF assms, of t]
  by (subst valid_utf8.simps) (simp add: decode_rune_encode assms)

lemma valid_utf8_append: "valid_utf8 s \<Longrightarrow> valid_utf8 (s @ t) = valid_utf8 t"
  by (induction s rule: valid_utf8_induct) simp_all

lemma runes_valid: "valid_utf8 s \<Longrightarrow> list_all is_scalar (runes s) \<and> concat (map encode_rune (runes s)) = s"
  by (induction s rule: valid_utf8_induct) auto

lemma utf16_decode_scalar:
  "utf16_decode a b \<noteq> rune_error \<Longrightarrow> is_scalar (utf16_decode a b)"
  by (auto simp: utf16_decode_def is_scalar_def is_surrogate_def split: if_splits)

section \<open>White space\<close>

text \<open>\<^verbatim>\<open>unicode.IsSpace\<close>, and \<^verbatim>\<open>strings.TrimSpace(s) == ""\<close>.\<close>

definition is_space_rune :: "nat \<Rightarrow> bool" where
  "is_space_rune r \<longleftrightarrow>
     r \<in> {0x09, 0x0A, 0x0B, 0x0C, 0x0D, 0x20, 0x85, 0xA0, 0x1680, 0x2028, 0x2029, 0x202F, 0x205F, 0x3000} \<or>
     0x2000 \<le> r \<and> r \<le> 0x200A"

definition is_blank :: "bytes \<Rightarrow> bool" where
  "is_blank s \<longleftrightarrow> list_all is_space_rune (runes s)"

end
