(* ===== verification/Canon.thy ===== *)
theory Canon
  imports Utf8
begin

text \<open>
  The canonical form of JSON values (\<^verbatim>\<open>src/go/canon.go\<close>): the values, their canonical bytes,
  and the parser that accepts the canonical domain only.

  An object is the list of its members in the order of insertion, each name once: the struct's
  \<^verbatim>\<open>names\<close> and \<^verbatim>\<open>byName\<close> together.  The parser's state is the struct's, with the unread bytes
  \<^verbatim>\<open>data[pos:]\<close> in place of the data and the position; the text of its errors, and the position
  they print, are left out, and each kind of error is a constructor.  The recursive descent is
  written with fuel; \<open>document\<close> gives it three units per byte and one more, and
  \<open>Canon_Roundtrip\<close> proves that this never runs out.
\<close>

section \<open>Values\<close>

definition maxSafeInteger :: int where
  "maxSafeInteger = 9007199254740991"

definition minSafeInteger :: int where
  "minSafeInteger = -9007199254740991"

datatype jvalue =
    VObject "(bytes \<times> jvalue) list"
  | VArray "jvalue list"
  | VString bytes
  | VInt int
  | VBool bool
  | VNull
  | VNumber bytes

type_synonym members = "(bytes \<times> jvalue) list"

text \<open>\<^verbatim>\<open>vObject.set\<close>: a new name is appended, a name that is there keeps its place.\<close>

fun obj_set :: "members \<Rightarrow> bytes \<Rightarrow> jvalue \<Rightarrow> members" where
  "obj_set [] n v = [(n, v)]"
| "obj_set ((m, w) # ms) n v = (if m = n then (m, v) # ms else (m, w) # obj_set ms n v)"

definition obj_get :: "members \<Rightarrow> bytes \<Rightarrow> jvalue option" where
  "obj_get ms n = map_of ms n"

section \<open>Canonical bytes\<close>

definition escape_rune :: "nat \<Rightarrow> bytes" where
  "escape_rune r =
     (if r = 0x22 then [CHR 0x5C, CHR 0x22]
      else if r = 0x5C then [CHR 0x5C, CHR 0x5C]
      else if r = 0x08 then CHR 0x5C # ''b''
      else if r = 0x0C then CHR 0x5C # ''f''
      else if r = 0x0A then CHR 0x5C # ''n''
      else if r = 0x0D then CHR 0x5C # ''r''
      else if r = 0x09 then CHR 0x5C # ''t''
      else if r < 0x20 then CHR 0x5C # ''u00'' @ [hex_digit (r div 16), hex_digit (r mod 16)]
      else encode_rune r)"

definition writeCanonicalString :: "bytes \<Rightarrow> bytes" where
  "writeCanonicalString s = CHR 0x22 # concat (map escape_rune (runes s)) @ [CHR 0x22]"

fun comma_join :: "bytes list \<Rightarrow> bytes" where
  "comma_join [] = []"
| "comma_join [x] = x"
| "comma_join (x # xs) = x @ CHR '','' # comma_join xs"

primrec canonWrite :: "jvalue \<Rightarrow> bytes" where
  "canonWrite (VObject ms) =
     CHR ''{'' #
     comma_join (map (\<lambda>(n, w). writeCanonicalString n @ CHR '':'' # w)
                     (sort_key fst (map (map_prod id canonWrite) ms))) @ ''}''"
| "canonWrite (VArray vs) = CHR ''['' # comma_join (map canonWrite vs) @ '']''"
| "canonWrite (VString s) = writeCanonicalString s"
| "canonWrite (VInt i) = format_int i"
| "canonWrite (VBool b) = (if b then ''true'' else ''false'')"
| "canonWrite VNull = ''null''"
| "canonWrite (VNumber s) = s"

primrec canonicalValue :: "jvalue \<Rightarrow> bool" where
  "canonicalValue (VObject ms) = list_all (\<lambda>(n, b). b) (map (map_prod id canonicalValue) ms)"
| "canonicalValue (VArray vs) = list_all id (map canonicalValue vs)"
| "canonicalValue (VString s) = True"
| "canonicalValue (VInt i) = True"
| "canonicalValue (VBool b) = True"
| "canonicalValue VNull = True"
| "canonicalValue (VNumber s) = False"

definition canon :: "jvalue \<Rightarrow> bytes" where
  "canon v = canonWrite v"

section \<open>The parser\<close>

definition maxNesting :: nat where
  "maxNesting = 10000"

record parser =
  p_rest :: bytes
  p_depth :: nat
  p_maxValues :: nat
  p_values :: nat
  p_anyNumber :: bool
  p_unsigned :: bool

datatype parse_error =
    UnexpectedEnd | OverBudget | TooDeep | UnexpectedByte | ExpectedLiteral
  | ExpectedName | DuplicateName | ExpectedColon | UnterminatedObject | ExpectedCommaOrBrace
  | UnterminatedArray | ExpectedCommaOrBracket
  | UnterminatedString | UnterminatedEscape | InvalidEscape | ControlCharacter | InvalidUtf8
  | LoneSurrogate | TruncatedEscape | InvalidHex
  | SignedNumber | ExpectedDigits | LeadingZero | FractionLiteral | ExponentLiteral
  | OutsideInt64 | OutsideSafeRange | TrailingContent | OutOfFuel

definition is_json_space :: "char \<Rightarrow> bool" where
  "is_json_space c \<longleftrightarrow> byte c \<in> {0x20, 0x09, 0x0A, 0x0D}"

definition skip_space :: "bytes \<Rightarrow> bytes" where
  "skip_space s = dropWhile is_json_space s"

definition skipWhitespace :: "parser \<Rightarrow> parser" where
  "skipWhitespace p = p\<lparr>p_rest := skip_space (p_rest p)\<rparr>"

definition descend :: "parser \<Rightarrow> parse_error + parser" where
  "descend p = (if p_depth p \<ge> maxNesting then Inl TooDeep else Inr (p\<lparr>p_depth := Suc (p_depth p)\<rparr>))"

definition startsValue :: "char \<Rightarrow> bool" where
  "startsValue c \<longleftrightarrow>
     c = CHR ''{'' \<or> c = CHR ''['' \<or> c = CHR 0x22 \<or> c = CHR ''t'' \<or> c = CHR ''f'' \<or> c = CHR ''n''
     \<or> c = CHR ''-'' \<or> is_digit c"

definition expectLiteral :: "bytes \<Rightarrow> parser \<Rightarrow> parse_error + parser" where
  "expectLiteral lit p =
     (case cut_prefix lit (p_rest p) of
        None \<Rightarrow> Inl ExpectedLiteral
      | Some r \<Rightarrow> Inr (p\<lparr>p_rest := r\<rparr>))"

subsection \<open>Strings\<close>

text \<open>Four digits keep a 16-bit number in range, so the shift \<^verbatim>\<open>n<<4 | d\<close> loses nothing.\<close>

definition readHex4 :: "bytes \<Rightarrow> parse_error + nat \<times> bytes" where
  "readHex4 s =
     (case s of
        a # b # c # d # r \<Rightarrow>
          (case (hex_val a, hex_val b, hex_val c, hex_val d) of
             (Some w, Some x, Some y, Some z) \<Rightarrow> Inr (((w * 16 + x) * 16 + y) * 16 + z, r)
           | _ \<Rightarrow> Inl InvalidHex)
      | _ \<Rightarrow> Inl TruncatedEscape)"

definition parseUnicodeEscape :: "bytes \<Rightarrow> parse_error + nat \<times> bytes" where
  "parseUnicodeEscape s =
     (case readHex4 s of
        Inl e \<Rightarrow> Inl e
      | Inr (u1, r1) \<Rightarrow>
          if \<not> is_surrogate u1 then Inr (u1, r1)
          else (case cut_prefix (CHR 0x5C # ''u'') r1 of
                  None \<Rightarrow> Inl LoneSurrogate
                | Some r2 \<Rightarrow>
                    (case readHex4 r2 of
                       Inl e \<Rightarrow> Inl e
                     | Inr (u2, r3) \<Rightarrow>
                         if utf16_decode u1 u2 \<noteq> rune_error then Inr (utf16_decode u1 u2, r3)
                         else Inl LoneSurrogate)))"

definition short_escape :: "char \<Rightarrow> char option" where
  "short_escape e =
     (if e = CHR 0x22 then Some (CHR 0x22)
      else if e = CHR 0x5C then Some (CHR 0x5C)
      else if e = CHR ''/'' then Some (CHR ''/'')
      else if e = CHR ''b'' then Some (CHR 0x08)
      else if e = CHR ''f'' then Some (CHR 0x0C)
      else if e = CHR ''n'' then Some (CHR 0x0A)
      else if e = CHR ''r'' then Some (CHR 0x0D)
      else if e = CHR ''t'' then Some (CHR 0x09)
      else None)"

lemma readHex4_length [gw_len]: "readHex4 s = Inr (u, r) \<Longrightarrow> length s = length r + 4"
  by (auto simp: readHex4_def split: list.splits option.splits)

lemma cut_prefix_length [gw_len]: "cut_prefix p s = Some r \<Longrightarrow> length s = length p + length r"
  by (simp add: cut_prefix_eq_Some)

lemma parseUnicodeEscape_length [gw_len]:
  "parseUnicodeEscape s = Inr (u, r) \<Longrightarrow> length r < length s"
  by (auto simp: parseUnicodeEscape_def split: sum.splits if_splits option.splits
      dest!: gw_len)

text \<open>The loop of \<^verbatim>\<open>parseString\<close>, after the opening quote, with the string built so far.\<close>

function parseString :: "bytes \<Rightarrow> bytes \<Rightarrow> parse_error + bytes \<times> bytes" where
  "parseString sb s =
     (case s of
        [] \<Rightarrow> Inl UnterminatedString
      | c # r \<Rightarrow>
          if c = CHR 0x22 then Inr (sb, r)
          else if c = CHR 0x5C then
            (case r of
               [] \<Rightarrow> Inl UnterminatedEscape
             | e # r' \<Rightarrow>
                 (case short_escape e of
                    Some b \<Rightarrow> parseString (sb @ [b]) r'
                  | None \<Rightarrow>
                      if e = CHR ''u'' then
                        (case parseUnicodeEscape r' of
                           Inl err \<Rightarrow> Inl err
                         | Inr (u, r'') \<Rightarrow> parseString (sb @ encode_rune u) r'')
                      else Inl InvalidEscape))
          else if byte c < 0x20 then Inl ControlCharacter
          else if byte c < 0x80 then parseString (sb @ [c]) r
          else if decode_rune s = (rune_error, 1) then Inl InvalidUtf8
          else parseString (sb @ take (snd (decode_rune s)) s) (drop (snd (decode_rune s)) s))"
  by pat_completeness auto
termination
  by (relation "measure (\<lambda>(sb, s). length s)")
    (auto dest: parseUnicodeEscape_length simp: decode_rune_size_pos simp del: decode_rune.simps)

declare parseString.simps [simp del]

subsection \<open>Numbers\<close>

definition is_exponent_mark :: "char \<Rightarrow> bool" where
  "is_exponent_mark c \<longleftrightarrow> c = CHR ''e'' \<or> c = CHR ''E''"

definition in_safe_range :: "int \<Rightarrow> bool" where
  "in_safe_range n \<longleftrightarrow> minSafeInteger \<le> n \<and> n \<le> maxSafeInteger"

text \<open>The optional fraction and the optional exponent of \<^verbatim>\<open>parseAnyNumber\<close>: what was read, and
  what is left.\<close>

definition any_fraction :: "bytes \<Rightarrow> parse_error + bytes \<times> bytes" where
  "any_fraction s =
     (case s of
        c # r \<Rightarrow>
          if c = CHR ''.'' then
            (if takeWhile is_digit r = [] then Inl ExpectedDigits
             else Inr (c # takeWhile is_digit r, dropWhile is_digit r))
          else Inr ([], s)
      | [] \<Rightarrow> Inr ([], s))"

definition any_exponent :: "bytes \<Rightarrow> parse_error + bytes \<times> bytes" where
  "any_exponent s =
     (case s of
        c # r \<Rightarrow>
          if is_exponent_mark c then
            (let sign = (if take 1 r = ''+'' \<or> take 1 r = ''-'' then take 1 r else []);
                 ds = drop (length sign) r
             in if takeWhile is_digit ds = [] then Inl ExpectedDigits
                else Inr (c # sign @ takeWhile is_digit ds, dropWhile is_digit ds))
          else Inr ([], s)
      | [] \<Rightarrow> Inr ([], s))"

definition parseAnyNumber :: "bytes \<Rightarrow> parser \<Rightarrow> parse_error + jvalue \<times> parser" where
  "parseAnyNumber int_part p =
     (case any_fraction (p_rest p) of
        Inl e \<Rightarrow> Inl e
      | Inr (f, r1) \<Rightarrow>
          (case any_exponent r1 of
             Inl e \<Rightarrow> Inl e
           | Inr (x, r2) \<Rightarrow>
               (let lit = int_part @ f @ x;
                    kept = Inr (VNumber lit, p\<lparr>p_rest := r2\<rparr>)
                in if f = [] \<and> x = []
                   then (case parse_int lit of
                           Some n \<Rightarrow> if in_safe_range n then Inr (VInt n, p\<lparr>p_rest := r2\<rparr>) else kept
                         | None \<Rightarrow> kept)
                   else kept)))"

definition parseNumber :: "parser \<Rightarrow> parse_error + jvalue \<times> parser" where
  "parseNumber p =
     (let s = p_rest p;
          sign = (if take 1 s = ''-'' then ''-'' else []);
          ds = takeWhile is_digit (drop (length sign) s);
          r = dropWhile is_digit (drop (length sign) s)
      in if sign \<noteq> [] \<and> p_unsigned p then Inl SignedNumber
         else if ds = [] then Inl ExpectedDigits
         else if hd ds = CHR ''0'' \<and> length ds > 1 then Inl LeadingZero
         else if p_anyNumber p then parseAnyNumber (sign @ ds) (p\<lparr>p_rest := r\<rparr>)
         else if take 1 r = ''.'' then Inl FractionLiteral
         else if take 1 r = ''e'' \<or> take 1 r = ''E'' then Inl ExponentLiteral
         else (case parse_int (sign @ ds) of
                 None \<Rightarrow> Inl OutsideInt64
               | Some n \<Rightarrow> if in_safe_range n then Inr (VInt n, p\<lparr>p_rest := r\<rparr>)
                          else Inl OutsideSafeRange))"

subsection \<open>Values\<close>

text \<open>The value budget of \<^verbatim>\<open>parseValue\<close>: a byte that begins a value is counted before the value
  is made, and refused past the budget.\<close>

definition count_value :: "char \<Rightarrow> parser \<Rightarrow> parse_error + parser" where
  "count_value c p =
     (if p_maxValues p > 0 \<and> startsValue c
      then if p_values p \<ge> p_maxValues p then Inl OverBudget
           else Inr (p\<lparr>p_values := Suc (p_values p)\<rparr>)
      else Inr p)"

definition advance :: "parser \<Rightarrow> parser" where
  "advance p = p\<lparr>p_rest := drop 1 (p_rest p)\<rparr>"

definition literal_value :: "jvalue \<Rightarrow> bytes \<Rightarrow> parser \<Rightarrow> parse_error + jvalue \<times> parser" where
  "literal_value v lit p = (case expectLiteral lit p of Inl e \<Rightarrow> Inl e | Inr q \<Rightarrow> Inr (v, q))"

definition string_value :: "parser \<Rightarrow> parse_error + jvalue \<times> parser" where
  "string_value p =
     (case parseString [] (drop 1 (p_rest p)) of
        Inl e \<Rightarrow> Inl e
      | Inr (s, r) \<Rightarrow> Inr (VString s, p\<lparr>p_rest := r\<rparr>))"

text \<open>A member's name up to the value after its colon, the loop head of \<^verbatim>\<open>parseObject\<close>.\<close>

definition parse_name :: "members \<Rightarrow> parser \<Rightarrow> parse_error + bytes \<times> parser" where
  "parse_name obj p =
     (if take 1 (p_rest p) \<noteq> [CHR 0x22] then Inl ExpectedName
      else (case parseString [] (drop 1 (p_rest p)) of
              Inl e \<Rightarrow> Inl e
            | Inr (name, r) \<Rightarrow>
                if obj_get obj name \<noteq> None then Inl DuplicateName
                else if take 1 (skip_space r) \<noteq> '':'' then Inl ExpectedColon
                else Inr (name, p\<lparr>p_rest := skip_space (drop 1 (skip_space r))\<rparr>)))"

fun parseValue :: "nat \<Rightarrow> parser \<Rightarrow> parse_error + jvalue \<times> parser"
  and parseObject :: "nat \<Rightarrow> parser \<Rightarrow> parse_error + jvalue \<times> parser"
  and parseMembers :: "nat \<Rightarrow> members \<Rightarrow> parser \<Rightarrow> parse_error + jvalue \<times> parser"
  and parseArray :: "nat \<Rightarrow> parser \<Rightarrow> parse_error + jvalue \<times> parser"
  and parseElements :: "nat \<Rightarrow> jvalue list \<Rightarrow> parser \<Rightarrow> parse_error + jvalue \<times> parser"
where
  "parseValue 0 p = Inl OutOfFuel"
| "parseValue (Suc k) p0 =
     (case p_rest p0 of
        [] \<Rightarrow> Inl UnexpectedEnd
      | c # _ \<Rightarrow>
          (case count_value c p0 of
             Inl e \<Rightarrow> Inl e
           | Inr p \<Rightarrow>
               if c = CHR ''{'' then
                 (case descend p of
                    Inl e \<Rightarrow> Inl e
                  | Inr q \<Rightarrow>
                      (case parseObject k q of
                         Inl e \<Rightarrow> Inl e
                       | Inr (v, q') \<Rightarrow> Inr (v, q'\<lparr>p_depth := p_depth q' - 1\<rparr>)))
               else if c = CHR ''['' then
                 (case descend p of
                    Inl e \<Rightarrow> Inl e
                  | Inr q \<Rightarrow>
                      (case parseArray k q of
                         Inl e \<Rightarrow> Inl e
                       | Inr (v, q') \<Rightarrow> Inr (v, q'\<lparr>p_depth := p_depth q' - 1\<rparr>)))
               else if c = CHR 0x22 then string_value p
               else if c = CHR ''t'' then literal_value (VBool True) ''true'' p
               else if c = CHR ''f'' then literal_value (VBool False) ''false'' p
               else if c = CHR ''n'' then literal_value VNull ''null'' p
               else if c = CHR ''-'' \<or> is_digit c then parseNumber p
               else Inl UnexpectedByte))"
| "parseObject 0 p = Inl OutOfFuel"
| "parseObject (Suc k) p =
     (let q = skipWhitespace (advance p) in
      if take 1 (p_rest q) = ''}'' then Inr (VObject [], advance q)
      else parseMembers k [] q)"
| "parseMembers 0 obj p = Inl OutOfFuel"
| "parseMembers (Suc k) obj p =
     (case parse_name obj (skipWhitespace p) of
        Inl e \<Rightarrow> Inl e
      | Inr (name, q) \<Rightarrow>
          (case parseValue k q of
             Inl e \<Rightarrow> Inl e
           | Inr (v, q1) \<Rightarrow>
               (let q2 = skipWhitespace q1 in
                case p_rest q2 of
                  [] \<Rightarrow> Inl UnterminatedObject
                | c # _ \<Rightarrow>
                    if c = CHR '','' then parseMembers k (obj_set obj name v) (advance q2)
                    else if c = CHR ''}'' then Inr (VObject (obj_set obj name v), advance q2)
                    else Inl ExpectedCommaOrBrace)))"
| "parseArray 0 p = Inl OutOfFuel"
| "parseArray (Suc k) p =
     (let q = skipWhitespace (advance p) in
      if take 1 (p_rest q) = '']'' then Inr (VArray [], advance q)
      else parseElements k [] q)"
| "parseElements 0 arr p = Inl OutOfFuel"
| "parseElements (Suc k) arr p =
     (case parseValue k (skipWhitespace p) of
        Inl e \<Rightarrow> Inl e
      | Inr (v, q1) \<Rightarrow>
          (let q2 = skipWhitespace q1 in
           case p_rest q2 of
             [] \<Rightarrow> Inl UnterminatedArray
           | c # _ \<Rightarrow>
               if c = CHR '','' then parseElements k (arr @ [v]) (advance q2)
               else if c = CHR '']'' then Inr (VArray (arr @ [v]), advance q2)
               else Inl ExpectedCommaOrBracket))"

definition document :: "parser \<Rightarrow> parse_error + jvalue" where
  "document p =
     (let q = skipWhitespace p in
      case parseValue (3 * length (p_rest q) + 1) q of
        Inl e \<Rightarrow> Inl e
      | Inr (v, q') \<Rightarrow> if p_rest (skipWhitespace q') \<noteq> [] then Inl TrailingContent else Inr v)"

definition new_parser :: "bytes \<Rightarrow> nat \<Rightarrow> bool \<Rightarrow> bool \<Rightarrow> parser" where
  "new_parser data maxv anyn uns =
     \<lparr>p_rest = data, p_depth = 0, p_maxValues = maxv, p_values = 0, p_anyNumber = anyn,
      p_unsigned = uns\<rparr>"

definition parseJSON :: "bytes \<Rightarrow> parse_error + jvalue" where
  "parseJSON data = document (new_parser data 0 False False)"

definition parseJSONWithin :: "bytes \<Rightarrow> nat \<Rightarrow> parse_error + jvalue" where
  "parseJSONWithin data maxv = document (new_parser data maxv False False)"

definition parseRecordJSON :: "bytes \<Rightarrow> parse_error + jvalue" where
  "parseRecordJSON data = document (new_parser data 0 True False)"

definition parseStatementJSON :: "bytes \<Rightarrow> nat \<Rightarrow> parse_error + jvalue" where
  "parseStatementJSON data maxv = document (new_parser data maxv False True)"

definition canonText :: "bytes \<Rightarrow> parse_error + bytes" where
  "canonText t = (case parseJSON t of Inl e \<Rightarrow> Inl e | Inr v \<Rightarrow> Inr (canon v))"

definition memberString :: "members \<Rightarrow> bytes \<Rightarrow> bytes option" where
  "memberString obj name =
     (case obj_get obj name of Some (VString s) \<Rightarrow> Some s | _ \<Rightarrow> None)"

section \<open>Objects\<close>

lemma obj_get_set: "obj_get (obj_set ms n v) m = (if m = n then Some v else obj_get ms m)"
  unfolding obj_get_def by (induction ms n v rule: obj_set.induct) auto

lemma obj_set_new: "obj_get ms n = None \<Longrightarrow> obj_set ms n v = ms @ [(n, v)]"
  unfolding obj_get_def by (induction ms n v rule: obj_set.induct) (auto split: if_splits)

lemma set_fst_obj_set: "fst ` set (obj_set ms n v) = insert n (fst ` set ms)"
  by (induction ms n v rule: obj_set.induct) auto

lemma distinct_obj_set: "distinct (map fst ms) \<Longrightarrow> distinct (map fst (obj_set ms n v))"
proof (induction ms n v rule: obj_set.induct)
  case (2 m w ms n v)
  then show ?case using set_fst_obj_set [of ms n v] by (auto simp flip: set_map)
qed simp

end
