(* ===== verification/Canon_Roundtrip.thy ===== *)
theory Canon_Roundtrip
  imports Canon
begin

text \<open>
  What the canonical form promises the signatures over it.  \<open>wf_json\<close> is the domain: names
  distinct in every object, strings valid UTF-8, integers in the safe range.  The parser
  answers values of the domain only, within the nesting bound; printing a value of the domain
  and parsing it back gives the value with every object's members in ascending order
  (\<open>norm_json\<close>); so two values have the same canonical bytes exactly when they differ at most
  in the order of members, and canonicalization is idempotent.
\<close>

section \<open>The canonical domain\<close>

primrec wf_json :: "bool \<Rightarrow> jvalue \<Rightarrow> bool" where
  "wf_json a (VObject ms) \<longleftrightarrow>
     distinct (map fst ms) \<and> list_all (\<lambda>(n, b). valid_utf8 n \<and> b) (map (map_prod id (wf_json a)) ms)"
| "wf_json a (VArray vs) \<longleftrightarrow> list_all id (map (wf_json a) vs)"
| "wf_json a (VString s) \<longleftrightarrow> valid_utf8 s"
| "wf_json a (VInt i) \<longleftrightarrow> in_safe_range i"
| "wf_json a (VBool b) \<longleftrightarrow> True"
| "wf_json a VNull \<longleftrightarrow> True"
| "wf_json a (VNumber s) \<longleftrightarrow> a"

primrec jdepth :: "jvalue \<Rightarrow> nat" where
  "jdepth (VObject ms) = Suc (foldr max (map snd (map (map_prod id jdepth) ms)) 0)"
| "jdepth (VArray vs) = Suc (foldr max (map jdepth vs) 0)"
| "jdepth (VString s) = 0"
| "jdepth (VInt i) = 0"
| "jdepth (VBool b) = 0"
| "jdepth VNull = 0"
| "jdepth (VNumber s) = 0"

primrec jcount :: "jvalue \<Rightarrow> nat" where
  "jcount (VObject ms) = Suc (sum_list (map snd (map (map_prod id jcount) ms)))"
| "jcount (VArray vs) = Suc (sum_list (map jcount vs))"
| "jcount (VString s) = 1"
| "jcount (VInt i) = 1"
| "jcount (VBool b) = 1"
| "jcount VNull = 1"
| "jcount (VNumber s) = 1"

primrec norm_json :: "jvalue \<Rightarrow> jvalue" where
  "norm_json (VObject ms) = VObject (sort_key fst (map (map_prod id norm_json) ms))"
| "norm_json (VArray vs) = VArray (map norm_json vs)"
| "norm_json (VString s) = VString s"
| "norm_json (VInt i) = VInt i"
| "norm_json (VBool b) = VBool b"
| "norm_json VNull = VNull"
| "norm_json (VNumber s) = VNumber s"

lemma wf_VObject_iff:
  "wf_json a (VObject ms) \<longleftrightarrow>
     distinct (map fst ms) \<and> (\<forall>(n, v) \<in> set ms. valid_utf8 n \<and> wf_json a v)"
  by (fastforce simp: list_all_iff)

lemma wf_VArray_iff: "wf_json a (VArray vs) \<longleftrightarrow> (\<forall>v \<in> set vs. wf_json a v)"
  by (auto simp: list_all_iff)

declare wf_json.simps(1,2) [simp del]

lemma foldr_max_le_iff: "foldr max xs (0::nat) \<le> n \<longleftrightarrow> (\<forall>x \<in> set xs. x \<le> n)"
  by (induction xs) auto

lemma le_foldr_max: "x \<in> set xs \<Longrightarrow> x \<le> foldr max xs (0::nat)"
  by (induction xs) auto

lemma jdepth_member: "(n, v) \<in> set ms \<Longrightarrow> jdepth v < jdepth (VObject ms)"
  using le_foldr_max [of "jdepth v" "map snd (map (map_prod id jdepth) ms)"]
  by (force simp: less_Suc_eq_le)

lemma jdepth_element: "v \<in> set vs \<Longrightarrow> jdepth v < jdepth (VArray vs)"
  using le_foldr_max [of "jdepth v" "map jdepth vs"] by (simp add: less_Suc_eq_le)

lemma jdepth_VObject_le:
  "jdepth (VObject ms) \<le> n \<longleftrightarrow> 0 < n \<and> (\<forall>(m, v) \<in> set ms. jdepth v \<le> n - 1)"
  by (cases n) (auto simp: foldr_max_le_iff)

lemma jdepth_VArray_le:
  "jdepth (VArray vs) \<le> n \<longleftrightarrow> 0 < n \<and> (\<forall>v \<in> set vs. jdepth v \<le> n - 1)"
  by (cases n) (auto simp: foldr_max_le_iff)

lemma jvalue_induct [case_names Object Array String Int Bool Null Number]:
  assumes "\<And>ms. (\<And>n v. (n, v) \<in> set ms \<Longrightarrow> P v) \<Longrightarrow> P (VObject ms)"
    and "\<And>vs. (\<And>v. v \<in> set vs \<Longrightarrow> P v) \<Longrightarrow> P (VArray vs)"
    and "\<And>s. P (VString s)" and "\<And>i. P (VInt i)" and "\<And>b. P (VBool b)" and "P VNull"
    and "\<And>s. P (VNumber s)"
  shows "P v"
proof (induction v)
  case (VObject ms)
  show ?case
    by (rule assms(1), rule VObject) auto
qed (use assms in auto)

section \<open>Members in order\<close>

lemma insort_key_map_prod:
  "insort_key fst (map_prod id f x) (map (map_prod id f) xs) = map (map_prod id f) (insort_key fst x xs)"
  by (induction xs) (auto simp: map_prod_def split: prod.splits)

lemma sort_key_map_prod:
  "sort_key fst (map (map_prod id f) xs) = map (map_prod id f) (sort_key fst xs)"
proof (induction xs)
  case (Cons x xs)
  then show ?case
    by (simp only: list.map sort_key_simps insort_key_map_prod)
qed simp

lemma sort_key_sort_key [simp]: "sort_key f (sort_key f xs) = sort_key f xs"
  by (rule sort_key_id_if_sorted) simp

abbreviation on_value :: "('a \<Rightarrow> 'b) \<Rightarrow> bytes \<times> 'a \<Rightarrow> bytes \<times> 'b" where
  "on_value f \<equiv> \<lambda>(n, v). (n, f v)"

lemma map_prod_on_value: "map_prod id f = on_value f"
  by (auto simp: fun_eq_iff)

lemma sort_key_on_value:
  "sort_key fst (map (on_value f) xs) = map (on_value f) (sort_key fst xs)"
  using sort_key_map_prod [of f xs] by (simp only: map_prod_on_value)

abbreviation write_member :: "bytes \<times> jvalue \<Rightarrow> bytes" where
  "write_member \<equiv> \<lambda>(n, v). writeCanonicalString n @ CHR '':'' # canonWrite v"

lemma canonWrite_VObject:
  "canonWrite (VObject ms) = CHR ''{'' # comma_join (map write_member (sort_key fst ms)) @ ''}''"
proof -
  have "map (\<lambda>(n, w). writeCanonicalString n @ CHR '':'' # w) (map (on_value canonWrite) xs)
      = map write_member xs" for xs
    by auto
  then show ?thesis by (simp only: canonWrite.simps map_prod_on_value sort_key_on_value)
qed

lemma norm_VObject: "norm_json (VObject ms) = VObject (map (on_value norm_json) (sort_key fst ms))"
  by (simp only: norm_json.simps map_prod_on_value sort_key_on_value)

declare canonWrite.simps(1) [simp del] norm_json.simps(1) [simp del]

text \<open>The canonical bytes do not depend on the order of insertion.\<close>

lemma canonWrite_norm: "canonWrite (norm_json v) = canonWrite v"
proof (induction v rule: jvalue_induct)
  case (Object ms)
  have "map write_member (map (on_value norm_json) (sort_key fst ms)) = map write_member (sort_key fst ms)"
    using Object by auto
  then show ?case
    by (simp only: norm_VObject canonWrite_VObject sort_key_on_value sort_key_sort_key)
next
  case (Array vs)
  then have "map (canonWrite \<circ> norm_json) vs = map canonWrite vs" by simp
  then show ?case by (simp only: norm_json.simps canonWrite.simps map_map)
qed simp_all

section \<open>Strings\<close>

lemma hex_val_zero [simp]: "hex_val CHR ''0'' = Some 0"
  by (simp add: hex_val_def is_digit_def)

lemma parse_control_escape:
  assumes "r < 0x20"
  shows "parseString sb (CHR 0x5C # ''u00'' @ [hex_digit (r div 16), hex_digit (r mod 16)] @ u)
    = parseString (sb @ encode_rune r) u"
proof -
  have d: "r div 16 < 16" using assms by simp
  have "readHex4 (''00'' @ [hex_digit (r div 16), hex_digit (r mod 16)] @ u) = Inr (r, u)"
    using d by (simp add: readHex4_def)
  then have "parseUnicodeEscape (''00'' @ [hex_digit (r div 16), hex_digit (r mod 16)] @ u) = Inr (r, u)"
    using assms by (simp add: parseUnicodeEscape_def is_surrogate_def)
  then show ?thesis
    by (subst parseString.simps) (simp add: short_escape_def)
qed

lemma parse_short_escape:
  "short_escape e = Some b \<Longrightarrow> parseString sb (CHR 0x5C # e # u) = parseString (sb @ [b]) u"
  by (subst parseString.simps) simp

lemma char_of_eq_char_iff: "r < 256 \<Longrightarrow> char_of r = c \<longleftrightarrow> r = byte c"
  by (metis char_of_char byte_char_of)

lemma parse_raw_rune:
  assumes "is_scalar r" and "0x20 \<le> r" and "r \<noteq> 0x22" and "r \<noteq> 0x5C"
  shows "parseString sb (encode_rune r @ u) = parseString (sb @ encode_rune r) u"
proof (cases "r < 0x80")
  case True
  then have "encode_rune r = [char_of r]" by (simp add: encode_rune_def)
  with assms True show ?thesis
    by (subst parseString.simps) (simp add: char_of_eq_char_iff)
next
  case False
  let ?s = "encode_rune r @ u"
  obtain c cs where s: "?s = c # cs" and c: "c = hd (encode_rune r)"
    by (cases "encode_rune r") auto
  have hi: "0x80 \<le> byte c" using encode_rune_hd_high [OF assms(1)] False c by simp
  then have ne: "c \<noteq> CHR 0x22" "c \<noteq> CHR 0x5C" by auto
  have d: "decode_rune ?s = (r, length (encode_rune r))" by (rule decode_rune_encode [OF assms(1)])
  have "parseString sb ?s = parseString (sb @ take (snd (decode_rune ?s)) ?s) (drop (snd (decode_rune ?s)) ?s)"
    using decode_rune_encode_not_error [OF assms(1), of u] ne hi
    by (subst parseString.simps) (simp add: s del: decode_rune.simps)
  then show ?thesis by (simp add: d)
qed

lemma parse_escape_rune:
  assumes "is_scalar r"
  shows "parseString sb (escape_rune r @ u) = parseString (sb @ encode_rune r) u"
proof -
  consider (short) "r \<in> {0x22, 0x5C, 0x08, 0x0C, 0x0A, 0x0D, 0x09}"
    | (ctl) "r < 0x20" "r \<notin> {0x22, 0x5C, 0x08, 0x0C, 0x0A, 0x0D, 0x09}"
    | (raw) "0x20 \<le> r" "r \<noteq> 0x22" "r \<noteq> 0x5C" by fastforce
  then show ?thesis
  proof cases
    case short
    then obtain e b where "escape_rune r = [CHR 0x5C, e]" and "short_escape e = Some b" and "r = byte b"
      by (auto simp: escape_rune_def short_escape_def)
    moreover from this short have "encode_rune r = [b]" by (auto simp: encode_rune_def)
    ultimately show ?thesis by (simp add: parse_short_escape)
  next
    case ctl
    then show ?thesis using parse_control_escape [of r sb u] by (simp add: escape_rune_def)
  next
    case raw
    with parse_raw_rune [OF assms] show ?thesis by (simp add: escape_rune_def)
  qed
qed

lemma parseString_escaped:
  "valid_utf8 s \<Longrightarrow>
   parseString sb (concat (map escape_rune (runes s)) @ CHR 0x22 # t) = Inr (sb @ s, t)"
proof (induction s arbitrary: sb rule: valid_utf8_induct)
  case Nil
  show ?case by (subst parseString.simps) simp
next
  case (Rune r s)
  then show ?case by (simp add: parse_escape_rune)
qed

section \<open>First bytes\<close>

lemma writeCanonicalString_Cons: "\<exists>r. writeCanonicalString s = CHR 0x22 # r"
  by (simp add: writeCanonicalString_def)

lemma digit_not_space: "is_digit c \<Longrightarrow> \<not> is_json_space c"
  by (auto simp: is_digit_def is_json_space_def)

lemma format_int_hd: "is_digit (hd (format_int i)) \<or> hd (format_int i) = CHR ''-''"
  by (simp add: format_int_def format_nat_hd_digit)

lemma format_int_neq_Nil [simp]: "format_int i \<noteq> []"
  by (simp add: format_int_def)

lemma skip_space_id: "s = [] \<or> \<not> is_json_space (hd s) \<Longrightarrow> skip_space s = s"
  by (simp add: skip_space_def dropWhile_id)

lemma skip_space_Cons [simp]: "\<not> is_json_space c \<Longrightarrow> skip_space (c # s) = c # s"
  by (simp add: skip_space_id)

lemma punctuation_not_space [simp]:
  "\<not> is_json_space CHR '',''" "\<not> is_json_space CHR '':''" "\<not> is_json_space CHR ''}''"
  "\<not> is_json_space CHR '']''" "\<not> is_json_space CHR 0x22"
  by (auto simp: is_json_space_def)

section \<open>Numbers\<close>

definition ends_number :: "bytes \<Rightarrow> bool" where
  "ends_number t \<longleftrightarrow> t = [] \<or> (\<not> is_digit (hd t) \<and> hd t \<noteq> CHR ''.'' \<and> \<not> is_exponent_mark (hd t))"

lemma take1_ends_number:
  assumes "ends_number t"
  shows "take 1 t \<noteq> ''.''" and "take 1 t \<noteq> ''e''" and "take 1 t \<noteq> ''E''"
  using assms by (cases t; auto simp: ends_number_def is_exponent_mark_def)+

lemma parseNumber_format:
  assumes "in_safe_range i" and "p_rest p = format_int i @ t" and "ends_number t"
    and "\<not> p_anyNumber p" and "\<not> p_unsigned p"
  shows "parseNumber p = Inr (VInt i, p\<lparr>p_rest := t\<rparr>)"
proof -
  define ds where "ds = format_nat (nat \<bar>i\<bar>)"
  define sign where "sign = (if i < 0 then ''-'' else [])"
  have f: "format_int i = sign @ ds" by (simp add: format_int_def sign_def ds_def)
  have dig: "list_all is_digit ds" "ds \<noteq> []" by (simp_all add: ds_def format_nat_digits)
  have sgn: "(if take 1 (p_rest p) = ''-'' then ''-'' else []) = sign"
    using take1_sign_digit [OF format_nat_hd_digit, of "nat \<bar>i\<bar>"] dig(2)
    by (cases ds) (auto simp: assms(2) f sign_def ds_def)
  have "is_digit (hd ds)" by (simp add: ds_def format_nat_hd_digit)
  have t: "t = [] \<or> \<not> is_digit (hd t)" using assms(3) by (auto simp: ends_number_def)
  have tw: "takeWhile is_digit (ds @ t) = ds" and dw: "dropWhile is_digit (ds @ t) = t"
    using takeWhile_append_stop [OF dig(1) t] dropWhile_append_stop [OF dig(1) t] by auto
  have zero: "\<not> (hd ds = CHR ''0'' \<and> length ds > 1)"
    using format_nat_hd_zero [of "nat \<bar>i\<bar>"] by (auto simp: ds_def)
  have "min_int64 \<le> i" "i \<le> max_int64"
    using assms(1)
    by (auto simp: in_safe_range_def minSafeInteger_def maxSafeInteger_def min_int64_def max_int64_def)
  then have "parse_int (sign @ ds) = Some i" using parse_int_format_int [of i] f by simp
  then show ?thesis
    using assms(1,4,5) dig(2) zero take1_ends_number [OF assms(3)]
    unfolding parseNumber_def Let_def sgn by (simp add: assms(2) f tw dw)
qed

section \<open>Printing then parsing\<close>

text \<open>The state of the canonical parser: no budget, no other numbers, signs allowed.\<close>

definition canonical_parser :: "parser \<Rightarrow> bool" where
  "canonical_parser p \<longleftrightarrow> p_maxValues p = 0 \<and> \<not> p_anyNumber p \<and> \<not> p_unsigned p"

lemma canonical_parser_upd [simp]:
  "canonical_parser (p\<lparr>p_rest := x\<rparr>) = canonical_parser p"
  "canonical_parser (p\<lparr>p_depth := d\<rparr>) = canonical_parser p"
  by (simp_all add: canonical_parser_def)

lemma count_value_canonical [simp]: "canonical_parser p \<Longrightarrow> count_value c p = Inr p"
  by (simp add: count_value_def canonical_parser_def)

lemma skipWhitespace_rest [simp]:
  "p_rest (skipWhitespace p) = skip_space (p_rest p)" "p_depth (skipWhitespace p) = p_depth p"
  "canonical_parser (skipWhitespace p) = canonical_parser p"
  by (simp_all add: skipWhitespace_def)

lemma advance_rest [simp]:
  "p_rest (advance p) = drop 1 (p_rest p)" "p_depth (advance p) = p_depth p"
  "canonical_parser (advance p) = canonical_parser p"
  by (simp_all add: advance_def)

lemma p_upd_upd [simp]:
  "(advance p)\<lparr>p_rest := x\<rparr> = p\<lparr>p_rest := x\<rparr>" "(skipWhitespace p)\<lparr>p_rest := x\<rparr> = p\<lparr>p_rest := x\<rparr>"
  by (simp_all add: advance_def skipWhitespace_def)

lemma ends_number_punctuation [simp]:
  "ends_number (CHR '','' # t)" "ends_number (CHR ''}'' # t)" "ends_number (CHR '']'' # t)"
  "ends_number []"
  by (auto simp: ends_number_def is_digit_def is_exponent_mark_def)

lemma comma_join_Cons:
  "comma_join (x # xs) @ t = x @ (if xs = [] then t else CHR '','' # comma_join xs @ t)"
  by (cases xs) auto

lemma obj_get_None_append:
  "distinct (map fst (obj @ (n, v) # ms)) \<Longrightarrow> obj_get obj n = None"
  by (auto simp: obj_get_def map_of_eq_None_iff)

lemma parser_depth_restore [simp]:
  "p\<lparr>p_depth := d, p_rest := t, p_depth := p_depth p\<rparr> = p\<lparr>p_rest := t\<rparr>"
  by simp

lemma descend_canonical:
  assumes "p_depth p + n \<le> maxNesting" and "0 < n"
  shows "descend p = Inr (p\<lparr>p_depth := Suc (p_depth p)\<rparr>)"
  using assms by (simp add: descend_def)

lemma ends_number_space: "list_all is_json_space t \<Longrightarrow> ends_number t"
  by (cases t) (auto simp: ends_number_def is_json_space_def is_digit_def is_exponent_mark_def)

lemma skip_space_all: "list_all is_json_space t \<Longrightarrow> skip_space t = []"
  by (auto simp: skip_space_def list_all_iff)

definition parses_to :: "(jvalue \<Rightarrow> bytes) \<Rightarrow> jvalue \<Rightarrow> bool" where
  "parses_to show_json v \<longleftrightarrow>
     (\<forall>p t k. canonical_parser p \<longrightarrow> p_rest p = show_json v @ t \<longrightarrow> ends_number t \<longrightarrow>
        p_depth p + jdepth v \<le> maxNesting \<longrightarrow> 3 * length (p_rest p) + 1 \<le> k \<longrightarrow>
        parseValue k p = Inr (norm_json v, p\<lparr>p_rest := t\<rparr>))"

text \<open>Two writers of values are read back by the parser: the canonical one, and \<^verbatim>\<open>encoding/json\<close>.  They differ
  in how they escape a string; what the proof needs of one is that it writes a string as a quote and
  bytes the reader of strings reads as that string, and the members of an object by name.\<close>

locale value_writer =
  fixes quoted :: "bytes \<Rightarrow> bytes" and show_json :: "jvalue \<Rightarrow> bytes"
  assumes quoted_read: "valid_utf8 s \<Longrightarrow> parseString [] (quoted s @ t) = Inr (s, t)"
    and write_sorted: "show_json (VObject ms) =
      CHR ''{'' # comma_join (map (\<lambda>(n, v). CHR 0x22 # quoted n @ CHR '':'' # show_json v) (sort_key fst ms)) @ ''}''"
    and write_array [simp]: "show_json (VArray vs) = CHR ''['' # comma_join (map show_json vs) @ '']''"
    and write_scalars [simp]: "show_json (VString s) = CHR 0x22 # quoted s" "show_json (VInt i) = format_int i"
      "show_json (VBool b) = (if b then ''true'' else ''false'')" "show_json VNull = ''null''"
begin

abbreviation member :: "bytes \<times> jvalue \<Rightarrow> bytes" where
  "member \<equiv> \<lambda>(n, v). CHR 0x22 # quoted n @ CHR '':'' # show_json v"

lemmas write_object = write_sorted

lemma write_first:
  assumes "wf_json False v"
  shows "show_json v \<noteq> []" and "\<not> is_json_space (hd (show_json v))"
    and "hd (show_json v) \<noteq> CHR '']''"
proof -
  have "show_json v \<noteq> [] \<and> \<not> is_json_space (hd (show_json v)) \<and> hd (show_json v) \<noteq> CHR '']''"
  proof (cases v)
    case (VInt i)
    with format_int_hd [of i] show ?thesis
      by (auto simp: is_json_space_def is_digit_def)
  qed (use assms in \<open>auto simp: write_object is_json_space_def\<close>)
  then show "show_json v \<noteq> []" and "\<not> is_json_space (hd (show_json v))"
    and "hd (show_json v) \<noteq> CHR '']''" by auto
qed

lemma parses_toD:
  assumes "parses_to show_json v" and "canonical_parser p" and "p_rest p = show_json v @ t"
    and "ends_number t" and "p_depth p + jdepth v \<le> maxNesting" and "3 * length (p_rest p) + 1 \<le> k"
  shows "parseValue k p = Inr (norm_json v, p\<lparr>p_rest := t\<rparr>)"
  using assms unfolding parses_to_def by blast

lemma parse_name_written:
  assumes "p_rest p = CHR 0x22 # quoted n @ CHR '':'' # u" and "valid_utf8 n"
    and "obj_get obj n = None" and "u \<noteq> []" and "\<not> is_json_space (hd u)"
  shows "parse_name obj p = Inr (n, p\<lparr>p_rest := u\<rparr>)"
  using assms quoted_read [OF assms(2), of "CHR '':'' # u"]
  by (simp add: parse_name_def skip_space_id)

lemma parseMembers_written:
  assumes "\<And>n v. (n, v) \<in> set ms \<Longrightarrow> parses_to show_json v \<and> wf_json False v \<and> valid_utf8 n"
    and "ms \<noteq> []" and "canonical_parser p"
    and "p_rest p = comma_join (map member ms) @ CHR ''}'' # t"
    and "\<And>n v. (n, v) \<in> set ms \<Longrightarrow> p_depth p + jdepth v \<le> maxNesting"
    and "distinct (map fst (obj @ ms))" and "3 * length (p_rest p) + 2 \<le> k"
  shows "parseMembers k obj p = Inr (VObject (obj @ map (on_value norm_json) ms), p\<lparr>p_rest := t\<rparr>)"
  using assms
proof (induction ms arbitrary: obj p k)
  case (Cons m ms)
  obtain n v where m: "m = (n, v)" by fastforce
  obtain j where k: "k = Suc j" using Cons.prems(7) by (cases k) auto
  define u where "u = (if ms = [] then CHR ''}'' # t
      else CHR '','' # comma_join (map member ms) @ CHR ''}'' # t)"
  have rest: "p_rest p = CHR 0x22 # quoted n @ CHR '':'' # show_json v @ u"
    using Cons.prems(4) by (simp add: m comma_join_Cons u_def del: comma_join.simps)
  have v: "parses_to show_json v" "wf_json False v" "valid_utf8 n" using Cons.prems(1) m by auto
  note first = write_first [OF v(2)]
  have sp: "skipWhitespace p = p"
    using rest by (simp add: skipWhitespace_def)
  have new: "obj_get obj n = None" using Cons.prems(6) m by (auto intro: obj_get_None_append)
  let ?q = "p\<lparr>p_rest := show_json v @ u\<rparr>"
  have name: "parse_name obj p = Inr (n, ?q)"
    by (rule parse_name_written [OF rest v(3) new]) (use first in auto)
  have eu: "ends_number u" by (simp add: u_def)
  have "parseValue j ?q = Inr (norm_json v, p\<lparr>p_rest := u\<rparr>)"
    using parses_toD [OF v(1), of ?q u j] Cons.prems(3,7) Cons.prems(5) [of n v] m rest eu
    by (simp add: k)
  note step = sp name this
  have snoc: "obj_set obj n (norm_json v) = obj @ [(n, norm_json v)]"
    by (rule obj_set_new [OF new])
  show ?case
  proof (cases "ms = []")
    case True
    with step snoc show ?thesis by (simp add: k m u_def skipWhitespace_def advance_def)
  next
    case False
    let ?r = "p\<lparr>p_rest := comma_join (map member ms) @ CHR ''}'' # t\<rparr>"
    have "parseMembers k obj p = parseMembers j (obj @ [(n, norm_json v)]) ?r"
      using step snoc False by (simp add: k u_def skipWhitespace_def advance_def)
    also have "\<dots> = Inr (VObject ((obj @ [(n, norm_json v)]) @ map (on_value norm_json) ms), ?r\<lparr>p_rest := t\<rparr>)"
      by (rule Cons.IH) (use Cons.prems False m rest in \<open>auto simp: k u_def\<close>)
    finally show ?thesis by (simp add: m)
  qed
qed simp

lemma parseElements_written:
  assumes "\<And>v. v \<in> set vs \<Longrightarrow> parses_to show_json v \<and> wf_json False v"
    and "vs \<noteq> []" and "canonical_parser p"
    and "p_rest p = comma_join (map show_json vs) @ CHR '']'' # t"
    and "\<And>v. v \<in> set vs \<Longrightarrow> p_depth p + jdepth v \<le> maxNesting"
    and "3 * length (p_rest p) + 2 \<le> k"
  shows "parseElements k arr p = Inr (VArray (arr @ map norm_json vs), p\<lparr>p_rest := t\<rparr>)"
  using assms
proof (induction vs arbitrary: arr p k)
  case (Cons v vs)
  obtain j where k: "k = Suc j" using Cons.prems(6) by (cases k) auto
  define u where "u = (if vs = [] then CHR '']'' # t
      else CHR '','' # comma_join (map show_json vs) @ CHR '']'' # t)"
  have rest: "p_rest p = show_json v @ u"
    using Cons.prems(4) by (simp add: comma_join_Cons u_def del: comma_join.simps)
  have v: "parses_to show_json v" "wf_json False v" using Cons.prems(1) by auto
  note first = write_first [OF v(2)]
  have sp: "skipWhitespace p = p"
    using rest first by (simp add: skipWhitespace_def skip_space_id)
  have eu: "ends_number u" by (simp add: u_def)
  have "parseValue j p = Inr (norm_json v, p\<lparr>p_rest := u\<rparr>)"
    using parses_toD [OF v(1), of p u j] Cons.prems(3,6) Cons.prems(5) [of v] rest eu
    by (simp add: k)
  note step = sp this
  show ?case
  proof (cases "vs = []")
    case True
    with step show ?thesis by (simp add: k u_def skipWhitespace_def advance_def)
  next
    case False
    let ?r = "p\<lparr>p_rest := comma_join (map show_json vs) @ CHR '']'' # t\<rparr>"
    have "parseElements k arr p = parseElements j (arr @ [norm_json v]) ?r"
      using step False by (simp add: k u_def skipWhitespace_def advance_def)
    also have "\<dots> = Inr (VArray ((arr @ [norm_json v]) @ map norm_json vs), ?r\<lparr>p_rest := t\<rparr>)"
      by (rule Cons.IH) (use Cons.prems False rest in \<open>auto simp: k u_def\<close>)
    finally show ?thesis by simp
  qed
qed simp

text \<open>Members written in any order are read in that order; a canonical object has them sorted.\<close>

lemma parseObject_read:
  assumes "\<And>n v. (n, v) \<in> set ms \<Longrightarrow> parses_to show_json v \<and> valid_utf8 n \<and> wf_json False v"
    and "distinct (map fst ms)" and "\<And>n v. (n, v) \<in> set ms \<Longrightarrow> p_depth p + jdepth v \<le> maxNesting"
    and "canonical_parser p" and rest: "p_rest p = CHR ''{'' # comma_join (map member ms) @ CHR ''}'' # t"
    and "3 * length (p_rest p) \<le> k"
  shows "parseObject k p = Inr (VObject (map (on_value norm_json) ms), p\<lparr>p_rest := t\<rparr>)"
proof -
  obtain j where k: "k = Suc j" using assms(5,6) by (cases k) auto
  show ?thesis
  proof (cases ms)
    case Nil
    with rest show ?thesis by (simp add: k Let_def skipWhitespace_def advance_def)
  next
    case (Cons m ns)
    then obtain r where first: "comma_join (map member ms) @ CHR ''}'' # t = CHR 0x22 # r"
      by (cases m; cases ns) (auto simp:)
    have sp: "skipWhitespace (advance p) = p\<lparr>p_rest := comma_join (map member ms) @ CHR ''}'' # t\<rparr>"
      using rest first by (simp add: skipWhitespace_def advance_def)
    have "parseObject k p = parseMembers j [] (p\<lparr>p_rest := comma_join (map member ms) @ CHR ''}'' # t\<rparr>)"
      using first by (simp add: k sp Let_def)
    also have "\<dots> = Inr (VObject ([] @ map (on_value norm_json) ms), p\<lparr>p_rest := t\<rparr>)"
      by (subst parseMembers_written [where t = t and ms = ms])
        (use assms Cons in \<open>auto simp: k\<close>)
    finally show ?thesis by simp
  qed
qed

lemma parseObject_sorted:
  assumes "\<And>n v. (n, v) \<in> set ms \<Longrightarrow> parses_to show_json v" and "wf_json False (VObject ms)"
    and "canonical_parser p" and "p_rest p = show_json (VObject ms) @ t"
    and "p_depth p + jdepth (VObject ms) \<le> Suc maxNesting" and "3 * length (p_rest p) \<le> k"
  shows "parseObject k p = Inr (norm_json (VObject ms), p\<lparr>p_rest := t\<rparr>)"
proof -
  let ?ms = "sort_key fst ms"
  have mem: "parses_to show_json v \<and> valid_utf8 n \<and> wf_json False v" if "(n, v) \<in> set ?ms" for n v
    using assms(1,2) that by (auto simp: wf_VObject_iff)
  have dist: "distinct (map fst ?ms)"
    using assms(2) by (auto simp: wf_VObject_iff distinct_map inj_on_def)
  have dep: "p_depth p + jdepth v \<le> maxNesting" if "(n, v) \<in> set ?ms" for n v
    using jdepth_member [of n v ms] that assms(5) by simp
  have rest: "p_rest p = CHR ''{'' # comma_join (map member ?ms) @ CHR ''}'' # t"
    using assms(4) by (simp add: write_object)
  from parseObject_read [OF mem dist dep assms(3) rest assms(6)] show ?thesis by (simp add: norm_VObject)
qed

lemma parseArray_written:
  assumes "\<And>v. v \<in> set vs \<Longrightarrow> parses_to show_json v" and "wf_json False (VArray vs)"
    and "canonical_parser p" and "p_rest p = show_json (VArray vs) @ t"
    and "p_depth p + jdepth (VArray vs) \<le> Suc maxNesting" and "3 * length (p_rest p) \<le> k"
  shows "parseArray k p = Inr (norm_json (VArray vs), p\<lparr>p_rest := t\<rparr>)"
proof -
  obtain j where k: "k = Suc j" using assms(4,6) by (cases k) auto
  have rest: "p_rest p = CHR ''['' # comma_join (map show_json vs) @ CHR '']'' # t"
    using assms(4) by simp
  show ?thesis
  proof (cases vs)
    case Nil
    with rest show ?thesis
      by (simp add: k Let_def skipWhitespace_def advance_def)
  next
    case (Cons v us)
    have wf: "wf_json False w" if "w \<in> set vs" for w using assms(2) that by (simp add: wf_VArray_iff)
    have dep: "p_depth p + jdepth w \<le> maxNesting" if "w \<in> set vs" for w
      using jdepth_element [OF that] assms(5) by simp
    let ?u = "comma_join (map show_json vs) @ CHR '']'' # t"
    have "hd ?u = hd (show_json v)" and "?u \<noteq> []"
      using write_first(1) [OF wf, of v] Cons by (cases us; simp)+
    then have first: "\<not> is_json_space (hd ?u)" "take 1 ?u \<noteq> '']''"
      using write_first(2,3) [OF wf, of v] Cons by (cases ?u; simp)+
    have sp: "skipWhitespace (advance p) = p\<lparr>p_rest := ?u\<rparr>"
      using rest first(1) by (simp add: skipWhitespace_def advance_def skip_space_id)
    have "parseArray k p = parseElements j [] (p\<lparr>p_rest := ?u\<rparr>)"
      using first(2) by (simp add: k sp Let_def)
    also have "\<dots> = Inr (VArray ([] @ map norm_json vs), p\<lparr>p_rest := t\<rparr>)"
      by (subst parseElements_written [where t = t and vs = vs])
        (use assms(1,3,6) wf dep rest Cons in \<open>auto simp: k\<close>)
    finally show ?thesis by simp
  qed
qed

lemma parses_to_Object:
  assumes "\<And>n v. (n, v) \<in> set ms \<Longrightarrow> parses_to show_json v" and "wf_json False (VObject ms)"
  shows "parses_to show_json (VObject ms)"
  unfolding parses_to_def
proof (intro allI impI)
  fix p t k
  assume c: "canonical_parser p" and r: "p_rest p = show_json (VObject ms) @ t"
    and d: "p_depth p + jdepth (VObject ms) \<le> maxNesting" and f: "3 * length (p_rest p) + 1 \<le> k"
  obtain j where k: "k = Suc j" using f by (cases k) auto
  have "descend p = Inr (p\<lparr>p_depth := Suc (p_depth p)\<rparr>)"
    by (rule descend_canonical [OF d]) simp
  moreover have "parseObject j (p\<lparr>p_depth := Suc (p_depth p)\<rparr>)
      = Inr (norm_json (VObject ms), p\<lparr>p_depth := Suc (p_depth p), p_rest := t\<rparr>)"
    by (rule parseObject_sorted [OF assms(1) assms(2)]) (use c r d f k in auto)
  moreover obtain r' where "p_rest p = CHR ''{'' # r'" using r by (simp add: write_object)
  ultimately show "parseValue k p = Inr (norm_json (VObject ms), p\<lparr>p_rest := t\<rparr>)"
    using c by (simp add: k)
qed

lemma parses_to_Array:
  assumes "\<And>v. v \<in> set vs \<Longrightarrow> parses_to show_json v" and "wf_json False (VArray vs)"
  shows "parses_to show_json (VArray vs)"
  unfolding parses_to_def
proof (intro allI impI)
  fix p t k
  assume c: "canonical_parser p" and r: "p_rest p = show_json (VArray vs) @ t"
    and d: "p_depth p + jdepth (VArray vs) \<le> maxNesting" and f: "3 * length (p_rest p) + 1 \<le> k"
  obtain j where k: "k = Suc j" using f by (cases k) auto
  have "descend p = Inr (p\<lparr>p_depth := Suc (p_depth p)\<rparr>)"
    by (rule descend_canonical [OF d]) simp
  moreover have "parseArray j (p\<lparr>p_depth := Suc (p_depth p)\<rparr>)
      = Inr (norm_json (VArray vs), p\<lparr>p_depth := Suc (p_depth p), p_rest := t\<rparr>)"
    by (rule parseArray_written [OF assms(1) assms(2)]) (use c r d f k in auto)
  moreover obtain r' where "p_rest p = CHR ''['' # r'" using r by simp
  ultimately show "parseValue k p = Inr (norm_json (VArray vs), p\<lparr>p_rest := t\<rparr>)"
    using c by (simp add: k del: norm_json.simps)
qed

lemma parses_to_scalar:
  "valid_utf8 s \<Longrightarrow> parses_to show_json (VString s)"
  "in_safe_range i \<Longrightarrow> parses_to show_json (VInt i)"
  "parses_to show_json (VBool b)"
  "parses_to show_json VNull"
proof -
  show "parses_to show_json (VString s)" if "valid_utf8 s"
    unfolding parses_to_def
  proof (intro allI impI)
    fix p t k
    assume c: "canonical_parser p" and r: "p_rest p = show_json (VString s) @ t"
      and f: "3 * length (p_rest p) + 1 \<le> k"
    obtain j where k: "k = Suc j" using f by (cases k) auto
    show "parseValue k p = Inr (norm_json (VString s), p\<lparr>p_rest := t\<rparr>)"
      using c r quoted_read [OF that, of t]
      by (simp add: k string_value_def)
  qed
  show "parses_to show_json (VInt i)" if "in_safe_range i"
    unfolding parses_to_def
  proof (intro allI impI)
    fix p t k
    assume c: "canonical_parser p" and r: "p_rest p = show_json (VInt i) @ t"
      and e: "ends_number t" and f: "3 * length (p_rest p) + 1 \<le> k"
    obtain j where k: "k = Suc j" using f by (cases k) auto
    obtain c0 r' where r': "p_rest p = c0 # r'" and h: "c0 = hd (format_int i)"
      using r by (cases "format_int i") auto
    have "c0 \<noteq> CHR ''{''" "c0 \<noteq> CHR ''[''" "c0 \<noteq> CHR 0x22" "c0 \<noteq> CHR ''t''" "c0 \<noteq> CHR ''f''"
      "c0 \<noteq> CHR ''n''" "c0 = CHR ''-'' \<or> is_digit c0"
      using format_int_hd [of i] h by (auto simp: is_digit_def)
    with c r' have "parseValue k p = parseNumber p" by (simp add: k)
    also have "\<dots> = Inr (VInt i, p\<lparr>p_rest := t\<rparr>)"
      by (rule parseNumber_format) (use that r e c in \<open>auto simp: canonical_parser_def\<close>)
    finally show "parseValue k p = Inr (norm_json (VInt i), p\<lparr>p_rest := t\<rparr>)" by simp
  qed
  have lit: "parses_to show_json v"
    if v: "norm_json v = v" "v = VBool True \<and> show_json v = ''true''
      \<or> v = VBool False \<and> show_json v = ''false'' \<or> v = VNull \<and> show_json v = ''null''" for v
    unfolding parses_to_def
  proof (intro allI impI)
    fix p t k
    assume c: "canonical_parser p" and r: "p_rest p = show_json v @ t"
      and f: "3 * length (p_rest p) + 1 \<le> k"
    obtain j where k: "k = Suc j" using f by (cases k) auto
    show "parseValue k p = Inr (norm_json v, p\<lparr>p_rest := t\<rparr>)"
      using v c r by (auto simp: k literal_value_def expectLiteral_def cut_prefix_def)
  qed
  show "parses_to show_json (VBool b)" by (rule lit) (cases b; simp)+
  show "parses_to show_json VNull" by (rule lit) simp_all
qed

lemma wf_parses_to: "wf_json False v \<Longrightarrow> parses_to show_json v"
proof (induction v rule: jvalue_induct)
  case (Object ms)
  then show ?case by (intro parses_to_Object) (auto simp: wf_VObject_iff)
next
  case (Array vs)
  then show ?case by (intro parses_to_Array) (auto simp: wf_VArray_iff)
qed (simp_all add: parses_to_scalar)

text \<open>White space may follow, as the newline of a stored receipt does.\<close>

lemma parse_written_space:
  assumes "wf_json False v" and "jdepth v \<le> maxNesting" and "list_all is_json_space t"
  shows "parseJSON (show_json v @ t) = Inr (norm_json v)"
proof -
  let ?p = "new_parser (show_json v @ t) 0 False False"
  have "skipWhitespace ?p = ?p"
    using write_first [OF assms(1)]
    by (simp add: skipWhitespace_def new_parser_def canon_def skip_space_id)
  moreover have "parseValue (3 * length (show_json v @ t) + 1) ?p = Inr (norm_json v, ?p\<lparr>p_rest := t\<rparr>)"
    by (rule parses_toD [OF wf_parses_to [OF assms(1)] _ _ ends_number_space [OF assms(3)]])
      (use assms(2) in \<open>auto simp: new_parser_def canonical_parser_def canon_def\<close>)
  ultimately show ?thesis
    by (simp add: parseJSON_def document_def Let_def new_parser_def skip_space_all [OF assms(3)]
        del: parseValue.simps)
qed

text \<open>A record the code prints field by field is read with its members in the order printed.\<close>

lemma parse_members_written:
  assumes "wf_json False (VObject ms)" and "jdepth (VObject ms) \<le> maxNesting"
  shows "parseJSON (CHR ''{'' # comma_join (map member ms) @ ''}'') = Inr (VObject (map (on_value norm_json) ms))"
proof -
  let ?text = "CHR ''{'' # comma_join (map member ms) @ ''}''"
  let ?p = "new_parser ?text 0 False False"
  have mem: "parses_to show_json v \<and> valid_utf8 n \<and> wf_json False v" if "(n, v) \<in> set ms" for n v
    using that assms(1) wf_parses_to by (auto simp: wf_VObject_iff)
  have dist: "distinct (map fst ms)" using assms(1) by (simp add: wf_VObject_iff)
  have dep: "1 + jdepth v \<le> maxNesting" if "(n, v) \<in> set ms" for n v
    using jdepth_member [OF that] assms(2) by (simp del: jdepth.simps)
  have "parseObject (3 * length ?text) (?p\<lparr>p_depth := 1\<rparr>)
      = Inr (VObject (map (on_value norm_json) ms), ?p\<lparr>p_depth := 1, p_rest := []\<rparr>)"
    by (rule parseObject_read [OF mem dist, where t = "[]"])
      (use dep in \<open>simp_all add: new_parser_def canonical_parser_def\<close>)
  moreover have "descend ?p = Inr (?p\<lparr>p_depth := 1\<rparr>)"
    by (simp add: descend_def new_parser_def maxNesting_def)
  moreover have "parseValue (k + 1) ?p = Inr (v, ?p\<lparr>p_rest := []\<rparr>)"
    if "parseObject k (?p\<lparr>p_depth := 1\<rparr>) = Inr (v, ?p\<lparr>p_depth := 1, p_rest := []\<rparr>)"
      and "descend ?p = Inr (?p\<lparr>p_depth := 1\<rparr>)" for k v
    using that by (simp add: new_parser_def count_value_def)
  ultimately have "parseValue (3 * length ?text + 1) ?p
      = Inr (VObject (map (on_value norm_json) ms), ?p\<lparr>p_rest := []\<rparr>)" by blast
  moreover have "skipWhitespace ?p = ?p"
    by (simp add: skipWhitespace_def new_parser_def skip_space_def is_json_space_def)
  ultimately show ?thesis
    by (simp add: parseJSON_def document_def Let_def new_parser_def skip_space_def del: parseValue.simps)
qed

end

text \<open>The canonical writer.\<close>

definition canonical_quoted :: "bytes \<Rightarrow> bytes" where
  "canonical_quoted s = concat (map escape_rune (runes s)) @ [CHR 0x22]"

lemma writeCanonicalString_quoted: "writeCanonicalString s = CHR 0x22 # canonical_quoted s"
  by (simp add: writeCanonicalString_def canonical_quoted_def)

interpretation canonical: value_writer canonical_quoted canonWrite
  using parseString_escaped [of _ "[]"]
  by unfold_locales (simp_all add: canonical_quoted_def canonWrite_VObject writeCanonicalString_quoted)

lemmas canonWrite_first = canonical.write_first

lemma parseJSON_canon_space:
  assumes "wf_json False v" and "jdepth v \<le> maxNesting" and "list_all is_json_space t"
  shows "parseJSON (canon v @ t) = Inr (norm_json v)"
  unfolding canon_def by (rule canonical.parse_written_space [OF assms])

lemma parseJSON_written:
  assumes "wf_json False (VObject ms)" and "jdepth (VObject ms) \<le> maxNesting"
  shows "parseJSON (CHR ''{'' # comma_join (map write_member ms) @ ''}'') = Inr (VObject (map (on_value norm_json) ms))"
  using canonical.parse_members_written [OF assms] by (simp add: writeCanonicalString_quoted)

end
