(* ===== verification/Canon_Domain.thy ===== *)
theory Canon_Domain
  imports Canon_Roundtrip
begin

text \<open>
  What the parser answers.  A value it answers is of the canonical domain, nests no deeper than
  the bound, and holds no more values than the budget; the state it leaves differs from the
  state it was given in the unread bytes and the count of values alone, with fewer bytes
  unread; and the fuel \<open>document\<close> gives the recursive descent never runs out.
\<close>

section \<open>Strings are valid UTF-8\<close>

lemma valid_utf8_snoc_ascii: "valid_utf8 sb \<Longrightarrow> byte c < 0x80 \<Longrightarrow> valid_utf8 (sb @ [c])"
proof -
  assume "valid_utf8 sb" and c: "byte c < 0x80"
  have "is_scalar (byte c)" and "encode_rune (byte c) = [c]"
    using c by (auto simp: is_scalar_def is_surrogate_def encode_rune_def)
  then have "valid_utf8 [c]" using valid_utf8_encode [of "byte c" "[]"] by simp
  with \<open>valid_utf8 sb\<close> show ?thesis by (simp add: valid_utf8_append)
qed

lemma valid_utf8_snoc_rune: "valid_utf8 sb \<Longrightarrow> is_scalar r \<Longrightarrow> valid_utf8 (sb @ encode_rune r)"
  using valid_utf8_encode [of r "[]"] by (simp add: valid_utf8_append)

lemma hex_val_less: "hex_val c = Some n \<Longrightarrow> n < 16"
  by (auto simp: hex_val_def is_digit_def split: if_splits)

lemma readHex4_less: "readHex4 s = Inr (u, r) \<Longrightarrow> u < 65536"
  by (auto simp: readHex4_def split: list.splits option.splits dest!: hex_val_less)

lemma parseUnicodeEscape_scalar: "parseUnicodeEscape s = Inr (u, r) \<Longrightarrow> is_scalar u"
  using utf16_decode_scalar
  by (auto simp: parseUnicodeEscape_def is_scalar_def split: sum.splits if_splits option.splits
      dest!: readHex4_less)

lemma short_escape_ascii: "short_escape e = Some b \<Longrightarrow> byte b < 0x80"
  by (auto simp: short_escape_def split: if_splits)

lemma parseString_sound:
  "parseString sb s = Inr (x, r) \<Longrightarrow> valid_utf8 sb \<Longrightarrow> valid_utf8 x \<and> length r < length s"
proof (induction sb s rule: parseString.induct)
  case (1 sb s)
  obtain c cs where s: "s = c # cs"
    using "1.prems"(1) by (cases s) (auto simp: parseString.simps)
  consider (quote) "c = CHR 0x22" | (esc) "c = CHR 0x5C" | (ascii) "c \<noteq> CHR 0x22" "c \<noteq> CHR 0x5C" "0x20 \<le> byte c" "byte c < 0x80"
    | (rune) "c \<noteq> CHR 0x22" "c \<noteq> CHR 0x5C" "0x80 \<le> byte c" "decode_rune s \<noteq> (rune_error, 1)"
    using "1.prems"(1) by (subst (asm) parseString.simps) (fastforce simp: s split: if_splits)
  then show ?case
  proof cases
    case quote
    with "1.prems" show ?thesis by (subst (asm) parseString.simps) (simp add: s)
  next
    case esc
    obtain e cs' where cs: "cs = e # cs'"
      using "1.prems"(1) esc by (subst (asm) parseString.simps) (auto simp: s split: list.splits)
    show ?thesis
    proof (cases "short_escape e")
      case (Some b)
      with "1.prems" esc have "parseString (sb @ [b]) cs' = Inr (x, r)"
        by (subst (asm) parseString.simps) (simp add: s cs)
      with "1.IH"(2) [OF s _ esc cs Some] esc Some "1.prems"(2) have "valid_utf8 x \<and> length r < length cs'"
        by (simp add: short_escape_ascii valid_utf8_snoc_ascii)
      then show ?thesis by (simp add: s cs)
    next
      case None
      from "1.prems"(1) esc None obtain u cs'' where e: "e = CHR ''u''"
        and u: "parseUnicodeEscape cs' = Inr (u, cs'')"
        and rec: "parseString (sb @ encode_rune u) cs'' = Inr (x, r)"
        by (subst (asm) parseString.simps) (auto simp: s cs split: if_splits sum.splits)
      have "valid_utf8 x \<and> length r < length cs''"
        using "1.IH"(1) [OF s _ esc cs None e u refl] esc rec "1.prems"(2)
        by (simp add: valid_utf8_snoc_rune parseUnicodeEscape_scalar [OF u])
      then show ?thesis using parseUnicodeEscape_length [OF u] by (simp add: s cs)
    qed
  next
    case ascii
    with "1.prems" have "parseString (sb @ [c]) cs = Inr (x, r)"
      by (subst (asm) parseString.simps) (simp add: s)
    with "1.IH"(3) [OF s] ascii "1.prems"(2) show ?thesis
      by (simp add: s valid_utf8_snoc_ascii)
  next
    case rune
    obtain u n where d: "decode_rune s = (u, n)" by fastforce
    have "is_scalar u" "encode_rune u = take n s"
      using decode_rune_sound [OF d] rune d s by auto
    moreover have "0 < n" using decode_rune_size_pos [of s] s d by simp
    moreover have "parseString (sb @ take n s) (drop n s) = Inr (x, r)"
      using "1.prems"(1) rune d unfolding s
      by (subst (asm) parseString.simps) (simp del: decode_rune.simps split: if_splits)
    ultimately show ?thesis
      using "1.IH"(4) [OF s] rune "1.prems"(2) d s valid_utf8_snoc_rune [of sb u]
      by (auto simp del: decode_rune.simps)
  qed
qed

section \<open>Values\<close>

definition frame :: "parser \<Rightarrow> parser \<Rightarrow> bool" where
  "frame p q \<longleftrightarrow>
     p_depth q = p_depth p \<and> p_maxValues q = p_maxValues p \<and> p_anyNumber q = p_anyNumber p \<and>
     p_unsigned q = p_unsigned p \<and> length (p_rest q) < length (p_rest p)"

definition mcount :: "members \<Rightarrow> nat" where
  "mcount ms = sum_list (map (jcount \<circ> snd) ms)"

lemma jcount_VObject: "jcount (VObject ms) = Suc (mcount ms)"
  by (simp add: mcount_def comp_def)

lemma mcount_append [simp]: "mcount (xs @ ys) = mcount xs + mcount ys" "mcount [] = 0"
  "mcount ((n, v) # ms) = jcount v + mcount ms"
  by (simp_all add: mcount_def)

declare jcount.simps(1) [simp del]

text \<open>A budget is spent by as many values as were made, and never past its bound.\<close>

definition spends :: "parser \<Rightarrow> nat \<Rightarrow> parser \<Rightarrow> bool" where
  "spends p n q \<longleftrightarrow>
     (p_maxValues p = 0 \<longrightarrow> p_values q = p_values p) \<and>
     (0 < p_maxValues p \<longrightarrow> p_values q = p_values p + n \<and>
        (p_values p \<le> p_maxValues p \<longrightarrow> p_values q \<le> p_maxValues p))"

definition member_ok :: "parser \<Rightarrow> bytes \<times> jvalue \<Rightarrow> bool" where
  "member_ok p m \<longleftrightarrow> valid_utf8 (fst m) \<and> wf_json (p_anyNumber p) (snd m) \<and>
     (p_depth p \<le> maxNesting \<longrightarrow> p_depth p + jdepth (snd m) \<le> maxNesting)"

definition element_ok :: "parser \<Rightarrow> jvalue \<Rightarrow> bool" where
  "element_ok p v \<longleftrightarrow> wf_json (p_anyNumber p) v \<and>
     (p_depth p \<le> maxNesting \<longrightarrow> p_depth p + jdepth v \<le> maxNesting)"

definition reads :: "parser \<Rightarrow> jvalue \<Rightarrow> parser \<Rightarrow> bool" where
  "reads p v q \<longleftrightarrow> frame p q \<and> element_ok p v \<and> spends p (jcount v) q"

definition reads_scalar :: "parser \<Rightarrow> jvalue \<Rightarrow> parser \<Rightarrow> bool" where
  "reads_scalar p v q \<longleftrightarrow> frame p q \<and> wf_json (p_anyNumber p) v \<and> jdepth v = 0 \<and> jcount v = 1 \<and>
     p_values q = p_values p"

definition reads_members :: "members \<Rightarrow> parser \<Rightarrow> jvalue \<Rightarrow> parser \<Rightarrow> bool" where
  "reads_members obj p v q \<longleftrightarrow> frame p q \<and>
     (\<exists>ms. v = VObject (obj @ ms) \<and> (distinct (map fst obj) \<longrightarrow> distinct (map fst (obj @ ms))) \<and>
        list_all (member_ok p) ms \<and> spends p (mcount ms) q)"

definition reads_elements :: "jvalue list \<Rightarrow> parser \<Rightarrow> jvalue \<Rightarrow> parser \<Rightarrow> bool" where
  "reads_elements arr p v q \<longleftrightarrow> frame p q \<and>
     (\<exists>vs. v = VArray (arr @ vs) \<and> list_all (element_ok p) vs \<and> spends p (sum_list (map jcount vs)) q)"

lemma length_skip_space [gw_len]: "length (skip_space s) \<le> length s"
  by (simp add: skip_space_def length_dropWhile_le)

lemma rest_update_frame:
  "q = p\<lparr>p_rest := p_rest q\<rparr> \<Longrightarrow> length (p_rest q) < length (p_rest p) \<Longrightarrow>
   frame p q \<and> p_values q = p_values p"
  by (cases p; cases q) (simp add: frame_def)

lemma reads_string_value: "string_value p = Inr (v, q) \<Longrightarrow> p_rest p \<noteq> [] \<Longrightarrow> reads_scalar p v q"
  using parseString_sound [of "[]" "drop 1 (p_rest p)"]
  by (auto simp: string_value_def reads_scalar_def frame_def split: sum.splits)

lemma reads_literal_value:
  assumes "literal_value v lit p = Inr (w, q)" and "v = VBool b \<or> v = VNull" and "lit \<noteq> []"
  shows "reads_scalar p w q"
  using assms
  by (auto simp: literal_value_def expectLiteral_def reads_scalar_def frame_def
      split: sum.splits option.splits dest!: cut_prefix_length)

lemma length_dropWhile_takeWhile: "length (takeWhile P xs) + length (dropWhile P xs) = length xs"
  by (metis length_append takeWhile_dropWhile_id)

lemma any_fraction_length: "any_fraction s = Inr (f, r) \<Longrightarrow> length r \<le> length s"
  by (auto simp: any_fraction_def length_dropWhile_le le_SucI split: list.splits if_splits)

lemma any_exponent_length: "any_exponent s = Inr (f, r) \<Longrightarrow> length r \<le> length s"
  by (auto simp: any_exponent_def Let_def length_dropWhile_le le_SucI split: list.splits if_splits
      intro: le_SucI order_trans [OF length_dropWhile_le])

lemma parseAnyNumber_reads:
  assumes "parseAnyNumber i p = Inr (v, q)" and "p_anyNumber p"
  shows "q = p\<lparr>p_rest := p_rest q\<rparr> \<and> length (p_rest q) \<le> length (p_rest p) \<and>
    wf_json True v \<and> jdepth v = 0 \<and> jcount v = 1"
  using assms
  by (auto simp: parseAnyNumber_def Let_def split: sum.splits if_splits option.splits
      dest!: any_fraction_length any_exponent_length)

lemma reads_parseNumber:
  assumes "parseNumber p = Inr (v, q)"
  shows "reads_scalar p v q"
proof -
  define sign where "sign = (if take 1 (p_rest p) = ''-'' then ''-'' else [])"
  let ?s = "drop (length sign) (p_rest p)"
  let ?r = "dropWhile is_digit ?s"
  have num: "takeWhile is_digit ?s \<noteq> []"
    and cases: "p_anyNumber p \<and> parseAnyNumber (sign @ takeWhile is_digit ?s) (p\<lparr>p_rest := ?r\<rparr>) = Inr (v, q)
      \<or> \<not> p_anyNumber p \<and> (\<exists>n. in_safe_range n \<and> v = VInt n \<and> q = p\<lparr>p_rest := ?r\<rparr>)"
    using assms unfolding parseNumber_def Let_def sign_def [symmetric]
    by (auto split: if_splits option.splits)
  have "length ?r < length ?s"
    using num length_dropWhile_takeWhile [of is_digit ?s] by (cases "takeWhile is_digit ?s") auto
  then have len: "length ?r < length (p_rest p)" by simp
  from cases show ?thesis
  proof (elim disjE conjE exE)
    assume a: "p_anyNumber p" and "parseAnyNumber (sign @ takeWhile is_digit ?s) (p\<lparr>p_rest := ?r\<rparr>) = Inr (v, q)"
    from parseAnyNumber_reads [OF this(2)] a have
      q: "q = p\<lparr>p_rest := p_rest q\<rparr>" and r: "length (p_rest q) \<le> length ?r" "wf_json True v"
        "jdepth v = 0" "jcount v = 1"
      by auto
    have "frame p q \<and> p_values q = p_values p"
      using rest_update_frame [OF q] r(1) len by linarith
    with a r show ?thesis by (simp add: reads_scalar_def)
  qed (use len in \<open>auto simp: reads_scalar_def frame_def\<close>)
qed

lemma reads_of_scalar:
  assumes "count_value c p = Inr p1" and "reads_scalar p1 v q" and "startsValue c"
  shows "reads p v q"
  using assms
  by (auto simp: count_value_def reads_scalar_def reads_def frame_def element_ok_def spends_def
      split: if_splits)

text \<open>A container read one level down, with its own value counted.\<close>

lemma reads_of_container:
  assumes "count_value c p = Inr p1" and "startsValue c" and "descend p1 = Inr q1"
    and "frame q1 q2" and "wf_json (p_anyNumber p) v"
    and "p_depth q1 \<le> maxNesting \<Longrightarrow> p_depth q1 + jdepth v \<le> Suc maxNesting"
    and "jcount v = Suc n" and "spends q1 n q2"
  shows "reads p v (q2\<lparr>p_depth := p_depth q2 - 1\<rparr>)"
proof -
  have d: "p_depth p1 < maxNesting" "q1 = p1\<lparr>p_depth := Suc (p_depth p1)\<rparr>"
    using assms(3) by (auto simp: descend_def split: if_splits)
  have c: "p_depth p1 = p_depth p" "p_maxValues p1 = p_maxValues p" "p_anyNumber p1 = p_anyNumber p"
    "p_unsigned p1 = p_unsigned p" "p_rest p1 = p_rest p" "spends p 1 p1"
    using assms(1,2) by (auto simp: count_value_def spends_def split: if_splits)
  have "frame p (q2\<lparr>p_depth := p_depth q2 - 1\<rparr>)"
    using assms(4) c d by (simp add: frame_def)
  moreover have "element_ok p v" using assms(5,6) c d by (simp add: element_ok_def)
  moreover have "spends p (jcount v) (q2\<lparr>p_depth := p_depth q2 - 1\<rparr>)"
    using assms(7,8) c(2,6) d(2) by (auto simp: spends_def)
  ultimately show ?thesis by (simp add: reads_def)
qed

lemma container_depth_members:
  assumes "list_all (member_ok p) ms" and "p_depth p \<le> maxNesting"
  shows "p_depth p + jdepth (VObject ms) \<le> Suc maxNesting"
proof -
  have "jdepth (VObject ms) \<le> Suc (maxNesting - p_depth p)"
    unfolding jdepth_VObject_le using assms by (fastforce simp: list_all_iff member_ok_def)
  with assms(2) show ?thesis by simp
qed

lemma container_depth_elements:
  assumes "list_all (element_ok p) vs" and "p_depth p \<le> maxNesting"
  shows "p_depth p + jdepth (VArray vs) \<le> Suc maxNesting"
proof -
  have "jdepth (VArray vs) \<le> Suc (maxNesting - p_depth p)"
    unfolding jdepth_VArray_le using assms by (fastforce simp: list_all_iff element_ok_def)
  with assms(2) show ?thesis by simp
qed

lemma reads_Object:
  assumes "count_value c p = Inr p1" and "startsValue c" and "descend p1 = Inr q1"
    and "reads_members [] q1 v q2"
  shows "reads p v (q2\<lparr>p_depth := p_depth q2 - 1\<rparr>)"
proof -
  obtain ms where v: "v = VObject ms" "distinct (map fst ms)" "list_all (member_ok q1) ms"
    "spends q1 (mcount ms) q2" and f: "frame q1 q2"
    using assms(4) by (auto simp: reads_members_def)
  have "p_anyNumber q1 = p_anyNumber p"
    using assms(1,3) by (auto simp: count_value_def descend_def split: if_splits)
  then have "wf_json (p_anyNumber p) v"
    using v by (auto simp: wf_VObject_iff list_all_iff member_ok_def)
  then show ?thesis
    using reads_of_container [OF assms(1-3) f] v container_depth_members [OF v(3)]
    by (simp add: jcount_VObject)
qed

lemma reads_Array:
  assumes "count_value c p = Inr p1" and "startsValue c" and "descend p1 = Inr q1"
    and "reads_elements [] q1 v q2"
  shows "reads p v (q2\<lparr>p_depth := p_depth q2 - 1\<rparr>)"
proof -
  obtain vs where v: "v = VArray vs" "list_all (element_ok q1) vs"
    "spends q1 (sum_list (map jcount vs)) q2" and f: "frame q1 q2"
    using assms(4) by (auto simp: reads_elements_def)
  have "p_anyNumber q1 = p_anyNumber p"
    using assms(1,3) by (auto simp: count_value_def descend_def split: if_splits)
  then have "wf_json (p_anyNumber p) v"
    using v by (auto simp: wf_VArray_iff list_all_iff element_ok_def)
  then show ?thesis
    using reads_of_container [OF assms(1-3) f] v container_depth_elements [OF v(2)]
    by simp
qed

lemma frame_trans_space:
  assumes "frame p q" and "p_rest q' = skip_space (p_rest q)" and "q' = q\<lparr>p_rest := p_rest q'\<rparr>"
  shows "frame p q'"
  using assms length_skip_space [of "p_rest q"]
  by (cases q; cases q') (auto simp: frame_def)

lemma frame_trans: "frame p q \<Longrightarrow> frame q r \<Longrightarrow> frame p r"
  by (auto simp: frame_def)

lemma frame_skip_advance:
  "frame p q \<Longrightarrow> frame p (advance (skipWhitespace q))"
  using length_skip_space [of "p_rest q"] by (auto simp: frame_def advance_def skipWhitespace_def)

lemma frame_advance_skip: "p_rest p \<noteq> [] \<Longrightarrow> frame p (skipWhitespace (advance p))"
  using length_skip_space [of "drop 1 (p_rest p)"]
  by (cases "p_rest p") (auto simp: frame_def advance_def skipWhitespace_def)

lemma values_advance_skip [simp]:
  "p_values (advance p) = p_values p" "p_values (skipWhitespace p) = p_values p"
  "p_maxValues (advance p) = p_maxValues p" "p_maxValues (skipWhitespace p) = p_maxValues p"
  "p_anyNumber (advance p) = p_anyNumber p" "p_anyNumber (skipWhitespace p) = p_anyNumber p"
  "p_unsigned (advance p) = p_unsigned p" "p_unsigned (skipWhitespace p) = p_unsigned p"
  by (simp_all add: advance_def skipWhitespace_def)

lemma spends_upd [simp]:
  "spends p n (advance q) = spends p n q" "spends p n (skipWhitespace q) = spends p n q"
  "spends (advance p) n q = spends p n q" "spends (skipWhitespace p) n q = spends p n q"
  by (simp_all add: spends_def)

lemma spends_trans:
  "spends p m q \<Longrightarrow> p_maxValues q = p_maxValues p \<Longrightarrow> spends q n r \<Longrightarrow> spends p (m + n) r"
  by (auto simp: spends_def)

lemma parse_name_sound:
  assumes "parse_name obj (skipWhitespace p) = Inr (name, q)"
  shows "frame p q \<and> valid_utf8 name \<and> obj_get obj name = None \<and> p_values q = p_values p"
proof -
  let ?s = "skip_space (p_rest p)"
  obtain r where str: "parseString [] (drop 1 ?s) = Inr (name, r)" and new: "obj_get obj name = None"
    and q: "q = (skipWhitespace p)\<lparr>p_rest := skip_space (drop 1 (skip_space r))\<rparr>"
    using assms by (auto simp: parse_name_def split: if_splits sum.splits)
  have "length (skip_space (drop 1 (skip_space r))) \<le> length r"
    using length_skip_space [of "drop 1 (skip_space r)"] length_skip_space [of r] by simp
  moreover have "length r < length (p_rest p)"
    using parseString_sound [OF str] length_skip_space [of "p_rest p"] by auto
  ultimately show ?thesis
    using parseString_sound [OF str] new by (simp add: q frame_def)
qed

lemma reads_members_last:
  assumes "parse_name obj (skipWhitespace p) = Inr (name, q)" and "reads q v q1"
  shows "reads_members obj p (VObject (obj_set obj name v)) (advance (skipWhitespace q1))"
proof -
  note n = parse_name_sound [OF assms(1)]
  have f: "frame p q1" using n assms(2) frame_trans by (auto simp: reads_def)
  have new: "name \<notin> fst ` set obj" using n by (simp add: obj_get_def map_of_eq_None_iff)
  have "member_ok p (name, v)" and "spends p (mcount [(name, v)]) q1"
    using n assms(2) by (auto simp: reads_def member_ok_def element_ok_def frame_def spends_def)
  then show ?thesis
    using new n frame_skip_advance [OF f] obj_set_new [of obj name v]
    by (auto simp: reads_members_def intro!: exI [of _ "[(name, v)]"])
qed

lemma reads_members_more:
  assumes "reads_members obj p (VObject (obj_set obj name v)) q2" and "obj_get obj name = None"
    and "reads_members (obj_set obj name v) q2 w q3"
  shows "reads_members obj p w q3"
proof -
  have set: "obj_set obj name v = obj @ [(name, v)]" by (rule obj_set_new [OF assms(2)])
  obtain ms where 1: "frame p q2" "(name, v) # [] = ms" "distinct (map fst obj) \<longrightarrow> distinct (map fst (obj @ ms))"
    "list_all (member_ok p) ms" "spends p (mcount ms) q2"
    using assms(1) by (auto simp: reads_members_def set)
  obtain ns where 2: "frame q2 q3" "w = VObject ((obj @ ms) @ ns)"
    "distinct (map fst (obj @ ms)) \<longrightarrow> distinct (map fst ((obj @ ms) @ ns))"
    "list_all (member_ok q2) ns" "spends q2 (mcount ns) q3"
    using assms(3) 1(2) by (auto simp: reads_members_def set)
  have "member_ok q2 = member_ok p" using 1(1) by (auto simp: frame_def member_ok_def fun_eq_iff)
  moreover have "spends p (mcount (ms @ ns)) q3"
    using spends_trans [OF 1(5) _ 2(5)] 1(1) by (simp add: frame_def)
  ultimately show ?thesis
    using 1 2 frame_trans [OF 1(1) 2(1)]
    by (auto simp: reads_members_def intro!: exI [of _ "ms @ ns"])
qed

lemma reads_skip: "reads (skipWhitespace p) v q \<Longrightarrow> reads p v q"
  using length_skip_space [of "p_rest p"]
  by (auto simp: reads_def frame_def element_ok_def skipWhitespace_def spends_def)

lemma reads_elements_last:
  assumes "reads (skipWhitespace p) v q"
  shows "reads_elements arr p (VArray (arr @ [v])) (advance (skipWhitespace q))"
  using reads_skip [OF assms] frame_skip_advance [of p q]
  by (auto simp: reads_elements_def reads_def intro!: exI [of _ "[v]"])

lemma reads_elements_more:
  assumes "reads_elements arr p (VArray (arr @ [v])) q2" and "reads_elements (arr @ [v]) q2 w q3"
  shows "reads_elements arr p w q3"
proof -
  have 1: "frame p q2" "list_all (element_ok p) [v]" "spends p (jcount v) q2"
    using assms(1) by (auto simp: reads_elements_def)
  obtain us where 2: "frame q2 q3" "w = VArray ((arr @ [v]) @ us)" "list_all (element_ok q2) us"
    "spends q2 (sum_list (map jcount us)) q3"
    using assms(2) by (auto simp: reads_elements_def)
  have "element_ok q2 = element_ok p" using 1(1) by (auto simp: frame_def element_ok_def fun_eq_iff)
  moreover have "spends p (sum_list (map jcount (v # us))) q3"
    using spends_trans [OF 1(3) _ 2(4)] 1(1) by (simp add: frame_def)
  ultimately show ?thesis
    using 1 2 frame_trans [OF 1(1) 2(1)]
    by (auto simp: reads_elements_def intro!: exI [of _ "v # us"])
qed

lemma reads_members_empty:
  "p_rest p \<noteq> [] \<Longrightarrow> reads_members [] p (VObject []) (advance (skipWhitespace (advance p)))"
  using frame_advance_skip [of p]
  by (auto simp: reads_members_def frame_def spends_def)

lemma reads_elements_empty:
  "p_rest p \<noteq> [] \<Longrightarrow> reads_elements [] p (VArray []) (advance (skipWhitespace (advance p)))"
  using frame_advance_skip [of p]
  by (auto simp: reads_elements_def frame_def spends_def)

lemma reads_members_frame:
  "frame p q \<Longrightarrow> p_values q = p_values p \<Longrightarrow> reads_members obj q v r \<Longrightarrow> reads_members obj p v r"
  by (auto simp: reads_members_def frame_def spends_def member_ok_def list_all_iff)

lemma reads_elements_frame:
  "frame p q \<Longrightarrow> p_values q = p_values p \<Longrightarrow> reads_elements arr q v r \<Longrightarrow> reads_elements arr p v r"
  by (auto simp: reads_elements_def frame_def spends_def element_ok_def list_all_iff)

lemmas parse_induct =
  parseValue_parseObject_parseMembers_parseArray_parseElements.induct

lemma rest_Cons_count: "count_value c p = Inr p1 \<Longrightarrow> p_rest p1 = p_rest p"
  by (auto simp: count_value_def split: if_splits)

lemma rest_descend: "descend p = Inr q \<Longrightarrow> p_rest q = p_rest p"
  by (auto simp: descend_def split: if_splits)

lemma starts_chars [simp]:
  "startsValue CHR ''{''" "startsValue CHR ''[''" "startsValue CHR 0x22" "startsValue CHR ''t''"
  "startsValue CHR ''f''" "startsValue CHR ''n''" "startsValue CHR ''-''"
  "is_digit c \<Longrightarrow> startsValue c"
  by (auto simp: startsValue_def)

text \<open>What \<open>parseValue\<close> does past the count, by the first byte.\<close>

lemma parseValue_cases:
  assumes "parseValue (Suc k) p = Inr (v, q)"
  obtains (object) c r p1 q1 q2 where "p_rest p = CHR ''{'' # r" "c = CHR ''{''"
      "count_value c p = Inr p1" "descend p1 = Inr q1" "parseObject k q1 = Inr (v, q2)"
      "q = q2\<lparr>p_depth := p_depth q2 - 1\<rparr>"
  | (array) c r p1 q1 q2 where "p_rest p = CHR ''['' # r" "c = CHR ''[''"
      "count_value c p = Inr p1" "descend p1 = Inr q1" "parseArray k q1 = Inr (v, q2)"
      "q = q2\<lparr>p_depth := p_depth q2 - 1\<rparr>"
  | (scalar) c p1 where "count_value c p = Inr p1" "reads_scalar p1 v q" "startsValue c"
proof -
  obtain c r where r: "p_rest p = c # r" using assms by (cases "p_rest p") auto
  obtain p1 where p1: "count_value c p = Inr p1" using assms r by (cases "count_value c p") auto
  have ne: "p_rest p1 \<noteq> []" using rest_Cons_count [OF p1] r by simp
  consider "c = CHR ''{''" | "c = CHR ''[''" | "c \<noteq> CHR ''{''" "c \<noteq> CHR ''[''" by blast
  then show thesis
  proof cases
    case 1
    then show thesis using assms r p1 object by (auto split: sum.splits)
  next
    case 2
    then show thesis using assms r p1 array by (auto split: sum.splits)
  next
    case 3
    then have "parseValue (Suc k) p =
        (if c = CHR 0x22 then string_value p1
         else if c = CHR ''t'' then literal_value (VBool True) ''true'' p1
         else if c = CHR ''f'' then literal_value (VBool False) ''false'' p1
         else if c = CHR ''n'' then literal_value VNull ''null'' p1
         else if c = CHR ''-'' \<or> is_digit c then parseNumber p1 else Inl UnexpectedByte)"
      by (simp add: r p1)
    then have "reads_scalar p1 v q \<and> startsValue c"
      unfolding assms
      by (auto simp: ne split: if_splits
          dest!: sym [of "Inr _"] intro: reads_string_value reads_parseNumber reads_literal_value)
    with p1 scalar show thesis by blast
  qed
qed

lemma parse_reads:
  "parseValue k p = Inr (v, q) \<Longrightarrow> reads p v q"
  "parseObject k p = Inr (v, q) \<Longrightarrow> p_rest p \<noteq> [] \<Longrightarrow> reads_members [] p v q"
  "parseMembers k obj p = Inr (v, q) \<Longrightarrow> reads_members obj p v q"
  "parseArray k p = Inr (v, q) \<Longrightarrow> p_rest p \<noteq> [] \<Longrightarrow> reads_elements [] p v q"
  "parseElements k arr p = Inr (v, q) \<Longrightarrow> reads_elements arr p v q"
proof (induction k arbitrary: p v q obj arr)
  case 0
  { case 1 then show ?case by simp }
  { case 2 then show ?case by simp }
  { case 3 then show ?case by simp }
  { case 4 then show ?case by simp }
  { case 5 then show ?case by simp }
next
  case (Suc k)
  {
    case 1
    then show ?case
    proof (cases rule: parseValue_cases)
      case (object c r p1 q1 q2)
      then have "p_rest q1 \<noteq> []" using rest_Cons_count [OF object(3)] rest_descend [OF object(4)] by simp
      then show ?thesis using reads_Object [OF object(3) _ object(4)] Suc.IH(2) [OF object(5)] object by simp
    next
      case (array c r p1 q1 q2)
      then have "p_rest q1 \<noteq> []" using rest_Cons_count [OF array(3)] rest_descend [OF array(4)] by simp
      then show ?thesis using reads_Array [OF array(3) _ array(4)] Suc.IH(4) [OF array(5)] array by simp
    next
      case (scalar c p1)
      then show ?thesis by (rule reads_of_scalar)
    qed
  next
    case 2
    then show ?case
      using Suc.IH(3) [of "[]" "skipWhitespace (advance p)" v q]
        reads_members_frame [OF frame_advance_skip [OF 2(2)]] reads_members_empty [OF 2(2)]
      by (auto simp: Let_def split: if_splits)
  next
    case 3
    then obtain name q0 w q1 where n: "parse_name obj (skipWhitespace p) = Inr (name, q0)"
      and w: "parseValue k q0 = Inr (w, q1)"
      by (auto split: sum.splits)
    note last = reads_members_last [OF n Suc.IH(1) [OF w]]
    have new: "obj_get obj name = None" using parse_name_sound [OF n] by simp
    from 3 n w show ?case
      using last reads_members_more [OF last new] Suc.IH(3)
      by (auto simp: Let_def split: list.splits if_splits)
  next
    case 4
    then show ?case
      using Suc.IH(5) [of "[]" "skipWhitespace (advance p)" v q]
        reads_elements_frame [OF frame_advance_skip [OF 4(2)]] reads_elements_empty [OF 4(2)]
      by (auto simp: Let_def split: if_splits)
  next
    case 5
    then obtain w q1 where w: "parseValue k (skipWhitespace p) = Inr (w, q1)"
      by (auto split: sum.splits)
    note last = reads_elements_last [OF Suc.IH(1) [OF w], of arr]
    from 5 w show ?case
      using last reads_elements_more [OF last] Suc.IH(5)
      by (auto simp: Let_def split: list.splits if_splits)
  }
qed

section \<open>Fuel\<close>

lemma no_fuel_readers [simp]:
  "readHex4 s \<noteq> Inl OutOfFuel"
  "parseUnicodeEscape s \<noteq> Inl OutOfFuel"
  "any_fraction s \<noteq> Inl OutOfFuel"
  "any_exponent s \<noteq> Inl OutOfFuel"
  "expectLiteral lit p \<noteq> Inl OutOfFuel"
  "count_value c p \<noteq> Inl OutOfFuel"
  "descend p \<noteq> Inl OutOfFuel"
proof -
  show h: "readHex4 s \<noteq> Inl OutOfFuel" for s
    by (auto simp: readHex4_def split: list.splits option.splits)
  show "parseUnicodeEscape s \<noteq> Inl OutOfFuel"
    using h by (auto simp: parseUnicodeEscape_def split: sum.splits option.splits)
  show "any_exponent s \<noteq> Inl OutOfFuel"
    by (auto simp: any_exponent_def Let_def split: list.splits)
qed (auto simp: any_fraction_def expectLiteral_def count_value_def descend_def
    split: list.splits option.splits)

lemma no_fuel_parseString [simp]: "parseString sb s \<noteq> Inl OutOfFuel"
proof (induction sb s rule: parseString.induct)
  case (1 sb s)
  show ?case
    using 1 by (subst parseString.simps) (auto split: list.splits option.splits sum.splits simp del: decode_rune.simps)
qed

lemma no_fuel_scalars [simp]:
  "string_value p \<noteq> Inl OutOfFuel"
  "literal_value v lit p \<noteq> Inl OutOfFuel"
  "parse_name obj p \<noteq> Inl OutOfFuel"
  "parseNumber p \<noteq> Inl OutOfFuel"
proof -
  have "parseAnyNumber i p \<noteq> Inl OutOfFuel" for i p
    by (auto simp: parseAnyNumber_def Let_def split: sum.splits option.splits)
  then show "parseNumber p \<noteq> Inl OutOfFuel"
    by (auto simp: parseNumber_def Let_def split: option.splits)
qed (auto simp: string_value_def literal_value_def parse_name_def split: sum.splits)

lemma fuel_enough:
  "3 * length (p_rest p) + 1 \<le> k \<Longrightarrow> parseValue k p \<noteq> Inl OutOfFuel"
  "3 * length (p_rest p) \<le> k \<Longrightarrow> p_rest p \<noteq> [] \<Longrightarrow> parseObject k p \<noteq> Inl OutOfFuel"
  "3 * length (p_rest p) + 2 \<le> k \<Longrightarrow> parseMembers k obj p \<noteq> Inl OutOfFuel"
  "3 * length (p_rest p) \<le> k \<Longrightarrow> p_rest p \<noteq> [] \<Longrightarrow> parseArray k p \<noteq> Inl OutOfFuel"
  "3 * length (p_rest p) + 2 \<le> k \<Longrightarrow> parseElements k arr p \<noteq> Inl OutOfFuel"
proof (induction k arbitrary: p obj arr)
  case 0
  { case 1 then show ?case by simp }
  { case 2 then show ?case by simp }
  { case 3 then show ?case by simp }
  { case 4 then show ?case by simp }
  { case 5 then show ?case by simp }
next
  case (Suc k)
  {
    case 1
    have "parseObject k q \<noteq> Inl OutOfFuel \<and> parseArray k q \<noteq> Inl OutOfFuel"
      if "count_value c p = Inr p1" "descend p1 = Inr q" "p_rest p \<noteq> []" for c p1 q
      using Suc.IH(2,4) [of q] rest_Cons_count [OF that(1)] rest_descend [OF that(2)] that(3) 1
      by simp
    note sub = this
    show ?case
    proof (cases "p_rest p")
      case (Cons c r)
      show ?thesis
      proof (cases "count_value c p")
        case (Inl e)
        with Cons no_fuel_readers(6) [of c p] show ?thesis by auto
      next
        case (Inr p1)
        with Cons sub [OF Inr] no_fuel_readers(7) [of p1] show ?thesis
          by (cases "descend p1") (auto split: sum.splits)
      qed
    qed simp
  next
    case 2
    then have "length (skip_space (drop 1 (p_rest p))) \<le> length (p_rest p) - 1"
      using length_skip_space [of "drop 1 (p_rest p)"] by simp
    with 2 have "3 * length (skip_space (drop 1 (p_rest p))) + 2 \<le> k"
      by (cases "p_rest p") auto
    then show ?case
      using Suc.IH(3) [of "skipWhitespace (advance p)" "[]"] by (simp add: Let_def)
  next
    case 3
    show ?case
    proof (cases "parse_name obj (skipWhitespace p)")
      case (Inr nq)
      obtain name q where nq: "nq = (name, q)" by fastforce
      have f: "frame p q" using parse_name_sound Inr nq by blast
      then have v: "parseValue k q \<noteq> Inl OutOfFuel"
        using 3 Suc.IH(1) [of q] by (simp add: frame_def)
      have "parseMembers k obj' (advance (skipWhitespace q1)) \<noteq> Inl OutOfFuel"
        if "parseValue k q = Inr (w, q1)" for w q1 obj'
      proof (rule Suc.IH(3))
        have "frame p (advance (skipWhitespace q1))"
          using parse_reads(1) [OF that] frame_trans [OF f] frame_skip_advance by (auto simp: reads_def)
        then show "3 * length (p_rest (advance (skipWhitespace q1))) + 2 \<le> k"
          using 3 unfolding frame_def by linarith
      qed
      then show ?thesis using v by (auto simp: Inr nq Let_def split: sum.splits list.splits)
    qed (auto simp: split: sum.splits dest: sym)
  next
    case 4
    then have "length (skip_space (drop 1 (p_rest p))) \<le> length (p_rest p) - 1"
      using length_skip_space [of "drop 1 (p_rest p)"] by simp
    with 4 have "3 * length (skip_space (drop 1 (p_rest p))) + 2 \<le> k"
      by (cases "p_rest p") auto
    then show ?case
      using Suc.IH(5) [of "skipWhitespace (advance p)" "[]"] by (simp add: Let_def)
  next
    case 5
    have v: "parseValue k (skipWhitespace p) \<noteq> Inl OutOfFuel"
      using 5 Suc.IH(1) [of "skipWhitespace p"] length_skip_space [of "p_rest p"] by simp
    have "parseElements k arr' (advance (skipWhitespace q1)) \<noteq> Inl OutOfFuel"
      if "parseValue k (skipWhitespace p) = Inr (w, q1)" for w q1 arr'
    proof (rule Suc.IH(5))
      have "frame p (advance (skipWhitespace q1))"
        using reads_skip [OF parse_reads(1) [OF that]] frame_skip_advance by (auto simp: reads_def)
      then show "3 * length (p_rest (advance (skipWhitespace q1))) + 2 \<le> k"
        using 5 unfolding frame_def by linarith
    qed
    then show ?case using v by (auto simp: Let_def split: sum.splits list.splits)
  }
qed

lemma document_terminates: "document p \<noteq> Inl OutOfFuel"
  using fuel_enough(1) [of "skipWhitespace p" "3 * length (p_rest (skipWhitespace p)) + 1"]
  by (auto simp: document_def Let_def split: sum.splits simp del: parseValue.simps)

lemma document_reads:
  assumes "document (new_parser t n a u) = Inr v"
  shows "wf_json a v \<and> jdepth v \<le> maxNesting \<and> (0 < n \<longrightarrow> jcount v \<le> n)"
proof -
  let ?p = "skipWhitespace (new_parser t n a u)"
  obtain q where "parseValue (3 * length (p_rest ?p) + 1) ?p = Inr (v, q)"
    using assms unfolding document_def Let_def
    by (auto simp del: parseValue.simps split: sum.splits if_splits)
  then have "reads ?p v q" by (rule parse_reads(1))
  then have "reads (new_parser t n a u) v q" by (rule reads_skip)
  then show ?thesis
    by (auto simp: reads_def element_ok_def spends_def new_parser_def)
qed

lemma parseJSON_domain: "parseJSON t = Inr v \<Longrightarrow> wf_json False v \<and> jdepth v \<le> maxNesting"
  using document_reads by (auto simp: parseJSON_def)

section \<open>The properties\<close>

text \<open>C7: Printing a value of the canonical domain that nests within the bound and parsing the
  bytes again answers the value itself, its members in ascending order of their names, whatever
  white space follows.\<close>

theorem canon_roundtrip:
  assumes "wf_json False v" and "jdepth v \<le> maxNesting" and "list_all is_json_space t"
  shows "parseJSON (canon v @ t) = Inr (norm_json v)"
  using assms by (rule parseJSON_canon_space)

definition sample_value :: jvalue where
  "sample_value = VObject [(''b'', VInt (-7)), (''a'', VArray [VBool True, VNull, VString [CHR 0x0A, CHR 0xC3, CHR 0xA9]])]"

definition sample_sorted :: jvalue where
  "sample_sorted = VObject [(''a'', VArray [VBool True, VNull, VString [CHR 0x0A, CHR 0xC3, CHR 0xA9]]), (''b'', VInt (-7))]"

theorem canon_roundtrip_witness:
  "wf_json False sample_value \<and> parseJSON (canon sample_value @ [CHR 0x0A]) = Inr sample_sorted"
proof -
  have h: "wf_json False sample_value" "jdepth sample_value \<le> maxNesting"
    "list_all is_json_space [CHR 0x0A]" by code_simp+
  have "norm_json sample_value = sample_sorted" by code_simp
  with h(1) canon_roundtrip [OF h] show ?thesis by simp
qed

text \<open>C6: No two different values of the canonical domain share their canonical bytes: the bytes
  a signature covers determine the value up to the order in which members were inserted.\<close>

theorem canon_injective:
  assumes "wf_json False v" and "jdepth v \<le> maxNesting"
    and "wf_json False w" and "jdepth w \<le> maxNesting"
  shows "canon v = canon w \<longleftrightarrow> norm_json v = norm_json w"
proof
  assume "canon v = canon w"
  then have "parseJSON (canon v @ []) = parseJSON (canon w @ [])" by simp
  then show "norm_json v = norm_json w"
    using parseJSON_canon_space [OF assms(1,2), of "[]"] parseJSON_canon_space [OF assms(3,4), of "[]"]
    by simp
next
  assume "norm_json v = norm_json w"
  then show "canon v = canon w"
    using canonWrite_norm [of v] canonWrite_norm [of w] by (simp add: canon_def)
qed

theorem canon_injective_witness:
  "canon sample_value = canon sample_sorted \<longleftrightarrow> norm_json sample_value = norm_json sample_sorted"
proof -
  have h: "wf_json False sample_value" "jdepth sample_value \<le> maxNesting"
    "wf_json False sample_sorted" "jdepth sample_sorted \<le> maxNesting" by code_simp+
  show ?thesis by (rule canon_injective [OF h])
qed

text \<open>C39: Canonicalization is idempotent: canonical text is its own canonical form.\<close>

theorem canonText_idempotent:
  assumes "canonText t = Inr c"
  shows "canonText c = Inr c"
proof -
  obtain v where v: "parseJSON t = Inr v" and c: "c = canon v"
    using assms by (auto simp: canonText_def split: sum.splits)
  have "parseJSON (canon v) = Inr (norm_json v)"
    using parseJSON_canon_space [of v "[]"] parseJSON_domain [OF v] by simp
  then show ?thesis by (simp add: canonText_def c canon_def canonWrite_norm)
qed

theorem canonText_idempotent_witness:
  "canonText '' [ 1,2 ] '' = Inr ''[1,2]'' \<and> canonText ''[1,2]'' = Inr ''[1,2]''"
proof -
  have h: "canonText '' [ 1,2 ] '' = Inr ''[1,2]''" by code_simp
  show ?thesis using h canonText_idempotent [OF h] by blast
qed



text \<open>C38: The parser answers on every input: the fuel its recursion is given suffices, under
  each of the four ways it is entered.\<close>

theorem parser_terminates:
  "parseJSON t \<noteq> Inl OutOfFuel \<and> parseRecordJSON t \<noteq> Inl OutOfFuel \<and>
   parseJSONWithin t n \<noteq> Inl OutOfFuel \<and> parseStatementJSON t n \<noteq> Inl OutOfFuel"
  by (simp add: parseJSON_def parseRecordJSON_def parseJSONWithin_def parseStatementJSON_def
      document_terminates)

end
