(* ===== verification/Canon_Lines.thy ===== *)
theory Canon_Lines
  imports Canon_Domain
begin

text \<open>
  Canonical objects kept as lines and read back.  The registry, a sidecar, a witness's log and
  the lease documents all keep one object per line or per document and read it member by
  member: the lemmas here carry a member of the object written to the member read.
\<close>

definition parse_object :: "bytes \<Rightarrow> members option" where
  "parse_object text = (case parseJSON text of Inr (VObject ms) \<Rightarrow> Some ms | _ \<Rightarrow> None)"

definition member_int :: "members \<Rightarrow> bytes \<Rightarrow> int option" where
  "member_int obj name = (case obj_get obj name of Some (VInt i) \<Rightarrow> Some i | _ \<Rightarrow> None)"

text \<open>\<^verbatim>\<open>exactlyMembers\<close>, and the same test written out where the code writes it out: the names
  of the object are the allowed ones, each once.\<close>

definition exactly_names :: "members \<Rightarrow> bytes list \<Rightarrow> bool" where
  "exactly_names obj allowed \<longleftrightarrow>
     length obj = length allowed \<and> list_all (\<lambda>m. fst m \<in> set allowed) obj"

definition norm_members :: "members \<Rightarrow> members" where
  "norm_members ms = map (on_value norm_json) (sort_key fst ms)"

section \<open>Bytes of a canonical text\<close>

lemma escape_rune_printable:
  assumes "is_scalar r" and "c \<in> set (escape_rune r)"
  shows "0x20 \<le> byte c"
proof -
  have hex: "0x20 \<le> byte (hex_digit n)" if "n < 16" for n
    using that by (auto simp: hex_digit_def)
  show ?thesis
  proof (cases "r < 0x80")
    case True
    then have "encode_rune r = [char_of r]"
      using assms(1) by (auto elim!: encode_rune_scalar_cases)
    with True assms(2) show ?thesis
      by (auto simp: escape_rune_def hex split: if_splits)
  next
    case False
    then have "\<forall>c \<in> set (encode_rune r). 0x80 \<le> byte c"
      using assms(1) by (auto elim!: encode_rune_scalar_cases simp: encode_rune_def encode3_def)
    with False assms(2) show ?thesis
      by (auto simp: escape_rune_def split: if_splits)
  qed
qed

lemma writeCanonicalString_printable:
  "valid_utf8 s \<Longrightarrow> c \<in> set (writeCanonicalString s) \<Longrightarrow> 0x20 \<le> byte c"
  using runes_valid [of s]
  by (auto simp: writeCanonicalString_def list_all_iff dest: escape_rune_printable)

lemma set_comma_join: "set (comma_join xs) \<subseteq> insert CHR '','' (\<Union>x \<in> set xs. set x)"
  by (induction xs rule: comma_join.induct) auto

lemma format_int_printable: "c \<in> set (format_int i) \<Longrightarrow> 0x20 \<le> byte c"
  using format_nat_digits [of "nat i"] format_nat_digits [of "nat (- i)"]
  by (auto simp: format_int_def list_all_iff is_digit_def split: if_splits)

lemma canonWrite_printable:
  "wf_json False v \<Longrightarrow> c \<in> set (canonWrite v) \<Longrightarrow> 0x20 \<le> byte c"
proof (induction v arbitrary: c rule: jvalue_induct)
  case (Object ms)
  have "0x20 \<le> byte c" if "(n, v) \<in> set ms" "c \<in> set (write_member (n, v))" for n v c
    using that Object writeCanonicalString_printable [of n c] by (fastforce simp: wf_VObject_iff)
  then show ?case
    using Object(3) set_comma_join [of "map write_member (sort_key fst ms)"]
    by (fastforce simp: canonWrite_VObject)
next
  case (Array vs)
  then show ?case
    using set_comma_join [of "map canonWrite vs"] by (fastforce simp: wf_VArray_iff)
qed (auto simp: writeCanonicalString_printable format_int_printable split: if_splits)

lemma canon_no_newline: "wf_json False v \<Longrightarrow> CHR 0x0A \<notin> set (canon v)"
  using canonWrite_printable [of v "CHR 0x0A"] by (auto simp: canon_def)

lemma canon_not_blank: "\<not> is_blank (canon (VObject ms) @ t)"
proof -
  have brace: "char_of (123 :: nat) = CHR ''{''" by (simp add: char_of_eq_char_iff)
  have "runes (CHR ''{'' # u) = byte CHR ''{'' # runes u" for u
    using runes_encode [of "byte CHR ''{''" u]
    by (simp add: is_scalar_def is_surrogate_def encode_rune_def brace)
  then show ?thesis
    by (simp add: canon_def canonWrite_VObject is_blank_def is_space_rune_def)
qed

text \<open>A text that parses is no blank line: its first byte that is not white space begins a value.\<close>

lemma runes_ascii: "byte c < 0x80 \<Longrightarrow> runes (c # u) = byte c # runes u"
  using runes_encode [of "byte c" u] by (simp add: is_scalar_def is_surrogate_def encode_rune_def)

lemma runes_ascii_append: "list_all (\<lambda>c. byte c < 0x80) ws \<Longrightarrow> runes (ws @ u) = map byte ws @ runes u"
  by (induction ws) (auto simp: runes_ascii)

lemma parseJSON_first:
  assumes "parseJSON line = Inr v"
  obtains c r where "skip_space line = c # r"
    and "c \<in> {CHR ''{'', CHR ''['', CHR 0x22, CHR ''t'', CHR ''f'', CHR ''n'', CHR ''-''} \<or> is_digit c"
proof (cases "skip_space line")
  case Nil
  with assms show thesis by (simp add: parseJSON_def document_def new_parser_def skipWhitespace_def Let_def)
next
  case (Cons c r)
  show thesis
  proof (cases "c \<in> {CHR ''{'', CHR ''['', CHR 0x22, CHR ''t'', CHR ''f'', CHR ''n'', CHR ''-''} \<or> is_digit c")
    case False
    with Cons assms show thesis
      by (simp add: parseJSON_def document_def new_parser_def skipWhitespace_def Let_def count_value_def)
  qed (use Cons that in blast)
qed

lemma parseJSON_not_blank:
  assumes "parseJSON line = Inr v"
  shows "\<not> is_blank line"
  using assms
proof (rule parseJSON_first)
  fix c r
  assume sk: "skip_space line = c # r"
    and c: "c \<in> {CHR ''{'', CHR ''['', CHR 0x22, CHR ''t'', CHR ''f'', CHR ''n'', CHR ''-''} \<or> is_digit c"
  have whole: "line = takeWhile is_json_space line @ c # r"
    using sk by (metis skip_space_def takeWhile_dropWhile_id)
  have "list_all (\<lambda>c. byte c < 0x80) (takeWhile is_json_space line)"
    by (auto simp: list_all_iff is_json_space_def dest!: set_takeWhileD)
  then have "runes line = map byte (takeWhile is_json_space line) @ runes (c # r)"
    by (metis whole runes_ascii_append)
  moreover have "byte c < 0x80" "\<not> is_space_rune (byte c)"
    using c by (auto simp: is_digit_def is_space_rune_def)
  ultimately show ?thesis by (simp add: is_blank_def runes_ascii)
qed

section \<open>Members written and read\<close>

lemma distinct_sort_key_map: "distinct (map f xs) \<Longrightarrow> distinct (map f (sort_key f xs))"
  by (metis distinct_map distinct_sort set_sort)

lemma obj_get_norm:
  assumes "distinct (map fst ms)"
  shows "obj_get (norm_members ms) n = map_option norm_json (obj_get ms n)"
proof -
  have "map_of (map (on_value norm_json) xs) n = map_option norm_json (map_of xs n)" for xs
    by (induction xs) auto
  moreover have "map_of (sort_key fst ms) = map_of ms"
    by (rule map_of_inject_set [THEN iffD2]) (auto simp: assms distinct_sort_key_map)
  ultimately show ?thesis by (simp add: obj_get_def norm_members_def)
qed

lemma memberString_norm [simp]:
  "distinct (map fst ms) \<Longrightarrow> memberString (norm_members ms) n = memberString ms n"
  by (auto simp: memberString_def obj_get_norm norm_VObject split: option.splits jvalue.splits)

lemma member_int_norm [simp]:
  "distinct (map fst ms) \<Longrightarrow> member_int (norm_members ms) n = member_int ms n"
  by (auto simp: member_int_def obj_get_norm norm_VObject split: option.splits jvalue.splits)

lemma exactly_names_norm [simp]: "exactly_names (norm_members ms) allowed = exactly_names ms allowed"
  by (auto simp: exactly_names_def norm_members_def list_all_iff)

lemma parse_object_canon:
  assumes "wf_json False (VObject ms)" and "jdepth (VObject ms) \<le> maxNesting"
    and "list_all is_json_space t"
  shows "parse_object (canon (VObject ms) @ t) = Some (norm_members ms)"
  using parseJSON_canon_space [OF assms] by (simp add: parse_object_def norm_VObject norm_members_def)

lemma canon_norm_members: "canon (VObject (norm_members ms)) = canon (VObject ms)"
  using canonWrite_norm [of "VObject ms"] by (simp add: canon_def norm_VObject norm_members_def)

text \<open>An object of strings and integers, the shape of every record kept on a line.\<close>

fun flat_value :: "jvalue \<Rightarrow> bool" where
  "flat_value (VString s) = valid_utf8 s"
| "flat_value (VInt i) = in_safe_range i"
| "flat_value (VBool b) = True"
| "flat_value VNull = True"
| "flat_value _ = False"

lemma flat_value_wf: "flat_value v \<Longrightarrow> wf_json a v \<and> jdepth v = 0"
  by (cases v) auto

lemma flat_object_wf:
  assumes "distinct (map fst ms)" and "list_all (\<lambda>(n, v). valid_utf8 n \<and> flat_value v) ms"
  shows "wf_json a (VObject ms)" and "jdepth (VObject ms) \<le> maxNesting"
proof -
  have "\<forall>(n, v) \<in> set ms. valid_utf8 n \<and> wf_json a v \<and> jdepth v = 0"
    using assms(2) by (auto simp: list_all_iff dest: flat_value_wf)
  then show "wf_json a (VObject ms)" "jdepth (VObject ms) \<le> maxNesting"
    using assms(1) by (auto simp: wf_VObject_iff jdepth_VObject_le maxNesting_def simp del: jdepth.simps)
qed

lemma valid_utf8_ascii: "list_all (\<lambda>c. byte c < 0x80) s \<Longrightarrow> valid_utf8 s"
proof (induction s)
  case (Cons c s)
  have "encode_rune (byte c) = [c]" "is_scalar (byte c)"
    using Cons(2) by (auto simp: encode_rune_def is_scalar_def is_surrogate_def)
  with Cons valid_utf8_encode [of "byte c" s] show ?case by simp
qed simp

lemma valid_utf8_lower_hex: "list_all is_lower_hex s \<Longrightarrow> valid_utf8 s"
  by (rule valid_utf8_ascii) (auto simp: list_all_iff is_lower_hex_def is_digit_def)

lemma valid_utf8_hex_encode [simp]: "valid_utf8 (hex_encode b)"
  by (simp add: valid_utf8_lower_hex)

lemma norm_members_filter:
  "filter (\<lambda>m. P (fst m)) (norm_members ms) = norm_members (filter (\<lambda>m. P (fst m)) ms)"
proof -
  have "filter (\<lambda>m. P (fst m)) (map (on_value norm_json) xs) = map (on_value norm_json) (filter (\<lambda>m. P (fst m)) xs)" for xs
    by (induction xs) auto
  then show ?thesis by (simp add: norm_members_def filter_sort)
qed

section \<open>A canonical text is valid UTF-8\<close>

lemma escape_rune_utf8: "is_scalar r \<Longrightarrow> valid_utf8 (escape_rune r)"
proof -
  assume r: "is_scalar r"
  have "valid_utf8 (encode_rune r)" using valid_utf8_encode [OF r, of "[]"] by simp
  moreover have "list_all (\<lambda>c. byte c < 0x80) (CHR 0x5C # ''u00'' @ [hex_digit (r div 16), hex_digit (r mod 16)])"
    if "r < 0x20"
  proof -
    have "byte (hex_digit n) < 0x80" if "n < 16" for n
      using that by (auto simp: hex_digit_def)
    with that show ?thesis by simp
  qed
  ultimately show ?thesis
    by (auto simp: escape_rune_def intro!: valid_utf8_ascii)
qed

lemma valid_utf8_concat: "list_all valid_utf8 xs \<Longrightarrow> valid_utf8 (concat xs)"
  by (induction xs) (auto simp: valid_utf8_append)

lemma writeCanonicalString_utf8: "valid_utf8 s \<Longrightarrow> valid_utf8 (writeCanonicalString s)"
proof -
  assume s: "valid_utf8 s"
  have q: "valid_utf8 [CHR 0x22]" by (rule valid_utf8_ascii) simp
  have "valid_utf8 (concat (map escape_rune (runes s)))"
    using runes_valid [OF s] by (intro valid_utf8_concat) (auto simp: list_all_iff escape_rune_utf8)
  with q valid_utf8_append [OF q, of "concat (map escape_rune (runes s)) @ [CHR 0x22]"] show ?thesis
    by (simp add: writeCanonicalString_def valid_utf8_append)
qed

lemma valid_utf8_Cons_ascii: "byte c < 0x80 \<Longrightarrow> valid_utf8 (c # s) = valid_utf8 s"
  using valid_utf8_append [OF valid_utf8_ascii [of "[c]"], of s] by simp

lemma comma_join_utf8: "list_all valid_utf8 xs \<Longrightarrow> valid_utf8 (comma_join xs)"
  by (induction xs rule: comma_join.induct) (auto simp: valid_utf8_append valid_utf8_Cons_ascii)

lemma format_int_utf8: "valid_utf8 (format_int i)"
  using format_nat_digits [of "nat i"] format_nat_digits [of "nat (- i)"]
  by (intro valid_utf8_ascii) (auto simp: format_int_def list_all_iff is_digit_def)

lemma canonWrite_utf8: "wf_json False v \<Longrightarrow> valid_utf8 (canonWrite v)"
proof (induction v rule: jvalue_induct)
  case (Object ms)
  then have "list_all valid_utf8 (map write_member (sort_key fst ms))"
    by (fastforce simp: list_all_iff wf_VObject_iff valid_utf8_append writeCanonicalString_utf8
        valid_utf8_Cons_ascii)
  then show ?case
    by (simp add: canonWrite_VObject valid_utf8_Cons_ascii valid_utf8_append comma_join_utf8)
next
  case (Array vs)
  then have "list_all valid_utf8 (map canonWrite vs)" by (auto simp: list_all_iff wf_VArray_iff)
  then show ?case by (simp add: valid_utf8_Cons_ascii valid_utf8_append comma_join_utf8)
qed (simp_all add: writeCanonicalString_utf8 format_int_utf8 valid_utf8_ascii)

lemma canon_utf8: "wf_json False v \<Longrightarrow> valid_utf8 (canon v)"
  by (simp add: canon_def canonWrite_utf8)

section \<open>How long a canonical text is\<close>

text \<open>An escape is at most six bytes for a byte; a bound for objects of flat members.\<close>

lemma length_escape_rune: "length (escape_rune r) \<le> 6 * length (encode_rune r)"
proof -
  have "1 \<le> length (encode_rune r)" using encode_rune_neq_Nil [of r] by (cases "encode_rune r") auto
  then show ?thesis by (auto simp: escape_rune_def)
qed

lemma length_writeCanonicalString: "valid_utf8 s \<Longrightarrow> length (writeCanonicalString s) \<le> 6 * length s + 2"
proof -
  assume "valid_utf8 s"
  then have "length (concat (map escape_rune (runes s))) \<le> 6 * length s"
  proof (induction s rule: valid_utf8_induct)
    case (Rune r t)
    then show ?case using length_escape_rune [of r] by simp
  qed simp
  then show ?thesis by (simp add: writeCanonicalString_def)
qed

lemma length_format_safe:
  assumes "in_safe_range i"
  shows "length (format_int i) \<le> 17"
proof -
  have "nat i < 10 ^ Suc 15" "nat (- i) < 10 ^ Suc 15"
    using assms by (auto simp: in_safe_range_def maxSafeInteger_def minSafeInteger_def)
  from this [THEN length_format_nat] show ?thesis by (simp add: format_int_def)
qed

fun flat_bound :: "jvalue \<Rightarrow> nat" where
  "flat_bound (VString s) = 6 * length s + 2"
| "flat_bound _ = 17"

lemma length_flat: "flat_value v \<Longrightarrow> length (canonWrite v) \<le> flat_bound v"
  using length_writeCanonicalString by (cases v) (fastforce simp: length_format_safe)+

lemma length_comma_join: "length (comma_join xs) \<le> sum_list (map (\<lambda>x. Suc (length x)) xs)"
  by (induction xs rule: comma_join.induct) auto

lemma sum_list_mono_pred:
  "(\<And>x. x \<in> set xs \<Longrightarrow> f x \<le> (g x :: nat)) \<Longrightarrow> sum_list (map f xs) \<le> sum_list (map g xs)"
  by (induction xs) (auto intro: add_mono)

lemma sum_list_sort_key: "sum_list (map f (sort_key k xs)) = (sum_list (map f xs) :: nat)"
proof (induction xs)
  case (Cons x xs)
  have "sum_list (map f (insort_key k x ys)) = f x + sum_list (map f ys)" for ys
    by (induction ys) auto
  with Cons show ?case by simp
qed simp

lemma length_canon_flat:
  assumes "list_all (\<lambda>(n, v). valid_utf8 n \<and> flat_value v) ms"
  shows "length (canon (VObject ms)) \<le> 2 + sum_list (map (\<lambda>(n, v). 6 * length n + 4 + flat_bound v) ms)"
proof -
  have "length (comma_join (map write_member (sort_key fst ms))) \<le>
      sum_list (map (\<lambda>x. Suc (length x)) (map write_member (sort_key fst ms)))"
    by (rule length_comma_join)
  also have "\<dots> \<le> sum_list (map (\<lambda>(n, v). 6 * length n + 4 + flat_bound v) (sort_key fst ms))"
    unfolding map_map
  proof (rule sum_list_mono_pred)
    fix x assume "x \<in> set (sort_key fst ms)"
    then obtain n v where x: "x = (n, v)" "valid_utf8 n" "flat_value v"
      using assms by (fastforce simp: list_all_iff)
    then show "((\<lambda>x. Suc (length x)) \<circ> write_member) x \<le> (case x of (n, v) \<Rightarrow> 6 * length n + 4 + flat_bound v)"
      using length_writeCanonicalString [of n] length_flat [of v] by simp
  qed
  also have "\<dots> = sum_list (map (\<lambda>(n, v). 6 * length n + 4 + flat_bound v) ms)"
    by (rule sum_list_sort_key)
  finally show ?thesis by (simp add: canon_def canonWrite_VObject)
qed

end
