(* ===== verification/Keys.thy ===== *)
theory Keys
  imports Canon_Lines
begin

text \<open>
  Keys and the primitives of the standard library's cryptography.

  SHA-256 and Ed25519 are not code of the repository: they are a record \<open>crypto\<close> that every
  definition using them takes as its first argument.  What the gateway relies on of a key is
  stated by the predicate \<open>signs_ok\<close> (a key made from a seed verifies what that seed signs, with
  the lengths of RFC 8032); nothing about unforgeability or collision resistance is assumed by
  any definition.  \<^verbatim>\<open>sha256.Sum256\<close> answers a \<^verbatim>\<open>[32]byte\<close>, so \<open>sha256\<close> holds the hash of the
  record to that length.

  The rule for public keys (\<^verbatim>\<open>record_signature.go\<close>) is code of the repository and is
  modelled whole: the canonical encoding of a point of the curve whose order does not divide 8.
  \<^verbatim>\<open>big.Int\<close> is \<^typ>\<open>int\<close>, which is unbounded too.
\<close>

section \<open>The cryptographic primitives\<close>

record crypto =
  hash :: "bytes \<Rightarrow> bytes"
  ed_public :: "bytes \<Rightarrow> bytes"
  ed_sign :: "bytes \<Rightarrow> bytes \<Rightarrow> bytes"
  ed_verify :: "bytes \<Rightarrow> bytes \<Rightarrow> bytes \<Rightarrow> bool"

definition sha256 :: "crypto \<Rightarrow> bytes \<Rightarrow> bytes" where
  "sha256 C m = take 32 (hash C m @ replicate 32 (CHR 0x00))"

definition digest_of :: "crypto \<Rightarrow> bytes \<Rightarrow> bytes" where
  "digest_of C m = ''sha256:'' @ hex_encode (sha256 C m)"

definition signs_ok :: "crypto \<Rightarrow> bytes \<Rightarrow> bool" where
  "signs_ok C seed \<longleftrightarrow>
     length (ed_public C seed) = 32 \<and>
     (\<forall>m. length (ed_sign C seed m) = 64 \<and> ed_verify C (ed_public C seed) m (ed_sign C seed m))"

abbreviation (input) publicKeySize :: nat where "publicKeySize \<equiv> 32"

abbreviation (input) signatureSize :: nat where "signatureSize \<equiv> 64"

definition seedBytes :: nat where
  "seedBytes = 32"

definition isLowerHexOfLen :: "bytes \<Rightarrow> nat \<Rightarrow> bool" where
  "isLowerHexOfLen s n \<longleftrightarrow> length s = n \<and> list_all is_lower_hex s"

definition keyIDFor :: "crypto \<Rightarrow> bytes \<Rightarrow> bytes" where
  "keyIDFor C publicKey = take 32 (hex_encode (sha256 C publicKey))"

definition isDigest :: "bytes \<Rightarrow> bool" where
  "isDigest s = (case cut_prefix ''sha256:'' s of None \<Rightarrow> False | Some h \<Rightarrow> isLowerHexOfLen h 64)"

lemma list_all_take: "list_all P xs \<Longrightarrow> list_all P (take n xs)"
  by (auto simp: list_all_iff dest: in_set_takeD)

lemma isLowerHexOfLen_hex_encode [simp]: "isLowerHexOfLen (hex_encode b) n \<longleftrightarrow> n = 2 * length b"
  by (auto simp: isLowerHexOfLen_def)

lemma length_sha256 [simp]: "length (sha256 C m) = 32"
  by (simp add: sha256_def)

lemma isLowerHexOfLen_keyIDFor [simp]: "isLowerHexOfLen (keyIDFor C k) 32"
  by (simp add: isLowerHexOfLen_def keyIDFor_def list_all_take)

lemma isDigest_digest_of [simp]: "isDigest (digest_of C m)"
  unfolding isDigest_def digest_of_def cut_prefix_append by simp

text \<open>One instance of the primitives that meets \<open>signs_ok\<close> for every seed, for the concrete runs
  of the development: a key is its seed held to 32 bytes, and a signature the key and the end of
  what it signs.  It has the laws used here and no security.\<close>

definition held_to :: "nat \<Rightarrow> bytes \<Rightarrow> bytes" where
  "held_to n m = take n (m @ replicate n (CHR 0x00))"

definition sample_crypto :: crypto where
  "sample_crypto =
     \<lparr> hash = held_to 32, ed_public = held_to 32,
       ed_sign = (\<lambda>seed m. held_to 32 seed @ held_to 32 (rev m)),
       ed_verify = (\<lambda>key m sg. sg = held_to 32 key @ held_to 32 (rev m)) \<rparr>"

lemma length_held_to [simp]: "length (held_to n m) = n"
  by (simp add: held_to_def)

lemma held_to_id: "length m = n \<Longrightarrow> held_to n m = m"
  by (simp add: held_to_def)

lemma sample_crypto_signs [simp]: "signs_ok sample_crypto seed"
  by (simp add: signs_ok_def sample_crypto_def held_to_id)

lemma sample_crypto_public: "length seed = 32 \<Longrightarrow> ed_public sample_crypto seed = seed"
  by (simp add: sample_crypto_def held_to_id)

section \<open>The rule for public keys\<close>

definition curveP :: int where
  "curveP = 2 ^ 255 - 19"

text \<open>\<^verbatim>\<open>big.Int.Exp\<close> with a modulus, by squaring, and \<^verbatim>\<open>big.Int.ModInverse\<close>, by Euclid's
  algorithm.  \<^verbatim>\<open>ModInverse\<close> answers nil for a number that shares a factor with the modulus; the
  code takes it only of numbers that share none with the prime \<open>curveP\<close>, and \<open>mod_inverse\<close>
  answers 0 outside that.\<close>

fun pow_mod :: "int \<Rightarrow> nat \<Rightarrow> int \<Rightarrow> int" where
  "pow_mod b e p =
     (if e = 0 then 1 mod p
      else if e mod 2 = 0 then pow_mod (b * b mod p) (e div 2) p
      else b * pow_mod (b * b mod p) (e div 2) p mod p)"

declare pow_mod.simps [simp del]

function euclid :: "int \<Rightarrow> int \<Rightarrow> int \<Rightarrow> int \<Rightarrow> int \<times> int" where
  "euclid r s t u = (if s \<le> 0 then (r, t) else euclid s (r mod s) u (t - (r div s) * u))"
  by pat_completeness auto
termination
  by (relation "measure (\<lambda>(r, s, t, u). nat s)") auto

declare euclid.simps [simp del]

definition mod_inverse :: "int \<Rightarrow> int \<Rightarrow> int" where
  "mod_inverse a p = (case euclid p (a mod p) 0 1 of (g, t) \<Rightarrow> if g = 1 then t mod p else 0)"

definition curveD :: int where
  "curveD = mod_inverse 121666 curveP * (-121665) mod curveP"

datatype keyFault =
    KeySound
  | KeyWrongLength
  | KeyYNotBelowP
  | KeyNotOnCurve
  | KeyXZeroSignSet
  | KeySmallOrder

definition squareRoot :: "int \<Rightarrow> int option" where
  "squareRoot a =
     (let p = curveP;
          x = pow_mod a (nat ((p + 3) div 8)) p
      in if x * x mod p = a then Some x
         else let root = pow_mod 2 (nat ((p - 1) div 4)) p;
                  x = x * root mod p
              in if x * x mod p = a then Some x else None)"

definition edwardsAdd :: "int \<Rightarrow> int \<Rightarrow> int \<Rightarrow> int \<Rightarrow> int \<times> int" where
  "edwardsAdd x1 y1 x2 y2 =
     (let p = curveP;
          t = x1 * x2 * y1 * y2 * curveD mod p;
          xNum = x1 * y2 + y1 * x2;
          yNum = y1 * y2 + x1 * x2;
          xDen = 1 + t;
          yDen = 1 - t
      in (xNum * mod_inverse (xDen mod p) p mod p, yNum * mod_inverse (yDen mod p) p mod p))"

text \<open>\<^verbatim>\<open>big.Int.SetBytes\<close> of the bytes in big-endian order.\<close>

fun bytes_int :: "int \<Rightarrow> bytes \<Rightarrow> int" where
  "bytes_int acc [] = acc"
| "bytes_int acc (c # cs) = bytes_int (acc * 256 + int (byte c)) cs"

definition publicKeyFault :: "bytes \<Rightarrow> keyFault" where
  "publicKeyFault raw =
     (if length raw \<noteq> publicKeySize then KeyWrongLength
      else let le = rev raw;
               sign = byte (hd le) div 128;
               y = bytes_int 0 (char_of (byte (hd le) mod 128) # tl le);
               p = curveP
           in if y \<ge> p then KeyYNotBelowP
              else let yy = y * y;
                       u = yy - 1;
                       v = curveD * yy + 1;
                       xx = mod_inverse (v mod p) p * u mod p
                   in case squareRoot xx of
                        None \<Rightarrow> KeyNotOnCurve
                      | Some x \<Rightarrow>
                          if x = 0 \<and> sign = 1 then KeyXZeroSignSet
                          else let double = (\<lambda>(x, y). edwardsAdd x y x y)
                               in if double (double (double (x, y))) = (0, 1) then KeySmallOrder
                                  else KeySound)"

definition unusableSigningKey :: "bytes \<Rightarrow> bytes" where
  "unusableSigningKey raw =
     (case publicKeyFault raw of
        KeyWrongLength \<Rightarrow> ''is not 32 bytes''
      | KeyYNotBelowP \<Rightarrow> ''is not the canonical encoding of a point: its y is not below p''
      | KeyNotOnCurve \<Rightarrow> ''is not a point of the Ed25519 curve, so no signature verifies under it''
      | KeyXZeroSignSet \<Rightarrow> ''is not the canonical encoding of a point: its x is 0 and its sign bit is set''
      | KeySmallOrder \<Rightarrow> ''is of small order, under which a signature can be made without any secret''
      | KeySound \<Rightarrow> '''')"

lemma pow_mod_eq: "0 < p \<Longrightarrow> pow_mod b e p = b ^ e mod p"
proof (induction b e p rule: pow_mod.induct)
  case (1 b e p)
  show ?case
  proof (cases "e = 0")
    case True
    then show ?thesis by (simp add: pow_mod.simps)
  next
    case False
    have sq: "pow_mod (b * b mod p) (e div 2) p = (b * b) ^ (e div 2) mod p"
      using 1 False by (cases "e mod 2 = 0") (simp_all add: power_mod)
    have pw: "(b * b) ^ (e div 2) = b ^ (2 * (e div 2))"
      by (simp add: power_mult power2_eq_square)
    show ?thesis
    proof (cases "e mod 2 = 0")
      case True
      then have "2 * (e div 2) = e" by presburger
      with True False sq pw show ?thesis by (simp add: pow_mod.simps [of b e p])
    next
      case odd: False
      then have "Suc (2 * (e div 2)) = e" by presburger
      then have "b * b ^ (2 * (e div 2)) = b ^ e" by (metis power_Suc)
      with odd False sq pw show ?thesis
        by (simp add: pow_mod.simps [of b e p] mod_mult_right_eq)
    qed
  qed
qed

lemma euclid_bezout:
  assumes "euclid r s t u = (g, w)" and "0 \<le> s" and "0 < r"
    and "(a * t) mod p = r mod p" and "(a * u) mod p = s mod p"
  shows "(a * w) mod p = g mod p \<and> g = gcd r s"
  using assms
proof (induction r s t u rule: euclid.induct)
  case (1 r s t u)
  show ?case
  proof (cases "s \<le> 0")
    case True
    with 1 show ?thesis by (simp add: euclid.simps)
  next
    case False
    have "(a * (t - r div s * u)) mod p = (a * t - r div s * (a * u)) mod p"
      by (simp add: algebra_simps)
    also have "\<dots> = (r - r div s * s) mod p"
      using 1(5,6) by (metis mod_diff_cong mod_mult_cong)
    finally have "(a * (t - r div s * u)) mod p = (r mod s) mod p"
      by (simp add: minus_div_mult_eq_mod)
    with 1 False show ?thesis
      by (simp add: euclid.simps [of r s] gcd_red_int [of r s])
  qed
qed

lemma mod_inverse_correct:
  assumes "coprime a p" and "1 < p"
  shows "(a * mod_inverse a p) mod p = 1" and "0 \<le> mod_inverse a p" and "mod_inverse a p < p"
proof -
  obtain g t where e: "euclid p (a mod p) 0 1 = (g, t)" by fastforce
  have "(a * t) mod p = g mod p \<and> g = gcd p (a mod p)"
    by (rule euclid_bezout [OF e]) (use assms in auto)
  moreover have "gcd p (a mod p) = 1"
    using assms by (metis coprime_imp_gcd_eq_1 gcd.commute gcd_red_int)
  ultimately have "(a * t) mod p = 1" "g = 1" using assms by auto
  then show "(a * mod_inverse a p) mod p = 1" "0 \<le> mod_inverse a p" "mod_inverse a p < p"
    using e assms by (simp_all add: mod_inverse_def mod_mult_right_eq)
qed

text \<open>An inverse is recognised by one multiplication.\<close>

lemma mod_inverse_eqI:
  assumes "(a * z) mod p = 1" and "0 \<le> z" and "z < p"
  shows "mod_inverse a p = z"
proof -
  have p: "1 < p" using assms by (smt (verit) mod_by_1 mod_pos_pos_trivial mult_eq_0_iff)
  have cop: "coprime a p"
  proof (rule coprimeI)
    fix c assume "c dvd a" "c dvd p"
    then have "c dvd (a * z) mod p" by (simp add: dvd_mod)
    then show "is_unit c" using assms by simp
  qed
  have inv: "(a * mod_inverse a p) mod p = 1" by (rule mod_inverse_correct(1) [OF cop p])
  have "mod_inverse a p mod p = (mod_inverse a p * ((a * z) mod p)) mod p" using assms(1) by simp
  also have "\<dots> = (z * ((a * mod_inverse a p) mod p)) mod p"
    by (simp add: mod_mult_right_eq ac_simps)
  also have "\<dots> = z mod p" using inv by simp
  finally show ?thesis
    using mod_inverse_correct(2,3) [OF cop p] assms by simp
qed

end
