(* ===== verification/Registry.thy ===== *)
theory Registry
  imports Keys Utf8
begin

text \<open>
  The seal registry as a verifier reads it (\<^verbatim>\<open>rotation.go\<close>, and the seal of \<^verbatim>\<open>verify.go\<close>).

  The registry is a log of lines.  Each line is a seal under the current key, half of a pair of
  rotation statements that hand the current key on, or nothing.  \<open>walkRegistry\<close> walks the lines
  from a pinned key; its state is the record \<open>registryWalk\<close>, with the keys reached, the seals
  loaded in the order they load and the one finding a walk can have.
\<close>

section \<open>Seals\<close>

definition sealContext :: bytes where
  "sealContext = ''judgment-pack-gateway/seal/2:''"

record seal =
  seal_session :: bytes
  seal_count :: int

definition sealSigningInput :: "bytes \<Rightarrow> int \<Rightarrow> bytes \<Rightarrow> bytes \<Rightarrow> bytes" where
  "sealSigningInput sessionID finalCount sealedAt keyID =
     (let covered = obj_set [] ''sessionId'' (VString sessionID);
          covered = obj_set covered ''finalCount'' (VInt finalCount);
          covered = obj_set covered ''sealedAt'' (VString sealedAt);
          covered = obj_set covered ''keyId'' (VString keyID)
      in sealContext @ canon (VObject covered))"

section \<open>Rotation statements\<close>

definition rotationContext :: bytes where
  "rotationContext = ''judgment-pack-gateway/rotation/1:''"

definition rotationKindForward :: bytes where
  "rotationKindForward = ''key-rotation''"

definition rotationKindReverse :: bytes where
  "rotationKindReverse = ''key-continuation''"

definition rotationVersion :: bytes where
  "rotationVersion = ''1''"

definition maxRotation :: int where
  "maxRotation = maxSafeInteger - 1"

datatype rotation_status =
    RotationBreak
  | RotationForged
  | RotationOrder
  | RotationKeyRefused

definition rotationMembers :: "bytes \<Rightarrow> bytes list option" where
  "rotationMembers kind =
     (if kind = rotationKindForward
      then Some [''kind'', ''rotationVersion'', ''rotation'', ''rotatedAt'', ''keyId'', ''next'', ''nextKeyId'', ''signature'']
      else if kind = rotationKindReverse
      then Some [''kind'', ''rotationVersion'', ''rotation'', ''rotatedAt'', ''keyId'', ''previous'', ''previousKeyId'', ''signature'']
      else None)"

record rotationStatement =
  rs_kind :: bytes
  rs_rotation :: int
  rs_rotatedAt :: bytes
  rs_keyID :: bytes
  rs_named :: bytes
  rs_namedID :: bytes
  rs_signature :: bytes
  rs_obj :: members

text \<open>The form \<^verbatim>\<open>^[0-9]{4}-[0-9]{2}-[0-9]{2}T[0-9]{2}:[0-9]{2}:[0-9]{2}Z$\<close>, a \<open>d\<close> of the template
  standing for a digit.\<close>

definition witnessTimeForm :: "bytes \<Rightarrow> bool" where
  "witnessTimeForm s =
     list_all2 (\<lambda>t c. if t = CHR ''d'' then is_digit c else c = t) ''dddd-dd-ddTdd:dd:ddZ'' s"

definition rotationKindOf :: "bytes \<Rightarrow> (bytes \<times> members) option" where
  "rotationKindOf line = do {
     obj \<leftarrow> parse_object line;
     kind \<leftarrow> memberString obj ''kind'';
     require (rotationMembers kind \<noteq> None);
     Some (kind, obj) }"

definition rotationStatementOf :: "crypto \<Rightarrow> bytes \<Rightarrow> members \<Rightarrow> rotationStatement option" where
  "rotationStatementOf C kind obj = do {
     allowed \<leftarrow> rotationMembers kind;
     require (exactly_names obj allowed);
     let (named, namedID) = (if kind = rotationKindReverse then (''previous'', ''previousKeyId'')
                             else (''next'', ''nextKeyId''));
     version \<leftarrow> memberString obj ''rotationVersion'';
     rotatedAt \<leftarrow> memberString obj ''rotatedAt'';
     keyID \<leftarrow> memberString obj ''keyId'';
     namedHex \<leftarrow> memberString obj named;
     namedKeyID \<leftarrow> memberString obj namedID;
     signatureHex \<leftarrow> memberString obj ''signature'';
     rotation \<leftarrow> member_int obj ''rotation'';
     require (version = rotationVersion \<and> witnessTimeForm rotatedAt \<and>
              isLowerHexOfLen keyID 32 \<and> isLowerHexOfLen namedHex 64 \<and>
              isLowerHexOfLen namedKeyID 32 \<and> isLowerHexOfLen signatureHex 128 \<and>
              1 \<le> rotation \<and> rotation \<le> maxRotation);
     namedKey \<leftarrow> hex_decode namedHex;
     require (keyIDFor C namedKey = namedKeyID);
     signature \<leftarrow> hex_decode signatureHex;
     Some \<lparr> rs_kind = kind, rs_rotation = rotation, rs_rotatedAt = rotatedAt, rs_keyID = keyID,
            rs_named = namedKey, rs_namedID = namedKeyID, rs_signature = signature, rs_obj = obj \<rparr> }"

definition rotationSigningInput :: "members \<Rightarrow> bytes" where
  "rotationSigningInput obj =
     rotationContext @ canon (VObject (filter (\<lambda>m. fst m \<noteq> ''signature'') obj))"

definition signedBy :: "crypto \<Rightarrow> rotationStatement \<Rightarrow> bytes \<Rightarrow> bool" where
  "signedBy C st key \<longleftrightarrow>
     length key = publicKeySize \<and> ed_verify C key (rotationSigningInput (rs_obj st)) (rs_signature st)"

section \<open>The walk\<close>

record reachedKey =
  rk_key :: bytes
  rk_keyID :: bytes

record registryWalk =
  rw_seals :: "bytes \<rightharpoonup> seal"
  rw_order :: "bytes list"
  rw_keys :: "reachedKey list"
  rw_finding :: "(rotation_status \<times> nat) option"

definition followed :: "registryWalk \<Rightarrow> nat" where
  "followed w = length (rw_keys w) - 1"

definition current :: "registryWalk \<Rightarrow> reachedKey" where
  "current w = last (rw_keys w)"

fun key_position :: "reachedKey list \<Rightarrow> bytes \<Rightarrow> nat option" where
  "key_position [] keyID = None"
| "key_position (k # ks) keyID =
     (if rk_keyID k = keyID then Some 0 else map_option Suc (key_position ks keyID))"

definition follow :: "crypto \<Rightarrow> members \<Rightarrow> bytes \<Rightarrow> registryWalk \<Rightarrow> rotation_status + registryWalk" where
  "follow C obj nextLine w =
     (case rotationStatementOf C rotationKindForward obj of
        None \<Rightarrow> Inl RotationBreak
      | Some st \<Rightarrow>
          let cur = current w in
          if rs_keyID st \<noteq> rk_keyID cur \<or> \<not> signedBy C st (rk_key cur) then Inl RotationForged
          else if rs_rotation st \<noteq> int (followed w + 1) then Inl RotationOrder
          else if publicKeyFault (rs_named st) \<noteq> KeySound \<or> key_position (rw_keys w) (rs_namedID st) \<noteq> None
          then Inl RotationKeyRefused
          else (case rotationKindOf nextLine of
                  None \<Rightarrow> Inl RotationBreak
                | Some (kind, reverseObj) \<Rightarrow>
                    if kind \<noteq> rotationKindReverse then Inl RotationBreak
                    else (case rotationStatementOf C rotationKindReverse reverseObj of
                            None \<Rightarrow> Inl RotationBreak
                          | Some reverse \<Rightarrow>
                              if rs_rotation reverse \<noteq> rs_rotation st \<or>
                                 rs_rotatedAt reverse \<noteq> rs_rotatedAt st \<or>
                                 rs_named reverse \<noteq> rk_key cur \<or>
                                 rs_keyID reverse \<noteq> rs_namedID st \<or>
                                 \<not> signedBy C reverse (rs_named st)
                              then Inl RotationBreak
                              else Inr (w\<lparr> rw_keys := rw_keys w @
                                       [\<lparr> rk_key = rs_named st, rk_keyID = rs_namedID st \<rparr>] \<rparr>))))"

text \<open>The seal a line holds under a key: everything \<open>loadSeal\<close> asks of the line itself.\<close>

definition seal_of_line :: "crypto \<Rightarrow> reachedKey \<Rightarrow> bytes \<Rightarrow> seal option" where
  "seal_of_line C cur line = do {
     obj \<leftarrow> parse_object line;
     sessionID \<leftarrow> memberString obj ''sessionId'';
     sealedAt \<leftarrow> memberString obj ''sealedAt'';
     keyID \<leftarrow> memberString obj ''keyId'';
     sigHex \<leftarrow> memberString obj ''signature'';
     count \<leftarrow> member_int obj ''finalCount'';
     sig \<leftarrow> hex_decode sigHex;
     require (length sig = signatureSize);
     require (keyID = rk_keyID cur);
     require (ed_verify C (rk_key cur) (sealSigningInput sessionID count sealedAt keyID) sig);
     Some \<lparr> seal_session = sessionID, seal_count = count \<rparr> }"

definition loadSeal :: "crypto \<Rightarrow> bytes \<Rightarrow> registryWalk \<Rightarrow> registryWalk" where
  "loadSeal C line w =
     (case seal_of_line C (current w) line of
        None \<Rightarrow> w
      | Some s \<Rightarrow>
          if rw_seals w (seal_session s) \<noteq> None then w
          else w\<lparr> rw_seals := (rw_seals w)(seal_session s \<mapsto> s),
                  rw_order := rw_order w @ [seal_session s] \<rparr>)"

fun walk_lines :: "crypto \<Rightarrow> bytes list \<Rightarrow> registryWalk \<Rightarrow> registryWalk" where
  "walk_lines C [] w = w"
| "walk_lines C (line # rest) w =
     (if is_blank line then walk_lines C rest w
      else (case rotationKindOf line of
              None \<Rightarrow> walk_lines C rest (loadSeal C line w)
            | Some (kind, obj) \<Rightarrow>
                if rw_finding w \<noteq> None then walk_lines C rest w
                else if kind = rotationKindReverse
                then walk_lines C rest (w\<lparr> rw_finding := Some (RotationForged, followed w + 1) \<rparr>)
                else (case follow C obj (case rest of [] \<Rightarrow> [] | n # _ \<Rightarrow> n) w of
                        Inl status \<Rightarrow> walk_lines C rest (w\<lparr> rw_finding := Some (status, followed w + 1) \<rparr>)
                      | Inr w' \<Rightarrow> walk_lines C (tl rest) w')))"

definition start_walk :: "crypto \<Rightarrow> bytes \<Rightarrow> registryWalk" where
  "start_walk C pinned =
     \<lparr> rw_seals = Map.empty, rw_order = [],
       rw_keys = [\<lparr> rk_key = pinned, rk_keyID = keyIDFor C pinned \<rparr>], rw_finding = None \<rparr>"

definition walkRegistry :: "crypto \<Rightarrow> bytes \<Rightarrow> bytes \<Rightarrow> registryWalk" where
  "walkRegistry C data pinned = walk_lines C (split_on CHR 0x0A data) (start_walk C pinned)"

fun first_key_of :: "bytes list \<Rightarrow> bytes \<Rightarrow> bytes" where
  "first_key_of [] own = own"
| "first_key_of (line # rest) own =
     (case rotationKindOf line of
        None \<Rightarrow> first_key_of rest own
      | Some (kind, obj) \<Rightarrow>
          if kind \<noteq> rotationKindReverse then first_key_of rest own
          else (case memberString obj ''previous'' of
                  None \<Rightarrow> own
                | Some previous \<Rightarrow>
                    (case hex_decode previous of
                       Some key \<Rightarrow> if length key = publicKeySize then key else own
                     | None \<Rightarrow> own)))"

definition registryFirstKey :: "bytes \<Rightarrow> bytes \<Rightarrow> bytes" where
  "registryFirstKey data own = first_key_of (split_on CHR 0x0A data) own"

datatype walk_error =
    WalkFinding rotation_status nat
  | WalkEndsElsewhere bytes bytes

definition engineWalk :: "crypto \<Rightarrow> bytes \<Rightarrow> bytes \<Rightarrow> walk_error + registryWalk" where
  "engineWalk C data own =
     (let w = walkRegistry C data (registryFirstKey data own) in
      case rw_finding w of
        Some (status, rotation) \<Rightarrow> Inl (WalkFinding status rotation)
      | None \<Rightarrow> if rk_key (current w) \<noteq> own
                then Inl (WalkEndsElsewhere (rk_keyID (current w)) (keyIDFor C own))
                else Inr w)"

end
