(* ===== verification/Registry_Walk.thy ===== *)
theory Registry_Walk
  imports Registry
begin

text \<open>
  What the walk of a registry establishes: every key reached was handed on by a pair of
  statements the two keys signed, every seal loaded was signed by a key reached, and appending
  lines to a registry changes neither the seals it holds nor the keys it reaches.
\<close>

section \<open>Rules for the walk\<close>

lemma parse_object_Nil [simp]: "parse_object [] = None"
  by (simp add: parse_object_def parseJSON_def document_def new_parser_def skipWhitespace_def
      skip_space_def)

lemma rotationKindOf_Nil [simp]: "rotationKindOf [] = None"
  by (simp add: rotationKindOf_def)

lemma key_position_eq_None: "key_position ks i = None \<longleftrightarrow> i \<notin> rk_keyID ` set ks"
  by (induction ks) auto

text \<open>What a followed rotation is: the forward statement under the key before, the reverse one
  on the line after it under the key it names.\<close>

definition handed_on :: "crypto \<Rightarrow> bytes list \<Rightarrow> nat \<Rightarrow> reachedKey \<Rightarrow> reachedKey \<Rightarrow> bool" where
  "handed_on C lines n k k' \<longleftrightarrow>
     (\<exists>fwd rev fobj robj f r.
        sublist [fwd, rev] lines \<and>
        rotationKindOf fwd = Some (rotationKindForward, fobj) \<and>
        rotationStatementOf C rotationKindForward fobj = Some f \<and>
        rotationKindOf rev = Some (rotationKindReverse, robj) \<and>
        rotationStatementOf C rotationKindReverse robj = Some r \<and>
        rs_rotation f = int n \<and> rs_rotation r = int n \<and> rs_rotatedAt f = rs_rotatedAt r \<and>
        rs_keyID f = rk_keyID k \<and> rs_named f = rk_key k' \<and> signedBy C f (rk_key k) \<and>
        rs_keyID r = rk_keyID k' \<and> rs_named r = rk_key k \<and> signedBy C r (rk_key k') \<and>
        publicKeyFault (rk_key k') = KeySound \<and> keyIDFor C (rk_key k') = rk_keyID k')"

lemma rotationStatementOf_named:
  "rotationStatementOf C kind obj = Some st \<Longrightarrow> keyIDFor C (rs_named st) = rs_namedID st"
  by (auto simp: rotationStatementOf_def Option.bind_eq_Some_conv split: prod.splits)

lemma rotationKindOf_kind:
  "rotationKindOf line = Some (kind, obj) \<Longrightarrow> kind = rotationKindForward \<or> kind = rotationKindReverse"
  by (auto simp: rotationKindOf_def rotationMembers_def Option.bind_eq_Some_conv split: if_splits)

lemma rotationKind_distinct [simp]:
  "rotationKindForward \<noteq> rotationKindReverse" "rotationKindReverse \<noteq> rotationKindForward"
  by (simp_all add: rotationKindForward_def rotationKindReverse_def)

lemma follow_Inr:
  assumes "follow C obj nextLine w = Inr w'"
    and line: "rotationKindOf line = Some (rotationKindForward, obj)"
    and lines: "sublist [line, nextLine] lines"
  obtains k' where "w' = w\<lparr> rw_keys := rw_keys w @ [k'] \<rparr>"
    and "handed_on C lines (followed w + 1) (current w) k'"
    and "rk_keyID k' \<notin> rk_keyID ` set (rw_keys w)"
proof -
  from assms(1) obtain st robj r where
    st: "rotationStatementOf C rotationKindForward obj = Some st" and
    s1: "rs_keyID st = rk_keyID (current w)" "signedBy C st (rk_key (current w))" and
    s2: "rs_rotation st = int (followed w + 1)" and
    s3: "publicKeyFault (rs_named st) = KeySound" "key_position (rw_keys w) (rs_namedID st) = None" and
    rk: "rotationKindOf nextLine = Some (rotationKindReverse, robj)" and
    r: "rotationStatementOf C rotationKindReverse robj = Some r" and
    r1: "rs_rotation r = rs_rotation st" "rs_rotatedAt r = rs_rotatedAt st"
      "rs_named r = rk_key (current w)" "rs_keyID r = rs_namedID st" "signedBy C r (rs_named st)" and
    w': "w' = w\<lparr> rw_keys := rw_keys w @ [\<lparr> rk_key = rs_named st, rk_keyID = rs_namedID st \<rparr>] \<rparr>"
    unfolding follow_def Let_def
    by (auto split: option.splits if_splits prod.splits)
  show thesis
  proof (rule that [OF w'])
    show "handed_on C lines (followed w + 1) (current w) \<lparr> rk_key = rs_named st, rk_keyID = rs_namedID st \<rparr>"
      unfolding handed_on_def
      by (intro exI [of _ line] exI [of _ nextLine] exI [of _ obj] exI [of _ robj] exI [of _ st] exI [of _ r])
        (use lines line st rk r s1 s2 s3 r1 rotationStatementOf_named [OF st] in simp)
  qed (use s3 in \<open>simp add: key_position_eq_None\<close>)
qed

lemma follow_next_Nil: "follow C obj [] w \<noteq> Inr w'"
  by (auto simp: follow_def Let_def split: option.splits if_splits)

lemma sublist_ConsD:
  assumes "sublist (x # xs) ys"
  shows "sublist xs ys" and "sublist (tl xs) ys" and "x \<in> set ys"
proof -
  from assms obtain p s where ys: "ys = p @ (x # xs) @ s" by (auto simp: sublist_def)
  then have "ys = (p @ [x]) @ xs @ s" by simp
  then show "sublist xs ys" unfolding sublist_def by blast
  have "ys = (p @ [x] @ take 1 xs) @ tl xs @ s"
    using ys by (cases xs) auto
  then show "sublist (tl xs) ys" unfolding sublist_def by blast
qed (use assms in \<open>auto simp: sublist_def\<close>)

text \<open>The invariant rule: a property survives the walk when loading a seal, the finding and a
  followed rotation keep it.\<close>

lemma walk_lines_invariant:
  assumes "P w"
    and seal: "\<And>line w. P w \<Longrightarrow> line \<in> set ls \<Longrightarrow> P (loadSeal C line w)"
    and finding: "\<And>w f. P w \<Longrightarrow> P (w\<lparr> rw_finding := f \<rparr>)"
    and key: "\<And>w k'. P w \<Longrightarrow> handed_on C ls (followed w + 1) (current w) k' \<Longrightarrow>
                rk_keyID k' \<notin> rk_keyID ` set (rw_keys w) \<Longrightarrow> P (w\<lparr> rw_keys := rw_keys w @ [k'] \<rparr>)"
  shows "P (walk_lines C ls w)"
proof -
  have "sublist xs ls \<Longrightarrow> P w \<Longrightarrow> P (walk_lines C xs w)" for xs w
  proof (induction "length xs" arbitrary: xs w rule: less_induct)
    case less
    show ?case
    proof (cases xs)
      case Nil
      with less show ?thesis by simp
    next
      case (Cons line rest)
      have sub: "sublist rest ls" "sublist (tl rest) ls" "line \<in> set ls"
        using sublist_ConsD [of line rest ls] less(2) Cons by simp_all
      have ih: "P v \<Longrightarrow> P (walk_lines C rest v)" "P v \<Longrightarrow> P (walk_lines C (tl rest) v)" for v
        using less(1) [of rest v] less(1) [of "tl rest" v] sub Cons by auto
      have step: "P w'" if "rotationKindOf line = Some (kind, obj)" "kind \<noteq> rotationKindReverse"
          "follow C obj (case rest of [] \<Rightarrow> [] | n # _ \<Rightarrow> n) w = Inr w'" for kind obj w'
      proof (cases rest)
        case Nil
        with that show ?thesis by (simp add: follow_next_Nil)
      next
        case (Cons n rest')
        have "sublist [line, n] ls"
          using less(2) \<open>xs = line # rest\<close> Cons
          by (auto simp: sublist_def)
        with that Cons rotationKindOf_kind [OF that(1)] show ?thesis
          by (auto elim!: follow_Inr [where line = line] intro: key less(3))
      qed
      show ?thesis
        using Cons ih less(3) sub step seal finding
        by (auto split: option.splits prod.splits sum.splits)
    qed
  qed
  then show ?thesis using assms(1) by blast
qed

section \<open>The keys reached\<close>

definition keys_ok :: "crypto \<Rightarrow> bytes list \<Rightarrow> reachedKey \<Rightarrow> reachedKey list \<Rightarrow> bool" where
  "keys_ok C lines first ks \<longleftrightarrow>
     ks \<noteq> [] \<and> hd ks = first \<and> distinct (map rk_keyID ks) \<and>
     (\<forall>i. Suc i < length ks \<longrightarrow> handed_on C lines (Suc i) (ks ! i) (ks ! Suc i))"

lemma keys_ok_snoc:
  assumes "keys_ok C ls first ks" and "handed_on C ls (length ks) (last ks) k"
    and "rk_keyID k \<notin> rk_keyID ` set ks"
  shows "keys_ok C ls first (ks @ [k])"
proof -
  have ne: "ks \<noteq> []" using assms by (simp add: keys_ok_def)
  have "handed_on C ls (Suc i) ((ks @ [k]) ! i) ((ks @ [k]) ! Suc i)" if "Suc i < length (ks @ [k])" for i
  proof (cases "Suc i < length ks")
    case True
    then show ?thesis using assms(1) by (simp add: keys_ok_def nth_append)
  next
    case False
    then have "Suc i = length ks" using that by simp
    moreover from this have "ks ! i = last ks" using ne by (simp add: last_conv_nth flip: \<open>Suc i = length ks\<close>)
    ultimately show ?thesis using assms(2) by (simp add: nth_append)
  qed
  with assms(1,3) ne show ?thesis by (auto simp: keys_ok_def)
qed

lemma loadSeal_keys [simp]: "rw_keys (loadSeal C line w) = rw_keys w"
  by (simp add: loadSeal_def split: option.splits)

lemma loadSeal_finding [simp]: "rw_finding (loadSeal C line w) = rw_finding w"
  by (simp add: loadSeal_def split: option.splits)

lemma walk_lines_keys_ok:
  assumes "keys_ok C ls first (rw_keys w)"
  shows "keys_ok C ls first (rw_keys (walk_lines C ls w))"
proof (rule walk_lines_invariant [where P = "\<lambda>w. keys_ok C ls first (rw_keys w)"])
  fix w k'
  assume "keys_ok C ls first (rw_keys w)" "handed_on C ls (followed w + 1) (current w) k'"
    "rk_keyID k' \<notin> rk_keyID ` set (rw_keys w)"
  then show "keys_ok C ls first (rw_keys (w\<lparr>rw_keys := rw_keys w @ [k']\<rparr>))"
    by (auto intro!: keys_ok_snoc simp: followed_def current_def keys_ok_def [of _ _ _ "rw_keys w"])
qed (use assms in simp_all)

lemma walkRegistry_keys_ok:
  "keys_ok C (split_on CHR 0x0A data) \<lparr> rk_key = pinned, rk_keyID = keyIDFor C pinned \<rparr>
     (rw_keys (walkRegistry C data pinned))"
  unfolding walkRegistry_def
  by (rule walk_lines_keys_ok) (simp add: keys_ok_def start_walk_def)

section \<open>The seals loaded\<close>

definition seals_ok :: "crypto \<Rightarrow> bytes list \<Rightarrow> registryWalk \<Rightarrow> bool" where
  "seals_ok C lines w \<longleftrightarrow>
     distinct (rw_order w) \<and> set (rw_order w) = dom (rw_seals w) \<and> rw_keys w \<noteq> [] \<and>
     (\<forall>sid s. rw_seals w sid = Some s \<longrightarrow>
        seal_session s = sid \<and> (\<exists>line \<in> set lines. \<exists>k \<in> set (rw_keys w). seal_of_line C k line = Some s))"

lemma loadSeal_seals_ok:
  assumes "seals_ok C ls w" and "line \<in> set ls"
  shows "seals_ok C ls (loadSeal C line w)"
proof (cases "seal_of_line C (current w) line")
  case None
  with assms show ?thesis by (simp add: loadSeal_def)
next
  case (Some s)
  moreover have "current w \<in> set (rw_keys w)"
    using assms(1) by (simp add: seals_ok_def current_def)
  ultimately show ?thesis
    using assms by (auto simp: loadSeal_def seals_ok_def domIff)
qed

lemma walk_lines_seals_ok:
  assumes "seals_ok C ls w"
  shows "seals_ok C ls (walk_lines C ls w)"
proof (rule walk_lines_invariant [where P = "seals_ok C ls"])
  show "seals_ok C ls w" by (fact assms)
next
  fix w k'
  assume ok: "seals_ok C ls w"
  have "set (rw_keys w) \<subseteq> set (rw_keys w @ [k'])" by auto
  with ok show "seals_ok C ls (w\<lparr>rw_keys := rw_keys w @ [k']\<rparr>)"
    unfolding seals_ok_def by fastforce
qed (simp_all add: loadSeal_seals_ok, simp add: seals_ok_def)

lemma walkRegistry_seals_ok: "seals_ok C (split_on CHR 0x0A data) (walkRegistry C data pinned)"
  unfolding walkRegistry_def
  by (rule walk_lines_seals_ok) (simp add: seals_ok_def start_walk_def)

section \<open>Appending to a registry\<close>

definition walk_extends :: "registryWalk \<Rightarrow> registryWalk \<Rightarrow> bool" where
  "walk_extends w w' \<longleftrightarrow>
     rw_seals w \<subseteq>\<^sub>m rw_seals w' \<and> prefix (rw_order w) (rw_order w') \<and> prefix (rw_keys w) (rw_keys w')"

lemma walk_extends_refl [simp]: "walk_extends w w"
  by (simp add: walk_extends_def)

lemma loadSeal_extends: "walk_extends w (loadSeal C line w)"
  by (auto simp: walk_extends_def loadSeal_def map_le_def split: option.splits)

lemma walk_extends_trans: "walk_extends w w' \<Longrightarrow> walk_extends w' w'' \<Longrightarrow> walk_extends w w''"
  by (auto simp: walk_extends_def intro: map_le_trans prefix_order.trans)

lemma walk_lines_extends: "walk_extends w (walk_lines C ls w)"
proof (rule walk_lines_invariant [where P = "walk_extends w"])
  fix line v
  assume "walk_extends w v"
  then show "walk_extends w (loadSeal C line v)"
    by (rule walk_extends_trans [OF _ loadSeal_extends])
qed (auto simp: walk_extends_def)

lemma walk_extends_finding [simp]:
  "walk_extends (w\<lparr> rw_finding := f \<rparr>) w' \<longleftrightarrow> walk_extends w w'"
  "walk_extends w (w'\<lparr> rw_finding := f \<rparr>) \<longleftrightarrow> walk_extends w w'"
  by (simp_all add: walk_extends_def)

lemma ex_same_but_finding:
  "\<exists>f. (w :: registryWalk) = w\<lparr> rw_finding := f \<rparr>"
  "\<exists>f. (w :: registryWalk)\<lparr> rw_finding := g \<rparr> = w\<lparr> rw_finding := f \<rparr>"
  by (rule exI [of _ "rw_finding w"], simp) blast

lemma walk_lines_append: "walk_extends (walk_lines C ls w) (walk_lines C (ls @ later) w)"
proof (induction "length ls" arbitrary: ls w rule: less_induct)
  case less
  show ?case
  proof (cases ls)
    case Nil
    then show ?thesis by (simp add: walk_lines_extends)
  next
    case (Cons line rest)
    note ih = less [of rest] less [of "tl rest"]
    show ?thesis
    proof (cases rest)
      case Nil
      show ?thesis
      proof (cases "is_blank line \<or> rotationKindOf line = None")
        case True
        with Cons Nil show ?thesis by (auto simp: walk_lines_extends)
      next
        case False
        then have "\<exists>f. walk_lines C [line] w = w\<lparr> rw_finding := f \<rparr>"
          by (auto simp: follow_next_Nil ex_same_but_finding split: sum.splits)
        with Cons Nil walk_lines_extends [of w C "line # later"] show ?thesis
          by (metis append_Cons append_Nil walk_extends_finding(1))
      qed
    next
      case (Cons n rest')
      with \<open>ls = line # rest\<close> ih show ?thesis
        by (auto split: option.splits sum.splits prod.splits)
    qed
  qed
qed

lemma walk_lines_snoc_Nil [simp]: "walk_lines C (ls @ [[]]) w = walk_lines C ls w"
proof (induction "length ls" arbitrary: ls w rule: less_induct)
  case less
  show ?case
  proof (cases ls)
    case Nil
    then show ?thesis by (simp add: is_blank_def)
  next
    case (Cons line rest)
    have "walk_lines C (rest @ [[]]) v = walk_lines C rest v" for v
      using less [of rest v] Cons by simp
    moreover have "walk_lines C (tl rest @ [[]]) v = walk_lines C (tl rest) v" for v
      using less [of "tl rest" v] Cons by simp
    ultimately show ?thesis
      using Cons by (cases rest) (auto simp: follow_next_Nil is_blank_def split: option.splits sum.splits)
  qed
qed

text \<open>A walk that finds nothing goes on over what is appended.\<close>

lemma walk_lines_append_sound:
  assumes "rw_finding (walk_lines C ls w) = None"
  shows "walk_lines C (ls @ later) w = walk_lines C later (walk_lines C ls w)"
  using assms
proof (induction "length ls" arbitrary: ls w rule: less_induct)
  case less
  show ?case
  proof (cases ls)
    case Nil
    then show ?thesis by simp
  next
    case (Cons line rest)
    have "rw_finding (walk_lines C rest v) = None \<Longrightarrow>
        walk_lines C (rest @ later) v = walk_lines C later (walk_lines C rest v)" for v
      using less(1) [of rest v] Cons by simp
    moreover have "rw_finding (walk_lines C (tl rest) v) = None \<Longrightarrow>
        walk_lines C (tl rest @ later) v = walk_lines C later (walk_lines C (tl rest) v)" for v
      using less(1) [of "tl rest" v] Cons by simp
    moreover have "(case rest @ later of [] \<Rightarrow> [] | n # _ \<Rightarrow> n) = (case rest of [] \<Rightarrow> [] | n # _ \<Rightarrow> n)"
      "tl (rest @ later) = tl rest @ later" if "rest \<noteq> []"
      using that by (cases rest; simp)+
    ultimately show ?thesis
      using Cons less(2)
      by (cases "rest = []") (auto simp: follow_next_Nil split: option.splits sum.splits if_splits)
  qed
qed

lemma first_key_of_append:
  "list_all (\<lambda>l. rotationKindOf l = None) later \<Longrightarrow> first_key_of (ls @ later) own = first_key_of ls own"
proof (induction ls)
  case Nil
  then show ?case by (induction later) auto
next
  case (Cons l ls)
  then show ?case by (simp split: option.splits)
qed

lemma walk_finding_sticky: "rw_finding w \<noteq> None \<Longrightarrow> rw_finding (walk_lines C ls w) = rw_finding w"
proof (induction "length ls" arbitrary: ls w rule: less_induct)
  case less
  show ?case
  proof (cases ls)
    case (Cons line rest)
    then show ?thesis using less(1) [of rest] less(2) by (auto split: option.splits)
  qed simp
qed

lemma rotationKindOf_blank: "is_blank line \<Longrightarrow> rotationKindOf line = None"
  using parseJSON_not_blank [of line]
  by (auto simp: rotationKindOf_def parse_object_def split: sum.splits jvalue.splits)

text \<open>In a registry whose walk finds nothing the first continuation names a key that can be read,
  so the first key does not depend on who reads it.\<close>

lemma first_key_of_sound:
  assumes "rw_finding (walk_lines C ls w) = None"
  shows "(\<forall>own later. first_key_of (ls @ later) own = first_key_of later own) \<or>
    (\<exists>k. \<forall>own later. first_key_of (ls @ later) own = k)"
  using assms
proof (induction "length ls" arbitrary: ls w rule: less_induct)
  case less
  show ?case
  proof (cases ls)
    case Nil
    then show ?thesis by simp
  next
    case (Cons line rest)
    note ih = less(1) [of rest]
    show ?thesis
    proof (cases "rotationKindOf line")
      case None
      with less(2) Cons ih show ?thesis by (simp split: if_splits)
    next
      case (Some ko)
      then obtain kind obj where ko: "rotationKindOf line = Some (kind, obj)" by (cases ko) auto
      with less(2) Cons rotationKindOf_blank [of line] walk_finding_sticky
      have kind: "kind \<noteq> rotationKindReverse"
        and fol: "follow C obj (case rest of [] \<Rightarrow> [] | n # _ \<Rightarrow> n) w \<in> range Inr"
        by (auto split: if_splits sum.splits)
      then obtain w' n rest' where rest: "rest = n # rest'" and fol: "follow C obj n w = Inr w'"
        using follow_next_Nil by (cases rest) auto
      then obtain robj r where rev: "rotationKindOf n = Some (rotationKindReverse, robj)"
        "rotationStatementOf C rotationKindReverse robj = Some r"
        by (auto simp: follow_def Let_def split: option.splits if_splits)
      then obtain previous where prev: "memberString robj ''previous'' = Some previous"
        "hex_decode previous = Some (rs_named r)" "length previous = 64"
        by (auto simp: rotationStatementOf_def Option.bind_eq_Some_conv isLowerHexOfLen_def)
      then have "length (rs_named r) = 32" using hex_decode_length by fastforce
      with prev rev rest ko kind Cons show ?thesis by auto
    qed
  qed
qed

lemma walkRegistry_append:
  assumes "existing = [] \<or> last existing = CHR 0x0A \<or> t = [] \<or> hd t = CHR 0x0A"
  shows "walk_extends (walkRegistry C existing pinned) (walkRegistry C (existing @ t) pinned)"
proof -
  consider "existing = []" | d where "existing = d @ [CHR 0x0A]" | "t = []" | u where "t = CHR 0x0A # u"
    using assms by (metis append_butlast_last_id list.collapse)
  then show ?thesis
  proof cases
    case 1
    have "walkRegistry C [] pinned = start_walk C pinned"
      by (simp add: walkRegistry_def is_blank_def)
    then show ?thesis
      using 1 walk_lines_extends by (simp add: walkRegistry_def [of _ t])
  next
    case (2 d)
    then show ?thesis
      using walk_lines_append [of C "split_on CHR 0x0A d" _ "split_on CHR 0x0A t"]
      by (simp add: walkRegistry_def split_on_append_sep)
  next
    case 3
    then show ?thesis by simp
  next
    case (4 u)
    then show ?thesis
      using walk_lines_append [of C "split_on CHR 0x0A existing" _ "split_on CHR 0x0A u"]
      by (simp add: walkRegistry_def split_on_append_sep)
  qed
qed

lemma keys_ok_current:
  assumes "keys_ok C ls \<lparr> rk_key = pinned, rk_keyID = keyIDFor C pinned \<rparr> ks" and "k \<in> set ks"
  shows "rk_keyID k = keyIDFor C (rk_key k)"
proof -
  from assms(2) obtain i where i: "i < length ks" "k = ks ! i" by (auto simp: in_set_conv_nth)
  show ?thesis
  proof (cases i)
    case 0
    with i assms(1) show ?thesis by (auto simp: keys_ok_def hd_conv_nth)
  next
    case (Suc j)
    with i assms(1) have "handed_on C ls (Suc j) (ks ! j) k" by (simp add: keys_ok_def)
    then show ?thesis by (auto simp: handed_on_def)
  qed
qed

lemma current_keyID: "rk_keyID (current (walkRegistry C data pinned)) = keyIDFor C (rk_key (current (walkRegistry C data pinned)))"
proof (rule keys_ok_current [OF walkRegistry_keys_ok])
  have "rw_keys (walkRegistry C data pinned) \<noteq> []"
    using walkRegistry_keys_ok [of C data pinned] by (simp add: keys_ok_def)
  then show "current (walkRegistry C data pinned) \<in> set (rw_keys (walkRegistry C data pinned))"
    by (simp add: current_def)
qed

end
