(* ===== verification/Store_Contract.thy ===== *)
theory Store_Contract
  imports Gateway_Prelude
begin

text \<open>
  The store contract (\<^verbatim>\<open>store_contract.go\<close>): the faults a kind of storage reports, and the
  interfaces the gateway keeps its durable state through.

  A Go interface value is a record of its operations, each passing the state \<^typ>\<open>'s\<close> of the
  storage; the clients of an interface take the record as an argument, as the code's clients hold
  the interface value.  What the comments of the interface promise of every kind is a locale, with
  the lemmas its clients need proved once in it; the filesystem kind interprets each of them in
  \<^verbatim>\<open>Store_FS\<close>.
\<close>

datatype storeFault =
    FaultAbsent
  | FaultTaken
  | FaultConflict
  | FaultLeaseHeld
  | FaultStaleFence
  | FaultDurability
  | FaultUnreadable
  | FaultRefused

record storeError =
  se_fault :: storeFault
  se_written :: nat
  se_committing :: bool

definition storeFailure :: "storeFault \<Rightarrow> storeError" where
  "storeFailure fault = \<lparr> se_fault = fault, se_written = 0, se_committing = False \<rparr>"

lemma storeFailure_sel [simp]:
  "se_fault (storeFailure f) = f" "se_written (storeFailure f) = 0" "\<not> se_committing (storeFailure f)"
  by (simp_all add: storeFailure_def)

definition committed :: "storeError \<Rightarrow> bool" where
  "committed e \<longleftrightarrow> se_committing e"

section \<open>Append-only logs\<close>

record 's appendLog =
  appendRecord :: "bytes \<Rightarrow> 's \<Rightarrow> (storeError + nat) \<times> 's"
  readLog :: "int \<Rightarrow> 's \<Rightarrow> storeError + bytes"
  createLog :: "'s \<Rightarrow> (storeError + unit) \<times> 's"

text \<open>The promises of \<^verbatim>\<open>appendLog\<close>: an append that succeeds adds the record whole; one that fails
  adds the number of its bytes the error tells, none onto a log never made; a log is made empty,
  only where none is; and a read from a cursor is the rest of the log.\<close>

locale append_log =
  fixes L :: "'s appendLog"
  assumes append_ok: "readLog L 0 s = Inr d \<Longrightarrow> appendRecord L r s = (Inr n, s') \<Longrightarrow>
      n = length r \<and> readLog L 0 s' = Inr (d @ r)"
    and append_fails: "readLog L 0 s = Inr d \<Longrightarrow> appendRecord L r s = (Inl e, s') \<Longrightarrow>
      readLog L 0 s' = Inr (d @ take (se_written e) r)"
    and append_committing: "appendRecord L r s = (Inl e, s') \<Longrightarrow> se_committing e \<Longrightarrow>
      se_written e = length r"
    and append_absent: "readLog L 0 s = Inl e' \<Longrightarrow> se_fault e' = FaultAbsent \<Longrightarrow>
      \<exists>e. appendRecord L r s = (Inl e, s) \<and> se_written e = 0"
    and create_ok: "createLog L s = (Inr u, s') \<Longrightarrow> readLog L 0 s' = Inr []"
    and create_fails: "createLog L s = (Inl e, s') \<Longrightarrow> readLog L 0 s = Inr d \<Longrightarrow>
      readLog L 0 s' = Inr d"
    and create_taken: "readLog L 0 s = Inr d \<Longrightarrow> \<exists>e. createLog L s = (Inl e, s)"
    and read_from: "readLog L 0 s = Inr d \<Longrightarrow> 0 \<le> i \<Longrightarrow> i \<le> int (length d) \<Longrightarrow>
      readLog L i s = Inr (drop (nat i) d)"
begin

text \<open>Whatever an append answers, what the log held stays at its start, and what was added is
  an initial piece of the record.\<close>

lemma append_piece:
  assumes "readLog L 0 s = Inr d" and "appendRecord L r s = (answer, s')"
  shows "\<exists>n. readLog L 0 s' = Inr (d @ take n r)"
proof (cases answer)
  case (Inl e)
  with assms append_fails show ?thesis by blast
next
  case (Inr m)
  with assms append_ok [of s d r m s'] show ?thesis by (intro exI [of _ "length r"]) simp
qed

lemma append_readable: "readLog L 0 s = Inr d \<Longrightarrow> \<exists>d'. readLog L 0 (snd (appendRecord L r s)) = Inr (d @ d')"
  using append_piece [of s d r "fst (appendRecord L r s)" "snd (appendRecord L r s)"] by auto

text \<open>A cursor taken at the end of one read goes on where that read ended.\<close>

lemma read_resumes:
  assumes "readLog L 0 s = Inr d" and "appendRecord L r s = (Inr n, s')"
  shows "readLog L (int (length d)) s' = Inr r"
  using read_from [of s' "d @ r" "int (length d)"] append_ok [OF assms] by simp

end

section \<open>Entries made once\<close>

record 's indexedSpace =
  makeSeries :: "bytes \<Rightarrow> 's \<Rightarrow> (storeError + bool) \<times> 's"
  createIndexed :: "bytes \<Rightarrow> int \<Rightarrow> bytes \<Rightarrow> 's \<Rightarrow> (storeError + unit) \<times> 's"
  listSeries :: "'s \<Rightarrow> storeError + bytes list"
  listEntries :: "bytes \<Rightarrow> 's \<Rightarrow> storeError + bytes list"
  getEntry :: "bytes \<Rightarrow> bytes \<Rightarrow> 's \<Rightarrow> storeError + bytes"

text \<open>The promises of \<^verbatim>\<open>indexedSpace\<close>, for the series names a kind keeps: an entry is made once,
  under its index in decimal, and no operation replaces or removes one.\<close>

locale indexed_space =
  fixes X :: "'s indexedSpace" and keeps :: "bytes \<Rightarrow> bool"
  assumes make_entries: "makeSeries X series s = (answer, s') \<Longrightarrow>
      getEntry X series' entry s = Inr d \<Longrightarrow> getEntry X series' entry s' = Inr d"
    and make_made: "keeps series \<Longrightarrow> makeSeries X series s = (Inr True, s') \<Longrightarrow>
      (\<nexists>es. listEntries X series s = Inr es) \<and> listEntries X series s' = Inr []"
    and create_entry: "keeps series \<Longrightarrow> createIndexed X series i d s = (Inr u, s') \<Longrightarrow>
      getEntry X series (format_int i) s' = Inr d"
    and create_once: "keeps series \<Longrightarrow> getEntry X series (format_int i) s = Inr d' \<Longrightarrow>
      \<exists>e. createIndexed X series i d s = (Inl e, s)"
    and create_entries: "createIndexed X series i d s = (answer', s') \<Longrightarrow>
      getEntry X series' entry s = Inr d' \<Longrightarrow> getEntry X series' entry s' = Inr d'"
    and create_listed: "keeps series \<Longrightarrow> createIndexed X series i d s = (Inr u, s') \<Longrightarrow>
      listEntries X series s = Inr es \<Longrightarrow>
      \<exists>es'. listEntries X series s' = Inr es' \<and> set es' = insert (format_int i) (set es) \<and>
        length es' = Suc (length es)"
    and create_fails: "createIndexed X series i d s = (Inl e, s') \<Longrightarrow> s' = s"

section \<open>Blobs named by their digest\<close>

record 's blobSpace =
  putBlob :: "bytes \<Rightarrow> 's \<Rightarrow> (storeError + bytes) \<times> 's"
  getBlob :: "bytes \<Rightarrow> 's \<Rightarrow> storeError + bytes"
  listBlobs :: "'s \<Rightarrow> storeError + bytes list"

locale blob_space =
  fixes B :: "'s blobSpace" and digest :: "bytes \<Rightarrow> bytes"
  assumes put_name: "putBlob B d s = (Inr name, s') \<Longrightarrow> name = digest d"
    and put_get: "putBlob B d s = (Inr name, s') \<Longrightarrow> getBlob B name s' = Inr d"
    and put_others: "putBlob B d s = (answer, s') \<Longrightarrow> name \<noteq> digest d \<Longrightarrow>
      getBlob B name s' = getBlob B name s"
    and put_fails: "putBlob B d s = (Inl e, s') \<Longrightarrow> getBlob B name s' = getBlob B name s"
    and put_listed: "putBlob B d s = (Inr name, s') \<Longrightarrow> listBlobs B s = Inr names \<Longrightarrow>
      \<exists>names'. listBlobs B s' = Inr names' \<and> set names' = insert name (set names)"
begin

text \<open>Blobs of one digest are never two: the bytes kept under a digest stay, unless another
  text of the same digest is put.\<close>

lemma put_keeps:
  assumes "putBlob B d s = (answer, s')" and "getBlob B name s = Inr d'"
    and "digest d = name \<Longrightarrow> d = d'"
  shows "getBlob B name s' = Inr d'"
proof (cases answer)
  case (Inl e)
  with assms put_fails show ?thesis by metis
next
  case (Inr n)
  show ?thesis
  proof (cases "name = digest d")
    case True
    with Inr assms put_name [of d s n s'] put_get [of d s n s'] show ?thesis by simp
  next
    case False
    with assms put_others show ?thesis by metis
  qed
qed

end

section \<open>Documents replaced by compare-and-set\<close>

definition noRevision :: bytes where
  "noRevision = []"

record 's documentSpace =
  getDocument :: "bytes \<Rightarrow> 's \<Rightarrow> storeError + bytes \<times> bytes"
  putDocument :: "bytes \<Rightarrow> bytes \<Rightarrow> bytes \<Rightarrow> 's \<Rightarrow> (storeError + bytes) \<times> 's"
  deleteDocument :: "bytes \<Rightarrow> bytes \<Rightarrow> 's \<Rightarrow> (storeError + unit) \<times> 's"

text \<open>The revision a document is at: \<open>noRevision\<close> for one that is not there.\<close>

definition at_revision :: "'s documentSpace \<Rightarrow> bytes \<Rightarrow> 's \<Rightarrow> bytes \<Rightarrow> bool" where
  "at_revision D name s r \<longleftrightarrow>
     (case getDocument D name s of
        Inr (d, r') \<Rightarrow> r' = r
      | Inl e \<Rightarrow> se_fault e = FaultAbsent \<and> r = noRevision)"

text \<open>\<open>room\<close> says that a kind can still number the document's next revision.\<close>

locale document_space =
  fixes D :: "'s documentSpace" and room :: "bytes \<Rightarrow> 's \<Rightarrow> bool"
  assumes put_at: "putDocument D name d r s = (Inr r', s') \<Longrightarrow> at_revision D name s r"
    and put_get: "putDocument D name d r s = (Inr r', s') \<Longrightarrow> room name s \<Longrightarrow>
      getDocument D name s' = Inr (d, r')"
    and put_new_revision: "putDocument D name d r s = (Inr r', s') \<Longrightarrow> r' \<noteq> r"
    and put_fails: "putDocument D name d r s = (Inl e, s') \<Longrightarrow> getDocument D n s' = getDocument D n s"
    and put_others: "putDocument D name d r s = (answer, s') \<Longrightarrow> n \<noteq> name \<Longrightarrow>
      getDocument D n s' = getDocument D n s"
    and delete_at: "deleteDocument D name r s = (Inr u, s') \<Longrightarrow> at_revision D name s r"
    and delete_gone: "deleteDocument D name r s = (Inr u, s') \<Longrightarrow> room name s \<Longrightarrow>
      \<exists>e. getDocument D name s' = Inl e \<and> se_fault e = FaultAbsent"
    and delete_others: "deleteDocument D name r s = (answer', s') \<Longrightarrow> n \<noteq> name \<Longrightarrow>
      getDocument D n s' = getDocument D n s"
begin

text \<open>Two writers that read one revision: once the first put succeeds, the second is refused
  and changes nothing.\<close>

lemma put_once_per_revision:
  assumes "putDocument D name d r s = (Inr r', s')" and "room name s"
  shows "\<exists>e s''. putDocument D name d2 r s' = (Inl e, s'') \<and> getDocument D name s'' = Inr (d, r')"
proof -
  have got: "getDocument D name s' = Inr (d, r')" using assms put_get by blast
  obtain a s'' where second: "putDocument D name d2 r s' = (a, s'')" by fastforce
  have "\<not> at_revision D name s' r"
    using got put_new_revision [OF assms(1)] by (simp add: at_revision_def)
  with second put_at obtain e where "a = Inl e" by (cases a) blast+
  with second got put_fails show ?thesis by metis
qed

end

end
