(* ===== verification/Store_FS.thy ===== *)
theory Store_FS
  imports Store_Contract Keys "HOL-Library.AList"
begin

text \<open>
  The filesystem kind (\<^verbatim>\<open>store_fs.go\<close>): the contract kept in files.

  A directory is the association list of its files, or of its directories of files.  What the
  operating system may answer otherwise than with success is an argument: \<open>write_env\<close> says for
  each call of one staged write whether it succeeds, and \<open>fsLog\<close> carries its write and sync as
  the code's struct does.  A staging file is invisible to every reader of the code and is not
  kept in the state; links and entries that are neither file nor directory, which the code
  refuses, are not in the state either.
\<close>

section \<open>Staged writes\<close>

type_synonym files = "(bytes \<times> bytes) list"

record write_env =
  we_random :: bool
  we_open :: bool
  we_write :: bool
  we_sync :: bool
  we_close :: bool
  we_place :: bool

definition os_fine :: write_env where
  "os_fine = \<lparr> we_random = True, we_open = True, we_write = True, we_sync = True,
     we_close = True, we_place = True \<rparr>"

definition fsWriteFile ::
  "write_env \<Rightarrow> bytes \<Rightarrow> bytes \<Rightarrow> bool \<Rightarrow> files option \<Rightarrow> (storeError + unit) \<times> files option" where
  "fsWriteFile env near data exclusive dir =
     (if \<not> we_random env then (Inl (storeFailure FaultDurability), dir)
      else case dir of
        None \<Rightarrow> (Inl (storeFailure FaultAbsent), dir)
      | Some fs \<Rightarrow>
          if \<not> we_open env \<or> \<not> we_write env \<or> \<not> we_sync env \<or> \<not> we_close env
          then (Inl (storeFailure FaultDurability), dir)
          else if exclusive \<and> map_of fs near \<noteq> None then (Inl (storeFailure FaultTaken), dir)
          else if \<not> we_place env then (Inl (storeFailure FaultDurability), dir)
          else (Inr (), Some (AList.update near data fs)))"

lemma fsWriteFile_Inr:
  "fsWriteFile env near data exclusive dir = (Inr u, dir') \<longleftrightarrow>
     (\<exists>fs. dir = Some fs \<and> dir' = Some (AList.update near data fs) \<and>
        we_random env \<and> we_open env \<and> we_write env \<and> we_sync env \<and> we_close env \<and> we_place env \<and>
        (exclusive \<longrightarrow> map_of fs near = None))"
  by (auto simp: fsWriteFile_def split: option.splits if_splits)

lemma fsWriteFile_Inl:
  "fsWriteFile env near data exclusive dir = (Inl e, dir') \<Longrightarrow> dir' = dir"
  by (auto simp: fsWriteFile_def split: option.splits if_splits)

lemma fsWriteFile_fine:
  "fsWriteFile os_fine near data exclusive (Some fs) =
     (if exclusive \<and> map_of fs near \<noteq> None then (Inl (storeFailure FaultTaken), Some fs)
      else (Inr (), Some (AList.update near data fs)))"
  by (simp add: fsWriteFile_def os_fine_def)

section \<open>Blobs\<close>

definition blobHex :: "bytes \<Rightarrow> bytes option" where
  "blobHex name = do {
     hexSum \<leftarrow> cut_prefix ''sha256:'' name;
     require (isLowerHexOfLen hexSum 64);
     Some hexSum }"

definition fsBlobs_putBlob ::
  "crypto \<Rightarrow> write_env \<Rightarrow> bytes \<Rightarrow> files option \<Rightarrow> (storeError + bytes) \<times> files option" where
  "fsBlobs_putBlob C env data dir =
     (let hexSum = hex_encode (sha256 C data) in
      case fsWriteFile env hexSum data False dir of
        (Inl e, dir') \<Rightarrow> (Inl e, dir')
      | (Inr _, dir') \<Rightarrow> (Inr (digest_of C data), dir'))"

text \<open>\<^verbatim>\<open>readOwnFile\<close> over a directory of regular files.\<close>

definition readOwnFile :: "files option \<Rightarrow> bytes \<Rightarrow> storeError + bytes" where
  "readOwnFile dir name =
     (case Option.bind dir (\<lambda>fs. map_of fs name) of
        None \<Rightarrow> Inl (storeFailure FaultAbsent)
      | Some d \<Rightarrow> Inr d)"

definition fsBlobs_getBlob :: "bytes \<Rightarrow> files option \<Rightarrow> storeError + bytes" where
  "fsBlobs_getBlob name dir =
     (case blobHex name of
        None \<Rightarrow> Inl (storeFailure FaultRefused)
      | Some hexSum \<Rightarrow> readOwnFile dir hexSum)"

definition fsBlobs_listBlobs :: "files option \<Rightarrow> storeError + bytes list" where
  "fsBlobs_listBlobs dir =
     (case dir of
        None \<Rightarrow> Inr []
      | Some fs \<Rightarrow> Inr (sort (map (\<lambda>n. ''sha256:'' @ n) (filter (\<lambda>n. isLowerHexOfLen n 64) (map fst fs)))))"

definition fsBlobs :: "crypto \<Rightarrow> write_env \<Rightarrow> files option blobSpace" where
  "fsBlobs C env = \<lparr> putBlob = fsBlobs_putBlob C env, getBlob = fsBlobs_getBlob,
     listBlobs = fsBlobs_listBlobs \<rparr>"

lemma blobHex_digest [simp]: "blobHex (digest_of C d) = Some (hex_encode (sha256 C d))"
  unfolding blobHex_def digest_of_def cut_prefix_append by simp

lemma blobHex_eq_Some: "blobHex name = Some h \<Longrightarrow> name = ''sha256:'' @ h"
  by (auto simp: blobHex_def Option.bind_eq_Some_conv cut_prefix_eq_Some)

lemma fsBlobs_put_Inr:
  "fsBlobs_putBlob C env d dir = (Inr name, dir') \<longleftrightarrow>
     name = digest_of C d \<and> fsWriteFile env (hex_encode (sha256 C d)) d False dir = (Inr (), dir')"
  by (auto simp: fsBlobs_putBlob_def Let_def split: sum.splits prod.splits)

lemma fsBlobs_put_Inl: "fsBlobs_putBlob C env d dir = (Inl e, dir') \<Longrightarrow> dir' = dir"
  by (auto simp: fsBlobs_putBlob_def Let_def split: sum.splits prod.splits dest: fsWriteFile_Inl)

lemma fsBlobs_get_others:
  assumes "fsBlobs_putBlob C env d dir = (answer, dir')" and "name \<noteq> digest_of C d"
  shows "fsBlobs_getBlob name dir' = fsBlobs_getBlob name dir"
proof (cases answer)
  case (Inl e)
  with assms fsBlobs_put_Inl show ?thesis by metis
next
  case (Inr n)
  with assms have "\<exists>fs. dir = Some fs \<and> dir' = Some (AList.update (hex_encode (sha256 C d)) d fs)"
    by (auto simp: fsBlobs_put_Inr fsWriteFile_Inr)
  with assms(2) show ?thesis
    by (auto simp: fsBlobs_getBlob_def readOwnFile_def update_conv' digest_of_def
        dest: blobHex_eq_Some split: option.splits)
qed

lemma fst_set_update: "fst ` set (AList.update k v xs) = insert k (fst ` set xs)"
  by (simp add: dom_map_of_conv_image_fst [symmetric] update_conv')

lemma update_new: "map_of xs k = None \<Longrightarrow> AList.update k v xs = xs @ [(k, v)]"
  by (induction xs) (auto split: if_splits)

lemma fsBlobs_listed:
  assumes "fsBlobs_putBlob C env d dir = (Inr name, dir')" and "fsBlobs_listBlobs dir = Inr names"
  shows "\<exists>names'. fsBlobs_listBlobs dir' = Inr names' \<and> set names' = insert name (set names)"
proof -
  from assms(1) obtain fs where dir: "dir = Some fs" and name: "name = digest_of C d"
    and dir': "dir' = Some (AList.update (hex_encode (sha256 C d)) d fs)"
    by (auto simp: fsBlobs_put_Inr fsWriteFile_Inr)
  have "set names = (\<lambda>n. ''sha256:'' @ n) ` {n \<in> fst ` set fs. isLowerHexOfLen n 64}"
    using assms(2) dir by (force simp: fsBlobs_listBlobs_def)
  moreover have "insert name ((\<lambda>n. ''sha256:'' @ n) ` {n \<in> fst ` set fs. isLowerHexOfLen n 64}) =
      (\<lambda>n. ''sha256:'' @ n) ` {n \<in> insert (hex_encode (sha256 C d)) (fst ` set fs). isLowerHexOfLen n 64}"
    by (auto simp: name digest_of_def)
  ultimately show ?thesis
    by (simp add: fsBlobs_listBlobs_def dir' fst_set_update)
qed

interpretation fs_blobs: blob_space "fsBlobs C env" "digest_of C" for C env
proof
  fix d s name s'
  assume put: "putBlob (fsBlobs C env) d s = (Inr name, s')"
  then show "name = digest_of C d" by (simp add: fsBlobs_def fsBlobs_put_Inr)
  show "getBlob (fsBlobs C env) name s' = Inr d"
    using put
    by (auto simp: fsBlobs_def fsBlobs_put_Inr fsWriteFile_Inr fsBlobs_getBlob_def
        readOwnFile_def update_conv')
qed (auto simp: fsBlobs_def fsBlobs_listed dest: fsBlobs_get_others fsBlobs_put_Inl)

section \<open>Entries made once\<close>

text \<open>The receipts directory: its series, each a directory of files.  The root is the list of
  the components of its absolute path; \<open>clean_path\<close> is \<^verbatim>\<open>filepath.Join\<close> under it, on a
  platform whose separator is the slash.\<close>

record fsIndexed =
  fsi_root :: "bytes list"
  fsi_env :: write_env
  fsi_mkroot :: bool
  fsi_mkdir :: bool

type_synonym series_dirs = "(bytes \<times> files) list"

fun clean_path :: "bytes list \<Rightarrow> bytes list \<Rightarrow> bytes list" where
  "clean_path st [] = rev st"
| "clean_path st (c # cs) =
     (if c = [] \<or> c = ''.'' then clean_path st cs
      else if c = ''..'' then clean_path (tl st) cs
      else clean_path (c # st) cs)"

definition seriesDir :: "fsIndexed \<Rightarrow> bytes \<Rightarrow> bytes option" where
  "seriesDir x series =
     (let resolved = clean_path (rev (fsi_root x)) (split_on CHR ''/'' series) in
      if resolved \<noteq> [] \<and> butlast resolved = fsi_root x then Some (last resolved) else None)"

definition entry_file :: "bytes \<Rightarrow> bytes" where
  "entry_file entry = entry @ ''.json''"

definition fsIndexed_makeSeries :: "fsIndexed \<Rightarrow> bytes \<Rightarrow> series_dirs \<Rightarrow> (storeError + bool) \<times> series_dirs" where
  "fsIndexed_makeSeries x series s =
     (case seriesDir x series of
        None \<Rightarrow> (Inl (storeFailure FaultRefused), s)
      | Some dir \<Rightarrow>
          if \<not> fsi_mkroot x then (Inl (storeFailure FaultDurability), s)
          else if map_of s dir \<noteq> None then (Inr False, s)
          else if \<not> fsi_mkdir x then (Inl (storeFailure FaultDurability), s)
          else (Inr True, AList.update dir [] s))"

definition fsIndexed_createIndexed ::
  "fsIndexed \<Rightarrow> bytes \<Rightarrow> int \<Rightarrow> bytes \<Rightarrow> series_dirs \<Rightarrow> (storeError + unit) \<times> series_dirs" where
  "fsIndexed_createIndexed x series index data s =
     (case seriesDir x series of
        None \<Rightarrow> (Inl (storeFailure FaultRefused), s)
      | Some dir \<Rightarrow>
          (case fsWriteFile (fsi_env x) (entry_file (format_int index)) data True (map_of s dir) of
             (Inr _, Some fs) \<Rightarrow> (Inr (), AList.update dir fs s)
           | (Inr _, None) \<Rightarrow> (Inr (), s)
           | (Inl e, _) \<Rightarrow> (Inl e, s)))"

definition fsIndexed_listSeries :: "series_dirs \<Rightarrow> storeError + bytes list" where
  "fsIndexed_listSeries s = Inr (sort (map fst s))"

definition fsIndexed_listEntries :: "fsIndexed \<Rightarrow> bytes \<Rightarrow> series_dirs \<Rightarrow> storeError + bytes list" where
  "fsIndexed_listEntries x series s =
     (case seriesDir x series of
        None \<Rightarrow> Inl (storeFailure FaultRefused)
      | Some dir \<Rightarrow>
          (case map_of s dir of
             None \<Rightarrow> Inl (storeFailure FaultAbsent)
           | Some fs \<Rightarrow> Inr (sort (map (\<lambda>n. trim_suffix n ''.json'')
                                    (filter (\<lambda>n. has_suffix n ''.json'') (map fst fs))))))"

definition fsIndexed_getEntry :: "fsIndexed \<Rightarrow> bytes \<Rightarrow> bytes \<Rightarrow> series_dirs \<Rightarrow> storeError + bytes" where
  "fsIndexed_getEntry x series entry s =
     (case seriesDir x series of
        None \<Rightarrow> Inl (storeFailure FaultRefused)
      | Some dir \<Rightarrow>
          if entry = [] \<or> CHR ''/'' \<in> set entry \<or> CHR 0x5C \<in> set entry
          then Inl (storeFailure FaultRefused)
          else readOwnFile (map_of s dir) (entry_file entry))"

definition fsIndexed_ops :: "fsIndexed \<Rightarrow> series_dirs indexedSpace" where
  "fsIndexed_ops x = \<lparr> makeSeries = fsIndexed_makeSeries x, createIndexed = fsIndexed_createIndexed x,
     listSeries = fsIndexed_listSeries, listEntries = fsIndexed_listEntries x,
     getEntry = fsIndexed_getEntry x \<rparr>"

text \<open>A name with no separator that is no dot name is a series' directory as it is.\<close>

definition plain_name :: "bytes \<Rightarrow> bool" where
  "plain_name n \<longleftrightarrow> n \<noteq> [] \<and> n \<noteq> ''.'' \<and> n \<noteq> ''..'' \<and> CHR ''/'' \<notin> set n"

lemma seriesDir_plain: "plain_name n \<Longrightarrow> seriesDir x n = Some n"
  by (simp add: seriesDir_def plain_name_def split_on_no_sep)

lemma fsIndexed_create_Inr:
  assumes "fsIndexed_createIndexed x series i d s = (Inr u, s')"
  obtains dir fs where "seriesDir x series = Some dir" and "map_of s dir = Some fs"
    and "map_of fs (entry_file (format_int i)) = None"
    and "s' = AList.update dir (AList.update (entry_file (format_int i)) d fs) s"
proof (cases "seriesDir x series")
  case None
  with assms show thesis by (simp add: fsIndexed_createIndexed_def)
next
  case (Some dir)
  obtain a fs' where w: "fsWriteFile (fsi_env x) (entry_file (format_int i)) d True (map_of s dir) = (a, fs')"
    by fastforce
  with assms Some obtain v where v: "a = Inr v"
    by (cases a) (auto simp: fsIndexed_createIndexed_def)
  with w obtain fs where fs: "map_of s dir = Some fs" "map_of fs (entry_file (format_int i)) = None"
    and fs': "fs' = Some (AList.update (entry_file (format_int i)) d fs)"
    by (auto simp: fsWriteFile_Inr)
  show thesis
    by (rule that [OF Some fs]) (use w v fs' assms Some in \<open>simp add: fsIndexed_createIndexed_def\<close>)
qed

lemma fsIndexed_create_Inl:
  "fsIndexed_createIndexed x series i d s = (Inl e, s') \<Longrightarrow> s' = s"
  by (auto simp: fsIndexed_createIndexed_def split: option.splits sum.splits prod.splits)

lemma format_int_chars: "c \<in> set (format_int i) \<Longrightarrow> is_digit c \<or> c = CHR ''-''"
  using format_nat_digits [of "nat i"] format_nat_digits [of "nat (- i)"]
  by (auto simp: format_int_def list_all_iff split: if_splits)

lemma format_int_entry: "CHR ''/'' \<notin> set (format_int i)" "CHR 0x5C \<notin> set (format_int i)"
  using format_int_chars [of "CHR ''/''" i] format_int_chars [of "CHR 0x5C" i]
  by (auto simp: is_digit_def)

lemma fsIndexed_make_entries:
  assumes "fsIndexed_makeSeries x series s = (answer, s')"
    and "fsIndexed_getEntry x series' entry s = Inr d"
  shows "fsIndexed_getEntry x series' entry s' = Inr d"
  using assms
  by (auto simp: fsIndexed_makeSeries_def fsIndexed_getEntry_def readOwnFile_def update_conv'
      split: option.splits if_splits bind_splits)

lemma fsIndexed_create_entries:
  assumes "fsIndexed_createIndexed x series i d s = (answer, s')"
    and "fsIndexed_getEntry x series' entry s = Inr d'"
  shows "fsIndexed_getEntry x series' entry s' = Inr d'"
proof (cases answer)
  case (Inl e)
  with assms fsIndexed_create_Inl show ?thesis by metis
next
  case (Inr u)
  with assms(1) obtain dir fs where "seriesDir x series = Some dir" "map_of s dir = Some fs"
    "map_of fs (entry_file (format_int i)) = None"
    "s' = AList.update dir (AList.update (entry_file (format_int i)) d fs) s"
    by (auto elim: fsIndexed_create_Inr)
  with assms(2) show ?thesis
    by (auto simp: fsIndexed_getEntry_def readOwnFile_def update_conv'
        split: option.splits if_splits)
qed

lemma fsIndexed_create_listed:
  assumes "fsIndexed_createIndexed x series i d s = (Inr u, s')"
    and "fsIndexed_listEntries x series s = Inr es"
  shows "\<exists>es'. fsIndexed_listEntries x series s' = Inr es' \<and>
    set es' = insert (format_int i) (set es) \<and> length es' = Suc (length es)"
proof -
  from assms(1) obtain dir fs where *: "seriesDir x series = Some dir" "map_of s dir = Some fs"
    "map_of fs (entry_file (format_int i)) = None"
    "s' = AList.update dir (AList.update (entry_file (format_int i)) d fs) s"
    by (auto elim: fsIndexed_create_Inr)
  have new: "AList.update (entry_file (format_int i)) d fs = fs @ [(entry_file (format_int i), d)]"
    using * by (simp add: update_new)
  have "has_suffix (entry_file e) ''.json''" "trim_suffix (entry_file e) ''.json'' = e" for e
    unfolding entry_file_def by (rule has_suffix_append, rule trim_suffix_append)
  then show ?thesis
    using assms(2) *
    by (simp add: fsIndexed_listEntries_def update_conv' new) (force simp: image_iff)
qed

interpretation fs_indexed: indexed_space "fsIndexed_ops x" plain_name for x
proof
  fix series i d s d'
  assume plain: "plain_name series"
    and "getEntry (fsIndexed_ops x) series (format_int i) s = Inr d'"
  then have "Option.bind (map_of s series) (\<lambda>fs. map_of fs (entry_file (format_int i))) = Some d'"
    by (auto simp: fsIndexed_ops_def fsIndexed_getEntry_def seriesDir_plain readOwnFile_def
        split: if_splits option.splits)
  then show "\<exists>e. createIndexed (fsIndexed_ops x) series i d s = (Inl e, s)"
    by (auto simp: fsIndexed_ops_def fsIndexed_createIndexed_def seriesDir_plain [OF plain]
        fsWriteFile_def Option.bind_eq_Some_conv)
next
  fix series i d s u s'
  assume "plain_name series" and "createIndexed (fsIndexed_ops x) series i d s = (Inr u, s')"
  then show "getEntry (fsIndexed_ops x) series (format_int i) s' = Inr d"
    by (auto simp: fsIndexed_ops_def fsIndexed_getEntry_def readOwnFile_def update_conv'
        format_int_entry elim!: fsIndexed_create_Inr)
next
  fix series s s'
  assume "plain_name series" and "makeSeries (fsIndexed_ops x) series s = (Inr True, s')"
  then show "(\<nexists>es. listEntries (fsIndexed_ops x) series s = Inr es) \<and>
      listEntries (fsIndexed_ops x) series s' = Inr []"
    by (auto simp: fsIndexed_ops_def fsIndexed_makeSeries_def fsIndexed_listEntries_def update_conv'
        seriesDir_plain split: option.splits if_splits)
qed (auto simp: fsIndexed_ops_def fsIndexed_create_listed
    dest: fsIndexed_make_entries fsIndexed_create_entries fsIndexed_create_Inl)

section \<open>The log in a file\<close>

text \<open>What is at a log's path: nothing, something that cannot be read as a file (a link to
  nothing, a directory, a share out of reach), or a file.\<close>

datatype log_file = LogAbsent | LogUnreadable | LogAt bytes

record fsLog =
  fl_opens :: bool
  fl_write :: "bytes \<Rightarrow> nat \<times> bool"
  fl_sync :: bool
  fl_creates :: bool
  fl_closes :: bool

definition newFsLog :: fsLog where
  "newFsLog = \<lparr> fl_opens = True, fl_write = (\<lambda>data. (length data, True)), fl_sync = True,
     fl_creates = True, fl_closes = True \<rparr>"

definition fsLog_readLog :: "int \<Rightarrow> log_file \<Rightarrow> storeError + bytes" where
  "fsLog_readLog start f =
     (case f of
        LogUnreadable \<Rightarrow> Inl (storeFailure FaultUnreadable)
      | LogAbsent \<Rightarrow> Inl (storeFailure FaultAbsent)
      | LogAt data \<Rightarrow>
          if start < 0 \<or> start > int (length data) then Inl (storeFailure FaultRefused)
          else Inr (drop (nat start) data))"

definition fsLog_createLog :: "fsLog \<Rightarrow> log_file \<Rightarrow> (storeError + unit) \<times> log_file" where
  "fsLog_createLog l f =
     (case f of
        LogAbsent \<Rightarrow>
          if \<not> fl_creates l then (Inl (storeFailure FaultDurability), f)
          else if \<not> fl_closes l then (Inl (storeFailure FaultDurability), LogAt [])
          else (Inr (), LogAt [])
      | _ \<Rightarrow> (Inl (storeFailure FaultTaken), f))"

definition fsLog_appendRecord :: "fsLog \<Rightarrow> bytes \<Rightarrow> log_file \<Rightarrow> (storeError + nat) \<times> log_file" where
  "fsLog_appendRecord l data f =
     (case f of
        LogAbsent \<Rightarrow> (Inl (storeFailure FaultAbsent), f)
      | LogUnreadable \<Rightarrow> (Inl (storeFailure FaultDurability), f)
      | LogAt old \<Rightarrow>
          if \<not> fl_opens l then (Inl (storeFailure FaultDurability), f)
          else (case fl_write l data of (n, ok) \<Rightarrow>
            let f' = LogAt (old @ take n data) in
            if \<not> ok \<or> n \<noteq> length data
            then (Inl \<lparr> se_fault = FaultDurability, se_written = n, se_committing = False \<rparr>, f')
            else if \<not> fl_sync l
            then (Inl \<lparr> se_fault = FaultDurability, se_written = n, se_committing = True \<rparr>, f')
            else (Inr n, f')))"

definition fsLog_ops :: "fsLog \<Rightarrow> log_file appendLog" where
  "fsLog_ops l = \<lparr> appendRecord = fsLog_appendRecord l, readLog = fsLog_readLog,
     createLog = fsLog_createLog l \<rparr>"

lemma fsLog_read_0 [simp]: "fsLog_readLog 0 f = Inr d \<longleftrightarrow> f = LogAt d"
  by (cases f) (auto simp: fsLog_readLog_def)

interpretation fs_log: append_log "fsLog_ops l" for l
  by unfold_locales
    (auto simp: fsLog_ops_def fsLog_appendRecord_def fsLog_createLog_def Let_def fsLog_readLog_def
      split: log_file.splits if_splits prod.splits)

section \<open>Documents\<close>

text \<open>Each document is a directory of its revisions.  \<open>fsd_kept\<close> is whether a directory is named
  for documents at all.\<close>

record fsDocuments =
  fsd_kept :: bool
  fsd_env :: write_env
  fsd_mkdir :: bool
  fsd_truncates :: bool

type_synonym doc_dirs = "(bytes \<times> files) list"

definition is_name_char :: "char \<Rightarrow> bool" where
  "is_name_char c \<longleftrightarrow>
     (CHR ''A'' \<le> c \<and> c \<le> CHR ''Z'') \<or> (CHR ''a'' \<le> c \<and> c \<le> CHR ''z'') \<or> is_digit c \<or>
     c = CHR ''.'' \<or> c = CHR ''_'' \<or> c = CHR ''-''"

text \<open>The form \<^verbatim>\<open>^[A-Za-z0-9._-]{1,128}$\<close>.\<close>

definition sessionPattern :: "bytes \<Rightarrow> bool" where
  "sessionPattern s \<longleftrightarrow> s \<noteq> [] \<and> length s \<le> 128 \<and> list_all is_name_char s"

definition validStoreName :: "bytes \<Rightarrow> bool" where
  "validStoreName name \<longleftrightarrow> sessionPattern name \<and> name \<noteq> ''.'' \<and> name \<noteq> ''..''"

definition docDir :: "fsDocuments \<Rightarrow> bytes \<Rightarrow> bool" where
  "docDir d name \<longleftrightarrow> fsd_kept d \<and> validStoreName name"

definition revisionNumber :: "bytes \<Rightarrow> nat option" where
  "revisionNumber name =
     (if name = [] \<or> hd name = CHR ''0'' \<or> length name > 15 then None
      else case parse_int name of
             None \<Rightarrow> None
           | Some n \<Rightarrow> if n > 0 then Some (nat n) else None)"

definition newest :: "files \<Rightarrow> nat" where
  "newest dir = foldr max (List.map_filter revisionNumber (map fst dir)) 0"

text \<open>\<^verbatim>\<open>state\<close> looks again, up to eight times, while the newest revision it reads was emptied by a
  writer since the listing; against a directory nobody writes it finds the same each time.\<close>

definition doc_state :: "files \<Rightarrow> storeError + nat \<times> bytes option" where
  "doc_state dir =
     (let n = newest dir in
      if n = 0 then Inr (0, None)
      else case map_of dir (format_nat n) of
             None \<Rightarrow> Inl (storeFailure FaultUnreadable)
           | Some [] \<Rightarrow> Inl (storeFailure FaultUnreadable)
           | Some (c # data) \<Rightarrow>
               if c = CHR ''d'' then Inr (n, Some data)
               else if c = CHR ''x'' \<and> data = [] then Inr (n, None)
               else Inl (storeFailure FaultUnreadable))"

definition doc_files :: "doc_dirs \<Rightarrow> bytes \<Rightarrow> files" where
  "doc_files s name = (case map_of s name of None \<Rightarrow> [] | Some dir \<Rightarrow> dir)"

definition fsDocuments_getDocument :: "fsDocuments \<Rightarrow> bytes \<Rightarrow> doc_dirs \<Rightarrow> storeError + bytes \<times> bytes" where
  "fsDocuments_getDocument d name s =
     (if \<not> docDir d name then Inl (storeFailure FaultRefused)
      else case doc_state (doc_files s name) of
             Inl e \<Rightarrow> Inl e
           | Inr (n, None) \<Rightarrow> Inl (storeFailure FaultAbsent)
           | Inr (n, Some data) \<Rightarrow> Inr (data, format_nat n))"

fun empty_older :: "bool \<Rightarrow> nat \<Rightarrow> files \<Rightarrow> files" where
  "empty_older truncates 0 dir = dir"
| "empty_older truncates (Suc n) dir =
     (case map_of dir (format_nat (Suc n)) of
        None \<Rightarrow> dir
      | Some [] \<Rightarrow> dir
      | Some _ \<Rightarrow> if \<not> truncates then dir
                  else empty_older truncates n (AList.update (format_nat (Suc n)) [] dir))"

text \<open>\<^verbatim>\<open>write\<close>: the checks against the directory as it was read, then the link of the next
  revision into the directory as it is then.\<close>

definition doc_expects :: "files \<Rightarrow> bytes \<Rightarrow> bool \<Rightarrow> storeError + nat" where
  "doc_expects dir expected deleting =
     (case doc_state dir of
        Inl e \<Rightarrow> Inl e
      | Inr (n, body) \<Rightarrow>
          let current = (if body \<noteq> None then format_nat n else noRevision) in
          if deleting \<and> body = None then Inl (storeFailure FaultAbsent)
          else if expected \<noteq> current then Inl (storeFailure FaultConflict)
          else Inr (Suc n))"

definition doc_link :: "fsDocuments \<Rightarrow> nat \<Rightarrow> bytes \<Rightarrow> files \<Rightarrow> (storeError + bytes) \<times> files" where
  "doc_link d next_rev body dir =
     (let env = fsd_env d in
      if \<not> we_random env \<or> \<not> we_open env \<or> \<not> we_write env \<or> \<not> we_sync env \<or> \<not> we_close env
      then (Inl (storeFailure FaultDurability), dir)
      else if map_of dir (format_nat next_rev) \<noteq> None then (Inl (storeFailure FaultConflict), dir)
      else if \<not> we_place env then (Inl (storeFailure FaultDurability), dir)
      else (Inr (format_nat next_rev),
            empty_older (fsd_truncates d) (next_rev - 1) (AList.update (format_nat next_rev) body dir)))"

definition fsDocuments_write ::
  "fsDocuments \<Rightarrow> bytes \<Rightarrow> bytes \<Rightarrow> bytes \<Rightarrow> bool \<Rightarrow> doc_dirs \<Rightarrow> (storeError + bytes) \<times> doc_dirs" where
  "fsDocuments_write d name body expected deleting s =
     (if \<not> docDir d name then (Inl (storeFailure FaultRefused), s)
      else case doc_expects (doc_files s name) expected deleting of
             Inl e \<Rightarrow> (Inl e, s)
           | Inr next_rev \<Rightarrow>
               if \<not> fsd_mkdir d then (Inl (storeFailure FaultDurability), s)
               else (case doc_link d next_rev body (doc_files s name) of
                       (answer, dir') \<Rightarrow> (answer, AList.update name dir' s)))"

definition fsDocuments_putDocument ::
  "fsDocuments \<Rightarrow> bytes \<Rightarrow> bytes \<Rightarrow> bytes \<Rightarrow> doc_dirs \<Rightarrow> (storeError + bytes) \<times> doc_dirs" where
  "fsDocuments_putDocument d name data expected s =
     fsDocuments_write d name (CHR ''d'' # data) expected False s"

definition fsDocuments_deleteDocument ::
  "fsDocuments \<Rightarrow> bytes \<Rightarrow> bytes \<Rightarrow> doc_dirs \<Rightarrow> (storeError + unit) \<times> doc_dirs" where
  "fsDocuments_deleteDocument d name expected s =
     (case fsDocuments_write d name ''x'' expected True s of
        (Inl e, s') \<Rightarrow> (Inl e, s')
      | (Inr _, s') \<Rightarrow> (Inr (), s'))"

definition fsDocuments_ops :: "fsDocuments \<Rightarrow> doc_dirs documentSpace" where
  "fsDocuments_ops d = \<lparr> getDocument = fsDocuments_getDocument d,
     putDocument = fsDocuments_putDocument d, deleteDocument = fsDocuments_deleteDocument d \<rparr>"

lemma revisionNumber_format: "0 < n \<Longrightarrow> n < 10 ^ 15 \<Longrightarrow> revisionNumber (format_nat n) = Some n"
proof -
  assume n: "0 < n" "n < 10 ^ 15"
  have "parse_int (format_int (int n)) = Some (int n)"
    by (rule parse_int_format_int) (use n in \<open>simp_all add: min_int64_def max_int64_def\<close>)
  moreover have "hd (format_nat n) \<noteq> CHR ''0''" using n format_nat_hd_zero by fastforce
  moreover have "length (format_nat n) \<le> 15" using length_format_nat [of n 14] n by simp
  ultimately show ?thesis using n by (simp add: revisionNumber_def)
qed

lemma newest_eq: "newest dir = Max (insert 0 {n. \<exists>f \<in> fst ` set dir. revisionNumber f = Some n})"
proof -
  have "foldr max xs (0 :: nat) = Max (insert 0 (set xs))" for xs
    by (induction xs) (auto simp: insert_commute [of 0])
  moreover have "set (List.map_filter revisionNumber (map fst dir)) =
      {n. \<exists>f \<in> fst ` set dir. revisionNumber f = Some n}"
    by (force simp: List.map_filter_def)
  ultimately show ?thesis by (simp add: newest_def)
qed

lemma newest_update:
  assumes "revisionNumber f = Some k"
  shows "newest (AList.update f b dir) = max k (newest dir)"
proof -
  let ?S = "{n. \<exists>f \<in> fst ` set dir. revisionNumber f = Some n}"
  have "?S \<subseteq> (the \<circ> revisionNumber) ` fst ` set dir" by force
  then have fin: "finite ?S" by (rule finite_subset) simp
  have "{n. \<exists>f' \<in> fst ` set (AList.update f b dir). revisionNumber f' = Some n} = insert k ?S"
    using assms by (auto simp: fst_set_update)
  then show ?thesis
    using fin by (simp add: newest_eq insert_commute [of 0] max.commute Max_insert)
qed

lemma fst_set_update_old: "map_of xs k = Some w \<Longrightarrow> fst ` set (AList.update k v xs) = fst ` set xs"
  by (metis fst_set_update insert_absorb map_of_SomeD image_eqI fst_conv)

lemma empty_older_names: "fst ` set (empty_older b n dir) = fst ` set dir"
proof (induction b n dir rule: empty_older.induct)
  case (2 b n dir)
  show ?case
  proof (cases "map_of dir (format_nat (Suc n))")
    case None
    then show ?thesis by simp
  next
    case (Some data)
    with 2 show ?thesis by (cases data) (simp_all add: fst_set_update_old [OF Some])
  qed
qed simp

lemma newest_empty_older: "newest (empty_older b n dir) = newest dir"
  by (simp add: newest_eq empty_older_names)

lemma empty_older_later: "n < m \<Longrightarrow> map_of (empty_older b n dir) (format_nat m) = map_of dir (format_nat m)"
proof (induction b n dir rule: empty_older.induct)
  case (2 b n dir)
  then show ?case by (auto simp: update_conv' split: option.splits list.splits)
qed simp

text \<open>A link that succeeds leaves the revision it made as the newest.\<close>

lemma doc_link_state:
  assumes "doc_link d (Suc (newest dir)) body dir = (Inr r, dir')" and "Suc (newest dir) < 10 ^ 15"
    and "body = CHR ''d'' # data \<and> b = Some data \<or> body = ''x'' \<and> b = None"
  shows "doc_state dir' = Inr (Suc (newest dir), b)" and "r = format_nat (Suc (newest dir))"
proof -
  have dir': "dir' = empty_older (fsd_truncates d) (newest dir) (AList.update (format_nat (Suc (newest dir))) body dir)"
    and "r = format_nat (Suc (newest dir))"
    using assms(1) by (auto simp: doc_link_def Let_def split: if_splits)
  then show "r = format_nat (Suc (newest dir))" by simp
  have "newest dir' = Suc (newest dir)"
    using newest_update [OF revisionNumber_format, of "Suc (newest dir)" body dir] assms(2)
    by (simp add: dir' newest_empty_older)
  moreover have "map_of dir' (format_nat (Suc (newest dir))) = Some body"
    by (simp add: dir' empty_older_later update_conv')
  ultimately show "doc_state dir' = Inr (Suc (newest dir), b)"
    using assms(3) by (auto simp: doc_state_def Let_def)
qed

lemma doc_expects_Inr:
  "doc_expects dir r deleting = Inr n \<longleftrightarrow>
     (\<exists>body. doc_state dir = Inr (newest dir, body) \<and> n = Suc (newest dir) \<and> (deleting \<longrightarrow> body \<noteq> None) \<and>
        r = (if body \<noteq> None then format_nat (newest dir) else noRevision))"
  by (auto simp: doc_expects_def doc_state_def Let_def split: if_splits option.splits list.splits)

lemma doc_link_Inl: "doc_link d n body dir = (Inl e, dir') \<Longrightarrow> dir' = dir"
  by (auto simp: doc_link_def Let_def split: if_splits)

definition doc_room :: "bytes \<Rightarrow> doc_dirs \<Rightarrow> bool" where
  "doc_room name s \<longleftrightarrow> Suc (newest (doc_files s name)) < 10 ^ 15"

lemma doc_files_update [simp]:
  "doc_files (AList.update name dir s) n = (if n = name then dir else doc_files s n)"
  by (simp add: doc_files_def update_conv')

lemma fsDocuments_write_Inr:
  assumes "fsDocuments_write d name body r deleting s = (Inr r', s')"
  obtains dir' where "docDir d name" and "s' = AList.update name dir' s"
    and "doc_expects (doc_files s name) r deleting = Inr (Suc (newest (doc_files s name)))"
    and "doc_link d (Suc (newest (doc_files s name))) body (doc_files s name) = (Inr r', dir')"
  using assms
  by (auto simp: fsDocuments_write_def doc_expects_Inr split: if_splits sum.splits prod.splits)

lemma fsDocuments_write_Inl:
  assumes "fsDocuments_write d name body r deleting s = (Inl e, s')"
  shows "doc_files s' n = doc_files s n"
  using assms
  by (auto simp: fsDocuments_write_def split: if_splits sum.splits prod.splits dest: doc_link_Inl)

lemma fsDocuments_write_others:
  assumes "fsDocuments_write d name body r deleting s = (answer, s')" and "n \<noteq> name"
  shows "doc_files s' n = doc_files s n"
  using assms by (auto simp: fsDocuments_write_def split: if_splits sum.splits prod.splits)

lemma fsDocuments_delete_write:
  assumes "fsDocuments_deleteDocument d name r s = (answer, s')"
  obtains (Inl) e where "answer = Inl e" and "fsDocuments_write d name ''x'' r True s = (Inl e, s')"
  | (Inr) r' where "answer = Inr ()" and "fsDocuments_write d name ''x'' r True s = (Inr r', s')"
  using assms by (auto simp: fsDocuments_deleteDocument_def split: sum.splits prod.splits)

lemma fsDocuments_write_at:
  assumes "fsDocuments_write d name body r deleting s = (Inr r', s')"
  shows "at_revision (fsDocuments_ops d) name s r"
  using assms
  by (auto simp: at_revision_def fsDocuments_ops_def fsDocuments_getDocument_def doc_expects_Inr
      elim!: fsDocuments_write_Inr split: option.splits)

lemma fsDocuments_write_get:
  assumes "fsDocuments_write d name body r deleting s = (Inr r', s')" and "doc_room name s"
    and "body = CHR ''d'' # data \<and> b = Some data \<or> body = ''x'' \<and> b = None"
  shows "fsDocuments_getDocument d name s' =
    (case b of Some data \<Rightarrow> Inr (data, r') | None \<Rightarrow> Inl (storeFailure FaultAbsent))"
  using assms(1)
proof (rule fsDocuments_write_Inr)
  fix dir'
  assume *: "docDir d name" "s' = AList.update name dir' s"
    "doc_link d (Suc (newest (doc_files s name))) body (doc_files s name) = (Inr r', dir')"
  from doc_link_state [OF *(3) _ assms(3)] assms(2) * show ?thesis
    by (simp add: fsDocuments_getDocument_def doc_room_def split: option.splits)
qed

interpretation fs_documents: document_space "fsDocuments_ops d" doc_room for d
proof
  fix name data r s r' s'
  assume put: "putDocument (fsDocuments_ops d) name data r s = (Inr r', s')"
  then have w: "fsDocuments_write d name (CHR ''d'' # data) r False s = (Inr r', s')"
    by (simp add: fsDocuments_ops_def fsDocuments_putDocument_def)
  show "at_revision (fsDocuments_ops d) name s r" by (rule fsDocuments_write_at [OF w])
  show "doc_room name s \<Longrightarrow> getDocument (fsDocuments_ops d) name s' = Inr (data, r')"
    using fsDocuments_write_get [OF w, of data "Some data"] by (simp add: fsDocuments_ops_def)
  show "r' \<noteq> r"
    using w by (auto elim!: fsDocuments_write_Inr simp: doc_expects_Inr doc_link_def Let_def
        noRevision_def split: if_splits)
next
  fix name r s u s'
  assume "deleteDocument (fsDocuments_ops d) name r s = (Inr u, s')"
  then have "fsDocuments_deleteDocument d name r s = (Inr u, s')" by (simp add: fsDocuments_ops_def)
  then obtain r' where w: "fsDocuments_write d name ''x'' r True s = (Inr r', s')"
    by (rule fsDocuments_delete_write) simp_all
  show "at_revision (fsDocuments_ops d) name s r" by (rule fsDocuments_write_at [OF w])
  show "doc_room name s \<Longrightarrow> \<exists>e. getDocument (fsDocuments_ops d) name s' = Inl e \<and> se_fault e = FaultAbsent"
    using fsDocuments_write_get [OF w, of "[]" None] by (auto simp: fsDocuments_ops_def)
next
  fix name data r s e s' n
  assume "putDocument (fsDocuments_ops d) name data r s = (Inl e, s')"
  then show "getDocument (fsDocuments_ops d) n s' = getDocument (fsDocuments_ops d) n s"
    by (simp add: fsDocuments_ops_def fsDocuments_getDocument_def fsDocuments_putDocument_def
        fsDocuments_write_Inl [of d name _ r False s e s' n])
qed (auto simp: fsDocuments_ops_def fsDocuments_getDocument_def fsDocuments_putDocument_def
    dest: fsDocuments_write_others elim!: fsDocuments_delete_write)

end
