(* ===== verification/Store.thy ===== *)
theory Store
  imports Registry_Walk Store_FS
begin

text \<open>
  The write path (\<^verbatim>\<open>store.go\<close>): receipts signed and created once at their index, artifacts kept
  under their digest, and the registry a session is sealed in.  The spaces are the interfaces of
  the store contract; the seal is proved over any \<open>append_log\<close> and taken to the filesystem's.
\<close>

section \<open>Sessions and receipts\<close>

definition requireSession :: "bytes \<Rightarrow> bool" where
  "requireSession sessionID \<longleftrightarrow> sessionPattern sessionID \<and> sessionID \<noteq> ''.'' \<and> sessionID \<noteq> ''..''"

definition argumentsKey :: "crypto \<Rightarrow> bytes \<Rightarrow> bytes" where
  "argumentsKey C seed = sha256 C (''judgment-pack-gateway/arguments-key/2:'' @ seed)"

definition receiptContext :: bytes where
  "receiptContext = ''judgment-pack-gateway/receipt/2:''"

definition receiptContext3 :: bytes where
  "receiptContext3 = ''judgment-pack-gateway/receipt/3:''"

definition receiptVersion3 :: bytes where
  "receiptVersion3 = ''3''"

record store =
  st_seed :: bytes
  st_publicKey :: bytes
  st_keyID :: bytes
  st_authority :: bytes

definition newStoreOn :: "crypto \<Rightarrow> bytes \<Rightarrow> bytes \<Rightarrow> store" where
  "newStoreOn C seed authority =
     \<lparr> st_seed = seed, st_publicKey = ed_public C seed, st_keyID = keyIDFor C (ed_public C seed),
       st_authority = authority \<rparr>"

definition retain :: "'s blobSpace \<Rightarrow> bytes \<Rightarrow> 's \<Rightarrow> (storeError + bytes) \<times> 's" where
  "retain artifacts canonical s = putBlob artifacts canonical s"

datatype stamp_error =
    StampNoSession
  | StampSession
  | StampSeries storeError
  | StampIndex
  | StampIndexRange
  | StampCreate storeError

text \<open>What \<^verbatim>\<open>stampInto\<close> signs and stores of a core, once the core is admitted.\<close>

definition stamp_core :: "store \<Rightarrow> members \<Rightarrow> members" where
  "stamp_core st core = obj_set core ''keyId'' (VString (st_keyID st))"

definition stamp_prefix :: "members \<Rightarrow> bytes" where
  "stamp_prefix core =
     (if memberString core ''receiptVersion'' = Some receiptVersion3 then receiptContext3 else receiptContext)"

definition stamp_signature :: "crypto \<Rightarrow> store \<Rightarrow> members \<Rightarrow> bytes" where
  "stamp_signature C st core =
     hex_encode (ed_sign C (st_seed st) (stamp_prefix core @ canon (VObject core)))"

definition stampInto ::
  "crypto \<Rightarrow> 's indexedSpace \<Rightarrow> store \<Rightarrow> members \<Rightarrow> 's \<Rightarrow> (stamp_error + members \<times> bytes \<times> bool) \<times> 's" where
  "stampInto C X st core s =
     (case obj_get core ''sessionId'' of
        Some (VString sessionID) \<Rightarrow>
          if \<not> requireSession sessionID then (Inl StampSession, s)
          else (case makeSeries X sessionID s of
             (Inl e, s) \<Rightarrow> (Inl (StampSeries e), s)
           | (Inr made, s) \<Rightarrow>
               (case obj_get core ''callIndex'' of
                  Some (VInt index) \<Rightarrow>
                    if index > maxSafeInteger \<or> index < minSafeInteger then (Inl StampIndexRange, s)
                    else let core = stamp_core st core;
                             signatureHex = stamp_signature C st core;
                             stored = obj_set core ''signature'' (VString signatureHex);
                             body = canon (VObject stored) @ [CHR 0x0A]
                         in (case createIndexed X sessionID index body s of
                               (Inl e, s) \<Rightarrow> (Inl (StampCreate e), s)
                             | (Inr _, s) \<Rightarrow> (Inr (stored, signatureHex, made), s))
                | _ \<Rightarrow> (Inl StampIndex, s)))
      | _ \<Rightarrow> (Inl StampNoSession, s))"

section \<open>The registry writer\<close>

record registryWriter =
  rwr_seed :: bytes
  rwr_keyID :: bytes

datatype writer_error =
    WriterSeed
  | WriterLog storeError
  | WriterHistory
  | WriterHeld
  | WriterWalk walk_error

text \<open>\<open>history\<close> is what the store beside the registry answers: that it could not be asked, or
  whether it holds a session.\<close>

definition newRegistryWriterOn ::
  "crypto \<Rightarrow> 's appendLog \<Rightarrow> bytes \<Rightarrow> bool option \<Rightarrow> 's \<Rightarrow> (writer_error + registryWriter) \<times> 's" where
  "newRegistryWriterOn C L seed history s =
     (if length seed \<noteq> seedBytes then (Inl WriterSeed, s)
      else let own = ed_public C seed;
               walked = (\<lambda>existing s.
                 case engineWalk C existing own of
                   Inl e \<Rightarrow> (Inl (WriterWalk e), s)
                 | Inr _ \<Rightarrow> (Inr \<lparr> rwr_seed = seed, rwr_keyID = keyIDFor C own \<rparr>, s))
           in case readLog L 0 s of
                Inr existing \<Rightarrow> walked existing s
              | Inl e \<Rightarrow>
                  if se_fault e \<noteq> FaultAbsent then (Inl (WriterLog e), s)
                  else (case history of
                          None \<Rightarrow> (Inl WriterHistory, s)
                        | Some True \<Rightarrow> (Inl WriterHeld, s)
                        | Some False \<Rightarrow>
                            (case createLog L s of
                               (Inl e, s) \<Rightarrow> (Inl (WriterLog e), s)
                             | (Inr _, s) \<Rightarrow> walked [] s)))"

datatype seal_error =
    SealSession
  | SealRegistryAbsent
  | SealLog storeError
  | SealWalk walk_error
  | SealAlreadySealed
  | SealMayBeWritten storeError

definition seal_record :: "crypto \<Rightarrow> registryWriter \<Rightarrow> bytes \<Rightarrow> int \<Rightarrow> bytes \<Rightarrow> members" where
  "seal_record C w sessionID finalCount sealedAt =
     (let signature = ed_sign C (rwr_seed w) (sealSigningInput sessionID finalCount sealedAt (rwr_keyID w));
          record = obj_set [] ''sessionId'' (VString sessionID);
          record = obj_set record ''finalCount'' (VInt finalCount);
          record = obj_set record ''sealedAt'' (VString sealedAt);
          record = obj_set record ''keyId'' (VString (rwr_keyID w))
      in obj_set record ''signature'' (VString (hex_encode signature)))"

text \<open>The newline that ends an unterminated last line before a record is appended.\<close>

definition line_boundary :: "bytes \<Rightarrow> bytes" where
  "line_boundary existing = (if existing \<noteq> [] \<and> last existing \<noteq> CHR 0x0A then [CHR 0x0A] else [])"

definition seal ::
  "crypto \<Rightarrow> 's appendLog \<Rightarrow> registryWriter \<Rightarrow> bytes \<Rightarrow> int \<Rightarrow> bytes \<Rightarrow> 's \<Rightarrow> (seal_error + members) \<times> 's" where
  "seal C L w sessionID finalCount sealedAt s =
     (if \<not> requireSession sessionID then (Inl SealSession, s)
      else case readLog L 0 s of
        Inl e \<Rightarrow> (Inl (if se_fault e = FaultAbsent then SealRegistryAbsent else SealLog e), s)
      | Inr existing \<Rightarrow>
          (case engineWalk C existing (ed_public C (rwr_seed w)) of
             Inl e \<Rightarrow> (Inl (SealWalk e), s)
           | Inr walk \<Rightarrow>
               if rw_seals walk sessionID \<noteq> None then (Inl SealAlreadySealed, s)
               else let record = seal_record C w sessionID finalCount sealedAt;
                        boundary = line_boundary existing;
                        line = boundary @ canon (VObject record) @ [CHR 0x0A]
                    in (case appendRecord L line s of
                          (Inr _, s) \<Rightarrow> (Inr record, s)
                        | (Inl e, s) \<Rightarrow>
                            if se_written e > length boundary \<or> committed e
                            then (Inl (SealMayBeWritten e), s)
                            else (Inl (SealLog e), s))))"

section \<open>The record a seal writes\<close>

lemma name_char_ascii: "is_name_char c \<Longrightarrow> byte c < 0x80"
  by (auto simp: is_name_char_def is_digit_def less_eq_char_def)

lemma requireSession_utf8: "requireSession sid \<Longrightarrow> valid_utf8 sid"
  unfolding requireSession_def sessionPattern_def
  by (intro valid_utf8_ascii) (auto simp: list_all_iff dest: name_char_ascii)

lemma requireSession_plain: "requireSession sid \<Longrightarrow> plain_name sid"
  by (auto simp: requireSession_def sessionPattern_def plain_name_def list_all_iff is_name_char_def
      is_digit_def less_eq_char_def)

definition own_writer :: "crypto \<Rightarrow> bytes \<Rightarrow> registryWriter" where
  "own_writer C seed = \<lparr> rwr_seed = seed, rwr_keyID = keyIDFor C (ed_public C seed) \<rparr>"

lemma seal_record_members:
  "seal_record C w sid n at =
     [(''sessionId'', VString sid), (''finalCount'', VInt n), (''sealedAt'', VString at),
      (''keyId'', VString (rwr_keyID w)),
      (''signature'', VString (hex_encode (ed_sign C (rwr_seed w) (sealSigningInput sid n at (rwr_keyID w)))))]"
  by (simp add: seal_record_def Let_def)

lemma keyIDFor_utf8: "valid_utf8 (keyIDFor C k)"
  using isLowerHexOfLen_keyIDFor [of C k] by (simp add: isLowerHexOfLen_def valid_utf8_lower_hex)

lemma seal_record_wf:
  assumes "requireSession sid" and "in_safe_range n" and "valid_utf8 at"
  shows "wf_json False (VObject (seal_record C (own_writer C seed) sid n at))"
    and "jdepth (VObject (seal_record C (own_writer C seed) sid n at)) \<le> maxNesting"
    and "distinct (map fst (seal_record C (own_writer C seed) sid n at))"
proof -
  let ?r = "seal_record C (own_writer C seed) sid n at"
  have "distinct (map fst ?r)" by (simp add: seal_record_members)
  moreover have "list_all (\<lambda>(n, v). valid_utf8 n \<and> flat_value v) ?r"
    using assms requireSession_utf8 [OF assms(1)]
    by (simp add: seal_record_members own_writer_def keyIDFor_utf8 valid_utf8_ascii)
  ultimately show "wf_json False (VObject ?r)" "jdepth (VObject ?r) \<le> maxNesting" "distinct (map fst ?r)"
    by (simp_all only: flat_object_wf simp_thms)
qed

lemma seal_record_read:
  assumes "requireSession sid" and "in_safe_range n" and "valid_utf8 at"
  shows "parse_object (canon (VObject (seal_record C (own_writer C seed) sid n at))) =
    Some (norm_members (seal_record C (own_writer C seed) sid n at))"
  using parse_object_canon [OF seal_record_wf(1,2) [OF assms], of "[]"] by simp

text \<open>The line of a seal is a seal of the session under the key that signed it, and no rotation
  statement.\<close>

lemma seal_line_read:
  assumes "signs_ok C seed" and "requireSession sid" and "in_safe_range n" and "valid_utf8 at"
    and "rk_key cur = ed_public C seed" and "rk_keyID cur = keyIDFor C (ed_public C seed)"
  defines "line \<equiv> canon (VObject (seal_record C (own_writer C seed) sid n at))"
  shows "seal_of_line C cur line = Some \<lparr> seal_session = sid, seal_count = n \<rparr>"
    and "rotationKindOf line = None"
proof -
  note rd = seal_record_read [OF assms(2-4)] and ds = seal_record_wf(3) [OF assms(2-4)]
  have members: "memberString (seal_record C (own_writer C seed) sid n at) ''sessionId'' = Some sid"
    "memberString (seal_record C (own_writer C seed) sid n at) ''sealedAt'' = Some at"
    "memberString (seal_record C (own_writer C seed) sid n at) ''keyId'' = Some (keyIDFor C (ed_public C seed))"
    "memberString (seal_record C (own_writer C seed) sid n at) ''signature'' =
       Some (hex_encode (ed_sign C seed (sealSigningInput sid n at (keyIDFor C (ed_public C seed)))))"
    "memberString (seal_record C (own_writer C seed) sid n at) ''kind'' = None"
    "member_int (seal_record C (own_writer C seed) sid n at) ''finalCount'' = Some n"
    by (simp_all add: seal_record_members memberString_def member_int_def obj_get_def own_writer_def)
  show "seal_of_line C cur line = Some \<lparr> seal_session = sid, seal_count = n \<rparr>"
    using assms(1,5,6)
    by (simp add: seal_of_line_def line_def rd ds members signs_ok_def)
  show "rotationKindOf line = None"
    by (simp add: rotationKindOf_def line_def rd ds members)
qed

lemma seal_lines:
  assumes "CHR 0x0A \<notin> set line"
  obtains ls where "split_on CHR 0x0A existing = ls \<or> split_on CHR 0x0A existing = ls @ [[]]"
    and "split_on CHR 0x0A (existing @ line_boundary existing @ line @ [CHR 0x0A]) = ls @ [line, []]"
proof (cases "existing = [] \<or> last existing = CHR 0x0A")
  case True
  then consider "existing = []" | d where "existing = d @ [CHR 0x0A]"
    by (metis append_butlast_last_id)
  then show thesis
  proof cases
    case 1
    with assms that [of "[]"] show thesis by (simp add: line_boundary_def split_on_Cons_sep)
  next
    case (2 d)
    with assms that [of "split_on CHR 0x0A d"] show thesis
      by (simp add: line_boundary_def split_on_append_sep split_on_no_sep)
  qed
next
  case False
  with assms that [of "split_on CHR 0x0A existing"] show thesis
    by (simp add: line_boundary_def split_on_append_sep split_on_no_sep)
qed

text \<open>The gateway's own reading of the registry after a seal is the reading before it with the
  seal loaded.\<close>

lemma engineWalk_sealed:
  assumes walk: "engineWalk C existing own = Inr w"
    and line: "CHR 0x0A \<notin> set line" "rotationKindOf line = None" "\<not> is_blank line"
  shows "engineWalk C (existing @ line_boundary existing @ line @ [CHR 0x0A]) own =
    Inr (loadSeal C line w)"
proof -
  obtain ls where ls: "split_on CHR 0x0A existing = ls \<or> split_on CHR 0x0A existing = ls @ [[]]"
    and new: "split_on CHR 0x0A (existing @ line_boundary existing @ line @ [CHR 0x0A]) = ls @ [line, []]"
    by (rule seal_lines [OF line(1)])
  let ?new = "existing @ line_boundary existing @ line @ [CHR 0x0A]"
  have first: "registryFirstKey existing own = first_key_of ls own"
      "registryFirstKey ?new own = first_key_of ls own"
    using ls line(2) by (auto simp: registryFirstKey_def new first_key_of_append)
  define pinned where "pinned = first_key_of ls own"
  have w: "w = walk_lines C ls (start_walk C pinned)" "rw_finding w = None" "rk_key (current w) = own"
    using walk ls first
    by (auto simp: engineWalk_def Let_def walkRegistry_def pinned_def split: option.splits if_splits)
  have "walkRegistry C ?new pinned = walk_lines C ((ls @ [line]) @ [[]]) (start_walk C pinned)"
    by (simp add: walkRegistry_def new)
  also have "\<dots> = walk_lines C (ls @ [line]) (start_walk C pinned)"
    by (rule walk_lines_snoc_Nil)
  also have "\<dots> = loadSeal C line w"
    using walk_lines_append_sound [of C ls "start_walk C pinned" "[line]"] w line by simp
  finally show ?thesis
    using w by (simp add: engineWalk_def first flip: pinned_def) (simp add: current_def)
qed

section \<open>Sealing over any append log\<close>

lemma engineWalk_newline: "engineWalk C (d @ [CHR 0x0A]) own = engineWalk C d own"
  by (simp add: engineWalk_def walkRegistry_def registryFirstKey_def split_on_append_sep first_key_of_append)

lemma seal_record_line:
  assumes "requireSession sid" and "in_safe_range n" and "valid_utf8 at"
  shows "CHR 0x0A \<notin> set (canon (VObject (seal_record C (own_writer C seed) sid n at)))"
    and "\<not> is_blank (canon (VObject (seal_record C (own_writer C seed) sid n at)))"
  using canon_no_newline [OF seal_record_wf(1) [OF assms]] canon_not_blank [of _ "[]"] by simp_all

lemma seal_cases:
  assumes "seal C L w sid n at s = (answer, s')" and "readLog L 0 s = Inr d"
  obtains (Refused) e where "answer = Inl e" and "s' = s" and "\<And>e'. e \<noteq> SealMayBeWritten e'"
  | (Append) walk a where "requireSession sid"
      and "engineWalk C d (ed_public C (rwr_seed w)) = Inr walk" and "rw_seals walk sid = None"
      and "appendRecord L (line_boundary d @ canon (VObject (seal_record C w sid n at)) @ [CHR 0x0A]) s = (a, s')"
      and "answer = (case a of Inr _ \<Rightarrow> Inr (seal_record C w sid n at)
             | Inl e \<Rightarrow> if se_written e > length (line_boundary d) \<or> committed e
                       then Inl (SealMayBeWritten e) else Inl (SealLog e))"
  using assms
  by (auto simp: seal_def Let_def split: if_splits sum.splits prod.splits)

context append_log
begin

text \<open>Whatever a seal answers, and however much of its record was written, every seal the
  registry held stays as it was, under whatever key it is walked from.\<close>

lemma seal_extends:
  assumes "seal C L w sid n at s = (answer, s')" and "readLog L 0 s = Inr d"
  shows "\<exists>t. readLog L 0 s' = Inr (d @ t) \<and>
    walk_extends (walkRegistry C d pinned) (walkRegistry C (d @ t) pinned)"
  using assms
proof (cases rule: seal_cases)
  case (Refused e)
  with assms show ?thesis by (intro exI [of _ "[]"]) simp
next
  case (Append walk a)
  from append_piece [OF assms(2) Append(4)] obtain k where
    k: "readLog L 0 s' = Inr (d @ take k (line_boundary d @ canon (VObject (seal_record C w sid n at)) @ [CHR 0x0A]))"
    by blast
  have "walk_extends (walkRegistry C d pinned) (walkRegistry C (d @ take k (line_boundary d @ u)) pinned)" for u
    by (rule walkRegistry_append) (auto simp: line_boundary_def take_Cons split: nat.splits)
  with k show ?thesis by blast
qed

text \<open>A seal that succeeds is the one seal the reading gains.\<close>

lemma seal_loads:
  assumes "seal C L (own_writer C seed) sid n at s = (Inr record, s')" and "readLog L 0 s = Inr d"
    and "signs_ok C seed" and "in_safe_range n" and "valid_utf8 at"
  shows "\<exists>walk walk' d'. readLog L 0 s' = Inr d' \<and>
    engineWalk C d (ed_public C seed) = Inr walk \<and> rw_seals walk sid = None \<and>
    engineWalk C d' (ed_public C seed) = Inr walk' \<and>
    rw_seals walk' = (rw_seals walk)(sid \<mapsto> \<lparr> seal_session = sid, seal_count = n \<rparr>) \<and>
    rw_keys walk' = rw_keys walk"
  using assms(1,2)
proof (cases rule: seal_cases)
  case (Append walk a)
  let ?line = "canon (VObject (seal_record C (own_writer C seed) sid n at))"
  have own: "rwr_seed (own_writer C seed) = seed" by (simp add: own_writer_def)
  obtain m where "a = Inr m" using Append(5) by (cases a) (auto split: if_splits)
  then have log: "readLog L 0 s' = Inr (d @ line_boundary d @ ?line @ [CHR 0x0A])"
    using append_ok [OF assms(2)] Append(4) by blast
  have cur: "rk_key (current walk) = ed_public C seed"
    "rk_keyID (current walk) = keyIDFor C (ed_public C seed)"
    using Append(2) current_keyID
    by (auto simp: engineWalk_def Let_def own split: option.splits if_splits)
  note ln = seal_line_read [OF assms(3) Append(1) assms(4,5) cur]
  have "engineWalk C (d @ line_boundary d @ ?line @ [CHR 0x0A]) (ed_public C seed) = Inr (loadSeal C ?line walk)"
    by (rule engineWalk_sealed)
      (use Append(2) ln seal_record_line [OF Append(1) assms(4,5)] in \<open>simp_all add: own\<close>)
  moreover have "rw_seals (loadSeal C ?line walk) = (rw_seals walk)(sid \<mapsto> \<lparr> seal_session = sid, seal_count = n \<rparr>)"
    using ln(1) Append(3) by (simp add: loadSeal_def)
  ultimately show ?thesis
    using log Append(2,3) by (simp add: own)
qed (simp)

text \<open>A seal refused for any reason but that it may be written leaves the reading as it was, so
  the session can still be sealed.\<close>

lemma seal_refused_unread:
  assumes "seal C L w sid n at s = (Inl e, s')" and "readLog L 0 s = Inr d"
    and "\<And>e'. e \<noteq> SealMayBeWritten e'"
  shows "\<exists>d'. readLog L 0 s' = Inr d' \<and> engineWalk C d' own = engineWalk C d own"
  using assms(1,2)
proof (cases rule: seal_cases)
  case (Refused e)
  with assms show ?thesis by simp
next
  case (Append walk a)
  let ?line = "canon (VObject (seal_record C w sid n at)) @ [CHR 0x0A]"
  obtain e' where e': "a = Inl e'" "se_written e' \<le> length (line_boundary d)"
    using Append(5) assms(3) by (cases a) (auto split: if_splits)
  then have log: "readLog L 0 s' = Inr (d @ take (se_written e') (line_boundary d))"
    using append_fails [OF assms(2)] Append(4) by fastforce
  have "take (se_written e') (line_boundary d) = [] \<or> take (se_written e') (line_boundary d) = [CHR 0x0A]"
    by (auto simp: line_boundary_def take_Cons split: nat.splits)
  with log show ?thesis using engineWalk_newline by auto
qed

lemma seal_sealed_refused:
  assumes "readLog L 0 s = Inr d" and "engineWalk C d (ed_public C (rwr_seed w)) = Inr walk"
    and "rw_seals walk sid \<noteq> None" and "requireSession sid"
  shows "seal C L w sid n at s = (Inl SealAlreadySealed, s)"
  using assms by (simp add: seal_def)

text \<open>A session is sealed once: after a seal that succeeds every other is refused and writes
  nothing.\<close>

lemma seal_once:
  assumes "seal C L (own_writer C seed) sid n at s = (Inr record, s')" and "readLog L 0 s = Inr d"
    and "signs_ok C seed" and "in_safe_range n" and "valid_utf8 at"
  shows "seal C L (own_writer C seed) sid n' at' s' = (Inl SealAlreadySealed, s')"
proof -
  from seal_loads [OF assms] obtain walk' d' where
    "readLog L 0 s' = Inr d'" "engineWalk C d' (ed_public C seed) = Inr walk'"
    "rw_seals walk' sid = Some \<lparr> seal_session = sid, seal_count = n \<rparr>" by auto
  moreover have "requireSession sid" using assms(1) by (auto simp: seal_def split: if_splits)
  ultimately show ?thesis
    by (intro seal_sealed_refused) (auto simp: own_writer_def)
qed

end

end
