(* ===== verification/Rotate.thy ===== *)
theory Rotate
  imports Store
begin

text \<open>
  Rotating a gateway's signing key (\<^verbatim>\<open>rotate_key.go\<close>): the record of two statements appended to
  the registry, the files kept beside the seed while the rotation is under way, and the
  resumption of one that stopped.  The disk is the seed, the next seed, the kept record, the
  seeds kept aside by ordinal and the registry; a seed file is the seed it holds.
\<close>

section \<open>The record of a rotation\<close>

definition rotationStatementObject :: "crypto \<Rightarrow> bytes \<Rightarrow> nat \<Rightarrow> bytes \<Rightarrow> bytes \<Rightarrow> bytes \<Rightarrow> members" where
  "rotationStatementObject C kind ordinal at keyID named =
     (let obj = obj_set [] ''kind'' (VString kind);
          obj = obj_set obj ''rotationVersion'' (VString rotationVersion);
          obj = obj_set obj ''rotation'' (VInt (int ordinal));
          obj = obj_set obj ''rotatedAt'' (VString at);
          obj = obj_set obj ''keyId'' (VString keyID)
      in if kind = rotationKindForward
         then obj_set (obj_set obj ''next'' (VString (hex_encode named)))
                ''nextKeyId'' (VString (keyIDFor C named))
         else obj_set (obj_set obj ''previous'' (VString (hex_encode named)))
                ''previousKeyId'' (VString (keyIDFor C named)))"

definition signed_statement :: "crypto \<Rightarrow> bytes \<Rightarrow> members \<Rightarrow> members" where
  "signed_statement C seed obj =
     obj_set obj ''signature'' (VString (hex_encode (ed_sign C seed (rotationSigningInput obj))))"

definition rotation_forward :: "crypto \<Rightarrow> nat \<Rightarrow> bytes \<Rightarrow> bytes \<Rightarrow> bytes \<Rightarrow> members" where
  "rotation_forward C ordinal at seed nextSeed =
     signed_statement C seed
       (rotationStatementObject C rotationKindForward ordinal at (keyIDFor C (ed_public C seed)) (ed_public C nextSeed))"

definition rotation_reverse :: "crypto \<Rightarrow> nat \<Rightarrow> bytes \<Rightarrow> bytes \<Rightarrow> bytes \<Rightarrow> members" where
  "rotation_reverse C ordinal at seed nextSeed =
     signed_statement C nextSeed
       (rotationStatementObject C rotationKindReverse ordinal at (keyIDFor C (ed_public C nextSeed)) (ed_public C seed))"

definition rotationRecord :: "crypto \<Rightarrow> bytes \<Rightarrow> nat \<Rightarrow> bytes \<Rightarrow> bytes \<Rightarrow> bytes \<Rightarrow> bytes" where
  "rotationRecord C before ordinal at seed nextSeed =
     line_boundary before @
     canon (VObject (rotation_forward C ordinal at seed nextSeed)) @ [CHR 0x0A] @
     canon (VObject (rotation_reverse C ordinal at seed nextSeed)) @ [CHR 0x0A]"

text \<open>A statement signed and written is read rvs as itself.\<close>

lemma statement_members:
  "rotationStatementObject C kind n at keyID named =
     [(''kind'', VString kind), (''rotationVersion'', VString rotationVersion), (''rotation'', VInt (int n)),
      (''rotatedAt'', VString at), (''keyId'', VString keyID)] @
     (if kind = rotationKindForward
      then [(''next'', VString (hex_encode named)), (''nextKeyId'', VString (keyIDFor C named))]
      else [(''previous'', VString (hex_encode named)), (''previousKeyId'', VString (keyIDFor C named))])"
  by (simp add: rotationStatementObject_def)

lemma signed_statement_members:
  "signed_statement C seed (rotationStatementObject C kind n at keyID named) =
     rotationStatementObject C kind n at keyID named @
     [(''signature'', VString (hex_encode (ed_sign C seed
        (rotationSigningInput (rotationStatementObject C kind n at keyID named)))))]"
  by (simp add: signed_statement_def statement_members)

lemma witnessTimeForm_utf8: "witnessTimeForm s \<Longrightarrow> valid_utf8 s"
proof (rule valid_utf8_ascii)
  assume "witnessTimeForm s"
  then show "list_all (\<lambda>c. byte c < 0x80) s"
    by (clarsimp simp: witnessTimeForm_def list_all2_Cons1 is_digit_def)
qed

lemma rotationSigningInput_norm: "rotationSigningInput (norm_members obj) = rotationSigningInput obj"
proof -
  have "filter (\<lambda>m. fst m \<noteq> ''signature'') (norm_members obj) =
      norm_members (filter (\<lambda>m. fst m \<noteq> ''signature'') obj)"
    using norm_members_filter [of "\<lambda>n. n \<noteq> ''signature''"] .
  then show ?thesis unfolding rotationSigningInput_def by (simp only: canon_norm_members)
qed

lemma rotationSigningInput_signed:
  "rotationSigningInput (signed_statement C seed (rotationStatementObject C kind n at keyID named)) =
   rotationSigningInput (rotationStatementObject C kind n at keyID named)"
  unfolding signed_statement_members by (simp add: rotationSigningInput_def)

lemma statement_read:
  assumes "kind = rotationKindForward \<or> kind = rotationKindReverse"
    and "witnessTimeForm at" and "isLowerHexOfLen keyID 32" and "length named = 32"
    and "1 \<le> n" and "int n \<le> maxRotation" and "\<And>m. length (ed_sign C seed m) = 64"
  defines "obj \<equiv> signed_statement C seed (rotationStatementObject C kind n at keyID named)"
  shows "wf_json False (VObject obj)"
    and "length (canon (VObject obj)) \<le> 3000"
    and "rotationKindOf (canon (VObject obj)) = Some (kind, norm_members obj)"
    and "rotationStatementOf C kind (norm_members obj) =
      Some \<lparr> rs_kind = kind, rs_rotation = int n, rs_rotatedAt = at, rs_keyID = keyID, rs_named = named,
        rs_namedID = keyIDFor C named,
        rs_signature = ed_sign C seed (rotationSigningInput (rotationStatementObject C kind n at keyID named)),
        rs_obj = norm_members obj \<rparr>"
proof -
  define sig where "sig = ed_sign C seed (rotationSigningInput (rotationStatementObject C kind n at keyID named))"
  have sig: "length sig = 64" by (simp add: sig_def assms(7))
  have obj: "obj = rotationStatementObject C kind n at keyID named @ [(''signature'', VString (hex_encode sig))]"
    by (simp add: obj_def signed_statement_members sig_def)
  have kindU: "valid_utf8 kind"
    using assms(1) by (auto simp: rotationKindForward_def rotationKindReverse_def intro!: valid_utf8_ascii)
  have range: "in_safe_range (int n)"
    using assms(6) by (simp add: in_safe_range_def maxRotation_def maxSafeInteger_def minSafeInteger_def)
  have dist: "distinct (map fst obj)" by (simp add: obj statement_members)
  have flat: "list_all (\<lambda>(n, v). valid_utf8 n \<and> flat_value v) obj"
    using kindU range witnessTimeForm_utf8 [OF assms(2)] assms(3) keyIDFor_utf8
    by (simp add: obj statement_members valid_utf8_ascii rotationVersion_def isLowerHexOfLen_def valid_utf8_lower_hex)
  note wf = flat_object_wf [OF dist flat]
  show "wf_json False (VObject obj)" by (rule wf)
  have lens: "length kind \<le> 16" "length at = 20" "length keyID = 32" "length (keyIDFor C named) = 32"
    using assms(1-3) isLowerHexOfLen_keyIDFor [of C named]
    by (auto simp: rotationKindForward_def rotationKindReverse_def witnessTimeForm_def isLowerHexOfLen_def
        dest: list_all2_lengthD)
  show "length (canon (VObject obj)) \<le> 3000"
    using length_canon_flat [OF flat] lens sig assms(4)
    by (simp add: obj statement_members rotationVersion_def split: if_splits)
  have kindM: "memberString obj ''kind'' = Some kind"
    by (simp add: obj statement_members memberString_def obj_get_def)
  have "rotationMembers kind \<noteq> None" using assms(1) by (auto simp: rotationMembers_def)
  then show "rotationKindOf (canon (VObject obj)) = Some (kind, norm_members obj)"
    using parse_object_canon [OF wf, of "[]"] dist kindM by (simp add: rotationKindOf_def)
  have m: "memberString obj ''rotationVersion'' = Some rotationVersion" "memberString obj ''rotatedAt'' = Some at"
    "memberString obj ''keyId'' = Some keyID" "member_int obj ''rotation'' = Some (int n)"
    "memberString obj ''signature'' = Some (hex_encode sig)"
    by (simp_all add: obj statement_members memberString_def member_int_def obj_get_def)
  have f: "memberString obj ''next'' = Some (hex_encode named)" "memberString obj ''nextKeyId'' = Some (keyIDFor C named)"
    if "kind = rotationKindForward"
    using that by (simp_all add: obj statement_members memberString_def obj_get_def)
  have r: "memberString obj ''previous'' = Some (hex_encode named)" "memberString obj ''previousKeyId'' = Some (keyIDFor C named)"
    if "kind = rotationKindReverse"
    using that by (simp_all add: obj statement_members memberString_def obj_get_def)
  have e: "exactly_names obj allowed" if "rotationMembers kind = Some allowed" for allowed
    using that assms(1)
    by (auto simp: exactly_names_def obj statement_members rotationMembers_def)
  obtain allowed where allowed: "rotationMembers kind = Some allowed"
    using \<open>rotationMembers kind \<noteq> None\<close> by blast
  show "rotationStatementOf C kind (norm_members obj) =
      Some \<lparr> rs_kind = kind, rs_rotation = int n, rs_rotatedAt = at, rs_keyID = keyID, rs_named = named,
        rs_namedID = keyIDFor C named,
        rs_signature = ed_sign C seed (rotationSigningInput (rotationStatementObject C kind n at keyID named)),
        rs_obj = norm_members obj \<rparr>"
    unfolding sig_def [symmetric]
    using assms(1) e [OF allowed] assms(2-6) sig allowed
    by (elim disjE) (simp_all add: rotationStatementOf_def dist m f r)
qed

text \<open>Appended to a registry the gateway reads under its key, the record hands the key on: the
  gateway of the next seed reads the registry with the same seals and one more key.\<close>

lemma rotation_lines:
  assumes "CHR 0x0A \<notin> set fwd" and "CHR 0x0A \<notin> set rvs"
  obtains ls where "split_on CHR 0x0A existing = ls \<or> split_on CHR 0x0A existing = ls @ [[]]"
    and "split_on CHR 0x0A (existing @ line_boundary existing @ fwd @ [CHR 0x0A] @ rvs @ [CHR 0x0A]) =
      ls @ [fwd, rvs, []]"
proof -
  obtain ls where ls: "split_on CHR 0x0A existing = ls \<or> split_on CHR 0x0A existing = ls @ [[]]"
    "split_on CHR 0x0A (existing @ line_boundary existing @ fwd @ [CHR 0x0A]) = ls @ [fwd, []]"
    by (rule seal_lines [OF assms(1)])
  have "split_on CHR 0x0A ((existing @ line_boundary existing @ fwd) @ [CHR 0x0A]) =
      split_on CHR 0x0A (existing @ line_boundary existing @ fwd) @ [[]]"
    by (rule split_on_append_sep [of _ _ "[]", simplified])
  with ls(2) have front: "split_on CHR 0x0A (existing @ line_boundary existing @ fwd) = ls @ [fwd]" by simp
  have "split_on CHR 0x0A (rvs @ [CHR 0x0A]) = [rvs, []]"
    using split_on_append_sep [of "CHR 0x0A" rvs "[]"] split_on_no_sep [OF assms(2)] by simp
  with front split_on_append_sep [of "CHR 0x0A" "existing @ line_boundary existing @ fwd" "rvs @ [CHR 0x0A]"]
  have "split_on CHR 0x0A ((existing @ line_boundary existing @ fwd) @ CHR 0x0A # (rvs @ [CHR 0x0A])) =
      ls @ [fwd, rvs, []]"
    by simp
  with that [OF ls(1)] show thesis by simp
qed

lemma engineWalk_rotated:
  assumes walk: "engineWalk C d (ed_public C seed) = Inr w"
    and keys: "signs_ok C seed" "signs_ok C nextSeed"
    and sound: "publicKeyFault (ed_public C nextSeed) = KeySound"
    and new: "keyIDFor C (ed_public C nextSeed) \<notin> rk_keyID ` set (rw_keys w)"
    and at: "witnessTimeForm at" and ordinal: "int (followed w + 1) \<le> maxRotation"
  shows "engineWalk C (d @ rotationRecord C d (followed w + 1) at seed nextSeed) (ed_public C nextSeed) =
    Inr (w\<lparr> rw_keys := rw_keys w @ [\<lparr> rk_key = ed_public C nextSeed, rk_keyID = keyIDFor C (ed_public C nextSeed) \<rparr>] \<rparr>)"
    (is "engineWalk C ?d' ?next = Inr ?w'")
proof -
  define n where "n = followed w + 1"
  let ?fobj = "rotation_forward C n at seed nextSeed" and ?robj = "rotation_reverse C n at seed nextSeed"
  let ?fwd = "canon (VObject ?fobj)" and ?rev = "canon (VObject ?robj)"
  note fwd = statement_read [where kind = rotationKindForward and n = n and at = at and seed = seed and C = C
      and keyID = "keyIDFor C (ed_public C seed)" and named = ?next, folded rotation_forward_def]
  note rev = statement_read [where kind = rotationKindReverse and n = n and at = at and seed = nextSeed and C = C
      and keyID = "keyIDFor C ?next" and named = "ed_public C seed", folded rotation_reverse_def]
  have side: "length (ed_public C seed) = 32" "length ?next = 32" "1 \<le> n" "int n \<le> maxRotation"
    "\<And>m. length (ed_sign C seed m) = 64" "\<And>m. length (ed_sign C nextSeed m) = 64"
    using keys ordinal by (simp_all add: signs_ok_def n_def)
  note fwd = fwd [OF _ at isLowerHexOfLen_keyIDFor side(2,3,4,5), simplified]
  note rev = rev [OF _ at isLowerHexOfLen_keyIDFor side(1,3,4,6), simplified]
  obtain ls where ls: "split_on CHR 0x0A d = ls \<or> split_on CHR 0x0A d = ls @ [[]]"
    and lines: "split_on CHR 0x0A ?d' = ls @ [?fwd, ?rev, []]"
    using rotation_lines [OF canon_no_newline [OF fwd(1)] canon_no_newline [OF rev(1)], of d]
    unfolding rotationRecord_def n_def [symmetric] by metis
  define pinned where "pinned = first_key_of ls (ed_public C seed)"
  have first: "registryFirstKey d (ed_public C seed) = pinned"
    using ls by (auto simp: registryFirstKey_def pinned_def first_key_of_append)
  have w: "w = walk_lines C ls (start_walk C pinned)" "rw_finding w = None"
      "rk_key (current w) = ed_public C seed"
    using walk ls first
    by (auto simp: engineWalk_def Let_def walkRegistry_def split: option.splits if_splits)
  have "rk_keyID (current w) = keyIDFor C (rk_key (current w))"
    using current_keyID [of C d pinned] walk first
    by (auto simp: engineWalk_def Let_def split: option.splits if_splits)
  with w have curid: "rk_keyID (current w) = keyIDFor C (ed_public C seed)" by simp
  have first': "registryFirstKey ?d' ?next = pinned"
  proof -
    have "first_key_of [?fwd, ?rev, []] ?next = ed_public C seed"
    proof -
      have "memberString ?robj ''previous'' = Some (hex_encode (ed_public C seed))" "distinct (map fst ?robj)"
        unfolding rotation_reverse_def signed_statement_members
        by (simp_all add: statement_members memberString_def obj_get_def)
      with fwd(3) rev(3) side(1) show ?thesis by simp
    qed
    moreover have "first_key_of [] (ed_public C seed) = ed_public C seed" by simp
    moreover have "rw_finding (walk_lines C ls (start_walk C pinned)) = None" using w by simp
    note first_key_of_sound [OF this]
    ultimately show ?thesis
      unfolding registryFirstKey_def lines pinned_def by (metis append_Nil2)
  qed
  have fol: "follow C (norm_members ?fobj) ?rev w = Inr ?w'"
  proof -
    have ver: "ed_verify C (ed_public C seed) m (ed_sign C seed m)" "ed_verify C ?next m (ed_sign C nextSeed m)" for m
      using keys by (simp_all add: signs_ok_def)
    have inp: "rotationSigningInput (norm_members ?fobj) =
        rotationSigningInput (rotationStatementObject C rotationKindForward n at (keyIDFor C (ed_public C seed)) ?next)"
      "rotationSigningInput (norm_members ?robj) =
        rotationSigningInput (rotationStatementObject C rotationKindReverse n at (keyIDFor C ?next) (ed_public C seed))"
      by (simp_all add: rotation_forward_def rotation_reverse_def rotationSigningInput_norm rotationSigningInput_signed)
    have "key_position (rw_keys w) (keyIDFor C ?next) = None"
      using new by (simp add: key_position_eq_None)
    then show ?thesis
      unfolding follow_def
      by (simp add: fwd(4) rev(3,4) w(3) curid signedBy_def side(1,2) inp ver sound n_def [symmetric])
        (simp add: n_def)
  qed
  have "walkRegistry C ?d' pinned = walk_lines C ((ls @ [?fwd, ?rev]) @ [[]]) (start_walk C pinned)"
    by (simp only: walkRegistry_def lines append_assoc append_Cons append_Nil)
  also have "\<dots> = walk_lines C (ls @ [?fwd, ?rev]) (start_walk C pinned)"
    by (rule walk_lines_snoc_Nil)
  also have "\<dots> = walk_lines C [?fwd, ?rev] w"
    using walk_lines_append_sound [of C ls "start_walk C pinned"] w by simp
  also have "\<dots> = ?w'"
    using fwd(3) fol w(2) canon_not_blank [of _ "[]"] by simp
  finally show ?thesis
    using w(2) by (simp only: engineWalk_def first' Let_def) (simp add: current_def)
qed

section \<open>The files beside the seed\<close>

record rotate_disk =
  rd_seed :: "bytes option"
  rd_next :: "bytes option"
  rd_record :: "bytes option"
  rd_kept :: "nat \<rightharpoonup> bytes"
  rd_registry :: log_file

text \<open>What a run is given by its surroundings: the time, the random bytes of the next seed, the
  lock, the writes that succeed, what the registry is at the append, and the log's own calls.\<close>

record rotate_env =
  re_stamp :: bytes
  re_random :: "bytes option"
  re_lock :: bool
  re_putNext :: bool
  re_readNext :: bool
  re_keepRecord :: bool
  re_meanwhile :: "log_file \<Rightarrow> log_file"
  re_cut :: bool
  re_cutSync :: bool
  re_log :: fsLog
  re_aside :: bool
  re_switch :: bool
  re_remove :: bool

definition env_fine :: "bytes \<Rightarrow> bytes \<Rightarrow> rotate_env" where
  "env_fine at nextSeed =
     \<lparr> re_stamp = at, re_random = Some nextSeed, re_lock = True, re_putNext = True, re_readNext = True,
       re_keepRecord = True, re_meanwhile = id, re_cut = True, re_cutSync = True, re_log = newFsLog, re_aside = True,
       re_switch = True, re_remove = True \<rparr>"

record keptRecord =
  kr_rotation :: int
  kr_from :: bytes
  kr_to :: bytes
  kr_length :: int
  kr_digest :: bytes
  kr_record :: bytes

definition keptRecord_bytes :: "keptRecord \<Rightarrow> bytes" where
  "keptRecord_bytes k =
     (let obj = obj_set [] ''from'' (VString (kr_from k));
          obj = obj_set obj ''record'' (VString (kr_record k));
          obj = obj_set obj ''registryDigest'' (VString (kr_digest k));
          obj = obj_set obj ''registryLength'' (VInt (kr_length k));
          obj = obj_set obj ''rotation'' (VInt (kr_rotation k));
          obj = obj_set obj ''to'' (VString (kr_to k))
      in canon (VObject obj) @ [CHR 0x0A])"

definition readKeptRecord :: "bytes \<Rightarrow> keptRecord option" where
  "readKeptRecord data = do {
     require (length data \<le> 65536);
     obj \<leftarrow> parse_object data;
     record \<leftarrow> memberString obj ''record'';
     kfrom \<leftarrow> memberString obj ''from'';
     kto \<leftarrow> memberString obj ''to'';
     digest \<leftarrow> memberString obj ''registryDigest'';
     l \<leftarrow> member_int obj ''registryLength'';
     r \<leftarrow> member_int obj ''rotation'';
     require (l \<ge> 0 \<and> r \<ge> 1 \<and> record \<noteq> [] \<and> isLowerHexOfLen kfrom 32 \<and> isLowerHexOfLen kto 32 \<and> isDigest digest);
     Some \<lparr> kr_rotation = r, kr_from = kfrom, kr_to = kto, kr_length = l, kr_digest = digest, kr_record = record \<rparr> }"

datatype rotate_error =
    RotateSeed
  | RotatePending
  | RotateRegistry
  | RotateRegistryAbsent
  | RotateHeld
  | RotateWalk walk_error
  | RotateKeptThere
  | RotateRandom
  | RotateNext
  | RotateKeep
  | RotateChanged
  | RotateAppend
  | RotateRecordForm
  | RotateSeedsMissing
  | RotateBefore
  | RotateKeptRecord
  | RotateNotOurs
  | RotateCut
  | RotateNothingUnderWay
  | RotateRemovedNext

record rotation =
  ro_ordinal :: nat
  ro_from :: bytes
  ro_to :: bytes

definition switchSeed :: "rotate_env \<Rightarrow> nat \<Rightarrow> rotate_disk \<Rightarrow> (rotate_error + unit) \<times> rotate_disk" where
  "switchSeed env ordinal d =
     (let moved =
        (case rd_next d of
           None \<Rightarrow> (True, d)
         | Some nextSeed \<Rightarrow>
             let aside =
               (case rd_seed d of
                  None \<Rightarrow> (True, d)
                | Some seed \<Rightarrow>
                    if rd_kept d ordinal \<noteq> None \<or> \<not> re_aside env then (False, d)
                    else (True, d\<lparr> rd_kept := (rd_kept d)(ordinal \<mapsto> seed), rd_seed := None \<rparr>))
             in if \<not> fst aside then aside
                else if \<not> re_switch env then (False, snd aside)
                else (True, (snd aside)\<lparr> rd_seed := Some nextSeed, rd_next := None \<rparr>))
      in if \<not> fst moved then (Inl RotatePending, snd moved)
         else if \<not> re_remove env then (Inl RotatePending, snd moved)
         else (Inr (), (snd moved)\<lparr> rd_record := None \<rparr>))"

definition rotateKey :: "crypto \<Rightarrow> rotate_env \<Rightarrow> rotate_disk \<Rightarrow> (rotate_error + rotation) \<times> rotate_disk" where
  "rotateKey C env d =
     (case rd_seed d of
        None \<Rightarrow> (Inl RotateSeed, d)
      | Some seed \<Rightarrow>
          if rd_record d \<noteq> None \<or> rd_next d \<noteq> None then (Inl RotatePending, d)
          else (case rd_registry d of
             LogUnreadable \<Rightarrow> (Inl RotateRegistry, d)
           | LogAbsent \<Rightarrow> (Inl RotateRegistryAbsent, d)
           | LogAt data \<Rightarrow>
               if \<not> re_lock env then (Inl RotateHeld, d)
               else (case engineWalk C data (ed_public C seed) of
                  Inl e \<Rightarrow> (Inl (RotateWalk e), d)
                | Inr walk \<Rightarrow>
                    let ordinal = followed walk + 1 in
                    if rd_kept d ordinal \<noteq> None then (Inl RotateKeptThere, d)
                    else (case re_random env of
                       None \<Rightarrow> (Inl RotateRandom, d)
                     | Some nextSeed \<Rightarrow>
                         if \<not> re_putNext env \<or> \<not> re_readNext env then (Inl RotateNext, d)
                         else let record = rotationRecord C data ordinal (re_stamp env) seed nextSeed;
                                  k = \<lparr> kr_rotation = int ordinal, kr_from = keyIDFor C (ed_public C seed),
                                        kr_to = keyIDFor C (ed_public C nextSeed), kr_length = int (length data),
                                        kr_digest = digest_of C data, kr_record = record \<rparr>
                              in if \<not> re_keepRecord env then (Inl RotateKeep, d)
                                 else let d1 = d\<lparr> rd_next := Some nextSeed, rd_record := Some (keptRecord_bytes k) \<rparr>;
                                          registry = re_meanwhile env (LogAt data)
                                      in (case fsLog_readLog 0 registry of
                                            Inl e \<Rightarrow> (Inl RotateAppend, d\<lparr> rd_registry := registry \<rparr>)
                                          | Inr existing \<Rightarrow>
                                              if existing \<noteq> data then (Inl RotateChanged, d\<lparr> rd_registry := registry \<rparr>)
                                              else (case fsLog_appendRecord (re_log env) record registry of
                                                 (Inl e, registry') \<Rightarrow>
                                                   if se_written e > 0 \<or> committed e
                                                   then (Inl RotatePending, d1\<lparr> rd_registry := registry' \<rparr>)
                                                   else (Inl RotateAppend, d\<lparr> rd_registry := registry' \<rparr>)
                                               | (Inr _, registry') \<Rightarrow>
                                                   (case switchSeed env ordinal (d1\<lparr> rd_registry := registry' \<rparr>) of
                                                      (Inl e, d2) \<Rightarrow> (Inl e, d2)
                                                    | (Inr _, d2) \<Rightarrow>
                                                        (Inr \<lparr> ro_ordinal = ordinal, ro_from = ed_public C seed,
                                                               ro_to = ed_public C nextSeed \<rparr>, d2))))))))"

fun keptRotatedAt :: "bytes list \<Rightarrow> bytes option" where
  "keptRotatedAt [] = None"
| "keptRotatedAt (line # rest) =
     (case rotationKindOf line of
        Some (kind, obj) \<Rightarrow>
          if kind = rotationKindForward then memberString obj ''rotatedAt'' else keptRotatedAt rest
      | None \<Rightarrow> keptRotatedAt rest)"

text \<open>The two keys among the seed, the next seed and the seed kept aside: a later file's seed
  replaces an earlier one of the same key id.\<close>

definition find_seeds :: "crypto \<Rightarrow> keptRecord \<Rightarrow> bytes option list \<Rightarrow> bytes option \<times> bytes option" where
  "find_seeds C k paths =
     foldl (\<lambda>(kfrom, knext) path.
        case path of
          None \<Rightarrow> (kfrom, knext)
        | Some seed \<Rightarrow>
            if keyIDFor C (ed_public C seed) = kr_from k then (Some seed, knext)
            else if keyIDFor C (ed_public C seed) = kr_to k then (kfrom, Some seed)
            else (kfrom, knext)) (None, None) paths"

definition resumeWithoutRecord :: "crypto \<Rightarrow> rotate_env \<Rightarrow> rotate_disk \<Rightarrow> rotate_error \<times> rotate_disk" where
  "resumeWithoutRecord C env d =
     (if rd_next d = None then (RotateNothingUnderWay, d)
      else case rd_seed d of
        None \<Rightarrow> (RotateSeed, d)
      | Some seed \<Rightarrow>
          (case rd_registry d of
             LogUnreadable \<Rightarrow> (RotateRegistry, d)
           | registry \<Rightarrow>
               (case engineWalk C (case registry of LogAt data \<Rightarrow> data | _ \<Rightarrow> []) (ed_public C seed) of
                  Inl e \<Rightarrow> (RotateWalk e, d)
                | Inr _ \<Rightarrow>
                    if \<not> re_remove env then (RotatePending, d)
                    else (RotateRemovedNext, d\<lparr> rd_next := None \<rparr>))))"

definition resumeRotation :: "crypto \<Rightarrow> rotate_env \<Rightarrow> rotate_disk \<Rightarrow> (rotate_error + rotation) \<times> rotate_disk" where
  "resumeRotation C env d =
     (case rd_record d of
        None \<Rightarrow> (case resumeWithoutRecord C env d of (e, d') \<Rightarrow> (Inl e, d'))
      | Some content \<Rightarrow>
          (case readKeptRecord content of
             None \<Rightarrow> (Inl RotateRecordForm, d)
           | Some k \<Rightarrow>
               let ordinal = nat (kr_rotation k) in
               (case find_seeds C k [rd_seed d, rd_next d, rd_kept d ordinal] of
                  (Some kfrom, Some knext) \<Rightarrow>
                    if \<not> re_lock env then (Inl RotateHeld, d)
                    else (case rd_registry d of
                       LogUnreadable \<Rightarrow> (Inl RotateRegistry, d)
                     | LogAbsent \<Rightarrow> (Inl RotateBefore, d)
                     | LogAt data \<Rightarrow>
                         let len = nat (kr_length k); before = take len data; tail = drop len data in
                         if int (length data) < kr_length k \<or> digest_of C before \<noteq> kr_digest k
                         then (Inl RotateBefore, d)
                         else (case keptRotatedAt (split_on CHR 0x0A (kr_record k)) of
                            None \<Rightarrow> (Inl RotateKeptRecord, d)
                          | Some at \<Rightarrow>
                              if rotationRecord C before ordinal at kfrom knext \<noteq> kr_record k
                              then (Inl RotateKeptRecord, d)
                              else (case engineWalk C before (ed_public C kfrom) of
                                 Inl _ \<Rightarrow> (Inl RotateBefore, d)
                               | Inr w \<Rightarrow>
                                   if int (followed w + 1) \<noteq> kr_rotation k then (Inl RotateBefore, d)
                                   else
                                     let made = \<lparr> ro_ordinal = ordinal, ro_from = ed_public C kfrom,
                                                  ro_to = ed_public C knext \<rparr>;
                                         finish = (\<lambda>d. case switchSeed env ordinal d of
                                            (Inl e, d') \<Rightarrow> (Inl e, d')
                                          | (Inr _, d') \<Rightarrow> (Inr made, d'))
                                     in if tail = kr_record k then finish d
                                        else if \<not> prefix tail (kr_record k) then (Inl RotateNotOurs, d)
                                        else if \<not> re_cut env then (Inl RotateCut, d)
                                        else if \<not> re_cutSync env
                                        then (Inl RotateCut, d\<lparr> rd_registry := LogAt before \<rparr>)
                                        else let registry = LogAt before in
                                          (case fsLog_appendRecord (re_log env) (kr_record k) registry of
                                             (Inl e, registry') \<Rightarrow>
                                               (Inl (if se_written e > 0 \<or> committed e then RotatePending else RotateAppend),
                                                d\<lparr> rd_registry := registry' \<rparr>)
                                           | (Inr _, registry') \<Rightarrow> finish (d\<lparr> rd_registry := registry' \<rparr>)))))
                | _ \<Rightarrow> (Inl RotateSeedsMissing, d))))"

end
