(* ===== verification/Rotate_Recovery.thy ===== *)
theory Rotate_Recovery
  imports Rotate
begin

text \<open>
  A rotation that stops.  From a disk a rotation can start on, \<open>under_way\<close> are the disks it
  passes through once its record is kept: part of the record appended, the seed moved aside, the
  next seed in its place.  Every run of \<open>rotateKey\<close> or \<open>resumeRotation\<close>, whatever fails in it,
  leaves the disk it started on, one under way, or the rotation finished; and a resumption in
  which nothing fails finishes it from every one of them.
\<close>

definition can_rotate :: "crypto \<Rightarrow> rotate_disk \<Rightarrow> bytes \<Rightarrow> bytes \<Rightarrow> registryWalk \<Rightarrow> bool" where
  "can_rotate C d0 seed data w \<longleftrightarrow>
     rd_seed d0 = Some seed \<and> rd_next d0 = None \<and> rd_record d0 = None \<and> rd_registry d0 = LogAt data \<and>
     engineWalk C data (ed_public C seed) = Inr w \<and> rd_kept d0 (followed w + 1) = None"

definition rotation_record :: "crypto \<Rightarrow> bytes \<Rightarrow> bytes \<Rightarrow> registryWalk \<Rightarrow> bytes \<Rightarrow> bytes \<Rightarrow> bytes" where
  "rotation_record C seed data w nextSeed at = rotationRecord C data (followed w + 1) at seed nextSeed"

definition rotation_kept :: "crypto \<Rightarrow> bytes \<Rightarrow> bytes \<Rightarrow> registryWalk \<Rightarrow> bytes \<Rightarrow> bytes \<Rightarrow> keptRecord" where
  "rotation_kept C seed data w nextSeed at =
     \<lparr> kr_rotation = int (followed w + 1), kr_from = keyIDFor C (ed_public C seed),
       kr_to = keyIDFor C (ed_public C nextSeed), kr_length = int (length data),
       kr_digest = digest_of C data, kr_record = rotation_record C seed data w nextSeed at \<rparr>"

inductive under_way :: "crypto \<Rightarrow> rotate_disk \<Rightarrow> bytes \<Rightarrow> bytes \<Rightarrow> registryWalk \<Rightarrow> bytes \<Rightarrow> bytes \<Rightarrow> rotate_disk \<Rightarrow> bool"
  for C d0 seed data w nextSeed at where
  appended: "prefix t (rotation_record C seed data w nextSeed at) \<Longrightarrow>
    under_way C d0 seed data w nextSeed at
      (d0\<lparr> rd_next := Some nextSeed,
           rd_record := Some (keptRecord_bytes (rotation_kept C seed data w nextSeed at)),
           rd_registry := LogAt (data @ t) \<rparr>)"
| aside:
    "under_way C d0 seed data w nextSeed at
      (d0\<lparr> rd_next := Some nextSeed,
           rd_record := Some (keptRecord_bytes (rotation_kept C seed data w nextSeed at)),
           rd_registry := LogAt (data @ rotation_record C seed data w nextSeed at),
           rd_kept := (rd_kept d0)(followed w + 1 \<mapsto> seed), rd_seed := None \<rparr>)"
| switched:
    "under_way C d0 seed data w nextSeed at
      (d0\<lparr> rd_record := Some (keptRecord_bytes (rotation_kept C seed data w nextSeed at)),
           rd_registry := LogAt (data @ rotation_record C seed data w nextSeed at),
           rd_kept := (rd_kept d0)(followed w + 1 \<mapsto> seed), rd_seed := Some nextSeed \<rparr>)"

definition rotated :: "crypto \<Rightarrow> rotate_disk \<Rightarrow> bytes \<Rightarrow> bytes \<Rightarrow> registryWalk \<Rightarrow> bytes \<Rightarrow> bytes \<Rightarrow> rotate_disk" where
  "rotated C d0 seed data w nextSeed at =
     d0\<lparr> rd_registry := LogAt (data @ rotation_record C seed data w nextSeed at),
         rd_kept := (rd_kept d0)(followed w + 1 \<mapsto> seed), rd_seed := Some nextSeed \<rparr>"

text \<open>What the resumption relies on of the two keys, the time and the numbers it writes.\<close>

definition rotation_sizes :: "crypto \<Rightarrow> bytes \<Rightarrow> bytes \<Rightarrow> registryWalk \<Rightarrow> bytes \<Rightarrow> bytes \<Rightarrow> bool" where
  "rotation_sizes C seed data w nextSeed at \<longleftrightarrow>
     signs_ok C seed \<and> signs_ok C nextSeed \<and> witnessTimeForm at \<and>
     keyIDFor C (ed_public C seed) \<noteq> keyIDFor C (ed_public C nextSeed) \<and>
     int (followed w + 1) \<le> maxRotation \<and> int (length data) \<le> maxSafeInteger"

section \<open>Reading the kept record\<close>

lemma rotation_record_length:
  assumes "rotation_sizes C seed data w nextSeed at"
  shows "length (rotation_record C seed data w nextSeed at) \<le> 6010"
proof -
  define n where "n = followed w + 1"
  have side: "witnessTimeForm at" "length (ed_public C seed) = 32" "length (ed_public C nextSeed) = 32"
    "1 \<le> n" "int n \<le> maxRotation" "\<And>m. length (ed_sign C seed m) = 64" "\<And>m. length (ed_sign C nextSeed m) = 64"
    using assms by (simp_all add: rotation_sizes_def signs_ok_def n_def)
  have "length (canon (VObject (rotation_forward C n at seed nextSeed))) \<le> 3000"
    unfolding rotation_forward_def by (intro statement_read(2) disjI1 refl isLowerHexOfLen_keyIDFor side)
  moreover have "length (canon (VObject (rotation_reverse C n at seed nextSeed))) \<le> 3000"
    unfolding rotation_reverse_def by (intro statement_read(2) disjI2 refl isLowerHexOfLen_keyIDFor side)
  ultimately show ?thesis
    unfolding rotation_record_def n_def [symmetric] by (auto simp: rotationRecord_def line_boundary_def)
qed

lemma rotation_statements_wf:
  assumes "rotation_sizes C seed data w nextSeed at"
  defines "n \<equiv> followed w + 1"
  shows "wf_json False (VObject (rotation_forward C n at seed nextSeed))"
    and "wf_json False (VObject (rotation_reverse C n at seed nextSeed))"
    and "rotationKindOf (canon (VObject (rotation_forward C n at seed nextSeed))) =
      Some (rotationKindForward, norm_members (rotation_forward C n at seed nextSeed))"
proof -
  have side: "witnessTimeForm at" "length (ed_public C seed) = 32" "length (ed_public C nextSeed) = 32"
    "1 \<le> n" "int n \<le> maxRotation" "\<And>m. length (ed_sign C seed m) = 64" "\<And>m. length (ed_sign C nextSeed m) = 64"
    using assms(1) by (simp_all add: rotation_sizes_def signs_ok_def n_def)
  show "wf_json False (VObject (rotation_forward C n at seed nextSeed))"
    "rotationKindOf (canon (VObject (rotation_forward C n at seed nextSeed))) =
      Some (rotationKindForward, norm_members (rotation_forward C n at seed nextSeed))"
    unfolding rotation_forward_def by (intro statement_read(1,3) disjI1 refl isLowerHexOfLen_keyIDFor side)+
  show "wf_json False (VObject (rotation_reverse C n at seed nextSeed))"
    unfolding rotation_reverse_def by (intro statement_read(1) disjI2 refl isLowerHexOfLen_keyIDFor side)
qed

lemma rotation_record_utf8:
  assumes "rotation_sizes C seed data w nextSeed at"
  shows "valid_utf8 (rotation_record C seed data w nextSeed at)"
    and "rotation_record C seed data w nextSeed at \<noteq> []"
proof -
  have "valid_utf8 [CHR 0x0A]" "valid_utf8 (line_boundary data)"
    by (rule valid_utf8_ascii, simp add: line_boundary_def)+
  with rotation_statements_wf [OF assms] show "valid_utf8 (rotation_record C seed data w nextSeed at)"
    by (simp add: rotation_record_def rotationRecord_def valid_utf8_append canon_utf8 valid_utf8_Cons_ascii)
qed (simp add: rotation_record_def rotationRecord_def)

lemma readKeptRecord_kept:
  assumes "rotation_sizes C seed data w nextSeed at"
  shows "readKeptRecord (keptRecord_bytes (rotation_kept C seed data w nextSeed at)) =
    Some (rotation_kept C seed data w nextSeed at)"
proof -
  define k where "k = rotation_kept C seed data w nextSeed at"
  define obj where "obj = [(''from'', VString (kr_from k)), (''record'', VString (kr_record k)),
    (''registryDigest'', VString (kr_digest k)), (''registryLength'', VInt (kr_length k)),
    (''rotation'', VInt (kr_rotation k)), (''to'', VString (kr_to k))]"
  have bytes: "keptRecord_bytes k = canon (VObject obj) @ [CHR 0x0A]"
    by (simp add: keptRecord_bytes_def obj_def Let_def)
  have dist: "distinct (map fst obj)" by (simp add: obj_def)
  have "isDigest (kr_digest k)" by (simp add: k_def rotation_kept_def)
  moreover have "valid_utf8 (digest_of C data)"
    unfolding digest_of_def by (simp add: valid_utf8_Cons_ascii)
  ultimately have flat: "list_all (\<lambda>(n, v). valid_utf8 n \<and> flat_value v) obj"
    using assms rotation_record_utf8 [OF assms]
    by (simp add: obj_def k_def rotation_kept_def valid_utf8_ascii keyIDFor_utf8 rotation_sizes_def
        in_safe_range_def maxRotation_def maxSafeInteger_def minSafeInteger_def)
  note wf = flat_object_wf [OF dist flat]
  have fits: "length (keptRecord_bytes k) \<le> 65536"
  proof -
    have "length (keyIDFor C m) = 32" for m
      using isLowerHexOfLen_keyIDFor [of C m] by (simp add: isLowerHexOfLen_def)
    then show ?thesis
      using length_canon_flat [OF flat] rotation_record_length [OF assms]
      by (simp add: bytes) (simp add: obj_def k_def rotation_kept_def digest_of_def)
  qed
  have "parse_object (keptRecord_bytes k) = Some (norm_members obj)"
    unfolding bytes by (rule parse_object_canon [OF wf]) (simp add: is_json_space_def)
  moreover have "memberString obj ''record'' = Some (kr_record k)" "memberString obj ''from'' = Some (kr_from k)"
    "memberString obj ''to'' = Some (kr_to k)" "memberString obj ''registryDigest'' = Some (kr_digest k)"
    "member_int obj ''registryLength'' = Some (kr_length k)" "member_int obj ''rotation'' = Some (kr_rotation k)"
    by (simp_all add: obj_def memberString_def member_int_def obj_get_def)
  ultimately show ?thesis
    using assms rotation_record_utf8 [OF assms]
    unfolding k_def [symmetric]
    by (simp add: readKeptRecord_def dist fits flip: k_def)
      (simp add: k_def rotation_kept_def)
qed

lemma keptRotatedAt_record:
  assumes "rotation_sizes C seed data w nextSeed at"
  shows "keptRotatedAt (split_on CHR 0x0A (rotation_record C seed data w nextSeed at)) = Some at"
proof -
  define n where "n = followed w + 1"
  let ?fobj = "rotation_forward C n at seed nextSeed"
  note wf = rotation_statements_wf [OF assms, folded n_def]
  have nl: "CHR 0x0A \<notin> set (canon (VObject ?fobj))" by (rule canon_no_newline [OF wf(1)])
  have at: "memberString ?fobj ''rotatedAt'' = Some at" "distinct (map fst ?fobj)"
    unfolding rotation_forward_def signed_statement_members
    by (simp_all add: statement_members memberString_def obj_get_def)
  have "keptRotatedAt (split_on CHR 0x0A (canon (VObject ?fobj) @ CHR 0x0A # u)) = Some at" for u
    using wf(3) at by (simp add: split_on_Cons_sep [OF nl])
  then show ?thesis
    unfolding rotation_record_def n_def [symmetric] by (auto simp: rotationRecord_def line_boundary_def)
qed

section \<open>Resuming\<close>

text \<open>The resumption on a disk whose kept record, seeds and registry are those of the rotation: it
  puts the record whole in the registry and makes the switch.\<close>

definition resume_append :: "rotate_env \<Rightarrow> bytes \<Rightarrow> bytes \<Rightarrow> bytes \<Rightarrow> rotate_disk \<Rightarrow> (rotate_error + unit) \<times> rotate_disk" where
  "resume_append env data record t d =
     (if t = record then (Inr (), d)
      else if \<not> re_cut env then (Inl RotateCut, d)
      else if \<not> re_cutSync env then (Inl RotateCut, d\<lparr> rd_registry := LogAt data \<rparr>)
      else (case fsLog_appendRecord (re_log env) record (LogAt data) of
              (Inl e, registry') \<Rightarrow>
                (Inl (if se_written e > 0 \<or> committed e then RotatePending else RotateAppend),
                 d\<lparr> rd_registry := registry' \<rparr>)
            | (Inr _, registry') \<Rightarrow> (Inr (), d\<lparr> rd_registry := registry' \<rparr>)))"

lemma resumeRotation_eval:
  assumes can: "can_rotate C d0 seed data w" and sizes: "rotation_sizes C seed data w nextSeed at"
    and keptr: "rd_record d = Some (keptRecord_bytes (rotation_kept C seed data w nextSeed at))"
    and seeds: "find_seeds C (rotation_kept C seed data w nextSeed at) [rd_seed d, rd_next d, rd_kept d (followed w + 1)]
      = (Some seed, Some nextSeed)"
    and registry: "rd_registry d = LogAt (data @ t)" and t: "prefix t (rotation_record C seed data w nextSeed at)"
    and lock: "re_lock env"
  shows "resumeRotation C env d =
    (case resume_append env data (rotation_record C seed data w nextSeed at) t d of
       (Inl e, d') \<Rightarrow> (Inl e, d')
     | (Inr _, d') \<Rightarrow>
         (case switchSeed env (followed w + 1) d' of
            (Inl e, d'') \<Rightarrow> (Inl e, d'')
          | (Inr _, d'') \<Rightarrow> (Inr \<lparr> ro_ordinal = followed w + 1, ro_from = ed_public C seed,
              ro_to = ed_public C nextSeed \<rparr>, d'')))"
proof -
  define n where "n = followed w + 1"
  define r where "r = rotation_record C seed data w nextSeed at"
  define k where "k = rotation_kept C seed data w nextSeed at"
  have k: "kr_rotation k = int n" "kr_length k = int (length data)" "kr_digest k = digest_of C data"
      "kr_record k = r"
    by (simp_all add: k_def rotation_kept_def n_def r_def)
  have walk: "engineWalk C data (ed_public C seed) = Inr w" using can by (simp add: can_rotate_def)
  have rr: "rotationRecord C data n at seed nextSeed = r"
    by (simp add: r_def rotation_record_def n_def)
  have at: "keptRotatedAt (split_on CHR 0x0A r) = Some at"
    unfolding r_def by (rule keptRotatedAt_record [OF sizes])
  have n1: "1 + int (followed w) = int n" by (simp add: n_def)
  have t': "prefix t r" using t by (simp add: r_def)
  show ?thesis
    unfolding resumeRotation_def keptr [folded k_def] option.case readKeptRecord_kept [OF sizes, folded k_def]
      r_def [symmetric] n_def [symmetric] Let_def k nat_int
      seeds [folded k_def n_def] prod.case registry log_file.case
    by (simp add: lock rr at walk t' resume_append_def n1 split: prod.splits sum.splits)
qed

lemma resumeRotation_held:
  assumes "\<not> re_lock env" and "rd_record d = Some content" and "readKeptRecord content = Some k"
    and "kr_rotation k = int n" and "find_seeds C k [rd_seed d, rd_next d, rd_kept d n] = (Some f, Some g)"
  shows "resumeRotation C env d = (Inl RotateHeld, d)"
  using assms by (simp add: resumeRotation_def Let_def)

lemma find_seeds_eval:
  assumes "rotation_sizes C seed data w nextSeed at"
  shows "find_seeds C (rotation_kept C seed data w nextSeed at) [Some seed, Some nextSeed, None] = (Some seed, Some nextSeed)"
    and "find_seeds C (rotation_kept C seed data w nextSeed at) [None, Some nextSeed, Some seed] = (Some seed, Some nextSeed)"
    and "find_seeds C (rotation_kept C seed data w nextSeed at) [Some nextSeed, None, Some seed] = (Some seed, Some nextSeed)"
  using assms by (auto simp: find_seeds_def rotation_kept_def rotation_sizes_def)

lemma under_way_seeds:
  assumes can: "can_rotate C d0 seed data w" and sizes: "rotation_sizes C seed data w nextSeed at"
    and way: "under_way C d0 seed data w nextSeed at d"
  obtains t where "rd_record d = Some (keptRecord_bytes (rotation_kept C seed data w nextSeed at))"
    and "find_seeds C (rotation_kept C seed data w nextSeed at) [rd_seed d, rd_next d, rd_kept d (followed w + 1)]
      = (Some seed, Some nextSeed)"
    and "rd_registry d = LogAt (data @ t)" and "prefix t (rotation_record C seed data w nextSeed at)"
    and "rd_seed d \<noteq> Some seed \<Longrightarrow> t = rotation_record C seed data w nextSeed at"
  using way
proof cases
  case (appended t)
  show thesis
    by (rule that [of t]) (use appended can find_seeds_eval(1) [OF sizes] in \<open>simp_all add: can_rotate_def\<close>)
next
  case aside
  show thesis
    by (rule that [of "rotation_record C seed data w nextSeed at"])
      (use aside can find_seeds_eval(2) [OF sizes] in \<open>simp_all add: can_rotate_def\<close>)
next
  case switched
  show thesis
    by (rule that [of "rotation_record C seed data w nextSeed at"])
      (use switched can find_seeds_eval(3) [OF sizes] in \<open>simp_all add: can_rotate_def\<close>)
qed

text \<open>The switch, from each disk whose registry holds the whole record.\<close>

lemma switchSeed_stages:
  assumes can: "can_rotate C d0 seed data w" and way: "under_way C d0 seed data w nextSeed at d"
    and full: "rd_registry d = LogAt (data @ rotation_record C seed data w nextSeed at)"
    and run: "switchSeed env (followed w + 1) d = (answer, d')"
  shows "under_way C d0 seed data w nextSeed at d' \<and> answer \<noteq> Inr () \<or>
    d' = rotated C d0 seed data w nextSeed at \<and> answer = Inr ()"
    and "re_aside env \<and> re_switch env \<and> re_remove env \<Longrightarrow> answer = Inr ()"
proof -
  define n where "n = followed w + 1"
  define r where "r = rotation_record C seed data w nextSeed at"
  obtain kp where d0: "d0 = \<lparr> rd_seed = Some seed, rd_next = None, rd_record = None, rd_kept = kp,
      rd_registry = LogAt data \<rparr>" "kp n = None"
    using can by (cases d0) (simp add: can_rotate_def n_def)
  note run = run [folded n_def]
  have rot: "rotated C d0 seed data w nextSeed at = \<lparr> rd_seed = Some nextSeed, rd_next = None,
      rd_record = None, rd_kept = kp(n \<mapsto> seed), rd_registry = LogAt (data @ r) \<rparr>"
    by (simp add: rotated_def d0(1) n_def r_def)
  note stages = under_way.appended [where C = C and ?d0.0 = d0 and seed = seed and data = data and w = w
        and nextSeed = nextSeed and at = at and t = r, folded r_def, OF prefix_order.refl]
      under_way.aside [where C = C and ?d0.0 = d0 and seed = seed and data = data and w = w
        and nextSeed = nextSeed and at = at, folded r_def n_def]
      under_way.switched [where C = C and ?d0.0 = d0 and seed = seed and data = data and w = w
        and nextSeed = nextSeed and at = at, folded r_def n_def]
  from way have "(under_way C d0 seed data w nextSeed at d' \<and> answer \<noteq> Inr () \<or>
      d' = rotated C d0 seed data w nextSeed at \<and> answer = Inr ()) \<and>
    (re_aside env \<and> re_switch env \<and> re_remove env \<longrightarrow> answer = Inr ())"
  proof cases
    case (appended t)
    with full have "t = r" by (simp add: r_def)
    with appended [folded r_def n_def] run d0(2) stages [unfolded d0(1)] show ?thesis
      by (auto simp: switchSeed_def Let_def rot [unfolded d0(1)] d0(1) split: if_splits)
  next
    case aside
    note now = aside [folded r_def n_def, unfolded d0(1)]
    with run d0(2) stages [unfolded d0(1)] show ?thesis
      by (auto simp: switchSeed_def Let_def rot [unfolded d0(1)] d0(1) split: if_splits)
  next
    case switched
    note now = switched [folded r_def n_def, unfolded d0(1)]
    with run d0(2) stages [unfolded d0(1)] show ?thesis
      by (auto simp: switchSeed_def Let_def rot [unfolded d0(1)] d0(1) split: if_splits)
  qed
  then show "under_way C d0 seed data w nextSeed at d' \<and> answer \<noteq> Inr () \<or>
      d' = rotated C d0 seed data w nextSeed at \<and> answer = Inr ()"
    and "re_aside env \<and> re_switch env \<and> re_remove env \<Longrightarrow> answer = Inr ()"
    by auto
qed

lemma resume_append_stages:
  assumes can: "can_rotate C d0 seed data w" and way: "under_way C d0 seed data w nextSeed at d"
    and t: "rd_registry d = LogAt (data @ t)" "prefix t (rotation_record C seed data w nextSeed at)"
    and run: "resume_append env data (rotation_record C seed data w nextSeed at) t d = (answer, d')"
  shows "under_way C d0 seed data w nextSeed at d'"
    and "answer = Inr () \<Longrightarrow> rd_registry d' = LogAt (data @ rotation_record C seed data w nextSeed at)"
    and "re_cut env \<and> re_cutSync env \<and> re_log env = newFsLog \<Longrightarrow> answer = Inr ()"
proof -
  define r where "r = rotation_record C seed data w nextSeed at"
  have redo: "under_way C d0 seed data w nextSeed at (d\<lparr> rd_registry := LogAt (data @ u) \<rparr>)"
    if "t \<noteq> r" "prefix u r" for u
    using way
  proof cases
    case (appended t')
    with under_way.appended [of u C seed data w nextSeed at d0] that(2) show ?thesis by (simp add: r_def)
  qed (use t that in \<open>simp_all add: r_def\<close>)
  have app: "\<exists>m. snd (fsLog_appendRecord l r (LogAt data)) = LogAt (data @ take m r)" for l
    by (auto simp: fsLog_appendRecord_def Let_def intro: exI [of _ 0] exI [of _ "length r"] split: prod.splits)
  have "under_way C d0 seed data w nextSeed at d' \<and>
    (answer = Inr () \<longrightarrow> rd_registry d' = LogAt (data @ r)) \<and>
    (re_cut env \<and> re_cutSync env \<and> re_log env = newFsLog \<longrightarrow> answer = Inr ())"
  proof (cases "t = r")
    case True
    with run way t show ?thesis by (simp add: resume_append_def r_def)
  next
    case False
    obtain a reg where a: "fsLog_appendRecord (re_log env) r (LogAt data) = (a, reg)" by fastforce
    with app [of "re_log env"] obtain m where reg: "reg = LogAt (data @ take m r)" by auto
    have ok: "reg = LogAt (data @ r)" if "a = Inr v" for v
      using a that by (auto simp: fsLog_appendRecord_def Let_def split: prod.splits if_splits)
    have fine: "\<exists>v. a = Inr v" if "re_log env = newFsLog"
      using a that by (auto simp: fsLog_appendRecord_def newFsLog_def)
    have cut: "under_way C d0 seed data w nextSeed at (d\<lparr> rd_registry := LogAt data \<rparr>)"
      using redo [OF False, of "[]"] by simp
    have piece: "under_way C d0 seed data w nextSeed at (d\<lparr> rd_registry := reg \<rparr>)"
      using redo [OF False take_is_prefix [of m r]] reg by simp
    show ?thesis
      using run False way a ok fine cut piece
      by (cases a) (auto simp: resume_append_def r_def [symmetric] split: if_splits)
  qed
  then show "under_way C d0 seed data w nextSeed at d'"
    and "answer = Inr () \<Longrightarrow> rd_registry d' = LogAt (data @ rotation_record C seed data w nextSeed at)"
    and "re_cut env \<and> re_cutSync env \<and> re_log env = newFsLog \<Longrightarrow> answer = Inr ()"
    by (auto simp: r_def)
qed

text \<open>Whatever fails in a resumption, the rotation is still under way or is finished; and when
  nothing fails it is finished.\<close>

lemma resume_stages:
  assumes can: "can_rotate C d0 seed data w" and sizes: "rotation_sizes C seed data w nextSeed at"
    and way: "under_way C d0 seed data w nextSeed at d"
    and run: "resumeRotation C env d = (answer, d')"
  shows "under_way C d0 seed data w nextSeed at d' \<and> isl answer \<or>
    d' = rotated C d0 seed data w nextSeed at \<and>
    answer = Inr \<lparr> ro_ordinal = followed w + 1, ro_from = ed_public C seed, ro_to = ed_public C nextSeed \<rparr>"
    and "env = env_fine at' x \<Longrightarrow> \<not> isl answer"
proof -
  obtain t where
    rec: "rd_record d = Some (keptRecord_bytes (rotation_kept C seed data w nextSeed at))"
    and fs: "find_seeds C (rotation_kept C seed data w nextSeed at) [rd_seed d, rd_next d, rd_kept d (followed w + 1)]
      = (Some seed, Some nextSeed)"
    and t: "rd_registry d = LogAt (data @ t)" "prefix t (rotation_record C seed data w nextSeed at)"
    using under_way_seeds [OF can sizes way] by metis
  have "(under_way C d0 seed data w nextSeed at d' \<and> isl answer \<or>
    d' = rotated C d0 seed data w nextSeed at \<and>
    answer = Inr \<lparr> ro_ordinal = followed w + 1, ro_from = ed_public C seed, ro_to = ed_public C nextSeed \<rparr>) \<and>
    (env = env_fine at' x \<longrightarrow> \<not> isl answer)"
  proof (cases "re_lock env")
    case False
    then have "d' = d" "isl answer"
      using run resumeRotation_held [OF False rec readKeptRecord_kept [OF sizes] _ fs]
      by (auto simp add: rotation_kept_def)
    with way False show ?thesis by (auto simp: env_fine_def)
  next
    case True
    obtain a d1 where a: "resume_append env data (rotation_record C seed data w nextSeed at) t d = (a, d1)"
      by fastforce
    note ap = resume_append_stages [OF can way t a]
    obtain b d2 where b: "switchSeed env (followed w + 1) d1 = (b, d2)" by fastforce
    note ev = resumeRotation_eval [OF can sizes rec fs t True, unfolded run a prod.case]
    show ?thesis
    proof (cases a)
      case (Inl e)
      with ev ap show ?thesis by (auto simp: env_fine_def)
    next
      case (Inr u)
      note sw = switchSeed_stages [OF can ap(1) _ b]
      from Inr ap(2) have "rd_registry d1 = LogAt (data @ rotation_record C seed data w nextSeed at)" by simp
      note sw = sw [OF this]
      from Inr ev b sw show ?thesis
        by (cases b) (auto simp: env_fine_def)
    qed
  qed
  then show "under_way C d0 seed data w nextSeed at d' \<and> isl answer \<or>
    d' = rotated C d0 seed data w nextSeed at \<and>
    answer = Inr \<lparr> ro_ordinal = followed w + 1, ro_from = ed_public C seed, ro_to = ed_public C nextSeed \<rparr>"
    and "env = env_fine at' x \<Longrightarrow> \<not> isl answer"
    by blast+
qed

section \<open>Rotating\<close>

text \<open>A run of \<open>rotateKey\<close> with nobody else writing the registry: refused with the disk as it was,
  stopped with the rotation under way, or finished.\<close>

lemma rotate_stages:
  assumes can: "can_rotate C d0 seed data w"
    and env: "re_random env = Some nextSeed" "re_meanwhile env = id"
    and run: "rotateKey C env d0 = (answer, d')"
  shows "d' = d0 \<and> isl answer \<or>
    under_way C d0 seed data w nextSeed (re_stamp env) d' \<and> isl answer \<or>
    d' = rotated C d0 seed data w nextSeed (re_stamp env) \<and>
    answer = Inr \<lparr> ro_ordinal = followed w + 1, ro_from = ed_public C seed, ro_to = ed_public C nextSeed \<rparr>"
proof -
  define n where "n = followed w + 1"
  define r where "r = rotation_record C seed data w nextSeed (re_stamp env)"
  define k where "k = rotation_kept C seed data w nextSeed (re_stamp env)"
  have d0: "rd_seed d0 = Some seed" "rd_next d0 = None" "rd_record d0 = None" "rd_registry d0 = LogAt data"
    "engineWalk C data (ed_public C seed) = Inr w" "rd_kept d0 n = None"
    using can by (simp_all add: can_rotate_def n_def)
  have same: "d0\<lparr> rd_registry := LogAt data \<rparr> = d0" using d0(4) by (cases d0) simp
  obtain a reg where a: "fsLog_appendRecord (re_log env) r (LogAt data) = (a, reg)" by fastforce
  let ?d1 = "d0\<lparr> rd_next := Some nextSeed, rd_record := Some (keptRecord_bytes k), rd_registry := reg \<rparr>"
  have way: "under_way C d0 seed data w nextSeed (re_stamp env) ?d1"
  proof -
    have "\<exists>m. snd (fsLog_appendRecord (re_log env) r (LogAt data)) = LogAt (data @ take m r)"
      by (auto simp: fsLog_appendRecord_def Let_def intro: exI [of _ 0] exI [of _ "length r"] split: prod.splits)
    with a obtain m where "reg = LogAt (data @ take m r)" by auto
    moreover have "prefix (take m r) r" by (rule take_is_prefix)
    ultimately show ?thesis
      using under_way.appended [of "take m r" C seed data w nextSeed "re_stamp env" d0]
      by (simp add: r_def k_def)
  qed
  have none: "reg = LogAt data" if "a = Inl e" "se_written e = 0" for e
    using a that by (auto simp: fsLog_appendRecord_def Let_def storeFailure_def split: prod.splits if_splits)
  have full: "reg = LogAt (data @ r)" if "a = Inr v" for v
    using a that by (auto simp: fsLog_appendRecord_def Let_def split: prod.splits if_splits)
  have rr: "rotationRecord C data n (re_stamp env) seed nextSeed = r"
    by (simp add: r_def rotation_record_def n_def)
  have kk: "\<lparr> kr_rotation = int n, kr_from = keyIDFor C (ed_public C seed),
      kr_to = keyIDFor C (ed_public C nextSeed), kr_length = int (length data),
      kr_digest = digest_of C data, kr_record = r \<rparr> = k"
    by (simp add: k_def rotation_kept_def n_def r_def)
  have ev: "(answer, d') =
    (if \<not> re_lock env then (Inl RotateHeld, d0)
     else if \<not> re_putNext env \<or> \<not> re_readNext env then (Inl RotateNext, d0)
     else if \<not> re_keepRecord env then (Inl RotateKeep, d0)
     else case a of
       Inl e \<Rightarrow> if se_written e > 0 \<or> committed e then (Inl RotatePending, ?d1)
                else (Inl RotateAppend, d0\<lparr> rd_registry := reg \<rparr>)
     | Inr _ \<Rightarrow> (case switchSeed env n ?d1 of
         (Inl e, d2) \<Rightarrow> (Inl e, d2)
       | (Inr _, d2) \<Rightarrow> (Inr \<lparr> ro_ordinal = n, ro_from = ed_public C seed, ro_to = ed_public C nextSeed \<rparr>, d2)))"
    unfolding run [symmetric] rotateKey_def d0(1-5) option.case log_file.case sum.case env n_def [symmetric]
      Let_def rr kk id_apply fsLog_readLog_def
    by (simp add: a d0 split: sum.splits)
  show ?thesis
  proof (cases a)
    case (Inl e)
    with ev none way same show ?thesis by (auto split: if_splits)
  next
    case (Inr v)
    obtain b d2 where b: "switchSeed env n ?d1 = (b, d2)" by fastforce
    have "rd_registry ?d1 = LogAt (data @ rotation_record C seed data w nextSeed (re_stamp env))"
      using full [OF Inr] by (simp add: r_def)
    note sw = switchSeed_stages(1) [OF can way this b [unfolded n_def]]
    from ev Inr b sw show ?thesis
      by (cases b) (auto simp: n_def split: if_splits)
  qed
qed

end
