(* ===== verification/Sound_Key.thy ===== *)
theory Sound_Key
  imports Keys
begin

text \<open>
  One public key computed through the whole of the key rule, so that a rotation can be shown
  on a concrete key.  The point has a cube root of unity for the square of its x, which keeps
  the square root cheap; every product modulo the prime is checked by its quotient.
\<close>

lemma curveP_num: "curveP = 57896044618658097711785492504343953926634992332820282019728792003956564819949"
  by (simp add: curveP_def)

lemma mod_curveP_eqI:
  assumes "a * b + 19 * q = q * 57896044618658097711785492504343953926634992332820282019728792003956564819968 + r" and "0 \<le> r" and "r < 57896044618658097711785492504343953926634992332820282019728792003956564819949"
  shows "a * b mod curveP = r"
proof -
  have "a * b = r + q * curveP" using assms(1) by (simp add: curveP_num)
  then show ?thesis using assms(2,3) by (simp add: curveP_num)
qed

lemma curveP_pos: "0 < curveP" "1 mod curveP = 1"
  by (simp_all add: curveP_num)

lemma unit_power: "a mod curveP = 1 \<Longrightarrow> a ^ k mod curveP = 1"
  by (metis power_mod power_one curveP_pos(2))

lemma mod_mult_diff: "(z :: int) * (a - 1) mod p = z * (a mod p - 1) mod p"
  by (metis mod_diff_left_eq mod_mult_right_eq)

text \<open>A doubling, from the products it takes.\<close>

lemma edwards_double_eqI:
  assumes "x * x mod curveP = xx" and "y * y mod curveP = yy" and "xx * yy mod curveP = s"
    and "s * d mod curveP = t" and "x * y mod curveP = xy"
    and "a * zx mod curveP = 1" and "b * zy mod curveP = 1"
    and "c * zx mod curveP = x'" and "e * zy mod curveP = y'"
    and "d = curveD" and "a = (1 + t) mod curveP" and "b = (1 - t) mod curveP"
    and "c = (2 * xy) mod curveP" and "e = (yy + xx) mod curveP"
    and "0 \<le> zx" "zx < curveP" "0 \<le> zy" "zy < curveP"
  shows "edwardsAdd x y x y = (x', y')"
proof -
  have t: "x * x * y * y * curveD mod curveP = t"
  proof -
    have "x * x * y * y * curveD mod curveP = ((x * x) * (y * y)) * curveD mod curveP"
      by (simp add: ac_simps)
    also have "\<dots> = (xx * yy) * d mod curveP"
      using assms(1,2,10) by (metis mod_mult_cong mod_mod_trivial)
    also have "\<dots> = t" using assms(3,4) by (metis mod_mult_left_eq)
    finally show ?thesis .
  qed
  have zx: "mod_inverse a curveP = zx" and zy: "mod_inverse b curveP = zy"
    using assms by (auto intro: mod_inverse_eqI)
  have x: "(x * y + y * x) * zx mod curveP = x'"
  proof -
    have "(x * y + y * x) * zx mod curveP = (2 * (x * y)) * zx mod curveP" by (simp add: algebra_simps)
    also have "\<dots> = c * zx mod curveP"
      using assms(5,13) by (metis mod_mult_left_eq mod_mult_right_eq)
    finally show ?thesis using assms(8) by simp
  qed
  have y: "(y * y + x * x) * zy mod curveP = y'"
    using assms(1,2,9,14) by (metis mod_add_eq mod_mult_left_eq)
  show ?thesis unfolding edwardsAdd_def Let_def t
    using x y zx zy assms(11,12) by simp
qed

lemma c_inv121666: "121666 * 37095705934669439343138083508754565189542113879843219016388785533085940283556 mod curveP = 1"
  by (rule mod_curveP_eqI [where q = "77955"]) simp_all

lemma c_D: "37095705934669439343138083508754565189542113879843219016388785533085940283556 * (-121665) mod curveP = 37095705934669439343138083508754565189542113879843219016388785533085940283555"
  by (rule mod_curveP_eqI [where q = "(-77955)"]) simp_all

lemma curveD_eq: "curveD = 37095705934669439343138083508754565189542113879843219016388785533085940283555"
proof -
  have "mod_inverse 121666 curveP = 37095705934669439343138083508754565189542113879843219016388785533085940283556"
    by (rule mod_inverse_eqI [OF c_inv121666]) (simp_all add: curveP_num)
  then show ?thesis by (simp only: curveD_def c_D)
qed

lemma c_yy: "30451486751339718481195058755240061377398159560887533306439905136276390105297 * 30451486751339718481195058755240061377398159560887533306439905136276390105297 mod curveP = 47263429847116166193727455421390378206998592041540382919065115696397407793215"
  by (rule mod_curveP_eqI [where q = "16016518079512821197621998122312729047631364423532160739798478266283764769706"]) simp_all

lemma c_dyy: "37095705934669439343138083508754565189542113879843219016388785533085940283555 * 47263429847116166193727455421390378206998592041540382919065115696397407793215 mod curveP = 23868111561183941511187453933008149560641332156754000691885841556040576114606"
  by (rule mod_curveP_eqI [where q = "30283075581772563704173917013582158804650232954139040902599913649767888518731"]) simp_all

lemma c_zv: "23868111561183941511187453933008149560641332156754000691885841556040576114607 * 5792981103634292147694576367954981486599972637332793506590975203366768110831 mod curveP = 1"
  by (rule mod_curveP_eqI [where q = "2388203203933804287734143385569548450126493035703573752255437665024784252384"]) simp_all

lemma c_xx: "5792981103634292147694576367954981486599972637332793506590975203366768110831 * 47263429847116166193727455421390378206998592041540382919065115696397407793214 mod curveP = 25380276437079137597092236364571181010632177832931468165172742469126098314552"
  by (rule mod_curveP_eqI [where q = "4729099505859040179786917287279316121336353167911541005464203373781742732818"]) simp_all

lemma c_ww: "25380276437079137597092236364571181010632177832931468165172742469126098314552 * 25380276437079137597092236364571181010632177832931468165172742469126098314552 mod curveP = 32515768181578960114693256139772772916002814499888813854556049534830466505396"
  by (rule mod_curveP_eqI [where q = "11126121590264254759921395021607611989947343882418060982800471816498095980092"]) simp_all

lemma c_www: "32515768181578960114693256139772772916002814499888813854556049534830466505396 * 25380276437079137597092236364571181010632177832931468165172742469126098314552 mod curveP = 1"
  by (rule mod_curveP_eqI [where q = "14254154846814882837170841342963569020684833950513407182372270652628002334459"]) simp_all

lemma c_w2w2: "32515768181578960114693256139772772916002814499888813854556049534830466505396 * 32515768181578960114693256139772772916002814499888813854556049534830466505396 mod curveP = 25380276437079137597092236364571181010632177832931468165172742469126098314552"
  by (rule mod_curveP_eqI [where q = "18261613334764077277522414796809203895317980549375406672183778882202464170936"]) simp_all

lemma c1_s: "25380276437079137597092236364571181010632177832931468165172742469126098314552 * 47263429847116166193727455421390378206998592041540382919065115696397407793215 mod curveP = 12144779647437127603962819514516607169627245967457366573950577220644679226680"
  by (rule mod_curveP_eqI [where q = "20719185961414100875211717600108026967380851049099775897171276947936789762000"]) simp_all

lemma c1_t: "12144779647437127603962819514516607169627245967457366573950577220644679226680 * 37095705934669439343138083508754565189542113879843219016388785533085940283555 mod curveP = 21883153410037028596635219056819197196366414208608914753892373227271309478662"
  by (rule mod_curveP_eqI [where q = "7781519055578068502021284461181777258299705418055488067926267381481728413162"]) simp_all

lemma c1_xy: "32515768181578960114693256139772772916002814499888813854556049534830466505396 * 30451486751339718481195058755240061377398159560887533306439905136276390105297 mod curveP = 54985452228032637861739043528123273769907898620025290938649463146104612431084"
  by (rule mod_curveP_eqI [where q = "17102264766320315195964959373344715988764606075148195588615233457730179544872"]) simp_all

lemma c1_zx: "21883153410037028596635219056819197196366414208608914753892373227271309478663 * 54276686746529929233563873849868829714110120603897305346220056721277159781580 mod curveP = 1"
  by (rule mod_curveP_eqI [where q = "20515133123274964758653028696255465824474114128051426376587934109610108246911"]) simp_all

lemma c1_zy: "36012891208621069115150273447524756730268578124211367265836418776685255341288 * 53240533425499338239070676195446874801871400856868667116780192825890123364162 mod curveP = 1"
  by (rule mod_curveP_eqI [where q = "33117038491495848266723547860059815280993948911555069828638890071611239799595"]) simp_all

lemma c1_x: "52074859837407178011692594551902593613180804907230299857570134288252660042219 * 54276686746529929233563873849868829714110120603897305346220056721277159781580 mod curveP = 9105054180765487143007599920253642664449310389042003748841657711598435189198"
  by (rule mod_curveP_eqI [where q = "48819411988872285158385244829371071920841649807339591758402228611811533659278"]) simp_all

lemma c1_y: "14747661665537206079034199281617605290995777541651569064509066161566941287818 * 53240533425499338239070676195446874801871400856868667116780192825890123364162 mod curveP = 30816892424824192588267521532591424810010441595712186874433785851933563078859"
  by (rule mod_curveP_eqI [where q = "13561779203115921682860795715456535135925693972116454988560399451386306175693"]) simp_all

lemma c1_double: "edwardsAdd 32515768181578960114693256139772772916002814499888813854556049534830466505396 30451486751339718481195058755240061377398159560887533306439905136276390105297 32515768181578960114693256139772772916002814499888813854556049534830466505396 30451486751339718481195058755240061377398159560887533306439905136276390105297 = (9105054180765487143007599920253642664449310389042003748841657711598435189198, 30816892424824192588267521532591424810010441595712186874433785851933563078859)"
  by (rule edwards_double_eqI [OF c_w2w2 c_yy c1_s c1_t  c1_xy c1_zx c1_zy c1_x c1_y])
    (simp_all add: curveP_num curveD_eq)

lemma c2_xx: "9105054180765487143007599920253642664449310389042003748841657711598435189198 * 9105054180765487143007599920253642664449310389042003748841657711598435189198 mod curveP = 20921201412565101369292671324239566811188068834937173002423166722243796771708"
  by (rule mod_curveP_eqI [where q = "1431911492066909380702809343535328325117734415506191663541380097827606003304"]) simp_all

lemma c2_yy: "30816892424824192588267521532591424810010441595712186874433785851933563078859 * 30816892424824192588267521532591424810010441595712186874433785851933563078859 mod curveP = 42960801031221934785239248542004365354113708577795006177747541974711664856746"
  by (rule mod_curveP_eqI [where q = "16403207938960549438353419268821849641839209154101420138820025477139873459115"]) simp_all

lemma c2_s: "20921201412565101369292671324239566811188068834937173002423166722243796771708 * 42960801031221934785239248542004365354113708577795006177747541974711664856746 mod curveP = 29262210586814530914623056031987350556027406143608661758713731713276568459910"
  by (rule mod_curveP_eqI [where q = "15524231009896589490329221267091056513509257867556631855829713093263678375642"]) simp_all

lemma c2_t: "29262210586814530914623056031987350556027406143608661758713731713276568459910 * 37095705934669439343138083508754565189542113879843219016388785533085940283555 mod curveP = 22039599618656833415946577217764798542925639742857833175324375252467868085037"
  by (rule mod_curveP_eqI [where q = "18749162677289684525253072616619054728478921357856864098437763678500771738137"]) simp_all

lemma c2_xy: "9105054180765487143007599920253642664449310389042003748841657711598435189198 * 30816892424824192588267521532591424810010441595712186874433785851933563078859 mod curveP = 27709271910968338311163509394953926050359506166944799592144379786311231605806"
  by (rule mod_curveP_eqI [where q = "4846436005412717069909739501404938925861053462055208636214261066371788594524"]) simp_all

lemma c2_zx: "22039599618656833415946577217764798542925639742857833175324375252467868085038 * 54472450410127205529179796266793896394509850228648976717927674949111299062509 mod curveP = 1"
  by (rule mod_curveP_eqI [where q = "20736321543103179702469022538681395033853428407004065250112688469346398779209"]) simp_all

lemma c2_zy: "35856445000001264295838915286579155383709352589962448844404416751488696734913 * 24943804877362093795393267231967627444064380558134032262828458536431937735134 mod curveP = 1"
  by (rule mod_curveP_eqI [where q = "15448312118159123440797202018541810649599729612818712851026913617423011036209"]) simp_all

lemma c2_x: "55418543821936676622327018789907852100719012333889599184288759572622463211612 * 54472450410127205529179796266793896394509850228648976717927674949111299062509 mod curveP = 43268398176069916398523075450834590389986834876624572073732401824813566671623"
  by (rule mod_curveP_eqI [where q = "52141452840615068731802566556889049523674786402366008799146203331935257123865"]) simp_all

lemma c2_y: "5985957825128938442746427361899978238666785079911897160441916692998896808505 * 24943804877362093795393267231967627444064380558134032262828458536431937735134 mod curveP = 7468771485789748720038289233356287150769079359792450064913623074864874034150"
  by (rule mod_curveP_eqI [where q = "2578976940093351426036326727403750390677158122546861363003498508756436845480"]) simp_all

lemma c2_double: "edwardsAdd 9105054180765487143007599920253642664449310389042003748841657711598435189198 30816892424824192588267521532591424810010441595712186874433785851933563078859 9105054180765487143007599920253642664449310389042003748841657711598435189198 30816892424824192588267521532591424810010441595712186874433785851933563078859 = (43268398176069916398523075450834590389986834876624572073732401824813566671623, 7468771485789748720038289233356287150769079359792450064913623074864874034150)"
  by (rule edwards_double_eqI [OF c2_xx c2_yy c2_s c2_t  c2_xy c2_zx c2_zy c2_x c2_y])
    (simp_all add: curveP_num curveD_eq)

lemma c3_xx: "43268398176069916398523075450834590389986834876624572073732401824813566671623 * 43268398176069916398523075450834590389986834876624572073732401824813566671623 mod curveP = 14206212677647583470555389867658940833805968976560394785017311355568192868432"
  by (rule mod_curveP_eqI [where q = "32336479858929659371817749345574551450929431580951023192923183126895712291653"]) simp_all

lemma c3_yy: "7468771485789748720038289233356287150769079359792450064913623074864874034150 * 7468771485789748720038289233356287150769079359792450064913623074864874034150 mod curveP = 20491315056037742546241571546022817338900981591542499622379070604618083439336"
  by (rule mod_curveP_eqI [where q = "963494965405098286409646055693782773482884478908131807855346040145426485036"]) simp_all

lemma c3_s: "14206212677647583470555389867658940833805968976560394785017311355568192868432 * 20491315056037742546241571546022817338900981591542499622379070604618083439336 mod curveP = 28389658630325422363557625465287564146658629692197449741413899528684494493369"
  by (rule mod_curveP_eqI [where q = "5028046072027179652267121416216397080645508024545089553749237507168424548867"]) simp_all

lemma c3_t: "28389658630325422363557625465287564146658629692197449741413899528684494493369 * 37095705934669439343138083508754565189542113879843219016388785533085940283555 mod curveP = 6285102378390159075686181678363876505095012614982104837361759249049890570903"
  by (rule mod_curveP_eqI [where q = "18190092865114479808254850929154341089973973646337121254844578910777043448708"]) simp_all

lemma c3_xy: "43268398176069916398523075450834590389986834876624572073732401824813566671623 * 7468771485789748720038289233356287150769079359792450064913623074864874034150 mod curveP = 30015129518610717131787096146830196218008360916545974094529279479012272602068"
  by (rule mod_curveP_eqI [where q = "5581759179954119954820569457895051099016591886738300949174978704221205400718"]) simp_all

lemma c3_zx: "6285102378390159075686181678363876505095012614982104837361759249049890570904 * 28113589812896842082735686715661351338205046995663465616599112699015884829433 mod curveP = 1"
  by (rule mod_curveP_eqI [where q = "3051966526590305269184007957846498878613305215749374686964958644131666881619"]) simp_all

lemma c3_zy: "51610942240267938636099310825980077421539979717838177182367032754906674249047 * 9324188168500281360610972305343807659659686929396946304863884363575524023641 mod curveP = 1"
  by (rule mod_curveP_eqI [where q = "8311969153878470418623922954258376618896624462609184830361551824050853901174"]) simp_all

lemma c3_x: "2134214418563336551788699789316438509381729500271666169329766954067980384187 * 28113589812896842082735686715661351338205046995663465616599112699015884829433 mod curveP = 55623862322124783643823920424748611767285138048108395725741866940083595456703"
  by (rule mod_curveP_eqI [where q = "1036347631888543558364070482658784181786789411437188685822680767597045614132"]) simp_all

lemma c3_y: "34697527733685326016796961413681758172706950568102894407396381960186276307768 * 9324188168500281360610972305343807659659686929396946304863884363575524023641 mod curveP = 23621352421194765442392466668934855082623346038098825640524074219336248069721"
  by (rule mod_curveP_eqI [where q = "5588054930204620979563487474768818754939341594856400937181805133221029572283"]) simp_all

lemma c3_double: "edwardsAdd 43268398176069916398523075450834590389986834876624572073732401824813566671623 7468771485789748720038289233356287150769079359792450064913623074864874034150 43268398176069916398523075450834590389986834876624572073732401824813566671623 7468771485789748720038289233356287150769079359792450064913623074864874034150 = (55623862322124783643823920424748611767285138048108395725741866940083595456703, 23621352421194765442392466668934855082623346038098825640524074219336248069721)"
  by (rule edwards_double_eqI [OF c3_xx c3_yy c3_s c3_t  c3_xy c3_zx c3_zy c3_x c3_y])
    (simp_all add: curveP_num curveD_eq)

lemma root_of_unity: "squareRoot 25380276437079137597092236364571181010632177832931468165172742469126098314552 = Some 32515768181578960114693256139772772916002814499888813854556049534830466505396"
proof -
  let ?w = "25380276437079137597092236364571181010632177832931468165172742469126098314552 :: int"
  have cube: "?w ^ 3 mod curveP = 1"
  proof -
    have "?w ^ 3 mod curveP = (?w * ?w mod curveP) * ?w mod curveP"
      by (simp only: power3_eq_cube mod_mult_left_eq)
    then show ?thesis by (simp only: c_ww c_www)
  qed
  define k :: nat where "k = 2412335192444087404657728854347664746943124680534178417488699666831523534164"
  have e: "nat ((curveP + 3) div 8) = 3 * k + 2"
    by (simp add: curveP_num k_def)
  have "?w ^ (3 * k + 2) mod curveP = ((?w ^ 3) ^ k mod curveP) * (?w * ?w mod curveP) mod curveP"
    by (simp only: power_add power_mult power2_eq_square mod_mult_eq)
  also have "(?w ^ 3) ^ k mod curveP = 1"
    by (rule unit_power [OF cube])
  finally have "pow_mod ?w (3 * k + 2) curveP = 32515768181578960114693256139772772916002814499888813854556049534830466505396"
    by (simp only: pow_mod_eq [OF curveP_pos(1)] c_ww mult_1_left) (simp add: curveP_num)
  then show ?thesis
    unfolding squareRoot_def Let_def e by (simp only: c_w2w2 if_True simp_thms)
qed

definition sound_key :: bytes where
  "sound_key = [CHR 0xD1, CHR 0x50, CHR 0x49, CHR 0x08, CHR 0x08, CHR 0xB0, CHR 0x09, CHR 0xF0, CHR 0x90, CHR 0x20, CHR 0x3A, CHR 0xBF, CHR 0xF1, CHR 0xD7, CHR 0x9F, CHR 0x89, CHR 0x02, CHR 0x03, CHR 0xF7, CHR 0xE9, CHR 0xBE, CHR 0x5E, CHR 0x31, CHR 0x74, CHR 0x5C, CHR 0x09, CHR 0x74, CHR 0x8E, CHR 0x43, CHR 0xEE, CHR 0x52, CHR 0x43]"

lemma sound_key_y: "bytes_int 0 (char_of (byte (hd (rev sound_key)) mod 128) # tl (rev sound_key)) = 30451486751339718481195058755240061377398159560887533306439905136276390105297"
  by (simp add: sound_key_def)

lemma sound_key_x: "mod_inverse ((curveD * (30451486751339718481195058755240061377398159560887533306439905136276390105297 * 30451486751339718481195058755240061377398159560887533306439905136276390105297) + 1) mod curveP) curveP * (30451486751339718481195058755240061377398159560887533306439905136276390105297 * 30451486751339718481195058755240061377398159560887533306439905136276390105297 - 1) mod curveP = 25380276437079137597092236364571181010632177832931468165172742469126098314552"
proof -
  have v: "(curveD * (30451486751339718481195058755240061377398159560887533306439905136276390105297 * 30451486751339718481195058755240061377398159560887533306439905136276390105297) + 1) mod curveP = 23868111561183941511187453933008149560641332156754000691885841556040576114607"
  proof -
    have "(curveD * (30451486751339718481195058755240061377398159560887533306439905136276390105297 * 30451486751339718481195058755240061377398159560887533306439905136276390105297) + 1) mod curveP = (curveD * (30451486751339718481195058755240061377398159560887533306439905136276390105297 * 30451486751339718481195058755240061377398159560887533306439905136276390105297 mod curveP) mod curveP + 1) mod curveP"
      by (simp only: mod_add_left_eq mod_mult_right_eq)
    then show ?thesis by (simp only: c_yy curveD_eq c_dyy) (simp add: curveP_num)
  qed
  have "mod_inverse 23868111561183941511187453933008149560641332156754000691885841556040576114607 curveP = 5792981103634292147694576367954981486599972637332793506590975203366768110831"
    by (rule mod_inverse_eqI [OF c_zv]) (simp_all add: curveP_num)
  moreover have "5792981103634292147694576367954981486599972637332793506590975203366768110831 * (30451486751339718481195058755240061377398159560887533306439905136276390105297 * 30451486751339718481195058755240061377398159560887533306439905136276390105297 - 1) mod curveP = 5792981103634292147694576367954981486599972637332793506590975203366768110831 * ((30451486751339718481195058755240061377398159560887533306439905136276390105297 * 30451486751339718481195058755240061377398159560887533306439905136276390105297 mod curveP) - 1) mod curveP"
    by (rule mod_mult_diff)
  moreover have "47263429847116166193727455421390378206998592041540382919065115696397407793215 - 1 = (47263429847116166193727455421390378206998592041540382919065115696397407793214 :: int)" by simp
  ultimately show ?thesis by (simp only: v c_yy c_xx)
qed

lemma sound_key_sound: "publicKeyFault sound_key = KeySound"
proof -
  have len: "length sound_key = 32" by (simp add: sound_key_def)
  have below: "\<not> (30451486751339718481195058755240061377398159560887533306439905136276390105297 :: int) \<ge> curveP" by (simp add: curveP_num)
  show ?thesis
    unfolding publicKeyFault_def Let_def sound_key_y sound_key_x root_of_unity
    using len below by (simp add: c1_double c2_double c3_double)
qed

end
