(* ===== verification/Registry_Claims.thy ===== *)
theory Registry_Claims
  imports Rotate_Recovery Sound_Key
begin

text \<open>
  The properties of the registry, of sealing and of rotating a key, each with a concrete run.
\<close>

section \<open>The walk\<close>

text \<open>C9: The keys a walk of a registry reaches start at the pinned key, no key id is reached
  twice, and each key after the first was handed on by the key before it: two adjacent lines of
  the registry are the rotation statement signed by the key before, naming the next key at the
  next ordinal, and the continuation signed by the key named, naming the key before; and the key
  named passes the key rule.\<close>

theorem registry_keys_handed_on:
  fixes C data pinned
  defines "ks \<equiv> rw_keys (walkRegistry C data pinned)"
  shows "ks \<noteq> [] \<and> rk_key (hd ks) = pinned \<and> distinct (map rk_keyID ks) \<and>
    (\<forall>i. Suc i < length ks \<longrightarrow> handed_on C (split_on CHR 0x0A data) (Suc i) (ks ! i) (ks ! Suc i))"
  using walkRegistry_keys_ok [of C data pinned] by (auto simp: keys_ok_def ks_def)

definition sample_seed :: bytes where
  "sample_seed = replicate 32 (CHR ''A'')"

definition sample_time :: bytes where
  "sample_time = ''2026-01-02T03:04:05Z''"

definition sample_rotated :: bytes where
  "sample_rotated = rotationRecord sample_crypto [] 1 sample_time sample_seed sound_key"

lemma sample_facts:
  "ed_public sample_crypto sample_seed = sample_seed" "ed_public sample_crypto sound_key = sound_key"
  "witnessTimeForm sample_time" "valid_utf8 sample_time"
  "keyIDFor sample_crypto sample_seed \<noteq> keyIDFor sample_crypto sound_key"
proof -
  show "witnessTimeForm sample_time"
    by (simp add: witnessTimeForm_def sample_time_def is_digit_def)
  then show "valid_utf8 sample_time" by (rule witnessTimeForm_utf8)
  have "hd (keyIDFor sample_crypto sample_seed) \<noteq> hd (keyIDFor sample_crypto sound_key)"
    by code_simp
  then show "keyIDFor sample_crypto sample_seed \<noteq> keyIDFor sample_crypto sound_key" by metis
qed (simp_all add: sample_crypto_public sample_seed_def sound_key_def)

lemma sample_empty_walk:
  "engineWalk sample_crypto [] sample_seed = Inr (start_walk sample_crypto sample_seed)"
  by (simp add: engineWalk_def walkRegistry_def registryFirstKey_def is_blank_def start_walk_def
      current_def Let_def)

lemma sample_rotation_walk:
  "engineWalk sample_crypto sample_rotated sound_key =
     Inr ((start_walk sample_crypto sample_seed)\<lparr> rw_keys :=
       [\<lparr> rk_key = sample_seed, rk_keyID = keyIDFor sample_crypto sample_seed \<rparr>,
        \<lparr> rk_key = sound_key, rk_keyID = keyIDFor sample_crypto sound_key \<rparr>] \<rparr>)"
proof -
  show ?thesis
    using engineWalk_rotated [where C = sample_crypto and d = "[]" and seed = sample_seed
        and nextSeed = sound_key and at = sample_time]
      sample_empty_walk sample_facts sound_key_sound
    by (simp add: followed_def sample_rotated_def maxRotation_def maxSafeInteger_def start_walk_def)
qed

theorem registry_keys_handed_on_witness:
  "handed_on sample_crypto (split_on CHR 0x0A sample_rotated) 1
     \<lparr> rk_key = sample_seed, rk_keyID = keyIDFor sample_crypto sample_seed \<rparr>
     \<lparr> rk_key = sound_key, rk_keyID = keyIDFor sample_crypto sound_key \<rparr>"
proof -
  let ?w = "walkRegistry sample_crypto sample_rotated (registryFirstKey sample_rotated sound_key)"
  have "rw_keys ?w = [\<lparr> rk_key = sample_seed, rk_keyID = keyIDFor sample_crypto sample_seed \<rparr>,
        \<lparr> rk_key = sound_key, rk_keyID = keyIDFor sample_crypto sound_key \<rparr>]"
    using sample_rotation_walk by (auto simp: engineWalk_def Let_def split: option.splits if_splits)
  then show ?thesis
    using registry_keys_handed_on [of sample_crypto sample_rotated "registryFirstKey sample_rotated sound_key"]
    by (auto dest: spec [of _ 0])
qed


definition sample_writer :: registryWriter where
  "sample_writer = own_writer sample_crypto sample_seed"

definition sample_sealed :: bytes where
  "sample_sealed = canon (VObject (seal_record sample_crypto sample_writer ''s1'' 3 sample_time)) @ [CHR 0x0A]"

lemma sample_session: "requireSession ''s1''"
  by (simp add: requireSession_def sessionPattern_def is_name_char_def is_digit_def less_eq_char_def)

lemma sample_seal_run:
  "seal sample_crypto (fsLog_ops newFsLog) sample_writer ''s1'' 3 sample_time (LogAt []) =
     (Inr (seal_record sample_crypto sample_writer ''s1'' 3 sample_time), LogAt sample_sealed)"
  using sample_empty_walk sample_facts(1) sample_session
  by (simp add: seal_def fsLog_ops_def fsLog_readLog_def fsLog_appendRecord_def newFsLog_def Let_def
      sample_writer_def own_writer_def start_walk_def line_boundary_def sample_sealed_def)

lemma sample_sealed_walk:
  "\<exists>w. engineWalk sample_crypto sample_sealed sample_seed = Inr w \<and>
     rw_seals w ''s1'' = Some \<lparr> seal_session = ''s1'', seal_count = 3 \<rparr>"
proof -
  have "readLog (fsLog_ops newFsLog) 0 (LogAt []) = Inr []" by (simp add: fsLog_ops_def)
  from fs_log.seal_loads [OF sample_seal_run [unfolded sample_writer_def] this]
  show ?thesis
    using sample_facts
    by (auto simp: in_safe_range_def maxSafeInteger_def minSafeInteger_def fsLog_ops_def)
qed


text \<open>C20: Appending to a registry on a line of its own, whatever is appended, keeps every seal and
  every key a walk of it gives, in their order: an append can neither unseal a session, nor
  change the count it was sealed with, nor take back a rotation.\<close>

theorem registry_append_keeps:
  assumes "existing = [] \<or> last existing = CHR 0x0A \<or> t = [] \<or> hd t = CHR 0x0A"
  shows "rw_seals (walkRegistry C existing pinned) \<subseteq>\<^sub>m rw_seals (walkRegistry C (existing @ t) pinned) \<and>
    prefix (rw_order (walkRegistry C existing pinned)) (rw_order (walkRegistry C (existing @ t) pinned)) \<and>
    prefix (rw_keys (walkRegistry C existing pinned)) (rw_keys (walkRegistry C (existing @ t) pinned))"
  using walkRegistry_append [OF assms, of C pinned] by (simp add: walk_extends_def)

theorem registry_append_keeps_witness:
  "rw_seals (walkRegistry sample_crypto sample_sealed (registryFirstKey sample_sealed sample_seed))
     \<subseteq>\<^sub>m rw_seals (walkRegistry sample_crypto (sample_sealed @ ''{}'') (registryFirstKey sample_sealed sample_seed)) \<and>
   rw_seals (walkRegistry sample_crypto sample_sealed (registryFirstKey sample_sealed sample_seed)) \<noteq> Map.empty"
proof -
  have "last sample_sealed = CHR 0x0A" by (simp add: sample_sealed_def)
  then have "rw_seals (walkRegistry sample_crypto sample_sealed (registryFirstKey sample_sealed sample_seed))
     \<subseteq>\<^sub>m rw_seals (walkRegistry sample_crypto (sample_sealed @ ''{}'') (registryFirstKey sample_sealed sample_seed))"
    using registry_append_keeps [of sample_sealed "''{}''" sample_crypto "registryFirstKey sample_sealed sample_seed"]
    by simp
  then show ?thesis
    using sample_sealed_walk by (auto simp: engineWalk_def Let_def split: option.splits if_splits)
qed

section \<open>Sealing\<close>

text \<open>C18: When the gateway seals a session, its own reading of the registry afterwards holds: it
  has exactly one seal more, the session's with the count given, and the same keys; and every
  later attempt to seal the session, with whatever count, is refused and writes nothing.\<close>

theorem seal_reads_back:
  assumes "signs_ok C seed" and "in_safe_range n" and "valid_utf8 at"
    and "seal C (fsLog_ops l) (own_writer C seed) sid n at f = (Inr record, f')"
  shows "(\<exists>d d' w w'. f = LogAt d \<and> f' = LogAt d' \<and>
      engineWalk C d (ed_public C seed) = Inr w \<and> rw_seals w sid = None \<and>
      engineWalk C d' (ed_public C seed) = Inr w' \<and>
      rw_seals w' = (rw_seals w)(sid \<mapsto> \<lparr> seal_session = sid, seal_count = n \<rparr>) \<and> rw_keys w' = rw_keys w) \<and>
    (\<forall>l' n' at'. seal C (fsLog_ops l') (own_writer C seed) sid n' at' f' = (Inl SealAlreadySealed, f'))"
proof -
  from assms(4) obtain d where f: "f = LogAt d"
    by (cases f) (auto simp: seal_def fsLog_ops_def fsLog_readLog_def split: if_splits)
  have rd: "readLog (fsLog_ops l) 0 f = Inr d" by (simp add: fsLog_ops_def f)
  have rd': "readLog (fsLog_ops l') 0 g = readLog (fsLog_ops l) 0 g" for l' g by (simp add: fsLog_ops_def)
  from fs_log.seal_loads [OF assms(4) rd assms(1-3)] obtain w w' d' where
    *: "readLog (fsLog_ops l) 0 f' = Inr d'" "engineWalk C d (ed_public C seed) = Inr w"
    "rw_seals w sid = None" "engineWalk C d' (ed_public C seed) = Inr w'"
    "rw_seals w' = (rw_seals w)(sid \<mapsto> \<lparr> seal_session = sid, seal_count = n \<rparr>)" "rw_keys w' = rw_keys w"
    by blast
  have "requireSession sid" using assms(4) by (auto simp: seal_def split: if_splits)
  then have "seal C (fsLog_ops l') (own_writer C seed) sid n' at' f' = (Inl SealAlreadySealed, f')" for l' n' at'
    using * rd' [of l'] by (intro fs_log.seal_sealed_refused [where d = d']) (auto simp: own_writer_def)
  with * f show ?thesis by (fastforce simp: fsLog_ops_def)
qed

theorem seal_reads_back_witness:
  "\<exists>w. engineWalk sample_crypto sample_sealed sample_seed = Inr w \<and>
     rw_seals w ''s1'' = Some \<lparr> seal_session = ''s1'', seal_count = 3 \<rparr> \<and>
   seal sample_crypto (fsLog_ops newFsLog) sample_writer ''s1'' 1 sample_time (LogAt sample_sealed) =
     (Inl SealAlreadySealed, LogAt sample_sealed)"
  using seal_reads_back [OF _ _ _ sample_seal_run [unfolded sample_writer_def]] sample_facts
  by (auto simp: in_safe_range_def maxSafeInteger_def minSafeInteger_def sample_writer_def)

text \<open>C21: Whatever a seal answers, success or any failure, and however many bytes of its record
  reached the disk, the registry afterwards keeps every seal and every key it gave before, under
  whatever key it is walked from; and an answer other than success or ``may be written'' leaves
  the gateway's own reading unchanged, so that the session is not sealed behind its back.\<close>

theorem seal_failure_safe:
  assumes "seal C (fsLog_ops l) w sid n at (LogAt d) = (answer, f')"
  shows "\<exists>t. f' = LogAt (d @ t) \<and>
    rw_seals (walkRegistry C d pinned) \<subseteq>\<^sub>m rw_seals (walkRegistry C (d @ t) pinned) \<and>
    prefix (rw_keys (walkRegistry C d pinned)) (rw_keys (walkRegistry C (d @ t) pinned)) \<and>
    (isl answer \<and> (\<forall>e. answer \<noteq> Inl (SealMayBeWritten e)) \<longrightarrow>
       engineWalk C (d @ t) own = engineWalk C d own)"
proof -
  have rd: "readLog (fsLog_ops l) 0 (LogAt d) = Inr d" by (simp add: fsLog_ops_def)
  from fs_log.seal_extends [OF assms rd, of pinned] obtain t where
    t: "f' = LogAt (d @ t)" "walk_extends (walkRegistry C d pinned) (walkRegistry C (d @ t) pinned)"
    by (auto simp: fsLog_ops_def)
  moreover have "engineWalk C (d @ t) own = engineWalk C d own"
    if "isl answer" "\<forall>e. answer \<noteq> Inl (SealMayBeWritten e)"
  proof -
    from that obtain e where e: "answer = Inl e" "\<And>e'. e \<noteq> SealMayBeWritten e'" by (cases answer) auto
    from fs_log.seal_refused_unread [OF assms [unfolded e(1)] rd e(2), of own] t show ?thesis
      by (auto simp: fsLog_ops_def)
  qed
  ultimately show ?thesis by (auto simp: walk_extends_def)
qed

definition sample_broken_log :: fsLog where
  "sample_broken_log = newFsLog\<lparr> fl_write := (\<lambda>data. (7, False)) \<rparr>"

theorem seal_failure_safe_witness:
  "\<exists>e t. seal sample_crypto (fsLog_ops sample_broken_log) sample_writer ''s2'' 4 sample_time (LogAt sample_sealed) =
     (Inl (SealMayBeWritten e), LogAt (sample_sealed @ t)) \<and> se_written e = 7 \<and> length t = 7 \<and>
   rw_seals (walkRegistry sample_crypto sample_sealed sample_seed)
     \<subseteq>\<^sub>m rw_seals (walkRegistry sample_crypto (sample_sealed @ t) sample_seed)"
proof -
  obtain w where w: "engineWalk sample_crypto sample_sealed sample_seed = Inr w" and
    seals: "rw_seals w = [''s1'' \<mapsto> \<lparr> seal_session = ''s1'', seal_count = 3 \<rparr>]"
    using fs_log.seal_loads [OF sample_seal_run [unfolded sample_writer_def]] sample_facts sample_empty_walk
    by (auto simp: in_safe_range_def maxSafeInteger_def minSafeInteger_def fsLog_ops_def start_walk_def)
  have s2: "requireSession ''s2''"
    by (simp add: requireSession_def sessionPattern_def is_name_char_def is_digit_def less_eq_char_def)
  have last: "last sample_sealed = CHR 0x0A" by (simp add: sample_sealed_def)
  let ?rec = "canon (VObject (seal_record sample_crypto sample_writer ''s2'' 4 sample_time))"
  let ?e = "\<lparr> se_fault = FaultDurability, se_written = 7, se_committing = False \<rparr>"
  let ?t = "take 7 (?rec @ [CHR 0x0A])"
  have len: "length ?t = 7 \<and> length ?rec \<noteq> 6"
    by code_simp
  have run: "seal sample_crypto (fsLog_ops sample_broken_log) sample_writer ''s2'' 4 sample_time (LogAt sample_sealed) =
      (Inl (SealMayBeWritten ?e), LogAt (sample_sealed @ ?t))"
    using w seals s2 last sample_facts(1) len
    by (simp add: seal_def fsLog_ops_def fsLog_readLog_def fsLog_appendRecord_def sample_broken_log_def newFsLog_def
        Let_def line_boundary_def sample_writer_def own_writer_def)
  from seal_failure_safe [OF run, of sample_seed] len run show ?thesis by auto
qed

section \<open>Rotating\<close>

text \<open>C22: The record a rotation appends to a registry the gateway reads under its key hands that
  key on: the gateway of the next seed then reads the registry, with the same seals in the same
  order and the next key after the keys reached before, provided the next key passes the key rule
  and is none of those keys.\<close>

theorem rotation_hands_on:
  assumes "engineWalk C d (ed_public C seed) = Inr w"
    and "signs_ok C seed" and "signs_ok C nextSeed"
    and "publicKeyFault (ed_public C nextSeed) = KeySound"
    and "keyIDFor C (ed_public C nextSeed) \<notin> rk_keyID ` set (rw_keys w)"
    and "witnessTimeForm at" and "int (followed w + 1) \<le> maxRotation"
  shows "\<exists>w'. engineWalk C (d @ rotationRecord C d (followed w + 1) at seed nextSeed) (ed_public C nextSeed) = Inr w' \<and>
    rw_seals w' = rw_seals w \<and> rw_order w' = rw_order w \<and>
    rw_keys w' = rw_keys w @ [\<lparr> rk_key = ed_public C nextSeed, rk_keyID = keyIDFor C (ed_public C nextSeed) \<rparr>]"
  using engineWalk_rotated [OF assms] by simp

theorem rotation_hands_on_witness:
  "\<exists>w'. engineWalk sample_crypto sample_rotated sound_key = Inr w' \<and> rk_key (current w') = sound_key"
  using rotation_hands_on [where C = sample_crypto and d = "[]" and seed = sample_seed
      and nextSeed = sound_key and at = sample_time]
    sample_empty_walk sample_facts sound_key_sound
  by (auto simp: followed_def sample_rotated_def maxRotation_def maxSafeInteger_def start_walk_def current_def)




end
