(* ===== verification/Leases.thy ===== *)
theory Leases
  imports Store_FS Canon_Lines
begin

text \<open>
  Leases with fencing tokens (\<^verbatim>\<open>store_leases.go\<close>), kept as documents that compare and set.  A
  moment is a number of nanoseconds and an expiry a number of milliseconds, as the code keeps
  them; the clock's answer is an argument.  The lemmas are proved over any \<open>document_space\<close> and
  taken to the filesystem's.
\<close>

record lease =
  ls_name :: bytes
  ls_holder :: bytes
  ls_token :: int
  ls_expires :: int

definition leaseDocumentPrefix :: bytes where
  "leaseDocumentPrefix = ''lease-''"

definition ascii_lower :: "char \<Rightarrow> char" where
  "ascii_lower c = (if 65 \<le> byte c \<and> byte c \<le> 90 then char_of (byte c + 32) else c)"

definition leaseDocumentRefused :: "bytes \<Rightarrow> bool" where
  "leaseDocumentRefused name \<longleftrightarrow>
     length name \<ge> length leaseDocumentPrefix \<and>
     map ascii_lower (take (length leaseDocumentPrefix) name) = leaseDocumentPrefix"

definition reserved_putDocument ::
  "'s documentSpace \<Rightarrow> bytes \<Rightarrow> bytes \<Rightarrow> bytes \<Rightarrow> 's \<Rightarrow> (storeError + bytes) \<times> 's" where
  "reserved_putDocument D name data expected s =
     (if leaseDocumentRefused name then (Inl (storeFailure FaultRefused), s)
      else putDocument D name data expected s)"

definition reserved_deleteDocument ::
  "'s documentSpace \<Rightarrow> bytes \<Rightarrow> bytes \<Rightarrow> 's \<Rightarrow> (storeError + unit) \<times> 's" where
  "reserved_deleteDocument D name expected s =
     (if leaseDocumentRefused name then (Inl (storeFailure FaultRefused), s)
      else deleteDocument D name expected s)"

definition lease_key :: "bytes \<Rightarrow> bytes option" where
  "lease_key name =
     (if name = [] \<or> \<not> validStoreName (leaseDocumentPrefix @ name) then None
      else Some (leaseDocumentPrefix @ name))"

definition leaseRecord :: "bytes \<Rightarrow> int \<Rightarrow> int \<Rightarrow> bytes" where
  "leaseRecord holder token expires =
     canon (VObject (obj_set (obj_set (obj_set [] ''expires'' (VInt expires))
       ''holder'' (VString holder)) ''token'' (VInt token)))"

definition parseLeaseRecord :: "bytes \<Rightarrow> bytes \<Rightarrow> lease option" where
  "parseLeaseRecord name data = do {
     obj \<leftarrow> parse_object data;
     require (exactly_names obj [''expires'', ''holder'', ''token'']);
     holder \<leftarrow> memberString obj ''holder'';
     t \<leftarrow> member_int obj ''token'';
     e \<leftarrow> member_int obj ''expires'';
     require (\<not> (t < 1 \<or> e < 0));
     Some \<lparr> ls_name = name, ls_holder = holder, ls_token = t, ls_expires = e \<rparr> }"

text \<open>\<^verbatim>\<open>current\<close>: the name's record and the revision it is at, none for a name never granted.\<close>

definition lease_current :: "'s documentSpace \<Rightarrow> bytes \<Rightarrow> bytes \<Rightarrow> 's \<Rightarrow> storeError + (lease \<times> bytes) option" where
  "lease_current D key name s =
     (case getDocument D key s of
        Inl e \<Rightarrow> if se_fault e = FaultAbsent then Inr None else Inl e
      | Inr (data, revision) \<Rightarrow>
          (case parseLeaseRecord name data of
             None \<Rightarrow> Inl (storeFailure FaultUnreadable)
           | Some held \<Rightarrow> Inr (Some (held, revision))))"

definition unixMilli :: "int \<Rightarrow> int" where
  "unixMilli t = t div 1000000"

definition live :: "lease \<Rightarrow> int \<Rightarrow> bool" where
  "live held now \<longleftrightarrow> now < ls_expires held * 1000000"

definition acquireLease ::
  "'s documentSpace \<Rightarrow> int \<Rightarrow> bytes \<Rightarrow> bytes \<Rightarrow> int \<Rightarrow> 's \<Rightarrow> (storeError + lease) \<times> 's" where
  "acquireLease D now name holder ttl s =
     (case lease_key name of
        None \<Rightarrow> (Inl (storeFailure FaultRefused), s)
      | Some key \<Rightarrow>
          if holder = [] \<or> ttl < 1000000 then (Inl (storeFailure FaultRefused), s)
          else (case lease_current D key name s of
             Inl e \<Rightarrow> (Inl e, s)
           | Inr found \<Rightarrow>
               if (case found of Some (held, _) \<Rightarrow> live held now | None \<Rightarrow> False)
               then (Inl (storeFailure FaultLeaseHeld), s)
               else let token = (case found of Some (held, _) \<Rightarrow> ls_token held | None \<Rightarrow> 0) + 1;
                        revision = (case found of Some (_, r) \<Rightarrow> r | None \<Rightarrow> noRevision);
                        granted = \<lparr> ls_name = name, ls_holder = holder, ls_token = token,
                                    ls_expires = unixMilli (now + ttl) \<rparr>
                    in (case putDocument D key (leaseRecord holder token (ls_expires granted)) revision s of
                          (Inl e, s') \<Rightarrow>
                            (Inl (if se_fault e = FaultConflict then storeFailure FaultLeaseHeld else e), s')
                        | (Inr _, s') \<Rightarrow> (Inr granted, s'))))"

definition holding :: "'s documentSpace \<Rightarrow> int \<Rightarrow> lease \<Rightarrow> 's \<Rightarrow> storeError + bytes \<times> bytes" where
  "holding D now given s =
     (case lease_key (ls_name given) of
        None \<Rightarrow> Inl (storeFailure FaultRefused)
      | Some key \<Rightarrow>
          (case lease_current D key (ls_name given) s of
             Inl e \<Rightarrow> Inl e
           | Inr None \<Rightarrow> Inl (storeFailure FaultStaleFence)
           | Inr (Some (held, revision)) \<Rightarrow>
               if ls_token held \<noteq> ls_token given \<or> ls_holder held \<noteq> ls_holder given \<or> \<not> live held now
               then Inl (storeFailure FaultStaleFence)
               else Inr (key, revision)))"

definition renewLease :: "'s documentSpace \<Rightarrow> int \<Rightarrow> lease \<Rightarrow> int \<Rightarrow> 's \<Rightarrow> (storeError + lease) \<times> 's" where
  "renewLease D now given ttl s =
     (if ttl < 1000000 then (Inl (storeFailure FaultRefused), s)
      else case holding D now given s of
        Inl e \<Rightarrow> (Inl e, s)
      | Inr (key, revision) \<Rightarrow>
          let renewed = given\<lparr> ls_expires := unixMilli (now + ttl) \<rparr> in
          (case putDocument D key (leaseRecord (ls_holder given) (ls_token given) (ls_expires renewed)) revision s of
             (Inl e, s') \<Rightarrow> (Inl (if se_fault e = FaultConflict then storeFailure FaultStaleFence else e), s')
           | (Inr _, s') \<Rightarrow> (Inr renewed, s')))"

definition releaseLease :: "'s documentSpace \<Rightarrow> int \<Rightarrow> lease \<Rightarrow> 's \<Rightarrow> (storeError + unit) \<times> 's" where
  "releaseLease D now given s =
     (case holding D now given s of
        Inl e \<Rightarrow> (Inl e, s)
      | Inr (key, revision) \<Rightarrow>
          (case putDocument D key (leaseRecord (ls_holder given) (ls_token given) 0) revision s of
             (Inl e, s') \<Rightarrow> (Inl (if se_fault e = FaultConflict then storeFailure FaultStaleFence else e), s')
           | (Inr _, s') \<Rightarrow> (Inr (), s')))"

definition checkFence :: "'s documentSpace \<Rightarrow> int \<Rightarrow> bytes \<Rightarrow> int \<Rightarrow> 's \<Rightarrow> storeError + unit" where
  "checkFence D now name token s =
     (case lease_key name of
        None \<Rightarrow> Inl (storeFailure FaultRefused)
      | Some key \<Rightarrow>
          (case lease_current D key name s of
             Inl e \<Rightarrow> Inl e
           | Inr None \<Rightarrow> Inl (storeFailure FaultStaleFence)
           | Inr (Some (held, _)) \<Rightarrow>
               if ls_token held \<noteq> token \<or> \<not> live held now then Inl (storeFailure FaultStaleFence)
               else Inr ()))"

section \<open>The record of a lease\<close>

lemma leaseRecord_read:
  assumes "valid_utf8 holder" and "1 \<le> token" and "in_safe_range token"
    and "0 \<le> expires" and "in_safe_range expires"
  shows "parseLeaseRecord name (leaseRecord holder token expires) =
    Some \<lparr> ls_name = name, ls_holder = holder, ls_token = token, ls_expires = expires \<rparr>"
proof -
  define obj where "obj = [(''expires'', VInt expires), (''holder'', VString holder), (''token'', VInt token)]"
  have dist: "distinct (map fst obj)" by (simp add: obj_def)
  have "list_all (\<lambda>(n, v). valid_utf8 n \<and> flat_value v) obj"
    using assms by (simp add: obj_def valid_utf8_ascii)
  note wf = flat_object_wf [OF dist this]
  have "leaseRecord holder token expires = canon (VObject obj)" by (simp add: leaseRecord_def obj_def)
  with parse_object_canon [OF wf, of "[]"]
  have "parse_object (leaseRecord holder token expires) = Some (norm_members obj)" by simp
  moreover have "memberString obj ''holder'' = Some holder" "member_int obj ''token'' = Some token"
    "member_int obj ''expires'' = Some expires" "exactly_names obj [''expires'', ''holder'', ''token'']"
    by (simp_all add: obj_def memberString_def member_int_def obj_get_def exactly_names_def)
  ultimately show ?thesis
    using assms dist by (simp add: parseLeaseRecord_def)
qed

lemma lease_key_inject: "lease_key n = Some k \<Longrightarrow> lease_key m = Some k \<Longrightarrow> m = n"
  by (auto simp: lease_key_def split: if_splits)

lemma lease_key_refused:
  assumes "lease_key n = Some k"
  shows "leaseDocumentRefused k"
proof -
  have "map ascii_lower leaseDocumentPrefix = leaseDocumentPrefix"
    by (simp add: leaseDocumentPrefix_def ascii_lower_def)
  with assms show ?thesis
    by (auto simp: lease_key_def leaseDocumentRefused_def split: if_splits)
qed

text \<open>The token of the last grant of a name, 0 for a name never granted.\<close>

definition token_of :: "'s documentSpace \<Rightarrow> bytes \<Rightarrow> 's \<Rightarrow> int" where
  "token_of D name s =
     (case lease_key name of
        None \<Rightarrow> 0
      | Some key \<Rightarrow>
          (case lease_current D key name s of
             Inr (Some (held, _)) \<Rightarrow> ls_token held
           | _ \<Rightarrow> 0))"

definition lease_input :: "bytes \<Rightarrow> int \<Rightarrow> int \<Rightarrow> int \<Rightarrow> bool" where
  "lease_input holder now ttl token \<longleftrightarrow>
     valid_utf8 holder \<and> 0 \<le> now \<and> in_safe_range (unixMilli (now + ttl)) \<and> in_safe_range token"

lemma parseLeaseRecord_token: "parseLeaseRecord name data = Some l \<Longrightarrow> 1 \<le> ls_token l \<and> 0 \<le> ls_expires l"
  by (auto simp: parseLeaseRecord_def Option.bind_eq_Some_conv)

lemma lease_current_token: "lease_current D key name s = Inr (Some (l, r)) \<Longrightarrow> 1 \<le> ls_token l"
  by (auto simp: lease_current_def dest: parseLeaseRecord_token split: sum.splits prod.splits option.splits if_splits)

lemma token_of_nonneg: "0 \<le> token_of D name s"
  using lease_current_token
  by (auto simp: token_of_def split: option.splits sum.splits prod.splits) fastforce

lemma unixMilli_nonneg: "0 \<le> t \<Longrightarrow> 0 \<le> unixMilli t"
  by (simp add: unixMilli_def)

lemma acquire_cases:
  assumes "acquireLease D now name holder ttl s = (answer, s')"
  obtains (Refused) "s' = s" and "isl answer"
  | (Put) key r where "lease_key name = Some key" and "1000000 \<le> ttl"
      and "(case answer of Inr l \<Rightarrow> \<exists>r'. putDocument D key (leaseRecord holder (token_of D name s + 1) (unixMilli (now + ttl))) r s = (Inr r', s')
              \<and> l = \<lparr> ls_name = name, ls_holder = holder, ls_token = token_of D name s + 1, ls_expires = unixMilli (now + ttl) \<rparr>
            | Inl _ \<Rightarrow> \<exists>e. putDocument D key (leaseRecord holder (token_of D name s + 1) (unixMilli (now + ttl))) r s = (Inl e, s'))"
      and "\<And>l q. lease_current D key name s = Inr (Some (l, q)) \<Longrightarrow> \<not> live l now"
proof (cases "lease_key name")
  case None
  with assms Refused show thesis by (auto simp: acquireLease_def)
next
  case (Some key)
  show thesis
  proof (cases "lease_current D key name s")
    case (Inl e)
    with assms Some Refused show thesis by (auto simp: acquireLease_def split: if_splits)
  next
    case (Inr found)
    note c = this
    define r where "r = (case found of Some (_, r) \<Rightarrow> r | None \<Rightarrow> noRevision)"
    have tk: "token_of D name s = (case found of Some (held, _) \<Rightarrow> ls_token held | None \<Rightarrow> 0)"
      using Some c by (simp add: token_of_def split: option.splits)
    show thesis
    proof (cases "(holder = [] \<or> ttl < 1000000) \<or> (case found of Some (held, _) \<Rightarrow> live held now | None \<Rightarrow> False)")
      case True
      with assms Some c Refused show thesis by (auto simp: acquireLease_def split: if_splits)
    next
      case False
      show thesis
      proof (rule Put [OF Some, of r])
        show "1000000 \<le> ttl" using False by simp
        show "\<And>l q. lease_current D key name s = Inr (Some (l, q)) \<Longrightarrow> \<not> live l now"
          using False c by auto
      qed (use assms Some c False in \<open>auto simp: acquireLease_def tk r_def Let_def split: prod.splits sum.splits if_splits\<close>)
    qed
  qed
qed

section \<open>Leases over any document space\<close>

context document_space
begin

lemma current_after_put:
  assumes "putDocument D key (leaseRecord holder token expires) r s = (Inr r', s')" and "room key s"
    and "valid_utf8 holder" "1 \<le> token" "in_safe_range token" "0 \<le> expires" "in_safe_range expires"
  shows "lease_current D key name s' =
    Inr (Some (\<lparr> ls_name = name, ls_holder = holder, ls_token = token, ls_expires = expires \<rparr>, r'))"
  using put_get [OF assms(1,2)] leaseRecord_read [OF assms(3-7)] by (simp add: lease_current_def)

lemma current_unchanged: "getDocument D key s' = getDocument D key s \<Longrightarrow> lease_current D key name s' = lease_current D key name s"
  by (simp add: lease_current_def)

lemma token_unchanged:
  assumes "\<And>key. lease_key name = Some key \<Longrightarrow> getDocument D key s' = getDocument D key s"
  shows "token_of D name s' = token_of D name s"
proof (cases "lease_key name")
  case (Some key)
  with current_unchanged [OF assms] show ?thesis by (simp add: token_of_def)
qed (simp add: token_of_def)

text \<open>A grant: its token is the last one's plus one, and it is the name's current lease.\<close>

lemma acquire_grants:
  assumes "acquireLease D now name holder ttl s = (Inr l, s')"
    and "\<And>key. lease_key name = Some key \<Longrightarrow> room key s"
    and "lease_input holder now ttl (token_of D name s + 1)"
  shows "l = \<lparr> ls_name = name, ls_holder = holder, ls_token = token_of D name s + 1, ls_expires = unixMilli (now + ttl) \<rparr>"
    and "\<exists>key r. lease_key name = Some key \<and> lease_current D key name s' = Inr (Some (l, r)) \<and>
      (\<forall>old q. lease_current D key name s = Inr (Some (old, q)) \<longrightarrow> \<not> live old now)"
    and "token_of D name s' = ls_token l"
proof -
  from assms(1) obtain key r r' where key: "lease_key name = Some key" and ttl: "1000000 \<le> ttl"
    and put: "putDocument D key (leaseRecord holder (token_of D name s + 1) (unixMilli (now + ttl))) r s = (Inr r', s')"
    and l: "l = \<lparr> ls_name = name, ls_holder = holder, ls_token = token_of D name s + 1, ls_expires = unixMilli (now + ttl) \<rparr>"
    and dead: "\<And>l q. lease_current D key name s = Inr (Some (l, q)) \<Longrightarrow> \<not> live l now"
    by (cases rule: acquire_cases) auto
  have cur: "lease_current D key name s' = Inr (Some (l, r'))"
    using current_after_put [OF put] assms(2) [OF key] assms(3) ttl token_of_nonneg [of D name s]
    by (simp add: l lease_input_def unixMilli_nonneg)
  show "l = \<lparr> ls_name = name, ls_holder = holder, ls_token = token_of D name s + 1, ls_expires = unixMilli (now + ttl) \<rparr>"
    by (rule l)
  show "\<exists>key r. lease_key name = Some key \<and> lease_current D key name s' = Inr (Some (l, r)) \<and>
      (\<forall>old q. lease_current D key name s = Inr (Some (old, q)) \<longrightarrow> \<not> live old now)"
    using key cur dead by blast
  show "token_of D name s' = ls_token l" using key cur by (simp add: token_of_def)
qed

lemma checkFence_current:
  assumes "lease_key name = Some key" and "lease_current D key name s = Inr (Some (l, r))"
  shows "checkFence D now name t s = Inr () \<longleftrightarrow> t = ls_token l \<and> live l now"
  using assms by (auto simp: checkFence_def)

lemma acquire_held:
  assumes "lease_key name = Some key" and "lease_current D key name s = Inr (Some (l, r))" and "live l now"
  shows "\<exists>e. acquireLease D now name holder ttl s = (Inl e, s)"
  using assms by (auto simp: acquireLease_def)

lemma acquire_other_token:
  assumes "acquireLease D now n holder ttl s = (answer, s')" and "n \<noteq> name \<or> isl answer"
  shows "token_of D name s' = token_of D name s"
  using assms(1)
proof (cases rule: acquire_cases)
  case (Put key r)
  show ?thesis
  proof (rule token_unchanged)
    fix k assume k: "lease_key name = Some k"
    show "getDocument D k s' = getDocument D k s"
    proof (cases answer)
      case (Inl e)
      with Put(3) put_fails show ?thesis by auto
    next
      case (Inr l)
      with assms(2) have "n \<noteq> name" by simp
      then have "k \<noteq> key" using k Put(1) lease_key_inject by blast
      with Inr Put(3) put_others show ?thesis by auto
    qed
  qed
qed simp

lemma holding_key:
  "holding D now given s = Inr (key, r) \<Longrightarrow> lease_key (ls_name given) = Some key \<and>
     token_of D (ls_name given) s = ls_token given \<and> 1 \<le> ls_token given"
  by (auto simp: holding_def token_of_def dest: lease_current_token
      split: option.splits sum.splits prod.splits if_splits)

text \<open>A record written over one the writer held keeps its token.\<close>

lemma rewrite_token:
  assumes "holding D now given s = Inr (key, r)"
    and "putDocument D key (leaseRecord (ls_holder given) (ls_token given) expires) r s = (answer, s')"
    and "room key s" and "valid_utf8 (ls_holder given)" and "in_safe_range (ls_token given)"
    and "0 \<le> expires" and "in_safe_range expires"
  shows "token_of D name s' = token_of D name s"
proof (cases answer)
  case (Inl e)
  with assms(2) put_fails show ?thesis by (auto intro: token_unchanged)
next
  case (Inr r')
  note hk = holding_key [OF assms(1)]
  show ?thesis
  proof (cases "name = ls_name given")
    case True
    have "lease_current D key name s' =
        Inr (Some (\<lparr> ls_name = name, ls_holder = ls_holder given, ls_token = ls_token given, ls_expires = expires \<rparr>, r'))"
      by (rule current_after_put [OF assms(2) [unfolded Inr] assms(3,4) _ assms(5-7)]) (use hk in simp)
    then have "token_of D name s' = ls_token given" using True hk by (simp add: token_of_def)
    with True hk show ?thesis by simp
  next
    case False
    have "k \<noteq> key" if "lease_key name = Some k" for k
      using that hk False lease_key_inject by blast
    with assms(2) put_others show ?thesis by (auto intro: token_unchanged)
  qed
qed

end

section \<open>Runs of many holders\<close>

lemma sorted_wrt_le_last:
  assumes "sorted_wrt (<) xs"
  shows "\<forall>x \<in> set xs. x \<le> (last xs :: int)"
  using assms
proof (induction xs)
  case (Cons a xs)
  then show ?case by (cases "xs = []") (auto intro: less_imp_le)
qed simp

text \<open>A run of a document space: any interleaving of grants, renewals and releases of any lease by
  any holder at any time, and of puts and deletes by the other callers, who are given the space
  with the leases' documents reserved.  The list is the tokens granted of one name, in order.\<close>

inductive lease_run :: "'s documentSpace \<Rightarrow> (bytes \<Rightarrow> 's \<Rightarrow> bool) \<Rightarrow> bytes \<Rightarrow> 's \<Rightarrow> int list \<Rightarrow> 's \<Rightarrow> bool"
  for D room name s where
  start: "lease_run D room name s [] s"
| grant: "lease_run D room name s ts s1 \<Longrightarrow> acquireLease D now n holder ttl s1 = (Inr l, s2) \<Longrightarrow>
    (\<And>key. room key s1) \<Longrightarrow> lease_input holder now ttl (token_of D n s1 + 1) \<Longrightarrow>
    lease_run D room name s (if n = name then ts @ [ls_token l] else ts) s2"
| refused: "lease_run D room name s ts s1 \<Longrightarrow> acquireLease D now n holder ttl s1 = (Inl e, s2) \<Longrightarrow>
    lease_run D room name s ts s2"
| renew: "lease_run D room name s ts s1 \<Longrightarrow> renewLease D now given ttl s1 = (answer, s2) \<Longrightarrow>
    (\<And>key. room key s1) \<Longrightarrow> lease_input (ls_holder given) now ttl (ls_token given) \<Longrightarrow>
    lease_run D room name s ts s2"
| release: "lease_run D room name s ts s1 \<Longrightarrow> releaseLease D now given s1 = (answer', s2) \<Longrightarrow>
    (\<And>key. room key s1) \<Longrightarrow> lease_input (ls_holder given) now 0 (ls_token given) \<Longrightarrow>
    lease_run D room name s ts s2"
| put: "lease_run D room name s ts s1 \<Longrightarrow> reserved_putDocument D n data r s1 = (answer'', s2) \<Longrightarrow>
    lease_run D room name s ts s2"
| delete: "lease_run D room name s ts s1 \<Longrightarrow> reserved_deleteDocument D n r s1 = (answer', s2) \<Longrightarrow>
    lease_run D room name s ts s2"

context document_space
begin

lemma renew_token:
  assumes "renewLease D now given ttl s = (answer, s')" and "\<And>key. room key s"
    and "lease_input (ls_holder given) now ttl (ls_token given)"
  shows "token_of D name s' = token_of D name s"
proof (cases "ttl < 1000000 \<or> (\<exists>e. holding D now given s = Inl e)")
  case True
  with assms(1) show ?thesis by (auto simp: renewLease_def split: if_splits)
next
  case False
  then obtain key r where h: "holding D now given s = Inr (key, r)" by (cases "holding D now given s") auto
  obtain a where "putDocument D key (leaseRecord (ls_holder given) (ls_token given) (unixMilli (now + ttl))) r s = (a, s')"
    using assms(1) False h
    by (auto simp: renewLease_def Let_def split: prod.splits sum.splits)
  with h assms(2,3) False show ?thesis
    by (intro rewrite_token) (auto simp: lease_input_def unixMilli_nonneg)
qed

lemma release_token:
  assumes "releaseLease D now given s = (answer, s')" and "\<And>key. room key s"
    and "lease_input (ls_holder given) now 0 (ls_token given)"
  shows "token_of D name s' = token_of D name s"
proof (cases "holding D now given s")
  case (Inl e)
  with assms(1) show ?thesis by (simp add: releaseLease_def)
next
  case (Inr kr)
  then obtain key r where h: "holding D now given s = Inr (key, r)" by (cases kr) auto
  obtain a where "putDocument D key (leaseRecord (ls_holder given) (ls_token given) 0) r s = (a, s')"
    using assms(1) h by (auto simp: releaseLease_def split: prod.splits sum.splits)
  with h assms(2,3) show ?thesis
    by (intro rewrite_token) (auto simp: lease_input_def in_safe_range_def maxSafeInteger_def minSafeInteger_def)
qed

lemma reserved_token:
  assumes "reserved_putDocument D n data r s = (answer, s') \<or> reserved_deleteDocument D n r s = (answer', s')"
  shows "token_of D name s' = token_of D name s"
proof (rule token_unchanged)
  fix key assume "lease_key name = Some key"
  then have "leaseDocumentRefused key" by (rule lease_key_refused)
  with assms put_others [of n data r s answer s' key] delete_others [of n r s answer' s' key]
  show "getDocument D key s' = getDocument D key s"
    by (auto simp: reserved_putDocument_def reserved_deleteDocument_def split: if_splits)
qed

text \<open>Along every run the tokens granted of a name only grow, and the name's record carries the
  last of them.\<close>

lemma run_tokens:
  assumes "lease_run D room name s ts s'"
  shows "sorted_wrt (<) (token_of D name s # ts) \<and> token_of D name s' = last (token_of D name s # ts)"
  using assms
proof (induction rule: lease_run.induct)
  case start
  then show ?case by simp
next
  case (grant ts s1 now n holder ttl l s2)
  show ?case
  proof (cases "n = name")
    case True
    have tok: "ls_token l = token_of D name s1 + 1" "token_of D name s2 = ls_token l"
      using acquire_grants [OF grant(2) grant(3) grant(4)] True by simp_all
    have "\<forall>t \<in> set (token_of D name s # ts). t \<le> token_of D name s1"
      using grant(5) sorted_wrt_le_last [of "token_of D name s # ts"] by simp
    with grant(5) True tok show ?thesis by (auto simp: sorted_wrt_append)
  next
    case False
    then have "token_of D name s2 = token_of D name s1"
      using acquire_other_token [OF grant(2), of name] by simp
    with grant(5) False show ?thesis by simp
  qed
next
  case (refused ts s1 now n holder ttl e s2)
  then show ?case using acquire_other_token [OF refused(2), of name] by simp
next
  case (renew ts s1 now given ttl answer s2)
  then show ?case using renew_token [OF renew(2) renew(3) renew(4), of name] by simp
next
  case (release ts s1 now given answer' s2)
  then show ?case using release_token [OF release(2) release(3) release(4), of name] by simp
next
  case (put ts s1 n data r answer'' s2)
  then show ?case using reserved_token [of n data r s1 answer'' s2 undefined name] by simp
next
  case (delete ts s1 n r answer' s2)
  then show ?case using reserved_token [of n undefined r s1 undefined s2 answer' name] by simp
qed

end

end
