(* ===== verification/Store_Claims.thy ===== *)
theory Store_Claims
  imports Store Leases
begin

text \<open>
  The properties of the receipts, the documents and the leases kept by the filesystem kind.
\<close>

section \<open>Receipts\<close>

lemma stamp_cases:
  assumes "stampInto C X st core s = (answer, s')"
  obtains (Early) "s' = s" and "isl answer"
  | (Series) sid a where "requireSession sid" and "makeSeries X sid s = (a, s')" and "isl answer"
  | (Create) sid a s1 i a' where "requireSession sid"
      and "makeSeries X sid s = (a, s1)"
      and "obj_get core ''sessionId'' = Some (VString sid)" and "obj_get core ''callIndex'' = Some (VInt i)"
      and "createIndexed X sid i (canon (VObject (obj_set (stamp_core st core) ''signature''
             (VString (stamp_signature C st (stamp_core st core))))) @ [CHR 0x0A]) s1 = (a', s')"
      and "isl a' = isl answer"
      and "\<not> isl answer \<Longrightarrow> \<exists>made. answer = Inr (obj_set (stamp_core st core) ''signature''
             (VString (stamp_signature C st (stamp_core st core))), stamp_signature C st (stamp_core st core), made)"
proof (cases "\<exists>sid. obj_get core ''sessionId'' = Some (VString sid) \<and> requireSession sid")
  case False
  with assms Early show thesis
    by (auto simp: stampInto_def split: option.splits jvalue.splits if_splits)
next
  case True
  then obtain sid where sid: "obj_get core ''sessionId'' = Some (VString sid)" "requireSession sid" by blast
  obtain a s1 where mk: "makeSeries X sid s = (a, s1)" by fastforce
  show thesis
  proof (cases "isl a \<or> (\<nexists>i. obj_get core ''callIndex'' = Some (VInt i) \<and> minSafeInteger \<le> i \<and> i \<le> maxSafeInteger)")
    case True
    with assms sid mk Series [OF sid(2), of a] show thesis
      by (auto simp: stampInto_def split: option.splits jvalue.splits if_splits sum.splits)
  next
    case False
    then obtain m i where a: "a = Inr m" and i: "obj_get core ''callIndex'' = Some (VInt i)"
      "minSafeInteger \<le> i" "i \<le> maxSafeInteger" by (cases a) auto
    obtain a' s2 where cr: "createIndexed X sid i (canon (VObject (obj_set (stamp_core st core) ''signature''
        (VString (stamp_signature C st (stamp_core st core))))) @ [CHR 0x0A]) s1 = (a', s2)" by fastforce
    show thesis
      by (rule Create [OF sid(2) mk sid(1) i(1), of a'])
        (use assms sid mk a i cr in \<open>auto simp: stampInto_def Let_def split: sum.splits\<close>)
  qed
qed

text \<open>C19: The receipts are append-only.  Whatever a stamp answers, every entry that could be read
  before is read the same after it.  When it answers a receipt, the entry at the receipt's session
  and index is that receipt's canonical bytes and a newline, and every later stamp of a core with
  the same session and index is refused, whatever else it holds and whatever the disk answers.\<close>

theorem stamp_append_only:
  assumes "stampInto C (fsIndexed_ops x) st core s = (answer, s')"
  shows "(getEntry (fsIndexed_ops x) sid' entry s = Inr d \<longrightarrow> getEntry (fsIndexed_ops x) sid' entry s' = Inr d) \<and>
    (\<forall>stored sg made. answer = Inr (stored, sg, made) \<longrightarrow>
       (\<exists>sid i. obj_get core ''sessionId'' = Some (VString sid) \<and> obj_get core ''callIndex'' = Some (VInt i) \<and>
          getEntry (fsIndexed_ops x) sid (format_int i) s' = Inr (canon (VObject stored) @ [CHR 0x0A]) \<and>
          (\<forall>C' st' core'. obj_get core' ''sessionId'' = Some (VString sid) \<and>
             obj_get core' ''callIndex'' = Some (VInt i) \<longrightarrow>
             isl (fst (stampInto C' (fsIndexed_ops x) st' core' s')))))"
  using assms
proof (cases rule: stamp_cases)
  case (Create sid a s1 i a')
  have keep: "getEntry (fsIndexed_ops x) sid' entry s = Inr d \<Longrightarrow> getEntry (fsIndexed_ops x) sid' entry s' = Inr d"
    using fs_indexed.make_entries [OF Create(2)] fs_indexed.create_entries [OF Create(5)] by blast
  have again: "isl (fst (stampInto C' (fsIndexed_ops x) st' core' s'))"
    if got: "getEntry (fsIndexed_ops x) sid (format_int i) s' = Inr b"
      and core': "obj_get core' ''sessionId'' = Some (VString sid)" "obj_get core' ''callIndex'' = Some (VInt i)"
    for C' st' core' b
  proof -
    obtain answer' s'' where run: "stampInto C' (fsIndexed_ops x) st' core' s' = (answer', s'')" by fastforce
    then show ?thesis
    proof (cases rule: stamp_cases)
      case create: (Create sid2 b1 s2 i2 b2)
      with core' have same: "sid2 = sid" "i2 = i" by auto
      have "getEntry (fsIndexed_ops x) sid (format_int i) s2 = Inr b"
        using fs_indexed.make_entries [OF create(2) got] .
      with same have "\<exists>e. createIndexed (fsIndexed_ops x) sid2 i2 dd s2 = (Inl e, s2)" for dd
        using fs_indexed.create_once [OF requireSession_plain [OF create(1)], of x i2 s2 b dd] by simp
      then have "isl b2" using create(5) by (metis fst_conv isl_def)
      with create(6) run show ?thesis by simp
    qed (use run in simp_all)
  qed
  show ?thesis
  proof (cases a')
    case (Inl e)
    with Create(6) keep show ?thesis by (cases answer) auto
  next
    case (Inr u)
    with Create(6,7) obtain made where ans: "answer = Inr (obj_set (stamp_core st core) ''signature''
        (VString (stamp_signature C st (stamp_core st core))), stamp_signature C st (stamp_core st core), made)" by auto
    have "getEntry (fsIndexed_ops x) sid (format_int i) s' =
        Inr (canon (VObject (obj_set (stamp_core st core) ''signature''
        (VString (stamp_signature C st (stamp_core st core))))) @ [CHR 0x0A])"
      using fs_indexed.create_entry [OF requireSession_plain [OF Create(1)]] Create(5) Inr by blast
    with keep again ans Create(3,4) show ?thesis by fastforce
  qed
next
  case (Series sid a)
  with fs_indexed.make_entries show ?thesis by auto
qed auto

definition sample_receipts :: fsIndexed where
  "sample_receipts = \<lparr> fsi_root = [''store'', ''receipts''], fsi_env = os_fine, fsi_mkroot = True, fsi_mkdir = True \<rparr>"

definition sample_store :: store where
  "sample_store = newStoreOn sample_crypto (replicate 32 (CHR ''A'')) ''authority''"

definition sample_core :: "int \<Rightarrow> members" where
  "sample_core i = [(''receiptVersion'', VString ''2''), (''sessionId'', VString ''s1''), (''callIndex'', VInt i)]"

theorem stamp_append_only_witness:
  "\<exists>b. getEntry (fsIndexed_ops sample_receipts) ''s1'' ''0''
      (snd (stampInto sample_crypto (fsIndexed_ops sample_receipts) sample_store (sample_core 0) [])) = Inr b \<and>
   getEntry (fsIndexed_ops sample_receipts) ''s1'' ''0''
      (snd (stampInto sample_crypto (fsIndexed_ops sample_receipts) sample_store (sample_core 1)
        (snd (stampInto sample_crypto (fsIndexed_ops sample_receipts) sample_store (sample_core 0) [])))) = Inr b \<and>
   isl (fst (stampInto sample_crypto (fsIndexed_ops sample_receipts) sample_store (sample_core 0)
        (snd (stampInto sample_crypto (fsIndexed_ops sample_receipts) sample_store (sample_core 0) []))))"
proof -
  define X where "X = fsIndexed_ops sample_receipts"
  obtain answer s1 where run: "stampInto sample_crypto X sample_store (sample_core 0) [] = (answer, s1)" by fastforce
  have fm: "format_int 0 = ''0''" by code_simp
  have ok: "requireSession ''s1''" by code_simp
  have "\<not> isl answer"
  proof -
    have sd: "seriesDir sample_receipts ''s1'' = Some ''s1''"
      by (rule seriesDir_plain) (use requireSession_plain [OF ok] in simp)
    have "\<not> isl (fst (stampInto sample_crypto X sample_store (sample_core 0) []))"
      by (simp add: stampInto_def X_def fsIndexed_ops_def fsIndexed_makeSeries_def fsIndexed_createIndexed_def sd ok
          sample_core_def obj_get_def maxSafeInteger_def minSafeInteger_def Let_def fsWriteFile_fine)
        (simp add: sample_receipts_def fsWriteFile_fine)
    then show ?thesis using run by simp
  qed
  then obtain stored sg made where ans: "answer = Inr (stored, sg, made)" by (cases answer) auto
  note app = stamp_append_only [OF run [unfolded X_def]]
  have idx: "obj_get (sample_core 0) ''sessionId'' = Some (VString ''s1'')"
    "obj_get (sample_core 0) ''callIndex'' = Some (VInt 0)" by (simp_all add: sample_core_def obj_get_def)
  have got: "getEntry X ''s1'' ''0'' s1 = Inr (canon (VObject stored) @ [CHR 0x0A])"
    "isl (fst (stampInto sample_crypto X sample_store (sample_core 0) s1))"
    using app ans idx fm by (auto simp: X_def)
  obtain answer2 s2 where run2: "stampInto sample_crypto X sample_store (sample_core 1) s1 = (answer2, s2)" by fastforce
  from stamp_append_only [OF run2 [unfolded X_def]] got(1)
  have "getEntry X ''s1'' ''0'' s2 = Inr (canon (VObject stored) @ [CHR 0x0A])" by (auto simp: X_def)
  with got run run2 show ?thesis unfolding X_def [symmetric] by simp
qed

section \<open>Documents and leases\<close>


definition sample_documents :: fsDocuments where
  "sample_documents = \<lparr> fsd_kept = True, fsd_env = os_fine, fsd_mkdir = True, fsd_truncates = True \<rparr>"



definition sample_leased :: "doc_dirs \<Rightarrow> int \<Rightarrow> bytes \<Rightarrow> doc_dirs" where
  "sample_leased s now holder =
     snd (acquireLease (fsDocuments_ops sample_documents) now ''job'' holder 5000000 s)"

lemma sample_grants:
  "fst (acquireLease (fsDocuments_ops sample_documents) 0 ''job'' ''a'' 5000000 []) =
     Inr \<lparr> ls_name = ''job'', ls_holder = ''a'', ls_token = 1, ls_expires = 5 \<rparr>"
  "fst (acquireLease (fsDocuments_ops sample_documents) 6000000 ''job'' ''b'' 5000000 (sample_leased [] 0 ''a'')) =
     Inr \<lparr> ls_name = ''job'', ls_holder = ''b'', ls_token = 2, ls_expires = 11 \<rparr>"
  "token_of (fsDocuments_ops sample_documents) ''job'' [] = 0"
  "token_of (fsDocuments_ops sample_documents) ''job'' (sample_leased [] 0 ''a'') = 1"
  by code_simp+

lemma doc_room_all:
  assumes "list_all (\<lambda>(n, dir). Suc (newest dir) < 10 ^ 15) s"
  shows "doc_room key s"
proof (cases "map_of s key")
  case (Some dir)
  with assms show ?thesis by (auto simp: doc_room_def doc_files_def list_all_iff dest!: map_of_SomeD)
qed (simp add: doc_room_def doc_files_def newest_def List.map_filter_def)


text \<open>C29: A lease is exclusive while it lives.  After a grant, the fence admits exactly the
  grant's token until the lease expires and no token after; nobody is granted the name before
  then; and the token is greater than every token the name had.\<close>

theorem lease_exclusive:
  assumes "acquireLease (fsDocuments_ops d) now name holder ttl s = (Inr l, s')"
    and "\<And>key. doc_room key s" and "lease_input holder now ttl (token_of (fsDocuments_ops d) name s + 1)"
  shows "ls_token l > token_of (fsDocuments_ops d) name s \<and>
    (checkFence (fsDocuments_ops d) now' name t s' = Inr () \<longleftrightarrow>
       t = ls_token l \<and> now' < unixMilli (now + ttl) * 1000000) \<and>
    (now' < unixMilli (now + ttl) * 1000000 \<longrightarrow>
       (\<exists>e. acquireLease (fsDocuments_ops d) now' name holder' ttl' s' = (Inl e, s')))"
proof -
  note g = fs_documents.acquire_grants [OF assms(1) assms(2) assms(3)]
  from g(2) obtain key r where key: "lease_key name = Some key"
    and cur: "lease_current (fsDocuments_ops d) key name s' = Inr (Some (l, r))" by blast
  have lv: "live l now' \<longleftrightarrow> now' < unixMilli (now + ttl) * 1000000" using g(1) by (simp add: live_def)
  show ?thesis
    using g(1) fs_documents.checkFence_current [OF key cur, of now' t]
      fs_documents.acquire_held [OF key cur, of now' holder' ttl'] lv
    by simp
qed

theorem lease_exclusive_witness:
  "checkFence (fsDocuments_ops sample_documents) 4000000 ''job'' 1 (sample_leased [] 0 ''a'') = Inr () \<and>
   (\<exists>e. acquireLease (fsDocuments_ops sample_documents) 4000000 ''job'' ''b'' 5000000 (sample_leased [] 0 ''a'') =
      (Inl e, sample_leased [] 0 ''a''))"
proof -
  have room: "doc_room key []" for key by (rule doc_room_all, code_simp)
  have inp: "lease_input ''a'' 0 5000000 (token_of (fsDocuments_ops sample_documents) ''job'' [] + 1)"
    unfolding sample_grants
    by (simp add: lease_input_def valid_utf8_ascii unixMilli_def in_safe_range_def maxSafeInteger_def minSafeInteger_def)
  have a1: "acquireLease (fsDocuments_ops sample_documents) 0 ''job'' ''a'' 5000000 [] =
      (Inr \<lparr> ls_name = ''job'', ls_holder = ''a'', ls_token = 1, ls_expires = 5 \<rparr>, sample_leased [] 0 ''a'')"
    using sample_grants(1) by (metis prod.collapse sample_leased_def)
  from lease_exclusive [OF a1 room inp, of 4000000 1 "''b''" 5000000] show ?thesis
    by (simp add: unixMilli_def)
qed

end
