(* ===== verification/Endpoints.thy ===== *)
theory Endpoints
  imports Keys Utf8
begin

text \<open>
  The forms of addresses and times a receipt is held to: the endpoint of a remote server
  (\<^verbatim>\<open>remote_acquisition.go\<close>), the origin of a witness (\<^verbatim>\<open>witness_named.go\<close>) and the time of a
  delegation (\<^verbatim>\<open>delegation_statement.go\<close>).  The IPv6 text form is the one \<^verbatim>\<open>net/netip\<close> reads, a
  group at a time; a time is its date and clock fields, of a date that exists.
\<close>

section \<open>Text\<close>

text \<open>\<^verbatim>\<open>strings.Cut\<close> at a byte, and the cut at the last one.\<close>

definition cut_at :: "char \<Rightarrow> bytes \<Rightarrow> bytes \<times> bytes \<times> bool" where
  "cut_at c s = (takeWhile (\<lambda>d. d \<noteq> c) s, drop 1 (dropWhile (\<lambda>d. d \<noteq> c) s), c \<in> set s)"

definition cut_last :: "char \<Rightarrow> bytes \<Rightarrow> (bytes \<times> bytes) option" where
  "cut_last c s =
     (if c \<in> set s
      then Some (rev (drop 1 (dropWhile (\<lambda>d. d \<noteq> c) (rev s))), rev (takeWhile (\<lambda>d. d \<noteq> c) (rev s)))
      else None)"

definition isHexDigit :: "char \<Rightarrow> bool" where
  "isHexDigit c \<longleftrightarrow> is_digit c \<or> 97 \<le> byte c \<and> byte c \<le> 102 \<or> 65 \<le> byte c \<and> byte c \<le> 70"

definition is_lower :: "char \<Rightarrow> bool" where
  "is_lower c \<longleftrightarrow> 97 \<le> byte c \<and> byte c \<le> 122"

definition is_upper :: "char \<Rightarrow> bool" where
  "is_upper c \<longleftrightarrow> 65 \<le> byte c \<and> byte c \<le> 90"

definition decimal :: "bytes \<Rightarrow> nat" where
  "decimal s = (case parse_digits 0 s of Some n \<Rightarrow> n | None \<Rightarrow> 0)"

section \<open>Internet addresses\<close>

definition is_octet :: "bytes \<Rightarrow> bool" where
  "is_octet p \<longleftrightarrow>
     p \<noteq> [] \<and> list_all is_digit p \<and> (hd p = CHR ''0'' \<longrightarrow> length p = 1) \<and> decimal p \<le> 255"

definition is_dotted :: "bytes \<Rightarrow> bool" where
  "is_dotted s \<longleftrightarrow> length (split_on CHR ''.'' s) = 4 \<and> list_all is_octet (split_on CHR ''.'' s)"

text \<open>The end of an IPv6 text: with groups left over there was a \<open>::\<close>, and with none there was
  not.\<close>

definition ipv6_end :: "nat \<Rightarrow> bool \<Rightarrow> bool" where
  "ipv6_end left ellipsis \<longleftrightarrow> (if left = 0 then \<not> ellipsis else ellipsis)"

fun ipv6_groups :: "nat \<Rightarrow> bool \<Rightarrow> bytes \<Rightarrow> bool" where
  "ipv6_groups 0 ellipsis s = (s = [] \<and> \<not> ellipsis)"
| "ipv6_groups (Suc left) ellipsis s =
     (let digits = takeWhile isHexDigit s; rest = dropWhile isHexDigit s in
      if digits = [] \<or> length digits > 4 then False
      else case rest of
        [] \<Rightarrow> ipv6_end left ellipsis
      | c # after \<Rightarrow>
          if c = CHR ''.'' then
            (ellipsis \<or> left = 1) \<and> 1 \<le> left \<and> is_dotted s \<and> ipv6_end (left - 1) ellipsis
          else if c \<noteq> CHR '':'' \<or> after = [] then False
          else if hd after = CHR '':'' then
            \<not> ellipsis \<and> (if tl after = [] then ipv6_end left True else ipv6_groups left True (tl after))
          else ipv6_groups left ellipsis after)"

definition ipv6_text :: "bytes \<Rightarrow> bool" where
  "ipv6_text s =
     (if take 2 s = ''::'' then (if drop 2 s = [] then True else ipv6_groups 8 True (drop 2 s))
      else ipv6_groups 8 False s)"

text \<open>\<^verbatim>\<open>netip.ParseAddr\<close> reads an IPv6 address when a colon comes before any dot; a zone is
  refused.\<close>

definition isIPv6Address :: "bytes \<Rightarrow> bool" where
  "isIPv6Address s \<longleftrightarrow>
     take 1 (dropWhile (\<lambda>c. c \<noteq> CHR ''.'' \<and> c \<noteq> CHR '':'' \<and> c \<noteq> CHR ''%'') s) = '':'' \<and>
     CHR ''%'' \<notin> set s \<and> ipv6_text s"

definition isIPv6Literal :: "bytes \<Rightarrow> bool" where
  "isIPv6Literal s \<longleftrightarrow> isIPv6Address s"

definition originPort :: "bytes \<Rightarrow> bool" where
  "originPort s =
     (case s of [] \<Rightarrow> False
      | c # cs \<Rightarrow> is_digit c \<and> c \<noteq> CHR ''0'' \<and> length cs \<le> 4 \<and> list_all is_digit cs)"

definition originName :: "bytes \<Rightarrow> bool" where
  "originName s =
     list_all (\<lambda>l. l \<noteq> [] \<and> list_all (\<lambda>c. is_lower c \<or> is_digit c \<or> c = CHR ''-'') l) (split_on CHR ''.'' s)"

text \<open>The contents of a host in brackets, of the bytes given.\<close>

definition bracketed :: "(char \<Rightarrow> bool) \<Rightarrow> bytes \<Rightarrow> bool" where
  "bracketed P s \<longleftrightarrow>
     length s > 2 \<and> hd s = CHR ''['' \<and> last s = CHR '']'' \<and> list_all P (tl (butlast s))"

definition originIPv6 :: "bytes \<Rightarrow> bool" where
  "originIPv6 s = bracketed (\<lambda>c. is_lower_hex c \<or> c = CHR '':'') s"

definition originIPv4 :: "bytes \<Rightarrow> bytes list option" where
  "originIPv4 s =
     (let parts = split_on CHR ''.'' s in
      if length parts = 4 \<and>
         list_all (\<lambda>p. p \<noteq> [] \<and> length p \<le> 3 \<and> list_all is_digit p \<and> (hd p = CHR ''0'' \<longrightarrow> length p = 1)) parts
      then Some parts else None)"

definition isLoopbackHost :: "bytes \<Rightarrow> bool" where
  "isLoopbackHost host =
     (if host = ''[::1]'' then True
      else case originIPv4 host of
        None \<Rightarrow> False
      | Some parts \<Rightarrow> hd parts = ''127'' \<and> list_all (\<lambda>p. decimal p \<le> 255) (tl parts))"

section \<open>The origin of a witness\<close>

definition maxWitnessOrigin :: nat where
  "maxWitnessOrigin = 2048"

text \<open>The scheme of an address and what follows it: whether it is \<^verbatim>\<open>https\<close>.\<close>

definition cut_scheme :: "bytes \<Rightarrow> (bytes \<times> bool) option" where
  "cut_scheme s =
     (case cut_prefix ''https://'' s of
        Some rest \<Rightarrow> Some (rest, True)
      | None \<Rightarrow> map_option (\<lambda>rest. (rest, False)) (cut_prefix ''http://'' s))"

definition isWitnessOrigin :: "bytes \<Rightarrow> bool" where
  "isWitnessOrigin s =
     (if length s > maxWitnessOrigin then False
      else case cut_scheme s of
        None \<Rightarrow> False
      | Some (rest, secure) \<Rightarrow>
          (case cut_last CHR '':'' rest of
             None \<Rightarrow> False
           | Some (host, port) \<Rightarrow>
               if \<not> originPort port then False
               else if decimal port > 65535 then False
               else if \<not> secure then isLoopbackHost host
               else if originName host then True
               else originIPv6 host \<and> isIPv6Literal (tl (butlast host))))"

section \<open>The endpoint of a remote server\<close>

definition maxRemoteEndpoint :: nat where
  "maxRemoteEndpoint = 2048"

definition endpointName :: "bytes \<Rightarrow> bool" where
  "endpointName s \<longleftrightarrow>
     s \<noteq> [] \<and> list_all (\<lambda>c. is_upper c \<or> is_lower c \<or> is_digit c \<or>
       c = CHR ''.'' \<or> c = CHR ''_'' \<or> c = CHR ''-'') s"

definition endpointBracketed :: "bytes \<Rightarrow> bool" where
  "endpointBracketed s = bracketed (\<lambda>c. isHexDigit c \<or> c = CHR '':'' \<or> c = CHR ''.'') s"

text \<open>The host and, when there is one, the port; \<open>None\<close> when the authority is refused.\<close>

definition endpointAuthority :: "bytes \<Rightarrow> (bytes \<times> bytes option) option" where
  "endpointAuthority authority =
     (if take 1 authority \<noteq> ''['' then
        (case cut_at CHR '':'' authority of
           (host, port, hasPort) \<Rightarrow> Some (host, if hasPort then Some port else None))
      else if CHR '']'' \<notin> set authority then None
      else
        (let host = takeWhile (\<lambda>c. c \<noteq> CHR '']'') authority @ '']'';
             rest = drop (length host) authority
         in if rest = [] then Some (host, None)
            else map_option (\<lambda>port. (host, Some port)) (cut_prefix '':'' rest)))"

definition isEndpointPort :: "bytes \<Rightarrow> bool" where
  "isEndpointPort port \<longleftrightarrow> originPort port \<and> decimal port \<le> 65535"

fun isEndpointPath :: "bytes \<Rightarrow> bool" where
  "isEndpointPath [] = True"
| "isEndpointPath (c # cs) =
     ((c = CHR ''%'' \<longrightarrow> length cs \<ge> 2 \<and> isHexDigit (cs ! 0) \<and> isHexDigit (cs ! 1)) \<and> isEndpointPath cs)"

definition isRemoteEndpoint :: "bytes \<Rightarrow> bool" where
  "isRemoteEndpoint s =
     (if length s > maxRemoteEndpoint then False
      else if \<not> list_all (\<lambda>c. 0x21 \<le> byte c \<and> byte c \<le> 0x7e) s then False
      else if CHR ''?'' \<in> set s \<or> CHR ''#'' \<in> set s then False
      else case cut_scheme s of
        None \<Rightarrow> False
      | Some (rest, secure) \<Rightarrow>
          (case cut_at CHR ''/'' rest of
             (authority, path, _) \<Rightarrow>
               (case endpointAuthority authority of
                  None \<Rightarrow> False
                | Some (host, port) \<Rightarrow>
                    if host = [] then False
                    else if \<not> endpointName host \<and> \<not> endpointBracketed host then False
                    else if endpointBracketed host \<and> \<not> isIPv6Address (tl (butlast host)) then False
                    else if (case port of Some p \<Rightarrow> \<not> isEndpointPort p | None \<Rightarrow> False) then False
                    else if \<not> isEndpointPath path then False
                    else secure \<or> isLoopbackHost host)))"

section \<open>Times\<close>

text \<open>A text of the form of a template: a \<open>d\<close> stands for a digit.\<close>

definition digit_form :: "bytes \<Rightarrow> bytes \<Rightarrow> bool" where
  "digit_form template s = list_all2 (\<lambda>t c. if t = CHR ''d'' then is_digit c else c = t) template s"

definition leap_year :: "nat \<Rightarrow> bool" where
  "leap_year y \<longleftrightarrow> 4 dvd y \<and> (\<not> 100 dvd y \<or> 400 dvd y)"

definition days_in :: "nat \<Rightarrow> nat \<Rightarrow> nat" where
  "days_in y m =
     (if m = 2 then (if leap_year y then 29 else 28)
      else if m = 4 \<or> m = 6 \<or> m = 9 \<or> m = 11 then 30 else 31)"

text \<open>The date and the clock of a text whose first nineteen bytes are of the form
  \<^verbatim>\<open>dddd-dd-ddTdd:dd:dd\<close>, as \<^verbatim>\<open>time.Parse\<close> admits them.\<close>

definition field_at :: "bytes \<Rightarrow> nat \<Rightarrow> nat \<Rightarrow> nat" where
  "field_at s i n = decimal (take n (drop i s))"

definition date_exists :: "bytes \<Rightarrow> bool" where
  "date_exists s \<longleftrightarrow>
     1 \<le> field_at s 5 2 \<and> field_at s 5 2 \<le> 12 \<and>
     1 \<le> field_at s 8 2 \<and> field_at s 8 2 \<le> days_in (field_at s 0 4) (field_at s 5 2) \<and>
     field_at s 11 2 < 24 \<and> field_at s 14 2 < 60 \<and> field_at s 17 2 < 60"

definition capturedAtForm :: "bytes \<Rightarrow> bool" where
  "capturedAtForm s = digit_form ''dddd-dd-ddTdd:dd:ddZ'' s"

definition delegationTimeForm :: "bytes \<Rightarrow> bool" where
  "delegationTimeForm s = digit_form ''dddd-dd-ddTdd:dd:dd.dddZ'' s"

text \<open>An instant of the form, as its fields from the year to the millisecond; the order of the
  fields is the order of the instants.\<close>

definition parseDelegationTime :: "bytes \<Rightarrow> nat list option" where
  "parseDelegationTime s =
     (if \<not> delegationTimeForm s then None
      else if \<not> date_exists s then None
      else Some [field_at s 0 4, field_at s 5 2, field_at s 8 2, field_at s 11 2, field_at s 14 2, field_at s 17 2, field_at s 20 3])"

end
