(* ===== verification/Receipts.thy ===== *)
theory Receipts
  imports Store Endpoints
begin

text \<open>
  A receipt as a verifier reads it (\<^verbatim>\<open>receiptFrom\<close> of \<^verbatim>\<open>verify.go\<close>, \<^verbatim>\<open>verify_v3.go\<close>,
  \<^verbatim>\<open>action_receipt.go\<close>, \<^verbatim>\<open>remote_acquisition.go\<close>, \<^verbatim>\<open>descriptor_provenance.go\<close>): its members, the
  structural checks of version 3 and the bytes its signature covers.

  Every refusal of these functions is one answer for their callers, so it is \<open>None\<close>; the text that
  explains it is left out.  A pointer that may be nil is an option.
\<close>

section \<open>Members\<close>

definition string_of :: "members \<Rightarrow> bytes \<Rightarrow> bytes" where
  "string_of obj name = (case memberString obj name of Some s \<Rightarrow> s | None \<Rightarrow> [])"

definition present :: "members \<Rightarrow> bytes \<Rightarrow> bool" where
  "present obj name \<longleftrightarrow> obj_get obj name \<noteq> None"

definition requireObject :: "jvalue \<Rightarrow> members option" where
  "requireObject v = (case v of VObject ms \<Rightarrow> Some ms | _ \<Rightarrow> None)"

definition requireString :: "members \<Rightarrow> bytes \<Rightarrow> bytes option" where
  "requireString obj name = memberString obj name"

definition requireDigest :: "members \<Rightarrow> bytes \<Rightarrow> unit option" where
  "requireDigest obj name = do { s \<leftarrow> requireString obj name; require (isDigest s) }"

definition nullableString :: "members \<Rightarrow> bytes \<Rightarrow> (bytes \<Rightarrow> bool) option \<Rightarrow> unit option" where
  "nullableString obj name form =
     (case obj_get obj name of
        None \<Rightarrow> None
      | Some VNull \<Rightarrow> Some ()
      | Some (VString s) \<Rightarrow> require (case form of None \<Rightarrow> True | Some f \<Rightarrow> f s)
      | Some _ \<Rightarrow> None)"

text \<open>The members a shape names, each with whether it is required.\<close>

definition exactlyMembers :: "members \<Rightarrow> (bytes \<times> bool) list \<Rightarrow> bool" where
  "exactlyMembers obj shape \<longleftrightarrow>
     list_all (\<lambda>m. fst m \<in> fst ` set shape) obj \<and>
     list_all (\<lambda>(name, required). required \<longrightarrow> present obj name) shape"

definition all_required :: "bytes list \<Rightarrow> (bytes \<times> bool) list" where
  "all_required names = map (\<lambda>n. (n, True)) names"

definition exactObject :: "jvalue \<Rightarrow> bytes list \<Rightarrow> members option" where
  "exactObject v names =
     (case v of
        VObject ms \<Rightarrow> if length ms = length names \<and> list_all (present ms) names then Some ms else None
      | _ \<Rightarrow> None)"

definition isSignature3 :: "bytes \<Rightarrow> bool" where
  "isSignature3 s = isLowerHexOfLen s 128"

definition isOpaqueID :: "bytes \<Rightarrow> bool" where
  "isOpaqueID s = isLowerHexOfLen s 32"

definition isFlatTokenString :: "bytes \<Rightarrow> bool" where
  "isFlatTokenString s = requireSession s"

section \<open>Citations\<close>

record citation =
  ct_session :: bytes
  ct_index :: int
  ct_signature :: bytes

definition parse_citation :: "jvalue \<Rightarrow> citation option" where
  "parse_citation entry = do {
     c \<leftarrow> requireObject entry;
     sessionID \<leftarrow> requireString c ''sessionId'';
     require (requireSession sessionID);
     index \<leftarrow> member_int c ''callIndex'';
     require (0 \<le> index);
     signature \<leftarrow> requireString c ''signature'';
     require (isSignature3 signature);
     Some \<lparr> ct_session = sessionID, ct_index = index, ct_signature = signature \<rparr> }"

fun option_list :: "'a option list \<Rightarrow> 'a list option" where
  "option_list [] = Some []"
| "option_list (x # xs) = do { y \<leftarrow> x; ys \<leftarrow> option_list xs; Some (y # ys) }"

definition parseCitations :: "jvalue \<Rightarrow> citation list option" where
  "parseCitations v = (case v of VArray vs \<Rightarrow> option_list (map parse_citation vs) | _ \<Rightarrow> None)"

section \<open>Delivery and reconciliation\<close>

record actionDelivery =
  ad_key :: bytes
  ad_contract :: bytes
  ad_outcome :: bytes

record actionReconciliation =
  ar_action :: citation
  ar_key :: bytes
  ar_contract :: bytes
  ar_outcome :: bytes

definition parseActionDelivery :: "jvalue \<Rightarrow> actionDelivery option" where
  "parseActionDelivery v = do {
     obj \<leftarrow> requireObject v;
     require (exactlyMembers obj (all_required [''key'', ''contract'', ''outcome'']));
     let key = string_of obj ''key'';
     let contract = string_of obj ''contract'';
     let outcome = string_of obj ''outcome'';
     require (isLowerHexOfLen key 64 \<and> isDigest contract \<and> (outcome = ''response'' \<or> outcome = ''uncertain''));
     Some \<lparr> ad_key = key, ad_contract = contract, ad_outcome = outcome \<rparr> }"

definition parseActionReconciliation :: "jvalue \<Rightarrow> actionReconciliation option" where
  "parseActionReconciliation v = do {
     obj \<leftarrow> requireObject v;
     require (exactlyMembers obj (all_required [''key'', ''contract'', ''outcome'', ''action'']));
     let key = string_of obj ''key'';
     let contract = string_of obj ''contract'';
     let outcome = string_of obj ''outcome'';
     require (isLowerHexOfLen key 64 \<and> isDigest contract \<and> (outcome = ''committed'' \<or> outcome = ''unknown''));
     av \<leftarrow> obj_get obj ''action'';
     action \<leftarrow> requireObject av;
     require (exactlyMembers action (all_required [''sessionId'', ''callIndex'', ''signature'']));
     cites \<leftarrow> parseCitations (VArray [VObject action]);
     Some \<lparr> ar_action = hd cites, ar_key = key, ar_contract = contract, ar_outcome = outcome \<rparr> }"

section \<open>The parts of a version 3 receipt\<close>

record witnessNaming =
  wn_origin :: bytes
  wn_keyID :: bytes
  wn_trail :: bytes

definition witnessMemberOf :: "jvalue \<Rightarrow> witnessNaming option" where
  "witnessMemberOf v = do {
     obj \<leftarrow> requireObject v;
     origin \<leftarrow> requireString obj ''origin'';
     require (isWitnessOrigin origin);
     keyID \<leftarrow> requireString obj ''keyId'';
     require (isLowerHexOfLen keyID 32);
     trail \<leftarrow> requireString obj ''trail'';
     require (isLowerHexOfLen trail 32);
     Some \<lparr> wn_origin = origin, wn_keyID = keyID, wn_trail = trail \<rparr> }"

record principalRef =
  pr_kind :: bytes
  pr_issuer :: bytes
  pr_subject :: bytes

definition parsePrincipalRef :: "jvalue \<Rightarrow> principalRef option" where
  "parsePrincipalRef v = do {
     obj \<leftarrow> exactObject v [''kind'', ''issuer'', ''subject''];
     kind \<leftarrow> memberString obj ''kind'';
     issuer \<leftarrow> memberString obj ''issuer'';
     subject \<leftarrow> memberString obj ''subject'';
     require ((kind = ''person'' \<or> kind = ''service'') \<and> issuer \<noteq> [] \<and> subject \<noteq> []);
     Some \<lparr> pr_kind = kind, pr_issuer = issuer, pr_subject = subject \<rparr> }"

definition maxDelegationDepth :: nat where
  "maxDelegationDepth = 4"

definition is_digest_value :: "jvalue \<Rightarrow> bool" where
  "is_digest_value v = (case v of VString s \<Rightarrow> isDigest s | _ \<Rightarrow> False)"

text \<open>The identity under a member is the delegation's subject.\<close>

definition names_subject :: "principalRef \<Rightarrow> members \<Rightarrow> bytes \<Rightarrow> unit option" where
  "names_subject subject holder member = do {
     v \<leftarrow> obj_get holder member;
     identity \<leftarrow> requireObject v;
     require (string_of identity ''issuer'' = pr_issuer subject \<and> string_of identity ''subject'' = pr_subject subject) }"

definition validateDelegationMember :: "jvalue \<Rightarrow> members \<Rightarrow> bytes \<Rightarrow> unit option" where
  "validateDelegationMember v receipt kind = do {
     obj \<leftarrow> requireObject v;
     i \<leftarrow> memberString obj ''id'';
     host \<leftarrow> memberString obj ''host'';
     actor \<leftarrow> memberString obj ''actor'';
     admitted \<leftarrow> memberString obj ''admittedAt'';
     require (isOpaqueID i \<and> isFlatTokenString host \<and> isOpaqueID actor);
     _ \<leftarrow> parseDelegationTime admitted;
     subjectV \<leftarrow> obj_get obj ''subject'';
     subject \<leftarrow> parsePrincipalRef subjectV;
     chain \<leftarrow> (case obj_get obj ''chain'' of Some (VArray ds) \<Rightarrow> Some ds | _ \<Rightarrow> None);
     require (chain \<noteq> [] \<and> length chain \<le> maxDelegationDepth + 1 \<and> list_all is_digest_value chain);
     _ \<leftarrow> names_subject subject receipt ''caller'';
     (if kind = ''action''
      then do { av \<leftarrow> obj_get receipt ''action''; action \<leftarrow> requireObject av; names_subject subject action ''requester'' }
      else Some ()) }"

definition validateReconciler :: "jvalue \<Rightarrow> bytes \<Rightarrow> jvalue option \<Rightarrow> unit option" where
  "validateReconciler v kind acquisition = do {
     obj \<leftarrow> requireObject v;
     sender \<leftarrow> memberString obj ''kind'';
     _ \<leftarrow> memberString obj ''issuer'';
     _ \<leftarrow> memberString obj ''subject'';
     require (sender \<in> set [''actor'', ''subject'', ''host'', ''operator'']);
     av \<leftarrow> acquisition;
     a \<leftarrow> requireObject av;
     require (kind = ''acquisition'');
     require (present a ''reconciliation'') }"

definition validateIdentity :: "jvalue \<Rightarrow> unit option" where
  "validateIdentity v = do {
     obj \<leftarrow> requireObject v;
     _ \<leftarrow> requireString obj ''issuer'';
     _ \<leftarrow> requireString obj ''subject'';
     requireDigest obj ''tokenDigest'' }"

definition validateAdapter :: "jvalue \<Rightarrow> unit option" where
  "validateAdapter v = do {
     obj \<leftarrow> requireObject v;
     _ \<leftarrow> requireString obj ''name'';
     _ \<leftarrow> requireString obj ''version'';
     requireDigest obj ''digest'' }"

section \<open>Remote servers and descriptors\<close>

definition remotePeerIdentity :: "bytes \<Rightarrow> bool" where
  "remotePeerIdentity s =
     (case cut_prefix ''tls:sha256:'' s of Some h \<Rightarrow> isLowerHexOfLen h 64 | None \<Rightarrow> False)"

definition toolTransportProblem :: "members \<Rightarrow> unit option" where
  "toolTransportProblem tool =
     (case obj_get tool ''transport'' of
        None \<Rightarrow> Some ()
      | Some t \<Rightarrow> do {
          require (t = VString ''http'');
          require (string_of tool ''shape'' = ''mcp'');
          endpoint \<leftarrow> memberString tool ''endpoint'';
          require (isRemoteEndpoint endpoint) })"

definition remoteMembersProblem :: "members \<Rightarrow> bytes \<Rightarrow> bool \<Rightarrow> unit option" where
  "remoteMembersProblem acquisition shape exact =
     (case (obj_get acquisition ''transport'', obj_get acquisition ''server'') of
        (None, None) \<Rightarrow> Some ()
      | (Some transport, Some server) \<Rightarrow> do {
          require (shape = ''mcp'');
          require (transport = VString ''http'');
          obj \<leftarrow> requireObject server;
          _ \<leftarrow> requireString obj ''name'';
          _ \<leftarrow> requireString obj ''version'';
          require (exact \<longrightarrow> exactlyMembers obj (all_required [''name'', ''version'']));
          endpoint \<leftarrow> memberString acquisition ''endpoint'';
          require (isRemoteEndpoint endpoint);
          require (if cut_prefix ''https://'' endpoint \<noteq> None
                   then (case obj_get acquisition ''peerIdentity'' of
                           Some (VString s) \<Rightarrow> remotePeerIdentity s | _ \<Rightarrow> False)
                   else obj_get acquisition ''peerIdentity'' = Some VNull) }
      | _ \<Rightarrow> None)"

record descriptorProvenance =
  dp_snapshot :: bytes
  dp_statement :: bytes
  dp_binding :: bytes

definition isDescriptorBindingRef :: "bytes \<Rightarrow> bool" where
  "isDescriptorBindingRef ref =
     (case cut_at CHR ''@'' ref of
        (name, pin, ok) \<Rightarrow>
          ok \<and> name \<noteq> [] \<and> name \<noteq> ''.'' \<and> name \<noteq> ''..'' \<and>
          CHR ''/'' \<notin> set name \<and> CHR 0x5C \<notin> set name \<and> CHR ''@'' \<notin> set name \<and> isDigest pin)"

definition descriptorProvenanceFrom :: "jvalue \<Rightarrow> descriptorProvenance option" where
  "descriptorProvenanceFrom v = do {
     obj \<leftarrow> requireObject v;
     require (exactlyMembers obj (all_required [''snapshot'', ''statement'', ''binding'']));
     let p = \<lparr> dp_snapshot = string_of obj ''snapshot'', dp_statement = string_of obj ''statement'',
               dp_binding = string_of obj ''binding'' \<rparr>;
     require (isDigest (dp_snapshot p) \<and> isDigest (dp_statement p) \<and> isDescriptorBindingRef (dp_binding p));
     Some p }"

section \<open>Receipts\<close>

record receipt =
  r_delivery :: "actionDelivery option"
  r_reconciliation :: "actionReconciliation option"
  r_obj :: members
  r_version :: bytes
  r_sessionID :: bytes
  r_callIndex :: int
  r_keyID :: bytes
  r_authority :: bytes
  r_resultDigest :: bytes
  r_signature :: bytes
  r_prevSignature :: "bytes option"
  r_kind :: bytes
  r_cites :: "citation list"
  r_recordDigest :: bytes
  r_packDigest :: bytes
  r_exactRecord :: bool
  r_witness :: "witnessNaming option"
  r_servedAt :: bytes
  r_keyPos :: int

definition acquisitionShapes :: "bytes list" where
  "acquisitionShapes = [''airbyte'', ''mcp'', ''http'', ''command'']"

definition validateAcquisition :: "jvalue \<Rightarrow> unit option" where
  "validateAcquisition v = do {
     obj \<leftarrow> requireObject v;
     adapter \<leftarrow> obj_get obj ''adapter'';
     _ \<leftarrow> validateAdapter adapter;
     shape \<leftarrow> requireString obj ''shape'';
     require (shape \<in> set acquisitionShapes);
     _ \<leftarrow> (case obj_get obj ''descriptorProvenance'' of
             None \<Rightarrow> Some ()
           | Some d \<Rightarrow> do { require (shape = ''mcp''); _ \<leftarrow> descriptorProvenanceFrom d; Some () });
     _ \<leftarrow> nullableString obj ''endpoint'' None;
     _ \<leftarrow> nullableString obj ''statement'' (Some isDigest);
     _ \<leftarrow> nullableString obj ''snapshot'' None;
     _ \<leftarrow> nullableString obj ''peerIdentity'' None;
     _ \<leftarrow> nullableString obj ''schema'' (Some isDigest);
     _ \<leftarrow> nullableString obj ''upstreamToken'' None;
     _ \<leftarrow> (case obj_get obj ''pageItems'' of
             None \<Rightarrow> Some ()
           | Some (VArray items) \<Rightarrow> require (list_all is_digest_value items)
           | Some _ \<Rightarrow> None);
     _ \<leftarrow> requireString obj ''observedAt'';
     remoteMembersProblem obj shape False }"

definition validateAction :: "jvalue \<Rightarrow> receipt \<Rightarrow> receipt option" where
  "validateAction v r = do {
     obj \<leftarrow> requireObject v;
     requester \<leftarrow> obj_get obj ''requester'';
     require (requester \<noteq> VNull);
     _ \<leftarrow> validateIdentity requester;
     r \<leftarrow> (case obj_get obj ''delivery'' of
             None \<Rightarrow> Some r
           | Some d \<Rightarrow> do { delivery \<leftarrow> parseActionDelivery d; Some (r\<lparr> r_delivery := Some delivery \<rparr>) });
     decisionV \<leftarrow> obj_get obj ''decision'';
     decision \<leftarrow> requireObject decisionV;
     _ \<leftarrow> requireDigest decision ''recordDigest'';
     _ \<leftarrow> requireDigest decision ''packDigest'';
     r \<leftarrow> (case obj_get decision ''recordBytes'' of
             None \<Rightarrow> Some r
           | Some b \<Rightarrow> do { require (b = VString ''exact''); Some (r\<lparr> r_exactRecord := True \<rparr>) });
     citesV \<leftarrow> obj_get obj ''cites'';
     cites \<leftarrow> parseCitations citesV;
     toolV \<leftarrow> obj_get obj ''tool'';
     tool \<leftarrow> requireObject toolV;
     _ \<leftarrow> requireString tool ''shape'';
     _ \<leftarrow> requireString tool ''name'';
     _ \<leftarrow> nullableString tool ''endpoint'' None;
     _ \<leftarrow> toolTransportProblem tool;
     _ \<leftarrow> requireDigest obj ''request'';
     _ \<leftarrow> (if present obj ''policy'' then requireDigest obj ''policy'' else Some ());
     adapter \<leftarrow> obj_get obj ''adapter'';
     _ \<leftarrow> validateAdapter adapter;
     _ \<leftarrow> requireString obj ''observedAt'';
     Some (r\<lparr> r_cites := cites, r_recordDigest := string_of decision ''recordDigest'',
              r_packDigest := string_of decision ''packDigest'' \<rparr>) }"

text \<open>The two kinds of a version 3 receipt, each with its own member and without the other's.\<close>

definition validate_kind :: "members \<Rightarrow> bytes \<Rightarrow> receipt \<Rightarrow> receipt option" where
  "validate_kind obj kind r =
     (if kind = ''acquisition'' then
        (case (obj_get obj ''acquisition'', obj_get obj ''action'') of
           (Some acquisition, None) \<Rightarrow> do {
             _ \<leftarrow> validateAcquisition acquisition;
             a \<leftarrow> requireObject acquisition;
             (case obj_get a ''reconciliation'' of
                None \<Rightarrow> Some r
              | Some v \<Rightarrow> do {
                  reconciliation \<leftarrow> parseActionReconciliation v;
                  Some (r\<lparr> r_reconciliation := Some reconciliation \<rparr>) }) }
         | _ \<Rightarrow> None)
      else if kind = ''action'' then
        (case (obj_get obj ''action'', obj_get obj ''acquisition'') of
           (Some action, None) \<Rightarrow> validateAction action r
         | _ \<Rightarrow> None)
      else None)"

definition validateVersion3 :: "members \<Rightarrow> receipt \<Rightarrow> receipt option" where
  "validateVersion3 obj r = do {
     require (isSignature3 (r_signature r));
     require (requireSession (r_sessionID r));
     require (isLowerHexOfLen (r_keyID r) 32);
     require (\<not> present obj ''argumentsDigest'');
     _ \<leftarrow> requireDigest obj ''argumentsCommitment'';
     callerV \<leftarrow> obj_get obj ''caller'';
     _ \<leftarrow> (if callerV = VNull then Some () else validateIdentity callerV);
     kind \<leftarrow> memberString obj ''kind'';
     r \<leftarrow> validate_kind obj kind r;
     r \<leftarrow> (case obj_get obj ''witness'' of
             None \<Rightarrow> Some r
           | Some w \<Rightarrow> do { naming \<leftarrow> witnessMemberOf w; Some (r\<lparr> r_witness := Some naming \<rparr>) });
     _ \<leftarrow> (case obj_get obj ''delegation'' of
             None \<Rightarrow> Some ()
           | Some d \<Rightarrow> validateDelegationMember d obj kind);
     _ \<leftarrow> (case obj_get obj ''reconciler'' of
             None \<Rightarrow> Some ()
           | Some v \<Rightarrow> validateReconciler v kind (obj_get obj ''acquisition''));
     Some (r\<lparr> r_kind := kind \<rparr>) }"

definition receiptVersion :: bytes where
  "receiptVersion = ''2''"

text \<open>A receipt with the members every version has, before the version's own are read.\<close>

definition common_members :: "members \<Rightarrow> receipt option" where
  "common_members obj = do {
     version \<leftarrow> memberString obj ''receiptVersion'';
     sessionID \<leftarrow> memberString obj ''sessionId'';
     keyID \<leftarrow> memberString obj ''keyId'';
     authority \<leftarrow> memberString obj ''authority'';
     resultDigest \<leftarrow> memberString obj ''resultDigest'';
     signature \<leftarrow> memberString obj ''signature'';
     _ \<leftarrow> memberString obj ''source'';
     servedAt \<leftarrow> memberString obj ''servedAt'';
     Some \<lparr> r_delivery = None, r_reconciliation = None, r_obj = obj, r_version = version,
            r_sessionID = sessionID, r_callIndex = 0, r_keyID = keyID, r_authority = authority,
            r_resultDigest = resultDigest, r_signature = signature, r_prevSignature = None,
            r_kind = [], r_cites = [], r_recordDigest = [], r_packDigest = [], r_exactRecord = False,
            r_witness = None, r_servedAt = servedAt, r_keyPos = 0 \<rparr> }"

definition receiptFrom :: "members \<Rightarrow> receipt option" where
  "receiptFrom obj = do {
     r \<leftarrow> common_members obj;
     r \<leftarrow> (if r_version r = receiptVersion
           then do { _ \<leftarrow> memberString obj ''argumentsDigest''; Some r }
           else if r_version r = receiptVersion3 then validateVersion3 obj r
           else Some r);
     n \<leftarrow> member_int obj ''callIndex'';
     require (0 \<le> n);
     let r = r\<lparr> r_callIndex := n \<rparr>;
     prev \<leftarrow> obj_get obj ''prevSignature'';
     (case prev of
        VNull \<Rightarrow> Some r
      | VString p \<Rightarrow> Some (r\<lparr> r_prevSignature := Some p \<rparr>)
      | _ \<Rightarrow> None) }"

definition signingInput :: "receipt \<Rightarrow> bytes" where
  "signingInput r =
     (let covered = filter (\<lambda>m. fst m \<noteq> ''signature'') (r_obj r);
          context = (if r_version r = receiptVersion3 then receiptContext3 else receiptContext)
      in context @ canon (VObject covered))"

end
