(* ===== verification/Paths.thy ===== *)
theory Paths
  imports Gateway_Prelude
begin

text \<open>
  How an input path is judged and read (\<^verbatim>\<open>verify.go\<close>): its spelling, the directories above it, and
  the difference between a registry that is not there and one that cannot be reached.  The
  filesystem's answers are the record \<open>files\<close>; a path is spelled as Linux and macOS spell it, with
  no volume and \<open>/\<close> the one separator.
\<close>

datatype stat_answer = StatDir | StatOther | StatNotExist | StatError

record files =
  fs_stat :: "bytes \<Rightarrow> stat_answer"
  fs_lstat :: "bytes \<Rightarrow> stat_answer"
  fs_readFile :: "bytes \<Rightarrow> bytes option"

definition path_components :: "bytes \<Rightarrow> bytes list" where
  "path_components path = filter (\<lambda>c. c \<noteq> []) (split_on CHR ''/'' path)"

fun plain_components :: "bool \<Rightarrow> bytes list \<Rightarrow> bool" where
  "plain_components named [] = True"
| "plain_components named (c # cs) =
     (if c = ''..'' then \<not> named \<and> plain_components named cs
      else if c = ''.'' then plain_components named cs
      else plain_components True cs)"

definition requirePlainSpelling :: "bytes \<Rightarrow> bool \<Rightarrow> bool" where
  "requirePlainSpelling path file \<longleftrightarrow>
     \<not> (file \<and> (path = [] \<or> last path = CHR ''/'')) \<and> plain_components False (path_components path)"

definition pathAncestors :: "bytes \<Rightarrow> bytes list" where
  "pathAncestors path =
     map (\<lambda>i. take i path)
       (filter (\<lambda>i. path ! i = CHR ''/'' \<and> i > 0 \<and> path ! (i - 1) \<noteq> CHR ''/'') [0..<length path])"

text \<open>\<open>None\<close> is a refusal throughout; \<open>absentOrLink\<close> answers when the path is absent.\<close>

definition absentOrLink :: "files \<Rightarrow> bytes \<Rightarrow> unit option" where
  "absentOrLink F path = require (fs_lstat F path = StatNotExist)"

fun reach_directories :: "files \<Rightarrow> bytes list \<Rightarrow> bool option" where
  "reach_directories F [] = Some True"
| "reach_directories F (d # ds) =
     (case fs_stat F d of
        StatNotExist \<Rightarrow> do { _ \<leftarrow> absentOrLink F d; Some False }
      | StatError \<Rightarrow> None
      | StatOther \<Rightarrow> None
      | StatDir \<Rightarrow> reach_directories F ds)"

definition registryContainerReachable :: "files \<Rightarrow> bytes \<Rightarrow> bool option" where
  "registryContainerReachable F path = reach_directories F (pathAncestors path)"

definition statInput :: "files \<Rightarrow> bytes \<Rightarrow> stat_answer option option" where
  "statInput F path =
     (case fs_stat F path of
        StatNotExist \<Rightarrow> do { _ \<leftarrow> absentOrLink F path; Some None }
      | StatError \<Rightarrow> None
      | info \<Rightarrow> Some (Some info))"

text \<open>The bytes, \<open>None\<close> inside when the registry is not there.\<close>

definition readRegistryBytes :: "files \<Rightarrow> bytes \<Rightarrow> bytes option option" where
  "readRegistryBytes F path = do {
     require (requirePlainSpelling path True);
     there \<leftarrow> registryContainerReachable F path;
     (if \<not> there then Some None
      else do {
        info \<leftarrow> statInput F path;
        (case info of
           None \<Rightarrow> Some None
         | Some _ \<Rightarrow> do { data \<leftarrow> fs_readFile F path; Some (Some data) }) }) }"

text \<open>An absent registry reads as no bytes unless it is required.\<close>

definition readRegistryOf :: "files \<Rightarrow> bytes \<Rightarrow> bool \<Rightarrow> bytes option" where
  "readRegistryOf F path required = do {
     read \<leftarrow> readRegistryBytes F path;
     require (required \<longrightarrow> read \<noteq> None);
     Some (case read of None \<Rightarrow> [] | Some data \<Rightarrow> data) }"

section \<open>What is taken for absent\<close>

text \<open>Of the directories above an input and the input itself, taken from the root down, one at
  which a look finds nothing, by a stat that follows links and by one that does not, with a
  directory at every one before it.\<close>

fun missing_at :: "files \<Rightarrow> bytes list \<Rightarrow> bool" where
  "missing_at F [] = False"
| "missing_at F (p # ps) =
     (fs_stat F p = StatNotExist \<and> fs_lstat F p = StatNotExist \<or> fs_stat F p = StatDir \<and> missing_at F ps)"

lemma missing_at_append:
  "missing_at F (ps @ qs) \<longleftrightarrow>
     missing_at F ps \<or> list_all (\<lambda>u. fs_stat F u = StatDir) ps \<and> missing_at F qs"
  by (induction ps) auto

lemma reach_directories_iff:
  "reach_directories F ds = Some True \<longleftrightarrow> list_all (\<lambda>u. fs_stat F u = StatDir) ds"
  "reach_directories F ds = Some False \<longleftrightarrow> missing_at F ds"
  by (induction ds) (auto simp: Option.bind_eq_Some_conv absentOrLink_def split: stat_answer.splits)

lemma readRegistryBytes_absent:
  "readRegistryBytes F path = Some None \<longleftrightarrow>
     requirePlainSpelling path True \<and> missing_at F (pathAncestors path @ [path])"
proof (cases "reach_directories F (pathAncestors path)")
  case None
  then have "\<not> missing_at F (pathAncestors path)" "\<not> list_all (\<lambda>u. fs_stat F u = StatDir) (pathAncestors path)"
    by (simp_all flip: reach_directories_iff)
  with None show ?thesis
    by (simp add: readRegistryBytes_def registryContainerReachable_def missing_at_append
        Option.bind_eq_Some_conv)
next
  case (Some there)
  then have dirs: "there \<longleftrightarrow> list_all (\<lambda>u. fs_stat F u = StatDir) (pathAncestors path)"
      "\<not> there \<longleftrightarrow> missing_at F (pathAncestors path)"
    by (auto simp flip: reach_directories_iff)
  show ?thesis
    using dirs
    by (auto simp: readRegistryBytes_def registryContainerReachable_def missing_at_append Some
        statInput_def absentOrLink_def Option.bind_eq_Some_conv split: stat_answer.splits)
qed

lemma readRegistryBytes_present:
  assumes "readRegistryBytes F path = Some (Some data)"
  shows "fs_readFile F path = Some data" and "list_all (\<lambda>u. fs_stat F u = StatDir) (pathAncestors path)"
    and "requirePlainSpelling path True"
proof -
  have "registryContainerReachable F path = Some True" and "fs_readFile F path = Some data"
    and "requirePlainSpelling path True"
    using assms
    by (auto simp: readRegistryBytes_def Option.bind_eq_Some_conv split: if_splits option.splits)
  then show "fs_readFile F path = Some data" "list_all (\<lambda>u. fs_stat F u = StatDir) (pathAncestors path)"
    "requirePlainSpelling path True"
    by (simp_all add: registryContainerReachable_def reach_directories_iff)
qed

end
