(* ===== verification/Records.thy ===== *)
theory Records
  imports Receipts Paths
begin

text \<open>
  Decision records as a verifier reads them (\<^verbatim>\<open>verify_v3.go\<close>, \<^verbatim>\<open>decision_policy.go\<close>): the scanner
  that passes over a JSON value by its extent, the citations of a record, the top-level signature
  of a receipt file as written, and the walk of the decision-record directory.

  A position in the data is the rest of the data from it.  A loop of the scanner goes on only with
  a shorter rest; \<open>Scanner\<close> proves that it always is, so the test never decides.
\<close>

section \<open>The scanner\<close>

definition isHex4 :: "bytes \<Rightarrow> bool" where
  "isHex4 b = list_all isHexDigit b"

text \<open>The rest after the closing quote of a string whose escapes are well formed and which holds no
  raw control character.\<close>

fun string_rest :: "bytes \<Rightarrow> bytes option" where
  "string_rest [] = None"
| "string_rest (c # r) =
     (if c = CHR 0x22 then Some r
      else if c = CHR 0x5C then
        (case r of
           [] \<Rightarrow> None
         | e # r' \<Rightarrow>
             if short_escape e \<noteq> None then string_rest r'
             else if e = CHR ''u'' then
               (case r' of
                  h1 # h2 # h3 # h4 # r'' \<Rightarrow> if isHex4 [h1, h2, h3, h4] then string_rest r'' else None
                | _ \<Rightarrow> None)
             else None)
      else if byte c < 0x20 then None
      else string_rest r)"

text \<open>The bytes before a rest.\<close>

definition upto :: "bytes \<Rightarrow> bytes \<Rightarrow> bytes" where
  "upto s rest = take (length s - length rest) s"

definition scanString :: "bytes \<Rightarrow> bytes option" where
  "scanString s =
     (if take 1 s \<noteq> [CHR 0x22] then None
      else do {
        rest \<leftarrow> string_rest (drop 1 s);
        require (valid_utf8 (butlast (upto (drop 1 s) rest)));
        Some rest })"

definition scan_literal :: "bytes \<Rightarrow> bytes \<Rightarrow> bytes option" where
  "scan_literal word s = cut_prefix word s"

definition scanNumber :: "bytes \<Rightarrow> bytes option" where
  "scanNumber s = do {
     let s = (if take 1 s = ''-'' then drop 1 s else s);
     require (s \<noteq> []);
     s \<leftarrow> (if hd s = CHR ''0'' then Some (tl s)
           else if is_digit (hd s) then Some (dropWhile is_digit s) else None);
     s \<leftarrow> (if take 1 s = ''.'' then do {
             require (takeWhile is_digit (drop 1 s) \<noteq> []);
             Some (dropWhile is_digit (drop 1 s)) }
           else Some s);
     (if take 1 s = ''e'' \<or> take 1 s = ''E'' then do {
        let s = drop 1 s;
        let s = (if take 1 s = ''+'' \<or> take 1 s = ''-'' then drop 1 s else s);
        require (takeWhile is_digit s \<noteq> []);
        Some (dropWhile is_digit s) }
      else Some s) }"

text \<open>A member's name and the colon after it, up to the value.\<close>

definition scan_name :: "(bytes \<Rightarrow> bytes option) \<Rightarrow> bytes \<Rightarrow> bytes option" where
  "scan_name str s = do {
     r \<leftarrow> str s;
     r \<leftarrow> cut_prefix '':'' (skip_space r);
     Some (skip_space r) }"

text \<open>A value at a depth, the scan of its strings and the bound of its nesting given: the
  scanner's own are \<open>scanString\<close> and \<open>maxNesting\<close>.\<close>

function scanValue :: "(bytes \<Rightarrow> bytes option) \<Rightarrow> nat \<Rightarrow> nat \<Rightarrow> bytes \<Rightarrow> bytes option"
  and scan_items :: "(bytes \<Rightarrow> bytes option) \<Rightarrow> nat \<Rightarrow> nat \<Rightarrow> bool \<Rightarrow> bytes \<Rightarrow> bytes option"
where
  "scanValue str bound depth s =
     (case s of
        [] \<Rightarrow> None
      | c # r \<Rightarrow>
          if c = CHR 0x22 then str s
          else if c = CHR ''{'' \<or> c = CHR ''['' then
            (if depth \<ge> bound then None
             else let t = skip_space r in
               if take 1 t = (if c = CHR ''['' then '']'' else ''}'') then Some (drop 1 t)
               else scan_items str bound depth (c = CHR ''{'') t)
          else if c = CHR ''t'' then scan_literal ''true'' s
          else if c = CHR ''f'' then scan_literal ''false'' s
          else if c = CHR ''n'' then scan_literal ''null'' s
          else if c = CHR ''-'' \<or> is_digit c then scanNumber s
          else None)"
| "scan_items str bound depth isObject s =
     (case (if isObject then scan_name str s else Some s) of
        None \<Rightarrow> None
      | Some v \<Rightarrow>
          if length v > length s then None
          else (case scanValue str bound (Suc depth) v of
                  None \<Rightarrow> None
                | Some e \<Rightarrow>
                    (case skip_space e of
                       [] \<Rightarrow> None
                     | c # t \<Rightarrow>
                         if c = (if isObject then CHR ''}'' else CHR '']'') then Some t
                         else if c \<noteq> CHR '','' \<or> length t \<ge> length s then None
                         else scan_items str bound depth isObject (skip_space t))))"
  by pat_completeness auto
termination
proof (relation "measure (\<lambda>x. case x of
    Inl (str, bound, depth, s) \<Rightarrow> 2 * length s
  | Inr (str, bound, depth, isObject, s) \<Rightarrow> 2 * length s + 1)", goal_cases)
  case (2 str bound depth s c r t)
  have "length (skip_space r) \<le> length r" by (simp add: skip_space_def length_dropWhile_le)
  with 2 show ?case by simp
next
  case (4 str bound depth isObject s v e c t)
  have "length (skip_space t) \<le> length t" by (simp add: skip_space_def length_dropWhile_le)
  with 4 show ?case by simp
qed auto

declare scanValue.simps [simp del] scan_items.simps [simp del]

section \<open>Strings as the standard library decodes them\<close>

definition second_escape :: "bytes \<Rightarrow> (nat \<times> bytes) option" where
  "second_escape s =
     (case cut_prefix (CHR 0x5C # ''u'') s of
        None \<Rightarrow> None
      | Some r \<Rightarrow> (case readHex4 r of Inr x \<Rightarrow> Some x | Inl _ \<Rightarrow> None))"

lemma second_escape_length [gw_len]: "second_escape s = Some (u, r) \<Longrightarrow> length s = length r + 6"
  by (auto simp: second_escape_def split: option.splits sum.splits dest!: readHex4_length cut_prefix_length)

function json_unquote :: "bytes \<Rightarrow> bytes" where
  "json_unquote s =
     (case s of
        [] \<Rightarrow> []
      | c # r \<Rightarrow>
          if c = CHR 0x5C then
            (case r of
               [] \<Rightarrow> []
             | e # r' \<Rightarrow>
                 (case short_escape e of
                    Some b \<Rightarrow> b # json_unquote r'
                  | None \<Rightarrow>
                      (case readHex4 r' of
                         Inl _ \<Rightarrow> []
                       | Inr (u, r1) \<Rightarrow>
                           if \<not> is_surrogate u then encode_rune u @ json_unquote r1
                           else (case second_escape r1 of
                                   Some (u2, r3) \<Rightarrow>
                                     if utf16_decode u u2 \<noteq> rune_error
                                     then encode_rune (utf16_decode u u2) @ json_unquote r3
                                     else encode_rune rune_error @ json_unquote r1
                                 | None \<Rightarrow> encode_rune rune_error @ json_unquote r1))))
          else if byte c < 0x80 then c # json_unquote r
          else if decode_rune s = (rune_error, 1) then encode_rune rune_error @ json_unquote r
          else take (snd (decode_rune s)) s @ json_unquote (drop (snd (decode_rune s)) s))"
  by pat_completeness auto
termination
  by (relation "measure length")
    (auto simp: decode_rune_size_pos simp del: decode_rune.simps dest!: readHex4_length second_escape_length)

declare json_unquote.simps [simp del]

definition decoded_string :: "bytes \<Rightarrow> bytes \<Rightarrow> bytes" where
  "decoded_string s rest = json_unquote (butlast (drop 1 (upto s rest)))"

section \<open>The signature of a receipt file, as written\<close>

text \<open>\<^verbatim>\<open>encoding/json\<close>: a string's bytes need not be valid UTF-8, and a value nests at most ten
  thousand deep.\<close>

definition json_string :: "bytes \<Rightarrow> bytes option" where
  "json_string s = (if take 1 s \<noteq> [CHR 0x22] then None else string_rest (drop 1 s))"

definition json_value :: "bytes \<Rightarrow> bytes option" where
  "json_value s = scanValue json_string 10000 0 s"

text \<open>\<^verbatim>\<open>json.Unmarshal\<close> of a value into a fresh string: a null leaves it empty.\<close>

definition json_to_string :: "bytes \<Rightarrow> bytes option" where
  "json_to_string raw =
     (if take 1 raw = [CHR 0x22] then Some (decoded_string raw [])
      else if raw = ''null'' then Some [] else None)"

text \<open>The loop over the members, with the signature read so far and how often it was there.\<close>

function decoded_signature :: "bool \<Rightarrow> bytes \<Rightarrow> bytes \<Rightarrow> nat \<Rightarrow> bytes option" where
  "decoded_signature first s signature seen =
     (let t = skip_space s in
      if t = [] \<or> hd t = CHR '']'' then None
      else if hd t = CHR ''}'' then (if skip_space (tl t) = [] \<and> seen = 1 then Some signature else None)
      else do {
        k \<leftarrow> (if first then Some t else map_option skip_space (cut_prefix '','' t));
        afterKey \<leftarrow> json_string k;
        v \<leftarrow> map_option skip_space (cut_prefix '':'' (skip_space afterKey));
        rest \<leftarrow> json_value v;
        require (length rest < length s);
        (if decoded_string k afterKey = ''signature''
         then do {
           x \<leftarrow> json_to_string (upto v rest);
           decoded_signature False rest x (seen + 1) }
         else decoded_signature False rest signature seen) })"
  by pat_completeness auto
termination
  by (relation "measure (\<lambda>(first, s, signature, seen). length s)") auto

declare decoded_signature.simps [simp del]

definition topLevelSignature :: "bytes \<Rightarrow> bytes option" where
  "topLevelSignature data =
     (case parseJSON data of
        Inr (VObject obj) \<Rightarrow> memberString obj ''signature''
      | Inr _ \<Rightarrow> None
      | Inl _ \<Rightarrow>
          (case skip_space data of
             [] \<Rightarrow> None
           | c # r \<Rightarrow> if c = CHR ''{'' then decoded_signature True r [] 0 else None))"

section \<open>The citations of a record\<close>

record citingRecord =
  cr_digest :: bytes
  cr_cites :: "citation list"
  cr_malformed :: bool

datatype record_cites = NotCiting | MalformedCites | Cites "citation list"

text \<open>The members of a record's object: the text of its cites, how often the member is there, and
  whether the object ends the data.\<close>

function cites_members :: "bytes \<Rightarrow> bytes option \<Rightarrow> nat \<Rightarrow> (bytes option \<times> nat) option" where
  "cites_members s raw seen =
     (let t = skip_space s in
      if t = [] then None
      else if hd t = CHR ''}'' then (if skip_space (tl t) = [] then Some (raw, seen) else None)
      else do {
        afterKey \<leftarrow> scanString t;
        v \<leftarrow> map_option skip_space (cut_prefix '':'' (skip_space afterKey));
        e \<leftarrow> scanValue scanString maxNesting 1 v;
        let (raw, seen) = (if decoded_string t afterKey = ''cites'' then (Some (upto v e), seen + 1) else (raw, seen));
        let u = skip_space e;
        require (u \<noteq> [] \<and> length u < length s);
        (if hd u = CHR '','' then do {
           require (take 1 (skip_space (tl u)) \<noteq> ''}'');
           cites_members (tl u) raw seen }
         else do { require (hd u = CHR ''}''); cites_members u raw seen }) })"
  by pat_completeness auto
termination
  by (relation "measure (\<lambda>(s, raw, seen). length s)") (auto simp: less_imp_diff_less)

declare cites_members.simps [simp del]

definition recordCitations :: "bytes \<Rightarrow> record_cites" where
  "recordCitations data =
     (case skip_space data of
        [] \<Rightarrow> NotCiting
      | c # r \<Rightarrow>
          if c \<noteq> CHR ''{'' then NotCiting
          else (case cites_members r None 0 of
                  None \<Rightarrow> NotCiting
                | Some (None, _) \<Rightarrow> NotCiting
                | Some (Some raw, seen) \<Rightarrow>
                    if seen > 1 then MalformedCites
                    else (case parseJSON raw of
                            Inl _ \<Rightarrow> MalformedCites
                          | Inr v \<Rightarrow> (case parseCitations v of None \<Rightarrow> MalformedCites | Some cites \<Rightarrow> Cites cites))))"

section \<open>Runtime records\<close>

record runtimeRecord =
  rr_obj :: members
  rr_packDigest :: bytes

definition pack_digest :: "members \<Rightarrow> bytes" where
  "pack_digest obj = (case obj_get obj ''pack'' of Some (VObject pack) \<Rightarrow> string_of pack ''digest'' | _ \<Rightarrow> [])"

definition readRuntimeRecord :: "bytes \<Rightarrow> runtimeRecord option" where
  "readRuntimeRecord data =
     (case parseRecordJSON data of
        Inr (VObject obj) \<Rightarrow> do {
          require (string_of obj ''recordVersion'' = ''1'');
          require (string_of obj ''kind'' = ''evaluation'');
          require (isDigest (pack_digest obj));
          Some \<lparr> rr_obj = obj, rr_packDigest = pack_digest obj \<rparr> }
      | _ \<Rightarrow> None)"

definition record_citations :: "runtimeRecord \<Rightarrow> citation list option" where
  "record_citations r =
     (case obj_get (rr_obj r) ''cites'' of
        None \<Rightarrow> Some []
      | Some citesV \<Rightarrow> if \<not> canonicalValue citesV then None else parseCitations citesV)"

definition sameCitations :: "citation list \<Rightarrow> citation list \<Rightarrow> bool" where
  "sameCitations a b \<longleftrightarrow>
     length (remdups a) = length (remdups b) \<and> list_all (\<lambda>c. c \<in> set b) (remdups a)"

record recordClaims =
  rc_understood :: bool
  rc_packDigest :: bytes
  rc_cites :: "citation list"
  rc_citesRead :: bool
  rc_trail :: bytes

definition recordClaimsOf :: "bytes \<Rightarrow> recordClaims" where
  "recordClaimsOf data =
     (case readRuntimeRecord data of
        None \<Rightarrow> \<lparr> rc_understood = False, rc_packDigest = [], rc_cites = [], rc_citesRead = False, rc_trail = [] \<rparr>
      | Some record \<Rightarrow>
          \<lparr> rc_understood = True, rc_packDigest = rr_packDigest record,
            rc_cites = (case record_citations record of Some cs \<Rightarrow> cs | None \<Rightarrow> []),
            rc_citesRead = (record_citations record \<noteq> None), rc_trail = string_of (rr_obj record) ''trail'' \<rparr>)"

section \<open>The walk of the decision-record directory\<close>

text \<open>What a walk has found: the wanted digests under either reading, the bytes first handed on for
  each, the files each was found in, and the records that cite.\<close>

record decisionWalk =
  dw_found :: "bytes list"
  dw_foundExact :: "bytes list"
  dw_handed :: "(bytes \<times> bytes) list"
  dw_handedExact :: "(bytes \<times> bytes) list"
  dw_foundIn :: "(bytes \<times> bool \<times> bytes) list"
  dw_records :: "citingRecord list"

definition handed_once :: "bytes \<Rightarrow> bytes \<Rightarrow> (bytes \<times> bytes) list \<Rightarrow> (bytes \<times> bytes) list" where
  "handed_once h data gave = (if map_of gave h = None then gave @ [(h, data)] else gave)"

definition note_candidate ::
  "crypto \<Rightarrow> bytes list \<Rightarrow> bytes \<Rightarrow> bytes \<Rightarrow> bool \<Rightarrow> bool \<Rightarrow> decisionWalk \<Rightarrow> decisionWalk" where
  "note_candidate C want path data isRecord exact w =
     (let h = hex_encode (sha256 C data) in
      if h \<notin> set want then w
      else
        (let w = (if exact then w\<lparr> dw_foundExact := List.insert h (dw_foundExact w) \<rparr>
                  else w\<lparr> dw_found := List.insert h (dw_found w) \<rparr>)
         in if \<not> isRecord then w
            else
              (let w = w\<lparr> dw_foundIn := dw_foundIn w @ [(h, exact, path)] \<rparr>
               in if exact then w\<lparr> dw_handedExact := handed_once h data (dw_handedExact w) \<rparr>
                  else w\<lparr> dw_handed := handed_once h data (dw_handed w) \<rparr>)))"

definition read_candidate :: "crypto \<Rightarrow> bytes list \<Rightarrow> bytes \<Rightarrow> bytes \<Rightarrow> decisionWalk \<Rightarrow> decisionWalk" where
  "read_candidate C wanted path data w =
     (let w = note_candidate C wanted path data True False w in
      case recordCitations data of
        NotCiting \<Rightarrow> w
      | MalformedCites \<Rightarrow>
          w\<lparr> dw_records := dw_records w @ [\<lparr> cr_digest = digest_of C data, cr_cites = [], cr_malformed = True \<rparr>] \<rparr>
      | Cites cites \<Rightarrow>
          w\<lparr> dw_records := dw_records w @ [\<lparr> cr_digest = digest_of C data, cr_cites = cites, cr_malformed = False \<rparr>] \<rparr>)"

definition walk_line :: "crypto \<Rightarrow> bytes list \<Rightarrow> bytes list \<Rightarrow> bytes \<Rightarrow> bytes \<Rightarrow> decisionWalk \<Rightarrow> decisionWalk" where
  "walk_line C wanted exact path line w =
     (let w = (if line \<noteq> [] then note_candidate C exact path line True True w else w);
          line = trim_suffix line [CHR 0x0D]
      in if line \<noteq> [] then read_candidate C wanted path line w else w)"

definition walk_file ::
  "crypto \<Rightarrow> bytes list \<Rightarrow> bytes list \<Rightarrow> bytes \<times> bytes \<Rightarrow> decisionWalk \<Rightarrow> decisionWalk" where
  "walk_file C wanted exact f w =
     (case f of (path, data) \<Rightarrow>
        if \<not> has_suffix path ''.jsonl'' then
          note_candidate C exact path data True True (read_candidate C wanted path data w)
        else
          fold (walk_line C wanted exact path) (split_on CHR 0x0A data)
            (note_candidate C exact path data False True (note_candidate C wanted path data False False w)))"

definition empty_walk :: decisionWalk where
  "empty_walk =
     \<lparr> dw_found = [], dw_foundExact = [], dw_handed = [], dw_handedExact = [], dw_foundIn = [], dw_records = [] \<rparr>"

definition walk_tree :: "crypto \<Rightarrow> bytes list \<Rightarrow> bytes list \<Rightarrow> (bytes \<times> bytes) list \<Rightarrow> decisionWalk" where
  "walk_tree C wanted exact tree = fold (walk_file C wanted exact) tree empty_walk"

text \<open>What a look at a directory finds: nothing, something it refuses, or the thing.\<close>

datatype 'a look = Absent | Refused | There 'a

text \<open>The directory named, with the regular files a walk of its held tree reads; a tree named by a
  link is there and holds no candidate.  The answer says whether the directory was there.\<close>

definition walkDecisionRecords ::
  "crypto \<Rightarrow> files \<Rightarrow> bytes \<Rightarrow> (bytes \<times> bytes) list look \<Rightarrow> bytes list \<Rightarrow> bytes list \<Rightarrow> (decisionWalk \<times> bool) option" where
  "walkDecisionRecords C F dir tree wanted exact =
     (if dir = [] then Some (empty_walk, False)
      else do {
        require (requirePlainSpelling dir False);
        there \<leftarrow> registryContainerReachable F dir;
        (if \<not> there then Some (empty_walk, False)
         else do {
           info \<leftarrow> statInput F dir;
           (case info of
              None \<Rightarrow> Some (empty_walk, False)
            | Some StatDir \<Rightarrow>
                (case tree of
                   Refused \<Rightarrow> None
                 | Absent \<Rightarrow> Some (empty_walk, True)
                 | There files \<Rightarrow> Some (walk_tree C wanted exact files, True))
            | Some _ \<Rightarrow> None) }) })"

end
