(* ===== verification/Verify.thy ===== *)
theory Verify
  imports Records "HOL-Library.Product_Lexorder"
begin

text \<open>
  Verification (\<^verbatim>\<open>verify.go\<close>, \<^verbatim>\<open>action_receipt.go\<close>, \<^verbatim>\<open>descriptor_provenance.go\<close>): the ladder of checks
  on a receipt, the chain of a session, and the report on a whole store against its registry.

  The store a verifier reads is the record \<open>evidence\<close>: the entries of its receipts directory, each
  session's entries, and the artifacts by name.  A finding of the source is a map of members; here
  it is a constructor for each set of members it can have, and each status is a constructor.
  \<open>None\<close> is a refusal: no report is given.
\<close>

section \<open>Evidence\<close>

datatype file_entry = SubDirectory | RegularFile "bytes option"

datatype session_entry = NotADirectory | UnreadableSession | SessionFiles "(bytes \<times> file_entry) list"

record evidence =
  ev_root :: "unit look"
  ev_receipts :: "(bytes \<times> session_entry) list look"
  ev_artifacts :: "bytes \<rightharpoonup> bytes"
  ev_regular :: "bytes \<Rightarrow> bool"

datatype status =
    Ok | Malformed | UnsupportedVersion | KeyMismatch | SignatureMismatch | Misfiled
  | AuthorityMismatch | ArtifactMissing | ArtifactMismatch
  | DescriptorProvenanceMissing | DescriptorProvenanceMismatch
  | SequenceBroken | ChainBroken
  | ActionReconciliationUnresolved
  | UnregisteredSession | TailRollback | CountExceedsSeal | SealedSessionMissing
  | RecordCitationMalformed | RecordCitationUnresolved
  | CitationUnresolved | DecisionRecordMismatch | DecisionPackMismatch | DecisionCitesMismatch
  | DecisionTrailMismatch

datatype finding =
    FileFinding bytes bytes status
  | ReceiptFinding bytes int status
  | SessionFinding bytes status
  | CountFinding bytes status int int
  | RecordFinding bytes status
  | RotationFinding rotation_status nat

section \<open>The ladder\<close>

definition descriptorStatementContext :: bytes where
  "descriptorStatementContext = ''judgment-pack-gateway/descriptor-statement/1:''"

definition maxDescriptorStatementBytes :: nat where
  "maxDescriptorStatementBytes = 16 * 1024"

definition maxSnapshotBytes :: nat where
  "maxSnapshotBytes = 320 * 1024"

definition provenance_value :: "descriptorProvenance \<Rightarrow> jvalue" where
  "provenance_value p =
     VObject [(''snapshot'', VString (dp_snapshot p)), (''statement'', VString (dp_statement p)),
              (''binding'', VString (dp_binding p))]"

definition trim_digest :: "bytes \<Rightarrow> bytes" where
  "trim_digest d = (case cut_prefix ''sha256:'' d of Some h \<Rightarrow> h | None \<Rightarrow> d)"

definition read_bounded :: "evidence \<Rightarrow> bytes \<Rightarrow> nat \<Rightarrow> bytes option" where
  "read_bounded E name limit =
     (case ev_artifacts E name of
        Some data \<Rightarrow> if ev_regular E name \<and> length data \<le> limit then Some data else None
      | None \<Rightarrow> None)"

definition readDescriptorArtifacts :: "evidence \<Rightarrow> descriptorProvenance \<Rightarrow> status + bytes \<times> bytes" where
  "readDescriptorArtifacts E p =
     (if descriptorProvenanceFrom (provenance_value p) = None then Inl DescriptorProvenanceMismatch
      else case (read_bounded E (trim_digest (dp_snapshot p)) maxSnapshotBytes,
                 read_bounded E (trim_digest (dp_statement p)) maxDescriptorStatementBytes) of
        (Some snapshot, Some statement) \<Rightarrow> Inr (snapshot, statement)
      | _ \<Rightarrow> Inl DescriptorProvenanceMissing)"

definition descriptor_statement_names :: "bytes list" where
  "descriptor_statement_names =
     [''statementVersion'', ''authority'', ''keyId'', ''source'', ''binding'', ''snapshot'', ''endpoint'',
      ''capturedAt'', ''signature'']"

definition is_string :: "jvalue \<Rightarrow> bool" where
  "is_string v = (case v of VString _ \<Rightarrow> True | _ \<Rightarrow> False)"

definition checkDescriptorProvenance ::
  "crypto \<Rightarrow> evidence \<Rightarrow> descriptorProvenance \<Rightarrow> bytes \<Rightarrow> bytes \<Rightarrow> bytes \<Rightarrow> bool \<Rightarrow> reachedKey list \<Rightarrow> status" where
  "checkDescriptorProvenance C E p authority source endpoint remote keys =
     (case readDescriptorArtifacts E p of
        Inl status \<Rightarrow> status
      | Inr (snapshot, statement) \<Rightarrow>
          let fail = DescriptorProvenanceMismatch in
          if digest_of C snapshot \<noteq> dp_snapshot p \<or> digest_of C statement \<noteq> dp_statement p then fail
          else (case parseJSON statement of
             Inr (VObject obj) \<Rightarrow>
               if canon (VObject obj) \<noteq> statement then fail
               else if \<not> exactlyMembers obj (all_required descriptor_statement_names) then fail
               else if \<not> list_all (\<lambda>m. is_string (snd m)) obj then fail
               else if string_of obj ''statementVersion'' \<noteq> ''1'' \<or> string_of obj ''authority'' \<noteq> authority \<or>
                       string_of obj ''source'' \<noteq> source \<or> string_of obj ''binding'' \<noteq> dp_binding p \<or>
                       string_of obj ''snapshot'' \<noteq> dp_snapshot p \<or>
                       \<not> isLowerHexOfLen (string_of obj ''keyId'') 32 \<or>
                       \<not> isSignature3 (string_of obj ''signature'') \<or>
                       \<not> capturedAtForm (string_of obj ''capturedAt'')
               then fail
               else if \<not> date_exists (string_of obj ''capturedAt'') then fail
               else if (string_of obj ''endpoint'' \<noteq> [] \<or> remote) \<and>
                       (\<not> isRemoteEndpoint (string_of obj ''endpoint'') \<or> string_of obj ''endpoint'' \<noteq> endpoint)
               then fail
               else (case hex_decode (string_of obj ''signature'') of
                  Some sig \<Rightarrow>
                    if list_ex (\<lambda>k. rk_keyID k = string_of obj ''keyId'' \<and>
                         ed_verify C (rk_key k)
                           (descriptorStatementContext @ canon (VObject (filter (\<lambda>m. fst m \<noteq> ''signature'') obj))) sig) keys
                    then Ok else fail
                | None \<Rightarrow> fail)
           | _ \<Rightarrow> fail))"

text \<open>The status of a receipt whose signature holds: where it sits, whose it is, and what it
  attests.\<close>

definition check_placed ::
  "crypto \<Rightarrow> evidence \<Rightarrow> receipt \<Rightarrow> bytes \<Rightarrow> bytes \<Rightarrow> bytes \<Rightarrow> reachedKey list \<Rightarrow> status" where
  "check_placed C E r sessionID fileName authority reached =
     (let digestHex = trim_digest (r_resultDigest r) in
      if parse_int (trim_suffix fileName ''.json'') \<noteq> Some (r_callIndex r) \<or> r_sessionID r \<noteq> sessionID
      then Misfiled
      else if r_authority r \<noteq> authority then AuthorityMismatch
      else (case ev_artifacts E digestHex of
         None \<Rightarrow> ArtifactMissing
       | Some artifact \<Rightarrow>
           if hex_encode (sha256 C artifact) \<noteq> digestHex then ArtifactMismatch
           else if r_version r = receiptVersion3 \<and> r_kind r = ''acquisition'' then
             (case obj_get (r_obj r) ''acquisition'' of
                Some (VObject acq) \<Rightarrow>
                  (case Option.bind (obj_get acq ''descriptorProvenance'') descriptorProvenanceFrom of
                     Some p \<Rightarrow>
                       checkDescriptorProvenance C E p authority (string_of (r_obj r) ''source'')
                         (string_of acq ''endpoint'') (string_of acq ''transport'' = ''http'') reached
                   | None \<Rightarrow> Ok)
              | _ \<Rightarrow> Ok)
           else Ok))"

text \<open>A receipt that fails the first order is none, and its status is malformed.\<close>

definition checkReceiptUnder ::
  "crypto \<Rightarrow> bytes \<Rightarrow> evidence \<Rightarrow> bytes \<Rightarrow> bytes \<Rightarrow> bytes \<Rightarrow> reachedKey list \<Rightarrow> receipt option \<times> status" where
  "checkReceiptUnder C data E sessionID fileName authority keys =
     (case Option.bind (parse_object data) receiptFrom of
        None \<Rightarrow> (None, Malformed)
      | Some r \<Rightarrow>
          if \<not> isDigest (r_resultDigest r) then (None, Malformed)
          else (case hex_decode (r_signature r) of
             None \<Rightarrow> (None, Malformed)
           | Some sig \<Rightarrow>
               if r_version r \<noteq> receiptVersion \<and> r_version r \<noteq> receiptVersion3 then (Some r, UnsupportedVersion)
               else (case key_position keys (r_keyID r) of
                  None \<Rightarrow> (Some (r\<lparr> r_keyPos := -1 \<rparr>), KeyMismatch)
                | Some pos \<Rightarrow>
                    let r = r\<lparr> r_keyPos := int pos \<rparr> in
                    if length sig \<noteq> signatureSize then (Some r, SignatureMismatch)
                    else if \<not> ed_verify C (rk_key (keys ! pos)) (signingInput r) sig then (Some r, SignatureMismatch)
                    else (Some r, check_placed C E r sessionID fileName authority (take (Suc pos) keys)))))"

section \<open>A session\<close>

record sessionResult =
  sr_reconciling :: "receipt list"
  sr_findings :: "finding list"
  sr_count :: int
  sr_signatures :: "bytes \<rightharpoonup> bytes"
  sr_actions :: "receipt list"
  sr_named :: "receipt list"

text \<open>The state of the loop over a session's files.\<close>

record session_scan =
  sc_result :: sessionResult
  sc_valid :: "receipt list"

definition judge_file ::
  "crypto \<Rightarrow> evidence \<Rightarrow> bytes \<Rightarrow> bytes \<Rightarrow> reachedKey list \<Rightarrow> bytes \<times> bytes \<Rightarrow> session_scan \<Rightarrow> session_scan" where
  "judge_file C E sessionID authority keys f s =
     (case f of (name, data) \<Rightarrow>
        let res = sc_result s;
            res = (case topLevelSignature data of
                     Some signature \<Rightarrow>
                       res\<lparr> sr_signatures := (sr_signatures res)(trim_suffix name ''.json'' \<mapsto> signature) \<rparr>
                   | None \<Rightarrow> res)
        in (case checkReceiptUnder C data E sessionID name authority keys of
              (None, status) \<Rightarrow>
                s\<lparr> sc_result := res\<lparr> sr_findings := sr_findings res @ [FileFinding sessionID name status] \<rparr> \<rparr>
            | (Some r, status) \<Rightarrow>
                let res = res\<lparr> sr_findings := sr_findings res @ [ReceiptFinding sessionID (r_callIndex r) status] \<rparr>
                in if status \<noteq> Ok then s\<lparr> sc_result := res \<rparr>
                   else s\<lparr> sc_result :=
                            res\<lparr> sr_reconciling := sr_reconciling res @ (if r_reconciliation r \<noteq> None then [r] else []),
                                 sr_actions := sr_actions res @ (if r_kind r = ''action'' then [r] else []),
                                 sr_named := sr_named res @ (if r_witness r \<noteq> None then [r] else []) \<rparr>,
                          sc_valid := sc_valid s @ [r] \<rparr>))"

definition contiguous :: "receipt list \<Rightarrow> bool" where
  "contiguous valid \<longleftrightarrow> map r_callIndex valid = map int [0..<length valid]"

text \<open>The receipt at a place of the chain holds: it names the one before it, is of the head's
  version, and is under no earlier key.\<close>

definition link_holds :: "receipt list \<Rightarrow> nat \<Rightarrow> bool" where
  "link_holds valid i \<longleftrightarrow>
     (let r = valid ! i in
      if i = 0 then r_prevSignature r = None
      else r_prevSignature r = Some (r_signature (valid ! (i - 1))) \<and>
           r_version r = r_version (valid ! 0) \<and> r_keyPos (valid ! (i - 1)) \<le> r_keyPos r)"

definition chain_findings :: "bytes \<Rightarrow> receipt list \<Rightarrow> finding list" where
  "chain_findings sessionID valid =
     (let valid = sort_key r_callIndex valid in
      if \<not> contiguous valid then [SessionFinding sessionID SequenceBroken]
      else if list_all (link_holds valid) [0..<length valid] then []
      else [SessionFinding sessionID ChainBroken])"

text \<open>The receipt files of a session, sorted by name; \<open>None\<close> when one cannot be read.\<close>

definition receipt_files :: "(bytes \<times> file_entry) list \<Rightarrow> (bytes \<times> bytes) list option" where
  "receipt_files entries =
     option_list (map (\<lambda>(name, e). case e of RegularFile (Some data) \<Rightarrow> Some (name, data) | _ \<Rightarrow> None)
       (sort_key fst (filter (\<lambda>(name, e). e \<noteq> SubDirectory \<and> has_suffix name ''.json'') entries)))"

definition empty_scan :: session_scan where
  "empty_scan =
     \<lparr> sc_result = \<lparr> sr_reconciling = [], sr_findings = [], sr_count = 0, sr_signatures = Map.empty,
                     sr_actions = [], sr_named = [] \<rparr>,
       sc_valid = [] \<rparr>"

definition verifySessionUnder ::
  "crypto \<Rightarrow> evidence \<Rightarrow> bytes \<Rightarrow> session_entry \<Rightarrow> bytes \<Rightarrow> reachedKey list \<Rightarrow> sessionResult option" where
  "verifySessionUnder C E sessionID entry authority keys =
     (case entry of
        SessionFiles entries \<Rightarrow> do {
          files \<leftarrow> receipt_files entries;
          let s = fold (judge_file C E sessionID authority keys) files empty_scan;
          let res = sc_result s;
          Some (res\<lparr> sr_findings := sr_findings res @ chain_findings sessionID (sc_valid s),
                     sr_count := int (length files) \<rparr>) }
      | _ \<Rightarrow> None)"

section \<open>Actions and their read-backs\<close>

definition citation_of :: "receipt \<Rightarrow> citation" where
  "citation_of r = \<lparr> ct_session = r_sessionID r, ct_index = r_callIndex r, ct_signature = r_signature r \<rparr>"

definition cut_suffix :: "bytes \<Rightarrow> bytes \<Rightarrow> bytes option" where
  "cut_suffix s suf = (if has_suffix s suf then Some (trim_suffix s suf) else None)"

definition reconciliationMatches :: "receipt \<Rightarrow> receipt option \<Rightarrow> bool" where
  "reconciliationMatches read action =
     (case (r_reconciliation read, action) of
        (Some rc, Some act) \<Rightarrow>
          (case r_delivery act of
             None \<Rightarrow> False
           | Some d \<Rightarrow>
               r_kind act = ''action'' \<and>
               ct_signature (ar_action rc) = r_signature act \<and> ar_key rc = ad_key d \<and>
               ar_contract rc = ad_contract d \<and> ad_outcome d = ''uncertain'' \<and>
               r_authority read = r_authority act \<and>
               (case cut_suffix (string_of (r_obj act) ''source'') ''/write'' of
                  None \<Rightarrow> False
                | Some platform \<Rightarrow> platform \<noteq> [] \<and> string_of (r_obj read) ''source'' = platform @ ''/live'') \<and>
               (case obj_get (r_obj read) ''acquisition'' of
                  Some (VObject a) \<Rightarrow> string_of a ''shape'' = ''mcp''
                | _ \<Rightarrow> False) \<and>
               (case obj_get (r_obj act) ''action'' of
                  Some (VObject ao) \<Rightarrow>
                    (case (obj_get ao ''requester'', obj_get (r_obj read) ''caller'') of
                       (Some (VObject a), Some (VObject b)) \<Rightarrow>
                         string_of a ''issuer'' = string_of b ''issuer'' \<and>
                         string_of a ''subject'' = string_of b ''subject''
                     | _ \<Rightarrow> False)
                | _ \<Rightarrow> False))
      | _ \<Rightarrow> False)"

datatype observation = ActionUncertain | ActionCommitted | ActionMismatch | RecordNotCompared

fun observation_rank :: "observation \<Rightarrow> nat" where
  "observation_rank ActionUncertain = 0"
| "observation_rank ActionCommitted = 1"
| "observation_rank ActionMismatch = 2"
| "observation_rank RecordNotCompared = 0"

definition raise_to :: "observation \<Rightarrow> observation \<Rightarrow> observation" where
  "raise_to new old = (if observation_rank new > observation_rank old then new else old)"

definition is_uncertain :: "receipt \<Rightarrow> bool" where
  "is_uncertain a = (case r_delivery a of Some d \<Rightarrow> ad_outcome d = ''uncertain'' | None \<Rightarrow> False)"

text \<open>What one read-back of an action makes of what was observed of it.\<close>

definition observe_read :: "receipt \<Rightarrow> receipt \<Rightarrow> observation \<Rightarrow> observation" where
  "observe_read a read seen =
     (case r_reconciliation read of
        None \<Rightarrow> seen
      | Some rc \<Rightarrow>
          if ct_session (ar_action rc) \<noteq> r_sessionID a \<or> ct_index (ar_action rc) \<noteq> r_callIndex a then seen
          else if \<not> reconciliationMatches read (Some a) then raise_to ActionMismatch seen
          else if ar_outcome rc = ''committed'' then raise_to ActionCommitted seen
          else seen)"

text \<open>Of the uncertain actions at one position the last is the one a read-back cites.\<close>

fun deliveryObservations :: "receipt list \<Rightarrow> receipt list \<Rightarrow> (bytes \<times> int \<times> observation) list" where
  "deliveryObservations [] reconciling = []"
| "deliveryObservations (a # later) reconciling =
     (if \<not> is_uncertain a then deliveryObservations later reconciling
      else (r_sessionID a, r_callIndex a,
            if list_ex (\<lambda>b. is_uncertain b \<and> r_sessionID b = r_sessionID a \<and> r_callIndex b = r_callIndex a) later
            then ActionUncertain
            else fold (observe_read a) reconciling ActionUncertain)
           # deliveryObservations later reconciling)"

definition reconciliation_findings :: "receipt list \<Rightarrow> receipt list \<Rightarrow> finding list" where
  "reconciliation_findings actions reconciling =
     (let target = map_of (rev (map (\<lambda>a. (citation_of a, a)) actions)) in
      map (\<lambda>read. ReceiptFinding (r_sessionID read) (r_callIndex read) ActionReconciliationUnresolved)
        (filter (\<lambda>read. case r_reconciliation read of
                   Some rc \<Rightarrow> \<not> reconciliationMatches read (target (ar_action rc))
                 | None \<Rightarrow> False) reconciling))"

section \<open>The report\<close>

record report =
  rp_ok :: bool
  rp_findings :: "finding list"
  rp_observations :: "(bytes \<times> int \<times> observation) list"
  rp_witnesses :: "(bytes \<times> bytes \<times> bytes) list"
  rp_namedAt :: "((bytes \<times> bytes \<times> bytes) \<times> bytes list) list"
  rp_rotations :: "(nat \<times> bytes) option"

definition naming_triple :: "receipt \<Rightarrow> (bytes \<times> bytes \<times> bytes) option" where
  "naming_triple r = map_option (\<lambda>w. (wn_trail w, wn_origin w, wn_keyID w)) (r_witness r)"

definition witnessesNamed :: "receipt list \<Rightarrow> report \<Rightarrow> report" where
  "witnessesNamed naming rep =
     (let triples = remdups (List.map_filter naming_triple naming) in
      rep\<lparr> rp_witnesses := sort triples,
           rp_namedAt := map (\<lambda>t. (t, sort (remdups (map r_servedAt (filter (\<lambda>r. naming_triple r = Some t) naming))))) triples \<rparr>)"

fun status_of :: "finding \<Rightarrow> status option" where
  "status_of (FileFinding s f st) = Some st"
| "status_of (ReceiptFinding s i st) = Some st"
| "status_of (SessionFinding s st) = Some st"
| "status_of (CountFinding s st have sealed) = Some st"
| "status_of (RecordFinding d st) = Some st"
| "status_of (RotationFinding st n) = None"

definition listSessions :: "evidence \<Rightarrow> (bytes \<times> session_entry) list option" where
  "listSessions E =
     (case ev_receipts E of
        Absent \<Rightarrow> Some []
      | Refused \<Rightarrow> None
      | There entries \<Rightarrow> Some (sort_key fst (filter (\<lambda>(name, e). e \<noteq> NotADirectory) entries)))"

text \<open>Every session of the store is anchored, with as many receipts as its seal counts.\<close>

definition anchor_findings :: "(bytes \<rightharpoonup> seal) \<Rightarrow> (bytes \<times> sessionResult) list \<Rightarrow> finding list" where
  "anchor_findings seals results =
     concat (map (\<lambda>(sessionID, res).
       case seals sessionID of
         None \<Rightarrow> [SessionFinding sessionID UnregisteredSession]
       | Some s \<Rightarrow>
           if sr_count res < seal_count s then [CountFinding sessionID TailRollback (sr_count res) (seal_count s)]
           else if sr_count res > seal_count s then [CountFinding sessionID CountExceedsSeal (sr_count res) (seal_count s)]
           else []) results)"

definition missing_findings :: "bytes list \<Rightarrow> bytes list \<Rightarrow> finding list" where
  "missing_findings sessions sealOrder =
     map (\<lambda>s. SessionFinding s SealedSessionMissing) (filter (\<lambda>s. s \<notin> set sessions) sealOrder)"

definition resolves :: "(bytes \<times> sessionResult) list \<Rightarrow> citation \<Rightarrow> bool" where
  "resolves results c \<longleftrightarrow>
     (case map_of results (ct_session c) of
        None \<Rightarrow> False
      | Some res \<Rightarrow> sr_signatures res (format_int (ct_index c)) = Some (ct_signature c))"

definition record_findings :: "(bytes \<times> sessionResult) list \<Rightarrow> citingRecord list \<Rightarrow> finding list" where
  "record_findings results records =
     concat (map (\<lambda>r.
       if cr_malformed r then [RecordFinding (cr_digest r) RecordCitationMalformed]
       else if list_all (resolves results) (cr_cites r) then []
       else [RecordFinding (cr_digest r) RecordCitationUnresolved]) records)"

text \<open>The findings and the observation of one action receipt: its citations, its decision record,
  and what the record states of its claims.\<close>

definition action_findings ::
  "(bytes \<times> sessionResult) list \<Rightarrow> decisionWalk \<Rightarrow> bool \<Rightarrow> receipt \<Rightarrow> finding list \<times> (bytes \<times> int \<times> observation) list" where
  "action_findings results walk recordsPresent r =
     (let at = ReceiptFinding (r_sessionID r) (r_callIndex r);
          cited = (if list_all (resolves results) (r_cites r) then [] else [at CitationUnresolved]);
          recordHex = trim_digest (r_recordDigest r);
          found = (if r_exactRecord r then dw_foundExact walk else dw_found walk);
          handed = (if r_exactRecord r then dw_handedExact walk else dw_handed walk)
      in if \<not> recordsPresent \<or> recordHex \<notin> set found then (cited @ [at DecisionRecordMismatch], [])
         else (case map_of handed recordHex of
            None \<Rightarrow> (cited, [(r_sessionID r, r_callIndex r, RecordNotCompared)])
          | Some data \<Rightarrow>
              let claims = recordClaimsOf data in
              if \<not> rc_understood claims then (cited, [(r_sessionID r, r_callIndex r, RecordNotCompared)])
              else (cited
                    @ (if rc_packDigest claims \<noteq> r_packDigest r then [at DecisionPackMismatch] else [])
                    @ (if \<not> rc_citesRead claims \<or> \<not> sameCitations (rc_cites claims) (r_cites r)
                       then [at DecisionCitesMismatch] else [])
                    @ (case r_witness r of
                         Some w \<Rightarrow> if rc_trail claims \<noteq> wn_trail w then [at DecisionTrailMismatch] else []
                       | None \<Rightarrow> []), [])))"

definition wanted_digests :: "bool \<Rightarrow> receipt list \<Rightarrow> bytes list" where
  "wanted_digests exact actions =
     map (\<lambda>r. trim_digest (r_recordDigest r)) (filter (\<lambda>r. r_exactRecord r = exact) actions)"

fun verify_sessions ::
  "crypto \<Rightarrow> evidence \<Rightarrow> bytes \<Rightarrow> reachedKey list \<Rightarrow> (bytes \<times> session_entry) list \<Rightarrow> (bytes \<times> sessionResult) list option" where
  "verify_sessions C E authority keys [] = Some []"
| "verify_sessions C E authority keys ((sessionID, entry) # rest) = do {
     res \<leftarrow> verifySessionUnder C E sessionID entry authority keys;
     results \<leftarrow> verify_sessions C E authority keys rest;
     Some ((sessionID, res) # results) }"

definition walk_for :: "crypto \<Rightarrow> bool \<Rightarrow> bytes \<Rightarrow> bytes \<Rightarrow> registryWalk option" where
  "walk_for C registryRequired data publicKey =
     (if registryRequired then (case engineWalk C data publicKey of Inl _ \<Rightarrow> None | Inr w \<Rightarrow> Some w)
      else Some (walkRegistry C data publicKey))"

text \<open>The report on the sessions verified, the walk of the registry and the walk of the decision
  records.\<close>

definition report_on ::
  "registryWalk \<Rightarrow> (bytes \<times> sessionResult) list \<Rightarrow> decisionWalk \<Rightarrow> bool \<Rightarrow> report" where
  "report_on walk results records recordsPresent =
     (let actions = concat (map (sr_actions \<circ> snd) results);
          reconciling = concat (map (sr_reconciling \<circ> snd) results);
          naming = concat (map (sr_named \<circ> snd) results);
          judged = map (action_findings results records recordsPresent) actions;
          findings =
            concat (map (sr_findings \<circ> snd) results)
            @ reconciliation_findings actions reconciling
            @ (case rw_finding walk of Some (st, n) \<Rightarrow> [RotationFinding st n] | None \<Rightarrow> [])
            @ anchor_findings (rw_seals walk) results
            @ missing_findings (map fst results) (rw_order walk)
            @ concat (map fst judged)
            @ record_findings results (dw_records records)
      in witnessesNamed naming
           \<lparr> rp_ok = list_all (\<lambda>f. status_of f = Some Ok) findings, rp_findings = findings,
             rp_observations = deliveryObservations actions reconciling @ concat (map snd judged),
             rp_witnesses = [], rp_namedAt = [],
             rp_rotations = (if followed walk > 0 then Some (followed walk, rk_keyID (current walk)) else None) \<rparr>)"

definition verifyAgainst ::
  "crypto \<Rightarrow> files \<Rightarrow> evidence \<Rightarrow> bytes \<Rightarrow> bytes \<Rightarrow> bytes \<Rightarrow> (bytes \<times> bytes) list look \<Rightarrow> bytes \<Rightarrow> bool \<Rightarrow> report option" where
  "verifyAgainst C F E registryPath authority decisionRecords tree publicKey registryRequired = do {
     require (requirePlainSpelling registryPath True);
     require (decisionRecords \<noteq> [] \<longrightarrow> requirePlainSpelling decisionRecords False);
     require (ev_root E \<noteq> Refused);
     require (length publicKey = publicKeySize);
     sessions \<leftarrow> listSessions E;
     registryData \<leftarrow> readRegistryOf F registryPath registryRequired;
     walk \<leftarrow> walk_for C registryRequired registryData publicKey;
     results \<leftarrow> verify_sessions C E authority (rw_keys walk) sessions;
     let actions = concat (map (sr_actions \<circ> snd) results);
     (records, recordsPresent) \<leftarrow>
       walkDecisionRecords C F decisionRecords tree (wanted_digests False actions) (wanted_digests True actions);
     Some (report_on walk results records recordsPresent) }"

definition verifyWithRegistryAndRecords ::
  "crypto \<Rightarrow> files \<Rightarrow> evidence \<Rightarrow> bytes \<Rightarrow> bytes \<Rightarrow> bytes \<Rightarrow> (bytes \<times> bytes) list look \<Rightarrow> bytes \<Rightarrow> report option" where
  "verifyWithRegistryAndRecords C F E registryPath authority decisionRecords tree publicKey =
     verifyAgainst C F E registryPath authority decisionRecords tree publicKey False"

definition verifyWithRegistry :: "crypto \<Rightarrow> files \<Rightarrow> evidence \<Rightarrow> bytes \<Rightarrow> bytes \<Rightarrow> bytes \<Rightarrow> report option" where
  "verifyWithRegistry C F E registryPath authority publicKey =
     verifyWithRegistryAndRecords C F E registryPath authority [] Absent publicKey"

definition verifyAsEngine ::
  "crypto \<Rightarrow> files \<Rightarrow> evidence \<Rightarrow> bytes \<Rightarrow> bytes \<Rightarrow> bytes \<Rightarrow> (bytes \<times> bytes) list look \<Rightarrow> bytes \<Rightarrow> report option" where
  "verifyAsEngine C F E registryPath authority decisionRecords tree publicKey =
     verifyAgainst C F E registryPath authority decisionRecords tree publicKey True"

end
