(* ===== verification/Verify_Sound.thy ===== *)
theory Verify_Sound
  imports Verify
begin

text \<open>
  What a report that finds nothing establishes: every session of the store is sealed, its receipt
  files are as many as the seal counts and are a signed chain over retained artifacts, and every
  sealed session is there.  The theorems over these lemmas are in \<open>Verify_Claims\<close>.
\<close>

section \<open>One receipt\<close>

text \<open>The receipt a file holds, under the key at a place among the keys reached: its signature
  verifies there, it sits where it says, it is the authority's, and the artifact it attests is
  retained.\<close>

definition receipt_holds ::
  "crypto \<Rightarrow> evidence \<Rightarrow> bytes \<Rightarrow> reachedKey list \<Rightarrow> bytes \<Rightarrow> bytes \<times> bytes \<Rightarrow> receipt \<Rightarrow> bool" where
  "receipt_holds C E authority keys sid f r \<longleftrightarrow>
     (\<exists>obj r0 pos sig artifact.
        parse_object (snd f) = Some obj \<and> receiptFrom obj = Some r0 \<and> r = r0\<lparr> r_keyPos := int pos \<rparr> \<and>
        pos < length keys \<and> rk_keyID (keys ! pos) = r_keyID r \<and>
        hex_decode (r_signature r) = Some sig \<and> length sig = signatureSize \<and>
        ed_verify C (rk_key (keys ! pos)) (signingInput r) sig \<and>
        r_sessionID r = sid \<and> parse_int (trim_suffix (fst f) ''.json'') = Some (r_callIndex r) \<and>
        r_authority r = authority \<and>
        ev_artifacts E (trim_digest (r_resultDigest r)) = Some artifact \<and>
        r_resultDigest r = digest_of C artifact)"

lemma key_position_Some:
  "key_position ks i = Some n \<Longrightarrow> n < length ks \<and> rk_keyID (ks ! n) = i"
  by (induction ks arbitrary: n) (auto split: if_splits)

lemma isDigest_trim: "isDigest d \<Longrightarrow> d = ''sha256:'' @ trim_digest d"
  unfolding isDigest_def trim_digest_def
  by (cases "cut_prefix ''sha256:'' d") (simp_all only: option.case cut_prefix_eq_Some cut_prefix_append)

lemma check_placed_Ok:
  assumes "check_placed C E r sid name authority reached = Ok"
  obtains artifact where
    "parse_int (trim_suffix name ''.json'') = Some (r_callIndex r)" "r_sessionID r = sid"
    "r_authority r = authority" "ev_artifacts E (trim_digest (r_resultDigest r)) = Some artifact"
    "hex_encode (sha256 C artifact) = trim_digest (r_resultDigest r)"
proof (cases "ev_artifacts E (trim_digest (r_resultDigest r))")
  case None
  with assms show thesis by (simp add: check_placed_def Let_def split: if_splits)
next
  case (Some artifact)
  with assms show thesis
    by (intro that [of artifact]; simp add: check_placed_def Let_def split: if_splits)
qed

text \<open>The ladder up to the signature: what a receipt that reaches a status other than malformed,
  an unsupported version or a key or signature mismatch has passed.\<close>

lemma checkReceiptUnder_cases:
  assumes "checkReceiptUnder C data E sid name authority keys = (answer, st)"
  obtains (Refused) "answer = None" "st = Malformed"
  | (Failed) r where "answer = Some r" "st \<in> {UnsupportedVersion, KeyMismatch, SignatureMismatch}"
  | (Signed) obj r0 pos sig r where "parse_object data = Some obj" "receiptFrom obj = Some r0"
      "isDigest (r_resultDigest r0)" "hex_decode (r_signature r0) = Some sig"
      "r_version r0 = receiptVersion \<or> r_version r0 = receiptVersion3"
      "key_position keys (r_keyID r0) = Some pos" "r = r0\<lparr> r_keyPos := int pos \<rparr>"
      "length sig = signatureSize" "ed_verify C (rk_key (keys ! pos)) (signingInput r) sig"
      "answer = Some r" "st = check_placed C E r sid name authority (take (Suc pos) keys)"
proof (cases "Option.bind (parse_object data) receiptFrom")
  case None
  with assms Refused show thesis by (simp add: checkReceiptUnder_def)
next
  case (Some r0)
  then obtain obj where obj: "parse_object data = Some obj" "receiptFrom obj = Some r0"
    by (auto simp: Option.bind_eq_Some_conv)
  show thesis
  proof (cases "isDigest (r_resultDigest r0) \<and> hex_decode (r_signature r0) \<noteq> None")
    case False
    with assms Some Refused show thesis
      by (auto simp: checkReceiptUnder_def split: if_splits option.splits)
  next
    case True
    then obtain sig where sig: "isDigest (r_resultDigest r0)" "hex_decode (r_signature r0) = Some sig" by auto
    show thesis
    proof (cases "(r_version r0 = receiptVersion \<or> r_version r0 = receiptVersion3) \<and> key_position keys (r_keyID r0) \<noteq> None")
      case False
      then have "(\<exists>r. answer = Some r) \<and> st \<in> {UnsupportedVersion, KeyMismatch, SignatureMismatch}"
        using assms sig unfolding checkReceiptUnder_def Some by (auto split: if_splits)
      with Failed show thesis by blast
    next
      case True
      then obtain pos where pos: "key_position keys (r_keyID r0) = Some pos" by auto
      let ?r = "r0\<lparr> r_keyPos := int pos \<rparr>"
      have "(answer, st) =
          (if length sig \<noteq> signatureSize then (Some ?r, SignatureMismatch)
           else if \<not> ed_verify C (rk_key (keys ! pos)) (signingInput ?r) sig then (Some ?r, SignatureMismatch)
           else (Some ?r, check_placed C E ?r sid name authority (take (Suc pos) keys)))"
        using assms Some sig True pos by (auto simp: checkReceiptUnder_def Let_def)
      then consider "answer = Some ?r" "st = SignatureMismatch"
        | "length sig = signatureSize" "ed_verify C (rk_key (keys ! pos)) (signingInput ?r) sig"
          "answer = Some ?r" "st = check_placed C E ?r sid name authority (take (Suc pos) keys)"
        by (metis prod.inject)
      then show thesis
      proof cases
        case 1
        with Failed show thesis by blast
      next
        case 2
        then show thesis using Signed [OF obj sig _ pos refl] True by blast
      qed
    qed
  qed
qed

lemma checkReceiptUnder_Ok:
  assumes "checkReceiptUnder C data E sid name authority keys = (Some r, Ok)"
  shows "receipt_holds C E authority keys sid (name, data) r"
  using assms
proof (cases rule: checkReceiptUnder_cases)
  case (Signed obj r0 pos sig r')
  then have placed: "check_placed C E r sid name authority (take (Suc pos) keys) = Ok" and r: "r' = r" by simp_all
  from placed obtain artifact where
    a: "parse_int (trim_suffix name ''.json'') = Some (r_callIndex r)" "r_sessionID r = sid"
    "r_authority r = authority" "ev_artifacts E (trim_digest (r_resultDigest r)) = Some artifact"
    "hex_encode (sha256 C artifact) = trim_digest (r_resultDigest r)"
    by (rule check_placed_Ok)
  have "isDigest (r_resultDigest r)" using Signed r by simp
  then have "r_resultDigest r = digest_of C artifact"
    using isDigest_trim a(5) by (simp add: digest_of_def)
  then show ?thesis
    unfolding receipt_holds_def
    using Signed a r key_position_Some [OF Signed(6)]
    by (intro exI [of _ obj] exI [of _ r0] exI [of _ pos] exI [of _ sig] exI [of _ artifact]) simp
qed auto

section \<open>One session\<close>

text \<open>The receipts of the files that pass the ladder, and the finding of each file.\<close>

definition passed_receipt ::
  "crypto \<Rightarrow> evidence \<Rightarrow> bytes \<Rightarrow> reachedKey list \<Rightarrow> bytes \<Rightarrow> bytes \<times> bytes \<Rightarrow> receipt option" where
  "passed_receipt C E authority keys sid f =
     (case checkReceiptUnder C (snd f) E sid (fst f) authority keys of (Some r, Ok) \<Rightarrow> Some r | _ \<Rightarrow> None)"

definition file_finding ::
  "crypto \<Rightarrow> evidence \<Rightarrow> bytes \<Rightarrow> reachedKey list \<Rightarrow> bytes \<Rightarrow> bytes \<times> bytes \<Rightarrow> finding" where
  "file_finding C E authority keys sid f =
     (case checkReceiptUnder C (snd f) E sid (fst f) authority keys of
        (Some r, status) \<Rightarrow> ReceiptFinding sid (r_callIndex r) status
      | (None, status) \<Rightarrow> FileFinding sid (fst f) status)"

abbreviation (input) passed where
  "passed C E authority keys sid files \<equiv> List.map_filter (passed_receipt C E authority keys sid) files"

lemma judge_file_step:
  fixes C E authority keys sid f s
  defines "s' \<equiv> judge_file C E sid authority keys f s"
    and "new \<equiv> (case passed_receipt C E authority keys sid f of Some r \<Rightarrow> [r] | None \<Rightarrow> [])"
  shows "sc_valid s' = sc_valid s @ new"
    and "sr_findings (sc_result s') = sr_findings (sc_result s) @ [file_finding C E authority keys sid f]"
    and "sr_actions (sc_result s') = sr_actions (sc_result s) @ filter (\<lambda>r. r_kind r = ''action'') new"
    and "sr_reconciling (sc_result s') = sr_reconciling (sc_result s) @ filter (\<lambda>r. r_reconciliation r \<noteq> None) new"
    and "sr_named (sc_result s') = sr_named (sc_result s) @ filter (\<lambda>r. r_witness r \<noteq> None) new"
proof -
  obtain name data where f: "f = (name, data)" by (cases f)
  obtain ans st where c: "checkReceiptUnder C data E sid name authority keys = (ans, st)" by fastforce
  note step = passed_receipt_def file_finding_def judge_file_def Let_def f c s'_def new_def
  show "sc_valid s' = sc_valid s @ new"
    by (cases ans; cases st; cases "topLevelSignature data"; simp add: step)
  show "sr_findings (sc_result s') = sr_findings (sc_result s) @ [file_finding C E authority keys sid f]"
    by (cases ans; cases "st = Ok"; cases "topLevelSignature data"; simp add: step)
  show "sr_actions (sc_result s') = sr_actions (sc_result s) @ filter (\<lambda>r. r_kind r = ''action'') new"
    by (cases ans; cases st; cases "topLevelSignature data"; simp add: step)
  show "sr_reconciling (sc_result s') = sr_reconciling (sc_result s) @ filter (\<lambda>r. r_reconciliation r \<noteq> None) new"
    by (cases ans; cases st; cases "topLevelSignature data"; simp add: step)
  show "sr_named (sc_result s') = sr_named (sc_result s) @ filter (\<lambda>r. r_witness r \<noteq> None) new"
    by (cases ans; cases st; cases "topLevelSignature data"; simp add: step)
qed

lemma judge_fold:
  fixes C E authority keys sid files s
  defines "s' \<equiv> fold (judge_file C E sid authority keys) files s"
  shows "sc_valid s' = sc_valid s @ passed C E authority keys sid files"
    and "sr_findings (sc_result s') = sr_findings (sc_result s) @ map (file_finding C E authority keys sid) files"
    and "sr_actions (sc_result s') =
      sr_actions (sc_result s) @ filter (\<lambda>r. r_kind r = ''action'') (passed C E authority keys sid files)"
    and "sr_reconciling (sc_result s') =
      sr_reconciling (sc_result s) @ filter (\<lambda>r. r_reconciliation r \<noteq> None) (passed C E authority keys sid files)"
    and "sr_named (sc_result s') =
      sr_named (sc_result s) @ filter (\<lambda>r. r_witness r \<noteq> None) (passed C E authority keys sid files)"
  unfolding s'_def
  by (induction files arbitrary: s)
    (simp_all add: judge_file_step List.map_filter_simps split: option.splits)

lemma file_finding_Ok:
  assumes "status_of (file_finding C E authority keys sid f) = Some Ok"
  obtains r where "passed_receipt C E authority keys sid f = Some r"
proof -
  obtain ans st where c: "checkReceiptUnder C (snd f) E sid (fst f) authority keys = (ans, st)" by fastforce
  then show thesis
  proof (cases rule: checkReceiptUnder_cases)
    case Refused
    with assms c show thesis by (simp add: file_finding_def)
  qed (use assms c that in \<open>auto simp: file_finding_def passed_receipt_def\<close>)
qed

lemma passed_all:
  assumes "list_all (\<lambda>f. status_of (file_finding C E authority keys sid f) = Some Ok) files"
  shows "list_all2 (\<lambda>f r. passed_receipt C E authority keys sid f = Some r) files (passed C E authority keys sid files)"
  using assms
proof (induction files)
  case (Cons f files)
  from Cons.prems have "status_of (file_finding C E authority keys sid f) = Some Ok" by simp
  then obtain r where "passed_receipt C E authority keys sid f = Some r" by (rule file_finding_Ok)
  with Cons show ?case by (simp add: List.map_filter_simps)
qed (simp add: List.map_filter_simps)

lemma list_all2_members:
  assumes "list_all2 P xs ys"
  shows "x \<in> set xs \<Longrightarrow> \<exists>y \<in> set ys. P x y" and "y \<in> set ys \<Longrightarrow> \<exists>x \<in> set xs. P x y"
  using assms by (metis in_set_conv_nth list_all2_conv_all_nth)+

text \<open>The evidence of a session: as many receipts as files, the receipt at each place of the chain
  held by one of the files, numbered by its place and linked to the one before.\<close>

definition session_attested ::
  "crypto \<Rightarrow> evidence \<Rightarrow> bytes \<Rightarrow> reachedKey list \<Rightarrow> bytes \<Rightarrow> (bytes \<times> bytes) list \<Rightarrow> receipt list \<Rightarrow> bool" where
  "session_attested C E authority keys sid files chain \<longleftrightarrow>
     length chain = length files \<and>
     (\<forall>i < length chain. \<exists>f \<in> set files. receipt_holds C E authority keys sid f (chain ! i) \<and>
        r_callIndex (chain ! i) = int i \<and> link_holds chain i) \<and>
     (\<forall>f \<in> set files. \<exists>r \<in> set chain. receipt_holds C E authority keys sid f r)"

lemma verifySessionUnder_attested:
  assumes "verifySessionUnder C E sid entry authority keys = Some res"
    and "list_all (\<lambda>f. status_of f = Some Ok) (sr_findings res)"
  shows "\<exists>entries files chain. entry = SessionFiles entries \<and> receipt_files entries = Some files \<and>
    sr_count res = int (length files) \<and> session_attested C E authority keys sid files chain"
proof -
  from assms(1) obtain entries files where e: "entry = SessionFiles entries" "receipt_files entries = Some files"
    and res: "sr_count res = int (length files)"
      "sr_findings res = map (file_finding C E authority keys sid) files
         @ chain_findings sid (passed C E authority keys sid files)"
    by (cases entry) (auto simp: verifySessionUnder_def Option.bind_eq_Some_conv Let_def judge_fold empty_scan_def)
  define valid where "valid = passed C E authority keys sid files"
  define chain where "chain = sort_key r_callIndex valid"
  have all: "list_all2 (\<lambda>f r. passed_receipt C E authority keys sid f = Some r) files valid"
    unfolding valid_def using assms(2) by (intro passed_all) (simp add: res list_all_iff)
  have "chain_findings sid valid = []"
    using assms(2) by (auto simp: res valid_def chain_findings_def Let_def split: if_splits)
  then have chain: "contiguous chain" "\<forall>i < length chain. link_holds chain i"
    by (auto simp: chain_findings_def Let_def chain_def list_all_iff split: if_splits)
  have holds: "receipt_holds C E authority keys sid f r" if "passed_receipt C E authority keys sid f = Some r" for f r
    using that checkReceiptUnder_Ok [of C "snd f" E sid "fst f"]
    by (auto simp: passed_receipt_def split: prod.splits option.splits status.splits)
  have "length chain = length files"
    using list_all2_lengthD [OF all] by (simp add: chain_def)
  moreover have "\<exists>f \<in> set files. receipt_holds C E authority keys sid f r" if "r \<in> set chain" for r
    using that list_all2_members(2) [OF all, of r] holds unfolding chain_def set_sort by blast
  moreover have "\<exists>r \<in> set chain. receipt_holds C E authority keys sid f r" if "f \<in> set files" for f
    using that list_all2_members(1) [OF all, of f] holds unfolding chain_def set_sort by blast
  moreover have "r_callIndex (chain ! i) = int i" if "i < length chain" for i
    using chain(1) that nth_map [of i chain r_callIndex] unfolding contiguous_def by simp
  ultimately have "session_attested C E authority keys sid files chain"
    using chain(2) unfolding session_attested_def by simp
  with e res(1) show ?thesis by blast
qed

section \<open>The store\<close>

lemma verify_sessions_all2:
  "verify_sessions C E authority keys ss = Some results \<longleftrightarrow>
     list_all2 (\<lambda>(sid, entry) (sid', res). sid' = sid \<and> verifySessionUnder C E sid entry authority keys = Some res) ss results"
proof (induction ss arbitrary: results)
  case (Cons s ss)
  then show ?case
    by (cases s; cases results) (auto simp: Option.bind_eq_Some_conv)
qed auto

lemma verify_sessions_fst: "verify_sessions C E authority keys ss = Some results \<Longrightarrow> map fst results = map fst ss"
  by (fastforce simp: verify_sessions_all2 list_all2_conv_all_nth intro!: nth_equalityI)

text \<open>The parts of a verification that answers.\<close>

lemma verifyAgainst_parts:
  assumes "verifyAgainst C F E reg authority dir tree key required = Some rep"
  obtains sessions data walk results records there where
    "listSessions E = Some sessions" "readRegistryOf F reg required = Some data"
    "walk_for C required data key = Some walk"
    "verify_sessions C E authority (rw_keys walk) sessions = Some results"
    "walkDecisionRecords C F dir tree (wanted_digests False (concat (map (sr_actions \<circ> snd) results)))
       (wanted_digests True (concat (map (sr_actions \<circ> snd) results))) = Some (records, there)"
    "rep = report_on walk results records there"
proof -
  from assms obtain sessions data walk results answer where
    "listSessions E = Some sessions" "readRegistryOf F reg required = Some data"
    "walk_for C required data key = Some walk"
    "verify_sessions C E authority (rw_keys walk) sessions = Some results"
    "walkDecisionRecords C F dir tree (wanted_digests False (concat (map (sr_actions \<circ> snd) results)))
       (wanted_digests True (concat (map (sr_actions \<circ> snd) results))) = Some answer"
    "rep = report_on walk results (fst answer) (snd answer)"
    unfolding verifyAgainst_def Option.bind_eq_Some_conv Let_def case_prod_beta by blast
  with that show thesis by (cases answer) simp
qed

lemma list_all_concat_map: "list_all P (concat (map f xs)) \<Longrightarrow> x \<in> set xs \<Longrightarrow> list_all P (f x)"
  by (auto simp: list_all_iff)

lemma action_findings_bad:
  "list_all (\<lambda>f. status_of f \<noteq> Some Ok) (fst (action_findings results records there a))"
  by (simp add: action_findings_def Let_def split: option.split)

lemma report_on_ok:
  assumes "rp_ok (report_on walk results records there)"
  shows "rw_finding walk = None"
    and "(sid, res) \<in> set results \<Longrightarrow> list_all (\<lambda>f. status_of f = Some Ok) (sr_findings res)"
    and "(sid, res) \<in> set results \<Longrightarrow> \<exists>s. rw_seals walk sid = Some s \<and> seal_count s = sr_count res"
    and "sid \<in> set (rw_order walk) \<Longrightarrow> sid \<in> fst ` set results"
    and "a \<in> set (concat (map (sr_actions \<circ> snd) results)) \<Longrightarrow> fst (action_findings results records there a) = []"
    and "c \<in> set (dw_records records) \<Longrightarrow> \<not> cr_malformed c \<and> list_all (resolves results) (cr_cites c)"
proof -
  have ok: "list_all (\<lambda>f. status_of f = Some Ok)
      (concat (map (sr_findings \<circ> snd) results)
       @ reconciliation_findings (concat (map (sr_actions \<circ> snd) results)) (concat (map (sr_reconciling \<circ> snd) results))
       @ (case rw_finding walk of Some (st, n) \<Rightarrow> [RotationFinding st n] | None \<Rightarrow> [])
       @ anchor_findings (rw_seals walk) results
       @ missing_findings (map fst results) (rw_order walk)
       @ concat (map fst (map (action_findings results records there) (concat (map (sr_actions \<circ> snd) results))))
       @ record_findings results (dw_records records))"
    using assms by (simp add: report_on_def Let_def witnessesNamed_def)
  show "rw_finding walk = None"
    using ok by (auto split: option.splits)
  show "list_all (\<lambda>f. status_of f = Some Ok) (sr_findings res)" if "(sid, res) \<in> set results"
    using ok that by (fastforce simp: list_all_iff)
  show "\<exists>s. rw_seals walk sid = Some s \<and> seal_count s = sr_count res" if "(sid, res) \<in> set results"
  proof -
    from ok that have "list_all (\<lambda>f. status_of f = Some Ok)
      (case rw_seals walk sid of
         None \<Rightarrow> [SessionFinding sid UnregisteredSession]
       | Some s \<Rightarrow>
           if sr_count res < seal_count s then [CountFinding sid TailRollback (sr_count res) (seal_count s)]
           else if sr_count res > seal_count s then [CountFinding sid CountExceedsSeal (sr_count res) (seal_count s)]
           else [])"
      unfolding anchor_findings_def by (fastforce simp: list_all_iff)
    then show ?thesis by (auto split: option.splits if_splits)
  qed
  show "sid \<in> fst ` set results" if "sid \<in> set (rw_order walk)"
  proof (rule ccontr)
    assume "sid \<notin> fst ` set results"
    with that have "SessionFinding sid SealedSessionMissing \<in> set (missing_findings (map fst results) (rw_order walk))"
      by (simp add: missing_findings_def)
    moreover have "list_all (\<lambda>f. status_of f = Some Ok) (missing_findings (map fst results) (rw_order walk))"
      using ok by simp
    ultimately show False by (fastforce simp: list_all_iff)
  qed
  show "fst (action_findings results records there a) = []"
    if "a \<in> set (concat (map (sr_actions \<circ> snd) results))"
  proof -
    have "list_all (\<lambda>f. status_of f = Some Ok) (fst (action_findings results records there a))"
      using ok that by (auto simp: list_all_iff)
    with action_findings_bad [of results records there a] show ?thesis
      by (cases "fst (action_findings results records there a)") auto
  qed
  show "\<not> cr_malformed c \<and> list_all (resolves results) (cr_cites c)" if "c \<in> set (dw_records records)"
  proof -
    have "list_all (\<lambda>f. status_of f = Some Ok)
      (if cr_malformed c then [RecordFinding (cr_digest c) RecordCitationMalformed]
       else if list_all (resolves results) (cr_cites c) then []
       else [RecordFinding (cr_digest c) RecordCitationUnresolved])"
      by (rule list_all_concat_map [OF _ that])
        (use ok in \<open>simp add: record_findings_def cong: map_cong\<close>)
    then show ?thesis by (auto split: if_splits)
  qed
qed

section \<open>The decision records found\<close>

text \<open>The candidates of a decision-record directory under a reading: each file whole, and of a
  \<^verbatim>\<open>.jsonl\<close> file each line, with or without a carriage return at its end.\<close>

definition line_candidates :: "bool \<Rightarrow> bytes \<Rightarrow> bytes set" where
  "line_candidates exact data =
     {l. l \<noteq> [] \<and> (\<exists>p \<in> set (split_on CHR 0x0A data). l = (if exact then p else trim_suffix p [CHR 0x0D]))}"

definition record_candidates :: "bool \<Rightarrow> (bytes \<times> bytes) list \<Rightarrow> bytes set" where
  "record_candidates exact tree =
     (\<Union>(path, data) \<in> set tree. if has_suffix path ''.jsonl'' then line_candidates exact data else {data})"

abbreviation (input) sha_hex :: "crypto \<Rightarrow> bytes \<Rightarrow> bytes" where
  "sha_hex C d \<equiv> hex_encode (sha256 C d)"

text \<open>What a walk holds when the candidates met so far are those given: the records of each
  reading, and beside them every file whole.\<close>

definition handed_from :: "crypto \<Rightarrow> bytes set \<Rightarrow> bytes set \<Rightarrow> (bytes \<times> bytes) list \<Rightarrow> bool" where
  "handed_from C want recs gave \<longleftrightarrow>
     (\<forall>h d. map_of gave h = Some d \<longrightarrow> d \<in> recs \<and> sha_hex C d = h) \<and>
     want \<inter> sha_hex C ` recs \<subseteq> dom (map_of gave)"

definition walk_holds ::
  "crypto \<Rightarrow> bytes list \<Rightarrow> bytes list \<Rightarrow> bytes set \<Rightarrow> bytes set \<Rightarrow> bytes set \<Rightarrow> decisionWalk \<Rightarrow> bool" where
  "walk_holds C wanted exact recs recsExact whole w \<longleftrightarrow>
     set (dw_found w) = set wanted \<inter> sha_hex C ` (recs \<union> whole) \<and>
     set (dw_foundExact w) = set exact \<inter> sha_hex C ` (recsExact \<union> whole) \<and>
     handed_from C (set wanted) recs (dw_handed w) \<and>
     handed_from C (set exact) recsExact (dw_handedExact w) \<and>
     cr_digest ` set (dw_records w) \<subseteq> digest_of C ` recs"

lemma map_of_handed_once:
  "map_of (handed_once h d gave) x = (if x = h \<and> map_of gave h = None then Some d else map_of gave x)"
  by (auto simp: handed_once_def map_add_def split: option.splits)

lemma note_candidate_fields:
  "dw_found (note_candidate C want path d isRecord exact w) =
     (if \<not> exact \<and> sha_hex C d \<in> set want then List.insert (sha_hex C d) (dw_found w) else dw_found w)"
  "dw_foundExact (note_candidate C want path d isRecord exact w) =
     (if exact \<and> sha_hex C d \<in> set want then List.insert (sha_hex C d) (dw_foundExact w) else dw_foundExact w)"
  "dw_handed (note_candidate C want path d isRecord exact w) =
     (if isRecord \<and> \<not> exact \<and> sha_hex C d \<in> set want then handed_once (sha_hex C d) d (dw_handed w) else dw_handed w)"
  "dw_handedExact (note_candidate C want path d isRecord exact w) =
     (if isRecord \<and> exact \<and> sha_hex C d \<in> set want then handed_once (sha_hex C d) d (dw_handedExact w) else dw_handedExact w)"
  "dw_records (note_candidate C want path d isRecord exact w) = dw_records w"
  by (simp_all add: note_candidate_def Let_def)

lemma handed_once_holds:
  "handed_from C want recs gave \<Longrightarrow> handed_from C want (insert d recs) (handed_once (sha_hex C d) d gave)"
  unfolding handed_from_def map_of_handed_once dom_def by (auto split: if_splits)

lemma handed_from_unwanted:
  "handed_from C want recs gave \<Longrightarrow> sha_hex C d \<notin> want \<Longrightarrow> handed_from C want (insert d recs) gave"
  unfolding handed_from_def by blast

lemma note_candidate_holds:
  assumes "walk_holds C wanted exact recs recsExact whole w"
  shows "walk_holds C wanted exact (insert d recs) recsExact whole (note_candidate C wanted path d True False w)"
    and "walk_holds C wanted exact recs (insert d recsExact) whole (note_candidate C exact path d True True w)"
    and "walk_holds C wanted exact recs recsExact (insert d whole)
      (note_candidate C exact path d False True (note_candidate C wanted path d False False w))"
  using assms
  by (auto simp: walk_holds_def note_candidate_fields handed_once_holds handed_from_unwanted)

lemma read_candidate_holds:
  assumes "walk_holds C wanted exact recs recsExact whole w"
  shows "walk_holds C wanted exact (insert d recs) recsExact whole (read_candidate C wanted path d w)"
  using note_candidate_holds(1) [OF assms, of d path]
  by (auto simp: read_candidate_def Let_def walk_holds_def split: record_cites.splits)

lemma walk_line_holds:
  assumes "walk_holds C wanted exact recs recsExact whole w"
  shows "walk_holds C wanted exact
    (recs \<union> {l. l \<noteq> [] \<and> l = trim_suffix line [CHR 0x0D]}) (recsExact \<union> {l. l \<noteq> [] \<and> l = line}) whole
    (walk_line C wanted exact path line w)"
proof -
  have e: "{l. l \<noteq> [] \<and> l = x} = (if x = [] then {} else {x})" for x :: bytes by auto
  have "walk_holds C wanted exact recs (recsExact \<union> {l. l \<noteq> [] \<and> l = line}) whole
      (if line \<noteq> [] then note_candidate C exact path line True True w else w)"
    using assms note_candidate_holds(2) [OF assms, of line path] by (simp add: e)
  from this read_candidate_holds [OF this, of "trim_suffix line [CHR 0x0D]" path] show ?thesis
    by (simp add: walk_line_def e Let_def)
qed

lemma walk_lines_hold:
  assumes "walk_holds C wanted exact recs recsExact whole w"
  shows "walk_holds C wanted exact
    (recs \<union> {l. l \<noteq> [] \<and> (\<exists>p \<in> set lines. l = trim_suffix p [CHR 0x0D])})
    (recsExact \<union> {l. l \<noteq> [] \<and> (\<exists>p \<in> set lines. l = p)}) whole
    (fold (walk_line C wanted exact path) lines w)"
  using assms
proof (induction lines arbitrary: recs recsExact w)
  case (Cons line lines)
  have "recs \<union> {l. l \<noteq> [] \<and> (\<exists>p \<in> set (line # lines). l = trim_suffix p [CHR 0x0D])} =
      recs \<union> {l. l \<noteq> [] \<and> l = trim_suffix line [CHR 0x0D]} \<union>
      {l. l \<noteq> [] \<and> (\<exists>p \<in> set lines. l = trim_suffix p [CHR 0x0D])}"
    "recsExact \<union> {l. l \<noteq> [] \<and> (\<exists>p \<in> set (line # lines). l = p)} =
      recsExact \<union> {l. l \<noteq> [] \<and> l = line} \<union> {l. l \<noteq> [] \<and> (\<exists>p \<in> set lines. l = p)}"
    by auto
  then show ?case
    using Cons.IH [OF walk_line_holds [OF Cons.prems, of line path]] by (simp only: fold_simps o_apply)
qed simp

lemma walk_file_holds:
  assumes "walk_holds C wanted exact (record_candidates False t) (record_candidates True t) (snd ` set t) w"
  shows "walk_holds C wanted exact (record_candidates False (t @ [f])) (record_candidates True (t @ [f]))
    (snd ` set (t @ [f])) (walk_file C wanted exact f w)"
proof -
  obtain path data where f: "f = (path, data)" by (cases f)
  show ?thesis
  proof (cases "has_suffix path ''.jsonl''")
    case True
    have "line_candidates False data = {l. l \<noteq> [] \<and> (\<exists>p \<in> set (split_on CHR 0x0A data). l = trim_suffix p [CHR 0x0D])}"
      "line_candidates True data = {l. l \<noteq> [] \<and> (\<exists>p \<in> set (split_on CHR 0x0A data). l = p)}"
      by (simp_all add: line_candidates_def)
    then have cands: "record_candidates False (t @ [f]) = record_candidates False t \<union>
        {l. l \<noteq> [] \<and> (\<exists>p \<in> set (split_on CHR 0x0A data). l = trim_suffix p [CHR 0x0D])}"
      "record_candidates True (t @ [f]) = record_candidates True t \<union>
        {l. l \<noteq> [] \<and> (\<exists>p \<in> set (split_on CHR 0x0A data). l = p)}"
      using True by (simp_all only: record_candidates_def f set_append UN_Un list.set UN_insert UN_empty Un_empty_right case_prod_conv if_True)
    show ?thesis
      unfolding cands
      using walk_lines_hold [OF note_candidate_holds(3) [OF assms, of data path], of "split_on CHR 0x0A data" path] True
      by (simp add: walk_file_def f)
  next
    case False
    then have cands: "record_candidates b (t @ [f]) = insert data (record_candidates b t)" for b
      by (auto simp: record_candidates_def f)
    have "walk_holds C wanted exact (insert data (record_candidates False t)) (insert data (record_candidates True t))
        (snd ` set t) (walk_file C wanted exact f w)"
      using note_candidate_holds(2) [OF read_candidate_holds [OF assms, of data path], of data path] False
      by (simp add: walk_file_def f)
    then show ?thesis
      unfolding cands by (auto simp: walk_holds_def f)
  qed
qed

lemma walk_tree_holds:
  "walk_holds C wanted exact (record_candidates False tree) (record_candidates True tree) (snd ` set tree)
     (walk_tree C wanted exact tree)"
proof (induction tree rule: rev_induct)
  case Nil
  show ?case by (simp add: walk_tree_def walk_holds_def handed_from_def empty_walk_def record_candidates_def)
next
  case (snoc f t)
  from walk_file_holds [OF this, of f] show ?case by (simp add: walk_tree_def)
qed

end
