(* ===== verification/Receipt_Norm.thy ===== *)
theory Receipt_Norm
  imports Verify_Sound
begin

text \<open>
  Reading a receipt does not depend on the order its members were set in: the structural checks and
  the members read are those of the object in its canonical order.  Each check is shown to answer
  the same for a value of the canonical domain and for its normal form; the facts are collected in
  \<open>receipt_norm\<close> and carry each other.
\<close>

named_theorems receipt_norm \<open>checks on a value and on its normal form\<close>

lemma norm_members_value: "norm_json (VObject ms) = VObject (norm_members ms)"
  by (simp add: norm_VObject norm_members_def)

abbreviation wf :: "jvalue \<Rightarrow> bool" where
  "wf \<equiv> wf_json False"

lemma wf_names: "wf (VObject ms) \<Longrightarrow> distinct (map fst ms)"
  by (simp only: wf_json.simps)

lemma wf_member: "wf (VObject ms) \<Longrightarrow> obj_get ms n = Some v \<Longrightarrow> wf v"
  by (auto simp only: wf_json.simps obj_get_def list_all_iff dest!: map_of_SomeD) fastforce

lemma wf_element: "wf (VArray vs) \<Longrightarrow> v \<in> set vs \<Longrightarrow> wf v"
  by (auto simp only: wf_json.simps list_all_iff set_map id_apply)

lemma norm_scalar [simp]:
  "norm_json v = VNull \<longleftrightarrow> v = VNull" "norm_json v = VString s \<longleftrightarrow> v = VString s"
  by (cases v; simp add: norm_members_value; fail)+

lemma obj_get_norm' [receipt_norm]:
  "wf (VObject ms) \<Longrightarrow> obj_get (norm_members ms) n = map_option norm_json (obj_get ms n)"
  by (rule obj_get_norm [OF wf_names])

lemma members_norm [receipt_norm]:
  assumes "wf (VObject ms)"
  shows "memberString (norm_members ms) n = memberString ms n"
    and "member_int (norm_members ms) n = member_int ms n"
    and "string_of (norm_members ms) n = string_of ms n"
    and "present (norm_members ms) n = present ms n"
    and "requireString (norm_members ms) n = requireString ms n"
    and "requireDigest (norm_members ms) n = requireDigest ms n"
  using assms
  by (simp_all add: wf_names string_of_def present_def requireString_def requireDigest_def obj_get_norm')

lemma nullableString_norm [receipt_norm]:
  "wf (VObject ms) \<Longrightarrow> nullableString (norm_members ms) n form = nullableString ms n form"
  by (cases "obj_get ms n"; cases "the (obj_get ms n)")
    (simp_all add: nullableString_def obj_get_norm' norm_members_value)

lemma exactlyMembers_norm [receipt_norm]:
  "wf (VObject ms) \<Longrightarrow> exactlyMembers (norm_members ms) shape = exactlyMembers ms shape"
  by (simp add: exactlyMembers_def members_norm) (simp add: norm_members_def list_all_iff split_beta)

lemma exactObject_norm [receipt_norm]:
  "wf v \<Longrightarrow> exactObject (norm_json v) names = map_option norm_members (exactObject v names)"
proof (cases v)
  case (VObject ms)
  moreover assume "wf v"
  ultimately have "list_all (present (norm_members ms)) names = list_all (present ms) names"
    using members_norm(4) [of ms] by (auto simp: list_all_iff)
  moreover have "length (norm_members ms) = length ms" by (simp add: norm_members_def)
  ultimately show ?thesis by (simp add: exactObject_def VObject norm_members_value)
qed (simp_all add: exactObject_def)

lemma requireObject_norm [receipt_norm]:
  "requireObject (norm_json v) = map_option norm_members (requireObject v)"
  by (cases v) (simp_all add: requireObject_def norm_members_value)

lemma requireObject_wf: "wf v \<Longrightarrow> requireObject v = Some ms \<Longrightarrow> wf (VObject ms)"
  by (cases v) (simp_all add: requireObject_def)

text \<open>A check of an object: it answers alike for the value and its normal form when it does for the
  object's members.\<close>

lemma bind_requireObject_norm:
  assumes "wf v" and "\<And>ms. wf (VObject ms) \<Longrightarrow> f (norm_members ms) = g ms"
  shows "Option.bind (requireObject (norm_json v)) f = Option.bind (requireObject v) g"
  using assms by (cases v) (simp_all add: requireObject_def norm_members_value)

lemma bind_obj_get_norm:
  assumes "wf (VObject ms)" and "\<And>v. wf v \<Longrightarrow> f (norm_json v) = g v"
  shows "Option.bind (obj_get (norm_members ms) n) f = Option.bind (obj_get ms n) g"
  using assms wf_member [OF assms(1), of n] by (cases "obj_get ms n") (simp_all add: obj_get_norm')

lemma case_obj_get_norm:
  assumes "wf (VObject ms)" and "\<And>v. wf v \<Longrightarrow> f (norm_json v) = g v"
  shows "(case obj_get (norm_members ms) n of None \<Rightarrow> x | Some v \<Rightarrow> f v) =
    (case obj_get ms n of None \<Rightarrow> x | Some v \<Rightarrow> g v)"
  using assms wf_member [OF assms(1), of n] by (cases "obj_get ms n") (simp_all add: obj_get_norm')

section \<open>The checks\<close>

lemma parse_citation_norm [receipt_norm]: "wf v \<Longrightarrow> parse_citation (norm_json v) = parse_citation v"
  unfolding parse_citation_def by (rule bind_requireObject_norm) (simp_all add: members_norm)

lemma parseCitations_norm [receipt_norm]: "wf v \<Longrightarrow> parseCitations (norm_json v) = parseCitations v"
proof (cases v)
  case (VArray vs)
  assume "wf v"
  with VArray have "map (parse_citation \<circ> norm_json) vs = map parse_citation vs"
    using parse_citation_norm wf_element by fastforce
  then show ?thesis by (simp only: parseCitations_def VArray norm_json.simps jvalue.case map_map)
qed (simp_all add: parseCitations_def norm_members_value)

lemma parseActionDelivery_norm [receipt_norm]:
  "wf v \<Longrightarrow> parseActionDelivery (norm_json v) = parseActionDelivery v"
  unfolding parseActionDelivery_def
  by (rule bind_requireObject_norm) (simp_all add: members_norm exactlyMembers_norm)

lemma wf_singleton: "wf v \<Longrightarrow> wf (VArray [v])"
  by (simp only: wf_json.simps list.map list.pred_inject id_apply simp_thms)

lemma single_citation_norm [receipt_norm]:
  "wf (VObject ms) \<Longrightarrow> parseCitations (VArray [VObject (norm_members ms)]) = parseCitations (VArray [VObject ms])"
  using parseCitations_norm [OF wf_singleton, of "VObject ms"] by (simp add: norm_members_value)

lemma parseActionReconciliation_norm [receipt_norm]:
  assumes "wf v"
  shows "parseActionReconciliation (norm_json v) = parseActionReconciliation v"
  unfolding parseActionReconciliation_def Let_def
  apply (rule bind_requireObject_norm [OF assms])
  subgoal premises ms for ms
    apply (simp add: members_norm [OF ms] exactlyMembers_norm [OF ms])
    apply ((rule Option.bind_cong [OF refl])+, rule bind_obj_get_norm [OF ms])
    apply (rule bind_requireObject_norm, assumption)
    apply (simp add: exactlyMembers_norm single_citation_norm)
    done
  done

lemma witnessMemberOf_norm [receipt_norm]: "wf v \<Longrightarrow> witnessMemberOf (norm_json v) = witnessMemberOf v"
  unfolding witnessMemberOf_def by (rule bind_requireObject_norm) (simp_all add: members_norm)

lemma validateIdentity_norm [receipt_norm]: "wf v \<Longrightarrow> validateIdentity (norm_json v) = validateIdentity v"
  unfolding validateIdentity_def by (rule bind_requireObject_norm) (simp_all add: members_norm)

lemma validateAdapter_norm [receipt_norm]: "wf v \<Longrightarrow> validateAdapter (norm_json v) = validateAdapter v"
  unfolding validateAdapter_def by (rule bind_requireObject_norm) (simp_all add: members_norm)

lemma descriptorProvenanceFrom_norm [receipt_norm]:
  "wf v \<Longrightarrow> descriptorProvenanceFrom (norm_json v) = descriptorProvenanceFrom v"
  unfolding descriptorProvenanceFrom_def
  by (rule bind_requireObject_norm) (simp_all add: members_norm exactlyMembers_norm)

lemma exactObject_wf: "wf v \<Longrightarrow> exactObject v names = Some ms \<Longrightarrow> wf (VObject ms)"
  by (cases v) (simp_all add: exactObject_def split: if_splits)

lemma parsePrincipalRef_norm [receipt_norm]: "wf v \<Longrightarrow> parsePrincipalRef (norm_json v) = parsePrincipalRef v"
  using exactObject_wf [of v]
  by (cases "exactObject v [''kind'', ''issuer'', ''subject'']")
    (simp_all add: parsePrincipalRef_def exactObject_norm members_norm)

lemma is_digest_value_norm [simp]: "is_digest_value (norm_json v) = is_digest_value v"
  by (cases v) (simp_all add: is_digest_value_def norm_members_value)

lemma list_all_digest_norm [simp]: "list_all is_digest_value (map norm_json vs) = list_all is_digest_value vs"
  by (simp add: list_all_iff)

lemma names_subject_norm [receipt_norm]:
  assumes "wf (VObject ms)"
  shows "names_subject subject (norm_members ms) member = names_subject subject ms member"
  unfolding names_subject_def
  by (rule bind_obj_get_norm [OF assms], rule bind_requireObject_norm) (simp_all add: members_norm)

lemma array_member_norm:
  "wf (VObject ms) \<Longrightarrow>
   (case obj_get (norm_members ms) n of Some (VArray ds) \<Rightarrow> Some ds | _ \<Rightarrow> None) =
     map_option (map norm_json) (case obj_get ms n of Some (VArray ds) \<Rightarrow> Some ds | _ \<Rightarrow> None)"
  by (cases "obj_get ms n"; cases "the (obj_get ms n)") (simp_all add: obj_get_norm' norm_members_value)

lemma bind_map_option: "Option.bind (map_option g x) f = Option.bind x (\<lambda>y. f (g y))"
  by (cases x) simp_all

lemma validateDelegationMember_norm [receipt_norm]:
  assumes "wf v" and rs: "wf (VObject rs)"
  shows "validateDelegationMember (norm_json v) (norm_members rs) kind = validateDelegationMember v rs kind"
  unfolding validateDelegationMember_def
  apply (rule bind_requireObject_norm [OF assms(1)])
  subgoal premises ms for ms
    apply (simp add: members_norm [OF ms] names_subject_norm [OF rs] array_member_norm [OF ms] bind_map_option)
    apply (rule Option.bind_cong [OF refl])+
    apply (rule bind_obj_get_norm [OF ms])
    apply (simp add: parsePrincipalRef_norm)
    apply (rule Option.bind_cong [OF refl])+
    apply (rule if_cong [OF refl _ refl])
    apply (rule bind_obj_get_norm [OF rs])
    apply (rule bind_requireObject_norm, assumption)
    apply (simp add: names_subject_norm)
    done
  done

lemma validateReconciler_norm [receipt_norm]:
  assumes "wf v" and "\<And>w. acquisition = Some w \<Longrightarrow> wf w"
  shows "validateReconciler (norm_json v) kind (map_option norm_json acquisition) = validateReconciler v kind acquisition"
  unfolding validateReconciler_def
  apply (rule bind_requireObject_norm [OF assms(1)])
  subgoal premises ms for ms
    using assms(2)
    by (cases acquisition)
      (simp_all add: members_norm [OF ms] bind_requireObject_norm [where g = "\<lambda>a. Option.bind _ (\<lambda>_. require (present a _))"]
        members_norm)
  done

lemma toolTransportProblem_norm [receipt_norm]:
  assumes "wf (VObject ms)"
  shows "toolTransportProblem (norm_members ms) = toolTransportProblem ms"
  unfolding toolTransportProblem_def
  by (rule case_obj_get_norm [OF assms]) (simp add: members_norm [OF assms])

lemma remoteMembersProblem_norm [receipt_norm]:
  assumes "wf (VObject ms)"
  shows "remoteMembersProblem (norm_members ms) shape exact = remoteMembersProblem ms shape exact"
proof -
  have peer: "(case obj_get (norm_members ms) n of Some (VString s) \<Rightarrow> remotePeerIdentity s | _ \<Rightarrow> False) =
      (case obj_get ms n of Some (VString s) \<Rightarrow> remotePeerIdentity s | _ \<Rightarrow> False)" for n
    by (cases "obj_get ms n"; cases "the (obj_get ms n)") (simp_all add: obj_get_norm' [OF assms] norm_members_value)
  have null: "obj_get (norm_members ms) n = Some VNull \<longleftrightarrow> obj_get ms n = Some VNull" for n
    by (cases "obj_get ms n") (simp_all add: obj_get_norm' [OF assms])
  show ?thesis
  proof (cases "obj_get ms ''transport''"; cases "obj_get ms ''server''")
    fix transport server
    assume g: "obj_get ms ''transport'' = Some transport" "obj_get ms ''server'' = Some server"
    then have g': "obj_get (norm_members ms) ''transport'' = Some (norm_json transport)"
      "obj_get (norm_members ms) ''server'' = Some (norm_json server)"
      by (simp_all add: obj_get_norm' [OF assms])
    show ?thesis
      unfolding remoteMembersProblem_def g g' peer null norm_scalar members_norm [OF assms] option.case prod.case
      apply (rule Option.bind_cong [OF refl])+
      apply (rule bind_requireObject_norm [OF wf_member [OF assms g(2)]])
      apply (simp only: members_norm exactlyMembers_norm)
      done
  qed (simp_all add: remoteMembersProblem_def obj_get_norm' [OF assms])
qed

lemma validateAcquisition_norm [receipt_norm]:
  assumes "wf v"
  shows "validateAcquisition (norm_json v) = validateAcquisition v"
  unfolding validateAcquisition_def
  apply (rule bind_requireObject_norm [OF assms])
  subgoal premises ms for ms
  proof -
    have provenance: "(case obj_get (norm_members ms) ''descriptorProvenance'' of
          None \<Rightarrow> Some ()
        | Some d \<Rightarrow> do { require (shape = ''mcp''); _ \<leftarrow> descriptorProvenanceFrom d; Some () }) =
        (case obj_get ms ''descriptorProvenance'' of
          None \<Rightarrow> Some ()
        | Some d \<Rightarrow> do { require (shape = ''mcp''); _ \<leftarrow> descriptorProvenanceFrom d; Some () })" for shape
      by (rule case_obj_get_norm [OF ms]) (simp add: descriptorProvenanceFrom_norm)
    have items: "(case obj_get (norm_members ms) ''pageItems'' of
          None \<Rightarrow> Some ()
        | Some (VArray items) \<Rightarrow> require (list_all is_digest_value items)
        | Some _ \<Rightarrow> None) =
        (case obj_get ms ''pageItems'' of
          None \<Rightarrow> Some ()
        | Some (VArray items) \<Rightarrow> require (list_all is_digest_value items)
        | Some _ \<Rightarrow> None)"
      by (cases "obj_get ms ''pageItems''"; cases "the (obj_get ms ''pageItems'')")
        (simp_all add: obj_get_norm' [OF ms] norm_members_value)
    show ?thesis
      unfolding members_norm [OF ms] nullableString_norm [OF ms] provenance items remoteMembersProblem_norm [OF ms]
      by (rule bind_obj_get_norm [OF ms]) (simp add: validateAdapter_norm)
  qed
  done

lemma validateAction_norm [receipt_norm]:
  assumes "wf v"
  shows "validateAction (norm_json v) r = validateAction v r"
  unfolding validateAction_def
  apply (rule bind_requireObject_norm [OF assms])
  subgoal premises ms for ms
    unfolding members_norm [OF ms]
    apply (rule bind_obj_get_norm [OF ms])
    apply (simp only: norm_scalar validateIdentity_norm)
    apply (rule Option.bind_cong [OF refl])+
    apply (rule Option.bind_cong)
    apply (rule case_obj_get_norm [OF ms])
    apply (simp only: parseActionDelivery_norm)
    apply (rule bind_obj_get_norm [OF ms])
    apply (rule bind_requireObject_norm, assumption)
    subgoal premises d for _ _ _ _ _ ds
      unfolding members_norm [OF d(6)]
      apply (rule Option.bind_cong [OF refl])+
      apply (rule Option.bind_cong)
       apply (rule case_obj_get_norm [OF d(6)])
       apply (simp only: norm_scalar)
      apply (rule bind_obj_get_norm [OF ms])
      apply (simp only: parseCitations_norm)
      apply (rule Option.bind_cong [OF refl])
      apply (rule bind_obj_get_norm [OF ms])
      apply (rule bind_requireObject_norm, assumption)
      apply (simp only: members_norm nullableString_norm toolTransportProblem_norm)
      apply (rule Option.bind_cong [OF refl])+
      apply (rule bind_obj_get_norm [OF ms])
      apply (simp only: validateAdapter_norm)
      done
    done
  done

lemma validate_kind_norm [receipt_norm]:
  assumes "wf (VObject ms)"
  shows "validate_kind (norm_members ms) kind r = validate_kind ms kind r"
proof -
  have read_back: "Option.bind (requireObject (norm_json w)) (\<lambda>a.
      case obj_get a ''reconciliation'' of
        None \<Rightarrow> Some r
      | Some v \<Rightarrow> do { reconciliation \<leftarrow> parseActionReconciliation v; Some (r\<lparr> r_reconciliation := Some reconciliation \<rparr>) }) =
    Option.bind (requireObject w) (\<lambda>a.
      case obj_get a ''reconciliation'' of
        None \<Rightarrow> Some r
      | Some v \<Rightarrow> do { reconciliation \<leftarrow> parseActionReconciliation v; Some (r\<lparr> r_reconciliation := Some reconciliation \<rparr>) })"
    if "wf w" for w
    by (rule bind_requireObject_norm [OF that], rule case_obj_get_norm) (simp_all add: parseActionReconciliation_norm)
  have "wf w" if "obj_get ms n = Some w" for n w using wf_member [OF assms that] .
  then show ?thesis
    by (cases "obj_get ms ''acquisition''"; cases "obj_get ms ''action''")
      (simp_all add: validate_kind_def obj_get_norm' [OF assms] validateAcquisition_norm validateAction_norm read_back)
qed

lemma validateVersion3_norm [receipt_norm]:
  assumes "wf (VObject ms)"
  shows "validateVersion3 (norm_members ms) r = validateVersion3 ms r"
proof -
  have reconciler: "(case obj_get (norm_members ms) ''reconciler'' of
        None \<Rightarrow> Some ()
      | Some v \<Rightarrow> validateReconciler v kind (obj_get (norm_members ms) ''acquisition'')) =
    (case obj_get ms ''reconciler'' of
        None \<Rightarrow> Some ()
      | Some v \<Rightarrow> validateReconciler v kind (obj_get ms ''acquisition''))" for kind
    by (rule case_obj_get_norm [OF assms])
      (simp add: obj_get_norm' [OF assms] validateReconciler_norm wf_member [OF assms])
  show ?thesis
    unfolding validateVersion3_def members_norm [OF assms] validate_kind_norm [OF assms] reconciler
    apply (rule Option.bind_cong [OF refl])+
    apply (rule bind_obj_get_norm [OF assms])
    apply (simp only: norm_scalar validateIdentity_norm)
    apply (rule Option.bind_cong [OF refl])+
    apply (rule Option.bind_cong)
     apply (rule case_obj_get_norm [OF assms])
     apply (simp only: witnessMemberOf_norm)
    apply (rule Option.bind_cong)
     apply (rule case_obj_get_norm [OF assms])
     apply (simp only: validateDelegationMember_norm [OF _ assms])
    apply (rule refl)
    done
qed

lemma common_members_norm [receipt_norm]:
  assumes "wf (VObject ms)"
  shows "common_members (norm_members ms) = map_option (\<lambda>r. r\<lparr> r_obj := norm_members ms \<rparr>) (common_members ms)"
  unfolding common_members_def members_norm [OF assms]
  by (simp split: Option.bind_split)

text \<open>The checks read and set the members of a receipt other than the object it was read from.\<close>

lemma map_option_bind: "map_option h (Option.bind x f) = Option.bind x (\<lambda>a. map_option h (f a))"
  by (cases x) simp_all

lemma obj_last:
  "r\<lparr> r_obj := x, r_delivery := a \<rparr> = r\<lparr> r_delivery := a, r_obj := x \<rparr>"
  "r\<lparr> r_obj := x, r_reconciliation := b \<rparr> = r\<lparr> r_reconciliation := b, r_obj := x \<rparr>"
  "r\<lparr> r_obj := x, r_exactRecord := c \<rparr> = r\<lparr> r_exactRecord := c, r_obj := x \<rparr>"
  "r\<lparr> r_obj := x, r_witness := d \<rparr> = r\<lparr> r_witness := d, r_obj := x \<rparr>"
  "r\<lparr> r_obj := x, r_kind := e \<rparr> = r\<lparr> r_kind := e, r_obj := x \<rparr>"
  "r\<lparr> r_obj := x, r_cites := f, r_recordDigest := g, r_packDigest := h \<rparr> =
   r\<lparr> r_cites := f, r_recordDigest := g, r_packDigest := h, r_obj := x \<rparr>"
  "r\<lparr> r_obj := x, r_callIndex := i \<rparr> = r\<lparr> r_callIndex := i, r_obj := x \<rparr>"
  "r\<lparr> r_obj := x, r_prevSignature := j \<rparr> = r\<lparr> r_prevSignature := j, r_obj := x \<rparr>"
  by simp_all

lemma delivery_step_obj:
  "(case m of
      None \<Rightarrow> Some (r\<lparr> r_obj := x \<rparr>)
    | Some d \<Rightarrow> Option.bind (f d) (\<lambda>y. Some (r\<lparr> r_obj := x, r_delivery := Some y \<rparr>))) =
   map_option (\<lambda>r. r\<lparr> r_obj := x \<rparr>)
     (case m of None \<Rightarrow> Some r | Some d \<Rightarrow> Option.bind (f d) (\<lambda>y. Some (r\<lparr> r_delivery := Some y \<rparr>)))"
  by (cases m) (simp_all add: map_option_bind obj_last)

lemma exact_step_obj:
  "(case m of
      None \<Rightarrow> Some (r\<lparr> r_obj := x \<rparr>)
    | Some d \<Rightarrow> Option.bind (f d) (\<lambda>y. Some (r\<lparr> r_obj := x, r_exactRecord := True \<rparr>))) =
   map_option (\<lambda>r. r\<lparr> r_obj := x \<rparr>)
     (case m of None \<Rightarrow> Some r | Some d \<Rightarrow> Option.bind (f d) (\<lambda>y. Some (r\<lparr> r_exactRecord := True \<rparr>)))"
  by (cases m) (simp_all add: map_option_bind obj_last)

lemma reconciliation_step_obj:
  "(case m of
      None \<Rightarrow> Some (r\<lparr> r_obj := x \<rparr>)
    | Some d \<Rightarrow> Option.bind (f d) (\<lambda>y. Some (r\<lparr> r_obj := x, r_reconciliation := Some y \<rparr>))) =
   map_option (\<lambda>r. r\<lparr> r_obj := x \<rparr>)
     (case m of None \<Rightarrow> Some r | Some d \<Rightarrow> Option.bind (f d) (\<lambda>y. Some (r\<lparr> r_reconciliation := Some y \<rparr>)))"
  by (cases m) (simp_all add: map_option_bind obj_last)

lemma witness_step_obj:
  "(case m of
      None \<Rightarrow> Some (r\<lparr> r_obj := x \<rparr>)
    | Some d \<Rightarrow> Option.bind (f d) (\<lambda>y. Some (r\<lparr> r_obj := x, r_witness := Some y \<rparr>))) =
   map_option (\<lambda>r. r\<lparr> r_obj := x \<rparr>)
     (case m of None \<Rightarrow> Some r | Some d \<Rightarrow> Option.bind (f d) (\<lambda>y. Some (r\<lparr> r_witness := Some y \<rparr>)))"
  by (cases m) (simp_all add: map_option_bind obj_last)

lemma validateAction_obj:
  "validateAction v (r\<lparr> r_obj := x \<rparr>) = map_option (\<lambda>r. r\<lparr> r_obj := x \<rparr>) (validateAction v r)"
  unfolding validateAction_def delivery_step_obj exact_step_obj bind_map_option map_option_bind
  unfolding obj_last by simp

lemma validate_kind_obj:
  "validate_kind ms kind (r\<lparr> r_obj := x \<rparr>) = map_option (\<lambda>r. r\<lparr> r_obj := x \<rparr>) (validate_kind ms kind r)"
  unfolding validate_kind_def validateAction_obj reconciliation_step_obj
  by (cases "obj_get ms ''acquisition''"; cases "obj_get ms ''action''")
    (simp_all add: map_option_bind obj_last)

lemma validateVersion3_obj:
  "validateVersion3 ms (r\<lparr> r_obj := x \<rparr>) = map_option (\<lambda>r. r\<lparr> r_obj := x \<rparr>) (validateVersion3 ms r)"
  unfolding validateVersion3_def validate_kind_obj bind_map_option map_option_bind witness_step_obj
  unfolding obj_last by simp

text \<open>A receipt is read from an object as it is from the object in canonical order.\<close>

lemma receiptFrom_norm:
  assumes "wf (VObject ms)"
  shows "receiptFrom (norm_members ms) = map_option (\<lambda>r. r\<lparr> r_obj := norm_members ms \<rparr>) (receiptFrom ms)"
proof -
  have version: "(if r_version (r\<lparr> r_obj := x \<rparr>) = receiptVersion
        then do { _ \<leftarrow> memberString ms ''argumentsDigest''; Some (r\<lparr> r_obj := x \<rparr>) }
        else if r_version (r\<lparr> r_obj := x \<rparr>) = receiptVersion3 then validateVersion3 ms (r\<lparr> r_obj := x \<rparr>) else Some (r\<lparr> r_obj := x \<rparr>)) =
      map_option (\<lambda>r. r\<lparr> r_obj := x \<rparr>)
       (if r_version r = receiptVersion then do { _ \<leftarrow> memberString ms ''argumentsDigest''; Some r }
        else if r_version r = receiptVersion3 then validateVersion3 ms r else Some r)" for r x
    by (simp add: validateVersion3_obj map_option_bind)
  show ?thesis
    unfolding receiptFrom_def common_members_norm [OF assms] members_norm [OF assms] validateVersion3_norm [OF assms]
      bind_map_option Let_def version map_option_bind
    unfolding obj_last
    apply (rule Option.bind_cong [OF refl])+
    apply (rule bind_obj_get_norm [OF assms])
    subgoal for _ _ _ _ v by (cases v) (simp_all add: norm_members_value obj_last)
    done
qed

end
