(* ===== verification/Builder.thy ===== *)
theory Builder
  imports Receipts
begin

text \<open>
  The receipts a gateway mints (\<^verbatim>\<open>receipt_builder.go\<close>, and the envelope of an adapter in
  \<^verbatim>\<open>serve.go\<close>): the unsigned core of a receipt from what its caller prepared, the acquisition a bare
  command yields, and the acquisition an adapter's envelope yields once the envelope is held to its
  form.  A salt is an argument: the 32 random bytes drawn for it.
\<close>

unbundle bit_operations_syntax

section \<open>Commitments\<close>

definition xor_bytes :: "nat \<Rightarrow> bytes \<Rightarrow> bytes" where
  "xor_bytes b s = map (\<lambda>c. char_of (byte c XOR b)) s"

text \<open>HMAC over SHA-256, whose block is 64 bytes.\<close>

definition hmac_sha256 :: "crypto \<Rightarrow> bytes \<Rightarrow> bytes \<Rightarrow> bytes" where
  "hmac_sha256 C key m =
     (let k = (if length key > 64 then sha256 C key else key);
          block = k @ replicate (64 - length k) (CHR 0x00)
      in sha256 C (xor_bytes 0x5c block @ sha256 C (xor_bytes 0x36 block @ m)))"

definition commitmentOver :: "crypto \<Rightarrow> bytes \<Rightarrow> bytes \<Rightarrow> bytes \<Rightarrow> bytes" where
  "commitmentOver C salt label canonical = digest_of C (salt @ label @ canonical)"

section \<open>The core of a receipt\<close>

record caller =
  cl_issuer :: bytes
  cl_subject :: bytes
  cl_tokenDigest :: bytes

definition identityObject :: "caller \<Rightarrow> members" where
  "identityObject who =
     obj_set (obj_set (obj_set [] ''issuer'' (VString (cl_issuer who))) ''subject'' (VString (cl_subject who)))
       ''tokenDigest'' (VString (cl_tokenDigest who))"

record receiptInput =
  in_version :: bytes
  in_sessionID :: bytes
  in_prevSignature :: bytes
  in_callIndex :: int
  in_source :: bytes
  in_resultDigest :: bytes
  in_servedAt :: bytes
  in_authority :: bytes
  in_arguments :: bytes
  in_argumentsSalt :: bytes
  in_argumentsSeed :: bytes
  in_who :: "caller option"
  in_witness :: "members option"
  in_kind :: bytes
  in_detail :: members
  in_delegation :: "members option"
  in_reconciler :: "members option"

text \<open>A member that is set only when there is a value for it.\<close>

definition set_some :: "members \<Rightarrow> bytes \<Rightarrow> members option \<Rightarrow> members" where
  "set_some core name v = (case v of None \<Rightarrow> core | Some ms \<Rightarrow> obj_set core name (VObject ms))"

definition buildReceipt :: "crypto \<Rightarrow> receiptInput \<Rightarrow> members" where
  "buildReceipt C inp =
     (let core = obj_set [] ''receiptVersion'' (VString (in_version inp));
          core = obj_set core ''sessionId'' (VString (in_sessionID inp));
          core = obj_set core ''callIndex'' (VInt (in_callIndex inp));
          core = obj_set core ''prevSignature''
                   (if in_prevSignature inp = [] then VNull else VString (in_prevSignature inp));
          core = obj_set core ''source'' (VString (in_source inp));
          core = obj_set core ''resultDigest'' (VString (in_resultDigest inp));
          core = obj_set core ''servedAt'' (VString (in_servedAt inp));
          core = obj_set core ''authority'' (VString (in_authority inp))
      in if in_version inp = receiptVersion3 then
           (let core = obj_set core ''argumentsCommitment''
                         (VString (commitmentOver C (in_argumentsSalt inp) ''args:'' (in_arguments inp)));
                core = obj_set core ''kind'' (VString (in_kind inp));
                core = obj_set core ''caller''
                         (case in_who inp of None \<Rightarrow> VNull | Some who \<Rightarrow> VObject (identityObject who));
                core = set_some core ''witness'' (in_witness inp);
                core = set_some core ''delegation'' (in_delegation inp);
                core = set_some core ''reconciler'' (in_reconciler inp)
            in obj_set core (in_kind inp) (VObject (in_detail inp)))
         else
           obj_set core ''argumentsDigest''
             (VString (''hmac-sha256:'' @
                hex_encode (hmac_sha256 C (argumentsKey C (in_argumentsSeed inp)) (''args:'' @ in_arguments inp)))))"

section \<open>Acquisitions\<close>

definition commandAcquisition :: "bytes \<Rightarrow> bytes \<Rightarrow> bytes \<Rightarrow> members" where
  "commandAcquisition command digest observedAt =
     (let adapter = obj_set [] ''name'' (VString command);
          adapter = obj_set adapter ''version'' (VString []);
          adapter = obj_set adapter ''digest'' (VString digest);
          a = obj_set [] ''adapter'' (VObject adapter);
          a = obj_set a ''shape'' (VString ''command'');
          a = obj_set a ''endpoint'' VNull;
          a = obj_set a ''statement'' VNull;
          a = obj_set a ''snapshot'' VNull;
          a = obj_set a ''peerIdentity'' VNull;
          a = obj_set a ''schema'' VNull;
          a = obj_set a ''upstreamToken'' VNull
      in obj_set a ''observedAt'' (VString observedAt))"

record envelope =
  env_result :: jvalue
  env_acquisition :: members
  env_statement :: "bytes option"
  env_page :: bool

definition envelopeMembers :: "bytes list" where
  "envelopeMembers =
     [''adapter'', ''endpoint'', ''statement'', ''snapshot'', ''peerIdentity'', ''schema'', ''upstreamToken'',
      ''observedAt'', ''transport'', ''server'']"

definition isStamp :: "bytes \<Rightarrow> bool" where
  "isStamp s \<longleftrightarrow> capturedAtForm s \<and> date_exists s"

definition names_within :: "members \<Rightarrow> bytes list \<Rightarrow> bool" where
  "names_within obj allowed = list_all (\<lambda>m. fst m \<in> set allowed) obj"

definition parse_page :: "members \<Rightarrow> jvalue \<Rightarrow> bool option" where
  "parse_page obj result =
     (case obj_get obj ''page'' of
        None \<Rightarrow> Some False
      | Some p \<Rightarrow> if p = VBool True \<and> (\<exists>vs. result = VArray vs) then Some True else None)"

lemma parse_page_code [code]:
  "parse_page obj result =
     (case obj_get obj ''page'' of
        None \<Rightarrow> Some False
      | Some p \<Rightarrow> if p = VBool True \<and> (case result of VArray _ \<Rightarrow> True | _ \<Rightarrow> False) then Some True else None)"
  by (auto simp: parse_page_def split: option.splits jvalue.splits)

definition parseEnvelope :: "jvalue \<Rightarrow> envelope option" where
  "parseEnvelope v = do {
     obj \<leftarrow> requireObject v;
     require (names_within obj [''acquisition'', ''result'', ''page'']);
     result \<leftarrow> obj_get obj ''result'';
     raw \<leftarrow> obj_get obj ''acquisition'';
     acquisition \<leftarrow> requireObject raw;
     page \<leftarrow> parse_page obj result;
     require (names_within acquisition envelopeMembers);
     adapter \<leftarrow> obj_get acquisition ''adapter'';
     _ \<leftarrow> validateAdapter adapter;
     adapterObj \<leftarrow> requireObject adapter;
     require (names_within adapterObj [''name'', ''version'', ''digest'']);
     _ \<leftarrow> nullableString acquisition ''endpoint'' None;
     _ \<leftarrow> nullableString acquisition ''snapshot'' None;
     _ \<leftarrow> nullableString acquisition ''peerIdentity'' None;
     _ \<leftarrow> nullableString acquisition ''upstreamToken'' None;
     _ \<leftarrow> nullableString acquisition ''statement'' None;
     _ \<leftarrow> nullableString acquisition ''schema'' (Some isDigest);
     let statement = memberString acquisition ''statement'';
     _ \<leftarrow> remoteMembersProblem acquisition ''mcp'' True;
     observedAt \<leftarrow> requireString acquisition ''observedAt'';
     require (isStamp observedAt);
     Some \<lparr> env_result = result, env_acquisition = acquisition, env_statement = statement, env_page = page \<rparr> }"

definition remoteMembersOnShape :: "members \<Rightarrow> bytes \<Rightarrow> unit option" where
  "remoteMembersOnShape acquisition shape =
     require (\<not> (shape \<noteq> ''mcp'' \<and> (present acquisition ''transport'' \<or> present acquisition ''server'')))"

definition readEnvelope :: "jvalue \<Rightarrow> bytes \<Rightarrow> envelope option" where
  "readEnvelope output shape = do {
     e \<leftarrow> parseEnvelope output;
     _ \<leftarrow> remoteMembersOnShape (env_acquisition e) shape;
     Some e }"

definition copy_member :: "members \<Rightarrow> bytes \<Rightarrow> members \<Rightarrow> members" where
  "copy_member src name a = (case obj_get src name of None \<Rightarrow> a | Some v \<Rightarrow> obj_set a name v)"

definition copiedMembers :: "bytes list" where
  "copiedMembers = [''adapter'', ''endpoint'', ''snapshot'', ''peerIdentity'', ''schema'', ''upstreamToken'',
     ''observedAt'', ''transport'', ''server'']"

text \<open>The members copied are there, since \<open>parseEnvelope\<close> asks for each; the transport and the
  server are copied when they are.\<close>

definition adapterAcquisition :: "crypto \<Rightarrow> bytes \<Rightarrow> envelope \<Rightarrow> bytes \<Rightarrow> members" where
  "adapterAcquisition C shape e salt =
     (let a = fold (copy_member (env_acquisition e)) copiedMembers [];
          a = obj_set a ''shape'' (VString shape);
          a = obj_set a ''statement''
                (case env_statement e of
                   None \<Rightarrow> VNull
                 | Some t \<Rightarrow> VString (commitmentOver C salt ''statement:'' (canon (VString t))))
      in (case (env_page e, env_result e) of
            (True, VArray items) \<Rightarrow>
              obj_set a ''pageItems'' (VArray (map (\<lambda>i. VString (digest_of C (canon i))) items))
          | _ \<Rightarrow> a))"

section \<open>What the signer takes the verifier takes\<close>

lemma obj_get_copy:
  "obj_get (copy_member src n a) m = (if m = n \<and> obj_get src n \<noteq> None then obj_get src n else obj_get a m)"
  by (auto simp: copy_member_def obj_get_set split: option.splits)

lemma obj_get_fold_copy:
  "obj_get (fold (copy_member src) names a) m =
     (if m \<in> set names \<and> obj_get src m \<noteq> None then obj_get src m else obj_get a m)"
  by (induction names arbitrary: a) (auto simp: obj_get_copy)

text \<open>The acquisition's members by name.\<close>

lemma adapterAcquisition_get:
  assumes "n \<in> set copiedMembers"
  shows "obj_get (adapterAcquisition C shape e salt) n = obj_get (env_acquisition e) n"
proof -
  have n: "n \<noteq> ''shape''" "n \<noteq> ''statement''" "n \<noteq> ''pageItems''"
    using assms by (auto simp: copiedMembers_def)
  have "obj_get (fold (copy_member (env_acquisition e)) copiedMembers []) n = obj_get (env_acquisition e) n"
    using assms by (simp add: obj_get_fold_copy) (simp add: obj_get_def)
  with n show ?thesis
    unfolding adapterAcquisition_def Let_def
    by (cases "env_page e"; cases "env_result e") (simp_all add: obj_get_set)
qed

lemma adapterAcquisition_own:
  "obj_get (adapterAcquisition C shape e salt) ''shape'' = Some (VString shape)"
  "obj_get (adapterAcquisition C shape e salt) ''statement'' =
     Some (case env_statement e of None \<Rightarrow> VNull
           | Some t \<Rightarrow> VString (commitmentOver C salt ''statement:'' (canon (VString t))))"
  "obj_get (adapterAcquisition C shape e salt) ''pageItems'' =
     (case (env_page e, env_result e) of
        (True, VArray items) \<Rightarrow> Some (VArray (map (\<lambda>i. VString (digest_of C (canon i))) items))
      | _ \<Rightarrow> None)"
  "obj_get (adapterAcquisition C shape e salt) ''descriptorProvenance'' = None"
  "obj_get (adapterAcquisition C shape e salt) ''reconciliation'' = None"
  unfolding adapterAcquisition_def Let_def
  by (cases "env_page e"; cases "env_result e";
      simp add: obj_get_set obj_get_fold_copy; simp add: obj_get_def copiedMembers_def)+

lemma nullableString_cong: "obj_get a n = obj_get b n \<Longrightarrow> nullableString a n f = nullableString b n f"
  by (simp add: nullableString_def)

lemma memberString_cong: "obj_get a n = obj_get b n \<Longrightarrow> memberString a n = memberString b n"
  by (simp add: memberString_def)

lemma remoteMembers_exact:
  assumes "remoteMembersProblem a shape True = Some ()"
  shows "remoteMembersProblem a shape False = Some ()"
  using assms
  by (cases "obj_get a ''transport''"; cases "obj_get a ''server''"; cases "memberString a ''endpoint''")
    (auto simp: remoteMembersProblem_def Option.bind_eq_Some_conv split: if_splits)

lemma remoteMembersProblem_cong:
  assumes "\<And>n. n \<in> set copiedMembers \<Longrightarrow> obj_get a n = obj_get b n"
  shows "remoteMembersProblem a shape exact = remoteMembersProblem b shape exact"
proof -
  have "obj_get a ''transport'' = obj_get b ''transport''" "obj_get a ''server'' = obj_get b ''server''"
    "obj_get a ''endpoint'' = obj_get b ''endpoint''" "obj_get a ''peerIdentity'' = obj_get b ''peerIdentity''"
    by (simp_all add: assms copiedMembers_def)
  then show ?thesis unfolding remoteMembersProblem_def memberString_def by presburger
qed

text \<open>An adapter's envelope that the signer takes, for a source of a shape it may have, yields an
  acquisition the verifier's structural check takes.\<close>

lemma adapterAcquisition_valid:
  assumes "readEnvelope output shape = Some e" and "shape \<in> set acquisitionShapes"
  shows "validateAcquisition (VObject (adapterAcquisition C shape e salt)) = Some ()"
proof -
  let ?a = "adapterAcquisition C shape e salt" and ?b = "env_acquisition e"
  from assms(1) obtain adapter observedAt page result where
    p: "obj_get ?b ''adapter'' = Some adapter" "validateAdapter adapter = Some ()"
      "nullableString ?b ''endpoint'' None = Some ()" "nullableString ?b ''snapshot'' None = Some ()"
      "nullableString ?b ''peerIdentity'' None = Some ()" "nullableString ?b ''upstreamToken'' None = Some ()"
      "nullableString ?b ''schema'' (Some isDigest) = Some ()"
      "remoteMembersProblem ?b ''mcp'' True = Some ()" "memberString ?b ''observedAt'' = Some observedAt"
    and shape: "shape \<noteq> ''mcp'' \<Longrightarrow> obj_get ?b ''transport'' = None \<and> obj_get ?b ''server'' = None"
    by (auto simp: readEnvelope_def parseEnvelope_def remoteMembersOnShape_def present_def
        Option.bind_eq_Some_conv Let_def requireString_def)
  note same = adapterAcquisition_get [of _ C shape e salt]
  have copied: "obj_get ?a n = obj_get ?b n" if "n \<in> set copiedMembers" for n using same that .
  have nulls: "nullableString ?a n f = nullableString ?b n f" if "n \<in> set copiedMembers" for n f
    by (rule nullableString_cong [OF copied [OF that]])
  have eq: "remoteMembersProblem ?a s x = remoteMembersProblem ?b s x" for s x
    by (rule remoteMembersProblem_cong) (rule copied)
  have remote: "remoteMembersProblem ?a shape False = Some ()"
  proof (cases "shape = ''mcp''")
    case True
    with p(8) show ?thesis
      unfolding eq by (intro remoteMembers_exact) simp
  next
    case False
    with shape show ?thesis
      unfolding eq by (simp add: remoteMembersProblem_def)
  qed
  have observed: "memberString ?a ''observedAt'' = Some observedAt"
    using memberString_cong [OF copied, of "''observedAt''"] p(9) by (simp add: copiedMembers_def)
  have own: "memberString ?a ''shape'' = Some shape"
    by (simp add: memberString_def adapterAcquisition_own)
  have statement: "nullableString ?a ''statement'' (Some isDigest) = Some ()"
    by (simp add: nullableString_def adapterAcquisition_own commitmentOver_def split: option.split)
  have items: "(case obj_get ?a ''pageItems'' of
       None \<Rightarrow> Some ()
     | Some (VArray items) \<Rightarrow> require (list_all is_digest_value items)
     | Some _ \<Rightarrow> None) = Some ()"
    by (cases "env_page e"; cases "env_result e")
      (simp_all add: adapterAcquisition_own list_all_iff is_digest_value_def)
  have in_copied: "''adapter'' \<in> set copiedMembers" "''endpoint'' \<in> set copiedMembers" "''snapshot'' \<in> set copiedMembers"
    "''peerIdentity'' \<in> set copiedMembers" "''schema'' \<in> set copiedMembers" "''upstreamToken'' \<in> set copiedMembers"
    by (simp_all add: copiedMembers_def)
  show ?thesis
    unfolding validateAcquisition_def requireObject_def jvalue.case Option.bind.simps requireString_def
      copied [OF in_copied(1)] nulls [OF in_copied(2)] nulls [OF in_copied(3)] nulls [OF in_copied(4)]
      nulls [OF in_copied(5)] nulls [OF in_copied(6)] p own observed statement items adapterAcquisition_own(4)
    using assms(2) remote by simp
qed

lemma commandAcquisition_valid:
  "isDigest digest \<Longrightarrow> validateAcquisition (VObject (commandAcquisition command digest observedAt)) = Some ()"
  by (simp add: validateAcquisition_def commandAcquisition_def Let_def requireObject_def requireString_def
      memberString_def obj_get_def validateAdapter_def requireDigest_def nullableString_def
      remoteMembersProblem_def acquisitionShapes_def)

end
