(* ===== verification/Minted.thy ===== *)
theory Minted
  imports Receipt_Norm Builder
begin

text \<open>
  Receipts as they are stamped and then verified: the bytes a stamp stores read back as the receipt
  it signed, and pass the ladder under the key that signed them.
\<close>

section \<open>The members a receipt is read with\<close>

text \<open>What the structural checks leave of the common members.\<close>

definition same_common :: "receipt \<Rightarrow> receipt \<Rightarrow> bool" where
  "same_common r r' \<longleftrightarrow>
     r_obj r' = r_obj r \<and> r_version r' = r_version r \<and> r_sessionID r' = r_sessionID r \<and>
     r_keyID r' = r_keyID r \<and> r_authority r' = r_authority r \<and> r_resultDigest r' = r_resultDigest r \<and>
     r_signature r' = r_signature r \<and> r_prevSignature r' = r_prevSignature r \<and>
     r_servedAt r' = r_servedAt r \<and> r_keyPos r' = r_keyPos r"

lemma same_common_refl [simp]: "same_common r r"
  by (simp add: same_common_def)

lemma validateAction_common:
  assumes "validateAction v r = Some r'"
  shows "same_common r r'"
proof -
  from assms obtain obj decision cites r1 r2 where
    "(case obj_get obj ''delivery'' of
        None \<Rightarrow> Some r
      | Some d \<Rightarrow> do { delivery \<leftarrow> parseActionDelivery d; Some (r\<lparr> r_delivery := Some delivery \<rparr>) }) = Some r1"
    "(case obj_get decision ''recordBytes'' of
        None \<Rightarrow> Some r1
      | Some b \<Rightarrow> do { require (b = VString ''exact''); Some (r1\<lparr> r_exactRecord := True \<rparr>) }) = Some r2"
    "r' = r2\<lparr> r_cites := cites, r_recordDigest := string_of decision ''recordDigest'',
            r_packDigest := string_of decision ''packDigest'' \<rparr>"
    unfolding validateAction_def Option.bind_eq_Some_conv option.inject by blast
  then show ?thesis
    by (auto simp: same_common_def Option.bind_eq_Some_conv split: option.splits)
qed

lemma validate_kind_common: "validate_kind ms kind r = Some r' \<Longrightarrow> same_common r r'"
  using validateAction_common
  by (auto simp: validate_kind_def Option.bind_eq_Some_conv same_common_def split: option.splits if_splits)

lemma validateVersion3_common:
  assumes "validateVersion3 ms r = Some r'"
  shows "same_common r r'"
proof -
  from assms obtain kind r1 r2 where kind: "validate_kind ms kind r = Some r1"
    and "(case obj_get ms ''witness'' of
        None \<Rightarrow> Some r1
      | Some w \<Rightarrow> do { naming \<leftarrow> witnessMemberOf w; Some (r1\<lparr> r_witness := Some naming \<rparr>) }) = Some r2"
    "r' = r2\<lparr> r_kind := kind \<rparr>"
    unfolding validateVersion3_def Option.bind_eq_Some_conv option.inject by blast
  then show ?thesis
    using validate_kind_common [OF kind]
    by (auto simp: same_common_def Option.bind_eq_Some_conv split: option.splits)
qed

text \<open>The version's own checks of \<open>receiptFrom\<close>.\<close>

definition version_checked :: "members \<Rightarrow> receipt \<Rightarrow> receipt option" where
  "version_checked obj r =
     (if r_version r = receiptVersion then do { _ \<leftarrow> memberString obj ''argumentsDigest''; Some r }
      else if r_version r = receiptVersion3 then validateVersion3 obj r else Some r)"

lemma version_checked_common: "version_checked obj r = Some r' \<Longrightarrow> same_common r r'"
  using validateVersion3_common
  by (auto simp: version_checked_def Option.bind_eq_Some_conv split: if_splits)

lemma receiptFrom_members:
  assumes "receiptFrom obj = Some r"
  shows "r_obj r = obj" "memberString obj ''receiptVersion'' = Some (r_version r)"
    "memberString obj ''sessionId'' = Some (r_sessionID r)" "memberString obj ''keyId'' = Some (r_keyID r)"
    "memberString obj ''authority'' = Some (r_authority r)"
    "memberString obj ''resultDigest'' = Some (r_resultDigest r)"
    "memberString obj ''signature'' = Some (r_signature r)" "member_int obj ''callIndex'' = Some (r_callIndex r)"
    "obj_get obj ''prevSignature'' = Some (case r_prevSignature r of None \<Rightarrow> VNull | Some p \<Rightarrow> VString p)"
    "0 \<le> r_callIndex r"
proof -
  from assms obtain r0 r1 n prev where
    r0: "common_members obj = Some r0" and r1: "version_checked obj r0 = Some r1"
    and n: "member_int obj ''callIndex'' = Some n" "0 \<le> n" "obj_get obj ''prevSignature'' = Some prev"
    and prev: "(case prev of VNull \<Rightarrow> Some (r1\<lparr> r_callIndex := n \<rparr>)
        | VString p \<Rightarrow> Some (r1\<lparr> r_callIndex := n, r_prevSignature := Some p \<rparr>) | _ \<Rightarrow> None) = Some r"
    unfolding receiptFrom_def version_checked_def [symmetric] Let_def Option.bind_eq_Some_conv by auto
  have "same_common r0 r1" by (rule version_checked_common [OF r1])
  then have c: "r_obj r1 = obj" "memberString obj ''receiptVersion'' = Some (r_version r1)"
    "memberString obj ''sessionId'' = Some (r_sessionID r1)" "memberString obj ''keyId'' = Some (r_keyID r1)"
    "memberString obj ''authority'' = Some (r_authority r1)"
    "memberString obj ''resultDigest'' = Some (r_resultDigest r1)"
    "memberString obj ''signature'' = Some (r_signature r1)" "r_prevSignature r1 = None"
    using r0 by (auto simp: common_members_def Option.bind_eq_Some_conv same_common_def)
  have r: "r = r1\<lparr> r_callIndex := n \<rparr> \<and> prev = VNull \<or>
      (\<exists>p. r = r1\<lparr> r_callIndex := n, r_prevSignature := Some p \<rparr> \<and> prev = VString p)"
    using prev by (cases prev) auto
  show "r_obj r = obj" "memberString obj ''receiptVersion'' = Some (r_version r)"
    "memberString obj ''sessionId'' = Some (r_sessionID r)" "memberString obj ''keyId'' = Some (r_keyID r)"
    "memberString obj ''authority'' = Some (r_authority r)"
    "memberString obj ''resultDigest'' = Some (r_resultDigest r)"
    "memberString obj ''signature'' = Some (r_signature r)" "member_int obj ''callIndex'' = Some (r_callIndex r)"
    "obj_get obj ''prevSignature'' = Some (case r_prevSignature r of None \<Rightarrow> VNull | Some p \<Rightarrow> VString p)"
    "0 \<le> r_callIndex r"
    using r c n by auto
qed

section \<open>A stamped receipt\<close>

text \<open>What \<open>stampInto\<close> stores of a core.\<close>

definition stamped :: "crypto \<Rightarrow> store \<Rightarrow> members \<Rightarrow> members" where
  "stamped C st core =
     obj_set (stamp_core st core) ''signature'' (VString (stamp_signature C st (stamp_core st core)))"

definition stamped_bytes :: "crypto \<Rightarrow> store \<Rightarrow> members \<Rightarrow> bytes" where
  "stamped_bytes C st core = canon (VObject (stamped C st core)) @ [CHR 0x0A]"

text \<open>A core that can be stamped: of the canonical domain, with room for its nesting, and naming
  neither the key nor the signature itself.\<close>

definition stampable :: "members \<Rightarrow> bool" where
  "stampable core \<longleftrightarrow>
     wf (VObject core) \<and> jdepth (VObject core) \<le> maxNesting \<and>
     obj_get core ''keyId'' = None \<and> obj_get core ''signature'' = None"

definition own_store :: "crypto \<Rightarrow> store \<Rightarrow> bool" where
  "own_store C st \<longleftrightarrow>
     signs_ok C (st_seed st) \<and> st_publicKey st = ed_public C (st_seed st) \<and>
     st_keyID st = keyIDFor C (ed_public C (st_seed st))"

lemma stamped_append:
  assumes "stampable core"
  shows "stamped C st core =
      core @ [(''keyId'', VString (st_keyID st)), (''signature'', VString (stamp_signature C st (stamp_core st core)))]"
    and "stamp_core st core = core @ [(''keyId'', VString (st_keyID st))]"
proof -
  show k: "stamp_core st core = core @ [(''keyId'', VString (st_keyID st))]"
    using assms by (simp add: stampable_def stamp_core_def obj_set_new)
  have "obj_get (core @ [(''keyId'', VString (st_keyID st))]) ''signature'' = None"
    using assms by (auto simp: stampable_def obj_get_def map_add_def split: option.splits)
  then show "stamped C st core =
      core @ [(''keyId'', VString (st_keyID st)), (''signature'', VString (stamp_signature C st (stamp_core st core)))]"
    by (simp add: stamped_def k obj_set_new)
qed

lemma jdepth_flat_append:
  "jdepth (VObject (ms @ [(a, VString x)])) = jdepth (VObject ms)"
  by (induction ms) (auto simp: max_def)

lemma valid_utf8_names: "valid_utf8 ''keyId''" "valid_utf8 ''signature''"
  by (simp_all add: valid_utf8_ascii)

lemma obj_get_None_notin: "obj_get ms n = None \<Longrightarrow> n \<notin> fst ` set ms"
  by (simp add: obj_get_def map_of_eq_None_iff)

lemma stamped_wf:
  assumes "stampable core" and "own_store C st"
  shows "wf (VObject (stamped C st core))" and "jdepth (VObject (stamped C st core)) \<le> maxNesting"
    and "wf (VObject (stamp_core st core))"
proof -
  have names: "''keyId'' \<notin> fst ` set core" "''signature'' \<notin> fst ` set core"
    using assms(1) by (simp_all add: stampable_def obj_get_None_notin)
  have utf8: "valid_utf8 (st_keyID st)" "valid_utf8 (stamp_signature C st x)" for x
    using assms(2) by (simp_all add: own_store_def keyIDFor_utf8 stamp_signature_def)
  have core: "wf (VObject core)" using assms(1) by (simp add: stampable_def)
  show "wf (VObject (stamped C st core))"
    using core names utf8 unfolding stamped_append(1) [OF assms(1)] wf_json.simps
    by (auto simp: valid_utf8_names)
  show "wf (VObject (stamp_core st core))"
    using core names utf8 unfolding stamped_append(2) [OF assms(1)] wf_json.simps
    by (auto simp: valid_utf8_names)
  have "jdepth (VObject (stamped C st core)) = jdepth (VObject core)"
    using jdepth_flat_append [of "core @ [(''keyId'', VString (st_keyID st))]" "''signature''"]
      jdepth_flat_append [of core "''keyId''"]
    by (simp add: stamped_append(1) [OF assms(1)])
  then show "jdepth (VObject (stamped C st core)) \<le> maxNesting"
    using assms(1) by (simp add: stampable_def)
qed

lemma stamped_parse:
  assumes "stampable core" and "own_store C st"
  shows "parse_object (stamped_bytes C st core) = Some (norm_members (stamped C st core))"
  unfolding stamped_bytes_def
  by (rule parse_object_canon [OF stamped_wf(1,2) [OF assms]]) (simp add: is_json_space_def)

text \<open>The signature of a stamp covers what the verifier takes it to cover.\<close>

lemma stamped_signing_input:
  assumes "stampable core" and "own_store C st" and "receiptFrom (stamped C st core) = Some r"
  shows "signingInput (r\<lparr> r_obj := norm_members (stamped C st core), r_keyPos := k \<rparr>) =
    stamp_prefix (stamp_core st core) @ canon (VObject (stamp_core st core))"
    and "r_signature r = stamp_signature C st (stamp_core st core)"
    and "r_keyID r = st_keyID st"
proof -
  note rm = receiptFrom_members [OF assms(3)]
  have names: "''keyId'' \<noteq> ''signature''" "''receiptVersion'' \<noteq> ''signature''" by simp_all
  have sig: "obj_get (stamped C st core) ''signature'' = Some (VString (stamp_signature C st (stamp_core st core)))"
    by (simp add: stamped_def obj_get_set)
  then show "r_signature r = stamp_signature C st (stamp_core st core)"
    using rm(7) by (simp add: memberString_def)
  have "obj_get (stamped C st core) ''keyId'' = Some (VString (st_keyID st))"
    by (simp add: stamped_def stamp_core_def obj_get_set)
  then show "r_keyID r = st_keyID st" using rm(4) by (simp add: memberString_def)
  have version: "memberString (stamp_core st core) ''receiptVersion'' = Some (r_version r)"
    using rm(2) by (simp add: stamped_def memberString_def obj_get_set)
  have "''signature'' \<notin> fst ` set core" using assms(1) by (simp add: stampable_def obj_get_None_notin)
  then have "filter (\<lambda>m. fst m \<noteq> ''signature'') core = core" by (force simp: filter_id_conv)
  then have "filter (\<lambda>m. fst m \<noteq> ''signature'') (stamped C st core) = stamp_core st core"
    by (simp add: stamped_append [OF assms(1)])
  then have "filter (\<lambda>m. fst m \<noteq> ''signature'') (norm_members (stamped C st core)) = norm_members (stamp_core st core)"
    using norm_members_filter [of "\<lambda>n. n \<noteq> ''signature''" "stamped C st core"] by simp
  then show "signingInput (r\<lparr> r_obj := norm_members (stamped C st core), r_keyPos := k \<rparr>) =
    stamp_prefix (stamp_core st core) @ canon (VObject (stamp_core st core))"
    by (simp add: signingInput_def Let_def canon_norm_members stamp_prefix_def version)
qed

text \<open>An acquisition that names no descriptors, or any receipt that is none, has nothing more to
  prove once its artifact is found.\<close>

definition names_descriptors :: "members \<Rightarrow> bool" where
  "names_descriptors obj \<longleftrightarrow>
     (case obj_get obj ''acquisition'' of Some (VObject a) \<Rightarrow> present a ''descriptorProvenance'' | _ \<Rightarrow> False)"

lemma names_descriptors_norm: "wf (VObject ms) \<Longrightarrow> names_descriptors (norm_members ms) = names_descriptors ms"
  using wf_member [of ms "''acquisition''"]
  by (cases "obj_get ms ''acquisition''"; cases "the (obj_get ms ''acquisition'')")
    (simp_all add: names_descriptors_def obj_get_norm' norm_members_value members_norm(4))

lemma check_placed_plain:
  assumes "parse_int (trim_suffix name ''.json'') = Some (r_callIndex r)" and "r_sessionID r = sid"
    and "r_authority r = authority" and "r_resultDigest r = digest_of C artifact"
    and "ev_artifacts E (hex_encode (sha256 C artifact)) = Some artifact" and "\<not> names_descriptors (r_obj r)"
  shows "check_placed C E r sid name authority reached = Ok"
proof -
  have "trim_digest (digest_of C artifact) = hex_encode (sha256 C artifact)"
    unfolding trim_digest_def digest_of_def cut_prefix_append by simp
  moreover have "Option.bind (obj_get acq ''descriptorProvenance'') descriptorProvenanceFrom = None"
    if "obj_get (r_obj r) ''acquisition'' = Some (VObject acq)" for acq
    using assms(6) that by (simp add: names_descriptors_def present_def)
  ultimately show ?thesis
    using assms(1-5)
    by (cases "obj_get (r_obj r) ''acquisition''"; cases "the (obj_get (r_obj r) ''acquisition'')")
      (simp_all add: check_placed_def Let_def)
qed

lemma stamped_verifies:
  assumes core: "stampable core" "own_store C st" and r: "receiptFrom (stamped C st core) = Some r"
    and version: "r_version r = receiptVersion \<or> r_version r = receiptVersion3"
    and key: "key_position keys (st_keyID st) = Some pos" "rk_key (keys ! pos) = st_publicKey st"
    and artifact: "r_resultDigest r = digest_of C artifact"
      "ev_artifacts E (hex_encode (sha256 C artifact)) = Some artifact"
    and index: "r_callIndex r \<le> maxSafeInteger" and plain: "\<not> names_descriptors (stamped C st core)"
  shows "checkReceiptUnder C (stamped_bytes C st core) E (r_sessionID r) (format_int (r_callIndex r) @ ''.json'')
      (r_authority r) keys =
    (Some (r\<lparr> r_obj := norm_members (stamped C st core), r_keyPos := int pos \<rparr>), Ok)"
proof -
  let ?stored = "stamped C st core"
  let ?r = "r\<lparr> r_obj := norm_members ?stored, r_keyPos := int pos \<rparr>"
  have read: "Option.bind (parse_object (stamped_bytes C st core)) receiptFrom = Some (r\<lparr> r_obj := norm_members ?stored \<rparr>)"
    using stamped_parse [OF core] receiptFrom_norm [OF stamped_wf(1) [OF core]] r by simp
  note s = stamped_signing_input [OF core r]
  let ?sig = "ed_sign C (st_seed st) (stamp_prefix (stamp_core st core) @ canon (VObject (stamp_core st core)))"
  have sig: "hex_decode (r_signature r) = Some ?sig" "length ?sig = 64"
    "ed_verify C (st_publicKey st) (stamp_prefix (stamp_core st core) @ canon (VObject (stamp_core st core))) ?sig"
    using core(2) s(2) by (simp_all add: stamp_signature_def own_store_def signs_ok_def)
  have "check_placed C E ?r (r_sessionID r) (format_int (r_callIndex r) @ ''.json'') (r_authority r) (take (Suc pos) keys) = Ok"
  proof (rule check_placed_plain)
    have "parse_int (format_int (r_callIndex r)) = Some (r_callIndex r)"
      using receiptFrom_members(10) [OF r] index
      by (intro parse_int_format_int) (simp_all add: maxSafeInteger_def min_int64_def max_int64_def)
    then show "parse_int (trim_suffix (format_int (r_callIndex r) @ ''.json'') ''.json'') = Some (r_callIndex ?r)"
      unfolding trim_suffix_append by simp
    show "\<not> names_descriptors (r_obj ?r)"
      using plain names_descriptors_norm [OF stamped_wf(1) [OF core]] by simp
  qed (use artifact in simp_all)
  then show ?thesis
    using read sig version key s(3) artifact s(1) [of "int pos"]
    by (simp add: checkReceiptUnder_def Let_def)
qed

end
