(* ===== verification/Verify_Complete.thy ===== *)
theory Verify_Complete
  imports Minted
begin

text \<open>
  A store that was written as the gateway writes it verifies: the receipts of a session stamped in
  order pass the ladder and chain, and a store whose sessions are each sealed with their count is
  reported with nothing wrong.
\<close>

section \<open>A recorded session\<close>

text \<open>A receipt stamped at an index of a session, its artifact retained.  A receipt of an action, or
  one that reconciles one, is judged against decision records as well and is left out here.\<close>

definition record_ok ::
  "crypto \<Rightarrow> store \<Rightarrow> evidence \<Rightarrow> bytes \<Rightarrow> bytes \<Rightarrow> nat \<Rightarrow> members \<Rightarrow> receipt \<Rightarrow> bool" where
  "record_ok C st E authority sid i core r \<longleftrightarrow>
     stampable core \<and> receiptFrom (stamped C st core) = Some r \<and>
     (r_version r = receiptVersion \<or> r_version r = receiptVersion3) \<and>
     r_sessionID r = sid \<and> r_callIndex r = int i \<and> int i \<le> maxSafeInteger \<and> r_authority r = authority \<and>
     (\<exists>artifact. r_resultDigest r = digest_of C artifact \<and>
        ev_artifacts E (hex_encode (sha256 C artifact)) = Some artifact) \<and>
     \<not> names_descriptors (stamped C st core) \<and> r_kind r \<noteq> ''action'' \<and> r_reconciliation r = None"

definition chain_recorded ::
  "crypto \<Rightarrow> store \<Rightarrow> evidence \<Rightarrow> bytes \<Rightarrow> bytes \<Rightarrow> members list \<Rightarrow> receipt list \<Rightarrow> bool" where
  "chain_recorded C st E authority sid cores rs \<longleftrightarrow>
     length rs = length cores \<and>
     (\<forall>i < length cores. record_ok C st E authority sid i (cores ! i) (rs ! i) \<and>
        r_version (rs ! i) = r_version (rs ! 0) \<and>
        r_prevSignature (rs ! i) = (if i = 0 then None else Some (r_signature (rs ! (i - 1)))))"

text \<open>The directory of a session holds the receipts of a chain, each under its index.\<close>

definition entry_of :: "crypto \<Rightarrow> store \<Rightarrow> members list \<Rightarrow> nat \<Rightarrow> bytes \<times> bytes" where
  "entry_of C st cores i = (format_nat i @ ''.json'', stamped_bytes C st (cores ! i))"

definition holds_chain :: "crypto \<Rightarrow> store \<Rightarrow> members list \<Rightarrow> (bytes \<times> file_entry) list \<Rightarrow> bool" where
  "holds_chain C st cores entries \<longleftrightarrow>
     distinct (map fst entries) \<and>
     set entries = (\<lambda>i. case entry_of C st cores i of (name, data) \<Rightarrow> (name, RegularFile (Some data))) ` {..<length cores}"

lemma option_list_Some: "list_all (\<lambda>x. f x = Some (g x)) xs \<Longrightarrow> option_list (map f xs) = Some (map g xs)"
  by (induction xs) auto

definition entry_data :: "bytes \<times> file_entry \<Rightarrow> bytes \<times> bytes" where
  "entry_data e = (case e of (name, RegularFile (Some data)) \<Rightarrow> (name, data) | (name, _) \<Rightarrow> (name, []))"

lemma receipt_files_chain:
  assumes "holds_chain C st cores entries"
  obtains files where "receipt_files entries = Some files" "distinct (map fst files)"
    "set files = entry_of C st cores ` {..<length cores}" "length files = length cores"
proof -
  have all: "\<exists>i < length cores. e = (case entry_of C st cores i of (name, data) \<Rightarrow> (name, RegularFile (Some data)))"
    if "e \<in> set entries" for e
    using assms that by (auto simp: holds_chain_def)
  have filter_id: "filter (\<lambda>(name, e). e \<noteq> SubDirectory \<and> has_suffix name ''.json'') entries = entries"
  proof (intro filter_True ballI)
    fix e assume "e \<in> set entries"
    from all [OF this] show "case e of (name, e) \<Rightarrow> e \<noteq> SubDirectory \<and> has_suffix name ''.json''"
      by (force simp: entry_of_def simp del: append.simps)
  qed
  define files where "files = map entry_data (sort_key fst entries)"
  have "list_all (\<lambda>e. (case e of (name, e) \<Rightarrow> case e of RegularFile (Some data) \<Rightarrow> Some (name, data) | _ \<Rightarrow> None) =
      Some (entry_data e)) (sort_key fst entries)"
    using all by (fastforce simp: list_all_iff entry_data_def entry_of_def)
  then have 1: "receipt_files entries = Some files"
    unfolding receipt_files_def files_def filter_id by (rule option_list_Some)
  have fst_data: "fst (entry_data e) = fst e" for e
    by (auto simp: entry_data_def split: prod.splits file_entry.splits option.splits)
  then have "map fst files = map fst (sort_key fst entries)" by (simp add: files_def)
  then have 2: "distinct (map fst files)"
    using assms by (simp add: holds_chain_def distinct_sort_key_map)
  have 3: "set files = entry_of C st cores ` {..<length cores}"
  proof -
    have "entry_data (case entry_of C st cores i of (name, data) \<Rightarrow> (name, RegularFile (Some data))) = entry_of C st cores i" for i
      by (simp add: entry_data_def entry_of_def)
    then show ?thesis
      using assms unfolding holds_chain_def files_def by (auto simp: image_image)
  qed
  have "inj_on (entry_of C st cores) {..<length cores}"
    by (auto simp: inj_on_def entry_of_def)
  then have "card (set files) = length cores" by (simp add: 3 card_image)
  moreover have "distinct files" using 2 by (simp add: distinct_map)
  ultimately have "length files = length cores" by (simp add: distinct_card)
  with 1 2 3 that show thesis by blast
qed

text \<open>The chain as the ladder reads it.\<close>

definition read_at :: "crypto \<Rightarrow> store \<Rightarrow> members list \<Rightarrow> receipt list \<Rightarrow> nat \<Rightarrow> nat \<Rightarrow> receipt" where
  "read_at C st cores rs pos i =
     (rs ! i)\<lparr> r_obj := norm_members (stamped C st (cores ! i)), r_keyPos := int pos \<rparr>"

lemma passed_entry:
  assumes "chain_recorded C st E authority sid cores rs" and "own_store C st" and "i < length cores"
    and "key_position keys (st_keyID st) = Some pos" "rk_key (keys ! pos) = st_publicKey st"
  shows "checkReceiptUnder C (snd (entry_of C st cores i)) E sid (fst (entry_of C st cores i)) authority keys =
    (Some (read_at C st cores rs pos i), Ok)"
proof -
  have ok: "record_ok C st E authority sid i (cores ! i) (rs ! i)"
    using assms(1,3) by (simp add: chain_recorded_def)
  then obtain artifact where a: "r_resultDigest (rs ! i) = digest_of C artifact"
    "ev_artifacts E (hex_encode (sha256 C artifact)) = Some artifact"
    by (auto simp: record_ok_def)
  show ?thesis
    using stamped_verifies [of "cores ! i" C st "rs ! i" keys pos artifact E] ok assms(2,4,5) a
    by (simp add: record_ok_def entry_of_def read_at_def)
qed

lemma verifySession_recorded:
  assumes chain: "chain_recorded C st E authority sid cores rs" and own: "own_store C st"
    and key: "key_position keys (st_keyID st) = Some pos" "rk_key (keys ! pos) = st_publicKey st"
    and dir: "holds_chain C st cores entries"
  obtains res where "verifySessionUnder C E sid (SessionFiles entries) authority keys = Some res"
    "list_all (\<lambda>f. status_of f = Some Ok) (sr_findings res)" "sr_count res = int (length cores)"
    "sr_actions res = []" "sr_reconciling res = []"
proof -
  let ?n = "length cores" and ?read = "read_at C st cores rs pos"
  obtain files where files: "receipt_files entries = Some files" "distinct (map fst files)"
    "set files = entry_of C st cores ` {..<?n}" "length files = ?n"
    using receipt_files_chain [OF dir] by blast
  define s where "s = fold (judge_file C E sid authority keys) files empty_scan"
  define res where "res = (sc_result s)\<lparr> sr_findings := sr_findings (sc_result s) @ chain_findings sid (sc_valid s),
    sr_count := int (length files) \<rparr>"
  have verify: "verifySessionUnder C E sid (SessionFiles entries) authority keys = Some res"
    by (simp add: verifySessionUnder_def files(1) s_def res_def Let_def)
  have entry: "\<exists>i < ?n. f = entry_of C st cores i" if "f \<in> set files" for f using files(3) that by auto
  have passed: "passed_receipt C E authority keys sid (entry_of C st cores i) = Some (?read i)" if "i < ?n" for i
    using passed_entry [OF chain own that key] by (simp add: passed_receipt_def)
  have finding: "status_of (file_finding C E authority keys sid f) = Some Ok" if f: "f \<in> set files" for f
  proof -
    from entry [OF f] obtain i where "i < ?n" "f = entry_of C st cores i" by blast
    with passed_entry [OF chain own _ key] show ?thesis by (simp add: file_finding_def)
  qed
  define valid where "valid = passed C E authority keys sid files"
  have all: "list_all2 (\<lambda>f r. passed_receipt C E authority keys sid f = Some r) files valid"
    unfolding valid_def by (rule passed_all) (simp add: list_all_iff finding)
  have set_valid: "set valid = ?read ` {..<?n}"
  proof (intro equalityI subsetI)
    fix r assume "r \<in> set valid"
    from list_all2_members(2) [OF all this] obtain f where "f \<in> set files" "passed_receipt C E authority keys sid f = Some r" by blast
    with entry passed show "r \<in> ?read ` {..<?n}" by fastforce
  next
    fix r assume "r \<in> ?read ` {..<?n}"
    then obtain i where i: "i < ?n" "r = ?read i" by auto
    then have "entry_of C st cores i \<in> set files" using files(3) by auto
    from list_all2_members(1) [OF all this] passed [OF i(1)] i(2) show "r \<in> set valid" by auto
  qed
  have index: "r_callIndex (?read i) = int i" if "i < ?n" for i
    using chain that by (simp add: read_at_def chain_recorded_def record_ok_def)
  have len: "length valid = ?n" using list_all2_lengthD [OF all] files(4) by simp
  have inj: "inj_on r_callIndex (?read ` {..<?n})"
    using index by (auto simp: inj_on_def)
  have "card (set valid) = ?n"
    unfolding set_valid using index by (subst card_image) (auto intro!: inj_onI dest: arg_cong [of _ _ r_callIndex])
  then have dv: "distinct valid" using len card_distinct by metis
  have chain_list: "sort_key r_callIndex valid = map ?read [0..<?n]"
  proof (rule map_sorted_distinct_set_unique [where f = r_callIndex])
    show "inj_on r_callIndex (set (sort_key r_callIndex valid) \<union> set (map ?read [0..<?n]))"
      using inj by (simp add: set_valid lessThan_atLeast0)
    show "distinct (map r_callIndex (sort_key r_callIndex valid))"
      using dv inj by (simp add: distinct_map set_valid)
    have "map r_callIndex (map ?read [0..<?n]) = map int [0..<?n]" using index by simp
    moreover have "sorted (map int [0..<?n])" "distinct (map int [0..<?n])"
      by (simp_all add: sorted_map distinct_map sorted_wrt_iff_nth_less)
    ultimately show "sorted (map r_callIndex (map ?read [0..<?n]))" "distinct (map r_callIndex (map ?read [0..<?n]))"
      by (simp_all only:)
  qed (simp_all add: set_valid lessThan_atLeast0)
  have links: "link_holds (map ?read [0..<?n]) i" if "i < ?n" for i
  proof -
    have "cores \<noteq> []" using that by auto
    then have at: "map ?read [0..<?n] ! i = ?read i" "map ?read [0..<?n] ! (i - 1) = ?read (i - 1)"
      "map ?read [0..<?n] ! 0 = ?read 0"
      using that by simp_all
    show ?thesis
      using chain that unfolding link_holds_def Let_def at by (auto simp: read_at_def chain_recorded_def)
  qed
  have "chain_findings sid valid = []"
    using links index unfolding chain_findings_def chain_list Let_def
    by (simp add: contiguous_def list_all_iff)
  then have "list_all (\<lambda>f. status_of f = Some Ok) (sr_findings res)"
    using finding by (simp add: res_def s_def judge_fold empty_scan_def valid_def list_all_iff)
  moreover have "r_kind r \<noteq> ''action'' \<and> r_reconciliation r = None" if "r \<in> set valid" for r
    using that chain unfolding set_valid by (auto simp: read_at_def chain_recorded_def record_ok_def)
  then have "sr_actions res = []" "sr_reconciling res = []"
    by (simp_all add: res_def s_def judge_fold empty_scan_def filter_empty_conv flip: valid_def)
  moreover have "sr_count res = int ?n" by (simp add: res_def files(4))
  ultimately show thesis using verify that by blast
qed

section \<open>A recorded store\<close>

text \<open>Every session directory of the store holds a recorded chain, and the registry seals exactly
  these sessions, each with the length of its chain.\<close>

definition store_recorded ::
  "crypto \<Rightarrow> store \<Rightarrow> evidence \<Rightarrow> bytes \<Rightarrow> (bytes \<rightharpoonup> seal) \<Rightarrow> (bytes \<times> session_entry) list \<Rightarrow> bool" where
  "store_recorded C st E authority seals sessions \<longleftrightarrow>
     (\<forall>(sid, entry) \<in> set sessions. \<exists>entries cores rs s.
        entry = SessionFiles entries \<and> holds_chain C st cores entries \<and>
        chain_recorded C st E authority sid cores rs \<and>
        seals sid = Some s \<and> seal_count s = int (length cores)) \<and>
     dom seals \<subseteq> fst ` set sessions"

lemma verify_sessions_recorded:
  assumes "own_store C st"
    and key: "key_position keys (st_keyID st) = Some pos" "rk_key (keys ! pos) = st_publicKey st"
    and "\<forall>(sid, entry) \<in> set sessions. \<exists>entries cores rs s.
        entry = SessionFiles entries \<and> holds_chain C st cores entries \<and>
        chain_recorded C st E authority sid cores rs \<and>
        seals sid = Some s \<and> seal_count s = int (length cores)"
  obtains results where "verify_sessions C E authority keys sessions = Some results"
    "map fst results = map fst sessions"
    "\<forall>(sid, res) \<in> set results. list_all (\<lambda>f. status_of f = Some Ok) (sr_findings res) \<and>
       sr_actions res = [] \<and> sr_reconciling res = [] \<and> (\<exists>s. seals sid = Some s \<and> seal_count s = sr_count res)"
  using assms(4)
proof (induction sessions arbitrary: thesis)
  case Nil
  from Nil(1) [of "[]"] show thesis by simp
next
  case (Cons e sessions)
  obtain sid entry where e: "e = (sid, entry)" by (cases e)
  from Cons.prems(2) e obtain entries cores rs s where
    x: "entry = SessionFiles entries" "holds_chain C st cores entries"
      "chain_recorded C st E authority sid cores rs" "seals sid = Some s" "seal_count s = int (length cores)"
    by auto
  obtain res where res: "verifySessionUnder C E sid (SessionFiles entries) authority keys = Some res"
    "list_all (\<lambda>f. status_of f = Some Ok) (sr_findings res)" "sr_count res = int (length cores)"
    "sr_actions res = []" "sr_reconciling res = []"
    using verifySession_recorded [OF x(3) assms(1) key x(2)] by blast
  obtain results where rs: "verify_sessions C E authority keys sessions = Some results"
    "map fst results = map fst sessions"
    "\<forall>(sid, res) \<in> set results. list_all (\<lambda>f. status_of f = Some Ok) (sr_findings res) \<and>
       sr_actions res = [] \<and> sr_reconciling res = [] \<and> (\<exists>s. seals sid = Some s \<and> seal_count s = sr_count res)"
    using Cons.IH Cons.prems(2) by auto
  show thesis
    by (rule Cons.prems(1) [of "(sid, res) # results"]) (use res rs x e in auto)
qed

lemma report_recorded:
  assumes results: "\<forall>(sid, res) \<in> set results. list_all (\<lambda>f. status_of f = Some Ok) (sr_findings res) \<and>
       sr_actions res = [] \<and> sr_reconciling res = [] \<and> (\<exists>s. rw_seals walk sid = Some s \<and> seal_count s = sr_count res)"
    and walk: "rw_finding walk = None" "set (rw_order walk) \<subseteq> fst ` set results"
  shows "rp_ok (report_on walk results empty_walk there)"
proof -
  have none: "concat (map (sr_actions \<circ> snd) results) = []" "concat (map (sr_reconciling \<circ> snd) results) = []"
    using results by auto
  have "list_all (\<lambda>f. status_of f = Some Ok) (concat (map (sr_findings \<circ> snd) results))"
    using results by (fastforce simp: list_all_iff)
  moreover have "anchor_findings (rw_seals walk) results = []"
    using results unfolding anchor_findings_def by fastforce
  moreover have "missing_findings (map fst results) (rw_order walk) = []"
    using walk(2) by (auto simp: missing_findings_def filter_empty_conv)
  ultimately show ?thesis
    using walk(1) unfolding report_on_def Let_def none
    by (simp add: witnessesNamed_def Let_def reconciliation_findings_def record_findings_def empty_walk_def)
qed

lemma seals_order: "set (rw_order (walkRegistry C data pinned)) = dom (rw_seals (walkRegistry C data pinned))"
  using walkRegistry_seals_ok [of C data pinned] by (simp add: seals_ok_def)

lemma walk_for_order:
  assumes "walk_for C required data publicKey = Some walk"
  shows "set (rw_order walk) = dom (rw_seals walk)"
proof -
  have "\<exists>pinned. walkRegistry C data pinned = walk"
    using assms by (auto simp: walk_for_def engineWalk_def Let_def split: if_splits sum.splits option.splits)
  then show ?thesis using seals_order by blast
qed

lemma verify_recorded:
  assumes "requirePlainSpelling reg True" and "ev_root E \<noteq> Refused" and "length publicKey = publicKeySize"
    and sessions: "listSessions E = Some sessions"
    and registry: "readRegistryOf F reg required = Some data" "walk_for C required data publicKey = Some walk"
      "rw_finding walk = None"
    and own: "own_store C st"
    and key: "key_position (rw_keys walk) (st_keyID st) = Some pos" "rk_key (rw_keys walk ! pos) = st_publicKey st"
    and recorded: "store_recorded C st E authority (rw_seals walk) sessions"
  shows "\<exists>rep. verifyAgainst C F E reg authority [] tree publicKey required = Some rep \<and> rp_ok rep"
proof -
  obtain results where r: "verify_sessions C E authority (rw_keys walk) sessions = Some results"
    "map fst results = map fst sessions"
    "\<forall>(sid, res) \<in> set results. list_all (\<lambda>f. status_of f = Some Ok) (sr_findings res) \<and>
       sr_actions res = [] \<and> sr_reconciling res = [] \<and> (\<exists>s. rw_seals walk sid = Some s \<and> seal_count s = sr_count res)"
    using verify_sessions_recorded [OF own key] recorded unfolding store_recorded_def by blast
  have "fst ` set results = fst ` set sessions" using r(2) by (metis list.set_map)
  with recorded have "set (rw_order walk) \<subseteq> fst ` set results"
    using walk_for_order [OF registry(2)] by (simp add: store_recorded_def)
  from report_recorded [OF r(3) registry(3) this] have "rp_ok (report_on walk results empty_walk False)" .
  moreover have "verifyAgainst C F E reg authority [] tree publicKey required = Some (report_on walk results empty_walk False)"
    using assms(1-3) sessions registry(1,2) r(1) by (simp add: verifyAgainst_def walkDecisionRecords_def)
  ultimately show ?thesis by simp
qed

end
