(* ===== verification/Scanner.thy ===== *)
theory Scanner
  imports Records
begin

text \<open>
  The scanner of \<^verbatim>\<open>verify_v3.go\<close> moves forward: a value it passes over has at least one byte.  The
  length tests that its loops carry in \<open>Records\<close> therefore never decide, and the loops satisfy the
  equations of the source.
\<close>

section \<open>Progress\<close>

definition shrinks :: "(bytes \<Rightarrow> bytes option) \<Rightarrow> bool" where
  "shrinks f \<longleftrightarrow> (\<forall>s r. f s = Some r \<longrightarrow> length r < length s)"

lemma shrinksD [dest]: "shrinks f \<Longrightarrow> f s = Some r \<Longrightarrow> length r < length s"
  by (simp add: shrinks_def)

lemma skip_space_no_longer: "length (skip_space s) \<le> length s"
  by (simp add: skip_space_def length_dropWhile_le)

lemma string_rest_shorter: "string_rest s = Some r \<Longrightarrow> length r < length s"
proof (induction s arbitrary: r rule: string_rest.induct)
  case (2 c s)
  have "length r \<le> length s"
  proof (cases "c = CHR 0x22 \<or> c \<noteq> CHR 0x5C")
    case True
    with 2 show ?thesis by (auto split: if_splits dest: less_imp_le)
  next
    case False
    with "2.prems" obtain e s' where s: "s = e # s'" by (cases s) auto
    show ?thesis
    proof (cases "short_escape e = None")
      case True
      with 2 False s show ?thesis by (fastforce split: if_splits list.splits)
    next
      case esc: False
      with 2 False s show ?thesis by fastforce
    qed
  qed
  then show ?case by simp
qed simp

lemma scanString_shrinks [simp]: "shrinks scanString"
  unfolding shrinks_def scanString_def
  by (auto simp: Option.bind_eq_Some_conv split: if_splits dest!: string_rest_shorter)

lemma json_string_shrinks [simp]: "shrinks json_string"
  unfolding shrinks_def json_string_def
  by (auto split: if_splits dest!: string_rest_shorter)

lemma length_dropWhile_hd: "s \<noteq> [] \<Longrightarrow> P (hd s) \<Longrightarrow> length (dropWhile P s) < length s"
  by (cases s) (auto simp: less_Suc_eq_le length_dropWhile_le)

lemma dropWhile_drop: "length (dropWhile P (drop n s)) \<le> length s"
  by (rule le_trans [OF length_dropWhile_le]) simp

text \<open>The parts of a number: the digits before the point shorten the rest, the parts after it do
  not lengthen it.\<close>

lemma scanNumber_shorter:
  assumes "scanNumber s = Some r"
  shows "length r < length s"
proof -
  define s0 where "s0 = (if take 1 s = ''-'' then drop 1 s else s)"
  from assms obtain s1 s2 where s0: "s0 \<noteq> []"
    and s1: "(if hd s0 = CHR ''0'' then Some (tl s0)
        else if is_digit (hd s0) then Some (dropWhile is_digit s0) else None) = Some s1"
    and s2: "(if take 1 s1 = ''.'' then do {
             require (takeWhile is_digit (drop 1 s1) \<noteq> []);
             Some (dropWhile is_digit (drop 1 s1)) } else Some s1) = Some s2"
    and r: "(if take 1 s2 = ''e'' \<or> take 1 s2 = ''E'' then do {
        require (takeWhile is_digit (if take 1 (drop 1 s2) = ''+'' \<or> take 1 (drop 1 s2) = ''-'' then drop 1 (drop 1 s2) else drop 1 s2) \<noteq> []);
        Some (dropWhile is_digit (if take 1 (drop 1 s2) = ''+'' \<or> take 1 (drop 1 s2) = ''-'' then drop 1 (drop 1 s2) else drop 1 s2)) }
      else Some s2) = Some r"
    unfolding scanNumber_def Let_def s0_def [symmetric] Option.bind_eq_Some_conv by (auto simp: Let_def)
  have "length s0 \<le> length s" by (simp add: s0_def)
  moreover have "length s1 < length s0"
    using s0 s1 length_dropWhile_hd [OF s0, of is_digit] by (auto split: if_splits)
  moreover have "length s2 \<le> length s1"
    using s2 dropWhile_drop [of is_digit 1 s1] by (auto simp: Option.bind_eq_Some_conv split: if_splits)
  moreover have "length r \<le> length s2"
    using r dropWhile_drop [of is_digit 1 s2] dropWhile_drop [of is_digit 2 s2]
    by (auto simp: Option.bind_eq_Some_conv numeral_2_eq_2 split: if_splits)
  ultimately show ?thesis by linarith
qed

lemma scan_name_shorter:
  assumes "shrinks str" and "scan_name str s = Some r"
  shows "length r < length s"
proof -
  from assms obtain r1 r2 where "str s = Some r1" "cut_prefix '':'' (skip_space r1) = Some r2" "r = skip_space r2"
    by (auto simp: scan_name_def Option.bind_eq_Some_conv)
  then show ?thesis
    using shrinksD [OF assms(1)] skip_space_no_longer [of r1] skip_space_no_longer [of r2] cut_prefix_length by fastforce
qed

lemma scanValue_shorter:
  assumes "shrinks str"
  shows "scanValue str bound depth s = Some e \<Longrightarrow> length e < length s"
    and "scan_items str bound depth isObject s = Some e \<Longrightarrow> length e < length s"
  using assms
proof (induction str bound depth s and str bound depth isObject s arbitrary: e and e rule: scanValue_scan_items.induct)
  case (1 str bound depth s)
  show ?case
  proof (cases s)
    case Nil
    with 1 show ?thesis by (simp add: scanValue.simps)
  next
    case (Cons c r)
    let ?t = "skip_space r"
    have t: "length ?t \<le> length r" by (rule skip_space_no_longer)
    have "length (drop 1 ?t) \<le> length r" using t by simp
    moreover have "length e < length ?t" if "scan_items str bound depth (c = CHR ''{'') ?t = Some e"
      "c \<noteq> CHR 0x22" "c = CHR ''{'' \<or> c = CHR ''[''" "\<not> depth \<ge> bound"
      "take 1 ?t \<noteq> (if c = CHR ''['' then '']'' else ''}'')"
      using "1.IH" [OF Cons _ _ _ refl] that "1.prems" by blast
    ultimately show ?thesis
      using 1(2,3) Cons t scanNumber_shorter [of s e]
      by (auto simp: scanValue.simps [of _ _ _ "c # r"] Let_def scan_literal_def split: if_splits dest!: cut_prefix_length)
  qed
next
  case (2 str bound depth isObject s)
  let ?v = "if isObject then scan_name str s else Some s"
  from "2.prems"(1) obtain v e0 c t where v: "?v = Some v" "\<not> length v > length s"
    and e0: "scanValue str bound (Suc depth) v = Some e0" "skip_space e0 = c # t"
    and after: "(if c = (if isObject then CHR ''}'' else CHR '']'') then Some t
        else if c \<noteq> CHR '','' \<or> length t \<ge> length s then None
        else scan_items str bound depth isObject (skip_space t)) = Some e"
    unfolding scan_items.simps [of _ _ _ _ s] by (cases ?v) (auto split: if_splits option.splits list.splits)
  have "length e0 < length v" using "2.IH"(1) [OF v e0(1)] "2.prems"(2) by blast
  then have t: "length t < length s" using v(2) e0(2) skip_space_no_longer [of e0] by simp
  show ?case
  proof (cases "c = (if isObject then CHR ''}'' else CHR '']'')")
    case True
    with after t show ?thesis by simp
  next
    case False
    then have c: "\<not> (c \<noteq> CHR '','' \<or> length t \<ge> length s)"
      and rest: "scan_items str bound depth isObject (skip_space t) = Some e"
      using after by (simp_all split: if_splits)
    have "length e < length (skip_space t)"
      using "2.IH"(2) [OF v e0 False c rest "2.prems"(2)] .
    with t skip_space_no_longer [of t] show ?thesis by simp
  qed
qed


section \<open>The loops as the source has them\<close>

lemma json_value_shorter: "json_value s = Some e \<Longrightarrow> length e < length s"
  unfolding json_value_def by (rule scanValue_shorter(1) [OF json_string_shrinks])

lemma cut_skip_shorter:
  assumes "map_option skip_space (cut_prefix p (skip_space s)) = Some v"
  shows "length v \<le> length s"
proof -
  from assms obtain u where u: "cut_prefix p (skip_space s) = Some u" "v = skip_space u" by auto
  then show ?thesis
    using skip_space_no_longer [of s] skip_space_no_longer [of u] cut_prefix_length [OF u(1)] by simp
qed

lemma scan_items_loop:
  assumes "shrinks str"
  shows "scan_items str bound depth isObject s = do {
    v \<leftarrow> (if isObject then scan_name str s else Some s);
    e \<leftarrow> scanValue str bound (Suc depth) v;
    (case skip_space e of
       [] \<Rightarrow> None
     | c # t \<Rightarrow>
         if c = (if isObject then CHR ''}'' else CHR '']'') then Some t
         else if c \<noteq> CHR '','' then None
         else scan_items str bound depth isObject (skip_space t)) }"
proof -
  have v: "length v \<le> length s" if "(if isObject then scan_name str s else Some s) = Some v" for v
    using that scan_name_shorter [OF assms, of s v] by (auto split: if_splits)
  have "length t < length s"
    if "(if isObject then scan_name str s else Some s) = Some v" "scanValue str bound (Suc depth) v = Some e"
      "skip_space e = c # t" for v e c t
    using v [OF that(1)] scanValue_shorter(1) [OF assms that(2)] skip_space_no_longer [of e] that(3) by simp
  with v show ?thesis
    unfolding scan_items.simps [of str bound depth isObject s]
    by (cases "if isObject then scan_name str s else Some s"; simp only: option.case bind.bind_lunit bind.bind_lzero;
        cases "scanValue str bound (Suc depth) (the (if isObject then scan_name str s else Some s))")
      (fastforce simp: not_le split: list.splits)+
qed

lemma decoded_signature_loop:
  "decoded_signature first s signature seen =
     (let t = skip_space s in
      if t = [] \<or> hd t = CHR '']'' then None
      else if hd t = CHR ''}'' then (if skip_space (tl t) = [] \<and> seen = 1 then Some signature else None)
      else do {
        k \<leftarrow> (if first then Some t else map_option skip_space (cut_prefix '','' t));
        afterKey \<leftarrow> json_string k;
        v \<leftarrow> map_option skip_space (cut_prefix '':'' (skip_space afterKey));
        rest \<leftarrow> json_value v;
        (if decoded_string k afterKey = ''signature''
         then do {
           x \<leftarrow> json_to_string (upto v rest);
           decoded_signature False rest x (seen + 1) }
         else decoded_signature False rest signature seen) })"
proof -
  have "length rest < length s"
    if "(if first then Some (skip_space s) else map_option skip_space (cut_prefix '','' (skip_space s))) = Some k"
      "json_string k = Some afterKey" "map_option skip_space (cut_prefix '':'' (skip_space afterKey)) = Some v"
      "json_value v = Some rest" for k afterKey v rest
  proof -
    have "length k \<le> length s"
      using that(1) skip_space_no_longer [of s] cut_skip_shorter [of "'',''" s k] by (auto split: if_splits)
    moreover have "length afterKey < length k" using that(2) by (rule shrinksD [OF json_string_shrinks])
    moreover have "length v \<le> length afterKey"
      using that(3) by (rule cut_skip_shorter)
    ultimately show ?thesis using json_value_shorter [OF that(4)] by linarith
  qed
  then show ?thesis
    by (subst decoded_signature.simps) (auto simp: Let_def intro!: Option.bind_cong)
qed


lemma cites_members_loop:
  "cites_members s raw seen =
     (let t = skip_space s in
      if t = [] then None
      else if hd t = CHR ''}'' then (if skip_space (tl t) = [] then Some (raw, seen) else None)
      else do {
        afterKey \<leftarrow> scanString t;
        v \<leftarrow> map_option skip_space (cut_prefix '':'' (skip_space afterKey));
        e \<leftarrow> scanValue scanString maxNesting 1 v;
        let (raw, seen) = (if decoded_string t afterKey = ''cites'' then (Some (upto v e), seen + 1) else (raw, seen));
        let u = skip_space e;
        require (u \<noteq> []);
        (if hd u = CHR '','' then do {
           require (take 1 (skip_space (tl u)) \<noteq> ''}'');
           cites_members (tl u) raw seen }
         else do { require (hd u = CHR ''}''); cites_members u raw seen }) })"
proof -
  have "length (skip_space e) < length s"
    if "scanString (skip_space s) = Some afterKey"
      "map_option skip_space (cut_prefix '':'' (skip_space afterKey)) = Some v"
      "scanValue scanString maxNesting 1 v = Some e" for afterKey v e
    using skip_space_no_longer [of s] shrinksD [OF scanString_shrinks that(1)] cut_skip_shorter [OF that(2)]
      scanValue_shorter(1) [OF scanString_shrinks that(3)] skip_space_no_longer [of e] by linarith
  then show ?thesis
    by (subst cites_members.simps) (auto simp: Let_def intro!: Option.bind_cong)
qed

end
