(* ===== verification/Sample_Store.thy ===== *)
theory Sample_Store
  imports Verify_Complete Scanner Registry_Claims
begin

text \<open>
  A concrete store: one session of three chained receipts, sealed with its count in a registry the
  gateway wrote.  It is what the theorems about verification are applied to.
\<close>

definition sample_store :: store where
  "sample_store = newStoreOn sample_crypto sample_seed ''gw''"

definition sample_artifact :: bytes where
  "sample_artifact = ''[1]''"

definition sample_core :: "nat \<Rightarrow> bytes option \<Rightarrow> members" where
  "sample_core i prev =
     [(''receiptVersion'', VString ''2''), (''sessionId'', VString ''s1''), (''callIndex'', VInt (int i)),
      (''prevSignature'', case prev of None \<Rightarrow> VNull | Some p \<Rightarrow> VString p), (''source'', VString ''demo''),
      (''resultDigest'', VString (digest_of sample_crypto sample_artifact)), (''servedAt'', VString sample_time),
      (''authority'', VString ''gw''), (''argumentsDigest'', VString ''hmac-sha256:00'')]"

definition sample_signature :: "members \<Rightarrow> bytes" where
  "sample_signature core = stamp_signature sample_crypto sample_store (stamp_core sample_store core)"

definition sample_cores :: "members list" where
  "sample_cores =
     (let a = sample_core 0 None; b = sample_core 1 (Some (sample_signature a)) in
      [a, b, sample_core 2 (Some (sample_signature b))])"

lemma sample_own_store: "own_store sample_crypto sample_store"
  by (simp add: own_store_def sample_store_def newStoreOn_def)

lemma valid_utf8_digest_of [simp]: "valid_utf8 (digest_of C m)"
proof -
  have "list_all is_lower_hex (hex_encode (sha256 C m))" by simp
  then show ?thesis
    unfolding digest_of_def by (intro valid_utf8_ascii) (auto simp: list_all_iff is_lower_hex_def is_digit_def)
qed

lemma sample_stampable:
  assumes "case prev of None \<Rightarrow> True | Some p \<Rightarrow> valid_utf8 p" and "i \<le> 2"
  shows "stampable (sample_core i prev)"
  using assms sample_facts(4)
  by (auto simp: stampable_def sample_core_def maxNesting_def obj_get_def wf_json.simps valid_utf8_ascii
      in_safe_range_def maxSafeInteger_def minSafeInteger_def split: option.splits)

lemma sample_receipt:
  assumes "stampable (sample_core i prev)"
  shows "\<exists>r. receiptFrom (stamped sample_crypto sample_store (sample_core i prev)) = Some r \<and>
    r_version r = receiptVersion \<and> r_sessionID r = ''s1'' \<and> r_callIndex r = int i \<and> r_authority r = ''gw'' \<and>
    r_resultDigest r = digest_of sample_crypto sample_artifact \<and> r_kind r = [] \<and> r_reconciliation r = None \<and>
    r_prevSignature r = prev \<and> r_signature r = sample_signature (sample_core i prev)"
  unfolding stamped_append(1) [OF assms] sample_signature_def
  by (cases prev) (simp_all add: sample_core_def receiptFrom_def common_members_def memberString_def obj_get_def
      member_int_def receiptVersion_def Let_def)


section \<open>The chain\<close>

definition sample_receipts :: "receipt list" where
  "sample_receipts = map (\<lambda>core. the (receiptFrom (stamped sample_crypto sample_store core))) sample_cores"

definition sample_files :: "(bytes \<times> file_entry) list" where
  "sample_files =
     map (\<lambda>i. case entry_of sample_crypto sample_store sample_cores i of (name, data) \<Rightarrow> (name, RegularFile (Some data)))
       [0..<3]"

definition sample_evidence :: evidence where
  "sample_evidence =
     \<lparr> ev_root = There (), ev_receipts = There [(''s1'', SessionFiles sample_files)],
       ev_artifacts = [hex_encode (sha256 sample_crypto sample_artifact) \<mapsto> sample_artifact],
       ev_regular = (\<lambda>_. True) \<rparr>"

lemma sample_signature_utf8 [simp]: "valid_utf8 (sample_signature core)"
  by (simp add: sample_signature_def stamp_signature_def)

definition sample_prev :: "nat \<Rightarrow> bytes option" where
  "sample_prev i = (if i = 0 then None else Some (sample_signature (sample_cores ! (i - 1))))"

lemma sample_cores_nth:
  assumes "i < 3"
  shows "sample_cores ! i = sample_core i (sample_prev i)" and "stampable (sample_cores ! i)"
proof -
  have "i = 0 \<or> i = 1 \<or> i = 2" using assms by auto
  then show at: "sample_cores ! i = sample_core i (sample_prev i)"
    by (auto simp: sample_prev_def sample_cores_def Let_def)
  show "stampable (sample_cores ! i)"
    unfolding at using assms by (intro sample_stampable) (auto simp: sample_prev_def)
qed

lemma sample_cores_length [simp]: "length sample_cores = 3"
  by (simp add: sample_cores_def Let_def)

lemma sample_receipts_nth:
  assumes "i < 3"
  shows "receiptFrom (stamped sample_crypto sample_store (sample_cores ! i)) = Some (sample_receipts ! i)"
    and "r_version (sample_receipts ! i) = receiptVersion" "r_sessionID (sample_receipts ! i) = ''s1''"
    "r_callIndex (sample_receipts ! i) = int i" "r_authority (sample_receipts ! i) = ''gw''"
    "r_resultDigest (sample_receipts ! i) = digest_of sample_crypto sample_artifact"
    "r_kind (sample_receipts ! i) = []" "r_reconciliation (sample_receipts ! i) = None"
    "r_prevSignature (sample_receipts ! i) = sample_prev i"
    "r_signature (sample_receipts ! i) = sample_signature (sample_cores ! i)"
  using sample_receipt [OF sample_cores_nth(2) [OF assms, unfolded sample_cores_nth(1) [OF assms]]] assms
  by (auto simp: sample_receipts_def sample_cores_nth(1))

lemma sample_names_no_descriptors:
  assumes "i < 3"
  shows "\<not> names_descriptors (stamped sample_crypto sample_store (sample_cores ! i))"
  using stamped_append(1) [OF sample_cores_nth(2) [OF assms], of sample_crypto sample_store]
  by (simp add: sample_cores_nth(1) [OF assms] names_descriptors_def sample_core_def obj_get_def)

lemma sample_chain:
  assumes "ev_artifacts E = ev_artifacts sample_evidence"
  shows "chain_recorded sample_crypto sample_store E ''gw'' ''s1'' sample_cores sample_receipts"
proof -
  have prev: "sample_prev i = (if i = 0 then None else Some (r_signature (sample_receipts ! (i - 1))))" if "i < 3" for i
    using that sample_receipts_nth(10) [of "i - 1"] by (simp add: sample_prev_def)
  show ?thesis
    unfolding chain_recorded_def record_ok_def
    using sample_cores_nth(2) sample_receipts_nth sample_names_no_descriptors prev assms
    by (auto simp: sample_evidence_def sample_receipts_def [THEN arg_cong, of length] maxSafeInteger_def)
qed

lemma sample_holds: "holds_chain sample_crypto sample_store sample_cores sample_files"
  by (auto simp: holds_chain_def sample_files_def distinct_map inj_on_def entry_of_def lessThan_atLeast0 comp_def)

section \<open>The run\<close>

definition sample_disk :: files where
  "sample_disk =
     \<lparr> fs_stat = (\<lambda>p. if p = ''r'' then StatOther else StatNotExist),
       fs_lstat = (\<lambda>p. if p = ''r'' then StatOther else StatNotExist),
       fs_readFile = (\<lambda>p. if p = ''r'' then Some sample_sealed else None) \<rparr>"

lemma sample_walk:
  obtains w where "walk_for sample_crypto True sample_sealed sample_seed = Some w" "rw_finding w = None"
    "rw_seals w = [''s1'' \<mapsto> \<lparr> seal_session = ''s1'', seal_count = 3 \<rparr>]"
    "rw_keys w = [\<lparr> rk_key = sample_seed, rk_keyID = keyIDFor sample_crypto sample_seed \<rparr>]"
proof -
  have "readLog (fsLog_ops newFsLog) 0 (LogAt []) = Inr []" by (simp add: fsLog_ops_def)
  from fs_log.seal_loads [OF sample_seal_run [unfolded sample_writer_def] this]
  obtain w where "engineWalk sample_crypto sample_sealed sample_seed = Inr w"
    "rw_seals w = [''s1'' \<mapsto> \<lparr> seal_session = ''s1'', seal_count = 3 \<rparr>]"
    "rw_keys w = rw_keys (start_walk sample_crypto sample_seed)"
    using sample_facts sample_empty_walk
    by (auto simp: in_safe_range_def maxSafeInteger_def minSafeInteger_def fsLog_ops_def start_walk_def)
  moreover from this(1) have "rw_finding w = None"
    by (auto simp: engineWalk_def Let_def split: option.splits if_splits)
  ultimately show thesis
    using that [of w] by (simp add: walk_for_def start_walk_def)
qed

lemma sample_plain: "requirePlainSpelling ''r'' True"
  by (simp add: requirePlainSpelling_def path_components_def)

lemma sample_registry: "readRegistryOf sample_disk ''r'' True = Some sample_sealed"
  using sample_plain
  by (simp add: readRegistryOf_def readRegistryBytes_def registryContainerReachable_def pathAncestors_def
      statInput_def sample_disk_def)

lemma sample_sessions: "listSessions sample_evidence = Some [(''s1'', SessionFiles sample_files)]"
  by (simp add: listSessions_def sample_evidence_def)

text \<open>A copy of the store, its files listed in another order beside an entry that is no session.\<close>

definition sample_copy :: evidence where
  "sample_copy =
     sample_evidence\<lparr> ev_receipts := There [(''lost'', NotADirectory), (''s1'', SessionFiles (rev sample_files))] \<rparr>"

lemma sample_copy_sessions: "listSessions sample_copy = Some [(''s1'', SessionFiles (rev sample_files))]"
  by (simp add: listSessions_def sample_copy_def)

lemma sample_recorded:
  assumes "ev_artifacts E = ev_artifacts sample_evidence" and "set entries = set sample_files" "distinct (map fst entries)"
  obtains w where "walk_for sample_crypto True sample_sealed sample_seed = Some w" "rw_finding w = None"
    "store_recorded sample_crypto sample_store E ''gw'' (rw_seals w) [(''s1'', SessionFiles entries)]"
    "key_position (rw_keys w) (st_keyID sample_store) = Some 0" "rk_key (rw_keys w ! 0) = st_publicKey sample_store"
proof -
  obtain w where w: "walk_for sample_crypto True sample_sealed sample_seed = Some w" "rw_finding w = None"
    "rw_seals w = [''s1'' \<mapsto> \<lparr> seal_session = ''s1'', seal_count = 3 \<rparr>]"
    "rw_keys w = [\<lparr> rk_key = sample_seed, rk_keyID = keyIDFor sample_crypto sample_seed \<rparr>]"
    by (rule sample_walk)
  have "holds_chain sample_crypto sample_store sample_cores entries"
    using sample_holds assms(2,3) by (simp add: holds_chain_def)
  then have "store_recorded sample_crypto sample_store E ''gw'' (rw_seals w) [(''s1'', SessionFiles entries)]"
    using sample_chain [OF assms(1)] w(3) by (force simp: store_recorded_def)
  moreover have "key_position (rw_keys w) (st_keyID sample_store) = Some 0" "rk_key (rw_keys w ! 0) = st_publicKey sample_store"
    using w(4) sample_facts(1) by (simp_all add: sample_store_def newStoreOn_def)
  ultimately show thesis using that w(1,2) by blast
qed

lemma sample_verifies:
  assumes "E = sample_evidence \<or> E = sample_copy"
  shows "\<exists>rep. verifyAgainst sample_crypto sample_disk E ''r'' ''gw'' [] Absent sample_seed True = Some rep \<and>
     rp_ok rep"
proof -
  have names: "distinct (map fst sample_files)" using sample_holds by (simp add: holds_chain_def)
  have art: "ev_artifacts E = ev_artifacts sample_evidence" and root: "ev_root E \<noteq> Refused"
    using assms by (auto simp: sample_copy_def sample_evidence_def)
  obtain entries where e: "listSessions E = Some [(''s1'', SessionFiles entries)]" "set entries = set sample_files"
    "distinct (map fst entries)"
    using assms sample_sessions sample_copy_sessions names by (auto simp: rev_map [symmetric])
  obtain w where w: "walk_for sample_crypto True sample_sealed sample_seed = Some w" "rw_finding w = None"
    "store_recorded sample_crypto sample_store E ''gw'' (rw_seals w) [(''s1'', SessionFiles entries)]"
    "key_position (rw_keys w) (st_keyID sample_store) = Some 0" "rk_key (rw_keys w ! 0) = st_publicKey sample_store"
    using sample_recorded [OF art e(2,3)] by blast
  show ?thesis
    by (rule verify_recorded [OF sample_plain root _ e(1) sample_registry w(1,2) sample_own_store w(4,5,3)])
      (simp add: sample_seed_def)
qed

end
