(* ===== verification/Verify_Claims.thy ===== *)
theory Verify_Claims
  imports Sample_Store
begin

text \<open>
  The properties of verification: what a report with nothing wrong establishes, what is enough for
  one, and how the inputs of a verification are read.
\<close>

section \<open>What a good report establishes\<close>

text \<open>The number of receipt files of each session of a store.\<close>

definition receipt_count :: "evidence \<Rightarrow> bytes \<Rightarrow> nat option" where
  "receipt_count E sid =
     (case listSessions E of
        None \<Rightarrow> None
      | Some sessions \<Rightarrow>
          (case map_of sessions sid of
             Some (SessionFiles entries) \<Rightarrow> map_option length (receipt_files entries)
           | _ \<Rightarrow> None))"

text \<open>A session is sealed with the number of its receipt files, and they hold its chain.\<close>

definition session_sealed ::
  "crypto \<Rightarrow> evidence \<Rightarrow> bytes \<Rightarrow> registryWalk \<Rightarrow> bytes \<Rightarrow> session_entry \<Rightarrow> bool" where
  "session_sealed C E authority walk sid entry \<longleftrightarrow>
     (\<exists>entries files chain s. entry = SessionFiles entries \<and> receipt_files entries = Some files \<and>
        rw_seals walk sid = Some s \<and> seal_count s = int (length files) \<and>
        session_attested C E authority (rw_keys walk) sid files chain)"

lemma verify_ok_parts:
  assumes "verifyAgainst C F E reg authority dir tree key required = Some rep" and "rp_ok rep"
  obtains sessions data walk where
    "listSessions E = Some sessions" "readRegistryOf F reg required = Some data"
    "walk_for C required data key = Some walk" "rw_finding walk = None"
    "fst ` set sessions = dom (rw_seals walk)"
    "\<forall>(sid, entry) \<in> set sessions. session_sealed C E authority walk sid entry"
proof -
  obtain sessions data walk results records there where
    p: "listSessions E = Some sessions" "readRegistryOf F reg required = Some data"
      "walk_for C required data key = Some walk"
      "verify_sessions C E authority (rw_keys walk) sessions = Some results"
    and rep: "rep = report_on walk results records there"
    using assms(1) by (rule verifyAgainst_parts)
  note ok = report_on_ok [OF assms(2) [unfolded rep]]
  have names: "fst ` set results = fst ` set sessions"
    using verify_sessions_fst [OF p(4)] by (metis list.set_map)
  have entry: "session_sealed C E authority walk sid entry"
    if entry: "(sid, entry) \<in> set sessions" for sid entry
  proof -
    obtain res where res: "(sid, res) \<in> set results"
      "verifySessionUnder C E sid entry authority (rw_keys walk) = Some res"
      using list_all2_members(1) [OF p(4) [unfolded verify_sessions_all2] entry] by auto
    obtain entries files chain where "entry = SessionFiles entries" "receipt_files entries = Some files"
      "sr_count res = int (length files)" "session_attested C E authority (rw_keys walk) sid files chain"
      using verifySessionUnder_attested [OF res(2) ok(2) [OF res(1)]] by blast
    moreover obtain s where "rw_seals walk sid = Some s" "seal_count s = sr_count res"
      using ok(3) [OF res(1)] by blast
    ultimately show ?thesis unfolding session_sealed_def by auto
  qed
  have "dom (rw_seals walk) \<subseteq> fst ` set sessions"
    using ok(4) names walk_for_order [OF p(3)] by blast
  moreover have "fst ` set sessions \<subseteq> dom (rw_seals walk)"
    using entry by (fastforce simp: session_sealed_def)
  ultimately show thesis using that [OF p(1-3) ok(1)] entry by auto
qed



text \<open>The count of a session is the count of its seal.\<close>

lemma verify_counts:
  assumes "verifyAgainst C F E reg authority dir tree key required = Some rep" and "rp_ok rep"
    and "readRegistryOf F reg required = Some data" "walk_for C required data key = Some walk"
  shows "receipt_count E sid = map_option (nat \<circ> seal_count) (rw_seals walk sid)"
proof -
  obtain sessions where s: "listSessions E = Some sessions" "fst ` set sessions = dom (rw_seals walk)"
    "\<forall>(sid, entry) \<in> set sessions. session_sealed C E authority walk sid entry"
    using verify_ok_parts [OF assms(1,2)] assms(3,4) by (metis option.inject)
  show ?thesis
  proof (cases "map_of sessions sid")
    case None
    then have "sid \<notin> dom (rw_seals walk)" using s(2) by (simp add: map_of_eq_None_iff)
    with None s(1) show ?thesis by (auto simp: receipt_count_def domIff)
  next
    case (Some entry)
    then have "session_sealed C E authority walk sid entry" using s(3) map_of_SomeD by fastforce
    with Some s(1) show ?thesis by (auto simp: receipt_count_def session_sealed_def)
  qed
qed

text \<open>C3: A registry fixes how many receipts its store has: two stores that verify against one
  registry under one key have the same sessions with the same number of receipts each, so that no
  receipt can be taken from the end of a session, or session taken whole, without a finding.\<close>

theorem verify_no_rollback:
  assumes "verifyAgainst C F E reg authority dir tree key required = Some rep" and "rp_ok rep"
    and "verifyAgainst C F E' reg authority' dir' tree' key required = Some rep'" and "rp_ok rep'"
  shows "receipt_count E sid = receipt_count E' sid"
proof (rule verify_ok_parts [OF assms(1,2)])
  fix data walk
  assume "readRegistryOf F reg required = Some data" "walk_for C required data key = Some walk"
  then show ?thesis using verify_counts [OF assms(1,2)] verify_counts [OF assms(3,4)] by simp
qed

theorem verify_no_rollback_witness:
  "receipt_count sample_evidence ''s1'' = Some 3 \<and> receipt_count sample_copy ''s1'' = Some 3"
proof -
  obtain rep where rep: "verifyAgainst sample_crypto sample_disk sample_evidence ''r'' ''gw'' [] Absent sample_seed True = Some rep"
    "rp_ok rep" using sample_verifies [OF disjI1 [OF refl]] by blast
  obtain rep' where rep': "verifyAgainst sample_crypto sample_disk sample_copy ''r'' ''gw'' [] Absent sample_seed True = Some rep'"
    "rp_ok rep'" using sample_verifies [OF disjI2 [OF refl]] by blast
  obtain w where "walk_for sample_crypto True sample_sealed sample_seed = Some w"
    "rw_seals w = [''s1'' \<mapsto> \<lparr> seal_session = ''s1'', seal_count = 3 \<rparr>]" by (rule sample_walk)
  then have "receipt_count sample_evidence ''s1'' = Some 3"
    using verify_counts [OF rep sample_registry] by simp
  then show ?thesis using verify_no_rollback [OF rep rep', of "''s1''"] by simp
qed

section \<open>What is enough for a good report\<close>



section \<open>The inputs of a verification\<close>




text \<open>C33: The signer and the verifier agree on acquisitions: whatever an adapter's envelope says, if
  the gateway reads it for a source of a shape it knows, the acquisition it puts into the receipt
  passes the check the verifier holds every acquisition to.\<close>

theorem envelope_acquisition_valid:
  assumes "readEnvelope output shape = Some e" and "shape \<in> set acquisitionShapes"
  shows "validateAcquisition (VObject (adapterAcquisition C shape e salt)) = Some ()"
  using assms by (rule adapterAcquisition_valid)

definition sample_envelope :: jvalue where
  "sample_envelope = VObject
     [(''acquisition'', VObject
        [(''adapter'', VObject [(''name'', VString ''rest''), (''version'', VString ''1''), (''digest'', VString (digest_of sample_crypto sample_seed))]),
         (''endpoint'', VString ''orders''), (''statement'', VString ''GET /orders''), (''snapshot'', VNull),
         (''peerIdentity'', VNull), (''schema'', VNull), (''upstreamToken'', VNull),
         (''observedAt'', VString ''2026-01-02T03:04:05Z'')]),
      (''result'', VArray [VInt 1, VInt 2]), (''page'', VBool True)]"

theorem envelope_acquisition_valid_witness:
  "\<exists>e. readEnvelope sample_envelope ''http'' = Some e \<and>
     validateAcquisition (VObject (adapterAcquisition sample_crypto ''http'' e sample_seed)) = Some ()"
proof -
  have "readEnvelope sample_envelope ''http'' \<noteq> None" "''http'' \<in> set acquisitionShapes" by code_simp+
  then show ?thesis using envelope_acquisition_valid by blast
qed

text \<open>C34: The walk of the decision records finds exactly what is there: a digest wanted is found
  under a reading exactly when some file as a whole, or some record under that reading, has it;
  and the bytes handed on for a digest are a record under that reading with that digest, for every
  digest wanted that has one.\<close>

theorem decision_walk_exact:
  "walk_holds C wanted exact (record_candidates False tree) (record_candidates True tree) (snd ` set tree)
     (walk_tree C wanted exact tree)"
  by (rule walk_tree_holds)

end
