(* ===== verification/Gate.thy ===== *)
theory Gate
  imports Gateway_Prelude "HOL-Library.Word"
begin

text \<open>
  The maintenance gate (\<^verbatim>\<open>gate.go\<close>): admission is open or closed, what was admitted and has not
  finished is counted, and a closure is drained when nothing admitted before it is pending.

  A channel that is only ever closed is the truth value of its having been closed.  Every operation
  runs under its owner's lock, so each is one step.  What is said on the diagnostics stream is left
  out.  \<open>admission\<close> is the contract the gate's owners rely on.
\<close>

section \<open>The contract\<close>

text \<open>A gate's owner sees whether it is closed, how much is pending and whether its closure has
  drained.\<close>

locale admission =
  fixes valid :: "'g \<Rightarrow> bool" and shut :: "'g \<Rightarrow> bool" and pending :: "'g \<Rightarrow> int" and drained :: "'g \<Rightarrow> bool"
    and enter :: "'g \<Rightarrow> bool \<times> 'g" and leave :: "'g \<Rightarrow> 'g" and close_gate :: "'g \<Rightarrow> 'g" and open_gate :: "'g \<Rightarrow> 'g"
  assumes pending_nonneg: "valid g \<Longrightarrow> 0 \<le> pending g"
    and drained_iff: "valid g \<Longrightarrow> shut g \<Longrightarrow> drained g \<longleftrightarrow> pending g = 0"
    and enter_shut: "shut g \<Longrightarrow> enter g = (False, g)"
    and enter_open: "valid g \<Longrightarrow> \<not> shut g \<Longrightarrow> enter g = (True, g') \<Longrightarrow>
      valid g' \<and> pending g' = pending g + 1 \<and> \<not> shut g'"
    and enter_answers: "\<not> shut g \<Longrightarrow> fst (enter g)"
    and leave_valid: "valid g \<Longrightarrow> 0 < pending g \<Longrightarrow>
      valid (leave g) \<and> pending (leave g) = pending g - 1 \<and> shut (leave g) = shut g"
    and close_valid: "valid g \<Longrightarrow> valid (close_gate g) \<and> pending (close_gate g) = pending g \<and> shut (close_gate g)"
    and open_valid: "valid g \<Longrightarrow> valid (open_gate g) \<and> pending (open_gate g) = pending g \<and> \<not> shut (open_gate g)"
begin

text \<open>A gate that is closed admits nothing, and once it has drained it stays so until it is opened.\<close>

lemma shut_admits_nothing: "shut g \<Longrightarrow> \<not> fst (enter g) \<and> snd (enter g) = g"
  using enter_shut by simp

lemma drained_stays: "valid g \<Longrightarrow> shut g \<Longrightarrow> drained g \<Longrightarrow> drained (close_gate g) \<and> drained (snd (enter g))"
  using drained_iff close_valid [of g] enter_shut by simp

text \<open>A closed gate drains with exactly the finish that leaves nothing pending.\<close>

lemma drains_last:
  assumes "valid g" and "shut g" and "0 < pending g"
  shows "drained (leave g) \<longleftrightarrow> pending g = 1"
  using assms leave_valid [of g] drained_iff [of "leave g"] by simp

end

section \<open>The gate\<close>

record gateClosure =
  gc_generation :: "64 word"
  gc_done :: bool
  gc_drained :: bool

record admissionGate =
  ag_closed :: bool
  ag_generation :: "64 word"
  ag_closing :: bool
  ag_pending :: int
  ag_current :: "gateClosure option"

definition newAdmissionGate :: admissionGate where
  "newAdmissionGate =
     \<lparr> ag_closed = False, ag_generation = 0, ag_closing = False, ag_pending = 0, ag_current = None \<rparr>"

definition closeLocked :: "admissionGate \<Rightarrow> (gateClosure option \<times> bool) \<times> admissionGate" where
  "closeLocked g =
     (if ag_closed g then ((ag_current g, False), g)
      else let generation = ag_generation g + 1;
               c = \<lparr> gc_generation = generation, gc_done = (ag_pending g = 0), gc_drained = (ag_pending g = 0) \<rparr>
           in ((Some c, True),
               g\<lparr> ag_closed := True, ag_generation := generation, ag_closing := True, ag_current := Some c \<rparr>))"

definition openLocked :: "admissionGate \<Rightarrow> (gateClosure option \<times> bool) \<times> admissionGate" where
  "openLocked g =
     (if \<not> ag_closed g then ((None, False), g)
      else let c = map_option (\<lambda>c. c\<lparr> gc_done := True \<rparr>) (ag_current g)
           in ((c, True), g\<lparr> ag_closed := False, ag_closing := False, ag_current := c \<rparr>))"

definition admitLocked :: "admissionGate \<Rightarrow> bool \<times> admissionGate" where
  "admitLocked g = (if ag_closed g then (False, g) else (True, g\<lparr> ag_pending := ag_pending g + 1 \<rparr>))"

definition finishLocked :: "admissionGate \<Rightarrow> gateClosure option \<times> admissionGate" where
  "finishLocked g =
     (let g = g\<lparr> ag_pending := ag_pending g - 1 \<rparr> in
      case ag_current g of
        Some c \<Rightarrow>
          if ag_closed g \<and> ag_pending g = 0 \<and> \<not> gc_done c
          then let c = c\<lparr> gc_drained := True, gc_done := True \<rparr> in (Some c, g\<lparr> ag_current := Some c \<rparr>)
          else (None, g)
      | None \<Rightarrow> (None, g))"

text \<open>A gate as its operations leave it.\<close>

definition gate_ok :: "admissionGate \<Rightarrow> bool" where
  "gate_ok g \<longleftrightarrow>
     0 \<le> ag_pending g \<and> ag_closing g = ag_closed g \<and>
     (\<forall>c. ag_current g = Some c \<longrightarrow> gc_generation c = ag_generation g \<and> (gc_drained c \<longrightarrow> gc_done c)) \<and>
     (ag_closed g \<longrightarrow> (\<exists>c. ag_current g = Some c \<and> gc_drained c = (ag_pending g = 0) \<and> gc_done c = gc_drained c))"

definition gate_drained :: "admissionGate \<Rightarrow> bool" where
  "gate_drained g \<longleftrightarrow> (case ag_current g of Some c \<Rightarrow> gc_drained c | None \<Rightarrow> False)"

lemma newAdmissionGate_ok: "gate_ok newAdmissionGate"
  by (simp add: gate_ok_def newAdmissionGate_def)

interpretation signer_gate: admission gate_ok ag_closed ag_pending gate_drained admitLocked
  "\<lambda>g. snd (finishLocked g)" "\<lambda>g. snd (closeLocked g)" "\<lambda>g. snd (openLocked g)"
proof
  fix g
  assume ok: "gate_ok g"
  then show "0 \<le> ag_pending g" by (simp add: gate_ok_def)
  show "ag_closed g \<Longrightarrow> gate_drained g \<longleftrightarrow> ag_pending g = 0"
    using ok by (auto simp: gate_ok_def gate_drained_def)
  show "0 < ag_pending g \<Longrightarrow> gate_ok (snd (finishLocked g)) \<and>
      ag_pending (snd (finishLocked g)) = ag_pending g - 1 \<and> ag_closed (snd (finishLocked g)) = ag_closed g"
    using ok
    by (cases "ag_current g"; cases "ag_closed g"; cases "ag_pending g = 1")
      (simp_all add: gate_ok_def finishLocked_def Let_def)
  show "gate_ok (snd (closeLocked g)) \<and> ag_pending (snd (closeLocked g)) = ag_pending g \<and>
      ag_closed (snd (closeLocked g))"
    using ok by (auto simp: gate_ok_def closeLocked_def Let_def)
  show "gate_ok (snd (openLocked g)) \<and> ag_pending (snd (openLocked g)) = ag_pending g \<and>
      \<not> ag_closed (snd (openLocked g))"
    using ok by (auto simp: gate_ok_def openLocked_def Let_def)
qed (auto simp: admitLocked_def gate_ok_def)

text \<open>A closure is numbered by the closures before it, and is announced as drained by exactly one
  operation: the closing of a gate with nothing pending, or the finish that leaves nothing.\<close>

lemma finishLocked_announces:
  assumes "gate_ok g" and "ag_closed g" and "0 < ag_pending g"
  shows "(fst (finishLocked g) \<noteq> None) \<longleftrightarrow> ag_pending g = 1"
  using assms
  by (cases "ag_current g"; cases "ag_pending g = 1") (simp_all add: finishLocked_def Let_def gate_ok_def)

end
