(* ===== verification/Built.thy ===== *)
theory Built
  imports Verify_Complete
begin

text \<open>
  What \<open>buildReceipt\<close> assembles the verifier takes: a core built from inputs of their forms can be
  stamped, and once stamped it is read back as the receipt it was built to be.
\<close>

section \<open>The inputs of a receipt\<close>

definition caller_ok :: "caller \<Rightarrow> bool" where
  "caller_ok who \<longleftrightarrow> valid_utf8 (cl_issuer who) \<and> valid_utf8 (cl_subject who) \<and> isDigest (cl_tokenDigest who)"

text \<open>An object that can be a member of a receipt: of the canonical domain, with room above it.\<close>

definition fits :: "members \<Rightarrow> bool" where
  "fits ms \<longleftrightarrow> wf (VObject ms) \<and> Suc (jdepth (VObject ms)) \<le> maxNesting"

text \<open>The detail of a receipt, of either kind, passes the verifier's structural check.\<close>

definition detail_ok :: "bytes \<Rightarrow> members \<Rightarrow> bool" where
  "detail_ok kind detail \<longleftrightarrow>
     (kind = ''acquisition'' \<and> validateAcquisition (VObject detail) = Some () \<and> obj_get detail ''reconciliation'' = None) \<or>
     (kind = ''action'' \<and> (\<forall>r. validateAction (VObject detail) r \<noteq> None))"

definition input_ok :: "receiptInput \<Rightarrow> bool" where
  "input_ok inp \<longleftrightarrow>
     (in_version inp = receiptVersion \<or> in_version inp = receiptVersion3) \<and>
     requireSession (in_sessionID inp) \<and> 0 \<le> in_callIndex inp \<and> in_callIndex inp \<le> maxSafeInteger \<and>
     valid_utf8 (in_prevSignature inp) \<and> valid_utf8 (in_source inp) \<and> isDigest (in_resultDigest inp) \<and>
     valid_utf8 (in_servedAt inp) \<and> valid_utf8 (in_authority inp) \<and>
     (in_version inp = receiptVersion3 \<longrightarrow>
        detail_ok (in_kind inp) (in_detail inp) \<and> fits (in_detail inp) \<and>
        (\<forall>who. in_who inp = Some who \<longrightarrow> caller_ok who) \<and>
        (\<forall>w. in_witness inp = Some w \<longrightarrow> fits w \<and> witnessMemberOf (VObject w) \<noteq> None) \<and>
        in_delegation inp = None \<and> in_reconciler inp = None)"

section \<open>The core as its members\<close>

definition built_common :: "receiptInput \<Rightarrow> members" where
  "built_common inp =
     [(''receiptVersion'', VString (in_version inp)), (''sessionId'', VString (in_sessionID inp)),
      (''callIndex'', VInt (in_callIndex inp)),
      (''prevSignature'', if in_prevSignature inp = [] then VNull else VString (in_prevSignature inp)),
      (''source'', VString (in_source inp)), (''resultDigest'', VString (in_resultDigest inp)),
      (''servedAt'', VString (in_servedAt inp)), (''authority'', VString (in_authority inp))]"

definition built_caller :: "receiptInput \<Rightarrow> jvalue" where
  "built_caller inp = (case in_who inp of None \<Rightarrow> VNull | Some who \<Rightarrow> VObject (identityObject who))"

definition built_own :: "crypto \<Rightarrow> receiptInput \<Rightarrow> members" where
  "built_own C inp =
     (if in_version inp = receiptVersion3 then
        [(''argumentsCommitment'', VString (commitmentOver C (in_argumentsSalt inp) ''args:'' (in_arguments inp))),
         (''kind'', VString (in_kind inp)), (''caller'', built_caller inp)]
        @ (case in_witness inp of None \<Rightarrow> [] | Some w \<Rightarrow> [(''witness'', VObject w)])
        @ [(in_kind inp, VObject (in_detail inp))]
      else
        [(''argumentsDigest'', VString (''hmac-sha256:'' @
           hex_encode (hmac_sha256 C (argumentsKey C (in_argumentsSeed inp)) (''args:'' @ in_arguments inp))))])"

lemma identityObject_members:
  "identityObject who =
     [(''issuer'', VString (cl_issuer who)), (''subject'', VString (cl_subject who)),
      (''tokenDigest'', VString (cl_tokenDigest who))]"
  by (simp add: identityObject_def)

lemma buildReceipt_members:
  assumes "input_ok inp"
  shows "buildReceipt C inp = built_common inp @ built_own C inp"
proof (cases "in_version inp = receiptVersion3")
  case True
  with assms have "in_kind inp = ''acquisition'' \<or> in_kind inp = ''action''" "in_delegation inp = None" "in_reconciler inp = None"
    by (auto simp: input_ok_def detail_ok_def)
  with True show ?thesis
    by (cases "in_witness inp")
      (auto simp: buildReceipt_def Let_def set_some_def built_common_def built_own_def built_caller_def)
next
  case False
  then show ?thesis
    by (simp add: buildReceipt_def Let_def built_common_def built_own_def)
qed


section \<open>It can be stamped\<close>

lemma isDigest_utf8: "isDigest d \<Longrightarrow> valid_utf8 d"
proof -
  assume "isDigest d"
  then obtain h where h: "d = ''sha256:'' @ h" "list_all is_lower_hex h"
    by (auto simp: isDigest_def cut_prefix_eq_Some isLowerHexOfLen_def split: option.splits)
  then show ?thesis
    by (intro valid_utf8_ascii) (auto simp: list_all_iff is_lower_hex_def is_digit_def)
qed

lemma isDigest_commitment [simp]: "isDigest (commitmentOver C salt label canonical)"
  by (simp add: commitmentOver_def)

lemma hmac_member_utf8: "valid_utf8 (''hmac-sha256:'' @ hex_encode b)"
proof -
  have "list_all is_lower_hex (hex_encode b)" by simp
  then show ?thesis
    by (intro valid_utf8_ascii) (auto simp: list_all_iff is_lower_hex_def is_digit_def)
qed

lemma built_names:
  assumes "input_ok inp"
  shows "distinct (map fst (built_common inp @ built_own C inp))"
    and "\<forall>n \<in> fst ` set (built_common inp @ built_own C inp). list_all (\<lambda>c. byte c < 0x80) n"
    and "''keyId'' \<notin> fst ` set (built_common inp @ built_own C inp)"
    and "''signature'' \<notin> fst ` set (built_common inp @ built_own C inp)"
  using assms by (cases "in_witness inp"; auto simp: input_ok_def detail_ok_def built_common_def built_own_def; fail)+

text \<open>Each member is of the canonical domain, with room for it.\<close>

definition member_fits :: "jvalue \<Rightarrow> bool" where
  "member_fits v \<longleftrightarrow> wf v \<and> Suc (jdepth v) \<le> maxNesting"

lemma member_fits_scalar:
  "member_fits VNull" "valid_utf8 s \<Longrightarrow> member_fits (VString s)" "in_safe_range i \<Longrightarrow> member_fits (VInt i)"
  by (simp_all add: member_fits_def maxNesting_def in_safe_range_def)

lemma built_caller_fits:
  assumes "\<forall>who. in_who inp = Some who \<longrightarrow> caller_ok who"
  shows "member_fits (built_caller inp)"
proof (cases "in_who inp")
  case None
  then show ?thesis by (simp add: built_caller_def member_fits_scalar)
next
  case (Some who)
  with assms have "caller_ok who" by simp
  moreover have "valid_utf8 ''issuer''" "valid_utf8 ''subject''" "valid_utf8 ''tokenDigest''"
    by (simp_all add: valid_utf8_ascii)
  ultimately have "wf (VObject (identityObject who))"
    unfolding wf_VObject_iff identityObject_members by (simp add: caller_ok_def isDigest_utf8)
  with Some show ?thesis
    by (simp add: built_caller_def member_fits_def identityObject_members maxNesting_def)
qed

lemma built_members_fit:
  assumes "input_ok inp" and "(n, v) \<in> set (built_common inp @ built_own C inp)"
  shows "member_fits v"
proof -
  have fit: "member_fits (VObject ms)" if "fits ms" for ms
    using that by (simp add: fits_def member_fits_def)
  have common: "valid_utf8 (in_version inp)" "in_safe_range (in_callIndex inp)" "valid_utf8 (in_sessionID inp)"
    using assms(1) requireSession_utf8
    by (auto simp: input_ok_def receiptVersion_def receiptVersion3_def valid_utf8_ascii in_safe_range_def minSafeInteger_def)
  show ?thesis
  proof (cases "(n, v) \<in> set (built_common inp)")
    case True
    with assms(1) common show ?thesis
      by (auto simp: built_common_def input_ok_def member_fits_scalar isDigest_utf8)
  next
    case False
    with assms(2) have own: "(n, v) \<in> set (built_own C inp)" by simp
    show ?thesis
    proof (cases "in_version inp = receiptVersion3")
      case True
      then have "fits (in_detail inp)" "\<forall>w. in_witness inp = Some w \<longrightarrow> fits w" "member_fits (built_caller inp)"
        using assms(1) built_caller_fits by (auto simp: input_ok_def)
      with own True show ?thesis
        using assms(1) by (cases "in_witness inp")
          (auto simp: built_own_def fit member_fits_scalar isDigest_utf8 valid_utf8_ascii input_ok_def detail_ok_def)
    next
      case False
      with own show ?thesis
        by (simp add: built_own_def member_fits_scalar hmac_member_utf8 del: append.simps)
    qed
  qed
qed

lemma built_stampable:
  assumes "input_ok inp"
  shows "stampable (buildReceipt C inp)"
proof -
  let ?ms = "built_common inp @ built_own C inp"
  have each: "valid_utf8 n \<and> wf v \<and> jdepth v \<le> maxNesting - 1" if "(n, v) \<in> set ?ms" for n v
  proof -
    have "n \<in> fst ` set ?ms" using that by force
    then have "valid_utf8 n" using built_names(2) [OF assms] valid_utf8_ascii by blast
    with built_members_fit [OF assms that] show ?thesis by (auto simp: member_fits_def)
  qed
  then have "wf (VObject ?ms)"
    unfolding wf_VObject_iff using built_names(1) [OF assms] by blast
  moreover have "jdepth (VObject ?ms) \<le> maxNesting"
    unfolding jdepth_VObject_le using each by (auto simp: maxNesting_def)
  ultimately show ?thesis
    using built_names(3,4) [OF assms, of C]
    by (simp add: stampable_def buildReceipt_members [OF assms] obj_get_def map_of_eq_None_iff image_Un del: jdepth.simps)
qed


section \<open>It is read back\<close>

lemma built_get:
  assumes "input_ok inp"
  shows "obj_get (stamped C st (buildReceipt C inp)) n =
    (if n = ''signature'' then Some (VString (stamp_signature C st (stamp_core st (buildReceipt C inp))))
     else if n = ''keyId'' then Some (VString (st_keyID st))
     else map_of (built_common inp @ built_own C inp) n)"
  unfolding stamped_def stamp_core_def obj_get_set buildReceipt_members [OF assms]
  by (simp add: obj_get_def)

lemma validateAction_reconciliation: "validateAction v r = Some r' \<Longrightarrow> r_reconciliation r' = r_reconciliation r"
  unfolding validateAction_def by (auto simp: Option.bind_eq_Some_conv split: option.splits)

text \<open>The members of a stamped core of version 3.\<close>

lemma built_get3:
  fixes C :: crypto and st :: store and inp :: receiptInput
  assumes ok: "input_ok inp" and v3: "in_version inp = receiptVersion3"
  defines "obj \<equiv> stamped C st (buildReceipt C inp)"
  shows "obj_get obj ''argumentsDigest'' = None"
    and "obj_get obj ''argumentsCommitment'' =
       Some (VString (commitmentOver C (in_argumentsSalt inp) ''args:'' (in_arguments inp)))"
    and "obj_get obj ''caller'' = Some (built_caller inp)" and "obj_get obj ''kind'' = Some (VString (in_kind inp))"
    and "obj_get obj (in_kind inp) = Some (VObject (in_detail inp))"
    and "in_kind inp = ''acquisition'' \<Longrightarrow> obj_get obj ''action'' = None"
    and "in_kind inp = ''action'' \<Longrightarrow> obj_get obj ''acquisition'' = None"
    and "obj_get obj ''delegation'' = None" and "obj_get obj ''reconciler'' = None"
    and "obj_get obj ''witness'' = map_option VObject (in_witness inp)"
proof -
  have kind: "in_kind inp = ''acquisition'' \<or> in_kind inp = ''action''" using ok v3 by (auto simp: input_ok_def detail_ok_def)
  note get = built_get [OF ok, of C st] v3 built_common_def built_own_def
  show "obj_get obj ''argumentsDigest'' = None"
    "obj_get obj ''argumentsCommitment'' = Some (VString (commitmentOver C (in_argumentsSalt inp) ''args:'' (in_arguments inp)))"
    "obj_get obj ''caller'' = Some (built_caller inp)" "obj_get obj ''kind'' = Some (VString (in_kind inp))"
    "obj_get obj (in_kind inp) = Some (VObject (in_detail inp))"
    "in_kind inp = ''acquisition'' \<Longrightarrow> obj_get obj ''action'' = None"
    "in_kind inp = ''action'' \<Longrightarrow> obj_get obj ''acquisition'' = None"
    "obj_get obj ''delegation'' = None" "obj_get obj ''reconciler'' = None"
    "obj_get obj ''witness'' = map_option VObject (in_witness inp)"
    unfolding obj_def by (insert kind) (cases "in_witness inp"; elim disjE; simp add: get; fail)+
qed

lemma built_version3:
  assumes ok: "input_ok inp" and v3: "in_version inp = receiptVersion3" and own: "own_store C st"
    and r: "r_signature r = stamp_signature C st (stamp_core st (buildReceipt C inp))"
      "r_sessionID r = in_sessionID inp" "r_keyID r = st_keyID st"
  shows "\<exists>r'. validateVersion3 (stamped C st (buildReceipt C inp)) r = Some r' \<and> r_kind r' = in_kind inp \<and>
    r_reconciliation r' = r_reconciliation r"
proof -
  let ?obj = "stamped C st (buildReceipt C inp)"
  note members = built_get3 [OF ok v3, of C st]
  have i: "detail_ok (in_kind inp) (in_detail inp)" "\<forall>who. in_who inp = Some who \<longrightarrow> caller_ok who"
    "\<forall>w. in_witness inp = Some w \<longrightarrow> witnessMemberOf (VObject w) \<noteq> None" "requireSession (in_sessionID inp)"
    using ok v3 by (simp_all add: input_ok_def)
  have caller: "(if built_caller inp = VNull then Some () else validateIdentity (built_caller inp)) = Some ()"
    using i(2) by (cases "in_who inp")
      (simp_all add: built_caller_def validateIdentity_def requireObject_def requireString_def requireDigest_def
        memberString_def identityObject_members obj_get_def caller_ok_def)
  obtain r1 where kind: "validate_kind ?obj (in_kind inp) r = Some r1" "r_reconciliation r1 = r_reconciliation r"
    using i(1) members(5-7) validateAction_reconciliation
    by (fastforce simp: detail_ok_def validate_kind_def requireObject_def)
  have head: "isSignature3 (r_signature r)" "isLowerHexOfLen (r_keyID r) 32"
    using own r by (simp_all add: isSignature3_def stamp_signature_def own_store_def signs_ok_def)
  have "validateVersion3 ?obj r = do {
       r \<leftarrow> (case map_option VObject (in_witness inp) of
             None \<Rightarrow> Some r1
           | Some w \<Rightarrow> do { naming \<leftarrow> witnessMemberOf w; Some (r1\<lparr> r_witness := Some naming \<rparr>) });
       Some (r\<lparr> r_kind := in_kind inp \<rparr>) }"
    unfolding validateVersion3_def members(1-4,8-10) present_def requireDigest_def requireString_def memberString_def
    using i(4) r(2) head caller by (simp add: kind)
  then show ?thesis using i(3) kind(2) by (cases "in_witness inp") auto
qed

text \<open>A core built and stamped is read as the receipt it was built to be.\<close>

lemma built_receipt:
  assumes ok: "input_ok inp" and own: "own_store C st"
  obtains r where "receiptFrom (stamped C st (buildReceipt C inp)) = Some r"
    "r_version r = in_version inp" "r_sessionID r = in_sessionID inp" "r_callIndex r = in_callIndex inp"
    "r_authority r = in_authority inp" "r_resultDigest r = in_resultDigest inp"
    "r_prevSignature r = (if in_prevSignature inp = [] then None else Some (in_prevSignature inp))"
    "r_signature r = stamp_signature C st (stamp_core st (buildReceipt C inp))"
    "r_kind r = (if in_version inp = receiptVersion3 then in_kind inp else [])" "r_reconciliation r = None"
proof -
  let ?obj = "stamped C st (buildReceipt C inp)"
  let ?sig = "stamp_signature C st (stamp_core st (buildReceipt C inp))"
  note get = built_get [OF ok, of C st]
  define r0 where "r0 = \<lparr> r_delivery = None, r_reconciliation = None, r_obj = ?obj, r_version = in_version inp,
            r_sessionID = in_sessionID inp, r_callIndex = 0, r_keyID = st_keyID st, r_authority = in_authority inp,
            r_resultDigest = in_resultDigest inp, r_signature = ?sig, r_prevSignature = None,
            r_kind = [], r_cites = [], r_recordDigest = [], r_packDigest = [], r_exactRecord = False,
            r_witness = None, r_servedAt = in_servedAt inp, r_keyPos = 0 \<rparr>"
  have common: "common_members ?obj = Some r0"
    by (simp add: common_members_def memberString_def get built_common_def r0_def)
  have rest: "member_int ?obj ''callIndex'' = Some (in_callIndex inp)" "0 \<le> in_callIndex inp"
    "obj_get ?obj ''prevSignature'' =
       Some (if in_prevSignature inp = [] then VNull else VString (in_prevSignature inp))"
    using ok by (simp_all add: member_int_def get built_common_def input_ok_def)
  obtain r1 where r1: "version_checked ?obj r0 = Some r1"
    "r_kind r1 = (if in_version inp = receiptVersion3 then in_kind inp else [])" "r_reconciliation r1 = None"
  proof (cases "in_version inp = receiptVersion3")
    case True
    moreover have "r_version r0 = in_version inp" "receiptVersion3 \<noteq> receiptVersion"
      by (simp_all add: r0_def receiptVersion_def receiptVersion3_def)
    ultimately show ?thesis
      using that built_version3 [OF ok True own, of r0] by (auto simp: version_checked_def r0_def)
  next
    case False
    then have "r_version r0 = receiptVersion" using ok by (simp add: input_ok_def r0_def)
    moreover have "memberString ?obj ''argumentsDigest'' \<noteq> None"
      using False by (simp add: memberString_def get built_common_def built_own_def)
    ultimately show ?thesis using that [of r0] False by (auto simp: version_checked_def r0_def)
  qed
  have same: "same_common r0 r1" by (rule version_checked_common [OF r1(1)])
  then have read: "receiptFrom ?obj = Some (r1\<lparr> r_callIndex := in_callIndex inp,
      r_prevSignature := (if in_prevSignature inp = [] then None else Some (in_prevSignature inp)) \<rparr>)"
    using common rest r1(1) by (simp add: receiptFrom_def version_checked_def [symmetric] Let_def same_common_def r0_def)
  show thesis by (rule that [OF read]) (use same r1 in \<open>simp_all add: same_common_def r0_def\<close>)
qed

end
