(* ===== verification/Service.thy ===== *)
theory Service
  imports Gate Built Scanner
begin

text \<open>
  The signer's sessions (\<^verbatim>\<open>serve.go\<close>, \<^verbatim>\<open>act.go\<close>): admitting an acquisition or an action, minting its
  receipt, releasing its reservation, and sealing a session.

  Each definition is what one handler does while it holds the service's lock, as one step on the
  record \<open>service\<close>: the sessions in memory, the gate, and beside them what the service has made
  durable, the receipts, the artifacts and the registry.  What the operating system answers is an
  argument.  The program of a source runs between two of these steps and is not modelled: what it
  wrote is an argument of the step after it.
\<close>

section \<open>State\<close>

record sessionState =
  ss_index :: int
  ss_prev :: bytes
  ss_sealed :: bool
  ss_inFlight :: int
  ss_created :: bool

definition new_session :: sessionState where
  "new_session = \<lparr> ss_index = 0, ss_prev = [], ss_sealed = False, ss_inFlight = 0, ss_created = False \<rparr>"

record gatewayService =
  gw_store :: store
  gw_registry :: registryWriter
  gw_receiptVersion :: bytes
  gw_witnessedBy :: "bytes \<rightharpoonup> bytes \<times> bytes"
  gw_gate :: admissionGate
  gw_sessions :: "bytes \<rightharpoonup> sessionState"
  gw_receipts :: series_dirs
  gw_artifacts :: "Store_FS.files option"
  gw_log :: log_file

datatype refusal =
    AdmissionClosed
  | SessionIsSealed
  | SessionElsewhere
  | SessionNotMade
  | BadSession
  | SealedInRegistry
  | RegistryUnreadable
  | NoSuchSession
  | InFlight
  | SealFailed seal_error

section \<open>Admission\<close>

text \<open>The session's state, a new one when the session is not known.\<close>

definition session_of :: "gatewayService \<Rightarrow> bytes \<Rightarrow> sessionState" where
  "session_of g sid = (case gw_sessions g sid of Some st \<Rightarrow> st | None \<Rightarrow> new_session)"

definition put_session :: "bytes \<Rightarrow> sessionState \<Rightarrow> gatewayService \<Rightarrow> gatewayService" where
  "put_session sid st g = g\<lparr> gw_sessions := (gw_sessions g)(sid \<mapsto> st) \<rparr>"

definition drop_session :: "bytes \<Rightarrow> gatewayService \<Rightarrow> gatewayService" where
  "drop_session sid g = g\<lparr> gw_sessions := (gw_sessions g)(sid := None) \<rparr>"

definition reserve :: "bytes \<Rightarrow> sessionState \<Rightarrow> gatewayService \<Rightarrow> gatewayService" where
  "reserve sid st g =
     (put_session sid (st\<lparr> ss_inFlight := ss_inFlight st + 1 \<rparr>) g)\<lparr> gw_gate := snd (admitLocked (gw_gate g)) \<rparr>"

definition admit :: "bytes \<Rightarrow> gatewayService \<Rightarrow> (refusal + unit) \<times> gatewayService" where
  "admit sid g =
     (if ag_closed (gw_gate g) then (Inl AdmissionClosed, g)
      else let st = session_of g sid; g = put_session sid st g in
        if ss_sealed st then (Inl SessionIsSealed, g)
        else (Inr (), reserve sid st g))"

definition release :: "bytes \<Rightarrow> gatewayService \<Rightarrow> gatewayService" where
  "release sid g =
     (case gw_sessions g sid of
        None \<Rightarrow> g
      | Some st \<Rightarrow>
          let st = st\<lparr> ss_inFlight := ss_inFlight st - 1 \<rparr>;
              g = (put_session sid st g)\<lparr> gw_gate := snd (finishLocked (gw_gate g)) \<rparr>
          in if ss_inFlight st \<le> 0 \<and> ss_index st = 0 \<and> \<not> ss_sealed st \<and> \<not> ss_created st
             then drop_session sid g else g)"

text \<open>The registry as the engine reads it, by the file of the log.\<close>

definition loadEngineSeals :: "crypto \<Rightarrow> gatewayService \<Rightarrow> (bytes \<rightharpoonup> seal) option" where
  "loadEngineSeals C g =
     (case gw_log g of
        LogAt data \<Rightarrow>
          (case engineWalk C data (st_publicKey (gw_store g)) of Inl _ \<Rightarrow> None | Inr w \<Rightarrow> Some (rw_seals w))
      | _ \<Rightarrow> None)"

definition sealedElsewhere :: "crypto \<Rightarrow> gatewayService \<Rightarrow> bytes \<Rightarrow> refusal option" where
  "sealedElsewhere C g sid =
     (if gw_sessions g sid \<noteq> None then None
      else case loadEngineSeals C g of
        None \<Rightarrow> Some RegistryUnreadable
      | Some seals \<Rightarrow> if seals sid \<noteq> None then Some SealedInRegistry else None)"

text \<open>What a look at the session's place in the receipts directory finds: an entry, nothing, or an
  error.\<close>

definition sessionMintedHere :: "bool \<Rightarrow> gatewayService \<Rightarrow> bytes \<Rightarrow> refusal option" where
  "sessionMintedHere looks g sid =
     (case gw_sessions g sid of
        Some st \<Rightarrow>
          if ss_created st then None
          else if \<not> looks then Some SessionNotMade
          else if map_of (gw_receipts g) sid \<noteq> None then Some SessionElsewhere else None
      | None \<Rightarrow>
          if \<not> looks then Some SessionNotMade
          else if map_of (gw_receipts g) sid \<noteq> None then Some SessionElsewhere else None)"

definition sessionOpen :: "crypto \<Rightarrow> bool \<Rightarrow> gatewayService \<Rightarrow> bytes \<Rightarrow> refusal option" where
  "sessionOpen C looks g sid =
     (case loadEngineSeals C g of
        None \<Rightarrow> Some RegistryUnreadable
      | Some seals \<Rightarrow> if seals sid \<noteq> None then Some SealedInRegistry else sessionMintedHere looks g sid)"

definition admitAction :: "bool \<Rightarrow> bytes \<Rightarrow> gatewayService \<Rightarrow> (refusal + unit) \<times> gatewayService" where
  "admitAction mkdir sid g =
     (if ag_closed (gw_gate g) then (Inl AdmissionClosed, g)
      else let st = session_of g sid; g = put_session sid st g;
               forget = (if ss_index st = 0 \<and> ss_inFlight st = 0 then drop_session sid g else g) in
        if ss_sealed st then (Inl SessionIsSealed, g)
        else if ss_created st then (Inr (), reserve sid st g)
        else if map_of (gw_receipts g) sid \<noteq> None then (Inl SessionElsewhere, forget)
        else if \<not> mkdir then (Inl SessionNotMade, forget)
        else (Inr (), reserve sid (st\<lparr> ss_created := True \<rparr>)
                (g\<lparr> gw_receipts := AList.update sid [] (gw_receipts g) \<rparr>)))"

definition abandonUnminted :: "bool \<Rightarrow> bytes \<Rightarrow> gatewayService \<Rightarrow> gatewayService" where
  "abandonUnminted removes sid g =
     (case gw_sessions g sid of
        None \<Rightarrow> g
      | Some st \<Rightarrow>
          if \<not> ss_created st \<or> ss_sealed st \<or> ss_index st \<noteq> 0 \<or> ss_inFlight st \<noteq> 1 then g
          else if removes \<and> map_of (gw_receipts g) sid = Some [] then
            put_session sid (st\<lparr> ss_created := False \<rparr>) (g\<lparr> gw_receipts := AList.delete sid (gw_receipts g) \<rparr>)
          else g)"

definition closeAdmission :: "gatewayService \<Rightarrow> gatewayService" where
  "closeAdmission g = g\<lparr> gw_gate := snd (closeLocked (gw_gate g)) \<rparr>"

definition openAdmission :: "gatewayService \<Rightarrow> gatewayService" where
  "openAdmission g = g\<lparr> gw_gate := snd (openLocked (gw_gate g)) \<rparr>"

section \<open>Sealing\<close>

definition sealSession ::
  "crypto \<Rightarrow> fsLog \<Rightarrow> bytes \<Rightarrow> bytes \<Rightarrow> gatewayService \<Rightarrow> (refusal + members) \<times> gatewayService" where
  "sealSession C l now sid g =
     (if \<not> requireSession sid then (Inl BadSession, g)
      else case gw_sessions g sid of
        None \<Rightarrow> (Inl NoSuchSession, g)
      | Some st \<Rightarrow>
          if ss_inFlight st > 0 then (Inl InFlight, g)
          else (case seal C (fsLog_ops l) (gw_registry g) sid (ss_index st) now (gw_log g) of
             (answer, log) \<Rightarrow>
               let g = g\<lparr> gw_log := log \<rparr>; shut = put_session sid (st\<lparr> ss_sealed := True \<rparr>) g in
               (case answer of
                  Inr record \<Rightarrow> (Inr record, shut)
                | Inl (SealMayBeWritten e) \<Rightarrow> (Inl (SealFailed (SealMayBeWritten e)), shut)
                | Inl e \<Rightarrow> (Inl (SealFailed e), g))))"

section \<open>Minting\<close>

text \<open>What goes into a receipt beside its session's state: what its request has prepared, and what is
  drawn for it under the lock, the time and the salts.  \<open>mt_drawn\<close> is whether the salts could be drawn.\<close>

record minting =
  mt_version :: bytes
  mt_session :: bytes
  mt_source :: bytes
  mt_arguments :: bytes
  mt_result :: jvalue
  mt_who :: "caller option"
  mt_witness :: "members option"
  mt_kind :: bytes
  mt_detail :: members
  mt_delegation :: "members option"
  mt_reconciler :: "members option"
  mt_now :: bytes
  mt_seed :: bytes
  mt_drawn :: bool
  mt_salt :: bytes

text \<open>A result the response cannot carry is one \<^verbatim>\<open>encoding/json\<close> cannot decode.\<close>

definition returnableResult :: "jvalue \<Rightarrow> bool" where
  "returnableResult result \<longleftrightarrow> json_value (canon result) = Some []"

datatype mint_error = NotReturnable | NotRetained storeError | NoSalt | NotStamped stamp_error

definition receipt_input :: "gatewayService \<Rightarrow> minting \<Rightarrow> bytes \<Rightarrow> receiptInput" where
  "receipt_input g m resultDigest =
     \<lparr> in_version = mt_version m, in_sessionID = mt_session m,
       in_prevSignature = ss_prev (session_of g (mt_session m)),
       in_callIndex = ss_index (session_of g (mt_session m)), in_source = mt_source m,
       in_resultDigest = resultDigest, in_servedAt = mt_now m, in_authority = st_authority (gw_store g),
       in_arguments = mt_arguments m, in_argumentsSalt = mt_salt m, in_argumentsSeed = mt_seed m,
       in_who = mt_who m, in_witness = mt_witness m, in_kind = mt_kind m, in_detail = mt_detail m,
       in_delegation = mt_delegation m, in_reconciler = mt_reconciler m \<rparr>"

definition mint ::
  "crypto \<Rightarrow> fsIndexed \<Rightarrow> write_env \<Rightarrow> minting \<Rightarrow> gatewayService \<Rightarrow> (mint_error + members) \<times> gatewayService" where
  "mint C x env m g =
     (if \<not> returnableResult (mt_result m) then (Inl NotReturnable, g)
      else case retain (fsBlobs C env) (canon (mt_result m)) (gw_artifacts g) of
        (Inl e, artifacts) \<Rightarrow> (Inl (NotRetained e), g\<lparr> gw_artifacts := artifacts \<rparr>)
      | (Inr resultDigest, artifacts) \<Rightarrow>
          let g = g\<lparr> gw_artifacts := artifacts \<rparr>; st = session_of g (mt_session m) in
          if \<not> mt_drawn m then (Inl NoSalt, g)
          else (case stampInto C (fsIndexed_ops x) (gw_store g) (buildReceipt C (receipt_input g m resultDigest)) (gw_receipts g) of
             (Inl e, receipts) \<Rightarrow> (Inl (NotStamped e), g\<lparr> gw_receipts := receipts \<rparr>)
           | (Inr (stored, signature, made), receipts) \<Rightarrow>
               (Inr stored,
                put_session (mt_session m)
                  (st\<lparr> ss_index := ss_index st + 1, ss_prev := signature, ss_created := ss_created st \<or> made \<and> mt_kind m = ''acquisition'' \<rparr>)
                  (g\<lparr> gw_receipts := receipts \<rparr>))))"

section \<open>Reads\<close>

definition witnessMember :: "gatewayService \<Rightarrow> bytes \<Rightarrow> members option" where
  "witnessMember g trail =
     (if trail = [] then None
      else map_option (\<lambda>(origin, keyID).
        obj_set (obj_set (obj_set [] ''origin'' (VString origin)) ''keyId'' (VString keyID)) ''trail'' (VString trail))
        (gw_witnessedBy g trail))"

text \<open>The store as a verifier finds it.\<close>

definition session_files :: "Store_FS.files \<Rightarrow> (bytes \<times> file_entry) list" where
  "session_files fs = map (\<lambda>(name, data). (name, RegularFile (Some data))) fs"

definition evidence_of :: "gatewayService \<Rightarrow> evidence" where
  "evidence_of g =
     \<lparr> ev_root = There (),
       ev_receipts = There (map (\<lambda>(sid, fs). (sid, SessionFiles (session_files fs))) (gw_receipts g)),
       ev_artifacts = (case gw_artifacts g of None \<Rightarrow> Map.empty | Some fs \<Rightarrow> map_of fs),
       ev_regular = (\<lambda>_. True) \<rparr>"

text \<open>Of what the operator declares for a source, what its receipt depends on: the command, the
  shape of its output, empty for a bare command, and the descriptors pinned for it.\<close>

record sourceSpec =
  sp_command :: bytes
  sp_shape :: bytes
  sp_provenance :: "descriptorProvenance option"

record readRequest =
  rq_session :: bytes
  rq_source :: bytes
  rq_trail :: bytes
  rq_arguments :: jvalue
  rq_who :: "caller option"

text \<open>What a source yielded: what it wrote, parsed, the digest of its program and when its output was
  read.\<close>

record sourceOutput =
  so_value :: jvalue
  so_digest :: bytes
  so_observedAt :: bytes

text \<open>The end of a read before the lock is taken again: the output held to its envelope, and the
  descriptors pinned for the source checked against the endpoint the envelope reports.\<close>

definition read_output ::
  "crypto \<Rightarrow> gatewayService \<Rightarrow> reachedKey list \<Rightarrow> sourceSpec \<Rightarrow> bytes \<Rightarrow> sourceOutput \<Rightarrow> (jvalue \<times> envelope option) option" where
  "read_output C g keys spec source out =
     (if sp_shape spec = [] then Some (so_value out, None)
      else do {
        e \<leftarrow> readEnvelope (so_value out) (sp_shape spec);
        _ \<leftarrow> (case sp_provenance spec of
                Some p \<Rightarrow>
                  if gw_receiptVersion g = receiptVersion3
                  then require (checkDescriptorProvenance C (evidence_of g) p (st_authority (gw_store g)) source
                         (string_of (env_acquisition e) ''endpoint'')
                         (string_of (env_acquisition e) ''transport'' = ''http'') keys = Ok)
                  else Some ()
              | None \<Rightarrow> Some ());
        Some (env_result e, Some e) })"

definition read_detail ::
  "crypto \<Rightarrow> gatewayService \<Rightarrow> sourceSpec \<Rightarrow> sourceOutput \<Rightarrow> envelope option \<Rightarrow> bytes \<Rightarrow> members" where
  "read_detail C g spec out e statementSalt =
     (if gw_receiptVersion g \<noteq> receiptVersion3 then []
      else
        (let a = (case e of
                    None \<Rightarrow> commandAcquisition (sp_command spec) (so_digest out) (so_observedAt out)
                  | Some e \<Rightarrow> adapterAcquisition C (sp_shape spec) e statementSalt)
         in (case sp_provenance spec of
               None \<Rightarrow> a
             | Some p \<Rightarrow> obj_set a ''descriptorProvenance'' (provenance_value p))))"

text \<open>The receipt of a read that is no read-back and is made under no delegation.\<close>

definition read_minting ::
  "crypto \<Rightarrow> gatewayService \<Rightarrow> reachedKey list \<Rightarrow> sourceSpec \<Rightarrow> readRequest \<Rightarrow> sourceOutput \<Rightarrow>
     bytes \<Rightarrow> bool \<Rightarrow> bytes \<Rightarrow> bytes \<Rightarrow> minting option" where
  "read_minting C g keys spec rq out now drawn salt statementSalt = do {
     (result, e) \<leftarrow> read_output C g keys spec (rq_source rq) out;
     Some \<lparr> mt_version = gw_receiptVersion g, mt_session = rq_session rq, mt_source = rq_source rq, mt_arguments = canon (rq_arguments rq),
            mt_result = result, mt_who = rq_who rq,
            mt_witness = (if gw_receiptVersion g = receiptVersion3 then witnessMember g (rq_trail rq) else None),
            mt_kind = ''acquisition'', mt_detail = read_detail C g spec out e statementSalt,
            mt_delegation = None, mt_reconciler = None, mt_now = now, mt_seed = st_seed (gw_store g),
            mt_drawn = (gw_receiptVersion g \<noteq> receiptVersion3 \<or> drawn), mt_salt = salt \<rparr> }"

end
