(* ===== verification/Service_Reads.thy ===== *)
theory Service_Reads
  imports Service
begin

text \<open>
  The receipt of a read is built from inputs of their form: what the operator declared and what the
  canonical parser answers give an acquisition that fits a receipt and that the verifier takes.
\<close>

section \<open>Objects that fit\<close>

lemma wf_obj_set:
  assumes "wf (VObject ms)" and "valid_utf8 n" and "wf v"
  shows "wf (VObject (obj_set ms n v))"
proof -
  have "set (obj_set ms n v) \<subseteq> insert (n, v) (set ms)"
    by (induction ms n v rule: obj_set.induct) auto
  with assms show ?thesis
    unfolding wf_VObject_iff by (auto intro: distinct_obj_set)
qed

lemma jdepth_obj_set:
  assumes "jdepth (VObject ms) \<le> d" and "Suc (jdepth v) \<le> d"
  shows "jdepth (VObject (obj_set ms n v)) \<le> d"
proof -
  have "set (obj_set ms n v) \<subseteq> insert (n, v) (set ms)"
    by (induction ms n v rule: obj_set.induct) auto
  with assms show ?thesis unfolding jdepth_VObject_le by fastforce
qed

text \<open>An object with room for itself and a member, in a receipt.\<close>

lemma fits_obj_set:
  assumes "fits ms" and "valid_utf8 n" and "wf v" and "Suc (Suc (jdepth v)) \<le> maxNesting"
  shows "fits (obj_set ms n v)"
proof -
  have "jdepth (VObject ms) \<le> maxNesting - 1" using assms(1) by (auto simp: fits_def simp del: jdepth.simps)
  then have "jdepth (VObject (obj_set ms n v)) \<le> maxNesting - 1"
    using assms(4) by (intro jdepth_obj_set) simp_all
  with assms show ?thesis
    by (auto simp: fits_def maxNesting_def wf_obj_set simp del: jdepth.simps)
qed

lemma fits_Nil: "fits []"
  unfolding fits_def wf_VObject_iff by (simp add: maxNesting_def)

lemma fits_string: "fits ms \<Longrightarrow> valid_utf8 n \<Longrightarrow> valid_utf8 s \<Longrightarrow> fits (obj_set ms n (VString s))"
  by (rule fits_obj_set) (simp_all add: maxNesting_def)

lemma fits_null: "fits ms \<Longrightarrow> valid_utf8 n \<Longrightarrow> fits (obj_set ms n VNull)"
  by (rule fits_obj_set) (simp_all add: maxNesting_def)

lemma fits_copy:
  assumes "fits a" and "wf (VObject src)" and "jdepth (VObject src) < maxNesting" and "valid_utf8 n"
  shows "fits (copy_member src n a)"
proof (cases "obj_get src n")
  case None
  with assms show ?thesis by (simp add: copy_member_def)
next
  case (Some v)
  then have "(n, v) \<in> set src" by (simp add: obj_get_def map_of_SomeD)
  moreover from this have "jdepth v < jdepth (VObject src)" by (rule jdepth_member)
  ultimately show ?thesis
    using assms Some unfolding wf_VObject_iff copy_member_def
    by (auto intro!: fits_obj_set simp del: jdepth.simps)
qed

lemma fits_fold_copy:
  assumes "wf (VObject src)" and "jdepth (VObject src) < maxNesting"
  shows "fits a \<Longrightarrow> list_all valid_utf8 names \<Longrightarrow> fits (fold (copy_member src) names a)"
  by (induction names arbitrary: a) (auto intro: fits_copy [OF _ assms])

lemma wf_digests: "wf (VArray (map (\<lambda>i. VString (digest_of C (f i))) items))"
  by (auto simp: wf_VArray_iff isDigest_utf8)

lemma jdepth_strings: "jdepth (VArray (map (\<lambda>i. VString (f i)) items)) = 1"
  by (induction items) auto

section \<open>Acquisitions\<close>

lemma commandAcquisition_fits:
  assumes "valid_utf8 command" and "isDigest digest" and "valid_utf8 observedAt"
  shows "fits (commandAcquisition command digest observedAt)"
proof -
  let ?adapter = "[(''name'', VString command), (''version'', VString []), (''digest'', VString digest)]"
  have "wf (VObject ?adapter)"
    unfolding wf_VObject_iff using assms by (simp add: valid_utf8_ascii isDigest_utf8)
  then have "fits (obj_set [] ''adapter'' (VObject ?adapter))"
    by (intro fits_obj_set) (simp_all add: fits_Nil valid_utf8_ascii maxNesting_def)
  then show ?thesis
    unfolding commandAcquisition_def Let_def
    using assms(3) by (intro fits_string fits_null) (simp_all add: valid_utf8_ascii)
qed

lemma adapterAcquisition_fits:
  assumes "wf (VObject (env_acquisition e))" and "jdepth (VObject (env_acquisition e)) < maxNesting"
    and "valid_utf8 shape"
  shows "fits (adapterAcquisition C shape e salt)"
proof -
  let ?a = "fold (copy_member (env_acquisition e)) copiedMembers []"
  have "list_all valid_utf8 copiedMembers" by (simp add: copiedMembers_def valid_utf8_ascii)
  then have "fits ?a" by (intro fits_fold_copy [OF assms(1,2)] fits_Nil)
  moreover have "valid_utf8 ''shape''" "valid_utf8 ''statement''" "valid_utf8 ''pageItems''" "2 < maxNesting"
    by (simp_all add: valid_utf8_ascii maxNesting_def)
  ultimately show ?thesis
    unfolding adapterAcquisition_def Let_def
    using assms(3) wf_digests [of C canon] jdepth_strings [of "\<lambda>i. digest_of C (canon i)"]
    by (cases "env_statement e"; cases "env_page e"; cases "env_result e")
      (auto intro!: fits_obj_set fits_string fits_null simp: isDigest_utf8 simp del: jdepth.simps wf_json.simps)
qed


section \<open>A read\<close>

text \<open>The witnesses an operator names are of the form a receipt names them in.\<close>

definition witnesses_ok :: "gatewayService \<Rightarrow> bool" where
  "witnesses_ok g \<longleftrightarrow>
     (\<forall>trail origin keyID. gw_witnessedBy g trail = Some (origin, keyID) \<longrightarrow>
        isWitnessOrigin origin \<and> valid_utf8 origin \<and> isLowerHexOfLen keyID 32 \<and> isLowerHexOfLen trail 32)"

text \<open>A read of a source without pinned descriptors, whose names are text, and what its program
  wrote, as the canonical parser answered it.\<close>

definition read_ok :: "gatewayService \<Rightarrow> sourceSpec \<Rightarrow> readRequest \<Rightarrow> sourceOutput \<Rightarrow> bytes \<Rightarrow> bool" where
  "read_ok g spec rq out now \<longleftrightarrow>
     requireSession (rq_session rq) \<and> valid_utf8 (rq_source rq) \<and> valid_utf8 now \<and>
     (\<forall>who. rq_who rq = Some who \<longrightarrow> caller_ok who) \<and> witnesses_ok g \<and>
     sp_provenance spec = None \<and> (sp_shape spec = [] \<or> sp_shape spec \<in> set acquisitionShapes) \<and>
     valid_utf8 (sp_command spec) \<and> isDigest (so_digest out) \<and> valid_utf8 (so_observedAt out) \<and>
     wf (so_value out) \<and> jdepth (so_value out) \<le> maxNesting"

lemma lower_hex_utf8: "isLowerHexOfLen s n \<Longrightarrow> valid_utf8 s"
  by (simp add: isLowerHexOfLen_def valid_utf8_lower_hex)

lemma witnessMember_ok:
  assumes "witnesses_ok g" and "witnessMember g trail = Some w"
  shows "fits w" and "witnessMemberOf (VObject w) \<noteq> None"
proof -
  from assms(2) obtain origin keyID where named: "gw_witnessedBy g trail = Some (origin, keyID)"
    and w: "w = obj_set (obj_set (obj_set [] ''origin'' (VString origin)) ''keyId'' (VString keyID)) ''trail'' (VString trail)"
    by (auto simp: witnessMember_def split: if_splits)
  from assms(1) named have form: "isWitnessOrigin origin" "valid_utf8 origin" "isLowerHexOfLen keyID 32" "isLowerHexOfLen trail 32"
    by (auto simp: witnesses_ok_def)
  show "fits w"
    unfolding w using form by (intro fits_string fits_Nil) (auto simp: valid_utf8_ascii lower_hex_utf8)
  show "witnessMemberOf (VObject w) \<noteq> None"
    using form by (simp add: w witnessMemberOf_def requireObject_def requireString_def memberString_def obj_get_def)
qed

lemma requireObject_iff: "requireObject v = Some ms \<longleftrightarrow> v = VObject ms"
  by (cases v) (auto simp: requireObject_def)

lemma readEnvelope_acquisition:
  assumes "readEnvelope output shape = Some e" and "wf output" and "jdepth output \<le> maxNesting"
  shows "wf (VObject (env_acquisition e))" and "jdepth (VObject (env_acquisition e)) < maxNesting"
    and "obj_get (env_acquisition e) ''reconciliation'' = None"
proof -
  from assms(1) obtain obj where obj: "output = VObject obj" "obj_get obj ''acquisition'' = Some (VObject (env_acquisition e))"
    and names: "names_within (env_acquisition e) envelopeMembers"
    by (auto simp: readEnvelope_def parseEnvelope_def Option.bind_eq_Some_conv Let_def requireObject_iff)
  from obj(2) have m: "(''acquisition'', VObject (env_acquisition e)) \<in> set obj" by (simp add: obj_get_def map_of_SomeD)
  show "wf (VObject (env_acquisition e))" using wf_member [OF assms(2) [unfolded obj(1)] obj(2)] .
  show "jdepth (VObject (env_acquisition e)) < maxNesting"
    using jdepth_member [OF m] assms(3) unfolding obj(1) by (simp del: jdepth.simps)
  show "obj_get (env_acquisition e) ''reconciliation'' = None"
    using names by (auto simp: names_within_def obj_get_def map_of_eq_None_iff list_all_iff envelopeMembers_def)
qed

lemma read_detail_ok:
  assumes "read_ok g spec rq out now" and "read_output C g keys spec source out = Some (result, e)"
    and "gw_receiptVersion g = receiptVersion3"
  shows "fits (read_detail C g spec out e salt)"
    and "validateAcquisition (VObject (read_detail C g spec out e salt)) = Some ()"
    and "obj_get (read_detail C g spec out e salt) ''reconciliation'' = None"
    and "obj_get (read_detail C g spec out e salt) ''descriptorProvenance'' = None"
proof -
  have ok: "sp_provenance spec = None" "valid_utf8 (sp_command spec)" "isDigest (so_digest out)"
    "valid_utf8 (so_observedAt out)" "wf (so_value out)" "jdepth (so_value out) \<le> maxNesting"
    using assms(1) by (simp_all add: read_ok_def)
  have "fits (read_detail C g spec out e salt) \<and>
      validateAcquisition (VObject (read_detail C g spec out e salt)) = Some () \<and>
      obj_get (read_detail C g spec out e salt) ''reconciliation'' = None \<and>
      obj_get (read_detail C g spec out e salt) ''descriptorProvenance'' = None"
  proof (cases "sp_shape spec = []")
    case True
    with assms(2) have "e = None" by (simp add: read_output_def)
    with ok assms(3) show ?thesis
      by (simp add: read_detail_def commandAcquisition_fits commandAcquisition_valid)
        (simp add: commandAcquisition_def obj_get_def)
  next
    case False
    with assms(2) obtain env where env: "e = Some env" "readEnvelope (so_value out) (sp_shape spec) = Some env"
      by (auto simp: read_output_def Option.bind_eq_Some_conv)
    have shape: "sp_shape spec \<in> set acquisitionShapes" using False assms(1) by (simp add: read_ok_def)
    then have "valid_utf8 (sp_shape spec)" by (auto simp: acquisitionShapes_def valid_utf8_ascii)
    then show ?thesis
      using ok(1) assms(3) env(1) adapterAcquisition_valid [OF env(2) shape] adapterAcquisition_own(4,5)
        adapterAcquisition_fits [OF readEnvelope_acquisition(1,2) [OF env(2) ok(5,6)]]
      by (simp add: read_detail_def)
  qed
  then show "fits (read_detail C g spec out e salt)"
    "validateAcquisition (VObject (read_detail C g spec out e salt)) = Some ()"
    "obj_get (read_detail C g spec out e salt) ''reconciliation'' = None"
    "obj_get (read_detail C g spec out e salt) ''descriptorProvenance'' = None" by simp_all
qed

text \<open>The receipt of a read is built from inputs of their form.\<close>

lemma read_input_ok:
  assumes read: "read_ok g spec rq out now" "read_minting C g keys spec rq out now drawn salt statementSalt = Some m"
    and version: "gw_receiptVersion g = receiptVersion \<or> gw_receiptVersion g = receiptVersion3"
    and state: "0 \<le> ss_index (session_of g (mt_session m))" "ss_index (session_of g (mt_session m)) \<le> maxSafeInteger"
      "valid_utf8 (ss_prev (session_of g (mt_session m)))"
    and "valid_utf8 (st_authority (gw_store g))"
  shows "input_ok (receipt_input g m (digest_of C d))"
    and "gw_receiptVersion g = receiptVersion3 \<Longrightarrow> obj_get (mt_detail m) ''descriptorProvenance'' = None"
proof -
  from read(2) obtain result e where out: "read_output C g keys spec (rq_source rq) out = Some (result, e)"
    and m: "m = \<lparr> mt_version = gw_receiptVersion g, mt_session = rq_session rq, mt_source = rq_source rq, mt_arguments = canon (rq_arguments rq),
            mt_result = result, mt_who = rq_who rq,
            mt_witness = (if gw_receiptVersion g = receiptVersion3 then witnessMember g (rq_trail rq) else None),
            mt_kind = ''acquisition'', mt_detail = read_detail C g spec out e statementSalt,
            mt_delegation = None, mt_reconciler = None, mt_now = now, mt_seed = st_seed (gw_store g),
            mt_drawn = (gw_receiptVersion g \<noteq> receiptVersion3 \<or> drawn), mt_salt = salt \<rparr>"
    by (auto simp: read_minting_def Option.bind_eq_Some_conv)
  show "input_ok (receipt_input g m (digest_of C d))"
    using read(1) version state assms(7) read_detail_ok(1-3) [OF read(1) out] witnessMember_ok
    by (auto simp: input_ok_def detail_ok_def receipt_input_def m read_ok_def)
  show "gw_receiptVersion g = receiptVersion3 \<Longrightarrow> obj_get (mt_detail m) ''descriptorProvenance'' = None"
    using read_detail_ok(4) [OF read(1) out] by (simp add: m)
qed

end
