(* ===== verification/Service_Run.thy ===== *)
theory Service_Run
  imports Service_Reads "HOL-Library.Multiset"
begin

text \<open>
  The signer as requests reach it: any number of acquisitions and actions in flight at once, their
  steps under the lock interleaved with each other, with seals and with the operator's closing and
  opening of the gate.  What a request holds is the session it was admitted into, from its
  admission to its release.
\<close>

record run =
  rn_service :: gatewayService
  rn_running :: "bytes multiset"
  rn_ending :: "bytes multiset"

text \<open>The sessions of all admitted requests that have not been released.\<close>

definition held :: "run \<Rightarrow> bytes multiset" where
  "held r = rn_running r + rn_ending r"

text \<open>Which requests a run has: reads alone, on a store nobody else writes and with every seal
  written whole or not at all, and fewer receipts in a session than a number can count; or anything.\<close>

datatype scope = ReadsAlone | Anything

inductive step :: "crypto \<Rightarrow> scope \<Rightarrow> run \<Rightarrow> run \<Rightarrow> bool" for C :: crypto and sc :: scope where
  Admit: "requireSession sid \<Longrightarrow> admit sid g = (Inr (), g') \<Longrightarrow>
    step C sc \<lparr> rn_service = g, rn_running = R, rn_ending = E \<rparr>
      \<lparr> rn_service = g', rn_running = add_mset sid R, rn_ending = E \<rparr>"
| Admit_refused: "requireSession sid \<Longrightarrow> admit sid g = (Inl e, g') \<Longrightarrow>
    step C sc \<lparr> rn_service = g, rn_running = R, rn_ending = E \<rparr>
      \<lparr> rn_service = g', rn_running = R, rn_ending = E \<rparr>"
| Admit_action: "sc = Anything \<Longrightarrow> requireSession sid \<Longrightarrow> admitAction mkdir sid g = (Inr (), g') \<Longrightarrow>
    step C sc \<lparr> rn_service = g, rn_running = R, rn_ending = E \<rparr>
      \<lparr> rn_service = g', rn_running = add_mset sid R, rn_ending = E \<rparr>"
| Admit_action_refused: "sc = Anything \<Longrightarrow> requireSession sid \<Longrightarrow> admitAction mkdir sid g = (Inl e, g') \<Longrightarrow>
    step C sc \<lparr> rn_service = g, rn_running = R, rn_ending = E \<rparr>
      \<lparr> rn_service = g', rn_running = R, rn_ending = E \<rparr>"
| Fail: "sid \<in># R \<Longrightarrow>
    step C sc \<lparr> rn_service = g, rn_running = R, rn_ending = E \<rparr>
      \<lparr> rn_service = g, rn_running = R - {#sid#}, rn_ending = add_mset sid E \<rparr>"
| Mint: "mt_session m \<in># R \<Longrightarrow> mt_kind m = ''acquisition'' \<or> mt_kind m = ''action'' \<Longrightarrow>
    sc = Anything \<or> read_ok g spec rq out now \<and> read_minting C g keys spec rq out now drawn salt statementSalt = Some m \<and>
      ss_index (session_of g (mt_session m)) < maxSafeInteger \<Longrightarrow>
    mint C x env m g = (answer, g') \<Longrightarrow>
    step C sc \<lparr> rn_service = g, rn_running = R, rn_ending = E \<rparr>
      \<lparr> rn_service = g', rn_running = R - {#mt_session m#}, rn_ending = add_mset (mt_session m) E \<rparr>"
| Abandon: "sc = Anything \<Longrightarrow> sid \<in># R \<Longrightarrow>
    step C sc \<lparr> rn_service = g, rn_running = R, rn_ending = E \<rparr>
      \<lparr> rn_service = abandonUnminted removes sid g, rn_running = R, rn_ending = E \<rparr>"
| Release: "sid \<in># E \<Longrightarrow>
    step C sc \<lparr> rn_service = g, rn_running = R, rn_ending = E \<rparr>
      \<lparr> rn_service = release sid g, rn_running = R, rn_ending = E - {#sid#} \<rparr>"
| Seal: "sealSession C l now sid g = (answer, g') \<Longrightarrow>
    sc = Anything \<or> valid_utf8 now \<and> (\<forall>e. answer \<noteq> Inl (SealFailed (SealMayBeWritten e))) \<Longrightarrow>
    step C sc \<lparr> rn_service = g, rn_running = R, rn_ending = E \<rparr>
      \<lparr> rn_service = g', rn_running = R, rn_ending = E \<rparr>"
| Close: "step C sc \<lparr> rn_service = g, rn_running = R, rn_ending = E \<rparr>
      \<lparr> rn_service = closeAdmission g, rn_running = R, rn_ending = E \<rparr>"
| Open: "step C sc \<lparr> rn_service = g, rn_running = R, rn_ending = E \<rparr>
      \<lparr> rn_service = openAdmission g, rn_running = R, rn_ending = E \<rparr>"

text \<open>A service just started: no session in memory, the gate open, and nothing in flight.\<close>

definition fresh :: "run \<Rightarrow> bool" where
  "fresh r \<longleftrightarrow>
     gw_gate (rn_service r) = newAdmissionGate \<and> gw_sessions (rn_service r) = Map.empty \<and>
     rn_running r = {#} \<and> rn_ending r = {#}"

section \<open>The reservations\<close>

text \<open>Every session counts the requests admitted into it and not released, the gate counts them
  all, and a session that is sealed has none.\<close>

fun session_ok :: "nat \<Rightarrow> sessionState option \<Rightarrow> bool" where
  "session_ok n None = (n = 0)"
| "session_ok n (Some st) \<longleftrightarrow> ss_inFlight st = int n \<and> 0 \<le> ss_index st \<and> (ss_sealed st \<longrightarrow> n = 0)"

definition run_ok :: "run \<Rightarrow> bool" where
  "run_ok r \<longleftrightarrow>
     gate_ok (gw_gate (rn_service r)) \<and> ag_pending (gw_gate (rn_service r)) = int (size (held r)) \<and>
     (\<forall>sid. session_ok (count (held r) sid) (gw_sessions (rn_service r) sid))"

lemma fresh_ok: "fresh r \<Longrightarrow> run_ok r"
  by (simp add: fresh_def run_ok_def held_def newAdmissionGate_ok) (simp add: newAdmissionGate_def)

text \<open>A step that touches one session and the gate.\<close>

lemma run_ok_update:
  assumes "run_ok r" and "gw_sessions (rn_service r') = (gw_sessions (rn_service r))(sid := so)"
    and "\<And>s. s \<noteq> sid \<Longrightarrow> count (held r') s = count (held r) s" and "session_ok (count (held r') sid) so"
    and "gate_ok (gw_gate (rn_service r'))" "ag_pending (gw_gate (rn_service r')) = int (size (held r'))"
  shows "run_ok r'"
  using assms by (auto simp: run_ok_def)

lemma run_okD:
  assumes "run_ok r"
  shows "gate_ok (gw_gate (rn_service r))" "ag_pending (gw_gate (rn_service r)) = int (size (held r))"
    "session_ok (count (held r) sid) (gw_sessions (rn_service r) sid)"
  using assms by (auto simp: run_ok_def)

lemma session_of_ok: "session_ok n (gw_sessions g sid) \<Longrightarrow> session_ok n (Some (session_of g sid))"
  by (cases "gw_sessions g sid") (simp_all add: session_of_def new_session_def)

section \<open>What each step does to the sessions and the gate\<close>

lemma admitLocked_open: "\<not> ag_closed g \<Longrightarrow> admitLocked g = (True, g\<lparr> ag_pending := ag_pending g + 1 \<rparr>)"
  by (simp add: admitLocked_def)

lemma reserve_fields [simp]:
  "gw_sessions (reserve sid st g) = (gw_sessions g)(sid \<mapsto> st\<lparr> ss_inFlight := ss_inFlight st + 1 \<rparr>)"
  "gw_gate (reserve sid st g) = snd (admitLocked (gw_gate g))"
  "gw_receipts (reserve sid st g) = gw_receipts g" "gw_artifacts (reserve sid st g) = gw_artifacts g"
  "gw_log (reserve sid st g) = gw_log g" "gw_store (reserve sid st g) = gw_store g"
  "gw_registry (reserve sid st g) = gw_registry g" "gw_receiptVersion (reserve sid st g) = gw_receiptVersion g"
  by (simp_all add: reserve_def put_session_def)

lemma put_session_fields [simp]:
  "gw_sessions (put_session sid st g) = (gw_sessions g)(sid \<mapsto> st)" "gw_gate (put_session sid st g) = gw_gate g"
  "gw_receipts (put_session sid st g) = gw_receipts g" "gw_artifacts (put_session sid st g) = gw_artifacts g"
  "gw_log (put_session sid st g) = gw_log g" "gw_store (put_session sid st g) = gw_store g"
  "gw_registry (put_session sid st g) = gw_registry g" "gw_receiptVersion (put_session sid st g) = gw_receiptVersion g"
  by (simp_all add: put_session_def)

lemma drop_session_fields [simp]:
  "gw_sessions (drop_session sid g) = (gw_sessions g)(sid := None)" "gw_gate (drop_session sid g) = gw_gate g"
  "gw_receipts (drop_session sid g) = gw_receipts g" "gw_artifacts (drop_session sid g) = gw_artifacts g"
  "gw_log (drop_session sid g) = gw_log g" "gw_store (drop_session sid g) = gw_store g"
  "gw_registry (drop_session sid g) = gw_registry g" "gw_receiptVersion (drop_session sid g) = gw_receiptVersion g"
  by (simp_all add: drop_session_def)

lemma admit_cases:
  assumes "admit sid g = (answer, g')"
  obtains (Closed) "ag_closed (gw_gate g)" "answer = Inl AdmissionClosed" "g' = g"
  | (Sealed) "\<not> ag_closed (gw_gate g)" "ss_sealed (session_of g sid)" "answer = Inl SessionIsSealed"
      "g' = put_session sid (session_of g sid) g"
  | (In) "\<not> ag_closed (gw_gate g)" "\<not> ss_sealed (session_of g sid)" "answer = Inr ()"
      "g' = reserve sid (session_of g sid) (put_session sid (session_of g sid) g)"
  using assms by (auto simp: admit_def Let_def split: if_splits)

text \<open>A sealed session is known, so that a refused admission leaves the sessions as they are.\<close>

lemma put_sealed: "ss_sealed (session_of g sid) \<Longrightarrow> (gw_sessions g)(sid \<mapsto> session_of g sid) = gw_sessions g"
  by (auto simp: session_of_def new_session_def fun_eq_iff split: option.splits)

lemma admitAction_cases:
  assumes "admitAction mkdir sid g = (answer, g')"
  obtains (Closed) "ag_closed (gw_gate g)" "answer = Inl AdmissionClosed" "g' = g"
  | (Sealed) "ss_sealed (session_of g sid)" "answer = Inl SessionIsSealed" "g' = put_session sid (session_of g sid) g"
  | (Refused) e so where "answer = Inl e" "\<not> ss_sealed (session_of g sid)" "\<not> ss_created (session_of g sid)"
      "gw_gate g' = gw_gate g" "gw_receipts g' = gw_receipts g" "gw_sessions g' = (gw_sessions g)(sid := so)"
      "so = Some (session_of g sid) \<or> so = None \<and> ss_index (session_of g sid) = 0 \<and> ss_inFlight (session_of g sid) = 0"
  | (In) st receipts where "answer = Inr ()" "\<not> ag_closed (gw_gate g)" "\<not> ss_sealed (session_of g sid)"
      "st = session_of g sid \<and> receipts = gw_receipts g \<or>
       st = (session_of g sid)\<lparr> ss_created := True \<rparr> \<and> receipts = AList.update sid [] (gw_receipts g) \<and>
       map_of (gw_receipts g) sid = None"
      "g' = reserve sid st ((put_session sid (session_of g sid) g)\<lparr> gw_receipts := receipts \<rparr>)"
proof -
  let ?st = "session_of g sid" and ?g = "put_session sid (session_of g sid) g"
  consider "ag_closed (gw_gate g)" | "\<not> ag_closed (gw_gate g)" "ss_sealed ?st"
    | "\<not> ag_closed (gw_gate g)" "\<not> ss_sealed ?st" "ss_created ?st"
    | "\<not> ag_closed (gw_gate g)" "\<not> ss_sealed ?st" "\<not> ss_created ?st" "map_of (gw_receipts g) sid \<noteq> None \<or> \<not> mkdir"
    | "\<not> ag_closed (gw_gate g)" "\<not> ss_sealed ?st" "\<not> ss_created ?st" "map_of (gw_receipts g) sid = None" "mkdir"
    by blast
  then show thesis
  proof cases
    case 1
    with assms have "answer = Inl AdmissionClosed" "g' = g" by (simp_all add: admitAction_def)
    with 1 show thesis by (intro Closed)
  next
    case 2
    with assms have "answer = Inl SessionIsSealed" "g' = put_session sid ?st g"
      by (simp_all add: admitAction_def Let_def)
    with 2 show thesis by (intro Sealed)
  next
    case 3
    with assms have "answer = Inr ()" "g' = reserve sid ?st ?g" by (simp_all add: admitAction_def Let_def)
    with 3 show thesis by (intro In [of ?st "gw_receipts g"]) (simp_all add: put_session_def)
  next
    case 4
    then have g': "g' = (if ss_index ?st = 0 \<and> ss_inFlight ?st = 0 then drop_session sid ?g else ?g)"
      using assms by (auto simp: admitAction_def Let_def split: if_splits)
    from 4 assms obtain e where "answer = Inl e" by (auto simp: admitAction_def Let_def split: if_splits)
    then show thesis
      using 4 by (intro Refused [of e "if ss_index ?st = 0 \<and> ss_inFlight ?st = 0 then None else Some ?st"])
        (simp_all add: g')
  next
    case 5
    then have "answer = Inr ()"
      "g' = reserve sid (?st\<lparr> ss_created := True \<rparr>) (?g\<lparr> gw_receipts := AList.update sid [] (gw_receipts g) \<rparr>)"
      using assms by (simp_all add: admitAction_def Let_def)
    with 5 show thesis by (intro In) (simp_all (no_asm_simp))
  qed
qed


lemma mint_session:
  assumes "mint C x env m g = (answer, g')"
  shows "gw_gate g' = gw_gate g" and "gw_log g' = gw_log g" and "gw_store g' = gw_store g"
    and "gw_registry g' = gw_registry g" and "gw_receiptVersion g' = gw_receiptVersion g"
    and "\<exists>st. (gw_sessions g' = gw_sessions g \<or> gw_sessions g' = (gw_sessions g)(mt_session m \<mapsto> st)) \<and>
      ss_inFlight st = ss_inFlight (session_of g (mt_session m)) \<and> ss_sealed st = ss_sealed (session_of g (mt_session m)) \<and>
      ss_index st = ss_index (session_of g (mt_session m)) + 1"
proof -
  have same: "session_of (g\<lparr> gw_artifacts := a \<rparr>) s = session_of g s" for a s by (simp add: session_of_def)
  have "gw_gate g' = gw_gate g \<and> gw_log g' = gw_log g \<and> gw_store g' = gw_store g \<and>
      gw_registry g' = gw_registry g \<and> gw_receiptVersion g' = gw_receiptVersion g"
    using assms by (auto simp: mint_def Let_def split: if_splits sum.splits prod.splits)
  then show "gw_gate g' = gw_gate g" "gw_log g' = gw_log g" "gw_store g' = gw_store g"
    "gw_registry g' = gw_registry g" "gw_receiptVersion g' = gw_receiptVersion g" by simp_all
  show "\<exists>st. (gw_sessions g' = gw_sessions g \<or> gw_sessions g' = (gw_sessions g)(mt_session m \<mapsto> st)) \<and>
      ss_inFlight st = ss_inFlight (session_of g (mt_session m)) \<and> ss_sealed st = ss_sealed (session_of g (mt_session m)) \<and>
      ss_index st = ss_index (session_of g (mt_session m)) + 1"
  proof (cases answer)
    case (Inl e)
    with assms have "gw_sessions g' = gw_sessions g"
      by (auto simp: mint_def Let_def split: if_splits sum.splits prod.splits)
    then show ?thesis
      by (intro exI [of _ "(session_of g (mt_session m))\<lparr> ss_index := ss_index (session_of g (mt_session m)) + 1 \<rparr>"]) simp
  next
    case (Inr stored)
    then obtain signature made where "gw_sessions g' = (gw_sessions g)(mt_session m \<mapsto>
        (session_of g (mt_session m))\<lparr> ss_index := ss_index (session_of g (mt_session m)) + 1, ss_prev := signature,
          ss_created := ss_created (session_of g (mt_session m)) \<or> made \<rparr>)"
      using assms by (auto simp: mint_def Let_def same split: if_splits sum.splits prod.splits)
    then show ?thesis by (intro exI conjI disjI2, assumption) simp_all
  qed
qed

lemma abandon_session:
  obtains "abandonUnminted removes sid g = g"
  | st where "gw_sessions g sid = Some st" "ss_created st" "ss_index st = 0" "\<not> ss_sealed st"
      "gw_sessions (abandonUnminted removes sid g) = (gw_sessions g)(sid \<mapsto> st\<lparr> ss_created := False \<rparr>)"
      "gw_gate (abandonUnminted removes sid g) = gw_gate g"
      "gw_receipts (abandonUnminted removes sid g) = AList.delete sid (gw_receipts g)"
      "gw_log (abandonUnminted removes sid g) = gw_log g"
proof (cases "gw_sessions g sid")
  case None
  then show thesis using that(1) by (simp add: abandonUnminted_def)
next
  case (Some st)
  show thesis
  proof (cases "\<not> ss_created st \<or> ss_sealed st \<or> ss_index st \<noteq> 0 \<or> ss_inFlight st \<noteq> 1 \<or>
      \<not> (removes \<and> map_of (gw_receipts g) sid = Some [])")
    case True
    then have "abandonUnminted removes sid g = g" using Some by (auto simp: abandonUnminted_def)
    then show thesis by (rule that(1))
  next
    case False
    then show thesis using Some by (intro that(2) [of st]) (simp_all add: abandonUnminted_def)
  qed
qed

lemma seal_session_cases:
  assumes "sealSession C l now sid g = (answer, g')"
  obtains (Refused) "g' = g" "\<exists>e. answer = Inl e"
  | (Failed) log st e where "gw_sessions g sid = Some st" "ss_inFlight st \<le> 0" "requireSession sid"
      "seal C (fsLog_ops l) (gw_registry g) sid (ss_index st) now (gw_log g) = (Inl e, log)"
      "\<And>e'. e \<noteq> SealMayBeWritten e'" "g' = g\<lparr> gw_log := log \<rparr>" "answer = Inl (SealFailed e)"
  | (Shut) log st a where "gw_sessions g sid = Some st" "ss_inFlight st \<le> 0" "requireSession sid"
      "seal C (fsLog_ops l) (gw_registry g) sid (ss_index st) now (gw_log g) = (a, log)"
      "(\<exists>record. a = Inr record \<and> answer = Inr record) \<or>
       (\<exists>e. a = Inl (SealMayBeWritten e) \<and> answer = Inl (SealFailed (SealMayBeWritten e)))"
      "g' = put_session sid (st\<lparr> ss_sealed := True \<rparr>) (g\<lparr> gw_log := log \<rparr>)"
proof (cases "requireSession sid \<and> (\<exists>st. gw_sessions g sid = Some st \<and> ss_inFlight st \<le> 0)")
  case False
  then have "g' = g \<and> (\<exists>e. answer = Inl e)"
    using assms by (auto simp: sealSession_def split: if_splits option.splits)
  then show thesis using Refused by blast
next
  case True
  then obtain st where st: "gw_sessions g sid = Some st" "ss_inFlight st \<le> 0" "requireSession sid" by blast
  obtain a log where a: "seal C (fsLog_ops l) (gw_registry g) sid (ss_index st) now (gw_log g) = (a, log)" by fastforce
  consider written where "a = Inr written" | e where "a = Inl (SealMayBeWritten e)"
    | e where "a = Inl e" "\<And>e'. e \<noteq> SealMayBeWritten e'"
    by (metis sum.exhaust)
  then show thesis
  proof cases
    case 1
    with assms st a show thesis by (intro Shut [OF st a]) (simp_all add: sealSession_def Let_def)
  next
    case 2
    with assms st a show thesis by (intro Shut [OF st a]) (simp_all add: sealSession_def Let_def)
  next
    case 3
    then have "(answer, g') = (Inl (SealFailed e), g\<lparr> gw_log := log \<rparr>)"
      using assms st a 3 by (cases e) (auto simp: sealSession_def Let_def)
    with 3 a st show thesis by (intro Failed [of st e log]) simp_all
  qed
qed


section \<open>The reservations hold\<close>

lemma run_ok_held: "run_ok r \<Longrightarrow> rn_service r' = rn_service r \<Longrightarrow> held r' = held r \<Longrightarrow> run_ok r'"
  unfolding run_ok_def by simp

lemma step_ok_simple:
  assumes "run_ok \<lparr> rn_service = g, rn_running = R, rn_ending = E \<rparr>"
  shows "sid \<in># R \<Longrightarrow> run_ok \<lparr> rn_service = g, rn_running = R - {#sid#}, rn_ending = add_mset sid E \<rparr>"
    and "run_ok \<lparr> rn_service = closeAdmission g, rn_running = R, rn_ending = E \<rparr>"
    and "run_ok \<lparr> rn_service = openAdmission g, rn_running = R, rn_ending = E \<rparr>"
proof -
  show "run_ok \<lparr> rn_service = g, rn_running = R - {#sid#}, rn_ending = add_mset sid E \<rparr>" if "sid \<in># R"
    by (rule run_ok_held [OF assms]) (use that in \<open>simp_all add: held_def flip: union_mset_add_mset_left\<close>)
qed (use assms signer_gate.close_valid signer_gate.open_valid in \<open>simp_all add: run_ok_def held_def closeAdmission_def openAdmission_def\<close>)

lemma admit_ok:
  assumes ok: "run_ok \<lparr> rn_service = g, rn_running = R, rn_ending = E \<rparr>" and "\<not> ag_closed (gw_gate g)"
    and "\<not> ss_sealed (session_of g sid)"
    and st: "ss_inFlight st = ss_inFlight (session_of g sid)" "ss_index st = ss_index (session_of g sid)"
      "ss_sealed st = ss_sealed (session_of g sid)"
    and g': "gw_sessions g' = (gw_sessions g)(sid \<mapsto> st\<lparr> ss_inFlight := ss_inFlight st + 1 \<rparr>)"
      "gw_gate g' = snd (admitLocked (gw_gate g))"
  shows "run_ok \<lparr> rn_service = g', rn_running = add_mset sid R, rn_ending = E \<rparr>"
proof (rule run_ok_update [OF ok, where sid = sid])
  have "session_ok (count (R + E) sid) (gw_sessions g sid)"
    using run_okD(3) [OF ok, of sid] by (simp add: held_def)
  from session_of_ok [OF this] show "session_ok (count (held \<lparr> rn_service = g', rn_running = add_mset sid R, rn_ending = E \<rparr>) sid)
      (Some (st\<lparr> ss_inFlight := ss_inFlight st + 1 \<rparr>))"
    using assms(3) st by (simp add: held_def)
  show "gate_ok (gw_gate (rn_service \<lparr> rn_service = g', rn_running = add_mset sid R, rn_ending = E \<rparr>))"
    "ag_pending (gw_gate (rn_service \<lparr> rn_service = g', rn_running = add_mset sid R, rn_ending = E \<rparr>)) =
       int (size (held \<lparr> rn_service = g', rn_running = add_mset sid R, rn_ending = E \<rparr>))"
    using run_okD(1,2) [OF ok] signer_gate.enter_open [OF _ assms(2) admitLocked_open [OF assms(2)]] g'(2)
    by (simp_all add: held_def admitLocked_open [OF assms(2)] del: size_union)
qed (use g' in \<open>simp_all add: held_def\<close>)

lemma release_ok:
  assumes ok: "run_ok \<lparr> rn_service = g, rn_running = R, rn_ending = E \<rparr>" and "sid \<in># E"
  shows "run_ok \<lparr> rn_service = release sid g, rn_running = R, rn_ending = E - {#sid#} \<rparr>"
proof -
  define n where "n = count (R + E) sid"
  have n: "n \<noteq> 0" using assms(2) by (simp add: n_def)
  have less: "n = Suc (count (R + (E - {#sid#})) sid)"
    using assms(2) unfolding n_def by (metis count_add_mset insert_DiffM union_mset_add_mset_right)
  have size: "size (R + E) = Suc (size (R + (E - {#sid#})))"
    using assms(2) by (metis insert_DiffM size_add_mset union_mset_add_mset_right)
  from run_okD(3) [OF ok, of sid] have "session_ok n (gw_sessions g sid)" by (simp add: held_def n_def)
  with n obtain st where
    st: "gw_sessions g sid = Some st" "ss_inFlight st = int n" "0 \<le> ss_index st" "\<not> ss_sealed st"
    by (cases "gw_sessions g sid") auto
  let ?st = "st\<lparr> ss_inFlight := ss_inFlight st - 1 \<rparr>"
  let ?gone = "ss_inFlight ?st \<le> 0 \<and> ss_index st = 0 \<and> \<not> ss_created st"
  have release: "gw_sessions (release sid g) = (gw_sessions g)(sid := (if ?gone then None else Some ?st))"
    "gw_gate (release sid g) = snd (finishLocked (gw_gate g))"
    using st by (auto simp: release_def Let_def fun_eq_iff)
  show ?thesis
  proof (rule run_ok_update [OF ok, where sid = sid])
    show "session_ok (count (held \<lparr> rn_service = release sid g, rn_running = R, rn_ending = E - {#sid#} \<rparr>) sid)
        (if ?gone then None else Some ?st)"
      using st less by (auto simp: held_def simp del: count_union)
    have "0 < ag_pending (gw_gate g)" using run_okD(2) [OF ok] size by (simp add: held_def)
    from signer_gate.leave_valid [OF run_okD(1) [OF ok, simplified] this]
    show "gate_ok (gw_gate (rn_service \<lparr> rn_service = release sid g, rn_running = R, rn_ending = E - {#sid#} \<rparr>))"
      "ag_pending (gw_gate (rn_service \<lparr> rn_service = release sid g, rn_running = R, rn_ending = E - {#sid#} \<rparr>)) =
         int (size (held \<lparr> rn_service = release sid g, rn_running = R, rn_ending = E - {#sid#} \<rparr>))"
      using run_okD(2) [OF ok] release(2) size by (simp_all add: held_def)
  qed (use release in \<open>simp_all add: held_def\<close>)
qed


lemma seal_ok:
  assumes ok: "run_ok \<lparr> rn_service = g, rn_running = R, rn_ending = E \<rparr>" and "sealSession C l now sid g = (answer, g')"
  shows "run_ok \<lparr> rn_service = g', rn_running = R, rn_ending = E \<rparr>"
  using assms(2)
proof (cases rule: seal_session_cases)
  case Refused
  with ok show ?thesis by simp
next
  case (Failed log st e)
  with ok show ?thesis by (simp add: run_ok_def held_def)
next
  case (Shut log st a)
  from run_okD(3) [OF ok, of sid] Shut have st: "ss_inFlight st = int (count (R + E) sid)" "0 \<le> ss_index st"
    by (simp_all add: held_def)
  show ?thesis
    by (rule run_ok_update [OF ok, where sid = sid and so = "Some (st\<lparr> ss_sealed := True \<rparr>)"])
      (use Shut(2,6) st run_okD(1,2) [OF ok] in \<open>simp_all add: held_def\<close>)
qed

lemma mint_ok:
  assumes ok: "run_ok \<lparr> rn_service = g, rn_running = R, rn_ending = E \<rparr>" and "mint C x env m g = (answer, g')"
    and "mt_session m \<in># R"
  shows "run_ok \<lparr> rn_service = g', rn_running = R - {#mt_session m#}, rn_ending = add_mset (mt_session m) E \<rparr>"
proof -
  let ?sid = "mt_session m"
  obtain st where st: "gw_sessions g' = gw_sessions g \<or> gw_sessions g' = (gw_sessions g)(?sid \<mapsto> st)"
    "ss_inFlight st = ss_inFlight (session_of g ?sid)" "ss_sealed st = ss_sealed (session_of g ?sid)"
    "ss_index st = ss_index (session_of g ?sid) + 1"
    using mint_session(6) [OF assms(2)] by blast
  have "session_ok (count (R + E) ?sid) (gw_sessions g ?sid)"
    using run_okD(3) [OF ok, of ?sid] by (simp add: held_def)
  from session_of_ok [OF this] have so: "session_ok (count (R + E) ?sid) (Some st)" using st by simp
  have "run_ok \<lparr> rn_service = g', rn_running = R, rn_ending = E \<rparr>"
  proof (cases "gw_sessions g' = gw_sessions g")
    case True
    with ok mint_session(1) [OF assms(2)] show ?thesis by (simp add: run_ok_def held_def)
  next
    case False
    with st(1) have "gw_sessions g' = (gw_sessions g)(?sid := Some st)" by simp
    then show ?thesis
      using so run_okD(1,2) [OF ok] mint_session(1) [OF assms(2)]
      by (intro run_ok_update [OF ok, where sid = ?sid and so = "Some st"]) (simp_all add: held_def)
  qed
  from step_ok_simple(1) [OF this assms(3)] show ?thesis .
qed

lemma abandon_ok:
  assumes ok: "run_ok \<lparr> rn_service = g, rn_running = R, rn_ending = E \<rparr>"
  shows "run_ok \<lparr> rn_service = abandonUnminted removes sid g, rn_running = R, rn_ending = E \<rparr>"
proof (rule abandon_session [of removes sid g])
  assume "abandonUnminted removes sid g = g"
  with ok show ?thesis by simp
next
  fix st
  assume st: "gw_sessions g sid = Some st"
    "gw_sessions (abandonUnminted removes sid g) = (gw_sessions g)(sid \<mapsto> st\<lparr> ss_created := False \<rparr>)"
    "gw_gate (abandonUnminted removes sid g) = gw_gate g"
  then show ?thesis
    using run_okD(1,2) [OF ok] run_okD(3) [OF ok, of sid]
    by (intro run_ok_update [OF ok, where sid = sid and so = "Some (st\<lparr> ss_created := False \<rparr>)"])
      (simp_all add: held_def)
qed

lemma step_ok:
  assumes "step C sc r r'" and "run_ok r"
  shows "run_ok r'"
  using assms
proof (cases rule: step.cases)
  case (Admit sid g g' R E)
  from Admit(4) show ?thesis
    by (cases rule: admit_cases) (use Admit assms(2) in \<open>auto intro: admit_ok\<close>)
next
  case (Admit_refused sid g e g' R E)
  from Admit_refused(4) show ?thesis
    by (cases rule: admit_cases)
      (use Admit_refused assms(2) in \<open>auto simp: run_ok_def held_def put_sealed\<close>)
next
  case (Admit_action sid mkdir g g' R E)
  from Admit_action(5) show ?thesis
  proof (cases rule: admitAction_cases)
    case (In st receipts)
    then show ?thesis unfolding Admit_action(2)
      by (intro admit_ok [where g = g and sid = sid and st = st]) (use Admit_action(1) assms(2) in auto)
  qed simp_all
next
  case (Admit_action_refused sid mkdir g e g' R E)
  have ok: "run_ok \<lparr> rn_service = g, rn_running = R, rn_ending = E \<rparr>" using assms(2) Admit_action_refused(1) by simp
  from Admit_action_refused(5) show ?thesis
  proof (cases rule: admitAction_cases)
    case (Refused e' so)
    have "session_ok (count (R + E) sid) (gw_sessions g sid)" using run_okD(3) [OF ok, of sid] by (simp add: held_def)
    from session_of_ok [OF this] have "session_ok (count (R + E) sid) so"
      using Refused(7) by auto
    then show ?thesis
      unfolding Admit_action_refused(2) using Refused run_okD(1,2) [OF ok]
      by (intro run_ok_update [OF ok, where sid = sid and so = so]) (simp_all add: held_def)
  qed (use Admit_action_refused ok in \<open>auto simp: run_ok_def held_def put_sealed\<close>)
next
  case (Mint m R g keys spec rq out now drawn salt statementSalt x env answer g' E)
  with assms(2) show ?thesis by (auto intro: mint_ok)
next
  case (Seal l now sid g answer g' R E)
  with assms(2) show ?thesis by (auto intro: seal_ok)
qed (use assms(2) in \<open>auto intro: step_ok_simple abandon_ok release_ok\<close>)

lemma steps_ok: "(step C sc)\<^sup>*\<^sup>* r r' \<Longrightarrow> run_ok r \<Longrightarrow> run_ok r'"
  by (induction rule: rtranclp_induct) (auto intro: step_ok)

end
