(* ===== verification/Service_Store.thy ===== *)
theory Service_Store
  imports Service_Run
begin

text \<open>
  What the service has made durable: a session that is sealed takes no more receipts, and the
  receipts of a session are the chain its state in memory continues.
\<close>

section \<open>What a stamp leaves\<close>

lemma obj_get_set_some:
  "obj_get (set_some core n v) m = (if m = n \<and> v \<noteq> None then map_option VObject v else obj_get core m)"
  by (cases v) (simp_all add: set_some_def obj_get_set)

lemma buildReceipt_place:
  assumes "in_kind inp = ''acquisition'' \<or> in_kind inp = ''action''"
  shows "obj_get (buildReceipt C inp) ''sessionId'' = Some (VString (in_sessionID inp))"
    and "obj_get (buildReceipt C inp) ''callIndex'' = Some (VInt (in_callIndex inp))"
  using assms
  unfolding buildReceipt_def Let_def
  by (auto simp: obj_get_set obj_get_set_some simp del: obj_set.simps)

lemma stamp_fs:
  assumes "stampInto C (fsIndexed_ops x) st core s = (answer, s')"
    and "obj_get core ''sessionId'' = Some (VString sid)" "obj_get core ''callIndex'' = Some (VInt i)"
  obtains (Refused) e where "answer = Inl e" "s' = s"
  | (Made) e where "answer = Inl e" "requireSession sid" "map_of s sid = None" "s' = AList.update sid [] s"
  | (Stamped) fs made where "requireSession sid" "i \<le> maxSafeInteger"
      "answer = Inr (stamped C st core, stamp_signature C st (stamp_core st core), made)"
      "made = (map_of s sid = None)" "fs = (case map_of s sid of None \<Rightarrow> [] | Some fs \<Rightarrow> fs)"
      "map_of fs (entry_file (format_int i)) = None"
      "s' = AList.update sid (AList.update (entry_file (format_int i)) (stamped_bytes C st core) fs) s"
proof (cases "requireSession sid")
  case False
  with assms have "answer = Inl StampSession" "s' = s" by (simp_all add: stampInto_def)
  then show thesis by (rule Refused)
next
  case True
  then have dir: "seriesDir x sid = Some sid" by (intro seriesDir_plain requireSession_plain)
  obtain a s1 where make: "fsIndexed_makeSeries x sid s = (a, s1)" by fastforce
  show thesis
  proof (cases a)
    case (Inl e)
    then have "s1 = s" using make dir by (auto simp: fsIndexed_makeSeries_def split: if_splits)
    with Inl make True assms show thesis by (intro Refused) (auto simp: stampInto_def fsIndexed_ops_def)
  next
    case (Inr made)
    have s1: "made = (map_of s sid = None)" "s1 = (if made then AList.update sid [] s else s)"
      using make dir Inr by (auto simp: fsIndexed_makeSeries_def split: if_splits)
    let ?fs = "case map_of s sid of None \<Rightarrow> [] | Some fs \<Rightarrow> fs"
    have at: "map_of s1 sid = Some ?fs" using s1 by (auto simp: update_conv')
    have again: "AList.update sid v s1 = AList.update sid v s" for v using s1 by simp
    show thesis
    proof (cases "\<exists>e. answer = Inl e")
      case True': True
      then obtain e where e: "answer = Inl e" by blast
      have "s' = s1"
        using assms True make Inr e
        by (auto simp: stampInto_def fsIndexed_ops_def Let_def split: if_splits sum.splits prod.splits
            dest: fsIndexed_create_Inl)
      with s1 e True show thesis by (cases made) (auto intro: Refused Made)
    next
      case False
      then have i: "\<not> (i > maxSafeInteger \<or> i < minSafeInteger)"
        using assms True make Inr by (auto simp: stampInto_def fsIndexed_ops_def)
      obtain b where b: "fsIndexed_createIndexed x sid i (stamped_bytes C st core) s1 = (b, s')"
        "answer = (case b of Inl e \<Rightarrow> Inl (StampCreate e) | Inr _ \<Rightarrow> Inr (stamped C st core, stamp_signature C st (stamp_core st core), made))"
        using assms True make Inr i
        by (auto simp: stampInto_def fsIndexed_ops_def Let_def stamped_def stamped_bytes_def split: sum.splits prod.splits)
      with False obtain u where u: "b = Inr u" by (cases b) auto
      from b(1) [unfolded u] obtain d fs where "seriesDir x sid = Some d" "map_of s1 d = Some fs"
        "map_of fs (entry_file (format_int i)) = None"
        "s' = AList.update d (AList.update (entry_file (format_int i)) (stamped_bytes C st core) fs) s1"
        by (rule fsIndexed_create_Inr)
      with dir at again b(2) u s1(1) i True show thesis by (intro Stamped [of made ?fs]) auto
    qed
  qed
qed


text \<open>A mint by what it leaves behind.\<close>

lemma mint_cases:
  fixes m g
  defines "sid \<equiv> mt_session m" and "st \<equiv> session_of g (mt_session m)"
  assumes "mint C x env m g = (answer, g')" and kind: "mt_kind m = ''acquisition'' \<or> mt_kind m = ''action''"
  obtains (Refused) e where "answer = Inl e" "g' = g"
  | (Failed) e artifacts where "answer = Inl e"
      "fsBlobs_putBlob C env (canon (mt_result m)) (gw_artifacts g) = (Inr (digest_of C (canon (mt_result m))), artifacts)"
      "g' = g\<lparr> gw_artifacts := artifacts \<rparr> \<or> map_of (gw_receipts g) sid = None \<and> requireSession sid \<and>
        g' = g\<lparr> gw_artifacts := artifacts, gw_receipts := AList.update sid [] (gw_receipts g) \<rparr>"
  | (Minted) fs artifacts core signature where
      "core = buildReceipt C (receipt_input g m (digest_of C (canon (mt_result m))))"
      "signature = stamp_signature C (gw_store g) (stamp_core (gw_store g) core)"
      "answer = Inr (stamped C (gw_store g) core)" "requireSession sid" "ss_index st \<le> maxSafeInteger"
      "fsBlobs_putBlob C env (canon (mt_result m)) (gw_artifacts g) = (Inr (digest_of C (canon (mt_result m))), artifacts)"
      "fs = (case map_of (gw_receipts g) sid of None \<Rightarrow> [] | Some fs \<Rightarrow> fs)"
      "map_of fs (entry_file (format_int (ss_index st))) = None"
      "g' = put_session sid (st\<lparr> ss_index := ss_index st + 1, ss_prev := signature,
              ss_created := ss_created st \<or> map_of (gw_receipts g) sid = None \<and> mt_kind m = ''acquisition'' \<rparr>)
            (g\<lparr> gw_artifacts := artifacts, gw_receipts := AList.update sid
                 (AList.update (entry_file (format_int (ss_index st))) (stamped_bytes C (gw_store g) core) fs)
                 (gw_receipts g) \<rparr>)"
proof -
  obtain a artifacts where put: "fsBlobs_putBlob C env (canon (mt_result m)) (gw_artifacts g) = (a, artifacts)" by fastforce
  then have retain: "retain (fsBlobs C env) (canon (mt_result m)) (gw_artifacts g) = (a, artifacts)"
    by (simp add: retain_def fsBlobs_def)
  consider "\<not> returnableResult (mt_result m)" | e where "returnableResult (mt_result m)" "a = Inl e"
    | d where "returnableResult (mt_result m)" "a = Inr d" "mt_drawn m"
    | d where "returnableResult (mt_result m)" "a = Inr d" "\<not> mt_drawn m" by (cases a) auto
  then show thesis
  proof cases
    case 1
    with assms(3) show thesis by (intro Refused) (auto simp: mint_def)
  next
    case 2
    with put have "artifacts = gw_artifacts g" by (auto dest: fsBlobs_put_Inl)
    with 2 assms(3) retain show thesis by (intro Refused) (auto simp: mint_def)
  next
    case 3
    then have d: "d = digest_of C (canon (mt_result m))" using put by (simp add: fsBlobs_put_Inr)
    let ?g = "g\<lparr> gw_artifacts := artifacts \<rparr>"
    have same: "session_of ?g s = session_of g s" "receipt_input ?g m d = receipt_input g m d" for s
      by (simp_all add: session_of_def receipt_input_def)
    let ?core = "buildReceipt C (receipt_input g m d)"
    obtain b receipts where stamp: "stampInto C (fsIndexed_ops x) (gw_store g) ?core (gw_receipts g) = (b, receipts)" by fastforce
    have kind': "in_kind (receipt_input g m d) = ''acquisition'' \<or> in_kind (receipt_input g m d) = ''action''"
      using kind by (simp add: receipt_input_def)
    have mint: "(answer, g') = (case b of Inl e \<Rightarrow> (Inl (NotStamped e), ?g\<lparr> gw_receipts := receipts \<rparr>)
       | Inr (stored, signature, made) \<Rightarrow>
           (Inr stored, put_session sid (st\<lparr> ss_index := ss_index st + 1, ss_prev := signature,
              ss_created := ss_created st \<or> made \<and> mt_kind m = ''acquisition'' \<rparr>) (?g\<lparr> gw_receipts := receipts \<rparr>)))"
      using assms(3) 3 retain stamp by (simp add: mint_def Let_def same sid_def st_def split: sum.splits prod.splits)
    have place: "obj_get ?core ''sessionId'' = Some (VString sid)" "obj_get ?core ''callIndex'' = Some (VInt (ss_index st))"
      using buildReceipt_place [OF kind'] by (simp_all add: receipt_input_def sid_def st_def)
    from stamp place show thesis
    proof (cases rule: stamp_fs)
      case (Refused e)
      with mint have "answer = Inl (NotStamped e)" "g' = ?g" by simp_all
      then show thesis using put 3 d by (intro Failed) auto
    next
      case (Made e)
      with mint have "answer = Inl (NotStamped e)" "g' = ?g\<lparr> gw_receipts := AList.update sid [] (gw_receipts g) \<rparr>"
        by simp_all
      then show thesis using put 3 d Made by (intro Failed [of "NotStamped e" artifacts]) auto
    next
      case (Stamped fs made)
      then show thesis
        using mint put 3 d by (intro Minted [OF refl refl]) auto
    qed
  next
    case 4
    then have "d = digest_of C (canon (mt_result m))" using put by (simp add: fsBlobs_put_Inr)
    with 4 assms(3) retain put show thesis
      by (intro Failed [of NoSalt artifacts]) (auto simp: mint_def Let_def)
  qed
qed

section \<open>A sealed session takes no more receipts\<close>

lemma release_other:
  "s \<noteq> sid \<Longrightarrow> gw_sessions (release sid g) s = gw_sessions g s"
  "gw_receipts (release sid g) = gw_receipts g" "gw_artifacts (release sid g) = gw_artifacts g"
  "gw_log (release sid g) = gw_log g" "gw_store (release sid g) = gw_store g"
  "gw_registry (release sid g) = gw_registry g" "gw_receiptVersion (release sid g) = gw_receiptVersion g"
  by (auto simp: release_def Let_def split: option.splits)

lemma step_sealed:
  assumes "step C sc r r'" and ok: "run_ok r"
    and st: "gw_sessions (rn_service r) sid = Some st" "ss_sealed st"
  shows "gw_sessions (rn_service r') sid = Some st \<and>
    map_of (gw_receipts (rn_service r')) sid = map_of (gw_receipts (rn_service r)) sid"
proof -
  have none: "count (held r) sid = 0" using run_okD(3) [OF ok, of sid] st by simp
  have absent: "sid \<notin># held r" using none by (simp add: count_eq_zero_iff)
  have known: "session_of (rn_service r) sid = st" using st by (simp add: session_of_def)
  show ?thesis
    using assms(1)
  proof (cases rule: step.cases)
    case (Admit s g g' R E)
    from Admit(4) show ?thesis
      by (cases rule: admit_cases) (use Admit st known in auto)
  next
    case (Admit_refused s g e g' R E)
    from Admit_refused(4) show ?thesis
      by (cases rule: admit_cases) (use Admit_refused st known in auto)
  next
    case (Admit_action s mkdir g g' R E)
    from Admit_action(5) show ?thesis
      by (cases rule: admitAction_cases) (use Admit_action st known in \<open>auto simp: update_conv'\<close>)
  next
    case (Admit_action_refused s mkdir g e g' R E)
    from Admit_action_refused(5) show ?thesis
      by (cases rule: admitAction_cases) (use Admit_action_refused st known in auto)
  next
    case (Mint m R g spec rq out now keys drawn salt statementSalt x env answer g' E)
    have "sid \<noteq> mt_session m" using Mint absent by (auto simp: held_def)
    with Mint(6) Mint(4) show ?thesis
      by (elim mint_cases) (use Mint st in \<open>auto simp: update_conv'\<close>)
  next
    case (Abandon s R g E removes)
    have "sid \<noteq> s" using Abandon absent by (auto simp: held_def)
    then show ?thesis
      using Abandon st by (rule_tac abandon_session [of removes s g]) (auto simp: delete_conv')
  next
    case (Release s E g R)
    have "sid \<noteq> s" using Release absent by (auto simp: held_def)
    then show ?thesis using Release st by (simp add: release_other)
  next
    case (Seal l now s g answer g' R E)
    from Seal(3) show ?thesis
      by (cases rule: seal_session_cases) (use Seal st in auto)
  qed (use st in \<open>auto simp: closeAdmission_def openAdmission_def\<close>)
qed

lemma steps_sealed:
  assumes "(step C sc)\<^sup>*\<^sup>* r r'" and "run_ok r"
    and "gw_sessions (rn_service r) sid = Some st" "ss_sealed st"
  shows "gw_sessions (rn_service r') sid = Some st \<and>
    map_of (gw_receipts (rn_service r')) sid = map_of (gw_receipts (rn_service r)) sid"
  using assms
proof (induction rule: rtranclp_induct)
  case (step r' r'')
  then show ?case using step_sealed [OF step(2) steps_ok [OF step(1,4)], of sid st] by simp
qed simp

section \<open>A closed gate\<close>

lemma step_closed:
  assumes "step C sc r r'" and "ag_closed (gw_gate (rn_service r))"
  shows "held r' \<subseteq># held r"
  using assms
proof (cases rule: step.cases)
  case (Admit s g g' R E)
  from Admit(4) show ?thesis by (cases rule: admit_cases) (use Admit assms(2) in auto)
next
  case (Admit_action s mkdir g g' R E)
  from Admit_action(5) show ?thesis by (cases rule: admitAction_cases) (use Admit_action assms(2) in auto)
qed (auto simp: held_def)

text \<open>Whatever is in flight can end, and a gate that stays closed is then drained.\<close>

lemma drain_run:
  assumes "run_ok r" and "ag_closed (gw_gate (rn_service r))"
  shows "\<exists>r'. (step C sc)\<^sup>*\<^sup>* r r' \<and> held r' = {#} \<and> ag_closed (gw_gate (rn_service r'))"
  using assms
proof (induction "2 * size (rn_running r) + size (rn_ending r)" arbitrary: r rule: less_induct)
  case less
  obtain g R E where r: "r = \<lparr> rn_service = g, rn_running = R, rn_ending = E \<rparr>" by (cases r)
  consider "R = {#}" "E = {#}" | sid where "sid \<in># R" | sid where "sid \<in># E" by (metis multiset_nonemptyE)
  then show ?case
  proof cases
    case 1
    then show ?thesis using less.prems by (intro exI [of _ r]) (simp add: r held_def)
  next
    case 2
    let ?r = "\<lparr> rn_service = g, rn_running = R - {#sid#}, rn_ending = add_mset sid E \<rparr>"
    have one: "step C sc r ?r" unfolding r using 2 by (rule step.Fail)
    obtain R' where "R = add_mset sid R'" using 2 by (metis insert_DiffM)
    then have "2 * size (rn_running ?r) + size (rn_ending ?r) < 2 * size (rn_running r) + size (rn_ending r)" by (simp add: r)
    from less.hyps [OF this step_ok [OF one less.prems(1)]] less.prems(2) one show ?thesis
      by (metis converse_rtranclp_into_rtranclp r run.select_convs(1))
  next
    case 3
    let ?r = "\<lparr> rn_service = release sid g, rn_running = R, rn_ending = E - {#sid#} \<rparr>"
    have one: "step C sc r ?r" unfolding r using 3 by (rule step.Release)
    have "2 * size (rn_running ?r) + size (rn_ending ?r) < 2 * size (rn_running r) + size (rn_ending r)"
      using 3 by (simp add: r size_Diff1_less)
    moreover have "ag_closed (gw_gate (rn_service ?r))"
      using less.prems(2) by (auto simp: r release_def Let_def finishLocked_def split: option.splits)
    ultimately show ?thesis
      using less.hyps step_ok [OF one less.prems(1)] one by (metis converse_rtranclp_into_rtranclp)
  qed
qed

end
