(* ===== verification/Service_Chain.thy ===== *)
theory Service_Chain
  imports Service_Store
begin

text \<open>
  A signer that serves reads from an empty store, as it writes it: at every moment the receipts of a
  session are the chain its state in memory continues, and the registry seals exactly the sessions
  sealed in memory, each with its count.  Once every session is sealed, the store verifies.
\<close>

section \<open>A chain grows by the receipt its session is at\<close>

text \<open>An artifact once retained stays retrievable by its digest, whatever is retained after it.\<close>

definition retained :: "crypto \<Rightarrow> (bytes \<rightharpoonup> bytes) \<Rightarrow> bytes \<Rightarrow> bool" where
  "retained C artifacts digest \<longleftrightarrow>
     (\<exists>artifact. digest = digest_of C artifact \<and> artifacts (hex_encode (sha256 C artifact)) = Some artifact)"

lemma ev_artifacts_of: "ev_artifacts (evidence_of g) = (case gw_artifacts g of None \<Rightarrow> Map.empty | Some fs \<Rightarrow> map_of fs)"
  by (simp add: evidence_of_def)

lemma put_retains:
  assumes "fsBlobs_putBlob C env d (gw_artifacts g) = (Inr name, gw_artifacts g')"
  shows "retained C (ev_artifacts (evidence_of g')) (digest_of C d)"
    and "retained C (ev_artifacts (evidence_of g)) digest \<Longrightarrow> retained C (ev_artifacts (evidence_of g')) digest"
proof -
  from assms obtain fs where fs: "gw_artifacts g = Some fs"
    "gw_artifacts g' = Some (AList.update (hex_encode (sha256 C d)) d fs)"
    by (auto simp: fsBlobs_put_Inr fsWriteFile_Inr)
  then show new: "retained C (ev_artifacts (evidence_of g')) (digest_of C d)"
    by (auto simp: retained_def ev_artifacts_of update_conv')
  assume "retained C (ev_artifacts (evidence_of g)) digest"
  then obtain a where a: "digest = digest_of C a" "map_of fs (hex_encode (sha256 C a)) = Some a"
    using fs by (auto simp: retained_def ev_artifacts_of)
  show "retained C (ev_artifacts (evidence_of g')) digest"
  proof (cases "hex_encode (sha256 C a) = hex_encode (sha256 C d)")
    case True
    then have "digest_of C a = digest_of C d" by (simp add: digest_of_def)
    with a new show ?thesis by simp
  next
    case False
    with a fs show ?thesis by (auto simp: retained_def ev_artifacts_of update_conv')
  qed
qed

lemma record_ok_retained:
  assumes "record_ok C st E authority sid i core r"
    and "retained C (ev_artifacts E) (r_resultDigest r) \<Longrightarrow> retained C (ev_artifacts E') (r_resultDigest r)"
  shows "record_ok C st E' authority sid i core r"
  using assms by (auto simp: record_ok_def retained_def)

lemma chain_recorded_retained:
  assumes "chain_recorded C st E authority sid cores rs"
    and "\<And>digest. retained C (ev_artifacts E) digest \<Longrightarrow> retained C (ev_artifacts E') digest"
  shows "chain_recorded C st E' authority sid cores rs"
  using assms record_ok_retained by (auto simp: chain_recorded_def)

lemma chain_recorded_snoc:
  assumes "chain_recorded C st E authority sid cores rs"
    and "record_ok C st E authority sid (length cores) core r" and "\<forall>r' \<in> set rs. r_version r' = r_version r"
    and "r_prevSignature r = (if rs = [] then None else Some (r_signature (last rs)))"
  shows "chain_recorded C st E authority sid (cores @ [core]) (rs @ [r])"
proof -
  have len: "length rs = length cores" using assms(1) by (simp add: chain_recorded_def)
  have at: "record_ok C st E authority sid i ((cores @ [core]) ! i) ((rs @ [r]) ! i) \<and>
      r_version ((rs @ [r]) ! i) = r_version ((rs @ [r]) ! 0) \<and>
      r_prevSignature ((rs @ [r]) ! i) = (if i = 0 then None else Some (r_signature ((rs @ [r]) ! (i - 1))))"
    if "i < Suc (length cores)" for i
  proof (cases "i < length cores")
    case True
    with len have at: "(cores @ [core]) ! i = cores ! i" "(rs @ [r]) ! i = rs ! i" "(rs @ [r]) ! 0 = rs ! 0"
      "(rs @ [r]) ! (i - 1) = rs ! (i - 1)" by (auto simp: nth_append)
    from assms(1) True have "record_ok C st E authority sid i (cores ! i) (rs ! i)" "r_version (rs ! i) = r_version (rs ! 0)"
      "r_prevSignature (rs ! i) = (if i = 0 then None else Some (r_signature (rs ! (i - 1))))"
      unfolding chain_recorded_def by blast+
    then show ?thesis unfolding at by blast
  next
    case False
    with that have i: "i = length cores" by simp
    have at: "(cores @ [core]) ! i = core" "(rs @ [r]) ! i = r" using len by (simp_all add: i nth_append)
    have first: "r_version ((rs @ [r]) ! 0) = r_version r" using assms(3) by (cases rs) simp_all
    have "r_prevSignature r = (if i = 0 then None else Some (r_signature ((rs @ [r]) ! (i - 1))))"
      using assms(4) unfolding i len [symmetric] by (cases rs rule: rev_cases) (simp_all add: nth_append)
    with assms(2) show ?thesis unfolding at first by (simp add: i)
  qed
  moreover have "length (rs @ [r]) = length (cores @ [core])" using len by simp
  ultimately show ?thesis unfolding chain_recorded_def length_append_singleton by blast
qed

lemma holds_chain_snoc:
  assumes "holds_chain C st cores (session_files fs)"
    and "map_of fs (entry_file (format_int (int (length cores)))) = None"
  shows "holds_chain C st (cores @ [core])
    (session_files (AList.update (entry_file (format_int (int (length cores)))) (stamped_bytes C st core) fs))"
proof -
  let ?name = "entry_file (format_int (int (length cores)))"
  have name: "?name = format_nat (length cores) @ ''.json''" by (simp add: entry_file_def format_int_def)
  have files: "session_files (AList.update ?name (stamped_bytes C st core) fs) =
      session_files fs @ [(?name, RegularFile (Some (stamped_bytes C st core)))]"
    unfolding update_new [OF assms(2)] by (simp add: session_files_def)
  have names: "map fst (session_files fs) = map fst fs" by (simp add: session_files_def comp_def case_prod_beta)
  have new: "?name \<notin> set (map fst (session_files fs))"
    unfolding names using assms(2) by (simp add: map_of_eq_None_iff)
  have old: "(case entry_of C st (cores @ [core]) i of (name, data) \<Rightarrow> (name, RegularFile (Some data))) =
      (case entry_of C st cores i of (name, data) \<Rightarrow> (name, RegularFile (Some data)))" if "i < length cores" for i
    using that by (simp add: entry_of_def nth_append)
  have last: "(case entry_of C st (cores @ [core]) (length cores) of (name, data) \<Rightarrow> (name, RegularFile (Some data))) =
      (?name, RegularFile (Some (stamped_bytes C st core)))"
    unfolding name by (simp add: entry_of_def)
  show ?thesis
    using assms(1) new old last unfolding holds_chain_def files
    by (simp add: lessThan_Suc image_constant_conv)
qed

section \<open>The signer's own key\<close>

lemma key_position_distinct:
  "distinct (map rk_keyID ks) \<Longrightarrow> n < length ks \<Longrightarrow> key_position ks (rk_keyID (ks ! n)) = Some n"
proof (induction ks arbitrary: n)
  case (Cons k ks)
  then show ?case by (cases n) auto
qed simp

text \<open>A registry the engine reads ends at the engine's own key, so its receipts are read under it.\<close>

lemma engineWalk_own_key:
  assumes "engineWalk C data own = Inr w"
  obtains pos where "key_position (rw_keys w) (keyIDFor C own) = Some pos" "rk_key (rw_keys w ! pos) = own"
proof -
  let ?w = "walkRegistry C data (registryFirstKey data own)"
  from assms have w: "w = ?w" "rk_key (current ?w) = own"
    by (auto simp: engineWalk_def Let_def split: option.splits if_splits)
  have keys: "rw_keys ?w \<noteq> []" "distinct (map rk_keyID (rw_keys ?w))"
    using walkRegistry_keys_ok [of C data "registryFirstKey data own"] by (simp_all add: keys_ok_def)
  let ?n = "length (rw_keys ?w) - 1"
  have cur: "current ?w = rw_keys ?w ! ?n" using keys(1) by (simp add: current_def last_conv_nth)
  have "rk_keyID (rw_keys ?w ! ?n) = keyIDFor C own" using current_keyID [of C data] w(2) cur by metis
  with key_position_distinct [OF keys(2), of ?n] keys(1) cur w show thesis by (intro that [of ?n]) simp_all
qed

section \<open>The state a run of reads keeps\<close>

definition service_ok :: "crypto \<Rightarrow> gatewayService \<Rightarrow> bool" where
  "service_ok C g \<longleftrightarrow>
     own_store C (gw_store g) \<and> gw_registry g = own_writer C (st_seed (gw_store g)) \<and>
     valid_utf8 (st_authority (gw_store g)) \<and>
     (gw_receiptVersion g = receiptVersion \<or> gw_receiptVersion g = receiptVersion3)"

text \<open>The files of a session's directory, none where there is no directory.\<close>

definition files_of :: "gatewayService \<Rightarrow> bytes \<Rightarrow> Store_FS.files" where
  "files_of g sid = (case map_of (gw_receipts g) sid of None \<Rightarrow> [] | Some fs \<Rightarrow> fs)"

text \<open>The session's receipts are a chain, and its state is at the chain's end.\<close>

definition session_chain :: "crypto \<Rightarrow> gatewayService \<Rightarrow> bytes \<Rightarrow> members list \<Rightarrow> receipt list \<Rightarrow> bool" where
  "session_chain C g sid cores rs \<longleftrightarrow>
     holds_chain C (gw_store g) cores (session_files (files_of g sid)) \<and>
     chain_recorded C (gw_store g) (evidence_of g) (st_authority (gw_store g)) sid cores rs \<and>
     (\<forall>r \<in> set rs. r_version r = gw_receiptVersion g) \<and>
     ss_index (session_of g sid) = int (length cores) \<and> ss_index (session_of g sid) \<le> maxSafeInteger \<and>
     ss_prev (session_of g sid) = (if rs = [] then [] else r_signature (last rs))"

definition has_directory :: "gatewayService \<Rightarrow> bytes \<Rightarrow> bool" where
  "has_directory g sid \<longleftrightarrow> map_of (gw_receipts g) sid \<noteq> None"

definition seal_of :: "gatewayService \<Rightarrow> bytes \<Rightarrow> seal option" where
  "seal_of g sid =
     (if ss_sealed (session_of g sid) then Some \<lparr> seal_session = sid, seal_count = ss_index (session_of g sid) \<rparr> else None)"

definition registry_chain :: "crypto \<Rightarrow> gatewayService \<Rightarrow> bool" where
  "registry_chain C g \<longleftrightarrow>
     (\<exists>d w. gw_log g = LogAt d \<and> engineWalk C d (st_publicKey (gw_store g)) = Inr w \<and> rw_seals w = seal_of g)"

definition recorded :: "crypto \<Rightarrow> run \<Rightarrow> bool" where
  "recorded C r \<longleftrightarrow>
     service_ok C (rn_service r) \<and> distinct (map fst (gw_receipts (rn_service r))) \<and>
     (\<forall>sid. \<exists>cores rs. session_chain C (rn_service r) sid cores rs) \<and>
     (\<forall>sid. ss_created (session_of (rn_service r) sid) \<or> ss_sealed (session_of (rn_service r) sid) \<longrightarrow>
        has_directory (rn_service r) sid) \<and>
     (\<forall>sid. gw_sessions (rn_service r) sid \<noteq> None \<and> count (held r) sid = 0 \<longrightarrow> has_directory (rn_service r) sid) \<and>
     registry_chain C (rn_service r)"

lemma recordedD:
  assumes "recorded C r"
  shows "service_ok C (rn_service r)" "distinct (map fst (gw_receipts (rn_service r)))"
    "\<exists>cores rs. session_chain C (rn_service r) sid cores rs"
    "ss_created (session_of (rn_service r) sid) \<or> ss_sealed (session_of (rn_service r) sid) \<Longrightarrow>
       has_directory (rn_service r) sid"
    "gw_sessions (rn_service r) sid \<noteq> None \<Longrightarrow> count (held r) sid = 0 \<Longrightarrow> has_directory (rn_service r) sid"
    "registry_chain C (rn_service r)"
  using assms unfolding recorded_def by blast+

text \<open>What a session's chain depends on.\<close>

lemma session_chain_cong:
  assumes "session_chain C g sid cores rs" and "gw_store g' = gw_store g" "gw_receiptVersion g' = gw_receiptVersion g"
    and "files_of g' sid = files_of g sid"
    and "\<And>digest. retained C (ev_artifacts (evidence_of g)) digest \<Longrightarrow> retained C (ev_artifacts (evidence_of g')) digest"
    and "ss_index (session_of g' sid) = ss_index (session_of g sid)" "ss_prev (session_of g' sid) = ss_prev (session_of g sid)"
  shows "session_chain C g' sid cores rs"
  using assms(1) chain_recorded_retained [OF _ assms(5)] unfolding session_chain_def assms(2-4,6,7) by blast

lemma registry_chain_cong:
  assumes "registry_chain C g" and "gw_store g' = gw_store g" "gw_log g' = gw_log g" and "seal_of g' = seal_of g"
  shows "registry_chain C g'"
  using assms by (simp add: registry_chain_def)

text \<open>A step that writes nothing, and leaves every session where it was.\<close>

lemma recorded_same:
  assumes "recorded C r" and "service_ok C (rn_service r')"
    and "gw_receipts (rn_service r') = gw_receipts (rn_service r)" "gw_artifacts (rn_service r') = gw_artifacts (rn_service r)"
      "gw_log (rn_service r') = gw_log (rn_service r)" "gw_store (rn_service r') = gw_store (rn_service r)"
      "gw_receiptVersion (rn_service r') = gw_receiptVersion (rn_service r)"
    and at: "\<And>sid. ss_index (session_of (rn_service r') sid) = ss_index (session_of (rn_service r) sid) \<and>
        ss_prev (session_of (rn_service r') sid) = ss_prev (session_of (rn_service r) sid) \<and>
        ss_sealed (session_of (rn_service r') sid) = ss_sealed (session_of (rn_service r) sid) \<and>
        ss_created (session_of (rn_service r') sid) = ss_created (session_of (rn_service r) sid)"
    and quiet: "\<And>sid. gw_sessions (rn_service r') sid \<noteq> None \<Longrightarrow> count (held r') sid = 0 \<Longrightarrow> has_directory (rn_service r) sid"
  shows "recorded C r'"
proof -
  let ?g = "rn_service r" and ?g' = "rn_service r'"
  have same: "files_of ?g' sid = files_of ?g sid" "has_directory ?g' sid = has_directory ?g sid"
    "ev_artifacts (evidence_of ?g') = ev_artifacts (evidence_of ?g)" "seal_of ?g' = seal_of ?g" for sid
    using assms(3,4) at by (auto simp: files_of_def has_directory_def ev_artifacts_of seal_of_def fun_eq_iff)
  have "\<exists>cores rs. session_chain C ?g' sid cores rs" for sid
    using recordedD(3) [OF assms(1), of sid] session_chain_cong [of C ?g sid _ _ ?g'] at [of sid] same assms(6,7) by metis
  moreover have "registry_chain C ?g'"
    using registry_chain_cong [OF recordedD(6) [OF assms(1)]] same assms(5,6) by blast
  ultimately show ?thesis
    unfolding recorded_def using assms(1-3) at quiet same by (auto simp: recorded_def)
qed

section \<open>A read is minted\<close>

lemma stamp_signature_text:
  assumes "own_store C st"
  shows "valid_utf8 (stamp_signature C st core)" and "stamp_signature C st core \<noteq> []"
proof -
  have "length (stamp_signature C st core) = 128"
    using assms by (simp add: own_store_def signs_ok_def stamp_signature_def)
  then show "stamp_signature C st core \<noteq> []" by auto
qed (simp add: stamp_signature_def)

lemma chain_signature:
  assumes "chain_recorded C st E authority sid cores rs" and "own_store C st" and "rs \<noteq> []"
  shows "valid_utf8 (r_signature (last rs))" and "r_signature (last rs) \<noteq> []"
proof -
  have len: "length rs = length cores" using assms(1) by (simp add: chain_recorded_def)
  let ?n = "length cores - 1"
  have "?n < length cores" using len assms(3) by (cases cores) auto
  then have ok: "record_ok C st E authority sid ?n (cores ! ?n) (rs ! ?n)" using assms(1) unfolding chain_recorded_def by blast
  have last: "last rs = rs ! ?n" using assms(3) len by (simp add: last_conv_nth)
  have "r_signature (last rs) = stamp_signature C st (stamp_core st (cores ! ?n))"
    unfolding last using ok by (intro stamped_signing_input(2) [OF _ assms(2)]) (simp_all add: record_ok_def)
  then show "valid_utf8 (r_signature (last rs))" "r_signature (last rs) \<noteq> []"
    using stamp_signature_text [OF assms(2)] by simp_all
qed

lemma built_plain:
  assumes "input_ok inp" and "in_version inp = receiptVersion3 \<Longrightarrow> obj_get (in_detail inp) ''descriptorProvenance'' = None"
  shows "\<not> names_descriptors (stamped C st (buildReceipt C inp))"
proof (cases "in_version inp = receiptVersion3")
  case True
  have "in_kind inp = ''acquisition'' \<or> in_kind inp = ''action''"
    using assms(1) True by (auto simp: input_ok_def detail_ok_def)
  then show ?thesis
    using built_get3(5,7) [OF assms(1) True, of C st] assms(2) [OF True]
    by (auto simp: names_descriptors_def present_def)
next
  case False
  then show ?thesis
    by (simp add: names_descriptors_def built_get [OF assms(1)] built_common_def built_own_def)
qed

text \<open>The receipt of a read continues its session's chain.\<close>

lemma read_continues:
  assumes ok: "service_ok C g" and chain: "session_chain C g (mt_session m) cores rs"
    and read: "read_ok g spec rq out now" "read_minting C g keys spec rq out now drawn salt statementSalt = Some m"
    and kept: "retained C (ev_artifacts E) (digest_of C d)"
      "\<And>digest. retained C (ev_artifacts (evidence_of g)) digest \<Longrightarrow> retained C (ev_artifacts E) digest"
  defines "core \<equiv> buildReceipt C (receipt_input g m (digest_of C d))"
  obtains r where "chain_recorded C (gw_store g) E (st_authority (gw_store g)) (mt_session m) (cores @ [core]) (rs @ [r])"
    "r_version r = gw_receiptVersion g" "r_signature r = stamp_signature C (gw_store g) (stamp_core (gw_store g) core)"
proof -
  let ?st = "session_of g (mt_session m)" and ?inp = "receipt_input g m (digest_of C d)"
  have own: "own_store C (gw_store g)" and version: "gw_receiptVersion g = receiptVersion \<or> gw_receiptVersion g = receiptVersion3"
    and authority: "valid_utf8 (st_authority (gw_store g))" using ok by (auto simp: service_ok_def)
  have at: "ss_index ?st = int (length cores)" "ss_index ?st \<le> maxSafeInteger"
    "ss_prev ?st = (if rs = [] then [] else r_signature (last rs))" "\<forall>r \<in> set rs. r_version r = gw_receiptVersion g"
    and recorded: "chain_recorded C (gw_store g) (evidence_of g) (st_authority (gw_store g)) (mt_session m) cores rs"
    using chain by (simp_all add: session_chain_def)
  have prev: "valid_utf8 (ss_prev ?st)" "ss_prev ?st = [] \<longleftrightarrow> rs = []"
    using chain_signature [OF recorded own] by (simp_all add: at(3) valid_utf8_ascii)
  have "0 \<le> ss_index ?st" by (simp add: at(1))
  note inp = read_input_ok [OF read version this at(2) prev(1) authority]
  have minted: "mt_version m = gw_receiptVersion g" "mt_kind m = ''acquisition''"
    using read(2) by (auto simp: read_minting_def Option.bind_eq_Some_conv)
  obtain r where built: "receiptFrom (stamped C (gw_store g) core) = Some r"
    "r_version r = in_version ?inp" "r_sessionID r = in_sessionID ?inp" "r_callIndex r = in_callIndex ?inp"
    "r_authority r = in_authority ?inp" "r_resultDigest r = in_resultDigest ?inp"
    "r_prevSignature r = (if in_prevSignature ?inp = [] then None else Some (in_prevSignature ?inp))"
    "r_signature r = stamp_signature C (gw_store g) (stamp_core (gw_store g) core)"
    "r_kind r = (if in_version ?inp = receiptVersion3 then in_kind ?inp else [])" "r_reconciliation r = None"
    unfolding core_def by (rule built_receipt [OF inp(1) own])
  then have r: "receiptFrom (stamped C (gw_store g) core) = Some r"
    "r_version r = gw_receiptVersion g" "r_sessionID r = mt_session m" "r_callIndex r = int (length cores)"
    "r_authority r = st_authority (gw_store g)" "r_resultDigest r = digest_of C d"
    "r_prevSignature r = (if rs = [] then None else Some (r_signature (last rs)))"
    "r_signature r = stamp_signature C (gw_store g) (stamp_core (gw_store g) core)"
    "r_kind r \<noteq> ''action''" "r_reconciliation r = None"
    using prev(2) at minted by (simp_all add: receipt_input_def)
  have "stampable core" unfolding core_def by (rule built_stampable [OF inp(1)])
  moreover have "\<not> names_descriptors (stamped C (gw_store g) core)"
    unfolding core_def by (rule built_plain [OF inp(1)]) (use inp(2) minted in \<open>simp add: receipt_input_def\<close>)
  ultimately have "record_ok C (gw_store g) E (st_authority (gw_store g)) (mt_session m) (length cores) core r"
    using r version at(1,2) kept(1) [unfolded retained_def] unfolding record_ok_def by simp
  then show thesis
    using that [of r] chain_recorded_snoc [OF chain_recorded_retained [OF recorded kept(2)]] r at(4) by simp
qed

text \<open>A step that writes in one session held by a request.\<close>

lemma recorded_write:
  assumes rec: "recorded C r" and held: "held r' = held r" "sid \<in># held r"
    and same: "gw_log (rn_service r') = gw_log (rn_service r)" "gw_store (rn_service r') = gw_store (rn_service r)"
      "gw_registry (rn_service r') = gw_registry (rn_service r)"
      "gw_receiptVersion (rn_service r') = gw_receiptVersion (rn_service r)"
    and receipts: "gw_receipts (rn_service r') = gw_receipts (rn_service r) \<or>
        gw_receipts (rn_service r') = AList.update sid fs (gw_receipts (rn_service r))"
    and kept: "\<And>digest. retained C (ev_artifacts (evidence_of (rn_service r))) digest \<Longrightarrow>
        retained C (ev_artifacts (evidence_of (rn_service r'))) digest"
    and sessions: "gw_sessions (rn_service r') = gw_sessions (rn_service r) \<or>
        gw_sessions (rn_service r') = (gw_sessions (rn_service r))(sid \<mapsto> st)"
    and chain: "session_chain C (rn_service r') sid cores rs"
    and sealed: "\<not> ss_sealed (session_of (rn_service r) sid)" "\<not> ss_sealed (session_of (rn_service r') sid)"
    and made: "ss_created (session_of (rn_service r') sid) \<Longrightarrow> has_directory (rn_service r') sid"
  shows "recorded C r'"
proof -
  let ?g = "rn_service r" and ?g' = "rn_service r'"
  have others: "session_of ?g' s = session_of ?g s" "files_of ?g' s = files_of ?g s"
    "gw_sessions ?g' s = gw_sessions ?g s" if "s \<noteq> sid" for s
    using that sessions receipts by (auto simp: session_of_def files_of_def update_conv')
  have dirs: "has_directory ?g s \<Longrightarrow> has_directory ?g' s" for s
    using receipts by (auto simp: has_directory_def update_conv')
  have ok: "service_ok C ?g'" using recordedD(1) [OF rec] same by (simp add: service_ok_def)
  have distinct: "distinct (map fst (gw_receipts ?g'))"
    using recordedD(2) [OF rec] receipts distinct_update by metis
  have chains: "\<exists>cores rs. session_chain C ?g' s cores rs" for s
  proof (cases "s = sid")
    case True
    with chain show ?thesis by blast
  next
    case False
    from recordedD(3) [OF rec, of s] obtain cores rs where "session_chain C ?g s cores rs" by blast
    from session_chain_cong [OF this same(2,4) others(2) kept] others(1) False show ?thesis by metis
  qed
  have "seal_of ?g' = seal_of ?g" using others(1) sealed by (metis seal_of_def ext)
  with registry_chain_cong [OF recordedD(6) [OF rec] same(2,1)] have registry: "registry_chain C ?g'" by blast
  have "has_directory ?g' s" if "ss_created (session_of ?g' s) \<or> ss_sealed (session_of ?g' s)" for s
    using that made sealed(2) others(1) [of s] recordedD(4) [OF rec, of s] dirs by (cases "s = sid") auto
  moreover have "has_directory ?g' s" if "gw_sessions ?g' s \<noteq> None" "count (held r') s = 0" for s
  proof -
    have "s \<noteq> sid" using that(2) held by (auto simp: count_eq_zero_iff)
    with that held(1) others(3) recordedD(5) [OF rec, of s] show ?thesis by (intro dirs) simp
  qed
  ultimately show ?thesis unfolding recorded_def using ok distinct chains registry by blast
qed

lemma mint_recorded:
  assumes rec: "recorded C \<lparr> rn_service = g, rn_running = R, rn_ending = E \<rparr>"
    and ok: "run_ok \<lparr> rn_service = g, rn_running = R, rn_ending = E \<rparr>" and "mt_session m \<in># R"
    and read: "read_ok g spec rq out now" "read_minting C g keys spec rq out now drawn salt statementSalt = Some m"
    and room: "ss_index (session_of g (mt_session m)) < maxSafeInteger"
    and run: "mint C x env m g = (answer, g')" and kind: "mt_kind m = ''acquisition'' \<or> mt_kind m = ''action''"
  shows "recorded C \<lparr> rn_service = g', rn_running = R - {#mt_session m#}, rn_ending = add_mset (mt_session m) E \<rparr>"
proof -
  let ?r = "\<lparr> rn_service = g, rn_running = R, rn_ending = E \<rparr>"
  let ?r' = "\<lparr> rn_service = g', rn_running = R - {#mt_session m#}, rn_ending = add_mset (mt_session m) E \<rparr>"
  let ?sid = "mt_session m"
  have held: "held ?r' = held ?r" "?sid \<in># held ?r"
    using assms(3) by (simp_all add: held_def flip: union_mset_add_mset_left)
  have unsealed: "\<not> ss_sealed (session_of g ?sid)"
    using run_okD(3) [OF ok, of ?sid] held(2) by (cases "gw_sessions g ?sid") (auto simp: session_of_def new_session_def count_eq_zero_iff)
  have sok: "service_ok C g" using recordedD(1) [OF rec] by simp
  obtain cores rs where chain: "session_chain C g ?sid cores rs" using recordedD(3) [OF rec, of ?sid] by auto
  from run kind show ?thesis
  proof (cases rule: mint_cases)
    case (Refused e)
    show ?thesis by (rule recorded_same [OF rec]) (use Refused sok recordedD(5) [OF rec] held in simp_all)
  next
    case (Failed e artifacts)
    have put: "fsBlobs_putBlob C env (canon (mt_result m)) (gw_artifacts g) = (Inr (digest_of C (canon (mt_result m))), gw_artifacts g')"
      using Failed by auto
    have s: "session_of g' s = session_of g s" for s using Failed(3) by (auto simp: session_of_def)
    have f: "files_of g' ?sid = files_of g ?sid" using Failed(3) by (auto simp: files_of_def update_conv')
    have "has_directory g ?sid \<Longrightarrow> has_directory g' ?sid" using Failed(3) by (auto simp: has_directory_def)
    moreover have "session_chain C g' ?sid cores rs"
      by (rule session_chain_cong [OF chain _ _ f put_retains(2) [OF put]]) (use Failed(3) s in auto)
    ultimately show ?thesis
      using Failed(3) unsealed recordedD(4) [OF rec, of ?sid] put_retains(2) [OF put] s
      by (intro recorded_write [OF rec held, where fs = "[]" and cores = cores and rs = rs]) auto
  next
    case (Minted fs artifacts core signature)
    let ?st = "session_of g ?sid"
    have put: "fsBlobs_putBlob C env (canon (mt_result m)) (gw_artifacts g) = (Inr (digest_of C (canon (mt_result m))), gw_artifacts g')"
      using Minted by simp
    note kept = put_retains [OF put]
    obtain r where r: "chain_recorded C (gw_store g) (evidence_of g') (st_authority (gw_store g)) ?sid (cores @ [core]) (rs @ [r])"
      "r_version r = gw_receiptVersion g" "r_signature r = signature"
      using read_continues [OF sok chain read kept(1) kept(2)] unfolding Minted(1,2) by blast
    have fs: "fs = files_of g ?sid" using Minted(7) by (simp add: files_of_def)
    have at: "ss_index ?st = int (length cores)" using chain by (simp add: session_chain_def)
    have "holds_chain C (gw_store g) (cores @ [core]) (session_files (files_of g' ?sid))"
      using holds_chain_snoc [of C "gw_store g" cores fs core] chain Minted(8,9) fs at
      by (simp add: session_chain_def files_of_def update_conv')
    then have "session_chain C g' ?sid (cores @ [core]) (rs @ [r])"
      using r chain room Minted(9) by (auto simp: session_chain_def session_of_def)
    then show ?thesis
      using Minted(9) unsealed kept(2)
      by (intro recorded_write [OF rec held, where cores = "cores @ [core]" and rs = "rs @ [r]"])
        (auto simp: session_of_def has_directory_def update_conv')
  qed
qed

section \<open>The other steps\<close>

lemma seal_recorded:
  assumes rec: "recorded C \<lparr> rn_service = g, rn_running = R, rn_ending = E \<rparr>"
    and ok: "run_ok \<lparr> rn_service = g, rn_running = R, rn_ending = E \<rparr>"
    and run: "sealSession C l now sid g = (answer, g')" and "valid_utf8 now"
    and whole: "\<And>e. answer \<noteq> Inl (SealFailed (SealMayBeWritten e))"
  shows "recorded C \<lparr> rn_service = g', rn_running = R, rn_ending = E \<rparr>"
proof -
  let ?r = "\<lparr> rn_service = g, rn_running = R, rn_ending = E \<rparr>"
  let ?r' = "\<lparr> rn_service = g', rn_running = R, rn_ending = E \<rparr>"
  have sok: "own_store C (gw_store g)" "gw_registry g = own_writer C (st_seed (gw_store g))"
    using recordedD(1) [OF rec] by (simp_all add: service_ok_def)
  have pub: "st_publicKey (gw_store g) = ed_public C (st_seed (gw_store g))" using sok(1) by (simp add: own_store_def)
  obtain d w where log: "gw_log g = LogAt d" "engineWalk C d (st_publicKey (gw_store g)) = Inr w" "rw_seals w = seal_of g"
    using recordedD(6) [OF rec] by (auto simp: registry_chain_def)
  have rd: "readLog (fsLog_ops l) 0 (gw_log g) = Inr d" by (simp add: fsLog_ops_def log(1))
  note parts = recordedD [OF rec]
  from run show ?thesis
  proof (cases rule: seal_session_cases)
    case Refused
    with rec show ?thesis by simp
  next
    case (Failed log' st e)
    from fs_log.seal_refused_unread [OF Failed(4) rd Failed(5)] obtain d' where
      "log' = LogAt d'" "engineWalk C d' (st_publicKey (gw_store g)) = Inr w"
      using log(2) by (metis fsLog_ops_def fsLog_read_0 appendLog.select_convs(2))
    moreover have "seal_of g' = seal_of g" using Failed(6) by (simp add: seal_of_def session_of_def fun_eq_iff)
    ultimately have "registry_chain C g'" using log(3) Failed(6) by (simp add: registry_chain_def)
    moreover have "session_chain C g' s = session_chain C g s" for s
      unfolding Failed(6) by (simp add: session_chain_def files_of_def session_of_def evidence_of_def fun_eq_iff)
    moreover have same: "session_of (g\<lparr> gw_log := log' \<rparr>) = session_of g"
      "has_directory (g\<lparr> gw_log := log' \<rparr>) = has_directory g" "service_ok C (g\<lparr> gw_log := log' \<rparr>) = service_ok C g"
      "held \<lparr> rn_service = g\<lparr> gw_log := log' \<rparr>, rn_running = R, rn_ending = E \<rparr> = held ?r"
      by (simp_all add: session_of_def has_directory_def service_ok_def held_def fun_eq_iff)
    ultimately show ?thesis
      using rec unfolding recorded_def Failed(6) same by (simp add: same)
  next
    case (Shut log' st a)
    then obtain written where a: "a = Inr written" using whole by auto
    have st: "session_of g sid = st" using Shut(1) by (simp add: session_of_def)
    have "in_safe_range (ss_index st)"
      using parts(3) [of sid] st by (auto simp: session_chain_def in_safe_range_def minSafeInteger_def)
    from fs_log.seal_loads [OF Shut(4) [unfolded a sok(2)] rd _ this assms(4)] sok(1)
    obtain w' d' where w': "readLog (fsLog_ops l) 0 log' = Inr d'" "engineWalk C d' (st_publicKey (gw_store g)) = Inr w'"
      "rw_seals w' = (rw_seals w)(sid \<mapsto> \<lparr> seal_session = sid, seal_count = ss_index st \<rparr>)"
      using log(2) by (auto simp: own_store_def)
    have log': "log' = LogAt d'" using w'(1) by (simp add: fsLog_ops_def)
    have same: "session_of g' s = (if s = sid then st\<lparr> ss_sealed := True \<rparr> else session_of g s)" for s
      using Shut(6) by (simp add: session_of_def)
    have "rw_seals w' = seal_of g'" using w'(3) log(3) same by (auto simp: seal_of_def fun_eq_iff)
    then have registry: "registry_chain C g'" using w'(2) log' Shut(6) by (simp add: registry_chain_def)
    have chains: "session_chain C g' s cores rs" if "session_chain C g s cores rs" for s cores rs
      by (rule session_chain_cong [OF that]) (use Shut(6) same st in \<open>auto simp: files_of_def ev_artifacts_of\<close>)
    have dirs: "has_directory g' s = has_directory g s" for s using Shut(6) by (simp add: has_directory_def)
    have "count (held ?r) sid = 0" using run_okD(3) [OF ok, of sid] Shut(1,2) by simp
    then have "has_directory g sid" using parts(5) [of sid] Shut(1) by simp
    then have made: "has_directory g' s" if "ss_created (session_of g' s) \<or> ss_sealed (session_of g' s)" for s
      using that parts(4) [of s] dirs same by (cases "s = sid") auto
    have quiet: "has_directory g' s" if "gw_sessions g' s \<noteq> None" "count (held ?r') s = 0" for s
      using that parts(5) [of s] dirs Shut(1,6) \<open>has_directory g sid\<close> by (cases "s = sid") (auto simp: held_def)
    have "service_ok C g'" "distinct (map fst (gw_receipts g'))"
      using parts(1,2) Shut(6) by (simp_all add: service_ok_def)
    with registry made quiet parts(3) chains show ?thesis
      unfolding recorded_def by simp blast
  qed
qed

lemma release_recorded:
  assumes rec: "recorded C \<lparr> rn_service = g, rn_running = R, rn_ending = E \<rparr>"
    and ok: "run_ok \<lparr> rn_service = g, rn_running = R, rn_ending = E \<rparr>" and "sid \<in># E"
  shows "recorded C \<lparr> rn_service = release sid g, rn_running = R, rn_ending = E - {#sid#} \<rparr>"
proof -
  let ?r = "\<lparr> rn_service = g, rn_running = R, rn_ending = E \<rparr>"
  have "count (held ?r) sid \<noteq> 0" using assms(3) by (simp add: held_def)
  then obtain st where st: "gw_sessions g sid = Some st" "\<not> ss_sealed st" "ss_inFlight st = int (count (held ?r) sid)"
    using run_okD(3) [OF ok, of sid] by (cases "gw_sessions g sid") (auto simp: count_eq_zero_iff)
  note parts = recordedD [OF rec, simplified]
  let ?st = "st\<lparr> ss_inFlight := ss_inFlight st - 1 \<rparr>"
  let ?gone = "ss_inFlight ?st \<le> 0 \<and> ss_index st = 0 \<and> \<not> ss_created st"
  have release: "gw_sessions (release sid g) = (gw_sessions g)(sid := (if ?gone then None else Some ?st))"
    using st by (auto simp: release_def Let_def fun_eq_iff)
  obtain cores rs where chain: "session_chain C g sid cores rs" using parts(3) by blast
  have len: "length rs = length cores" using chain by (simp add: session_chain_def chain_recorded_def)
  have start: "ss_prev st = []" if "ss_index st = 0"
    using chain len that st by (auto simp: session_chain_def session_of_def)
  have dir: "has_directory g sid" if "ss_index st \<noteq> 0"
  proof (rule ccontr)
    assume "\<not> has_directory g sid"
    then have "files_of g sid = []" by (simp add: has_directory_def files_of_def)
    with chain have "cores = []" by (auto simp: session_chain_def holds_chain_def session_files_def)
    with chain that st show False by (auto simp: session_chain_def session_of_def)
  qed
  show ?thesis
  proof (rule recorded_same [OF rec])
    fix s
    show "ss_index (session_of (rn_service \<lparr> rn_service = release sid g, rn_running = R, rn_ending = E - {#sid#} \<rparr>) s) =
          ss_index (session_of (rn_service ?r) s) \<and>
        ss_prev (session_of (rn_service \<lparr> rn_service = release sid g, rn_running = R, rn_ending = E - {#sid#} \<rparr>) s) =
          ss_prev (session_of (rn_service ?r) s) \<and>
        ss_sealed (session_of (rn_service \<lparr> rn_service = release sid g, rn_running = R, rn_ending = E - {#sid#} \<rparr>) s) =
          ss_sealed (session_of (rn_service ?r) s) \<and>
        ss_created (session_of (rn_service \<lparr> rn_service = release sid g, rn_running = R, rn_ending = E - {#sid#} \<rparr>) s) =
          ss_created (session_of (rn_service ?r) s)"
      using st start by (auto simp: session_of_def release new_session_def)
    assume known: "gw_sessions (rn_service \<lparr> rn_service = release sid g, rn_running = R, rn_ending = E - {#sid#} \<rparr>) s \<noteq> None"
      and none: "count (held \<lparr> rn_service = release sid g, rn_running = R, rn_ending = E - {#sid#} \<rparr>) s = 0"
    show "has_directory (rn_service ?r) s"
    proof (cases "s = sid")
      case True
      with none have "count R sid + (count E sid - 1) = 0" by (simp add: held_def)
      moreover have "1 \<le> count E sid" using assms(3) by simp
      ultimately have "count (held ?r) sid = 1" unfolding held_def run.simps count_union by linarith
      with known True st dir parts(4) [of sid] show ?thesis
        by (auto simp: release session_of_def split: if_splits)
    next
      case False
      with known none parts(5) [of s] show ?thesis by (simp add: release held_def)
    qed
  qed (use parts(1) in \<open>simp_all add: release_other service_ok_def\<close>)
qed

lemma admit_recorded:
  assumes rec: "recorded C \<lparr> rn_service = g, rn_running = R, rn_ending = E \<rparr>" and run: "admit sid g = (Inr (), g')"
  shows "recorded C \<lparr> rn_service = g', rn_running = add_mset sid R, rn_ending = E \<rparr>"
  using run
proof (cases rule: admit_cases)
  case In
  note parts = recordedD [OF rec, simplified]
  show ?thesis
    by (rule recorded_same [OF rec])
      (use In parts in \<open>auto simp: session_of_def service_ok_def held_def split: if_splits\<close>)
qed simp_all

lemma step_recorded:
  assumes "step C ReadsAlone r r'" and rec: "recorded C r" and ok: "run_ok r"
  shows "recorded C r'"
  using assms(1)
proof (cases rule: step.cases)
  case (Admit sid g g' R E)
  with rec show ?thesis by (auto intro: admit_recorded)
next
  case (Admit_refused sid g e g' R E)
  from Admit_refused(4) have "gw_sessions g' = gw_sessions g" "g' = g\<lparr> gw_sessions := gw_sessions g' \<rparr>"
    by (cases rule: admit_cases; simp add: put_session_def put_sealed)+
  then have "g' = g" by (metis gatewayService.surjective gatewayService.update_convs(6))
  with Admit_refused rec show ?thesis by simp
next
  case (Fail sid R g E)
  then have "held r' = held r" by (simp add: held_def flip: union_mset_add_mset_left)
  with Fail rec show ?thesis by (simp add: recorded_def)
next
  case (Mint m R g spec rq out now keys drawn salt statementSalt x env answer g' E)
  with rec ok show ?thesis by (auto intro!: mint_recorded)
next
  case (Release sid E g R)
  with rec ok show ?thesis by (auto intro: release_recorded)
next
  case (Seal l now sid g answer g' R E)
  have "recorded C \<lparr> rn_service = g', rn_running = R, rn_ending = E \<rparr>"
    by (rule seal_recorded [OF rec [unfolded Seal(1)] ok [unfolded Seal(1)] Seal(3)]) (use Seal(4) in auto)
  with Seal(2) show ?thesis by simp
next
  case (Close g R E)
  then show ?thesis
    using recordedD [OF rec]
    by (intro recorded_same [OF rec]) (auto simp: closeAdmission_def session_of_def service_ok_def held_def)
next
  case (Open g R E)
  then show ?thesis
    using recordedD [OF rec]
    by (intro recorded_same [OF rec]) (auto simp: openAdmission_def session_of_def service_ok_def held_def)
qed simp_all

lemma steps_recorded: "(step C ReadsAlone)\<^sup>*\<^sup>* r r' \<Longrightarrow> recorded C r \<Longrightarrow> run_ok r \<Longrightarrow> recorded C r'"
proof (induction rule: rtranclp_induct)
  case (step r' r'')
  then show ?case using step_recorded steps_ok by blast
qed simp

text \<open>A store in which nothing has been minted or sealed.\<close>

definition new_store :: "crypto \<Rightarrow> gatewayService \<Rightarrow> bool" where
  "new_store C g \<longleftrightarrow>
     service_ok C g \<and> gw_receipts g = [] \<and>
     (case gw_log g of
        LogAt d \<Rightarrow>
          (case engineWalk C d (st_publicKey (gw_store g)) of Inr w \<Rightarrow> rw_order w = [] | Inl _ \<Rightarrow> False)
      | _ \<Rightarrow> False)"

lemma engineWalk_order: "engineWalk C d own = Inr w \<Longrightarrow> set (rw_order w) = dom (rw_seals w)"
  using walk_for_order [of C True d own w] by (simp add: walk_for_def)

lemma new_store_recorded:
  assumes "fresh r" and "new_store C (rn_service r)"
  shows "recorded C r"
proof -
  let ?g = "rn_service r"
  have f: "gw_sessions ?g = Map.empty" "rn_running r = {#}" "rn_ending r = {#}" using assms(1) by (simp_all add: fresh_def)
  have n: "service_ok C ?g" "gw_receipts ?g = []" using assms(2) by (simp_all add: new_store_def)
  from assms(2) obtain d w where log: "gw_log ?g = LogAt d" "engineWalk C d (st_publicKey (gw_store ?g)) = Inr w" "rw_order w = []"
    by (auto simp: new_store_def split: log_file.splits sum.splits)
  have new: "session_of ?g sid = new_session" for sid using f(1) by (simp add: session_of_def)
  have "rw_seals w = Map.empty" using engineWalk_order [OF log(2)] log(3) by auto
  then have "registry_chain C ?g"
    unfolding registry_chain_def using log(1,2) by (auto simp: seal_of_def new new_session_def fun_eq_iff)
  moreover have "session_chain C ?g sid [] []" for sid
    by (simp add: session_chain_def files_of_def n(2) session_files_def holds_chain_def chain_recorded_def new
        new_session_def maxSafeInteger_def)
  ultimately show ?thesis
    unfolding recorded_def using n f(1) by (auto simp: new new_session_def)
qed

section \<open>What the signer wrote verifies\<close>

lemma recorded_verifies:
  assumes rec: "recorded C r" and sealed: "\<And>sid. has_directory (rn_service r) sid \<Longrightarrow> ss_sealed (session_of (rn_service r) sid)"
    and registry: "requirePlainSpelling reg True" "gw_log (rn_service r) = LogAt data" "readRegistryOf F reg True = Some data"
  shows "\<exists>rep. verifyAsEngine C F (evidence_of (rn_service r)) reg (st_authority (gw_store (rn_service r))) [] tree
      (st_publicKey (gw_store (rn_service r))) = Some rep \<and> rp_ok rep"
proof -
  let ?g = "rn_service r"
  note parts = recordedD [OF rec]
  have own: "own_store C (gw_store ?g)" using parts(1) by (simp add: service_ok_def)
  obtain w where w: "engineWalk C data (st_publicKey (gw_store ?g)) = Inr w" "rw_seals w = seal_of ?g"
    using parts(6) registry(2) by (auto simp: registry_chain_def)
  have id: "st_keyID (gw_store ?g) = keyIDFor C (st_publicKey (gw_store ?g))" using own by (simp add: own_store_def)
  obtain pos where pos: "key_position (rw_keys w) (st_keyID (gw_store ?g)) = Some pos"
    "rk_key (rw_keys w ! pos) = st_publicKey (gw_store ?g)"
    unfolding id using engineWalk_own_key [OF w(1)] by blast
  define sessions where "sessions = sort_key fst (map (\<lambda>(sid, fs). (sid, SessionFiles (session_files fs))) (gw_receipts ?g))"
  have list: "listSessions (evidence_of ?g) = Some sessions"
    by (simp add: listSessions_def evidence_of_def sessions_def filter_map comp_def case_prod_beta)
  have names: "fst ` set sessions = {sid. has_directory ?g sid}"
    by (auto simp: sessions_def has_directory_def image_image case_prod_beta map_of_eq_None_iff)
  have "store_recorded C (gw_store ?g) (evidence_of ?g) (st_authority (gw_store ?g)) (rw_seals w) sessions"
    unfolding store_recorded_def
  proof (intro conjI ballI, clarify)
    fix sid entry assume "(sid, entry) \<in> set sessions"
    then obtain fs where fs: "(sid, fs) \<in> set (gw_receipts ?g)" "entry = SessionFiles (session_files fs)"
      by (auto simp: sessions_def)
    then have dir: "map_of (gw_receipts ?g) sid = Some fs" using parts(2) by simp
    then have "ss_sealed (session_of ?g sid)" by (intro sealed) (simp add: has_directory_def)
    moreover obtain cores rs where "session_chain C ?g sid cores rs" using parts(3) by blast
    ultimately show "\<exists>entries cores rs s. entry = SessionFiles entries \<and>
        holds_chain C (gw_store ?g) cores entries \<and>
        chain_recorded C (gw_store ?g) (evidence_of ?g) (st_authority (gw_store ?g)) sid cores rs \<and>
        rw_seals w sid = Some s \<and> seal_count s = int (length cores)"
      using dir fs(2) unfolding w(2) session_chain_def files_of_def seal_of_def by auto
  next
    show "dom (rw_seals w) \<subseteq> fst ` set sessions"
      unfolding names w(2) using parts(4) by (auto simp: seal_of_def split: if_splits)
  qed
  moreover have "rw_finding w = None" using w(1) by (auto simp: engineWalk_def Let_def split: option.splits if_splits)
  moreover have "length (st_publicKey (gw_store ?g)) = publicKeySize" using own by (simp add: own_store_def signs_ok_def)
  ultimately show ?thesis
    unfolding verifyAsEngine_def
    by (intro verify_recorded [OF registry(1) _ _ list registry(3) _ _ own pos])
      (use w(1) in \<open>simp_all add: evidence_of_def walk_for_def\<close>)
qed

end
