(* ===== verification/Sample_Run.thy ===== *)
theory Sample_Run
  imports Service_Chain Sample_Store
begin

text \<open>
  A concrete run: a signer on an empty store admits a read, mints its receipt, releases it and seals
  the session.  It is what the theorems about runs are applied to.
\<close>

definition sample_service :: gatewayService where
  "sample_service =
     \<lparr> gw_store = sample_store, gw_registry = own_writer sample_crypto sample_seed, gw_receiptVersion = ''2'',
       gw_witnessedBy = Map.empty, gw_gate = newAdmissionGate, gw_sessions = Map.empty, gw_receipts = [],
       gw_artifacts = Some [], gw_log = LogAt [] \<rparr>"

definition sample_start :: run where
  "sample_start = \<lparr> rn_service = sample_service, rn_running = {#}, rn_ending = {#} \<rparr>"

definition sample_spec :: sourceSpec where
  "sample_spec = \<lparr> sp_command = ''demo'', sp_shape = [], sp_provenance = None \<rparr>"

definition sample_request :: readRequest where
  "sample_request =
     \<lparr> rq_session = ''s1'', rq_source = ''demo'', rq_trail = [], rq_arguments = VObject [], rq_who = None \<rparr>"

definition sample_output :: sourceOutput where
  "sample_output =
     \<lparr> so_value = VArray [VInt 1], so_digest = digest_of sample_crypto ''program'', so_observedAt = sample_time \<rparr>"

definition sample_minting :: minting where
  "sample_minting =
     \<lparr> mt_version = ''2'', mt_session = ''s1'', mt_source = ''demo'', mt_arguments = canon (VObject []), mt_result = VArray [VInt 1],
       mt_who = None, mt_witness = None, mt_kind = ''acquisition'', mt_detail = [], mt_delegation = None,
       mt_reconciler = None, mt_now = sample_time, mt_seed = sample_seed, mt_drawn = True, mt_salt = ''salt'' \<rparr>"

definition sample_directory :: fsIndexed where
  "sample_directory = \<lparr> fsi_root = [''store'', ''receipts''], fsi_env = os_fine, fsi_mkroot = True, fsi_mkdir = True \<rparr>"

section \<open>Its steps\<close>

definition sample_admitted :: gatewayService where
  "sample_admitted =
     sample_service\<lparr> gw_gate := newAdmissionGate\<lparr> ag_pending := 1 \<rparr>,
       gw_sessions := [''s1'' \<mapsto> new_session\<lparr> ss_inFlight := 1 \<rparr>] \<rparr>"

lemma sample_admit: "admit ''s1'' sample_service = (Inr (), sample_admitted)"
  by (simp add: admit_def sample_service_def newAdmissionGate_def session_of_def new_session_def Let_def
      reserve_def put_session_def admitLocked_def sample_admitted_def)

lemma sample_returnable: "returnableResult (VArray [VInt 1])"
proof -
  have "canon (VArray [VInt 1]) = ''[1]''" by code_simp
  moreover have "json_value ''[1]'' = Some []" by code_simp
  ultimately show ?thesis by (simp add: returnableResult_def)
qed

lemma sample_read:
  "read_ok sample_admitted sample_spec sample_request sample_output sample_time"
  "read_minting sample_crypto sample_admitted [] sample_spec sample_request sample_output sample_time True ''salt'' [] =
     Some sample_minting"
  using sample_session sample_facts(4)
  by (simp_all add: read_ok_def sample_request_def sample_spec_def sample_output_def witnesses_ok_def sample_admitted_def
      sample_service_def maxNesting_def in_safe_range_def maxSafeInteger_def minSafeInteger_def wf_json.simps valid_utf8_ascii
      read_minting_def read_output_def read_detail_def receiptVersion3_def sample_minting_def sample_store_def newStoreOn_def)

definition sample_signed :: members where
  "sample_signed =
     buildReceipt sample_crypto (receipt_input sample_admitted sample_minting (digest_of sample_crypto (canon (VArray [VInt 1]))))"

definition sample_minted :: gatewayService where
  "sample_minted =
     sample_admitted\<lparr> gw_artifacts := Some [(hex_encode (sha256 sample_crypto (canon (VArray [VInt 1]))), canon (VArray [VInt 1]))],
       gw_receipts := [(''s1'', [(entry_file (format_int 0), stamped_bytes sample_crypto sample_store sample_signed)])],
       gw_sessions := [''s1'' \<mapsto> \<lparr> ss_index = 1, ss_prev = sample_signature sample_signed, ss_sealed = False,
         ss_inFlight = 1, ss_created = True \<rparr>] \<rparr>"

lemma sample_mint: "mint sample_crypto sample_directory os_fine sample_minting sample_admitted =
  (Inr (stamped sample_crypto sample_store sample_signed), sample_minted)"
proof -
  let ?d = "digest_of sample_crypto (canon (VArray [VInt 1]))"
  let ?inp = "receipt_input sample_admitted sample_minting ?d"
  have place: "obj_get sample_signed ''sessionId'' = Some (VString ''s1'')" "obj_get sample_signed ''callIndex'' = Some (VInt 0)"
    unfolding sample_signed_def using buildReceipt_place [of ?inp sample_crypto]
    by (simp_all add: receipt_input_def sample_minting_def sample_admitted_def session_of_def new_session_def)
  have dir: "seriesDir sample_directory ''s1'' = Some ''s1''"
    by (rule seriesDir_plain) (use requireSession_plain [OF sample_session] in simp)
  have stamp: "stampInto sample_crypto (fsIndexed_ops sample_directory) sample_store sample_signed [] =
      (Inr (stamped sample_crypto sample_store sample_signed, sample_signature sample_signed, True),
       [(''s1'', [(entry_file (format_int 0), stamped_bytes sample_crypto sample_store sample_signed)])])"
    using sample_session dir
    by (simp add: stampInto_def place fsIndexed_ops_def fsIndexed_makeSeries_def fsIndexed_createIndexed_def
        maxSafeInteger_def minSafeInteger_def Let_def fsWriteFile_fine stamped_def stamped_bytes_def sample_signature_def)
      (simp add: sample_directory_def fsWriteFile_fine)
  have put: "retain (fsBlobs sample_crypto os_fine) (canon (VArray [VInt 1])) (Some []) =
      (Inr ?d, Some [(hex_encode (sha256 sample_crypto (canon (VArray [VInt 1]))), canon (VArray [VInt 1]))])"
    by (simp add: retain_def fsBlobs_def fsBlobs_putBlob_def Let_def fsWriteFile_fine)
  have parts: "mt_result sample_minting = VArray [VInt 1]" "mt_session sample_minting = ''s1''"
    "mt_drawn sample_minting" "mt_kind sample_minting = ''acquisition''" "gw_artifacts sample_admitted = Some []" "gw_receipts sample_admitted = []" "gw_store sample_admitted = sample_store"
    by (simp_all add: sample_minting_def sample_admitted_def sample_service_def)
  have same: "receipt_input (sample_admitted\<lparr> gw_artifacts := a \<rparr>) sample_minting ?d = ?inp" for a
    by (simp add: receipt_input_def session_of_def)
  have "mint sample_crypto sample_directory os_fine sample_minting sample_admitted =
      (Inr (stamped sample_crypto sample_store sample_signed),
       put_session ''s1'' ((session_of sample_admitted ''s1'')\<lparr> ss_index := 1, ss_prev := sample_signature sample_signed,
           ss_created := True \<rparr>) (sample_admitted\<lparr>
         gw_artifacts := Some [(hex_encode (sha256 sample_crypto (canon (VArray [VInt 1]))), canon (VArray [VInt 1]))],
         gw_receipts := [(''s1'', [(entry_file (format_int 0), stamped_bytes sample_crypto sample_store sample_signed)])] \<rparr>))"
    using sample_returnable put stamp unfolding mint_def parts
    by (simp add: same parts sample_signed_def [symmetric] Let_def) (simp add: session_of_def sample_admitted_def new_session_def)
  then show ?thesis
    by (simp add: sample_minted_def put_session_def session_of_def sample_admitted_def new_session_def)
qed

definition sample_at_rest :: sessionState where
  "sample_at_rest =
     \<lparr> ss_index = 1, ss_prev = sample_signature sample_signed, ss_sealed = False, ss_inFlight = 0, ss_created = True \<rparr>"

definition sample_released :: gatewayService where
  "sample_released = sample_minted\<lparr> gw_gate := newAdmissionGate, gw_sessions := [''s1'' \<mapsto> sample_at_rest] \<rparr>"

lemma sample_release: "release ''s1'' sample_minted = sample_released"
  by (simp add: release_def sample_minted_def sample_admitted_def sample_service_def newAdmissionGate_def finishLocked_def
      Let_def put_session_def sample_released_def sample_at_rest_def)

definition sample_registry_log :: bytes where
  "sample_registry_log =
     canon (VObject (seal_record sample_crypto (own_writer sample_crypto sample_seed) ''s1'' 1 sample_time)) @ [CHR 0x0A]"

definition sample_shut :: gatewayService where
  "sample_shut = sample_released\<lparr> gw_sessions := [''s1'' \<mapsto> sample_at_rest\<lparr> ss_sealed := True \<rparr>],
     gw_log := LogAt sample_registry_log \<rparr>"

lemma sample_shutting: "sealSession sample_crypto newFsLog sample_time ''s1'' sample_released =
  (Inr (seal_record sample_crypto (own_writer sample_crypto sample_seed) ''s1'' 1 sample_time), sample_shut)"
proof -
  have parts: "gw_sessions sample_released ''s1'' = Some sample_at_rest"
    "gw_registry sample_released = own_writer sample_crypto sample_seed" "gw_log sample_released = LogAt []"
    by (simp_all add: sample_released_def sample_minted_def sample_admitted_def sample_service_def)
  have "seal sample_crypto (fsLog_ops newFsLog) (own_writer sample_crypto sample_seed) ''s1'' 1 sample_time (LogAt []) =
      (Inr (seal_record sample_crypto (own_writer sample_crypto sample_seed) ''s1'' 1 sample_time), LogAt sample_registry_log)"
    using sample_empty_walk sample_facts(1) sample_session
    by (simp add: seal_def fsLog_ops_def fsLog_readLog_def fsLog_appendRecord_def newFsLog_def Let_def
        own_writer_def start_walk_def line_boundary_def sample_registry_log_def)
  then show ?thesis
    using sample_session
    by (simp add: sealSession_def parts Let_def sample_at_rest_def)
      (simp add: put_session_def sample_shut_def sample_released_def sample_at_rest_def)
qed

definition sample_end :: run where
  "sample_end = \<lparr> rn_service = sample_shut, rn_running = {#}, rn_ending = {#} \<rparr>"

lemma sample_fresh: "fresh sample_start"
  by (simp add: fresh_def sample_start_def sample_service_def)

lemma sample_steps:
  "step sample_crypto ReadsAlone sample_start
     \<lparr> rn_service = sample_admitted, rn_running = {#''s1''#}, rn_ending = {#} \<rparr>"
  "step sample_crypto ReadsAlone \<lparr> rn_service = sample_admitted, rn_running = {#''s1''#}, rn_ending = {#} \<rparr>
     \<lparr> rn_service = sample_minted, rn_running = {#}, rn_ending = {#''s1''#} \<rparr>"
  "step sample_crypto ReadsAlone \<lparr> rn_service = sample_minted, rn_running = {#}, rn_ending = {#''s1''#} \<rparr>
     \<lparr> rn_service = sample_released, rn_running = {#}, rn_ending = {#} \<rparr>"
  "step sample_crypto ReadsAlone \<lparr> rn_service = sample_released, rn_running = {#}, rn_ending = {#} \<rparr> sample_end"
proof -
  show "step sample_crypto ReadsAlone sample_start
     \<lparr> rn_service = sample_admitted, rn_running = {#''s1''#}, rn_ending = {#} \<rparr>"
    unfolding sample_start_def by (rule step.Admit [OF sample_session sample_admit])
  have m: "mt_session sample_minting = ''s1''" "mt_kind sample_minting = ''acquisition''"
    "ss_index (session_of sample_admitted ''s1'') = 0"
    by (simp_all add: sample_minting_def sample_admitted_def session_of_def new_session_def)
  have "step sample_crypto ReadsAlone \<lparr> rn_service = sample_admitted, rn_running = {#''s1''#}, rn_ending = {#} \<rparr>
     \<lparr> rn_service = sample_minted, rn_running = {#''s1''#} - {#mt_session sample_minting#},
       rn_ending = add_mset (mt_session sample_minting) {#} \<rparr>"
    by (rule step.Mint [OF _ _ _ sample_mint]) (use m sample_read in \<open>auto simp: maxSafeInteger_def\<close>)
  then show "step sample_crypto ReadsAlone \<lparr> rn_service = sample_admitted, rn_running = {#''s1''#}, rn_ending = {#} \<rparr>
     \<lparr> rn_service = sample_minted, rn_running = {#}, rn_ending = {#''s1''#} \<rparr>" by (simp add: m)
  show "step sample_crypto ReadsAlone \<lparr> rn_service = sample_minted, rn_running = {#}, rn_ending = {#''s1''#} \<rparr>
     \<lparr> rn_service = sample_released, rn_running = {#}, rn_ending = {#} \<rparr>"
    using step.Release [of "''s1''" "{#''s1''#}" sample_crypto ReadsAlone sample_minted "{#}"] sample_release by simp
  show "step sample_crypto ReadsAlone \<lparr> rn_service = sample_released, rn_running = {#}, rn_ending = {#} \<rparr> sample_end"
    unfolding sample_end_def by (rule step.Seal [OF sample_shutting]) (use sample_facts(4) in auto)
qed

lemma sample_run: "(step sample_crypto ReadsAlone)\<^sup>*\<^sup>* sample_start sample_end"
  using sample_steps by (meson converse_rtranclp_into_rtranclp rtranclp.rtrancl_refl)

lemma sample_new_store: "new_store sample_crypto (rn_service sample_start)"
  using sample_own_store sample_empty_walk sample_facts
  by (simp add: new_store_def service_ok_def sample_start_def sample_service_def sample_store_def newStoreOn_def
      receiptVersion_def valid_utf8_ascii start_walk_def)

end
