(* ===== verification/Service_Claims.thy ===== *)
theory Service_Claims
  imports Sample_Run
begin

text \<open>
  The properties of the signer's sessions and its gate, over every interleaving of the requests in
  flight.
\<close>

section \<open>Reservations\<close>

text \<open>C24: Reservations are counted exactly.  Whatever the requests in flight do, in whatever order,
  from a service just started: the gate's count of what is pending is the number of requests
  admitted and not released, every session's count is the number of those admitted into it, a
  request holds only sessions that are known, and a session that is sealed is held by none.\<close>

theorem reservations_counted:
  assumes "fresh r" and "(step C Anything)\<^sup>*\<^sup>* r r'"
  shows "ag_pending (gw_gate (rn_service r')) = int (size (held r')) \<and>
    (\<forall>sid. case gw_sessions (rn_service r') sid of
       None \<Rightarrow> sid \<notin># held r'
     | Some st \<Rightarrow> ss_inFlight st = int (count (held r') sid) \<and> 0 \<le> ss_index st \<and> (ss_sealed st \<longrightarrow> sid \<notin># held r'))"
proof -
  have ok: "run_ok r'" by (rule steps_ok [OF assms(2) fresh_ok [OF assms(1)]])
  then have "case gw_sessions (rn_service r') sid of None \<Rightarrow> sid \<notin># held r'
     | Some st \<Rightarrow> ss_inFlight st = int (count (held r') sid) \<and> 0 \<le> ss_index st \<and> (ss_sealed st \<longrightarrow> sid \<notin># held r')" for sid
    using run_okD(3) [OF ok, of sid] by (cases "gw_sessions (rn_service r') sid") (simp_all add: count_eq_zero_iff)
  with run_okD(2) [OF ok] show ?thesis by blast
qed

text \<open>A run of reads alone is a run.\<close>

lemma reads_anything: "step C ReadsAlone r r' \<Longrightarrow> step C Anything r r'"
  by (cases rule: step.cases) (auto intro: step.intros)

lemma sample_admitted_run:
  "(step sample_crypto Anything)\<^sup>*\<^sup>* sample_start
     \<lparr> rn_service = sample_admitted, rn_running = {#''s1''#}, rn_ending = {#} \<rparr>"
  using reads_anything [OF sample_steps(1)] by blast

theorem reservations_counted_witness:
  "ag_pending (gw_gate sample_admitted) = 1 \<and> ss_inFlight (session_of sample_admitted ''s1'') = 1"
  using reservations_counted [OF sample_fresh sample_admitted_run]
  by (auto simp: held_def session_of_def sample_admitted_def dest: spec [of _ "''s1''"])

section \<open>Sealed sessions\<close>

text \<open>C4: A sealed session is final.  From the moment a session is sealed, whatever requests are in
  flight and whatever they do, no receipt is added to its directory or removed from it, its index and
  its last signature stay what the seal counted, and no request is admitted into it.\<close>

theorem sealed_session_final:
  assumes "fresh r" and "(step C Anything)\<^sup>*\<^sup>* r r'"
    and "gw_sessions (rn_service r') sid = Some st" and "ss_sealed st" and "(step C Anything)\<^sup>*\<^sup>* r' r''"
  shows "gw_sessions (rn_service r'') sid = Some st \<and>
    map_of (gw_receipts (rn_service r'')) sid = map_of (gw_receipts (rn_service r')) sid \<and> sid \<notin># held r''"
proof -
  have ok: "run_ok r'" by (rule steps_ok [OF assms(2) fresh_ok [OF assms(1)]])
  note final = steps_sealed [OF assms(5) ok assms(3,4)]
  have "session_ok (count (held r'') sid) (gw_sessions (rn_service r'') sid)"
    by (rule run_okD(3) [OF steps_ok [OF assms(5) ok]])
  with final assms(4) show ?thesis by (simp add: count_eq_zero_iff)
qed

lemma sample_end_run: "(step sample_crypto Anything)\<^sup>*\<^sup>* sample_start sample_end"
  using sample_run reads_anything by (metis mono_rtranclp)

text \<open>Closing the gate after the session was sealed.\<close>

lemma sample_close_run:
  "(step sample_crypto Anything)\<^sup>*\<^sup>* sample_end
     \<lparr> rn_service = closeAdmission sample_shut, rn_running = {#}, rn_ending = {#} \<rparr>"
  unfolding sample_end_def by (intro r_into_rtranclp step.Close)

theorem sealed_session_final_witness:
  "map_of (gw_receipts (closeAdmission sample_shut)) ''s1'' = map_of (gw_receipts sample_shut) ''s1'' \<and>
   map_of (gw_receipts sample_shut) ''s1'' \<noteq> None"
proof -
  have "gw_sessions (rn_service sample_end) ''s1'' = Some (sample_at_rest\<lparr> ss_sealed := True \<rparr>)"
    by (simp add: sample_end_def sample_shut_def)
  from sealed_session_final [OF sample_fresh sample_end_run this _ sample_close_run]
  have "map_of (gw_receipts (closeAdmission sample_shut)) ''s1'' = map_of (gw_receipts sample_shut) ''s1''"
    by (simp add: sample_end_def)
  moreover have "map_of (gw_receipts sample_shut) ''s1'' \<noteq> None"
    by (simp add: sample_shut_def sample_released_def sample_minted_def)
  ultimately show ?thesis by blast
qed

section \<open>The gate\<close>

text \<open>C25: A closed gate drains.  While the gate is closed no step adds to what is held; the closure
  is marked drained exactly when nothing is held; and from every state with the gate closed the
  requests in flight can end one by one until it is.\<close>

theorem closed_gate_drains:
  assumes "fresh r" and "(step C Anything)\<^sup>*\<^sup>* r r'" and "ag_closed (gw_gate (rn_service r'))"
  shows "(\<forall>r''. step C Anything r' r'' \<longrightarrow> held r'' \<subseteq># held r') \<and>
    (gate_drained (gw_gate (rn_service r')) \<longleftrightarrow> held r' = {#}) \<and>
    (\<exists>r''. (step C Anything)\<^sup>*\<^sup>* r' r'' \<and> ag_closed (gw_gate (rn_service r'')) \<and>
       gate_drained (gw_gate (rn_service r'')) \<and> held r'' = {#})"
proof -
  have ok: "run_ok r'" by (rule steps_ok [OF assms(2) fresh_ok [OF assms(1)]])
  have drained: "gate_drained (gw_gate (rn_service q)) \<longleftrightarrow> held q = {#}"
    if "run_ok q" "ag_closed (gw_gate (rn_service q))" for q
    using signer_gate.drained_iff [OF run_okD(1) [OF that(1)] that(2)] run_okD(2) [OF that(1)] by simp
  obtain r'' where "(step C Anything)\<^sup>*\<^sup>* r' r''" "held r'' = {#}" "ag_closed (gw_gate (rn_service r''))"
    using drain_run [OF ok assms(3)] by blast
  then show ?thesis
    using drained [OF ok assms(3)] drained steps_ok [OF _ ok] step_closed [OF _ assms(3)] by blast
qed

theorem closed_gate_drains_witness:
  "gate_drained (gw_gate (closeAdmission sample_shut)) \<and>
   \<not> gate_drained (gw_gate (closeAdmission sample_admitted))"
proof -
  have drained: "gate_drained (gw_gate (closeAdmission g)) \<longleftrightarrow> R + E = {#}"
    if "(step sample_crypto Anything)\<^sup>*\<^sup>* sample_start \<lparr> rn_service = g, rn_running = R, rn_ending = E \<rparr>" for g R E
    using closed_gate_drains [OF sample_fresh rtranclp.rtrancl_into_rtrancl [OF that step.Close]]
    by (simp add: held_def closeAdmission_def closeLocked_def Let_def)
  from drained [OF sample_end_run [unfolded sample_end_def]] drained [OF sample_admitted_run] show ?thesis by simp
qed

section \<open>From a read to a store that verifies\<close>





end
