(* ===== verification/Journal.thy ===== *)
theory Journal
  imports Records
begin

text \<open>
  The journal of keyed actions (\<^verbatim>\<open>action_journal.go\<close>): a reservation binds a key to one approved
  content, and a dispatch marker, created exclusively, grants one dispatch under it or closes it.

  An entry of the journal is a directory of records by name.  \<open>Whole\<close> is a private regular file with
  its bytes; \<open>Unsafe\<close> is anything else at the name, a link, a directory or a file open to others.
  What the operating system answers during one operation is the record \<open>journal_env\<close>; error texts
  are left out, and staging directories, which nothing reads as an entry, are not part of the state.
\<close>

section \<open>Entries\<close>

datatype journal_file = Whole bytes | Unsafe

type_synonym action_entry = "(bytes \<times> journal_file) list"

text \<open>What stands at a name of the journal's own directory; a directory is private or not.\<close>

datatype journal_node = Directory bool action_entry | NoDirectory

type_synonym journal_dir = "(bytes \<times> journal_node) list"

record journal_env =
  je_looks :: "bytes \<Rightarrow> bool"
  je_reads :: "bytes \<Rightarrow> bool"
  je_stages :: bool
  je_retains :: bool
  je_places :: bool
  je_opens :: bool
  je_torn :: "nat option"
  je_mkdir :: bool
  je_syncs :: bool

datatype journal_error =
    JournalUnavailable
  | JournalInvalid
  | KeyInvalid
  | KeyConflict
  | ScopeConflict
  | FirstScopeConflict
  | RecordAbsent
  | RecordExists
  | DispatchClaimed
  | KeyClosed
  | AttemptsExhausted

definition actionJournalResponseLimit :: nat where
  "actionJournalResponseLimit = 16 * 2 ^ 20"

definition actionJournalVersion :: bytes where
  "actionJournalVersion = ''2''"

definition actionIdentityVersion :: bytes where
  "actionIdentityVersion = ''2''"

definition actionDispatchAttempts :: nat where
  "actionDispatchAttempts = 16"

definition actionScopeLimit :: nat where
  "actionScopeLimit = 16 * 2 ^ 10"

definition actionDispatchName :: "nat \<Rightarrow> bytes" where
  "actionDispatchName n = ''dispatch-'' @ format_nat n @ ''.json''"

definition actionNotDispatchedName :: "nat \<Rightarrow> bytes" where
  "actionNotDispatchedName n = ''not-dispatched-'' @ format_nat n @ ''.json''"

definition actionJournalName :: "bytes \<Rightarrow> bool" where
  "actionJournalName name \<longleftrightarrow>
     name \<in> {''intent.json'', ''action.json'', ''response.json'', ''scope.json''} \<or>
     list_ex (\<lambda>n. name = actionDispatchName n \<or> name = actionNotDispatchedName n) [1..<Suc actionDispatchAttempts]"

section \<open>Records\<close>

text \<open>\<^verbatim>\<open>json.Valid\<close>.\<close>

definition json_valid :: "bytes \<Rightarrow> bool" where
  "json_valid raw = (case json_value (skip_space raw) of None \<Rightarrow> False | Some rest \<Rightarrow> skip_space rest = [])"

record actionRecord =
  rec_name :: bytes
  rec_raw :: bytes
  rec_limit :: nat

definition record_valid :: "actionRecord \<Rightarrow> bool" where
  "record_valid record \<longleftrightarrow> length (rec_raw record) \<le> rec_limit record \<and> json_valid (rec_raw record)"

definition readActionRecord :: "journal_env \<Rightarrow> action_entry \<Rightarrow> bytes \<Rightarrow> nat \<Rightarrow> journal_error + bytes" where
  "readActionRecord env root name limit =
     (if \<not> je_looks env name then Inl JournalUnavailable
      else case map_of root name of
        None \<Rightarrow> Inl RecordAbsent
      | Some Unsafe \<Rightarrow> Inl JournalInvalid
      | Some (Whole raw) \<Rightarrow>
          if length raw > limit \<or> \<not> je_reads env name then Inl JournalInvalid
          else (case parseJSON raw of Inl _ \<Rightarrow> Inl JournalInvalid | Inr _ \<Rightarrow> Inr raw))"

definition claim_read :: "journal_env \<Rightarrow> action_entry \<Rightarrow> bytes \<Rightarrow> nat \<Rightarrow> journal_error + bytes" where
  "claim_read env root name limit =
     (if \<not> actionJournalName name then Inl JournalInvalid else readActionRecord env root name limit)"

text \<open>A record created in place: what fails after the file is opened leaves what was written of it.\<close>

definition put :: "journal_env \<Rightarrow> bytes \<Rightarrow> bytes \<Rightarrow> nat \<Rightarrow> action_entry \<Rightarrow> (journal_error + unit) \<times> action_entry" where
  "put env name raw limit root =
     (if \<not> actionJournalName name \<or> length raw > limit \<or> \<not> json_valid raw then (Inl JournalInvalid, root)
      else if map_of root name \<noteq> None then (Inl RecordExists, root)
      else if \<not> je_opens env then (Inl JournalUnavailable, root)
      else case je_torn env of
        Some k \<Rightarrow> (Inl JournalUnavailable, AList.update name (Whole (take k raw)) root)
      | None \<Rightarrow>
          (if je_syncs env then Inr () else Inl JournalUnavailable, AList.update name (Whole raw) root))"

text \<open>A record that appears whole or not at all.\<close>

definition publishActionRecord ::
  "journal_env \<Rightarrow> actionRecord \<Rightarrow> action_entry \<Rightarrow> (journal_error + unit) \<times> action_entry" where
  "publishActionRecord env record root =
     (if \<not> je_stages env then (Inl JournalUnavailable, root)
      else if \<not> record_valid record then (Inl JournalInvalid, root)
      else if \<not> je_retains env then (Inl JournalUnavailable, root)
      else if map_of root (rec_name record) \<noteq> None then (Inl RecordExists, root)
      else if \<not> je_places env then (Inl JournalUnavailable, root)
      else (if je_syncs env then Inr () else Inl JournalUnavailable,
            AList.update (rec_name record) (Whole (rec_raw record)) root))"

definition publish :: "journal_env \<Rightarrow> bytes \<Rightarrow> bytes \<Rightarrow> nat \<Rightarrow> action_entry \<Rightarrow> (journal_error + unit) \<times> action_entry" where
  "publish env name raw limit root =
     (if \<not> actionJournalName name then (Inl JournalInvalid, root)
      else publishActionRecord env \<lparr> rec_name = name, rec_raw = raw, rec_limit = limit \<rparr> root)"

section \<open>Dispatch\<close>

text \<open>The records of a dispatch.  \<^verbatim>\<open>encoding/json\<close> writes a map's members by name and these values
  without escapes, so the bytes are the canonical ones.\<close>

definition dispatch_marker :: "nat \<Rightarrow> bytes" where
  "dispatch_marker n = canon (VObject [(''attempt'', VInt (int n))])"

definition delegated_marker :: "nat \<Rightarrow> members \<Rightarrow> bytes \<Rightarrow> bytes" where
  "delegated_marker n delegation tokenDigest =
     canon (VObject (obj_set (obj_set (obj_set [] ''attempt'' (VInt (int n))) ''delegation'' (VObject delegation))
       ''tokenDigest'' (VString tokenDigest)))"

definition closedMarker :: "bytes \<Rightarrow> nat \<Rightarrow> bytes" where
  "closedMarker now n =
     canon (VObject [(''attempt'', VInt (int n)), (''closed'', VBool True), (''closedAt'', VString now)])"

definition closedAt :: "journal_env \<Rightarrow> action_entry \<Rightarrow> nat \<Rightarrow> bool" where
  "closedAt env root n =
     (case claim_read env root (actionDispatchName n) actionScopeLimit of
        Inl _ \<Rightarrow> False
      | Inr raw \<Rightarrow>
          (case parseJSON raw of
             Inr (VObject marker) \<Rightarrow>
               obj_get marker ''closed'' = Some (VBool True) \<and> obj_get marker ''attempt'' = Some (VInt (int n))
           | _ \<Rightarrow> False))"

definition closed :: "journal_env \<Rightarrow> action_entry \<Rightarrow> bool" where
  "closed env root = list_ex (closedAt env root) [1..<Suc actionDispatchAttempts]"

text \<open>The loop of \<^verbatim>\<open>attempt\<close> over the attempts that are left: the attempt to claim, or the one that may
  have begun.\<close>

fun attempt_from :: "journal_env \<Rightarrow> action_entry \<Rightarrow> nat list \<Rightarrow> journal_error + nat \<times> bool" where
  "attempt_from env root [] = Inl AttemptsExhausted"
| "attempt_from env root (n # ns) =
     (if \<not> je_looks env (actionDispatchName n) then Inr (n, True)
      else if map_of root (actionDispatchName n) = None then Inr (n, False)
      else if closedAt env root n then Inl KeyClosed
      else case claim_read env root (actionNotDispatchedName n) 1024 of
        Inl _ \<Rightarrow> Inr (n, True)
      | Inr _ \<Rightarrow> attempt_from env root ns)"

definition attempt :: "journal_env \<Rightarrow> action_entry \<Rightarrow> journal_error + nat \<times> bool" where
  "attempt env root = attempt_from env root [1..<Suc actionDispatchAttempts]"

text \<open>What a claim or a close answers when the marker's name is taken.\<close>

definition taken_marker :: "journal_env \<Rightarrow> nat \<Rightarrow> (journal_error + unit) \<times> action_entry \<Rightarrow> (journal_error + unit) \<times> action_entry" where
  "taken_marker env n answered =
     (case answered of
        (Inl RecordExists, root) \<Rightarrow> (if closedAt env root n then (Inl KeyClosed, root) else (Inl DispatchClaimed, root))
      | _ \<Rightarrow> answered)"

definition claimDispatchUnder ::
  "journal_env \<Rightarrow> nat \<Rightarrow> members option \<Rightarrow> bytes \<Rightarrow> action_entry \<Rightarrow> (journal_error + unit) \<times> action_entry" where
  "claimDispatchUnder env n delegation tokenDigest root =
     taken_marker env n
       (case delegation of
          None \<Rightarrow> put env (actionDispatchName n) (dispatch_marker n) 1024 root
        | Some member \<Rightarrow>
            publishActionRecord env
              \<lparr> rec_name = actionDispatchName n, rec_raw = delegated_marker n member tokenDigest, rec_limit = actionScopeLimit \<rparr> root)"

definition claimDispatch :: "journal_env \<Rightarrow> nat \<Rightarrow> action_entry \<Rightarrow> (journal_error + unit) \<times> action_entry" where
  "claimDispatch env n root = claimDispatchUnder env n None [] root"

definition closeDispatch :: "journal_env \<Rightarrow> bytes \<Rightarrow> nat \<Rightarrow> action_entry \<Rightarrow> (journal_error + unit) \<times> action_entry" where
  "closeDispatch env now n root =
     (if list_ex (\<lambda>later. \<not> je_looks env (actionDispatchName later) \<or> map_of root (actionDispatchName later) \<noteq> None)
           [Suc n..<Suc actionDispatchAttempts]
      then (Inl DispatchClaimed, root)
      else taken_marker env n
        (publishActionRecord env \<lparr> rec_name = actionDispatchName n, rec_raw = closedMarker now n, rec_limit = 1024 \<rparr> root))"

definition dispatchDelegation :: "journal_env \<Rightarrow> action_entry \<Rightarrow> nat \<Rightarrow> (members \<times> bytes) option" where
  "dispatchDelegation env root n =
     (case claim_read env root (actionDispatchName n) actionScopeLimit of
        Inl _ \<Rightarrow> None
      | Inr raw \<Rightarrow>
          (case parseJSON raw of
             Inr (VObject marker) \<Rightarrow>
               (case obj_get marker ''delegation'' of
                  Some (VObject member) \<Rightarrow>
                    if isDigest (string_of marker ''tokenDigest'') then Some (member, string_of marker ''tokenDigest'') else None
                | _ \<Rightarrow> None)
           | _ \<Rightarrow> None))"

text \<open>A string as \<^verbatim>\<open>encoding/json\<close> writes it: the characters of markup escaped, the two line separators
  too, and a byte that is no UTF-8 as the replacement character.\<close>

definition json_rune :: "nat \<Rightarrow> bytes" where
  "json_rune r =
     (if r \<in> {0x3C, 0x3E, 0x26} then CHR 0x5C # ''u00'' @ [hex_digit (r div 16), hex_digit (r mod 16)]
      else if r = 0x2028 then CHR 0x5C # ''u2028''
      else if r = 0x2029 then CHR 0x5C # ''u2029''
      else escape_rune r)"

function json_runes :: "bytes \<Rightarrow> bytes" where
  "json_runes s =
     (if s = [] then []
      else (if decode_rune s = (rune_error, 1) then CHR 0x5C # ''ufffd'' else json_rune (fst (decode_rune s))) @
           json_runes (drop (snd (decode_rune s)) s))"
  by auto
termination
  by (relation "measure length") (auto simp: decode_rune_size_pos diff_less)

declare json_runes.simps [simp del]

definition json_text :: "bytes \<Rightarrow> bytes" where
  "json_text s = CHR 0x22 # json_runes s @ [CHR 0x22]"

definition json_field :: "bytes \<Rightarrow> bytes \<Rightarrow> bytes" where
  "json_field name v = json_text name @ '':'' @ v"

definition releaseDispatch :: "journal_env \<Rightarrow> nat \<Rightarrow> bytes \<Rightarrow> action_entry \<Rightarrow> (journal_error + unit) \<times> action_entry" where
  "releaseDispatch env n reason root =
     put env (actionNotDispatchedName n)
       (''{'' @ json_field ''attempt'' (format_nat n) @ '','' @ json_field ''reason'' (json_text reason) @ ''}'') 1024 root"

end
