(* ===== verification/Journal_Run.thy ===== *)
theory Journal_Run
  imports Journal Built "HOL-Library.Multiset"
begin

text \<open>
  One key of the journal as requests reach it: any number of them at once, in one process or in
  several, each reading the attempt to claim, claiming or closing it, starting the write program or
  answering that it was not started, and dying at any moment, within a write too.  The program is
  started at most once, and never under a key that reads as closed.
\<close>

section \<open>The names of an entry\<close>

lemma format_nat_inj: "format_nat m = format_nat n \<longleftrightarrow> m = n"
  by (metis option.inject parse_digits_format_nat)

lemma dispatch_names [simp]:
  "actionDispatchName m = actionDispatchName n \<longleftrightarrow> m = n"
  "actionNotDispatchedName m = actionNotDispatchedName n \<longleftrightarrow> m = n"
  "actionDispatchName m \<noteq> actionNotDispatchedName n" "actionNotDispatchedName n \<noteq> actionDispatchName m"
  by (auto simp: actionDispatchName_def actionNotDispatchedName_def format_nat_inj)

lemma other_names [simp]:
  "actionDispatchName m \<noteq> ''action.json''" "actionDispatchName m \<noteq> ''response.json''"
  "actionNotDispatchedName m \<noteq> ''action.json''" "actionNotDispatchedName m \<noteq> ''response.json''"
  by (auto simp: actionDispatchName_def actionNotDispatchedName_def)

section \<open>The markers\<close>

text \<open>The marker of a dispatch, under no delegation or under one whose record is text of the canonical
  domain.\<close>

definition marker_ok :: "members option \<Rightarrow> bytes \<Rightarrow> bool" where
  "marker_ok delegation tokenDigest \<longleftrightarrow>
     (case delegation of None \<Rightarrow> True | Some member \<Rightarrow> fits member \<and> valid_utf8 tokenDigest)"

definition claim_marker :: "nat \<Rightarrow> members option \<Rightarrow> bytes \<Rightarrow> bytes" where
  "claim_marker n delegation tokenDigest =
     (case delegation of None \<Rightarrow> dispatch_marker n | Some member \<Rightarrow> delegated_marker n member tokenDigest)"

definition claimed :: "action_entry \<Rightarrow> nat \<Rightarrow> bool" where
  "claimed root n \<longleftrightarrow>
     (\<exists>delegation tokenDigest. marker_ok delegation tokenDigest \<and>
        map_of root (actionDispatchName n) = Some (Whole (claim_marker n delegation tokenDigest)))"

definition answered :: "action_entry \<Rightarrow> nat \<Rightarrow> bool" where
  "answered root n \<longleftrightarrow> map_of root (actionNotDispatchedName n) \<noteq> None"

definition marked :: "action_entry \<Rightarrow> nat \<Rightarrow> bool" where
  "marked root n \<longleftrightarrow> map_of root (actionDispatchName n) \<noteq> None"

lemma claimed_marked: "claimed root n \<Longrightarrow> marked root n"
  by (auto simp: claimed_def marked_def)

text \<open>A complete marker of a dispatch is never read as a close.\<close>

lemma claim_marker_open:
  assumes "marker_ok delegation tokenDigest" and "int n \<le> maxSafeInteger"
    and "parseJSON (claim_marker n delegation tokenDigest) = Inr (VObject marker)"
  shows "obj_get marker ''closed'' = None"
proof -
  define ms where "ms = (case delegation of
      None \<Rightarrow> [(''attempt'', VInt (int n))]
    | Some member \<Rightarrow> [(''attempt'', VInt (int n)), (''delegation'', VObject member), (''tokenDigest'', VString tokenDigest)])"
  have raw: "claim_marker n delegation tokenDigest = canon (VObject ms)"
    by (cases delegation) (simp_all add: claim_marker_def dispatch_marker_def delegated_marker_def ms_def)
  have names: "valid_utf8 ''attempt''" "valid_utf8 ''delegation''" "valid_utf8 ''tokenDigest''"
    by (simp_all add: valid_utf8_ascii)
  have "wf (VObject ms)"
    unfolding wf_VObject_iff using assms(1,2) names
    by (cases delegation) (auto simp: ms_def marker_ok_def fits_def in_safe_range_def minSafeInteger_def)
  moreover have "jdepth (VObject ms) \<le> maxNesting"
    using assms(1) by (cases delegation) (auto simp: ms_def marker_ok_def fits_def maxNesting_def)
  ultimately have "parse_object (canon (VObject ms)) = Some (norm_members ms)"
    using parse_object_canon [of ms "[]"] by simp
  then have "marker = norm_members ms" using assms(3) raw by (simp add: parse_object_def)
  moreover have "obj_get ms ''closed'' = None" by (cases delegation) (simp_all add: ms_def obj_get_def)
  ultimately show ?thesis using \<open>wf (VObject ms)\<close> by (simp add: obj_get_norm')
qed

lemma claim_read_Inr: "claim_read env root name limit = Inr raw \<Longrightarrow> map_of root name = Some (Whole raw)"
  by (auto simp: claim_read_def readActionRecord_def split: if_splits option.splits journal_file.splits sum.splits)

lemma claimed_not_closed:
  assumes "claimed root n" and "int n \<le> maxSafeInteger"
  shows "\<not> closedAt env root n"
proof
  assume "closedAt env root n"
  then obtain raw marker where "claim_read env root (actionDispatchName n) actionScopeLimit = Inr raw"
    "parseJSON raw = Inr (VObject marker)" "obj_get marker ''closed'' = Some (VBool True)"
    by (auto simp: closedAt_def split: sum.splits jvalue.splits)
  with assms claim_marker_open show False by (fastforce simp: claimed_def dest: claim_read_Inr)
qed

text \<open>What a read finds of a file depends on the file alone, when the system answers.\<close>

definition os_answers :: journal_env where
  "os_answers =
     \<lparr> je_looks = (\<lambda>_. True), je_reads = (\<lambda>_. True), je_stages = True, je_retains = True, je_places = True,
       je_opens = True, je_torn = None, je_mkdir = True, je_syncs = True \<rparr>"

lemma closedAt_answers:
  assumes "closedAt env root n" and "map_of root' (actionDispatchName n) = map_of root (actionDispatchName n)"
  shows "closedAt os_answers root' n"
proof -
  from assms(1) obtain raw where raw: "claim_read env root (actionDispatchName n) actionScopeLimit = Inr raw"
    by (auto simp: closedAt_def split: sum.splits)
  then have "claim_read os_answers root' (actionDispatchName n) actionScopeLimit = Inr raw"
    using assms(2) claim_read_Inr [OF raw]
    by (auto simp: claim_read_def readActionRecord_def os_answers_def split: if_splits option.splits journal_file.splits sum.splits)
  with raw assms(1) show ?thesis by (simp add: closedAt_def)
qed

section \<open>What each operation leaves\<close>

text \<open>A record once there stays as it is.\<close>

definition kept :: "action_entry \<Rightarrow> action_entry \<Rightarrow> bool" where
  "kept root root' \<longleftrightarrow> (\<forall>name f. map_of root name = Some f \<longrightarrow> map_of root' name = Some f)"

lemma kept_refl [simp]: "kept root root"
  by (simp add: kept_def)

lemma kept_trans: "kept a b \<Longrightarrow> kept b c \<Longrightarrow> kept a c"
  by (simp add: kept_def)

text \<open>A record put at one name, whole or torn.\<close>

inductive written :: "bytes \<Rightarrow> bytes \<Rightarrow> journal_error + unit \<Rightarrow> action_entry \<Rightarrow> action_entry \<Rightarrow> bool"
  for name raw where
  Nothing: "answer = Inl e \<Longrightarrow> written name raw answer root root"
| Torn: "map_of root name = None \<Longrightarrow> answer = Inl e \<Longrightarrow>
    written name raw answer root (AList.update name (Whole torn) root)"
| All: "map_of root name = None \<Longrightarrow> answer = Inr () \<Longrightarrow>
    written name raw answer root (AList.update name (Whole raw) root)"

lemma put_written: "put env name raw limit root = (answer, root') \<Longrightarrow> written name raw answer root root'"
  by (auto simp: put_def split: if_splits option.splits intro: written.intros)

lemma publishActionRecord_written:
  "publishActionRecord env record root = (answer, root') \<Longrightarrow>
     written (rec_name record) (rec_raw record) answer root root'"
  by (auto simp: publishActionRecord_def split: if_splits intro: written.intros)

lemma publish_written: "publish env name raw limit root = (answer, root') \<Longrightarrow> written name raw answer root root'"
  using publishActionRecord_written [of env "\<lparr> rec_name = name, rec_raw = raw, rec_limit = limit \<rparr>" root answer root']
  by (auto simp: publish_def split: if_splits intro: written.Nothing)

lemma taken_marker_written:
  assumes "written name raw answer root root'" and "taken_marker env n (answer, root') = (answer', root'')"
  shows "written name raw answer' root root''"
  using assms
  by (auto simp: taken_marker_def split: sum.splits journal_error.splits if_splits elim!: written.cases intro: written.intros)

lemma claim_written:
  assumes "claimDispatchUnder env n delegation tokenDigest root = (answer, root')"
  shows "written (actionDispatchName n) (claim_marker n delegation tokenDigest) answer root root'"
proof (cases delegation)
  case None
  obtain a b where "put env (actionDispatchName n) (dispatch_marker n) 1024 root = (a, b)" by fastforce
  with assms None show ?thesis
    by (auto simp: claimDispatchUnder_def claim_marker_def intro: taken_marker_written put_written)
next
  case (Some member)
  let ?rec = "\<lparr> rec_name = actionDispatchName n, rec_raw = delegated_marker n member tokenDigest, rec_limit = actionScopeLimit \<rparr>"
  obtain a b where "publishActionRecord env ?rec root = (a, b)" by fastforce
  with assms Some publishActionRecord_written [of env ?rec root a b] show ?thesis
    by (auto simp: claimDispatchUnder_def claim_marker_def intro: taken_marker_written)
qed

lemma close_written:
  assumes "closeDispatch env now n root = (answer, root')"
  shows "written (actionDispatchName n) (closedMarker now n) answer root root'"
proof -
  let ?rec = "\<lparr> rec_name = actionDispatchName n, rec_raw = closedMarker now n, rec_limit = 1024 \<rparr>"
  obtain a b where "publishActionRecord env ?rec root = (a, b)" by fastforce
  with assms publishActionRecord_written [of env ?rec root a b] show ?thesis
    by (auto simp: closeDispatch_def split: if_splits intro: taken_marker_written written.Nothing)
qed

lemma release_written:
  "releaseDispatch env n reason root = (answer, root') \<Longrightarrow>
     \<exists>raw. written (actionNotDispatchedName n) raw answer root root'"
  unfolding releaseDispatch_def using put_written by blast

lemma written_kept: "written name raw answer root root' \<Longrightarrow> kept root root'"
  by (auto simp: kept_def update_conv' elim!: written.cases)

lemma written_others:
  "written name raw answer root root' \<Longrightarrow> other \<noteq> name \<Longrightarrow> map_of root' other = map_of root other"
  by (auto simp: update_conv' elim!: written.cases)

lemma written_new:
  "written name raw answer root root' \<Longrightarrow> answer = Inr () \<Longrightarrow> map_of root name = None \<and> map_of root' name = Some (Whole raw)"
  by (auto simp: update_conv' elim!: written.cases)

lemma kept_facts:
  assumes "kept root root'"
  shows "claimed root n \<Longrightarrow> claimed root' n" "answered root n \<Longrightarrow> answered root' n" "marked root n \<Longrightarrow> marked root' n"
  using assms by (auto simp: kept_def claimed_def answered_def marked_def)

text \<open>An attempt is found free only past attempts that were all answered.\<close>

lemma attempt_from_free:
  "attempt_from env root ns = Inr (n, False) \<Longrightarrow> \<exists>before after. ns = before @ n # after \<and> (\<forall>m \<in> set before. answered root m)"
proof (induction ns)
  case (Cons m ns)
  show ?case
  proof (cases "attempt_from env root (m # ns) = attempt_from env root ns \<and> answered root m")
    case True
    with Cons obtain before after where "ns = before @ n # after" "\<forall>m \<in> set before. answered root m" by auto
    with True show ?thesis by (intro exI [of _ "m # before"] exI [of _ after]) auto
  next
    case False
    with Cons.prems have "n = m"
      by (auto simp: answered_def split: if_splits sum.splits dest: claim_read_Inr)
    then show ?thesis by (intro exI [of _ "[]"] exI [of _ ns]) auto
  qed
qed simp

lemma attempt_free:
  assumes "attempt env root = Inr (n, False)"
  shows "n \<in> {1..actionDispatchAttempts}" and "\<forall>m \<in> {1..<n}. answered root m"
proof -
  from attempt_from_free [OF assms [unfolded attempt_def]] obtain before after where
    split: "[1..<Suc actionDispatchAttempts] = before @ n # after" and all: "\<forall>m \<in> set before. answered root m" by blast
  have "n \<in> set [1..<Suc actionDispatchAttempts]" unfolding split by simp
  then show "n \<in> {1..actionDispatchAttempts}" by auto
  have "before = [1..<n]"
  proof -
    have "length before < length [1..<Suc actionDispatchAttempts]" unfolding split by simp
    then have "[1..<Suc actionDispatchAttempts] ! length before = 1 + length before"
      by (intro nth_upt) (simp del: upt_Suc)
    then have n: "n = 1 + length before" using split by (metis nth_append_length)
    have "before = take (length before) [1..<Suc actionDispatchAttempts]" unfolding split by simp
    also have "\<dots> = [1..<n]" using \<open>length before < _\<close> by (simp add: take_upt n del: upt_Suc)
    finally show ?thesis .
  qed
  with all show "\<forall>m \<in> {1..<n}. answered root m" by auto
qed

section \<open>The requests on a key\<close>

text \<open>What a request has: the attempt it found free, or the dispatch it was granted.\<close>

datatype phase = Found nat | Granted nat

record key_run =
  ky_root :: action_entry
  ky_requests :: "phase multiset"
  ky_sent :: "nat multiset"

inductive key_step :: "key_run \<Rightarrow> key_run \<Rightarrow> bool" where
  Look: "attempt env root = Inr (n, False) \<Longrightarrow>
    key_step \<lparr> ky_root = root, ky_requests = Q, ky_sent = S \<rparr>
      \<lparr> ky_root = root, ky_requests = add_mset (Found n) Q, ky_sent = S \<rparr>"
| Claim: "Found n \<in># Q \<Longrightarrow> marker_ok delegation tokenDigest \<Longrightarrow>
    claimDispatchUnder env n delegation tokenDigest root = (Inr (), root') \<Longrightarrow>
    key_step \<lparr> ky_root = root, ky_requests = Q, ky_sent = S \<rparr>
      \<lparr> ky_root = root', ky_requests = add_mset (Granted n) (Q - {#Found n#}), ky_sent = S \<rparr>"
| Claim_refused: "Found n \<in># Q \<Longrightarrow> marker_ok delegation tokenDigest \<Longrightarrow>
    claimDispatchUnder env n delegation tokenDigest root = (Inl e, root') \<Longrightarrow>
    key_step \<lparr> ky_root = root, ky_requests = Q, ky_sent = S \<rparr>
      \<lparr> ky_root = root', ky_requests = Q - {#Found n#}, ky_sent = S \<rparr>"
| Close: "Found n \<in># Q \<Longrightarrow> closeDispatch env now n root = (answer, root') \<Longrightarrow>
    key_step \<lparr> ky_root = root, ky_requests = Q, ky_sent = S \<rparr>
      \<lparr> ky_root = root', ky_requests = Q - {#Found n#}, ky_sent = S \<rparr>"
| Start: "Granted n \<in># Q \<Longrightarrow>
    key_step \<lparr> ky_root = root, ky_requests = Q, ky_sent = S \<rparr>
      \<lparr> ky_root = root, ky_requests = Q - {#Granted n#}, ky_sent = add_mset n S \<rparr>"
| Not_started: "Granted n \<in># Q \<Longrightarrow> releaseDispatch env n reason root = (answer, root') \<Longrightarrow>
    key_step \<lparr> ky_root = root, ky_requests = Q, ky_sent = S \<rparr>
      \<lparr> ky_root = root', ky_requests = Q - {#Granted n#}, ky_sent = S \<rparr>"
| Gone: "q \<in># Q \<Longrightarrow>
    key_step \<lparr> ky_root = root, ky_requests = Q, ky_sent = S \<rparr>
      \<lparr> ky_root = root, ky_requests = Q - {#q#}, ky_sent = S \<rparr>"
| Answer: "name = ''action.json'' \<or> name = ''response.json'' \<Longrightarrow> publish env name raw limit root = (answer, root') \<Longrightarrow>
    key_step \<lparr> ky_root = root, ky_requests = Q, ky_sent = S \<rparr>
      \<lparr> ky_root = root', ky_requests = Q, ky_sent = S \<rparr>"

text \<open>A key as it is reserved: nothing has been claimed, or its first attempt is closed.\<close>

definition key_new :: "key_run \<Rightarrow> bool" where
  "key_new r \<longleftrightarrow>
     ky_requests r = {#} \<and> ky_sent r = {#} \<and>
     (\<forall>n. \<not> answered (ky_root r) n \<and> (marked (ky_root r) n \<longrightarrow> n = 1))"

text \<open>What holds at every moment: a dispatch granted is one nobody else has, its marker is complete
  and has no answer; only a claimed attempt is answered; and an attempt is found free or marked only
  when every attempt below it was answered.\<close>

definition key_ok :: "key_run \<Rightarrow> bool" where
  "key_ok r \<longleftrightarrow>
     (\<forall>n. count (ky_requests r) (Granted n) + count (ky_sent r) n \<le> 1) \<and>
     (\<forall>n. Granted n \<in># ky_requests r \<or> n \<in># ky_sent r \<longrightarrow>
        claimed (ky_root r) n \<and> \<not> answered (ky_root r) n \<and> n \<le> actionDispatchAttempts) \<and>
     (\<forall>n. answered (ky_root r) n \<longrightarrow> claimed (ky_root r) n) \<and>
     (\<forall>n. Found n \<in># ky_requests r \<longrightarrow> n \<in> {1..actionDispatchAttempts} \<and> (\<forall>m \<in> {1..<n}. answered (ky_root r) m)) \<and>
     (\<forall>n. marked (ky_root r) n \<longrightarrow> 1 \<le> n \<and> (\<forall>m \<in> {1..<n}. answered (ky_root r) m))"

lemma key_okD:
  assumes "key_ok r"
  shows "count (ky_requests r) (Granted n) + count (ky_sent r) n \<le> 1"
    "Granted n \<in># ky_requests r \<or> n \<in># ky_sent r \<Longrightarrow>
       claimed (ky_root r) n \<and> \<not> answered (ky_root r) n \<and> n \<le> actionDispatchAttempts"
    "answered (ky_root r) n \<Longrightarrow> claimed (ky_root r) n"
    "Found n \<in># ky_requests r \<Longrightarrow> n \<in> {1..actionDispatchAttempts} \<and> (\<forall>m \<in> {1..<n}. answered (ky_root r) m)"
    "marked (ky_root r) n \<Longrightarrow> 1 \<le> n \<and> (\<forall>m \<in> {1..<n}. answered (ky_root r) m)"
  using assms unfolding key_ok_def by blast+

lemma key_new_ok: "key_new r \<Longrightarrow> key_ok r"
  unfolding key_ok_def key_new_def by auto

text \<open>A step that writes at most one marker, at an attempt below which all are answered.\<close>

lemma key_ok_written:
  assumes ok: "key_ok r" and w: "written (actionDispatchName k) raw answer (ky_root r) (ky_root r')"
    and k: "Found k \<in># ky_requests r"
    and sent: "ky_sent r' = ky_sent r"
    and granted: "\<And>n. Granted n \<in># ky_requests r' \<Longrightarrow>
        Granted n \<in># ky_requests r \<or> n = k \<and> claimed (ky_root r') k \<and> \<not> marked (ky_root r) k"
      "\<And>n. count (ky_requests r') (Granted n) + count (ky_sent r') n \<le> 1"
    and found: "\<And>n. Found n \<in># ky_requests r' \<Longrightarrow> Found n \<in># ky_requests r"
  shows "key_ok r'"
proof -
  note facts = kept_facts [OF written_kept [OF w]] and parts = key_okD [OF ok]
  have same: "answered (ky_root r') n = answered (ky_root r) n" for n
    unfolding answered_def using written_others [OF w, of "actionNotDispatchedName n"] by simp
  have marks: "marked (ky_root r) n \<or> n = k" if "marked (ky_root r') n" for n
    using that written_others [OF w, of "actionDispatchName n"] by (cases "n = k") (simp_all add: marked_def)
  have fresh: "\<not> answered (ky_root r) n" if "\<not> marked (ky_root r) n" for n
    using that parts(3) claimed_marked by blast
  have "claimed (ky_root r') n \<and> \<not> answered (ky_root r') n \<and> n \<le> actionDispatchAttempts"
    if "Granted n \<in># ky_requests r' \<or> n \<in># ky_sent r'" for n
    using that granted(1) [of n] parts(2) [of n] parts(4) [OF k] fresh [of n] facts(1) sent same by auto
  moreover have "1 \<le> n \<and> (\<forall>m \<in> {1..<n}. answered (ky_root r') m)" if "marked (ky_root r') n" for n
    using marks [OF that] parts(4) [OF k] parts(5) [of n] same by auto
  moreover have "n \<in> {1..actionDispatchAttempts} \<and> (\<forall>m \<in> {1..<n}. answered (ky_root r') m)"
    if "Found n \<in># ky_requests r'" for n
    using parts(4) [OF found [OF that]] same by auto
  moreover have "claimed (ky_root r') n" if "answered (ky_root r') n" for n
    using that parts(3) same facts(1) by blast
  ultimately show ?thesis unfolding key_ok_def using granted(2) by blast
qed

text \<open>A step after which fewer requests are in flight, and the entry is as it was.\<close>

lemma key_ok_fewer:
  assumes ok: "key_ok \<lparr> ky_root = root, ky_requests = Q, ky_sent = S \<rparr>" and "Q' \<subseteq># Q"
  shows "key_ok \<lparr> ky_root = root, ky_requests = Q', ky_sent = S \<rparr>"
proof -
  note parts = key_okD [OF ok, unfolded key_run.select_convs]
  have sub: "q \<in># Q \<and> count Q' q \<le> count Q q" if "q \<in># Q'" for q
    using that assms(2) by (auto simp: mset_subset_eq_count mset_subset_eqD)
  have "count Q' (Granted n) + count S n \<le> 1" for n
    using parts(1) [of n] mset_subset_eq_count [OF assms(2), of "Granted n"] by linarith
  with sub parts show ?thesis unfolding key_ok_def key_run.select_convs by blast
qed

text \<open>A request that leaves a marker and ends.\<close>

lemma marker_left_ok:
  assumes ok: "key_ok \<lparr> ky_root = root, ky_requests = Q, ky_sent = S \<rparr>" and k: "Found n \<in># Q"
    and w: "written (actionDispatchName n) raw answer root root'"
  shows "key_ok \<lparr> ky_root = root', ky_requests = Q - {#Found n#}, ky_sent = S \<rparr>"
proof -
  have "key_ok \<lparr> ky_root = root', ky_requests = Q, ky_sent = S \<rparr>"
    by (rule key_ok_written [OF ok, where k = n and raw = raw and answer = answer])
      (use k w key_okD(1) [OF ok, unfolded key_run.select_convs] in \<open>simp_all only: key_run.select_convs simp_thms\<close>)
  then show ?thesis by (rule key_ok_fewer) simp
qed

lemma claim_step_ok:
  assumes ok: "key_ok \<lparr> ky_root = root, ky_requests = Q, ky_sent = S \<rparr>" and k: "Found n \<in># Q" "marker_ok delegation tokenDigest"
    and run: "claimDispatchUnder env n delegation tokenDigest root = (Inr (), root')"
  shows "key_ok \<lparr> ky_root = root', ky_requests = add_mset (Granted n) (Q - {#Found n#}), ky_sent = S \<rparr>"
proof -
  note w = claim_written [OF run]
  have new: "map_of root (actionDispatchName n) = None"
    "map_of root' (actionDispatchName n) = Some (Whole (claim_marker n delegation tokenDigest))"
    using written_new [OF w] by simp_all
  have free: "\<not> marked root n" using new(1) by (simp add: marked_def)
  then have "Granted n \<notin># Q" "n \<notin># S" using key_okD(2) [OF ok, of n] claimed_marked by auto
  then have counts: "count (add_mset (Granted n) (Q - {#Found n#})) (Granted m) + count S m \<le> 1" for m
    using key_okD(1) [OF ok, of m] by (auto simp: count_eq_zero_iff [symmetric] not_in_iff)
  have "claimed root' n" using new(2) k(2) by (auto simp: claimed_def)
  then show ?thesis
    using free counts k(1) w
    by (intro key_ok_written [OF ok, where k = n]) (auto dest: in_diffD)
qed

lemma released_ok:
  assumes ok: "key_ok \<lparr> ky_root = root, ky_requests = Q, ky_sent = S \<rparr>" and k: "Granted n \<in># Q"
    and run: "releaseDispatch env n reason root = (answer, root')"
  shows "key_ok \<lparr> ky_root = root', ky_requests = Q - {#Granted n#}, ky_sent = S \<rparr>"
proof -
  obtain raw where w: "written (actionNotDispatchedName n) raw answer root root'" using release_written [OF run] by blast
  note facts = kept_facts [OF written_kept [OF w]] and parts = key_okD [OF ok, unfolded key_run.select_convs]
  have same: "marked root' m = marked root m" "claimed root' m = claimed root m" for m
    using written_others [OF w, of "actionDispatchName m"] by (simp_all add: marked_def claimed_def)
  have others: "answered root' m = answered root m" if "m \<noteq> n" for m
    using that written_others [OF w, of "actionNotDispatchedName m"] by (simp add: answered_def)
  have "1 \<le> count Q (Granted n)" using k by simp
  then have one: "count Q (Granted n) = 1" "count S n = 0" using parts(1) [of n] by linarith+
  then have gone: "Granted n \<notin># Q - {#Granted n#}" "n \<notin># S" by (simp_all add: not_in_iff)
  have sub: "q \<in># Q" if "q \<in># Q - {#Granted n#}" for q using that by (rule in_diffD)
  have "claimed root' m \<and> \<not> answered root' m \<and> m \<le> actionDispatchAttempts"
    if "Granted m \<in># Q - {#Granted n#} \<or> m \<in># S" for m
  proof -
    have "m \<noteq> n" using that gone by auto
    with that sub parts(2) [of m] others same show ?thesis by auto
  qed
  moreover have "count (Q - {#Granted n#}) (Granted m) + count S m \<le> 1" for m
    using parts(1) [of m] by (simp add: le_diff_conv split: if_splits)
  moreover have "claimed root' m" if "answered root' m" for m
    using that others [of m] parts(2) [of n] parts(3) [of m] k same by (cases "m = n") auto
  ultimately show ?thesis
    unfolding key_ok_def key_run.select_convs using parts(4,5) sub facts(2) same by blast
qed

text \<open>The invariant holds of every run.\<close>

lemma key_step_ok:
  assumes "key_step r r'" and ok: "key_ok r"
  shows "key_ok r'"
  using assms(1)
proof (cases rule: key_step.cases)
  case (Look env root n Q S)
  note parts = key_okD [OF ok, unfolded Look(1) key_run.select_convs]
  have "m \<in> {1..actionDispatchAttempts} \<and> (\<forall>i \<in> {1..<m}. answered root i)" if "Found m \<in># add_mset (Found n) Q" for m
    using that parts(4) [of m] attempt_free [OF Look(3)] by (cases "m = n") simp_all
  then have found: "\<forall>m. Found m \<in># add_mset (Found n) Q \<longrightarrow> m \<in> {1..actionDispatchAttempts} \<and> (\<forall>i \<in> {1..<m}. answered root i)"
    by blast
  have granted: "count (add_mset (Found n) Q) (Granted m) = count Q (Granted m)"
    "Granted m \<in># add_mset (Found n) Q \<longleftrightarrow> Granted m \<in># Q" for m by simp_all
  have "\<forall>m. Granted m \<in># Q \<or> m \<in># S \<longrightarrow> claimed root m \<and> \<not> answered root m \<and> m \<le> actionDispatchAttempts"
    "\<forall>m. marked root m \<longrightarrow> 1 \<le> m \<and> (\<forall>i \<in> {1..<m}. answered root i)"
    "\<forall>m. count Q (Granted m) + count S m \<le> 1" "\<forall>m. answered root m \<longrightarrow> claimed root m"
    using parts(1,2,3,5) by blast+
  with found show ?thesis unfolding key_ok_def Look(2) key_run.select_convs granted by simp
next
  case (Claim n Q delegation tokenDigest env root root' S)
  with ok show ?thesis by (auto intro: claim_step_ok)
next
  case (Claim_refused n Q delegation tokenDigest env root e root' S)
  show ?thesis
    unfolding Claim_refused(2)
    by (rule marker_left_ok [OF ok [unfolded Claim_refused(1)] Claim_refused(3) claim_written [OF Claim_refused(5)]])
next
  case (Close n Q env now root answer root' S)
  show ?thesis
    unfolding Close(2) by (rule marker_left_ok [OF ok [unfolded Close(1)] Close(3) close_written [OF Close(4)]])
next
  case (Start n Q root S)
  note parts = key_okD [OF ok, unfolded Start(1) key_run.select_convs]
  have sub: "q \<in># Q" if "q \<in># Q - {#Granted n#}" for q using that by (rule in_diffD)
  have "1 \<le> count Q (Granted n)" using Start(3) by simp
  then have "count Q (Granted n) = 1" "count S n = 0" using parts(1) [of n] by linarith+
  then have "count (Q - {#Granted n#}) (Granted m) + count (add_mset n S) m \<le> 1" for m
    using parts(1) [of m] by (cases "m = n") simp_all
  moreover have "claimed root m \<and> \<not> answered root m \<and> m \<le> actionDispatchAttempts"
    if "Granted m \<in># Q - {#Granted n#} \<or> m \<in># add_mset n S" for m
    using that parts(2) [of m] sub Start(3) by auto
  ultimately show ?thesis
    unfolding key_ok_def Start(2) key_run.select_convs using parts(3-5) sub by blast
next
  case (Not_started n Q env reason root answer root' S)
  with ok show ?thesis by (auto intro: released_ok)
next
  case (Gone q Q root S)
  with ok show ?thesis by (auto intro: key_ok_fewer)
next
  case (Answer name env raw limit root answer root' Q S)
  then have "written name raw answer root root'" by (intro publish_written)
  then have same: "map_of root' (actionDispatchName m) = map_of root (actionDispatchName m)"
    "map_of root' (actionNotDispatchedName m) = map_of root (actionNotDispatchedName m)" for m
    using written_others [of name raw answer root root' "actionDispatchName m"]
      written_others [of name raw answer root root' "actionNotDispatchedName m"] Answer(3) by auto
  then show ?thesis
    using ok unfolding Answer(1,2) key_ok_def by (simp add: claimed_def answered_def marked_def)
qed

lemma key_steps_ok: "key_step\<^sup>*\<^sup>* r r' \<Longrightarrow> key_ok r \<Longrightarrow> key_ok r'"
  by (induction rule: rtranclp_induct) (auto intro: key_step_ok)

section \<open>At most one dispatch\<close>

lemma sent_once:
  assumes ok: "key_ok r" and "n \<in># ky_sent r"
  shows "ky_sent r = {#n#}"
proof -
  note parts = key_okD [OF ok]
  have same: "m = n" if "m \<in># ky_sent r" for m
  proof (rule ccontr)
    assume "m \<noteq> n"
    have "\<not> a < b" if "a \<in># ky_sent r" "b \<in># ky_sent r" for a b
    proof
      assume "a < b"
      have "marked (ky_root r) a" "marked (ky_root r) b" using that parts(2) claimed_marked by blast+
      with \<open>a < b\<close> parts(5) [of a] parts(5) [of b] have "answered (ky_root r) a" by auto
      with parts(2) [of a] that show False by blast
    qed
    with that assms(2) \<open>m \<noteq> n\<close> show False by (metis linorder_neqE_nat)
  qed
  have "count (ky_sent r) n = 1"
    using parts(1) [of n] assms(2) by (metis One_nat_def add_leE count_greater_eq_one_iff le_antisym)
  moreover have "count (ky_sent r) m = 0" if "m \<noteq> n" for m using same that by (auto simp: count_eq_zero_iff)
  ultimately show ?thesis by (auto simp: multiset_eq_iff)
qed

lemma sent_never_closed:
  assumes ok: "key_ok r" and "n \<in># ky_sent r"
  shows "\<not> closedAt env (ky_root r) m"
proof
  assume "closedAt env (ky_root r) m"
  note parts = key_okD [OF ok]
  from \<open>closedAt env (ky_root r) m\<close> have m: "marked (ky_root r) m"
    by (auto simp: closedAt_def marked_def split: sum.splits dest: claim_read_Inr)
  have n: "claimed (ky_root r) n" "\<not> answered (ky_root r) n" "n \<le> actionDispatchAttempts"
    using parts(2) [of n] assms(2) by simp_all
  have "1 \<le> n" using parts(5) [OF claimed_marked [OF n(1)]] by simp
  have "m \<le> n"
    using parts(5) [OF m] n(2) \<open>1 \<le> n\<close> by (metis atLeastLessThan_iff not_le)
  moreover have "claimed (ky_root r) m" if "m < n"
    using that parts(5) [OF claimed_marked [OF n(1)]] parts(5) [OF m] parts(3) [of m] by auto
  ultimately have "claimed (ky_root r) m" using n(1) by (cases "m = n") simp_all
  moreover have "int m \<le> maxSafeInteger"
    using \<open>m \<le> n\<close> n(3) by (simp add: actionDispatchAttempts_def maxSafeInteger_def)
  ultimately show False using \<open>closedAt env (ky_root r) m\<close> claimed_not_closed by blast
qed

text \<open>No step removes or changes a record.\<close>

lemma key_step_kept:
  assumes "key_step r r'"
  shows "kept (ky_root r) (ky_root r') \<and> ky_sent r \<subseteq># ky_sent r'"
  using assms
proof (cases rule: key_step.cases)
  case (Answer name env raw limit root answer root' Q S)
  then have "written name raw answer root root'" by (intro publish_written)
  with Answer written_kept show ?thesis by auto
qed (auto dest: claim_written close_written release_written written_kept)

lemma key_steps_kept: "key_step\<^sup>*\<^sup>* r r' \<Longrightarrow> kept (ky_root r) (ky_root r') \<and> ky_sent r \<subseteq># ky_sent r'"
proof (induction rule: rtranclp_induct)
  case (step r' r'')
  with key_step_kept [OF step(2)] show ?case by (auto intro: kept_trans subset_mset.order_trans)
qed simp

lemma closed_stays:
  assumes "closedAt env root m" and "kept root root'"
  shows "closedAt os_answers root' m"
proof -
  from assms(1) obtain raw where "map_of root (actionDispatchName m) = Some (Whole raw)"
    by (auto simp: closedAt_def split: sum.splits dest: claim_read_Inr)
  with assms show ?thesis by (intro closedAt_answers [OF assms(1)]) (simp add: kept_def)
qed

end
