(* ===== verification/Reservations.thy ===== *)
theory Reservations
  imports Journal
begin

text \<open>
  The reservations of the journal and the index of first scopes (\<^verbatim>\<open>action_journal.go\<close>,
  \<^verbatim>\<open>action_key_index.go\<close>, and the names of \<^verbatim>\<open>action_execution.go\<close>): an entry appears whole or not at
  all, exactly one request makes it, and every later request is held to what it records.
\<close>

section \<open>Names\<close>

definition actionHash :: "crypto \<Rightarrow> bytes \<Rightarrow> jvalue \<Rightarrow> bytes" where
  "actionHash C domain v = hex_encode (sha256 C (''judgment-pack-gateway/'' @ domain @ ''/1:'' @ canon v))"

text \<open>The scope of a delegated sender is given as the value a reservation records.\<close>

definition actionNamespace :: "crypto \<Rightarrow> bytes \<Rightarrow> members option \<Rightarrow> bytes \<Rightarrow> bytes \<Rightarrow> bytes \<Rightarrow> bytes" where
  "actionNamespace C authority delegated issuer subject key =
     (case delegated of
        Some scope \<Rightarrow>
          actionHash C ''delegated-action-key''
            (VObject (obj_set (obj_set (obj_set [] ''authority'' (VString authority)) ''scope'' (VObject scope))
              ''key'' (VString key)))
      | None \<Rightarrow>
          actionHash C ''action-key''
            (VObject (obj_set (obj_set (obj_set (obj_set [] ''authority'' (VString authority)) ''issuer'' (VString issuer))
              ''subject'' (VString subject)) ''key'' (VString key))))"

record actionIdentity =
  ai_fingerprint :: bytes
  ai_previous :: bytes

section \<open>Entries of the journal\<close>

text \<open>An entry by a rename of its stage: a directory at the name refuses it.\<close>

definition publishEntry ::
  "journal_env \<Rightarrow> bytes \<Rightarrow> actionRecord list \<Rightarrow> journal_dir \<Rightarrow> (journal_error + unit) \<times> journal_dir" where
  "publishEntry env name records j =
     (if \<not> je_stages env then (Inl JournalUnavailable, j)
      else if \<not> list_all record_valid records then (Inl JournalInvalid, j)
      else if \<not> je_retains env \<or> \<not> je_opens env \<or> \<not> je_syncs env then (Inl JournalUnavailable, j)
      else case map_of j name of
        Some (Directory _ _) \<Rightarrow> (Inl RecordExists, j)
      | Some NoDirectory \<Rightarrow> (Inl JournalUnavailable, j)
      | None \<Rightarrow>
          if \<not> je_places env then (Inl JournalUnavailable, j)
          else (Inr (), AList.update name (Directory True (map (\<lambda>r. (rec_name r, Whole (rec_raw r))) records)) j))"

definition publishUnlessPresent ::
  "journal_env \<Rightarrow> bytes \<Rightarrow> actionRecord list \<Rightarrow> journal_dir \<Rightarrow> (journal_error + bool) \<times> journal_dir" where
  "publishUnlessPresent env name records j =
     (if \<not> je_looks env name then (Inl JournalUnavailable, j)
      else if map_of j name \<noteq> None then (Inr False, j)
      else case publishEntry env name records j of
        (Inr _, j) \<Rightarrow> (Inr True, j)
      | (Inl RecordExists, j) \<Rightarrow> (Inr False, j)
      | (Inl e, j) \<Rightarrow> (Inl e, j))"

definition openActionDirectory :: "journal_env \<Rightarrow> journal_dir \<Rightarrow> bytes \<Rightarrow> journal_error + action_entry" where
  "openActionDirectory env j name =
     (case map_of j name of
        Some (Directory private root) \<Rightarrow>
          if je_looks env name \<and> private \<and> je_opens env then Inr root else Inl JournalInvalid
      | _ \<Rightarrow> Inl JournalInvalid)"

definition holdEntry :: "journal_env \<Rightarrow> journal_dir \<Rightarrow> bytes \<Rightarrow> journal_error + action_entry" where
  "holdEntry env j name =
     (if \<not> je_syncs env then Inl JournalUnavailable else openActionDirectory env j name)"

section \<open>Reservations\<close>

definition intent_record :: "actionIdentity \<Rightarrow> bytes" where
  "intent_record identity =
     ''{'' @ json_field ''journalVersion'' (json_text actionJournalVersion) @ '','' @
     json_field ''identityVersion'' (json_text actionIdentityVersion) @ '','' @
     json_field ''fingerprint'' (json_text (ai_fingerprint identity)) @ ''}''"

definition reservationRecords :: "actionIdentity \<Rightarrow> members option \<Rightarrow> actionRecord list" where
  "reservationRecords identity scope =
     (case scope of
        None \<Rightarrow> []
      | Some ms \<Rightarrow> [\<lparr> rec_name = ''scope.json'', rec_raw = canon (VObject ms), rec_limit = actionScopeLimit \<rparr>]) @
     [\<lparr> rec_name = ''intent.json'', rec_raw = intent_record identity, rec_limit = 1024 \<rparr>]"

text \<open>The intent a reservation records, held to the request's identity of the version it records.\<close>

definition holdsIntent :: "members \<Rightarrow> actionIdentity \<Rightarrow> journal_error option" where
  "holdsIntent obj identity =
     (if \<not> exactlyMembers obj [(''journalVersion'', True), (''identityVersion'', False), (''fingerprint'', True)]
      then Some JournalInvalid
      else if string_of obj ''journalVersion'' \<noteq> actionJournalVersion \<or> \<not> isLowerHexOfLen (string_of obj ''fingerprint'') 64
      then Some JournalInvalid
      else if present obj ''identityVersion'' \<and> string_of obj ''identityVersion'' \<noteq> actionIdentityVersion
      then Some JournalInvalid
      else if string_of obj ''fingerprint'' \<noteq>
                (if present obj ''identityVersion'' then ai_fingerprint identity else ai_previous identity)
      then Some KeyConflict else None)"

definition holdsIdentity :: "journal_env \<Rightarrow> action_entry \<Rightarrow> actionIdentity \<Rightarrow> members option \<Rightarrow> journal_error option" where
  "holdsIdentity env root identity scope =
     (if (case scope of
            None \<Rightarrow> False
          | Some ms \<Rightarrow> claim_read env root ''scope.json'' actionScopeLimit \<noteq> Inr (canon (VObject ms)))
      then Some JournalInvalid
      else case claim_read env root ''intent.json'' 1024 of
        Inl _ \<Rightarrow> Some JournalInvalid
      | Inr raw \<Rightarrow>
          (case parseJSON raw of
             Inr (VObject obj) \<Rightarrow> holdsIntent obj identity
           | _ \<Rightarrow> Some JournalInvalid))"

definition identity_named :: "bytes \<Rightarrow> actionIdentity \<Rightarrow> bool" where
  "identity_named namespace identity \<longleftrightarrow> isLowerHexOfLen namespace 64 \<and> isLowerHexOfLen (ai_fingerprint identity) 64"

definition openReservation ::
  "journal_env \<Rightarrow> bytes \<Rightarrow> actionIdentity \<Rightarrow> members option \<Rightarrow> journal_dir \<Rightarrow> journal_error + action_entry" where
  "openReservation env namespace identity scope j =
     (if \<not> identity_named namespace identity then Inl KeyInvalid
      else case holdEntry env j namespace of
        Inl e \<Rightarrow> Inl e
      | Inr root \<Rightarrow> (case holdsIdentity env root identity scope of Some e \<Rightarrow> Inl e | None \<Rightarrow> Inr root))"

text \<open>The entry reserved, and whether this request made it.\<close>

definition reserveScoped ::
  "journal_env \<Rightarrow> bytes \<Rightarrow> actionIdentity \<Rightarrow> members option \<Rightarrow> journal_dir \<Rightarrow>
     (journal_error + action_entry \<times> bool) \<times> journal_dir" where
  "reserveScoped env namespace identity scope j =
     (if \<not> identity_named namespace identity then (Inl KeyInvalid, j)
      else case publishUnlessPresent env namespace (reservationRecords identity scope) j of
        (Inl e, j) \<Rightarrow> (Inl e, j)
      | (Inr made, j) \<Rightarrow>
          (case holdEntry env j namespace of
             Inl e \<Rightarrow> (Inl e, j)
           | Inr root \<Rightarrow>
               if made then (Inr (root, True), j)
               else (case holdsIdentity env root identity scope of
                       Some e \<Rightarrow> (Inl e, j)
                     | None \<Rightarrow> (Inr (root, False), j))))"

definition reserveClosed ::
  "journal_env \<Rightarrow> bytes \<Rightarrow> bytes \<Rightarrow> actionIdentity \<Rightarrow> members option \<Rightarrow> journal_dir \<Rightarrow> (journal_error + unit) \<times> journal_dir" where
  "reserveClosed env now namespace identity scope j =
     (if \<not> identity_named namespace identity then (Inl KeyInvalid, j)
      else publishEntry env namespace
        (reservationRecords identity scope @
          [\<lparr> rec_name = actionDispatchName 1, rec_raw = closedMarker now 1, rec_limit = 1024 \<rparr>]) j)"

definition has_entry :: "journal_env \<Rightarrow> journal_dir \<Rightarrow> bytes \<Rightarrow> bool" where
  "has_entry env j namespace \<longleftrightarrow> isLowerHexOfLen namespace 64 \<and> je_looks env namespace \<and> map_of j namespace \<noteq> None"

section \<open>First scopes\<close>

definition holdSubjectKey ::
  "journal_env \<Rightarrow> bytes \<Rightarrow> members \<Rightarrow> journal_dir \<Rightarrow> (journal_error + unit) \<times> journal_dir" where
  "holdSubjectKey env name scope j =
     (if \<not> isLowerHexOfLen name 64 then (Inl KeyInvalid, j)
      else case publishUnlessPresent env name
             [\<lparr> rec_name = ''scope.json'', rec_raw = canon (VObject scope), rec_limit = actionScopeLimit \<rparr>] j of
        (Inl e, j) \<Rightarrow> (Inl e, j)
      | (Inr made, j) \<Rightarrow>
          (case holdEntry env j name of
             Inl e \<Rightarrow> (Inl e, j)
           | Inr root \<Rightarrow>
               if made then (Inr (), j)
               else (case claim_read env root ''scope.json'' actionScopeLimit of
                       Inl _ \<Rightarrow> (Inl JournalInvalid, j)
                     | Inr recorded \<Rightarrow>
                         if recorded \<noteq> canon (VObject scope) then (Inl ScopeConflict, j) else (Inr (), j))))"

definition actionIndexDirectory :: bytes where
  "actionIndexDirectory = ''index''"

definition actionIndexVersion :: bytes where
  "actionIndexVersion = ''1''"

definition actionIndexLimit :: nat where
  "actionIndexLimit = 16 * 2 ^ 10"

record actionKeyFirstScope =
  fs_file :: bytes
  fs_key :: bytes
  fs_record :: bytes

text \<open>Under a delegation, the scope and the name of the subject's record are given.\<close>

definition actionFirstScope ::
  "crypto \<Rightarrow> bytes \<Rightarrow> (members \<times> bytes) option \<Rightarrow> bytes \<Rightarrow> bytes \<Rightarrow> bytes \<Rightarrow> bytes \<Rightarrow> actionKeyFirstScope" where
  "actionFirstScope C authority delegated issuer subject key namespace =
     (let scope = (case delegated of
            Some (scope, _) \<Rightarrow> scope
          | None \<Rightarrow> obj_set (obj_set [] ''issuer'' (VString issuer)) ''subject'' (VString subject));
          subjectRecord = (case delegated of Some (_, name) \<Rightarrow> name | None \<Rightarrow> []);
          first = obj_set [] ''indexVersion'' (VString actionIndexVersion);
          first = obj_set first ''authority'' (VString authority);
          first = obj_set first ''key'' (VString key);
          first = obj_set first ''reservation'' (VString namespace);
          first = obj_set first ''scope'' (VObject scope);
          first = (if subjectRecord \<noteq> [] then obj_set first ''subjectRecord'' (VString subjectRecord) else first)
      in \<lparr> fs_file = actionHash C ''action-key-index'' (VObject (obj_set [] ''key'' (VString key))) @ ''.json'',
           fs_key = key, fs_record = canon (VObject first) \<rparr>)"

definition readKeyIndex :: "journal_env \<Rightarrow> action_entry \<Rightarrow> actionKeyFirstScope \<Rightarrow> journal_error + bool" where
  "readKeyIndex env index first =
     (case readActionRecord env index (fs_file first) actionIndexLimit of
        Inl RecordAbsent \<Rightarrow> Inr False
      | Inl _ \<Rightarrow> Inl JournalInvalid
      | Inr raw \<Rightarrow>
          (case parseJSON raw of
             Inr (VObject obj) \<Rightarrow>
               if \<not> exactlyMembers obj [(''indexVersion'', True), (''authority'', True), (''key'', True),
                      (''reservation'', True), (''scope'', True), (''subjectRecord'', False)]
               then Inl JournalInvalid
               else if string_of obj ''indexVersion'' \<noteq> actionIndexVersion \<or> string_of obj ''key'' \<noteq> fs_key first
               then Inl JournalInvalid
               else if raw \<noteq> fs_record first then Inl FirstScopeConflict else Inr True
           | _ \<Rightarrow> Inl JournalInvalid))"

definition keyIndexed :: "journal_env \<Rightarrow> journal_dir \<Rightarrow> actionKeyFirstScope \<Rightarrow> journal_error + bool" where
  "keyIndexed env j first =
     (if \<not> je_looks env actionIndexDirectory then Inl JournalUnavailable
      else if map_of j actionIndexDirectory = None then Inr False
      else case openActionDirectory env j actionIndexDirectory of
        Inl e \<Rightarrow> Inl e
      | Inr index \<Rightarrow> readKeyIndex env index first)"

definition holdKeyIndex :: "journal_env \<Rightarrow> actionKeyFirstScope \<Rightarrow> journal_dir \<Rightarrow> (journal_error + unit) \<times> journal_dir" where
  "holdKeyIndex env first j =
     (if map_of j actionIndexDirectory = None \<and> \<not> je_mkdir env then (Inl JournalUnavailable, j)
      else let j = (if map_of j actionIndexDirectory = None
                    then AList.update actionIndexDirectory (Directory True []) j else j) in
        case openActionDirectory env j actionIndexDirectory of
          Inl e \<Rightarrow> (Inl e, j)
        | Inr index \<Rightarrow>
            (case readKeyIndex env index first of
               Inl e \<Rightarrow> (Inl e, j)
             | Inr True \<Rightarrow> (if je_syncs env then Inr () else Inl JournalUnavailable, j)
             | Inr False \<Rightarrow>
                 (case publishActionRecord env
                    \<lparr> rec_name = fs_file first, rec_raw = fs_record first, rec_limit = actionIndexLimit \<rparr> index of
                    (answer, index) \<Rightarrow>
                      let j = AList.update actionIndexDirectory (Directory True index) j in
                      (case answer of
                         Inr _ \<Rightarrow> (Inr (), j)
                       | Inl RecordExists \<Rightarrow>
                           (case readKeyIndex env index first of
                              Inl e \<Rightarrow> (Inl e, j)
                            | Inr _ \<Rightarrow> (if je_syncs env then Inr () else Inl JournalUnavailable, j))
                       | Inl e \<Rightarrow> (Inl e, j)))))"

end
