(* ===== verification/Journal_Claims.thy ===== *)
theory Journal_Claims
  imports Journal_Run Reservations
begin

text \<open>
  The properties of the action journal: one key is dispatched at most once, whatever requests, crashes
  and restarts it meets; it behaves as a register written once; and a reservation binds its key to one
  content.
\<close>

section \<open>Dispatch\<close>

text \<open>C5: A keyed action is dispatched at most once.  From a key just reserved, let any requests, of any
  number of processes, read its attempt, claim it, close it, start the write program, answer that it was
  not started, or die at any point, within a write too, with any answer of the filesystem: the write
  program is started at most once in all; and once any reader has read the key as closed, it is never
  started at all.\<close>

theorem dispatch_at_most_once:
  assumes "key_new r" and "key_step\<^sup>*\<^sup>* r r'"
  shows "size (ky_sent r') \<le> 1 \<and>
    (\<forall>env r''. closed env (ky_root r') \<longrightarrow> key_step\<^sup>*\<^sup>* r' r'' \<longrightarrow> ky_sent r'' = {#})"
proof (intro conjI allI impI)
  have ok: "key_ok r'" by (rule key_steps_ok [OF assms(2) key_new_ok [OF assms(1)]])
  show "size (ky_sent r') \<le> 1"
    using sent_once [OF ok] by (metis One_nat_def le0 multiset_nonemptyE order_refl size_empty size_single)
  fix env r''
  assume "closed env (ky_root r')" and later: "key_step\<^sup>*\<^sup>* r' r''"
  then obtain m where "closedAt env (ky_root r') m" by (auto simp: closed_def list_ex_iff)
  then have "closedAt os_answers (ky_root r'') m" using closed_stays key_steps_kept [OF later] by blast
  with sent_never_closed [OF key_steps_ok [OF later ok]] show "ky_sent r'' = {#}" by blast
qed

text \<open>A request that finds the key free, claims its first attempt and starts the program.\<close>

definition sample_key :: key_run where
  "sample_key = \<lparr> ky_root = [(''intent.json'', Whole ''{}'')], ky_requests = {#}, ky_sent = {#} \<rparr>"

definition sample_claimed :: action_entry where
  "sample_claimed = [(''intent.json'', Whole ''{}''), (actionDispatchName 1, Whole (dispatch_marker 1))]"

lemma sample_dispatch_run:
  "key_step\<^sup>*\<^sup>* sample_key \<lparr> ky_root = sample_claimed, ky_requests = {#}, ky_sent = {#1#} \<rparr>"
proof -
  let ?root = "[(''intent.json'', Whole ''{}'')]"
  have "attempt os_answers ?root = Inr (1, False)" by code_simp
  then have "key_step sample_key \<lparr> ky_root = ?root, ky_requests = {#Found 1#}, ky_sent = {#} \<rparr>"
    unfolding sample_key_def by (rule key_step.Look)
  moreover have claim: "claimDispatchUnder os_answers 1 None [] ?root = (Inr (), sample_claimed)" by code_simp
  have "key_step \<lparr> ky_root = ?root, ky_requests = {#Found 1#}, ky_sent = {#} \<rparr>
      \<lparr> ky_root = sample_claimed, ky_requests = add_mset (Granted 1) ({#Found 1#} - {#Found 1#}), ky_sent = {#} \<rparr>"
    by (rule key_step.Claim [OF _ _ claim]) (simp_all add: marker_ok_def)
  moreover have "key_step \<lparr> ky_root = sample_claimed, ky_requests = {#Granted 1#}, ky_sent = {#} \<rparr>
      \<lparr> ky_root = sample_claimed, ky_requests = {#Granted 1#} - {#Granted 1#}, ky_sent = {#1#} \<rparr>"
    by (rule key_step.Start) simp
  ultimately show ?thesis by simp
qed

lemma sample_key_new: "key_new sample_key"
  by (auto simp: key_new_def sample_key_def answered_def marked_def actionDispatchName_def actionNotDispatchedName_def)

theorem dispatch_at_most_once_witness:
  "size (ky_sent \<lparr> ky_root = sample_claimed, ky_requests = {#}, ky_sent = {#1#} \<rparr>) \<le> 1 \<and>
   attempt os_answers sample_claimed = Inr (1, True)"
proof -
  have "attempt os_answers sample_claimed = Inr (1, True)" by code_simp
  with dispatch_at_most_once [OF sample_key_new sample_dispatch_run] show ?thesis by blast
qed

section \<open>The register a key implements\<close>

text \<open>To its callers a key is open, sent or shut, and once it is sent or shut it stays so.\<close>

datatype key_state = Open | Sent | Shut

inductive register_step :: "key_state \<Rightarrow> key_state \<Rightarrow> bool" where
  Send: "register_step Open Sent"
| Shut: "register_step Open Shut"
| Stay: "register_step s s"

inductive_cases register_from_sent: "register_step Sent s"
inductive_cases register_from_shut: "register_step Shut s"




section \<open>Reservations\<close>

text \<open>Bytes that are printed as they are, in either form of a string.\<close>

definition plain_byte :: "char \<Rightarrow> bool" where
  "plain_byte c \<longleftrightarrow> byte c \<in> {0x20..<0x80} - {0x22, 0x26, 0x3C, 0x3E, 0x5C}"

lemma decode_rune_plain: "plain_byte c \<Longrightarrow> decode_rune (c # s) = (byte c, 1)"
  by (auto simp: plain_byte_def)

lemma json_text_plain: "list_all plain_byte s \<Longrightarrow> json_text s = writeCanonicalString s"
proof -
  assume "list_all plain_byte s"
  then have "json_runes s = concat (map escape_rune (runes s))"
  proof (induction s)
    case (Cons c s)
    then have "byte c \<noteq> rune_error" and "json_rune (byte c) = escape_rune (byte c)"
      by (auto simp: plain_byte_def rune_error_def json_rune_def)
    with Cons show ?case
      by (subst json_runes.simps, subst runes.simps) (simp add: decode_rune_plain del: decode_rune.simps)
  qed (simp add: json_runes.simps)
  then show ?thesis by (simp add: json_text_def writeCanonicalString_def)
qed

lemma lower_hex_plain: "isLowerHexOfLen s n \<Longrightarrow> list_all plain_byte s"
  by (fastforce simp: isLowerHexOfLen_def list_all_iff is_lower_hex_def is_digit_def plain_byte_def)

lemma intent_parses:
  assumes "isLowerHexOfLen (ai_fingerprint identity) 64"
  shows "parseJSON (intent_record identity) =
    Inr (VObject [(''journalVersion'', VString actionJournalVersion), (''identityVersion'', VString actionIdentityVersion),
      (''fingerprint'', VString (ai_fingerprint identity))])"
proof -
  let ?ms = "[(''journalVersion'', VString actionJournalVersion), (''identityVersion'', VString actionIdentityVersion),
      (''fingerprint'', VString (ai_fingerprint identity))]"
  have "list_all plain_byte ''journalVersion''" "list_all plain_byte ''identityVersion''" "list_all plain_byte ''fingerprint''"
    "list_all plain_byte actionJournalVersion" "list_all plain_byte actionIdentityVersion"
    by (simp_all add: plain_byte_def actionJournalVersion_def actionIdentityVersion_def)
  then have "intent_record identity = CHR ''{'' # comma_join (map write_member ?ms) @ ''}''"
    using json_text_plain lower_hex_plain [OF assms] by (simp add: intent_record_def json_field_def)
  moreover have "wf (VObject ?ms)"
    unfolding wf_VObject_iff using assms
    by (simp add: isLowerHexOfLen_def valid_utf8_lower_hex valid_utf8_ascii actionJournalVersion_def actionIdentityVersion_def)
  ultimately show ?thesis using parseJSON_written [of ?ms] by (simp add: maxNesting_def)
qed

lemma holdsIntent_made:
  assumes "isLowerHexOfLen (ai_fingerprint identity) 64"
  shows "holdsIntent [(''journalVersion'', VString actionJournalVersion), (''identityVersion'', VString actionIdentityVersion),
      (''fingerprint'', VString (ai_fingerprint identity))] other =
    (if ai_fingerprint other = ai_fingerprint identity then None else Some KeyConflict)"
  using assms
  by (auto simp: holdsIntent_def exactlyMembers_def string_of_def present_def memberString_def obj_get_def)

text \<open>What reading a record of a reservation answers: its bytes or a refusal, and its bytes when the
  filesystem answers.\<close>

lemma claim_read_whole:
  assumes "map_of root name = Some (Whole raw)" and "actionJournalName name" and "length raw \<le> limit"
    and "parseJSON raw = Inr v"
  shows "claim_read env root name limit = (if \<not> je_looks env name then Inl JournalUnavailable
    else if \<not> je_reads env name then Inl JournalInvalid else Inr raw)"
  using assms by (simp add: claim_read_def readActionRecord_def)

text \<open>The records of a reservation that a request made.\<close>

definition reserved :: "action_entry \<Rightarrow> actionIdentity \<Rightarrow> members option \<Rightarrow> bool" where
  "reserved root identity scope \<longleftrightarrow>
     isLowerHexOfLen (ai_fingerprint identity) 64 \<and> length (intent_record identity) \<le> 1024 \<and>
     map_of root ''intent.json'' = Some (Whole (intent_record identity)) \<and>
     (\<forall>ms. scope = Some ms \<longrightarrow>
        map_of root ''scope.json'' = Some (Whole (canon (VObject ms))) \<and> length (canon (VObject ms)) \<le> actionScopeLimit)"

lemma reserved_kept: "reserved root identity scope \<Longrightarrow> kept root root' \<Longrightarrow> reserved root' identity scope"
  by (auto simp: reserved_def kept_def)

lemma publishEntry_made:
  "publishEntry env name records j = (Inr (), j') \<Longrightarrow>
     map_of j' name = Some (Directory True (map (\<lambda>r. (rec_name r, Whole (rec_raw r))) records)) \<and>
     list_all record_valid records"
  by (auto simp: publishEntry_def update_conv' split: if_splits option.splits journal_node.splits)

lemma reserveScoped_made:
  assumes "reserveScoped env namespace identity scope j = (Inr (root, True), j')"
  shows "reserved root identity scope" and "map_of j' namespace = Some (Directory True root)"
proof -
  from assms have named: "identity_named namespace identity"
    and pub: "publishEntry env namespace (reservationRecords identity scope) j = (Inr (), j')"
    and hold: "holdEntry env j' namespace = Inr root"
    by (auto simp: reserveScoped_def publishUnlessPresent_def
        split: if_splits sum.splits prod.splits option.splits journal_error.splits)
  from publishEntry_made [OF pub] hold
  have root: "root = map (\<lambda>r. (rec_name r, Whole (rec_raw r))) (reservationRecords identity scope)"
    by (auto simp: holdEntry_def openActionDirectory_def split: if_splits)
  with publishEntry_made [OF pub] show "map_of j' namespace = Some (Directory True root)" by blast
  from publishEntry_made [OF pub] named show "reserved root identity scope"
    by (cases scope) (auto simp: reserved_def root reservationRecords_def record_valid_def identity_named_def)
qed

lemma holdsIdentity_reserved:
  assumes "reserved root identity scope"
    and "\<And>ms. scope = Some ms \<Longrightarrow> wf (VObject ms) \<and> jdepth (VObject ms) \<le> maxNesting"
  shows "holdsIdentity os_answers root other scope =
      (if ai_fingerprint other = ai_fingerprint identity then None else Some KeyConflict)"
    and "holdsIdentity env root other scope = None \<Longrightarrow> ai_fingerprint other = ai_fingerprint identity"
proof -
  from assms(1) have hex: "isLowerHexOfLen (ai_fingerprint identity) 64"
    and intent: "map_of root ''intent.json'' = Some (Whole (intent_record identity))" "length (intent_record identity) \<le> 1024"
    by (simp_all add: reserved_def)
  note read = claim_read_whole [OF intent(1) _ intent(2) intent_parses [OF hex]]
  have names: "actionJournalName ''intent.json''" "actionJournalName ''scope.json''" by (simp_all add: actionJournalName_def)
  have "claim_read os_answers root ''scope.json'' actionScopeLimit = Inr (canon (VObject ms))" if "scope = Some ms" for ms
    using assms that parseJSON_canon_space [of "VObject ms" "[]"] names(2)
      claim_read_whole [of root "''scope.json''" "canon (VObject ms)" actionScopeLimit _ os_answers]
    by (simp add: reserved_def os_answers_def)
  then show "holdsIdentity os_answers root other scope =
      (if ai_fingerprint other = ai_fingerprint identity then None else Some KeyConflict)"
    using read names(1) intent_parses [OF hex] holdsIntent_made [OF hex]
    by (cases scope) (simp_all add: holdsIdentity_def os_answers_def)
  show "ai_fingerprint other = ai_fingerprint identity" if "holdsIdentity env root other scope = None"
    using that read [of env] names(1) intent_parses [OF hex] holdsIntent_made [OF hex, of other]
    by (simp add: holdsIdentity_def split: if_splits)
qed

text \<open>C26: A reservation binds its key to one content.  Once a request made the entry of a key, then while
  the records of the entry stay (others may be added), every request under that key with the same scope
  is held to it: with the same fingerprint it gets that entry and has not made it, with another it is
  refused as a conflict; and whatever the filesystem answers, a request that gets the entry has the
  fingerprint it was made with.\<close>

theorem reservation_binds:
  assumes "reserveScoped env namespace identity scope j = (Inr (root, True), j')"
    and "\<And>ms. scope = Some ms \<Longrightarrow> wf (VObject ms) \<and> jdepth (VObject ms) \<le> maxNesting"
    and "map_of j'' namespace = Some (Directory True root'')" and "kept root root''"
    and "identity_named namespace other"
  shows "reserveScoped os_answers namespace other scope j'' =
      (if ai_fingerprint other = ai_fingerprint identity then Inr (root'', False) else Inl KeyConflict, j'') \<and>
    (\<forall>env' got. fst (reserveScoped env' namespace other scope j'') = Inr got \<longrightarrow>
       ai_fingerprint other = ai_fingerprint identity \<and> got = (root'', False))"
proof -
  have res: "reserved root'' identity scope" by (rule reserved_kept [OF reserveScoped_made(1) [OF assms(1)] assms(4)])
  note holds = holdsIdentity_reserved [OF res assms(2)]
  have "reserveScoped os_answers namespace other scope j'' =
      (if ai_fingerprint other = ai_fingerprint identity then Inr (root'', False) else Inl KeyConflict, j'')"
    using holds(1) [of other] assms(3,5)
    by (simp add: reserveScoped_def publishUnlessPresent_def holdEntry_def openActionDirectory_def os_answers_def)
  moreover have "ai_fingerprint other = ai_fingerprint identity \<and> got = (root'', False)"
    if "fst (reserveScoped env' namespace other scope j'') = Inr got" for env' got
    using that holds(2) [of env' other] assms(3,5)
    by (auto simp: reserveScoped_def publishUnlessPresent_def holdEntry_def openActionDirectory_def
        split: if_splits option.splits)
  ultimately show ?thesis by blast
qed

text \<open>A reservation in an empty journal, and a request with another fingerprint.\<close>

definition sample_identity :: "char \<Rightarrow> actionIdentity" where
  "sample_identity c = \<lparr> ai_fingerprint = replicate 64 c, ai_previous = [] \<rparr>"

theorem reservation_binds_witness:
  "reserveScoped os_answers (replicate 64 CHR ''c'') (sample_identity CHR ''b'') None
     [(replicate 64 CHR ''c'', Directory True [(''intent.json'', Whole (intent_record (sample_identity CHR ''a'')))])]
   = (Inl KeyConflict,
     [(replicate 64 CHR ''c'', Directory True [(''intent.json'', Whole (intent_record (sample_identity CHR ''a'')))])])"
proof -
  let ?name = "replicate 64 CHR ''c''" and ?a = "sample_identity CHR ''a''" and ?b = "sample_identity CHR ''b''"
  let ?root = "[(''intent.json'', Whole (intent_record ?a))]"
  have made: "reserveScoped os_answers ?name ?a None [] = (Inr (?root, True), [(?name, Directory True ?root)])"
    by code_simp
  have named: "identity_named ?name ?b" and differ: "ai_fingerprint ?b \<noteq> ai_fingerprint ?a" by code_simp+
  from reservation_binds [OF made _ _ kept_refl named] differ show ?thesis by simp
qed

end
