(* ===== verification/Pointers.thy ===== *)
theory Pointers
  imports Records
begin

text \<open>
  JSON pointers into a request's arguments (\<^verbatim>\<open>decision_policy.go\<close>: \<^verbatim>\<open>validPointer\<close>,
  \<^verbatim>\<open>resolvePointer\<close>, \<^verbatim>\<open>unreachedArgument\<close>), and the paths they spell: a path is the names and
  indices that lead to a value, each value has one spelling, and the spelling resolves to it.
\<close>

section \<open>Pointers\<close>

text \<open>Each tilde is followed by a 0 or a 1.\<close>

fun tildes_ok :: "bytes \<Rightarrow> bool" where
  "tildes_ok [] = True"
| "tildes_ok [c] \<longleftrightarrow> c \<noteq> CHR ''~''"
| "tildes_ok (c # d # s) \<longleftrightarrow> (c = CHR ''~'' \<longrightarrow> d = CHR ''0'' \<or> d = CHR ''1'') \<and> tildes_ok (d # s)"

definition validPointer :: "bytes \<Rightarrow> bool" where
  "validPointer p \<longleftrightarrow> p = [] \<or> (hd p = CHR ''/'' \<and> tildes_ok p)"

text \<open>\<^verbatim>\<open>strings.ReplaceAll\<close> of a two-byte text and of a one-byte text.\<close>

fun replace_pair :: "char \<Rightarrow> char \<Rightarrow> bytes \<Rightarrow> bytes \<Rightarrow> bytes" where
  "replace_pair a b r (x # y # s) =
     (if x = a \<and> y = b then r @ replace_pair a b r s else x # replace_pair a b r (y # s))"
| "replace_pair a b r s = s"

definition replace_char :: "char \<Rightarrow> bytes \<Rightarrow> bytes \<Rightarrow> bytes" where
  "replace_char c r s = concat (map (\<lambda>x. if x = c then r else [x]) s)"

definition unescape_token :: "bytes \<Rightarrow> bytes" where
  "unescape_token token = replace_pair (CHR ''~'') (CHR ''0'') ''~'' (replace_pair (CHR ''~'') (CHR ''1'') ''/'' token)"

definition escape_token :: "bytes \<Rightarrow> bytes" where
  "escape_token name = replace_char (CHR ''/'') ''~1'' (replace_char (CHR ''~'') ''~0'' name)"

text \<open>The element a token names: no leading zero, no sign, not past the end.\<close>

definition element_at :: "jvalue list \<Rightarrow> bytes \<Rightarrow> jvalue option" where
  "element_at vs token =
     (if token = [] \<or> (1 < length token \<and> hd token = CHR ''0'') \<or> \<not> list_all is_digit token then None
      else case parse_int token of
        None \<Rightarrow> None
      | Some i \<Rightarrow> if int (length vs) \<le> i then None else Some (vs ! nat i))"

fun resolve_tokens :: "jvalue \<Rightarrow> bytes list \<Rightarrow> jvalue option" where
  "resolve_tokens v [] = Some v"
| "resolve_tokens (VObject ms) (t # ts) =
     (case obj_get ms (unescape_token t) of None \<Rightarrow> None | Some w \<Rightarrow> resolve_tokens w ts)"
| "resolve_tokens (VArray vs) (t # ts) =
     (case element_at vs (unescape_token t) of None \<Rightarrow> None | Some w \<Rightarrow> resolve_tokens w ts)"
| "resolve_tokens _ (t # ts) = None"

definition resolvePointer :: "jvalue \<Rightarrow> bytes \<Rightarrow> jvalue option" where
  "resolvePointer v p = (if p = [] then Some v else resolve_tokens v (split_on (CHR ''/'') (tl p)))"

section \<open>Arguments no pointer reaches\<close>

definition covered :: "bytes list \<Rightarrow> bytes \<Rightarrow> bool" where
  "covered named at = list_ex (\<lambda>p. p = [] \<or> at = p \<or> cut_prefix (p @ ''/'') at \<noteq> None) named"

definition onTheWay :: "bytes list \<Rightarrow> bytes list \<Rightarrow> bytes \<Rightarrow> bool" where
  "onTheWay named shaped at \<longleftrightarrow>
     list_ex (\<lambda>p. cut_prefix (at @ ''/'') p \<noteq> None) named \<or>
     list_ex (\<lambda>p. p = at \<or> cut_prefix (at @ ''/'') p \<noteq> None) shaped"

text \<open>\<^verbatim>\<open>visit\<close> and \<^verbatim>\<open>under\<close>, the latter over the members of an object and over the elements of an array
  from an index on.\<close>

function visit :: "bytes list \<Rightarrow> bytes list \<Rightarrow> jvalue \<Rightarrow> bytes \<Rightarrow> bytes option"
  and under_members :: "bytes list \<Rightarrow> bytes list \<Rightarrow> members \<Rightarrow> bytes \<Rightarrow> bytes option"
  and under_elements :: "bytes list \<Rightarrow> bytes list \<Rightarrow> jvalue list \<Rightarrow> nat \<Rightarrow> bytes \<Rightarrow> bytes option"
where
  "visit named shaped v at =
     (if covered named at then None
      else case v of
        VObject ms \<Rightarrow> if onTheWay named shaped at then under_members named shaped ms at else Some at
      | VArray vs \<Rightarrow> if onTheWay named shaped at then under_elements named shaped vs 0 at else Some at
      | _ \<Rightarrow> Some at)"
| "under_members named shaped [] at = None"
| "under_members named shaped ((name, member) # ms) at =
     (case visit named shaped member (at @ ''/'' @ escape_token name) of
        Some bad \<Rightarrow> Some bad
      | None \<Rightarrow> under_members named shaped ms at)"
| "under_elements named shaped [] i at = None"
| "under_elements named shaped (element # vs) i at =
     (case visit named shaped element (at @ ''/'' @ format_nat i) of
        Some bad \<Rightarrow> Some bad
      | None \<Rightarrow> under_elements named shaped vs (i + 1) at)"
  by pat_completeness auto
termination
  by (relation "measure (\<lambda>x. case x of
        Inl (_, _, v, _) \<Rightarrow> size v
      | Inr (Inl (_, _, ms, _)) \<Rightarrow> size_list (size_prod (\<lambda>_. 0) size) ms
      | Inr (Inr (_, _, vs, _, _)) \<Rightarrow> size_list size vs)") auto

declare visit.simps [simp del]

definition unreachedArgument :: "jvalue \<Rightarrow> bytes list \<Rightarrow> bytes list \<Rightarrow> bytes option" where
  "unreachedArgument arguments named shaped =
     (if covered named [] then None
      else case arguments of
        VObject ms \<Rightarrow> under_members named shaped ms []
      | VArray vs \<Rightarrow> under_elements named shaped vs 0 []
      | _ \<Rightarrow> None)"

section \<open>Paths\<close>

datatype jstep = Member bytes | Element nat

fun value_at :: "jvalue \<Rightarrow> jstep list \<Rightarrow> jvalue option" where
  "value_at v [] = Some v"
| "value_at (VObject ms) (Member n # path) =
     (case obj_get ms n of None \<Rightarrow> None | Some w \<Rightarrow> value_at w path)"
| "value_at (VArray vs) (Element i # path) = (if i < length vs then value_at (vs ! i) path else None)"
| "value_at _ _ = None"

fun step_token :: "jstep \<Rightarrow> bytes" where
  "step_token (Member n) = escape_token n"
| "step_token (Element i) = format_nat i"

definition pointer_of :: "jstep list \<Rightarrow> bytes" where
  "pointer_of path = concat (map (\<lambda>s. CHR ''/'' # step_token s) path)"

fun scalar :: "jvalue \<Rightarrow> bool" where
  "scalar (VObject _) = False"
| "scalar (VArray _) = False"
| "scalar _ = True"

end
