(* ===== verification/Record_Signature.thy ===== *)
theory Record_Signature
  imports Records
begin

text \<open>
  A record held to a signature of a runtime key (\<^verbatim>\<open>record_signature.go\<close>): the readable lines of a sidecar,
  what a record signature signs, and the step that holds a record to one.
\<close>

definition sidecarName :: bytes where
  "sidecarName = ''signatures.jsonl''"

definition maxSidecarLine :: nat where
  "maxSidecarLine = 4096"

definition recordSignaturePrefix :: bytes where
  "recordSignaturePrefix = ''judgment-pack-runtime/record-signature/1:''"

definition maxSidecarSequence :: int where
  "maxSidecarSequence = maxSafeInteger - 1"

record recordSigner =
  rs_keyID :: bytes
  rs_key :: bytes

record recordSignature =
  sl_keyID :: bytes
  sl_trail :: bytes
  sl_sequence :: int
  sl_record :: bytes
  sl_signature :: bytes

definition recordSignatureMembers :: "(bytes \<times> bool) list" where
  "recordSignatureMembers =
     [(''kind'', True), (''sidecarVersion'', True), (''keyId'', True), (''trail'', True), (''sequence'', True),
      (''record'', True), (''signature'', True)]"

text \<open>What the walk found for one record: whether a sidecar lies beside it, and the lines that name it.\<close>

record sidecarEvidence =
  se_beside :: bool
  se_lines :: "recordSignature list"

definition sequence_of :: "members \<Rightarrow> int option" where
  "sequence_of obj =
     (case obj_get obj ''sequence'' of
        Some (VInt s) \<Rightarrow> if s < 1 \<or> maxSidecarSequence < s then None else Some s
      | _ \<Rightarrow> None)"

definition readRecordSignature :: "bytes \<Rightarrow> recordSignature option" where
  "readRecordSignature line =
     (case parseJSON line of
        Inr (VObject obj) \<Rightarrow> do {
          require (exactlyMembers obj recordSignatureMembers);
          require (string_of obj ''kind'' = ''record-signature'');
          require (string_of obj ''sidecarVersion'' = ''1'');
          require (isLowerHexOfLen (string_of obj ''keyId'') 32);
          require (isLowerHexOfLen (string_of obj ''trail'') 32);
          s \<leftarrow> sequence_of obj;
          require (isDigest (string_of obj ''record''));
          require (isLowerHexOfLen (string_of obj ''signature'') 128);
          signature \<leftarrow> hex_decode (string_of obj ''signature'');
          Some \<lparr> sl_keyID = string_of obj ''keyId'', sl_trail = string_of obj ''trail'', sl_sequence = s,
                 sl_record = string_of obj ''record'', sl_signature = signature \<rparr> }
      | _ \<Rightarrow> None)"

text \<open>The pieces before each newline; the piece after the last is none.\<close>

definition sidecar_line :: "bytes \<Rightarrow> bytes \<Rightarrow> recordSignature list" where
  "sidecar_line wanted line =
     (if maxSidecarLine < length line then []
      else case readRecordSignature line of
        Some s \<Rightarrow> if sl_record s = wanted then [s] else []
      | None \<Rightarrow> [])"

definition recordSignaturesFor :: "bytes \<Rightarrow> bytes \<Rightarrow> recordSignature list" where
  "recordSignaturesFor data wanted = concat (map (sidecar_line wanted) (butlast (split_on CHR 0x0A data)))"

definition recordSignedBytes :: "bytes \<Rightarrow> int \<Rightarrow> bytes \<Rightarrow> bytes" where
  "recordSignedBytes trail sequence digest =
     recordSignaturePrefix @
     canon (VObject (obj_set (obj_set (obj_set [] ''record'' (VString digest)) ''sequence'' (VInt sequence))
       ''trail'' (VString trail)))"

definition chainPosition :: "members \<Rightarrow> (bytes \<times> int) option" where
  "chainPosition obj =
     (if \<not> isLowerHexOfLen (string_of obj ''trail'') 32 then None
      else map_option (\<lambda>s. (string_of obj ''trail'', s)) (sequence_of obj))"

datatype signature_refusal = NotChained | NoSidecar | SignatureInvalid | SignerUntrusted | NotSigned

text \<open>The loop over the lines that name the record's place and digest, with what the lines before
  showed.\<close>

fun judge_lines ::
  "crypto \<Rightarrow> bytes \<Rightarrow> recordSigner list \<Rightarrow> recordSignature list \<Rightarrow> bool \<Rightarrow> bool \<Rightarrow> signature_refusal option" where
  "judge_lines C signed signers [] invalid untrusted =
     Some (if invalid then SignatureInvalid else if untrusted then SignerUntrusted else NotSigned)"
| "judge_lines C signed signers (line # lines) invalid untrusted =
     (let trusted = filter (\<lambda>signer. rs_keyID signer = sl_keyID line) signers in
      if list_ex (\<lambda>signer. ed_verify C (rs_key signer) signed (sl_signature line)) trusted then None
      else if trusted \<noteq> [] then judge_lines C signed signers lines True untrusted
      else judge_lines C signed signers lines invalid True)"

definition holdToSignature ::
  "crypto \<Rightarrow> runtimeRecord \<Rightarrow> bytes \<Rightarrow> sidecarEvidence \<Rightarrow> recordSigner list \<Rightarrow> signature_refusal option" where
  "holdToSignature C r recordDigest evidence signers =
     (case chainPosition (rr_obj r) of
        None \<Rightarrow> Some NotChained
      | Some (trail, sequence) \<Rightarrow>
          if \<not> se_beside evidence then Some NoSidecar
          else judge_lines C (recordSignedBytes trail sequence recordDigest) signers
            (filter (\<lambda>l. sl_trail l = trail \<and> sl_sequence l = sequence \<and> sl_record l = recordDigest) (se_lines evidence))
            False False)"

section \<open>What a step that holds a record shows\<close>

lemma judge_lines_None:
  "judge_lines C signed signers lines invalid untrusted = None \<longleftrightarrow>
     (\<exists>line \<in> set lines. \<exists>signer \<in> set signers. rs_keyID signer = sl_keyID line \<and>
        ed_verify C (rs_key signer) signed (sl_signature line))"
  by (induction lines arbitrary: invalid untrusted) (auto simp: list_ex_iff Let_def)

text \<open>A line of the evidence signs the record's place and digest under a key that is named.\<close>

definition signed_by :: "crypto \<Rightarrow> runtimeRecord \<Rightarrow> bytes \<Rightarrow> sidecarEvidence \<Rightarrow> recordSigner list \<Rightarrow> bool" where
  "signed_by C r recordDigest evidence signers \<longleftrightarrow>
     (\<exists>trail sequence. chainPosition (rr_obj r) = Some (trail, sequence) \<and> se_beside evidence \<and>
        (\<exists>line \<in> set (se_lines evidence). sl_trail line = trail \<and> sl_sequence line = sequence \<and> sl_record line = recordDigest \<and>
          (\<exists>signer \<in> set signers. rs_keyID signer = sl_keyID line \<and>
             ed_verify C (rs_key signer) (recordSignedBytes trail sequence recordDigest) (sl_signature line))))"

lemma holdToSignature_None: "holdToSignature C r d e signers = None \<longleftrightarrow> signed_by C r d e signers"
  by (auto simp: holdToSignature_def signed_by_def judge_lines_None split: option.splits)

end
