(* ===== verification/Policy.thy ===== *)
theory Policy
  imports Pointers Record_Signature
begin

text \<open>
  Decision policies (\<^verbatim>\<open>decision_policy.go\<close>): a policy read from the engine's configuration, and the step
  that holds a request, the record it names and its arguments to one.
\<close>

section \<open>Policies\<close>

record factBinding =
  fb_argument :: bytes
  fb_fact :: bytes

record fixedValue =
  fv_argument :: bytes
  fv_canonical :: bytes

record heldShape =
  hs_pointer :: bytes
  hs_array :: bool
  hs_maxLength :: nat

record decisionPolicy =
  pol_outcomes :: "bytes list"
  pol_packs :: "bytes list"
  pol_reviewed :: bool
  pol_bind :: "factBinding list"
  pol_fix :: "fixedValue list"
  pol_shape :: "heldShape list"
  pol_closed :: bool
  pol_signers :: "recordSigner list"
  pol_digest :: bytes

definition maxArgumentValues :: nat where
  "maxArgumentValues = 2 ^ 19"

definition maxShapeLength :: nat where
  "maxShapeLength = maxArgumentValues"

definition decisionPolicyMembers :: "(bytes \<times> bool) list" where
  "decisionPolicyMembers =
     [(''outcomes'', True), (''packs'', False), (''reviewed'', False), (''bind'', False), (''fix'', False),
      (''shape'', False), (''closed'', False), (''requireSignedRecord'', False)]"

section \<open>Reading a policy\<close>

text \<open>\<^verbatim>\<open>strconv.Atoi\<close> with its error dropped: 0 for text that is no number, the nearest bound of 64 bits
  for a number out of range.\<close>

definition atoi :: "bytes \<Rightarrow> int" where
  "atoi s =
     (let neg = (take 1 s = ''-''); ds = (if take 1 s = ''-'' \<or> take 1 s = ''+'' then drop 1 s else s)
      in if ds = [] then 0
         else case parse_digits 0 ds of
                None \<Rightarrow> 0
              | Some n \<Rightarrow> max min_int64 (min max_int64 (if neg then - int n else int n)))"

definition versionAtLeast :: "bytes \<Rightarrow> bytes \<Rightarrow> bool" where
  "versionAtLeast version least \<longleftrightarrow> atoi least \<le> atoi version"

fun policy_items :: "(bytes \<Rightarrow> bool) \<Rightarrow> bytes list \<Rightarrow> jvalue list \<Rightarrow> bytes list option" where
  "policy_items form list [] = Some list"
| "policy_items form list (VString s # vs) =
     (if \<not> form s \<or> s \<in> set list then None else policy_items form (list @ [s]) vs)"
| "policy_items form list (_ # vs) = None"

definition policyList :: "members \<Rightarrow> bytes \<Rightarrow> (bytes \<Rightarrow> bool) \<Rightarrow> bytes list option" where
  "policyList obj name form =
     (case obj_get obj name of
        Some (VArray (v # vs)) \<Rightarrow> policy_items form [] (v # vs)
      | _ \<Rightarrow> None)"

definition pointer_member :: "members \<Rightarrow> bytes \<Rightarrow> bytes option" where
  "pointer_member obj name =
     do { s \<leftarrow> memberString obj name; require (validPointer s); Some s }"

fun parse_bind :: "factBinding list \<Rightarrow> jvalue list \<Rightarrow> factBinding list option" where
  "parse_bind bound [] = Some bound"
| "parse_bind bound (VObject pair # vs) =
     do {
       require (exactlyMembers pair [(''argument'', True), (''fact'', True)]);
       argument \<leftarrow> pointer_member pair ''argument'';
       factPointer \<leftarrow> pointer_member pair ''fact'';
       require (\<lparr> fb_argument = argument, fb_fact = factPointer \<rparr> \<notin> set bound);
       parse_bind (bound @ [\<lparr> fb_argument = argument, fb_fact = factPointer \<rparr>]) vs }"
| "parse_bind bound (_ # vs) = None"

fun parse_fix :: "factBinding list \<Rightarrow> fixedValue list \<Rightarrow> jvalue list \<Rightarrow> fixedValue list option" where
  "parse_fix bound fixed [] = Some fixed"
| "parse_fix bound fixed (VObject pair # vs) =
     do {
       require (exactlyMembers pair [(''argument'', True), (''value'', True)]);
       argument \<leftarrow> pointer_member pair ''argument'';
       require (argument \<notin> fv_argument ` set fixed);
       require (argument \<notin> fb_argument ` set bound);
       v \<leftarrow> obj_get pair ''value'';
       parse_fix bound (fixed @ [\<lparr> fv_argument = argument, fv_canonical = canon v \<rparr>]) vs }"
| "parse_fix bound fixed (_ # vs) = None"

text \<open>The bound of an array's shape; an object's has none.\<close>

definition shape_length :: "members \<Rightarrow> bool \<Rightarrow> nat option" where
  "shape_length held array =
     (case obj_get held ''maxLength'' of
        None \<Rightarrow> if array then None else Some 0
      | Some (VInt n) \<Rightarrow> if \<not> array \<or> n < 0 \<or> int maxShapeLength < n then None else Some (nat n)
      | Some _ \<Rightarrow> None)"

definition shape_array :: "members \<Rightarrow> bool option" where
  "shape_array held =
     (if string_of held ''type'' = ''array'' then Some True
      else if string_of held ''type'' = ''object'' then Some False else None)"

fun parse_shape :: "fixedValue list \<Rightarrow> heldShape list \<Rightarrow> jvalue list \<Rightarrow> heldShape list option" where
  "parse_shape fixed shapes [] = Some shapes"
| "parse_shape fixed shapes (VObject held # vs) =
     do {
       require (exactlyMembers held [(''pointer'', True), (''type'', True), (''maxLength'', False)]);
       pointer \<leftarrow> pointer_member held ''pointer'';
       array \<leftarrow> shape_array held;
       n \<leftarrow> shape_length held array;
       require (pointer \<notin> hs_pointer ` set shapes);
       require (pointer \<notin> fv_argument ` set fixed);
       parse_shape fixed (shapes @ [\<lparr> hs_pointer = pointer, hs_array = array, hs_maxLength = n \<rparr>]) vs }"
| "parse_shape fixed shapes (_ # vs) = None"

fun parse_signers :: "crypto \<Rightarrow> bytes list \<Rightarrow> recordSigner list option" where
  "parse_signers C [] = Some []"
| "parse_signers C (k # ks) =
     do {
       raw \<leftarrow> hex_decode k;
       require (unusableSigningKey raw = []);
       rest \<leftarrow> parse_signers C ks;
       Some (\<lparr> rs_keyID = keyIDFor C raw, rs_key = raw \<rparr> # rest) }"

text \<open>A member that may be absent: its value when it is, and its reading when it is not, from the
  version on that has it.\<close>

definition bool_member :: "members \<Rightarrow> bytes \<Rightarrow> bool option" where
  "bool_member obj name = (case obj_get obj name of None \<Rightarrow> Some False | Some (VBool b) \<Rightarrow> Some b | _ \<Rightarrow> None)"

definition array_member :: "members \<Rightarrow> bytes \<Rightarrow> (jvalue list \<Rightarrow> 'a list option) \<Rightarrow> 'a list option" where
  "array_member obj name read =
     (case obj_get obj name of None \<Rightarrow> Some [] | Some (VArray vs) \<Rightarrow> read vs | _ \<Rightarrow> None)"

definition since :: "bytes \<Rightarrow> bytes \<Rightarrow> members \<Rightarrow> bytes \<Rightarrow> bool" where
  "since version least obj name \<longleftrightarrow> (present obj name \<longrightarrow> versionAtLeast version least)"

definition parseDecisionPolicy :: "crypto \<Rightarrow> bytes \<Rightarrow> jvalue \<Rightarrow> decisionPolicy option" where
  "parseDecisionPolicy C version v =
     (case v of VObject obj \<Rightarrow> do {
          require (exactlyMembers obj decisionPolicyMembers);
          outcomes \<leftarrow> policyList obj ''outcomes'' (\<lambda>s. s \<noteq> []);
          packs \<leftarrow> (if present obj ''packs'' then policyList obj ''packs'' isDigest else Some []);
          reviewed \<leftarrow> bool_member obj ''reviewed'';
          bound \<leftarrow> array_member obj ''bind'' (parse_bind []);
          require (since version ''9'' obj ''fix'');
          fixed \<leftarrow> array_member obj ''fix'' (parse_fix bound []);
          require (since version ''10'' obj ''shape'');
          shapes \<leftarrow> array_member obj ''shape'' (parse_shape fixed []);
          require (since version ''9'' obj ''closed'');
          closedMember \<leftarrow> bool_member obj ''closed'';
          require (since version ''5'' obj ''requireSignedRecord'');
          signers \<leftarrow> (if present obj ''requireSignedRecord''
                      then do { keys \<leftarrow> policyList obj ''requireSignedRecord'' (\<lambda>s. isLowerHexOfLen s 64);
                                parse_signers C keys }
                      else Some []);
          Some \<lparr> pol_outcomes = outcomes, pol_packs = packs, pol_reviewed = reviewed, pol_bind = bound, pol_fix = fixed,
                 pol_shape = shapes, pol_closed = closedMember, pol_signers = signers,
                 pol_digest = ''sha256:'' @ hex_encode (sha256 C (canon (VObject obj))) \<rparr> }
      | _ \<Rightarrow> None)"

fun parse_policies :: "crypto \<Rightarrow> bytes \<Rightarrow> members \<Rightarrow> (bytes \<times> decisionPolicy) list option" where
  "parse_policies C version [] = Some []"
| "parse_policies C version ((tool, raw) # ms) =
     do {
       require (tool \<noteq> []);
       policy \<leftarrow> parseDecisionPolicy C version raw;
       rest \<leftarrow> parse_policies C version ms;
       Some ((tool, policy) # rest) }"

definition parseDecisionPolicies :: "crypto \<Rightarrow> bytes \<Rightarrow> jvalue \<Rightarrow> (bytes \<times> decisionPolicy) list option" where
  "parseDecisionPolicies C version v = (case v of VObject obj \<Rightarrow> parse_policies C version obj | _ \<Rightarrow> None)"

section \<open>Holding a request to a policy\<close>

record decision =
  dc_recordDigest :: bytes
  dc_packDigest :: bytes

text \<open>Where an action is refused; the steps of a policy's arguments name the pointer.\<close>

datatype policy_refusal =
    RecordUnread
  | PolicySigned signature_refusal
  | Consistency
  | PolicyOutcome
  | PolicyHandoff
  | PolicyPacks
  | PolicyReviewed
  | PolicyBind bytes

definition disposition_of :: "members \<Rightarrow> bytes \<times> bytes \<times> bytes" where
  "disposition_of obj =
     (case obj_get obj ''disposition'' of
        Some (VObject d) \<Rightarrow>
          (string_of d ''kind'', string_of d ''outcomeId'',
           (case obj_get d ''handoff'' of Some (VObject h) \<Rightarrow> string_of h ''state'' | _ \<Rightarrow> []))
      | _ \<Rightarrow> ([], [], []))"

definition facts_of :: "members \<Rightarrow> jvalue option" where
  "facts_of obj = (case obj_get obj ''inputs'' of Some (VObject inputs) \<Rightarrow> obj_get inputs ''facts'' | _ \<Rightarrow> None)"

text \<open>The fact a binding names in the record.\<close>

definition fact_at :: "jvalue option \<Rightarrow> factBinding \<Rightarrow> jvalue option" where
  "fact_at facts b = (case facts of None \<Rightarrow> None | Some facts \<Rightarrow> resolvePointer facts (fb_fact b))"

definition bind_holds :: "jvalue \<Rightarrow> jvalue option \<Rightarrow> factBinding \<Rightarrow> bool" where
  "bind_holds arguments facts b =
     (case resolvePointer arguments (fb_argument b) of
        None \<Rightarrow> False
      | Some argument \<Rightarrow>
          (case fact_at facts b of
             None \<Rightarrow> False
           | Some given \<Rightarrow> canonicalValue given \<and> canon argument = canon given))"

definition fix_holds :: "jvalue \<Rightarrow> fixedValue \<Rightarrow> bool" where
  "fix_holds arguments f =
     (case resolvePointer arguments (fv_argument f) of
        None \<Rightarrow> False
      | Some argument \<Rightarrow> canon argument = fv_canonical f)"

definition shape_holds :: "jvalue \<Rightarrow> heldShape \<Rightarrow> bool" where
  "shape_holds arguments s =
     (case resolvePointer arguments (hs_pointer s) of
        Some (VArray elements) \<Rightarrow> hs_array s \<and> length elements \<le> hs_maxLength s
      | Some (VObject _) \<Rightarrow> \<not> hs_array s
      | _ \<Rightarrow> False)"

definition namedArguments :: "decisionPolicy \<Rightarrow> bytes list" where
  "namedArguments p = map fb_argument (pol_bind p) @ map fv_argument (pol_fix p)"

definition shapedArguments :: "decisionPolicy \<Rightarrow> bytes list" where
  "shapedArguments p = map hs_pointer (pol_shape p)"

text \<open>The arguments held to the bindings, the fixed values, the shapes and, under a closed policy, the
  pointers, in that order: the pointer at which they fail.\<close>

definition hold_arguments :: "jvalue option \<Rightarrow> jvalue \<Rightarrow> decisionPolicy \<Rightarrow> bytes option" where
  "hold_arguments facts arguments policy =
     (case find (\<lambda>b. \<not> bind_holds arguments facts b) (pol_bind policy) of
        Some b \<Rightarrow> Some (fb_argument b)
      | None \<Rightarrow>
     (case find (\<lambda>f. \<not> fix_holds arguments f) (pol_fix policy) of
        Some f \<Rightarrow> Some (fv_argument f)
      | None \<Rightarrow>
     (case find (\<lambda>s. \<not> shape_holds arguments s) (pol_shape policy) of
        Some s \<Rightarrow> Some (hs_pointer s)
      | None \<Rightarrow>
          if pol_closed policy then unreachedArgument arguments (namedArguments policy) (shapedArguments policy)
          else None)))"

definition holdToPolicy ::
  "crypto \<Rightarrow> bytes \<Rightarrow> decision \<Rightarrow> citation list \<Rightarrow> jvalue \<Rightarrow> decisionPolicy \<Rightarrow> sidecarEvidence \<Rightarrow> policy_refusal option" where
  "holdToPolicy C data claimed cites arguments policy signed =
     (case readRuntimeRecord data of
        None \<Rightarrow> Some RecordUnread
      | Some r \<Rightarrow>
     (case (if pol_signers policy \<noteq> [] then holdToSignature C r (dc_recordDigest claimed) signed (pol_signers policy) else None) of
        Some why \<Rightarrow> Some (PolicySigned why)
      | None \<Rightarrow>
          if rr_packDigest r \<noteq> dc_packDigest claimed then Some Consistency
          else
     (case record_citations r of
        None \<Rightarrow> Some Consistency
      | Some recorded \<Rightarrow>
          if \<not> sameCitations recorded cites then Some Consistency
          else
            (case disposition_of (rr_obj r) of (kind, outcome, handoff) \<Rightarrow>
               if kind \<noteq> ''outcome'' \<or> outcome \<notin> set (pol_outcomes policy) then Some PolicyOutcome
               else if handoff \<noteq> ''none'' then Some PolicyHandoff
               else if pol_packs policy \<noteq> [] \<and> rr_packDigest r \<notin> set (pol_packs policy) then Some PolicyPacks
               else if pol_reviewed policy \<and> obj_get (rr_obj r) ''reviewed'' \<noteq> Some (VBool True) then Some PolicyReviewed
               else map_option PolicyBind (hold_arguments (facts_of (rr_obj r)) arguments policy)))))"

end
