(* ===== verification/Pointer_Paths.thy ===== *)
theory Pointer_Paths
  imports Pointers Receipt_Norm
begin

text \<open>
  Each path has one spelling, which resolves to the value the path leads to; and when no argument is
  left unreached, every scalar of the arguments lies under a pointer the policy names.
\<close>

section \<open>Tokens\<close>

lemma replace_pair_other: "x \<noteq> a \<Longrightarrow> replace_pair a b r (x # s) = x # replace_pair a b r s"
  by (cases s) auto

lemma replace_pair_id: "a \<notin> set s \<Longrightarrow> replace_pair a b r s = s"
  by (induction s) (auto simp: replace_pair_other)

lemma escape_token_Nil [simp]: "escape_token [] = []"
  by (simp add: escape_token_def replace_char_def)

lemma escape_token_Cons:
  "escape_token (c # s) =
     (if c = CHR ''~'' then ''~0'' else if c = CHR ''/'' then ''~1'' else [c]) @ escape_token s"
  by (simp add: escape_token_def replace_char_def)

lemma unescape_escape [simp]: "unescape_token (escape_token n) = n"
proof -
  have "replace_pair (CHR ''~'') (CHR ''1'') ''/'' (escape_token n) = replace_char (CHR ''~'') ''~0'' n"
    by (induction n) (auto simp: escape_token_Cons replace_pair_other replace_char_def)
  moreover have "replace_pair (CHR ''~'') (CHR ''0'') ''~'' (replace_char (CHR ''~'') ''~0'' n) = n"
    by (induction n) (auto simp: replace_pair_other replace_char_def)
  ultimately show ?thesis by (simp add: unescape_token_def)
qed

lemma escape_token_no_slash: "CHR ''/'' \<notin> set (escape_token n)"
  by (induction n) (auto simp: escape_token_Cons)

lemma format_nat_no: "\<not> is_digit c \<Longrightarrow> c \<notin> set (format_nat i)"
  using format_nat_digits [of i] by (auto simp: list_all_iff)

lemma step_token_no_slash: "CHR ''/'' \<notin> set (step_token s)"
  by (cases s) (simp_all add: escape_token_no_slash format_nat_no is_digit_def)

lemma unescape_format_nat [simp]: "unescape_token (format_nat i) = format_nat i"
  by (simp add: unescape_token_def replace_pair_id format_nat_no is_digit_def)

lemma element_at_format_nat:
  "element_at vs (format_nat i) = (if int i \<le> max_int64 \<and> i < length vs then Some (vs ! i) else None)"
proof -
  have "parse_int (format_nat i) = (if int i \<le> max_int64 then Some (int i) else None)"
    using take1_sign_digit [OF format_nat_hd_digit format_nat_neq_Nil, of i]
    by (simp add: parse_int_def parse_digits_format_nat min_int64_def)
  moreover have "\<not> (1 < length (format_nat i) \<and> hd (format_nat i) = CHR ''0'')"
    using format_nat_hd_zero [of i] by auto
  ultimately show ?thesis by (auto simp: element_at_def format_nat_digits)
qed

section \<open>Pointers of paths\<close>

lemma pointer_of_Nil [simp]: "pointer_of [] = []"
  by (simp add: pointer_of_def)

lemma pointer_of_Cons [simp]: "pointer_of (s # path) = CHR ''/'' # step_token s @ pointer_of path"
  by (simp add: pointer_of_def)

lemma pointer_of_append [simp]: "pointer_of (p @ q) = pointer_of p @ pointer_of q"
  by (simp add: pointer_of_def)

lemma split_pointer_of:
  "split_on (CHR ''/'') (step_token s @ pointer_of path) = step_token s # map step_token path"
proof (induction path arbitrary: s)
  case Nil
  then show ?case by (simp add: split_on_no_sep step_token_no_slash)
next
  case (Cons s' path)
  then show ?case by (simp add: split_on_Cons_sep step_token_no_slash)
qed

lemma resolve_pointer_of: "resolvePointer v (pointer_of path) = resolve_tokens v (map step_token path)"
  by (cases path) (simp_all add: resolvePointer_def split_pointer_of)

text \<open>Where a path leads and its spelling resolves, they agree; and it does resolve when the indices are
  of 64 bits.\<close>

lemma resolve_agrees:
  "resolve_tokens v (map step_token path) = Some u \<Longrightarrow> value_at v path = Some w \<Longrightarrow> u = w"
proof (induction v path rule: value_at.induct)
  case (2 ms n path)
  then show ?case by (auto split: option.splits)
next
  case (3 vs i path)
  then show ?case by (auto simp: element_at_format_nat split: if_splits)
qed auto

definition index_fits :: "jstep \<Rightarrow> bool" where
  "index_fits s = (case s of Member _ \<Rightarrow> True | Element i \<Rightarrow> int i \<le> max_int64)"

lemma resolve_path:
  "value_at v path = Some w \<Longrightarrow> list_all index_fits path \<Longrightarrow> resolve_tokens v (map step_token path) = Some w"
proof (induction v path rule: value_at.induct)
  case (2 ms n path)
  then show ?case by (auto split: option.splits)
next
  case (3 vs i path)
  then show ?case by (auto simp: element_at_format_nat index_fits_def split: if_splits)
qed auto

text \<open>What a slash ends in the spelling of a path is the spelling of a part of it.\<close>

lemma pointer_of_prefix:
  "pointer_of path = p @ CHR ''/'' # r \<Longrightarrow> \<exists>pre rest. path = pre @ rest \<and> p = pointer_of pre"
proof (induction path arbitrary: p)
  case (Cons s path)
  show ?case
  proof (cases p)
    case Nil
    then show ?thesis by (metis append_Nil pointer_of_Nil)
  next
    case (Cons c p')
    with Cons.prems have c: "c = CHR ''/''" and eq: "step_token s @ pointer_of path = p' @ CHR ''/'' # r" by simp_all
    from eq consider us where "step_token s = p' @ us" "us @ pointer_of path = CHR ''/'' # r"
      | q where "p' = step_token s @ q" "pointer_of path = q @ CHR ''/'' # r"
      by (auto simp: append_eq_append_conv2)
    then obtain q where q: "p' = step_token s @ q" "pointer_of path = q @ CHR ''/'' # r"
    proof cases
      case 1
      then have "us = []" using step_token_no_slash [of s] by (cases us) auto
      with 1 that [of "[]"] show ?thesis by simp
    qed (rule that)
    with Cons.IH obtain pre rest where "path = pre @ rest" "q = pointer_of pre" by blast
    with c q(1) Cons have "s # path = (s # pre) @ rest \<and> p = pointer_of (s # pre)" by simp
    then show ?thesis by blast
  qed
qed simp

section \<open>Every scalar is reached\<close>

lemma under_members_None:
  "under_members named shaped ms at = None \<Longrightarrow> (n, w) \<in> set ms \<Longrightarrow>
     visit named shaped w (at @ ''/'' @ escape_token n) = None"
  by (induction ms) (auto split: option.splits)

lemma under_elements_None:
  "under_elements named shaped vs i at = None \<Longrightarrow> j < length vs \<Longrightarrow>
     visit named shaped (vs ! j) (at @ ''/'' @ format_nat (i + j)) = None"
proof (induction vs arbitrary: i j)
  case (Cons v vs)
  then show ?case using Cons.IH [of "i + 1" "j - 1"] by (cases j) (auto split: option.splits)
qed simp

lemma visit_reaches:
  "visit named shaped v at = None \<Longrightarrow> value_at v path = Some leaf \<Longrightarrow> scalar leaf \<Longrightarrow>
     \<exists>pre rest. path = pre @ rest \<and> covered named (at @ pointer_of pre)"
proof (induction v path arbitrary: at rule: value_at.induct)
  case (2 ms n path)
  then obtain w where w: "obj_get ms n = Some w" "value_at w path = Some leaf" by (auto split: option.splits)
  show ?case
  proof (cases "covered named at")
    case True
    then show ?thesis by (metis append_Nil append_Nil2 pointer_of_Nil)
  next
    case False
    with "2.prems"(1) have "under_members named shaped ms at = None"
      by (auto simp: visit.simps [of named shaped "VObject ms"] split: if_splits)
    with w(1) have "visit named shaped w (at @ ''/'' @ escape_token n) = None"
      using under_members_None by (auto simp: obj_get_def dest!: map_of_SomeD)
    with "2.IH" [OF w(1) _ w(2)] "2.prems"(3) obtain pre rest where "path = pre @ rest"
      "covered named ((at @ ''/'' @ escape_token n) @ pointer_of pre)" by blast
    then have "Member n # path = (Member n # pre) @ rest \<and> covered named (at @ pointer_of (Member n # pre))" by simp
    then show ?thesis by blast
  qed
next
  case (3 vs i path)
  then have i: "i < length vs" "value_at (vs ! i) path = Some leaf" by (auto split: if_splits)
  show ?case
  proof (cases "covered named at")
    case True
    then show ?thesis by (metis append_Nil append_Nil2 pointer_of_Nil)
  next
    case False
    with "3.prems"(1) have "under_elements named shaped vs 0 at = None"
      by (auto simp: visit.simps [of named shaped "VArray vs"] split: if_splits)
    with i(1) have "visit named shaped (vs ! i) (at @ ''/'' @ format_nat i) = None"
      using under_elements_None [of named shaped vs 0 at i] by simp
    with "3.IH" [OF i(1) _ i(2)] "3.prems"(3) obtain pre rest where "path = pre @ rest"
      "covered named ((at @ ''/'' @ format_nat i) @ pointer_of pre)" by blast
    then have "Element i # path = (Element i # pre) @ rest \<and> covered named (at @ pointer_of (Element i # pre))" by simp
    then show ?thesis by blast
  qed
qed (auto simp: visit.simps split: if_splits jvalue.splits)

lemma covered_pointer_of:
  assumes "covered named (pointer_of path)"
  shows "\<exists>pre rest. path = pre @ rest \<and> pointer_of pre \<in> set named"
proof -
  from assms obtain p where p: "p \<in> set named" and "p = [] \<or> pointer_of path = p \<or> (\<exists>r. pointer_of path = p @ CHR ''/'' # r)"
    by (auto simp: covered_def list_ex_iff cut_prefix_eq_Some)
  then show ?thesis using pointer_of_prefix [of path p] by (metis append_Nil append_Nil2 pointer_of_Nil)
qed

lemma unreached_None:
  assumes "unreachedArgument arguments named shaped = None" and "\<not> scalar arguments"
    and "value_at arguments path = Some leaf" and "scalar leaf"
  shows "\<exists>pre rest. path = pre @ rest \<and> pointer_of pre \<in> set named"
proof (cases "covered named []")
  case True
  then show ?thesis using covered_pointer_of [of named "[]"] by (metis append_Nil append_is_Nil_conv pointer_of_Nil)
next
  case False
  have "\<exists>pre rest. path = pre @ rest \<and> covered named (pointer_of pre)"
  proof (cases arguments)
    case (VObject ms)
    with assms(3,4) obtain n q w where path: "path = Member n # q" and w: "obj_get ms n = Some w" "value_at w q = Some leaf"
      by (cases path; cases "hd path") (auto split: option.splits)
    from assms(1) False VObject w(1) have "visit named shaped w ([] @ ''/'' @ escape_token n) = None"
      using under_members_None [of named shaped ms "[]" n w] by (auto simp: unreachedArgument_def obj_get_def dest!: map_of_SomeD)
    from visit_reaches [OF this w(2) assms(4)] obtain pre rest where "q = pre @ rest"
      "covered named (pointer_of (Member n # pre))" by auto
    with path show ?thesis by (metis append_Cons)
  next
    case (VArray vs)
    with assms(3,4) obtain i q where path: "path = Element i # q" and w: "i < length vs" "value_at (vs ! i) q = Some leaf"
      by (cases path; cases "hd path") (auto split: if_splits)
    from assms(1) False VArray w(1) have "visit named shaped (vs ! i) ([] @ ''/'' @ format_nat i) = None"
      using under_elements_None [of named shaped vs 0 "[]" i] by (auto simp: unreachedArgument_def)
    from visit_reaches [OF this w(2) assms(4)] obtain pre rest where "q = pre @ rest"
      "covered named (pointer_of (Element i # pre))" by auto
    with path show ?thesis by (metis append_Cons)
  qed (use assms(2) in auto)
  then show ?thesis using covered_pointer_of by (metis append.assoc)
qed

section \<open>Paths and the canonical order\<close>

lemma value_at_norm: "wf v \<Longrightarrow> value_at (norm_json v) path = map_option norm_json (value_at v path)"
proof (induction v path rule: value_at.induct)
  case (2 ms n path)
  then show ?case
    by (auto simp: norm_members_value obj_get_norm' wf_member split: option.splits)
next
  case (3 vs i path)
  then show ?case by (auto simp: wf_element)
qed (auto simp: norm_members_value)

lemma value_at_append: "value_at v (p @ q) = (case value_at v p of None \<Rightarrow> None | Some u \<Rightarrow> value_at u q)"
  by (induction v p rule: value_at.induct) (auto split: option.splits)

lemma value_at_inside:
  assumes "value_at v path = Some u" and "wf v"
  shows "wf u \<and> jdepth u \<le> jdepth v"
  using assms
proof (induction v path rule: value_at.induct)
  case (2 ms n path)
  then obtain w where w: "obj_get ms n = Some w" "value_at w path = Some u" by (auto split: option.splits)
  then have "jdepth w \<le> jdepth (VObject ms)" using jdepth_member [of n w ms] by (auto simp: obj_get_def dest!: map_of_SomeD)
  with 2 w wf_member show ?case by (meson order_trans)
next
  case (3 vs i path)
  then have i: "i < length vs" "value_at (vs ! i) path = Some u" by (auto split: if_splits)
  then have "jdepth (vs ! i) \<le> jdepth (VArray vs)" using jdepth_element [of "vs ! i" vs] by simp
  with 3 i wf_element show ?case by (meson nth_mem order_trans)
qed auto

lemma norm_scalar_iff: "scalar v \<Longrightarrow> norm_json w = norm_json v \<longleftrightarrow> w = v"
  by (cases v; cases w) (auto simp: norm_members_value)

end
