(* ===== verification/Policy_Held.thy ===== *)
theory Policy_Held
  imports Policy Pointer_Paths
begin

text \<open>
  What a held policy shows: the step that holds a request to a policy is the conjunction of its
  conditions, a policy that was read is of its form, and under a closed policy the arguments of two
  admitted requests hold the same scalars.
\<close>

section \<open>The condition of a policy\<close>

lemma sameCitations_iff: "sameCitations a b \<longleftrightarrow> set a = set b"
proof
  assume "sameCitations a b"
  then have "card (set a) = card (set b)" "set a \<subseteq> set b"
    by (auto simp: sameCitations_def length_remdups_card_conv list_all_iff)
  then show "set a = set b" by (simp add: card_subset_eq)
next
  assume "set a = set b"
  then show "sameCitations a b" by (simp add: sameCitations_def length_remdups_card_conv list_all_iff)
qed

lemma find_None_all: "find (\<lambda>x. \<not> P x) xs = None \<longleftrightarrow> list_all P xs"
  by (induction xs) auto

lemma hold_arguments_None:
  "hold_arguments facts arguments p = None \<longleftrightarrow>
     list_all (bind_holds arguments facts) (pol_bind p) \<and> list_all (fix_holds arguments) (pol_fix p) \<and>
     list_all (shape_holds arguments) (pol_shape p) \<and>
     (pol_closed p \<longrightarrow> unreachedArgument arguments (namedArguments p) (shapedArguments p) = None)"
  by (auto simp: hold_arguments_def find_None_all [symmetric] split: option.splits)

lemma bind_holds_iff:
  "bind_holds arguments facts b \<longleftrightarrow>
     (\<exists>argument given. resolvePointer arguments (fb_argument b) = Some argument \<and> fact_at facts b = Some given \<and>
        canonicalValue given \<and> canon argument = canon given)"
  by (auto simp: bind_holds_def split: option.splits)

lemma fix_holds_iff:
  "fix_holds arguments f \<longleftrightarrow>
     (\<exists>argument. resolvePointer arguments (fv_argument f) = Some argument \<and> canon argument = fv_canonical f)"
  by (auto simp: fix_holds_def split: option.splits)

lemma shape_holds_iff:
  "shape_holds arguments s \<longleftrightarrow>
     (if hs_array s then \<exists>vs. resolvePointer arguments (hs_pointer s) = Some (VArray vs) \<and> length vs \<le> hs_maxLength s
      else \<exists>ms. resolvePointer arguments (hs_pointer s) = Some (VObject ms))"
  by (auto simp: shape_holds_def split: option.splits jvalue.splits)

lemma holdToPolicy_None:
  "holdToPolicy C data claimed cites arguments p signed = None \<longleftrightarrow>
     (\<exists>r recorded. readRuntimeRecord data = Some r \<and>
        (pol_signers p \<noteq> [] \<longrightarrow> signed_by C r (dc_recordDigest claimed) signed (pol_signers p)) \<and>
        rr_packDigest r = dc_packDigest claimed \<and> record_citations r = Some recorded \<and> set recorded = set cites \<and>
        (\<exists>outcome \<in> set (pol_outcomes p). disposition_of (rr_obj r) = (''outcome'', outcome, ''none'')) \<and>
        (pol_packs p \<noteq> [] \<longrightarrow> rr_packDigest r \<in> set (pol_packs p)) \<and>
        (pol_reviewed p \<longrightarrow> obj_get (rr_obj r) ''reviewed'' = Some (VBool True)) \<and>
        hold_arguments (facts_of (rr_obj r)) arguments p = None)"
proof (cases "readRuntimeRecord data")
  case (Some r)
  obtain kind outcome handoff where d: "disposition_of (rr_obj r) = (kind, outcome, handoff)" by (metis prod_cases3)
  have "holdToSignature C r (dc_recordDigest claimed) signed (pol_signers p) = None \<longleftrightarrow>
      signed_by C r (dc_recordDigest claimed) signed (pol_signers p)" by (rule holdToSignature_None)
  with Some d show ?thesis
    by (cases "record_citations r"; cases "holdToSignature C r (dc_recordDigest claimed) signed (pol_signers p)")
      (simp_all add: holdToPolicy_def sameCitations_iff, blast+)
qed (simp add: holdToPolicy_def)

section \<open>Policies that were read\<close>

lemma policy_items_sound:
  "policy_items form list vs = Some out \<Longrightarrow> distinct list \<Longrightarrow> list_all form list \<Longrightarrow>
     distinct out \<and> list_all form out \<and> length out = length list + length vs"
  by (induction form list vs rule: policy_items.induct) (auto split: if_splits)

lemma policyList_sound:
  "policyList obj name form = Some out \<Longrightarrow> out \<noteq> [] \<and> distinct out \<and> list_all form out"
  by (auto simp: policyList_def split: option.splits jvalue.splits list.splits dest!: policy_items_sound)

lemma pointer_member_valid: "pointer_member obj name = Some p \<Longrightarrow> validPointer p"
  by (auto simp: pointer_member_def split: Option.bind_splits)

definition bind_sound :: "factBinding list \<Rightarrow> bool" where
  "bind_sound bs \<longleftrightarrow> distinct bs \<and> (\<forall>b \<in> set bs. validPointer (fb_argument b) \<and> validPointer (fb_fact b))"

lemma parse_bind_sound: "parse_bind bs vs = Some out \<Longrightarrow> bind_sound bs \<Longrightarrow> bind_sound out"
proof (induction bs vs rule: parse_bind.induct)
  case (2 bs pair vs)
  then show ?case by (fastforce simp: bind_sound_def split: Option.bind_splits dest: pointer_member_valid)
qed auto

definition fix_sound :: "factBinding list \<Rightarrow> fixedValue list \<Rightarrow> bool" where
  "fix_sound bs fs \<longleftrightarrow> distinct (map fv_argument fs) \<and> fv_argument ` set fs \<inter> fb_argument ` set bs = {} \<and>
     (\<forall>f \<in> set fs. validPointer (fv_argument f))"

lemma fix_sound_snoc:
  "fix_sound bs fs \<Longrightarrow> validPointer a \<Longrightarrow> a \<notin> fv_argument ` set fs \<Longrightarrow> a \<notin> fb_argument ` set bs \<Longrightarrow>
     fix_sound bs (fs @ [\<lparr> fv_argument = a, fv_canonical = c \<rparr>])"
  by (auto simp: fix_sound_def)

lemma parse_fix_sound: "parse_fix bs fs vs = Some out \<Longrightarrow> fix_sound bs fs \<Longrightarrow> fix_sound bs out"
proof (induction bs fs vs rule: parse_fix.induct)
  case (2 bs fs pair vs)
  then show ?case by (auto split: Option.bind_splits dest: pointer_member_valid intro: fix_sound_snoc)
qed auto

definition shape_sound :: "fixedValue list \<Rightarrow> heldShape list \<Rightarrow> bool" where
  "shape_sound fs ss \<longleftrightarrow> distinct (map hs_pointer ss) \<and> hs_pointer ` set ss \<inter> fv_argument ` set fs = {} \<and>
     (\<forall>s \<in> set ss. validPointer (hs_pointer s) \<and> hs_maxLength s \<le> maxShapeLength \<and> (\<not> hs_array s \<longrightarrow> hs_maxLength s = 0))"

lemma shape_length_sound:
  "shape_length held array = Some n \<Longrightarrow> n \<le> maxShapeLength \<and> (\<not> array \<longrightarrow> n = 0)"
  by (auto simp: shape_length_def split: option.splits jvalue.splits if_splits)

lemma shape_sound_snoc:
  "shape_sound fs ss \<Longrightarrow> validPointer q \<Longrightarrow> q \<notin> hs_pointer ` set ss \<Longrightarrow> q \<notin> fv_argument ` set fs \<Longrightarrow>
     shape_length held array = Some n \<Longrightarrow>
     shape_sound fs (ss @ [\<lparr> hs_pointer = q, hs_array = array, hs_maxLength = n \<rparr>])"
  by (auto simp: shape_sound_def dest: shape_length_sound)

lemma parse_shape_sound: "parse_shape fs ss vs = Some out \<Longrightarrow> shape_sound fs ss \<Longrightarrow> shape_sound fs out"
proof (induction fs ss vs rule: parse_shape.induct)
  case (2 fs ss held vs)
  from "2.prems"(1) obtain q array n where
    held: "exactlyMembers held [(''pointer'', True), (''type'', True), (''maxLength'', False)]"
      "pointer_member held ''pointer'' = Some q" "shape_array held = Some array" "shape_length held array = Some n"
      "q \<notin> hs_pointer ` set ss" "q \<notin> fv_argument ` set fs"
      "parse_shape fs (ss @ [\<lparr> hs_pointer = q, hs_array = array, hs_maxLength = n \<rparr>]) vs = Some out"
    by (auto split: Option.bind_splits)
  with 2 shape_sound_snoc pointer_member_valid show ?case by simp
qed auto

definition signers_sound :: "crypto \<Rightarrow> recordSigner list \<Rightarrow> bool" where
  "signers_sound C ss \<longleftrightarrow> (\<forall>s \<in> set ss. rs_keyID s = keyIDFor C (rs_key s) \<and> publicKeyFault (rs_key s) = KeySound)"

lemma parse_signers_sound: "parse_signers C ks = Some out \<Longrightarrow> signers_sound C out"
  by (induction C ks arbitrary: out rule: parse_signers.induct)
    (auto simp: signers_sound_def unusableSigningKey_def split: Option.bind_splits keyFault.splits)

lemma array_member_sound:
  "array_member obj name read = Some out \<Longrightarrow> P [] \<Longrightarrow> (\<And>vs. read vs = Some out \<Longrightarrow> P out) \<Longrightarrow> P out"
  by (auto simp: array_member_def split: option.splits jvalue.splits)

text \<open>The form of a policy.\<close>

definition policy_sound :: "crypto \<Rightarrow> decisionPolicy \<Rightarrow> bool" where
  "policy_sound C p \<longleftrightarrow>
     pol_outcomes p \<noteq> [] \<and> distinct (pol_outcomes p) \<and> [] \<notin> set (pol_outcomes p) \<and>
     distinct (pol_packs p) \<and> list_all isDigest (pol_packs p) \<and>
     bind_sound (pol_bind p) \<and> fix_sound (pol_bind p) (pol_fix p) \<and> shape_sound (pol_fix p) (pol_shape p) \<and>
     signers_sound C (pol_signers p)"

lemma parseDecisionPolicy_sound:
  assumes "parseDecisionPolicy C version v = Some p"
  shows "policy_sound C p"
proof -
  obtain obj where v: "v = VObject obj" using assms by (cases v) (simp_all add: parseDecisionPolicy_def)
  note read = assms [unfolded v parseDecisionPolicy_def jvalue.case]
  have outcomes: "policyList obj ''outcomes'' (\<lambda>s. s \<noteq> []) = Some (pol_outcomes p)"
    using read by (auto split: Option.bind_splits)
  have packs: "pol_packs p = [] \<or> policyList obj ''packs'' isDigest = Some (pol_packs p)"
    using read by (auto split: Option.bind_splits if_splits)
  have bound: "array_member obj ''bind'' (parse_bind []) = Some (pol_bind p)"
    and fixed: "array_member obj ''fix'' (parse_fix (pol_bind p) []) = Some (pol_fix p)"
    and shapes: "array_member obj ''shape'' (parse_shape (pol_fix p) []) = Some (pol_shape p)"
    using read by (auto split: Option.bind_splits)
  have signers: "pol_signers p = [] \<or> (\<exists>keys. parse_signers C keys = Some (pol_signers p))"
    using read by (auto split: Option.bind_splits if_splits)
  have nil: "bind_sound []" "fix_sound bs []" "shape_sound fs []" for bs fs
    by (simp_all add: bind_sound_def fix_sound_def shape_sound_def)
  have b: "bind_sound (pol_bind p)"
    by (rule array_member_sound [OF bound, where P = bind_sound]) (blast intro: nil parse_bind_sound)+
  have f: "fix_sound (pol_bind p) (pol_fix p)"
    by (rule array_member_sound [OF fixed, where P = "fix_sound (pol_bind p)"]) (blast intro: nil parse_fix_sound)+
  have s: "shape_sound (pol_fix p) (pol_shape p)"
    by (rule array_member_sound [OF shapes, where P = "shape_sound (pol_fix p)"]) (blast intro: nil parse_shape_sound)+
  have "signers_sound C (pol_signers p)" using signers parse_signers_sound by (auto simp: signers_sound_def)
  moreover have "distinct (pol_packs p) \<and> list_all isDigest (pol_packs p)"
    using packs policyList_sound [of obj "''packs''"] by auto
  ultimately show ?thesis using b f s policyList_sound [OF outcomes] by (auto simp: policy_sound_def list_all_iff)
qed

section \<open>Closed policies\<close>

lemma resolve_tokens_append:
  "resolve_tokens v (ts @ us) = (case resolve_tokens v ts of None \<Rightarrow> None | Some w \<Rightarrow> resolve_tokens w us)"
  by (induction v ts rule: resolve_tokens.induct) (auto split: option.splits)

lemma parse_int_digits: "list_all is_digit s \<Longrightarrow> parse_int s = Some i \<Longrightarrow> 0 \<le> i"
  using take1_sign_digit [of s] by (cases s) (auto simp: parse_int_def Let_def split: if_splits option.splits)

lemma element_at_nth: "element_at vs token = Some w \<Longrightarrow> \<exists>i < length vs. w = vs ! i"
proof -
  assume "element_at vs token = Some w"
  then obtain i where i: "list_all is_digit token" "parse_int token = Some i" "i < int (length vs)" "w = vs ! nat i"
    by (auto simp: element_at_def split: if_splits option.splits)
  with parse_int_digits [OF i(1,2)] have "nat i < length vs" by (simp add: nat_less_iff)
  with i(4) show ?thesis by blast
qed

lemma resolve_inside: "resolve_tokens v ts = Some u \<Longrightarrow> wf v \<Longrightarrow> wf u \<and> jdepth u \<le> jdepth v"
proof (induction v ts rule: resolve_tokens.induct)
  case (2 ms t ts)
  then obtain w where w: "obj_get ms (unescape_token t) = Some w" "resolve_tokens w ts = Some u" by (auto split: option.splits)
  then have "value_at (VObject ms) [Member (unescape_token t)] = Some w" by simp
  with 2 w value_at_inside show ?case by (meson order_trans)
next
  case (3 vs t ts)
  then obtain w where w: "element_at vs (unescape_token t) = Some w" "resolve_tokens w ts = Some u" by (auto split: option.splits)
  then obtain i where "i < length vs" "w = vs ! i" by (metis element_at_nth)
  then have "value_at (VArray vs) [Element i] = Some w" by simp
  with 3 w value_at_inside show ?case by (meson order_trans)
qed auto

lemma canon_eq_norm:
  assumes "canon u = canon w" and "wf u" and "jdepth u \<le> maxNesting" and "wf w" and "jdepth w \<le> maxNesting"
  shows "norm_json u = norm_json w"
  using parseJSON_canon_space [OF assms(2,3), of "[]"] parseJSON_canon_space [OF assms(4,5), of "[]"] assms(1) by simp

text \<open>A scalar inside a value is at the same path in every value of the same canonical bytes.\<close>

lemma scalar_same_canon:
  assumes "norm_json u = norm_json w" and "wf u" and "wf w" and "value_at u path = Some leaf" and "scalar leaf"
  shows "value_at w path = Some leaf"
proof -
  have "map_option norm_json (value_at w path) = Some (norm_json leaf)"
    using value_at_norm [OF assms(2), of path] value_at_norm [OF assms(3), of path] assms(1,4) by simp
  then show ?thesis using norm_scalar_iff [OF assms(5)] by auto
qed

text \<open>A request whose arguments are an object of the canonical domain.\<close>

definition arguments_ok :: "jvalue \<Rightarrow> bool" where
  "arguments_ok v \<longleftrightarrow> wf v \<and> jdepth v \<le> maxNesting \<and> (\<exists>ms. v = VObject ms)"

lemma named_value_same:
  assumes "hold_arguments facts a p = None" and "hold_arguments facts b p = None" and "pointer \<in> set (namedArguments p)"
  shows "\<exists>u w. resolvePointer a pointer = Some u \<and> resolvePointer b pointer = Some w \<and> canon u = canon w"
  using assms
  by (auto simp: hold_arguments_None namedArguments_def list_all_iff bind_holds_iff fix_holds_iff) (metis option.inject)+

lemma closed_policy_same:
  assumes "hold_arguments facts a p = None" and "hold_arguments facts b p = None" and "pol_closed p"
    and "arguments_ok a" and "arguments_ok b"
    and "value_at a path = Some leaf" and "scalar leaf" and "list_all index_fits path"
  shows "resolvePointer b (pointer_of path) = Some leaf"
proof -
  have "unreachedArgument a (namedArguments p) (shapedArguments p) = None" and "\<not> scalar a"
    using assms(1,3,4) by (auto simp: hold_arguments_None arguments_ok_def)
  from unreached_None [OF this assms(6,7)] obtain pre rest where path: "path = pre @ rest"
    and "pointer_of pre \<in> set (namedArguments p)" by blast
  from named_value_same [OF assms(1,2) this(2)] obtain u w
    where u: "resolve_tokens a (map step_token pre) = Some u" and w: "resolve_tokens b (map step_token pre) = Some w"
      and same: "canon u = canon w" by (auto simp: resolve_pointer_of)
  from path assms(6) u have rest: "value_at u rest = Some leaf"
    using resolve_agrees [OF u] by (auto simp: value_at_append split: option.splits)
  have ok: "wf u" "jdepth u \<le> maxNesting" "wf w" "jdepth w \<le> maxNesting"
    using resolve_inside [OF u] resolve_inside [OF w] assms(4,5) by (auto simp: arguments_ok_def)
  have "value_at w rest = Some leaf"
    by (rule scalar_same_canon [OF canon_eq_norm [OF same ok] ok(1,3) rest assms(7)])
  then have "resolve_tokens w (map step_token rest) = Some leaf"
    by (rule resolve_path) (use assms(8) path in simp)
  with w path show ?thesis unfolding resolve_pointer_of by (simp add: resolve_tokens_append)
qed

end
