(* ===== verification/Policy_Claims.thy ===== *)
theory Policy_Claims
  imports Policy_Held
begin

text \<open>
  The properties of decision policies: what an admitted request is, exactly; what a closed policy leaves
  to the requester; the form of every policy the engine reads; and the pointers both are written with.
\<close>

section \<open>A sample policy\<close>

definition sample_digest :: bytes where
  "sample_digest = ''sha256:'' @ replicate 64 CHR ''a''"

definition sample_record :: bytes where
  "sample_record =
     canon (VObject
       [(''recordVersion'', VString ''1''), (''kind'', VString ''evaluation''),
        (''pack'', VObject [(''digest'', VString sample_digest)]),
        (''disposition'', VObject [(''kind'', VString ''outcome''), (''outcomeId'', VString ''approve''),
           (''handoff'', VObject [(''state'', VString ''none'')])]),
        (''inputs'', VObject [(''facts'', VObject [(''amount'', VInt 5)])])])"


definition sample_policy :: decisionPolicy where
  "sample_policy =
     \<lparr> pol_outcomes = [''approve''], pol_packs = [], pol_reviewed = False,
       pol_bind = [\<lparr> fb_argument = ''/amount'', fb_fact = ''/amount'' \<rparr>],
       pol_fix = [\<lparr> fv_argument = ''/to/0'', fv_canonical = canon (VString ''ops'') \<rparr>],
       pol_shape = [], pol_closed = True, pol_signers = [], pol_digest = [] \<rparr>"

definition sample_arguments :: jvalue where
  "sample_arguments = VObject [(''amount'', VInt 5), (''to'', VArray [VString ''ops''])]"

definition sample_reordered :: jvalue where
  "sample_reordered = VObject [(''to'', VArray [VString ''ops'']), (''amount'', VInt 5)]"

definition no_crypto :: crypto where
  "no_crypto = \<lparr> hash = id, ed_public = id, ed_sign = (\<lambda>k m. []), ed_verify = (\<lambda>k m s. False) \<rparr>"

definition sample_claim :: decision where
  "sample_claim = \<lparr> dc_recordDigest = sample_digest, dc_packDigest = sample_digest \<rparr>"

definition no_sidecar :: sidecarEvidence where
  "no_sidecar = \<lparr> se_beside = False, se_lines = [] \<rparr>"

lemma sample_held:
  "holdToPolicy no_crypto sample_record sample_claim [] sample_arguments sample_policy no_sidecar = None"
  "holdToPolicy no_crypto sample_record sample_claim [] sample_reordered sample_policy no_sidecar = None"
  by code_simp+

section \<open>What is admitted\<close>



text \<open>C12: A closed policy leaves a requester no scalar to choose.  Of two requests held to one closed
  policy on one record, every scalar anywhere in the arguments of the first stands, under the pointer
  that spells its path, in the arguments of the second.\<close>

theorem closed_policy_fixes_scalars:
  assumes "holdToPolicy C data claimed cites a p signed = None"
    and "holdToPolicy C data claimed' cites' b p signed' = None"
    and "pol_closed p" and "arguments_ok a" and "arguments_ok b"
    and "value_at a path = Some leaf" and "scalar leaf" and "list_all index_fits path"
  shows "resolvePointer a (pointer_of path) = Some leaf \<and> resolvePointer b (pointer_of path) = Some leaf"
proof -
  from assms(1,2) obtain facts where "hold_arguments facts a p = None" "hold_arguments facts b p = None"
    unfolding holdToPolicy_None by (metis option.inject)
  then show ?thesis
    using closed_policy_same assms(3-8) resolve_path [OF assms(6,8)] by (simp add: resolve_pointer_of)
qed

theorem closed_policy_fixes_scalars_witness:
  "resolvePointer sample_reordered ''/to/0'' = Some (VString ''ops'')"
proof -
  have ok: "arguments_ok sample_arguments" "arguments_ok sample_reordered"
    by (simp_all add: arguments_ok_def sample_arguments_def sample_reordered_def wf_VObject_iff wf_VArray_iff valid_utf8_ascii
        in_safe_range_def minSafeInteger_def maxSafeInteger_def maxNesting_def)
  have "pol_closed sample_policy" and at: "value_at sample_arguments [Member ''to'', Element 0] = Some (VString ''ops'')"
    and "scalar (VString ''ops'')" "list_all index_fits [Member ''to'', Element 0]"
    and p: "pointer_of [Member ''to'', Element 0] = ''/to/0''"
    by code_simp+
  then show ?thesis using closed_policy_fixes_scalars [OF sample_held _ ok at] by simp
qed

section \<open>The policies the engine reads\<close>



section \<open>Pointers\<close>

lemma tildes_ok_other: "c \<noteq> CHR ''~'' \<Longrightarrow> tildes_ok (c # s) = tildes_ok s"
  by (cases s) auto

lemma tildes_ok_slash: "tildes_ok (s @ CHR ''/'' # t) \<longleftrightarrow> tildes_ok s \<and> tildes_ok t"
proof (induction s rule: tildes_ok.induct)
  case (3 c d s)
  then show ?case by simp
qed (auto simp: tildes_ok_other)

lemma tildes_ok_token: "tildes_ok (step_token s)"
proof (cases s)
  case (Member n)
  have "tildes_ok (escape_token n)" by (induction n) (auto simp: escape_token_Cons tildes_ok_other)
  with Member show ?thesis by simp
next
  case (Element i)
  have "tildes_ok t" if "CHR ''~'' \<notin> set t" for t using that by (induction t) (auto simp: tildes_ok_other)
  with Element show ?thesis by (simp add: format_nat_no is_digit_def)
qed

lemma tildes_ok_pointer: "tildes_ok (t @ pointer_of path) \<longleftrightarrow> tildes_ok t"
proof (induction path arbitrary: t)
  case (Cons s path)
  then show ?case using Cons.IH [of "t @ CHR ''/'' # step_token s"] by (simp add: tildes_ok_slash tildes_ok_token)
qed simp

text \<open>C36: A pointer reaches what it spells.  The path to any value inside another, its names with tilde
  and slash escaped and its indices in decimal, is a valid pointer and resolves to that value, whatever
  bytes the names hold.\<close>

theorem pointer_resolves:
  assumes "value_at v path = Some w" and "list_all index_fits path"
  shows "validPointer (pointer_of path) \<and> resolvePointer v (pointer_of path) = Some w"
proof
  show "validPointer (pointer_of path)"
    using tildes_ok_pointer [of "[]" path] by (cases path) (simp_all add: validPointer_def)
  show "resolvePointer v (pointer_of path) = Some w"
    using resolve_path [OF assms] by (simp add: resolve_pointer_of)
qed

theorem pointer_resolves_witness:
  "validPointer ''/a~1b/~0/2'' \<and>
   resolvePointer (VObject [(''a/b'', VObject [(''~'', VArray [VNull, VNull, VInt 7])])]) ''/a~1b/~0/2'' = Some (VInt 7)"
proof -
  let ?path = "[Member ''a/b'', Member ''~'', Element 2]"
  let ?v = "VObject [(''a/b'', VObject [(''~'', VArray [VNull, VNull, VInt 7])])]"
  have at: "value_at ?v ?path = Some (VInt 7)" and fits: "list_all index_fits ?path"
    and spelt: "pointer_of ?path = ''/a~1b/~0/2''" by code_simp+
  show ?thesis using pointer_resolves [OF at fits] unfolding spelt .
qed

end
