(* ===== verification/Executor.thy ===== *)
theory Executor
  imports Policy Service Reservations
begin

text \<open>
  The executor's judgment of a write (\<^verbatim>\<open>act.go\<close>, \<^verbatim>\<open>action_recovery.go\<close>, \<^verbatim>\<open>action_key_index.go\<close>): the ladder a
  request climbs before anything is reserved or sent, and the receipt of the action.

  A requester here has an identity of its own and no delegation.  The service, the store and the
  decision-record directory are arguments; what they hold is what the ladder reads.
\<close>

section \<open>Recovery contracts\<close>

record actionReadBack =
  rb_tool :: bytes
  rb_arguments :: members
  rb_keyPointer :: bytes
  rb_outcomePointer :: bytes
  rb_committedValue :: bytes

record actionRecovery =
  rec_declaration :: members
  rec_idempotencyArgument :: bytes
  rec_readBack :: "actionReadBack option"

definition actionArgumentName :: "bytes \<Rightarrow> bool" where
  "actionArgumentName s \<longleftrightarrow>
     s \<noteq> [] \<and> length s \<le> 256 \<and> list_all (\<lambda>c. c \<notin> {CHR 0x00, CHR 0x0D, CHR 0x0A}) s"

definition mapping_valid :: "jvalue \<Rightarrow> bool" where
  "mapping_valid raw =
     (case raw of
        VObject [(kind, v)] \<Rightarrow>
          if kind = ''actionKey'' then v = VBool True
          else if kind = ''argument'' then (case v of VString p \<Rightarrow> length p \<le> 4096 \<and> validPointer p | _ \<Rightarrow> False)
          else kind = ''literal''
      | _ \<Rightarrow> False)"

definition bounded_string :: "members \<Rightarrow> bytes \<Rightarrow> bytes option" where
  "bounded_string obj name = do { s \<leftarrow> requireString obj name; require (length s \<le> 4096); Some s }"

text \<open>The live tools of the binding that its owner declares to read are an argument.\<close>

definition parse_readBack :: "bytes list \<Rightarrow> jvalue \<Rightarrow> actionReadBack option" where
  "parse_readBack readers rb =
     do {
       r \<leftarrow> requireObject rb;
       require (exactlyMembers r [(''tool'', True), (''arguments'', True), (''keyPointer'', True), (''outcomePointer'', True),
         (''committedValue'', True)]);
       tool \<leftarrow> requireString r ''tool'';
       require (tool \<in> set readers);
       keyPointer \<leftarrow> bounded_string r ''keyPointer'';
       outcomePointer \<leftarrow> bounded_string r ''outcomePointer'';
       committedValue \<leftarrow> bounded_string r ''committedValue'';
       require (validPointer keyPointer \<and> validPointer outcomePointer \<and> committedValue \<noteq> []);
       av \<leftarrow> obj_get r ''arguments'';
       arguments \<leftarrow> requireObject av;
       require (length arguments \<le> 128);
       require (list_all (\<lambda>(name, raw). actionArgumentName name \<and> mapping_valid raw) arguments);
       Some \<lparr> rb_tool = tool, rb_arguments = arguments, rb_keyPointer = keyPointer, rb_outcomePointer = outcomePointer,
              rb_committedValue = committedValue \<rparr> }"

definition parse_contract :: "bytes list \<Rightarrow> jvalue \<Rightarrow> actionRecovery option option" where
  "parse_contract readers v =
     (if v = VNull then Some None
      else do {
        declaration \<leftarrow> requireObject v;
        require (exactlyMembers declaration [(''idempotencyArgument'', False), (''readBack'', False)]);
        require (declaration \<noteq> []);
        idempotencyArgument \<leftarrow>
          (if present declaration ''idempotencyArgument''
           then do { s \<leftarrow> requireString declaration ''idempotencyArgument''; require (actionArgumentName s); Some s }
           else Some []);
        readBack \<leftarrow>
          (case obj_get declaration ''readBack'' of
             None \<Rightarrow> Some None
           | Some rb \<Rightarrow> map_option Some (parse_readBack readers rb));
        Some (Some \<lparr> rec_declaration = declaration, rec_idempotencyArgument = idempotencyArgument, rec_readBack = readBack \<rparr>) })"

fun parse_contracts :: "bytes list \<Rightarrow> bytes list \<Rightarrow> members \<Rightarrow> (bytes \<times> actionRecovery option) list option" where
  "parse_contracts tools readers [] = Some []"
| "parse_contracts tools readers ((name, v) # ms) =
     do {
       require (name \<in> set tools);
       contract \<leftarrow> parse_contract readers v;
       rest \<leftarrow> parse_contracts tools readers ms;
       Some ((name, contract) # rest) }"

definition parseActionRecovery :: "bytes list \<Rightarrow> bytes list \<Rightarrow> jvalue \<Rightarrow> (bytes \<times> actionRecovery option) list option" where
  "parseActionRecovery tools readers raw =
     do { obj \<leftarrow> requireObject raw; require (length obj = length tools); parse_contracts tools readers obj }"

definition recovery_digest :: "crypto \<Rightarrow> actionRecovery option \<Rightarrow> bytes" where
  "recovery_digest C r =
     ''sha256:'' @ hex_encode (sha256 C (''judgment-pack-gateway/action-recovery/1:'' @
       canon (case r of None \<Rightarrow> VNull | Some r \<Rightarrow> VObject (rec_declaration r))))"

definition applyKey :: "actionRecovery option \<Rightarrow> members \<Rightarrow> bytes \<Rightarrow> members option" where
  "applyKey recovery arguments key =
     (case recovery of
        None \<Rightarrow> Some arguments
      | Some r \<Rightarrow>
          if rec_idempotencyArgument r = [] then Some arguments
          else if obj_get arguments (rec_idempotencyArgument r) \<notin> {None, Some (VString key)} then None
          else Some (obj_set arguments (rec_idempotencyArgument r) (VString key)))"

fun readBack_arguments :: "bytes \<Rightarrow> jvalue \<Rightarrow> members \<Rightarrow> members \<Rightarrow> members option" where
  "readBack_arguments key arguments mapped [] = Some mapped"
| "readBack_arguments key arguments mapped ((name, raw) # ms) =
     (case raw of
        VObject ((kind, v) # _) \<Rightarrow>
          do {
            v \<leftarrow> (if kind = ''actionKey'' then Some (VString key)
                 else if kind = ''argument''
                 then (case v of VString p \<Rightarrow> resolvePointer arguments p | _ \<Rightarrow> None)
                 else Some v);
            readBack_arguments key arguments (obj_set mapped name v) ms }
      | _ \<Rightarrow> None)"

definition readBack_request :: "actionReadBack \<Rightarrow> bytes \<Rightarrow> jvalue \<Rightarrow> members option" where
  "readBack_request r key arguments =
     map_option (\<lambda>mapped. obj_set (obj_set [] ''tool'' (VString (rb_tool r))) ''arguments'' (VObject mapped))
       (readBack_arguments key arguments [] (rb_arguments r))"

definition readBack_outcome :: "actionReadBack \<Rightarrow> bytes \<Rightarrow> jvalue \<Rightarrow> bytes" where
  "readBack_outcome r key result =
     (if resolvePointer result (rb_keyPointer r) \<noteq> Some (VString key) then ''unknown''
      else if resolvePointer result (rb_outcomePointer r) \<noteq> Some (VString (rb_committedValue r)) then ''unknown''
      else ''committed'')"

section \<open>The members of a request\<close>

text \<open>Each member is the text the request has for it, empty when it has none.\<close>

record actRequest =
  rq_act_session :: bytes
  rq_act_platform :: bytes
  rq_act_tool :: bytes
  rq_act_arguments :: bytes
  rq_act_decision :: bytes
  rq_act_cites :: bytes
  rq_act_key :: bytes
  rq_act_keyScope :: bytes
  rq_act_reconcile :: bytes
  rq_act_who :: "caller option"

datatype act_refusal =
    RefusedRequester
  | RefusedVersion
  | RefusedSession
  | RefusedPlatform
  | RefusedTool
  | RefusedArguments
  | RefusedKey
  | RefusedDecision
  | RefusedCites
  | RefusedPolicy policy_refusal

definition parseMember :: "bytes \<Rightarrow> jvalue option" where
  "parseMember raw = (if raw = [] then None else case parseJSON raw of Inl _ \<Rightarrow> None | Inr v \<Rightarrow> Some v)"

definition parseString :: "bytes \<Rightarrow> bytes option" where
  "parseString raw = (case parseMember raw of Some (VString s) \<Rightarrow> Some s | _ \<Rightarrow> None)"

definition parse_arguments :: "bytes \<Rightarrow> members option" where
  "parse_arguments raw =
     (if raw = [] then Some []
      else case parseJSONWithin raw maxArgumentValues of Inr (VObject ms) \<Rightarrow> Some ms | _ \<Rightarrow> None)"

definition parseActionKeyScope :: "bytes \<Rightarrow> bytes \<Rightarrow> bytes \<Rightarrow> bool \<Rightarrow> (bool \<times> bool) option" where
  "parseActionKeyScope keyScope reconcile key delegated =
     do {
       require (keyScope = [] \<or> parseString keyScope = Some ''authority'');
       require (reconcile = [] \<or> parseMember reconcile = Some (VBool True));
       let scoped = keyScope \<noteq> [];
       let reconciles = reconcile \<noteq> [];
       require (\<not> ((scoped \<or> reconciles) \<and> key = []));
       require (\<not> (scoped \<and> delegated));
       require (\<not> (reconciles \<and> \<not> scoped \<and> \<not> delegated));
       Some (scoped, reconciles) }"

definition parseDecision :: "jvalue \<Rightarrow> decision option" where
  "parseDecision v =
     do {
       obj \<leftarrow> requireObject v;
       require (exactlyMembers obj [(''recordDigest'', True), (''packDigest'', True)]);
       recordDigest \<leftarrow> memberString obj ''recordDigest'';
       require (isDigest recordDigest);
       packDigest \<leftarrow> memberString obj ''packDigest'';
       require (isDigest packDigest);
       Some \<lparr> dc_recordDigest = recordDigest, dc_packDigest = packDigest \<rparr> }"

text \<open>A citation of a request is exactly its three members.\<close>

definition parse_cites :: "jvalue \<Rightarrow> citation list option" where
  "parse_cites v =
     do {
       require (case v of
           VArray entries \<Rightarrow>
             list_all (\<lambda>e. case e of
                 VObject c \<Rightarrow> exactlyMembers c [(''sessionId'', True), (''callIndex'', True), (''signature'', True)]
               | _ \<Rightarrow> True) entries
         | _ \<Rightarrow> True);
       cites \<leftarrow> parseCitations v;
       require (cites \<noteq> []);
       Some cites }"

section \<open>Write sources\<close>

text \<open>What the configuration approved a source to run, by named field.\<close>

record sourceApproval =
  ap_image :: bytes
  ap_url :: bytes
  ap_platformEndpoint :: bytes
  ap_headers :: "bytes list"
  ap_serverArgs :: "bytes list"
  ap_command :: "bytes list"
  ap_customer :: bool
  ap_descriptorPin :: bytes
  ap_ownerDeclarationPin :: bytes
  ap_approvedOperation :: bytes
  ap_approvedPlatform :: bytes
  ap_approvedBinding :: bytes
  ap_sandboxSource :: bytes

text \<open>The sandbox of a source is the selector its launch is bound to.\<close>

record writeSource =
  ws_binding :: bytes
  ws_argv :: "bytes list"
  ws_tools :: "bytes list"
  ws_policies :: "bytes \<rightharpoonup> decisionPolicy"
  ws_recovery :: "bytes \<rightharpoonup> actionRecovery"
  ws_endpoint :: bytes
  ws_transport :: bytes
  ws_approval :: "sourceApproval option"
  ws_provenance :: "descriptorProvenance option"
  ws_sandbox :: "bytes option"

text \<open>What follows \<^verbatim>\<open>--\<close> is the server's own command line.\<close>

fun narrow_argv :: "bool \<Rightarrow> bytes \<Rightarrow> bytes list \<Rightarrow> bytes list" where
  "narrow_argv own tool [] = []"
| "narrow_argv own tool (arg # args) =
     (let own = (own \<and> arg \<noteq> ''--'') in
      (if own \<and> cut_prefix ''--tools='' arg \<noteq> None then ''--tools='' @ tool else arg) # narrow_argv own tool args)"

definition narrowTools :: "writeSource \<Rightarrow> bytes \<Rightarrow> writeSource" where
  "narrowTools spec tool = spec\<lparr> ws_argv := narrow_argv True tool (ws_argv spec), ws_tools := [tool] \<rparr>"

section \<open>The evidence a request relies on\<close>

definition reachedKeys :: "crypto \<Rightarrow> gatewayService \<Rightarrow> reachedKey list option" where
  "reachedKeys C g =
     (case gw_log g of
        LogAt data \<Rightarrow> (case engineWalk C data (st_publicKey (gw_store g)) of Inl _ \<Rightarrow> None | Inr w \<Rightarrow> Some (rw_keys w))
      | _ \<Rightarrow> None)"

definition resolveCitation :: "crypto \<Rightarrow> evidence \<Rightarrow> bytes \<Rightarrow> reachedKey list \<Rightarrow> citation \<Rightarrow> bool" where
  "resolveCitation C E authority keys c =
     (case ev_receipts E of
        There sessions \<Rightarrow>
          (case map_of sessions (ct_session c) of
             Some (SessionFiles files) \<Rightarrow>
               let fileName = format_int (ct_index c) @ ''.json'' in
               (case map_of files fileName of
                  Some (RegularFile (Some data)) \<Rightarrow>
                    (case checkReceiptUnder C data E (ct_session c) fileName authority keys of
                       (Some r, status) \<Rightarrow> status = Ok \<and> r_signature r = ct_signature c
                     | _ \<Rightarrow> False)
                | _ \<Rightarrow> False)
           | _ \<Rightarrow> False)
      | _ \<Rightarrow> False)"

text \<open>The directory of a path and its last element, for the clean paths a walk names.\<close>

definition dir_of :: "bytes \<Rightarrow> bytes" where
  "dir_of path = rev (drop 1 (dropWhile (\<lambda>c. c \<noteq> CHR ''/'') (rev path)))"

definition base_of :: "bytes \<Rightarrow> bytes" where
  "base_of path = rev (takeWhile (\<lambda>c. c \<noteq> CHR ''/'') (rev path))"

definition sidecar_evidence :: "decisionWalk \<Rightarrow> bytes \<Rightarrow> (bytes \<times> bytes) list \<Rightarrow> sidecarEvidence" where
  "sidecar_evidence walk recordDigest tree =
     (let dirs = map (\<lambda>(h, exact, path). dir_of path) (dw_foundIn walk);
          beside = filter (\<lambda>(path, data). base_of path = sidecarName \<and> dir_of path \<in> set dirs) tree
      in \<lparr> se_beside = (beside \<noteq> []),
           se_lines = concat (map (\<lambda>(path, data). recordSignaturesFor data recordDigest) beside) \<rparr>)"

definition tree_files :: "(bytes \<times> bytes) list look \<Rightarrow> (bytes \<times> bytes) list" where
  "tree_files tree = (case tree of There files \<Rightarrow> files | _ \<Rightarrow> [])"

text \<open>The record found and held to the policy: how it was found, and its bytes where they are kept.\<close>

definition judge_record ::
  "crypto \<Rightarrow> files \<Rightarrow> bytes \<Rightarrow> (bytes \<times> bytes) list look \<Rightarrow> bool \<Rightarrow> decisionPolicy option \<Rightarrow> decision \<Rightarrow> citation list \<Rightarrow> jvalue \<Rightarrow>
     act_refusal + bool \<times> bytes" where
  "judge_record C F dir tree witnesses policy d cites arguments =
     (let recordHex = trim_digest (dc_recordDigest d);
          exact = (case policy of None \<Rightarrow> False | Some p \<Rightarrow> pol_signers p \<noteq> [])
      in if dir = [] then Inl RefusedDecision
         else case walkDecisionRecords C F dir tree (if exact then [] else [recordHex]) (if exact then [recordHex] else []) of
           None \<Rightarrow> Inl RefusedDecision
         | Some (walk, there) \<Rightarrow>
             if \<not> there \<or> recordHex \<notin> set (dw_found walk) \<union> set (dw_foundExact walk) then Inl RefusedDecision
             else
               (let kept = map_of (if exact then dw_handedExact walk else dw_handed walk) recordHex;
                    recorded = (if policy \<noteq> None \<or> witnesses then (case kept of Some data \<Rightarrow> data | None \<Rightarrow> []) else [])
                in case policy of
                     None \<Rightarrow> Inr (exact, recorded)
                   | Some p \<Rightarrow>
                       (case holdToPolicy C recorded d cites arguments p (if exact then sidecar_evidence walk (dc_recordDigest d) (tree_files tree)
                                else \<lparr> se_beside = False, se_lines = [] \<rparr>) of
                          Some why \<Rightarrow> Inl (RefusedPolicy why)
                        | None \<Rightarrow> Inr (exact, recorded))))"

section \<open>The ladder\<close>

record actConfig =
  ac_sources :: "bytes \<rightharpoonup> writeSource"
  ac_requireActionKey :: bool
  ac_decisionRecords :: bytes

text \<open>What a request that climbed the ladder asks for.\<close>

record judged =
  jd_session :: bytes
  jd_platform :: bytes
  jd_tool :: bytes
  jd_spec :: writeSource
  jd_policy :: "decisionPolicy option"
  jd_arguments :: members
  jd_key :: bytes
  jd_keyScoped :: bool
  jd_reconcile :: bool
  jd_who :: caller
  jd_decision :: decision
  jd_cites :: "citation list"
  jd_exact :: bool
  jd_recorded :: bytes

definition or_refuse :: "'a option \<Rightarrow> act_refusal \<Rightarrow> act_refusal + 'a" where
  "or_refuse v why = (case v of None \<Rightarrow> Inl why | Some a \<Rightarrow> Inr a)"

definition and_then :: "act_refusal + 'a \<Rightarrow> ('a \<Rightarrow> act_refusal + 'b) \<Rightarrow> act_refusal + 'b" where
  "and_then x f = (case x of Inl why \<Rightarrow> Inl why | Inr a \<Rightarrow> f a)"

definition judge_key :: "actConfig \<Rightarrow> actRequest \<Rightarrow> (bytes \<times> bool \<times> bool) option" where
  "judge_key cfg rq =
     do {
       key \<leftarrow> (if rq_act_key rq \<noteq> []
              then do { key \<leftarrow> parseString (rq_act_key rq); require (isLowerHexOfLen key 64); Some key }
              else do { require (\<not> ac_requireActionKey cfg); Some [] });
       (scoped, reconciles) \<leftarrow> parseActionKeyScope (rq_act_keyScope rq) (rq_act_reconcile rq) key False;
       Some (key, scoped, reconciles) }"

definition judge_session :: "crypto \<Rightarrow> bool \<Rightarrow> gatewayService \<Rightarrow> actRequest \<Rightarrow> bytes option" where
  "judge_session C looks g rq =
     do {
       sid \<leftarrow> parseString (rq_act_session rq);
       require (requireSession sid);
       require (sessionOpen C looks g sid = None);
       Some sid }"

definition judge_cites :: "crypto \<Rightarrow> gatewayService \<Rightarrow> evidence \<Rightarrow> actRequest \<Rightarrow> citation list option" where
  "judge_cites C g E rq =
     do {
       v \<leftarrow> parseMember (rq_act_cites rq);
       cites \<leftarrow> parse_cites v;
       keys \<leftarrow> reachedKeys C g;
       require (list_all (resolveCitation C E (st_authority (gw_store g)) keys) cites);
       Some cites }"

text \<open>The arguments as they are sent: with the key, where the contract has an argument for it.\<close>

definition judge_arguments :: "writeSource \<Rightarrow> bytes \<Rightarrow> bytes \<Rightarrow> members \<Rightarrow> members option" where
  "judge_arguments spec tool key arguments =
     (if key = [] then Some arguments else applyKey (ws_recovery spec tool) arguments key)"

definition judge_act ::
  "crypto \<Rightarrow> actConfig \<Rightarrow> bool \<Rightarrow> gatewayService \<Rightarrow> evidence \<Rightarrow> files \<Rightarrow> (bytes \<times> bytes) list look \<Rightarrow> actRequest \<Rightarrow>
     act_refusal + judged" where
  "judge_act C cfg looks g E F tree rq =
     and_then (or_refuse (rq_act_who rq) RefusedRequester) (\<lambda>who.
     and_then (or_refuse (require (gw_receiptVersion g = receiptVersion3)) RefusedVersion) (\<lambda>_.
     and_then (or_refuse (judge_session C looks g rq) RefusedSession) (\<lambda>sid.
     and_then (or_refuse (parseString (rq_act_platform rq)) RefusedPlatform) (\<lambda>platform.
     and_then (or_refuse (ac_sources cfg (platform @ ''/write'')) RefusedPlatform) (\<lambda>spec.
     and_then (or_refuse (parseString (rq_act_tool rq)) RefusedTool) (\<lambda>tool.
     and_then (or_refuse (require (tool \<in> set (ws_tools spec))) RefusedTool) (\<lambda>_.
     and_then (or_refuse (parse_arguments (rq_act_arguments rq)) RefusedArguments) (\<lambda>given.
     and_then (or_refuse (judge_key cfg rq) RefusedKey) (\<lambda>(key, scoped, reconciles).
     and_then (or_refuse (judge_arguments spec tool key given) RefusedKey) (\<lambda>arguments.
     and_then (or_refuse (Option.bind (parseMember (rq_act_decision rq)) parseDecision) RefusedDecision) (\<lambda>d.
     and_then (or_refuse (judge_cites C g E rq) RefusedCites) (\<lambda>cites.
     and_then (judge_record C F (ac_decisionRecords cfg) tree (gw_witnessedBy g \<noteq> Map.empty) (ws_policies spec tool) d cites
         (VObject arguments)) (\<lambda>(exact, recorded).
       Inr \<lparr> jd_session = sid, jd_platform = platform, jd_tool = tool, jd_spec = narrowTools spec tool,
             jd_policy = ws_policies spec tool, jd_arguments = arguments, jd_key = key, jd_keyScoped = scoped,
             jd_reconcile = reconciles, jd_who = who, jd_decision = d, jd_cites = cites, jd_exact = exact,
             jd_recorded = recorded \<rparr>)))))))))))))"

section \<open>The receipt of an action\<close>

definition recordTrail :: "bytes \<Rightarrow> bytes" where
  "recordTrail data =
     (case readRuntimeRecord data of
        None \<Rightarrow> []
      | Some r \<Rightarrow> let trail = string_of (rr_obj r) ''trail'' in if isLowerHexOfLen trail 32 then trail else [])"

definition act_request :: "judged \<Rightarrow> bytes" where
  "act_request j =
     canon (VObject (obj_set (obj_set [] ''tool'' (VString (jd_tool j))) ''arguments'' (VObject (jd_arguments j))))"

text \<open>Whether the action has a key, and whether what became of it is uncertain.\<close>

definition delivery_member :: "crypto \<Rightarrow> judged \<Rightarrow> bool \<Rightarrow> members" where
  "delivery_member C j uncertain =
     obj_set (obj_set (obj_set [] ''key'' (VString (jd_key j)))
       ''contract'' (VString (recovery_digest C (ws_recovery (jd_spec j) (jd_tool j)))))
       ''outcome'' (VString (if uncertain then ''uncertain'' else ''response''))"

definition decided_member :: "judged \<Rightarrow> members" where
  "decided_member j =
     (let decided = obj_set (obj_set [] ''recordDigest'' (VString (dc_recordDigest (jd_decision j))))
            ''packDigest'' (VString (dc_packDigest (jd_decision j)))
      in if jd_exact j then obj_set decided ''recordBytes'' (VString ''exact'') else decided)"

definition cited_value :: "citation \<Rightarrow> jvalue" where
  "cited_value c =
     VObject (obj_set (obj_set (obj_set [] ''sessionId'' (VString (ct_session c))) ''callIndex'' (VInt (ct_index c)))
       ''signature'' (VString (ct_signature c)))"

definition called_member :: "judged \<Rightarrow> members" where
  "called_member j =
     (let spec = jd_spec j;
          called = obj_set [] ''shape'' (VString ''mcp'');
          called = obj_set called ''endpoint'' (if ws_endpoint spec = [] then VNull else VString (ws_endpoint spec));
          called = obj_set called ''name'' (VString (jd_tool j))
      in if ws_transport spec \<noteq> [] then obj_set called ''transport'' (VString (ws_transport spec)) else called)"

definition set_from :: "members \<Rightarrow> members \<Rightarrow> bytes \<Rightarrow> members" where
  "set_from from to name = (case obj_get from name of None \<Rightarrow> to | Some v \<Rightarrow> obj_set to name v)"

definition action_detail :: "crypto \<Rightarrow> judged \<Rightarrow> bool \<Rightarrow> envelope \<Rightarrow> bytes \<Rightarrow> members" where
  "action_detail C j uncertain e requestSalt =
     (let action = obj_set [] ''requester'' (VObject (identityObject (jd_who j)));
          action = (if jd_key j \<noteq> [] then obj_set action ''delivery'' (VObject (delivery_member C j uncertain)) else action);
          action = obj_set action ''decision'' (VObject (decided_member j));
          action = obj_set action ''cites'' (VArray (map cited_value (jd_cites j)));
          action = (case jd_policy j of None \<Rightarrow> action | Some p \<Rightarrow> obj_set action ''policy'' (VString (pol_digest p)));
          action = obj_set action ''tool'' (VObject (called_member j));
          action = obj_set action ''request'' (VString (commitmentOver C requestSalt ''request:'' (act_request j)));
          action = set_from (env_acquisition e) action ''adapter''
      in set_from (env_acquisition e) action ''observedAt'')"

definition action_minting ::
  "crypto \<Rightarrow> gatewayService \<Rightarrow> judged \<Rightarrow> bool \<Rightarrow> jvalue \<Rightarrow> bytes \<Rightarrow> bool \<Rightarrow> bytes \<Rightarrow> bytes \<Rightarrow> minting option" where
  "action_minting C g j uncertain output now drawn argsSalt requestSalt =
     do {
       e \<leftarrow> parseEnvelope output;
       Some \<lparr> mt_version = receiptVersion3, mt_session = jd_session j, mt_source = jd_platform j @ ''/write'',
              mt_arguments = canon (VObject (jd_arguments j)), mt_result = env_result e, mt_who = Some (jd_who j),
              mt_witness = (if gw_witnessedBy g \<noteq> Map.empty then witnessMember g (recordTrail (jd_recorded j)) else None),
              mt_kind = ''action'', mt_detail = action_detail C j uncertain e requestSalt,
              mt_delegation = None, mt_reconciler = None, mt_now = now, mt_seed = [],
              mt_drawn = drawn, mt_salt = argsSalt \<rparr> }"

end
