(* ===== verification/Action_Receipt.thy ===== *)
theory Action_Receipt
  imports Executor Service_Reads
begin

text \<open>
  The receipt of an action is one the verifier takes: the action a judged request yields passes the
  structural check, and the receipt built from it is read back with the citations, the decision and the
  witness of the request.
\<close>

section \<open>Judged requests of their form\<close>

definition citation_ok :: "citation \<Rightarrow> bool" where
  "citation_ok c \<longleftrightarrow>
     requireSession (ct_session c) \<and> 0 \<le> ct_index c \<and> ct_index c \<le> maxSafeInteger \<and> isSignature3 (ct_signature c)"

text \<open>What the operator configures for a write source: its endpoint is text, a remote endpoint when the
  transport says so, and each policy has a digest.\<close>

definition source_ok :: "writeSource \<Rightarrow> bool" where
  "source_ok spec \<longleftrightarrow>
     valid_utf8 (ws_endpoint spec) \<and>
     (ws_transport spec = [] \<or> ws_transport spec = ''http'' \<and> ws_endpoint spec \<noteq> [] \<and> isRemoteEndpoint (ws_endpoint spec)) \<and>
     (\<forall>tool p. ws_policies spec tool = Some p \<longrightarrow> isDigest (pol_digest p))"

definition judged_ok :: "judged \<Rightarrow> bool" where
  "judged_ok j \<longleftrightarrow>
     caller_ok (jd_who j) \<and> requireSession (jd_session j) \<and> valid_utf8 (jd_platform j) \<and> valid_utf8 (jd_tool j) \<and>
     isDigest (dc_recordDigest (jd_decision j)) \<and> isDigest (dc_packDigest (jd_decision j)) \<and>
     list_all citation_ok (jd_cites j) \<and> (jd_key j = [] \<or> isLowerHexOfLen (jd_key j) 64) \<and>
     (\<forall>p. jd_policy j = Some p \<longrightarrow> isDigest (pol_digest p)) \<and> source_ok (jd_spec j)"

definition envelope_ok :: "envelope \<Rightarrow> bool" where
  "envelope_ok e \<longleftrightarrow>
     wf (VObject (env_acquisition e)) \<and> jdepth (VObject (env_acquisition e)) < maxNesting \<and>
     (\<exists>a t. obj_get (env_acquisition e) ''adapter'' = Some a \<and> validateAdapter a = Some () \<and>
        obj_get (env_acquisition e) ''observedAt'' = Some (VString t))"

lemma parseEnvelope_ok:
  assumes "parseEnvelope output = Some e" and "wf output" and "jdepth output \<le> maxNesting"
  shows "envelope_ok e"
proof -
  from assms(1) obtain obj where obj: "output = VObject obj" "obj_get obj ''acquisition'' = Some (VObject (env_acquisition e))"
    and rest: "\<exists>a. obj_get (env_acquisition e) ''adapter'' = Some a \<and> validateAdapter a = Some ()"
      "\<exists>t. requireString (env_acquisition e) ''observedAt'' = Some t"
    by (auto simp: parseEnvelope_def Option.bind_eq_Some_conv Let_def requireObject_iff)
  from obj(2) have m: "(''acquisition'', VObject (env_acquisition e)) \<in> set obj" by (simp add: obj_get_def map_of_SomeD)
  show ?thesis
    using rest wf_member [OF assms(2) [unfolded obj(1)] obj(2)] jdepth_member [OF m] assms(3) unfolding obj(1)
    by (auto simp: envelope_ok_def requireString_def memberString_def simp del: jdepth.simps split: option.splits jvalue.splits)
qed

section \<open>The action passes\<close>

lemma parse_cited: "list_all citation_ok cs \<Longrightarrow> parseCitations (VArray (map cited_value cs)) = Some cs"
proof (induction cs)
  case (Cons c cs)
  then show ?case
    by (simp add: parseCitations_def parse_citation_def cited_value_def citation_ok_def requireObject_def requireString_def
        memberString_def member_int_def obj_get_def)
qed (simp add: parseCitations_def)

text \<open>The members of an action.\<close>

lemma action_detail_get:
  fixes C :: crypto and j :: judged and uncertain :: bool and salt :: bytes
  assumes "envelope_ok e"
  defines "obj \<equiv> action_detail C j uncertain e salt"
  shows "obj_get obj ''requester'' = Some (VObject (identityObject (jd_who j)))"
    and "obj_get obj ''delivery'' = (if jd_key j \<noteq> [] then Some (VObject (delivery_member C j uncertain)) else None)"
    and "obj_get obj ''decision'' = Some (VObject (decided_member j))"
    and "obj_get obj ''cites'' = Some (VArray (map cited_value (jd_cites j)))"
    and "obj_get obj ''policy'' = map_option (\<lambda>p. VString (pol_digest p)) (jd_policy j)"
    and "obj_get obj ''tool'' = Some (VObject (called_member j))"
    and "obj_get obj ''request'' = Some (VString (commitmentOver C salt ''request:'' (act_request j)))"
    and "obj_get obj ''adapter'' = obj_get (env_acquisition e) ''adapter''"
    and "obj_get obj ''observedAt'' = obj_get (env_acquisition e) ''observedAt''"
proof -
  obtain a t where e: "obj_get (env_acquisition e) ''adapter'' = Some a" "obj_get (env_acquisition e) ''observedAt'' = Some (VString t)"
    using assms(1) by (auto simp: envelope_ok_def)
  have nil: "obj_get [] n = None" for n by (simp add: obj_get_def)
  note defs = obj_def action_detail_def set_from_def Let_def obj_get_set e nil
  show "obj_get obj ''requester'' = Some (VObject (identityObject (jd_who j)))"
    "obj_get obj ''delivery'' = (if jd_key j \<noteq> [] then Some (VObject (delivery_member C j uncertain)) else None)"
    "obj_get obj ''decision'' = Some (VObject (decided_member j))"
    "obj_get obj ''cites'' = Some (VArray (map cited_value (jd_cites j)))"
    "obj_get obj ''policy'' = map_option (\<lambda>p. VString (pol_digest p)) (jd_policy j)"
    "obj_get obj ''tool'' = Some (VObject (called_member j))"
    "obj_get obj ''request'' = Some (VString (commitmentOver C salt ''request:'' (act_request j)))"
    "obj_get obj ''adapter'' = obj_get (env_acquisition e) ''adapter''"
    "obj_get obj ''observedAt'' = obj_get (env_acquisition e) ''observedAt''"
    by (cases "jd_policy j"; cases "jd_key j = []"; simp add: defs del: obj_set.simps; fail)+
qed

lemma recovery_digest_form: "isDigest (recovery_digest C r)"
  unfolding recovery_digest_def isDigest_def cut_prefix_append by simp

lemma delivery_parses:
  assumes "isLowerHexOfLen (jd_key j) 64"
  shows "parseActionDelivery (VObject (delivery_member C j uncertain)) \<noteq> None"
  using assms recovery_digest_form [of C "ws_recovery (jd_spec j) (jd_tool j)"]
  by (auto simp: parseActionDelivery_def delivery_member_def requireObject_def exactlyMembers_def all_required_def
      string_of_def memberString_def present_def obj_get_def)

lemma called_valid:
  assumes "source_ok (jd_spec j)"
  shows "requireString (called_member j) ''shape'' \<noteq> None" and "requireString (called_member j) ''name'' \<noteq> None"
    and "nullableString (called_member j) ''endpoint'' None = Some ()" and "toolTransportProblem (called_member j) = Some ()"
  using assms
  by (auto simp: called_member_def source_ok_def Let_def requireString_def memberString_def nullableString_def
      toolTransportProblem_def string_of_def obj_get_def)

lemma decided_get:
  "requireDigest (decided_member j) ''recordDigest'' =
     (if isDigest (dc_recordDigest (jd_decision j)) then Some () else None)"
  "requireDigest (decided_member j) ''packDigest'' = (if isDigest (dc_packDigest (jd_decision j)) then Some () else None)"
  "string_of (decided_member j) ''recordDigest'' = dc_recordDigest (jd_decision j)"
  "string_of (decided_member j) ''packDigest'' = dc_packDigest (jd_decision j)"
  "obj_get (decided_member j) ''recordBytes'' = (if jd_exact j then Some (VString ''exact'') else None)"
  by (auto simp: decided_member_def Let_def requireDigest_def requireString_def memberString_def string_of_def obj_get_def)

lemma identity_valid: "caller_ok who \<Longrightarrow> validateIdentity (VObject (identityObject who)) = Some ()"
  by (simp add: validateIdentity_def requireObject_def requireString_def requireDigest_def memberString_def
      identityObject_members obj_get_def caller_ok_def)

lemma action_validates:
  assumes "judged_ok j" and "envelope_ok e"
  shows "\<exists>d. validateAction (VObject (action_detail C j uncertain e salt)) r =
    Some (r\<lparr> r_delivery := d, r_exactRecord := (jd_exact j \<or> r_exactRecord r), r_cites := jd_cites j,
      r_recordDigest := dc_recordDigest (jd_decision j), r_packDigest := dc_packDigest (jd_decision j) \<rparr>)"
proof -
  let ?obj = "action_detail C j uncertain e salt"
  note get = action_detail_get [OF assms(2), of C j uncertain salt]
  obtain d where delivery: "(case obj_get ?obj ''delivery'' of
       None \<Rightarrow> Some r
     | Some v \<Rightarrow> do { delivery \<leftarrow> parseActionDelivery v; Some (r\<lparr> r_delivery := Some delivery \<rparr>) }) = Some (r\<lparr> r_delivery := d \<rparr>)"
  proof (cases "jd_key j = []")
    case True
    then show ?thesis using that [of "r_delivery r"] by (simp add: get)
  next
    case False
    then have "isLowerHexOfLen (jd_key j) 64" using assms(1) by (simp add: judged_ok_def)
    from delivery_parses [OF this, of C uncertain] obtain v where
      "parseActionDelivery (VObject (delivery_member C j uncertain)) = Some v" by auto
    with False that [of "Some v"] show ?thesis by (simp add: get)
  qed
  have policy: "(if present ?obj ''policy'' then requireDigest ?obj ''policy'' else Some ()) = Some ()"
    using assms(1) by (auto simp: present_def requireDigest_def requireString_def memberString_def get judged_ok_def)
  have request: "requireDigest ?obj ''request'' = Some ()"
    by (simp add: requireDigest_def requireString_def memberString_def get)
  obtain a t where envelope: "obj_get ?obj ''adapter'' = Some a" "validateAdapter a = Some ()"
      "obj_get ?obj ''observedAt'' = Some (VString t)"
    using assms(2) get(8,9) by (auto simp: envelope_ok_def)
  have ok: "caller_ok (jd_who j)" "isDigest (dc_recordDigest (jd_decision j))" "isDigest (dc_packDigest (jd_decision j))"
    "list_all citation_ok (jd_cites j)" "source_ok (jd_spec j)" using assms(1) by (simp_all add: judged_ok_def)
  obtain x y where called: "requireString (called_member j) ''shape'' = Some x" "requireString (called_member j) ''name'' = Some y"
    using called_valid(1,2) [OF ok(5)] by blast
  have "validateAction (VObject ?obj) r = do {
      r \<leftarrow> Some (r\<lparr> r_delivery := d \<rparr>);
      r \<leftarrow> (case obj_get (decided_member j) ''recordBytes'' of
             None \<Rightarrow> Some r
           | Some b \<Rightarrow> do { require (b = VString ''exact''); Some (r\<lparr> r_exactRecord := True \<rparr>) });
      Some (r\<lparr> r_cites := jd_cites j, r_recordDigest := dc_recordDigest (jd_decision j),
             r_packDigest := dc_packDigest (jd_decision j) \<rparr>) }"
    unfolding validateAction_def requireObject_def jvalue.case option.case Option.bind.bind_lunit get(1,3,4,6) delivery
      policy request envelope(1)
    using ok envelope called parse_cited [OF ok(4)] identity_valid [OF ok(1)]
    by (simp add: requireObject_def decided_get called_valid(3,4) [OF ok(5)] requireString_def memberString_def)
  then show ?thesis by (auto simp: decided_get)
qed

section \<open>It fits a receipt\<close>

lemma fits_object:
  assumes "fits ms" and "valid_utf8 n" and "wf (VObject m)" and "Suc (Suc (jdepth (VObject m))) \<le> maxNesting"
  shows "fits (obj_set ms n (VObject m))"
  using assms by (intro fits_obj_set) (simp_all del: jdepth.simps)

lemma cited_values_fit:
  assumes "list_all citation_ok cs"
  shows "wf (VArray (map cited_value cs))" and "jdepth (VArray (map cited_value cs)) \<le> 3"
proof -
  have each: "wf (cited_value c) \<and> jdepth (cited_value c) \<le> 2" if "citation_ok c" for c
    using that requireSession_utf8
    by (auto simp: cited_value_def citation_ok_def wf_VObject_iff valid_utf8_ascii isSignature3_def isLowerHexOfLen_def
        valid_utf8_lower_hex in_safe_range_def minSafeInteger_def maxSafeInteger_def)
  with assms show "wf (VArray (map cited_value cs))" by (auto simp: wf_VArray_iff list_all_iff)
  show "jdepth (VArray (map cited_value cs)) \<le> 3" using assms each by (induction cs) auto
qed

lemma action_fits:
  assumes "judged_ok j" and "envelope_ok e"
  shows "fits (action_detail C j uncertain e salt)"
proof -
  have ok: "caller_ok (jd_who j)" "isDigest (dc_recordDigest (jd_decision j))" "isDigest (dc_packDigest (jd_decision j))"
    "list_all citation_ok (jd_cites j)" "source_ok (jd_spec j)" "valid_utf8 (jd_tool j)"
    using assms(1) by (simp_all add: judged_ok_def)
  have texts: "valid_utf8 ''requester''" "valid_utf8 ''delivery''" "valid_utf8 ''decision''" "valid_utf8 ''cites''" "valid_utf8 ''policy''"
    "valid_utf8 ''tool''" "valid_utf8 ''request''" "valid_utf8 ''adapter''" "valid_utf8 ''observedAt''" by (simp_all add: valid_utf8_ascii)
  have requester: "wf (VObject (identityObject (jd_who j)))" "jdepth (VObject (identityObject (jd_who j))) \<le> 2"
    using ok(1) unfolding wf_VObject_iff identityObject_members by (simp_all add: caller_ok_def isDigest_utf8 valid_utf8_ascii)
  have delivery: "wf (VObject (delivery_member C j uncertain))" "jdepth (VObject (delivery_member C j uncertain)) \<le> 2" if "jd_key j \<noteq> []"
    using that assms(1) recovery_digest_form [of C "ws_recovery (jd_spec j) (jd_tool j)"] unfolding wf_VObject_iff delivery_member_def
    by (auto simp: valid_utf8_ascii isDigest_utf8 judged_ok_def isLowerHexOfLen_def valid_utf8_lower_hex)
  have decided: "wf (VObject (decided_member j))" "jdepth (VObject (decided_member j)) \<le> 2"
    using ok unfolding wf_VObject_iff decided_member_def by (auto simp: Let_def valid_utf8_ascii isDigest_utf8)
  have called: "wf (VObject (called_member j))" "jdepth (VObject (called_member j)) \<le> 2"
    using ok unfolding wf_VObject_iff called_member_def source_ok_def by (auto simp: Let_def valid_utf8_ascii)
  have copied: "fits (set_from (env_acquisition e) ms n)" if "fits ms" "valid_utf8 n" for ms n
    using fits_copy [OF that(1) _ _ that(2), of "env_acquisition e"] assms(2)
    by (simp add: set_from_def copy_member_def envelope_ok_def del: jdepth.simps split: option.splits)
  have room: "Suc (Suc (jdepth v)) \<le> maxNesting" if "jdepth v \<le> 3" for v using that by (simp add: maxNesting_def)
  have policy: "isDigest (pol_digest p)" if "jd_policy j = Some p" for p using assms(1) that by (simp add: judged_ok_def)
  show ?thesis
    unfolding action_detail_def Let_def
    using cited_values_fit [OF ok(4)] requester delivery decided called texts policy
    by (cases "jd_policy j")
      (auto intro!: copied fits_obj_set fits_string fits_Nil room simp: isDigest_utf8 simp del: jdepth.simps obj_set.simps wf_json.simps)
qed

end
