(* ===== verification/Action_Verifies.thy ===== *)
theory Action_Verifies
  imports Action_Receipt Policy_Held
begin

text \<open>
  What the executor judges before it sends a write is what the verifier checks after it: a judged
  request's citations resolve, its record is found and its claims are the record's.
\<close>

section \<open>Climbing the ladder\<close>

lemma and_then_Inr: "and_then x f = Inr b \<longleftrightarrow> (\<exists>a. x = Inr a \<and> f a = Inr b)"
  by (cases x) (auto simp: and_then_def)

lemma or_refuse_Inr: "or_refuse v why = Inr a \<longleftrightarrow> v = Some a"
  by (cases v) (auto simp: or_refuse_def)

lemma judge_actD:
  assumes "judge_act C cfg looks g E F tree rq = Inr j"
  obtains spec given where "rq_act_who rq = Some (jd_who j)" "gw_receiptVersion g = receiptVersion3"
    "judge_session C looks g rq = Some (jd_session j)" "parseString (rq_act_platform rq) = Some (jd_platform j)"
    "ac_sources cfg (jd_platform j @ ''/write'') = Some spec" "parseString (rq_act_tool rq) = Some (jd_tool j)"
    "jd_tool j \<in> set (ws_tools spec)" "jd_spec j = narrowTools spec (jd_tool j)" "jd_policy j = ws_policies spec (jd_tool j)"
    "parse_arguments (rq_act_arguments rq) = Some given" "judge_key cfg rq = Some (jd_key j, jd_keyScoped j, jd_reconcile j)"
    "judge_arguments spec (jd_tool j) (jd_key j) given = Some (jd_arguments j)"
    "Option.bind (parseMember (rq_act_decision rq)) parseDecision = Some (jd_decision j)"
    "judge_cites C g E rq = Some (jd_cites j)"
    "judge_record C F (ac_decisionRecords cfg) tree (gw_witnessedBy g \<noteq> Map.empty) (jd_policy j) (jd_decision j) (jd_cites j)
       (VObject (jd_arguments j)) = Inr (jd_exact j, jd_recorded j)"
  using assms unfolding judge_act_def and_then_Inr or_refuse_Inr by (auto simp: and_then_Inr or_refuse_Inr)

lemma parseMember_domain: "parseMember raw = Some v \<Longrightarrow> wf v \<and> jdepth v \<le> maxNesting"
  by (auto simp: parseMember_def dest: parseJSON_domain split: if_splits sum.splits)

lemma parseString_utf8: "parseString raw = Some s \<Longrightarrow> valid_utf8 s"
  by (auto simp: parseString_def dest: parseMember_domain split: option.splits jvalue.splits)

lemma parse_citation_ok:
  assumes "parse_citation v = Some c" and "wf v"
  shows "citation_ok c"
proof -
  from assms(1) obtain ms where v: "v = VObject ms" and c: "requireSession (ct_session c)" "0 \<le> ct_index c" "isSignature3 (ct_signature c)"
      "member_int ms ''callIndex'' = Some (ct_index c)"
    unfolding parse_citation_def Option.bind_eq_Some_conv requireObject_iff by auto
  have "obj_get ms ''callIndex'' = Some (VInt (ct_index c))"
    using c(4) by (auto simp: member_int_def split: option.splits jvalue.splits)
  then have "wf (VInt (ct_index c))" using wf_member assms(2) v by blast
  with c show ?thesis by (simp add: citation_ok_def in_safe_range_def)
qed

lemma option_list_map: "option_list xs = Some ys \<Longrightarrow> xs = map Some ys"
  by (induction xs arbitrary: ys) (auto simp: Option.bind_eq_Some_conv)

lemma parseCitations_ok: "parseCitations v = Some cs \<Longrightarrow> wf v \<Longrightarrow> list_all citation_ok cs"
proof -
  assume "parseCitations v = Some cs" and wf: "wf v"
  then obtain vs where v: "v = VArray vs" and cs: "map parse_citation vs = map Some cs"
    by (auto simp: parseCitations_def dest!: option_list_map split: jvalue.splits)
  have "citation_ok c" if "c \<in> set cs" for c
  proof -
    from that cs obtain w where "w \<in> set vs" "parse_citation w = Some c"
      by (metis (no_types, lifting) image_iff image_set)
    with wf v parse_citation_ok wf_element show ?thesis by blast
  qed
  then show ?thesis by (simp add: list_all_iff)
qed

text \<open>What the operator configures for the sources, and the requester.\<close>

definition config_ok :: "actConfig \<Rightarrow> bool" where
  "config_ok cfg \<longleftrightarrow> (\<forall>source spec. ac_sources cfg source = Some spec \<longrightarrow> source_ok spec)"

lemma judged_request_ok:
  assumes "judge_act C cfg looks g E F tree rq = Inr j" and "config_ok cfg" and "caller_ok (jd_who j)"
  shows "judged_ok j" and "jd_cites j \<noteq> []"
proof -
  from assms(1) obtain spec given where judged: "judge_session C looks g rq = Some (jd_session j)"
    "parseString (rq_act_platform rq) = Some (jd_platform j)"
    "ac_sources cfg (jd_platform j @ ''/write'') = Some spec" "parseString (rq_act_tool rq) = Some (jd_tool j)"
    "jd_spec j = narrowTools spec (jd_tool j)" "jd_policy j = ws_policies spec (jd_tool j)"
    "judge_key cfg rq = Some (jd_key j, jd_keyScoped j, jd_reconcile j)"
    "Option.bind (parseMember (rq_act_decision rq)) parseDecision = Some (jd_decision j)"
    "judge_cites C g E rq = Some (jd_cites j)"
    by (rule judge_actD)
  have "source_ok spec" using assms(2) judged(3) by (simp add: config_ok_def)
  then have source: "source_ok (jd_spec j)" "\<forall>p. jd_policy j = Some p \<longrightarrow> isDigest (pol_digest p)"
    by (auto simp: judged(5,6) source_ok_def narrowTools_def)
  have session: "requireSession (jd_session j)"
    using judged(1) by (auto simp: judge_session_def Option.bind_eq_Some_conv)
  have key: "jd_key j = [] \<or> isLowerHexOfLen (jd_key j) 64"
    using judged(7) by (auto simp: judge_key_def Option.bind_eq_Some_conv split: if_splits)
  have decision: "isDigest (dc_recordDigest (jd_decision j))" "isDigest (dc_packDigest (jd_decision j))"
    using judged(8) by (auto simp: parseDecision_def Option.bind_eq_Some_conv dest!: sym [of _ "jd_decision j"])
  obtain v where v: "parseMember (rq_act_cites rq) = Some v" "parseCitations v = Some (jd_cites j)" "jd_cites j \<noteq> []"
    using judged(9) by (auto simp: judge_cites_def parse_cites_def Option.bind_eq_Some_conv)
  then have "list_all citation_ok (jd_cites j)" using parseMember_domain parseCitations_ok by blast
  with source session key decision parseString_utf8 [OF judged(2)] parseString_utf8 [OF judged(4)] assms(3)
  show "judged_ok j" by (simp add: judged_ok_def)
  show "jd_cites j \<noteq> []" by (rule v(3))
qed

section \<open>Citations\<close>

text \<open>A store that has every receipt file of another, as it was; a directory has a name once.\<close>

definition receipt_at :: "evidence \<Rightarrow> bytes \<Rightarrow> bytes \<Rightarrow> bytes option" where
  "receipt_at E sid name =
     (case ev_receipts E of
        There sessions \<Rightarrow>
          (case map_of sessions sid of
             Some (SessionFiles files) \<Rightarrow>
               (case map_of files name of Some (RegularFile data) \<Rightarrow> data | _ \<Rightarrow> None)
           | _ \<Rightarrow> None)
      | _ \<Rightarrow> None)"

definition store_kept :: "evidence \<Rightarrow> evidence \<Rightarrow> bool" where
  "store_kept E E' \<longleftrightarrow> (\<forall>sid name data. receipt_at E sid name = Some data \<longrightarrow> receipt_at E' sid name = Some data)"

definition names_once :: "evidence \<Rightarrow> bool" where
  "names_once E \<longleftrightarrow>
     (\<forall>sessions. ev_receipts E = There sessions \<longrightarrow> distinct (map fst sessions) \<and>
        (\<forall>sid files. (sid, SessionFiles files) \<in> set sessions \<longrightarrow> distinct (map fst files)))"

lemma resolveCitation_at:
  assumes "resolveCitation C E authority keys c"
  obtains data r where "receipt_at E (ct_session c) (format_int (ct_index c) @ ''.json'') = Some data"
    "checkReceiptUnder C data E (ct_session c) (format_int (ct_index c) @ ''.json'') authority keys = (Some r, Ok)"
    "r_signature r = ct_signature c"
proof -
  let ?name = "format_int (ct_index c) @ ''.json''"
  note found = assms [unfolded resolveCitation_def Let_def]
  obtain sessions where s: "ev_receipts E = There sessions" using found by (cases "ev_receipts E") simp_all
  obtain files where f: "map_of sessions (ct_session c) = Some (SessionFiles files)"
    using found s by (cases "map_of sessions (ct_session c)"; cases "the (map_of sessions (ct_session c))") simp_all
  obtain e where e: "map_of files ?name = Some e" using found s f by (cases "map_of files ?name") simp_all
  obtain data where d: "e = RegularFile (Some data)"
    using found s f e by (cases e; cases "case e of RegularFile d \<Rightarrow> d | _ \<Rightarrow> None") simp_all
  obtain r status where r: "checkReceiptUnder C data E (ct_session c) ?name authority keys = (Some r, status)"
    using found s f e d by (cases "checkReceiptUnder C data E (ct_session c) ?name authority keys"; cases "fst (checkReceiptUnder C data E (ct_session c) ?name authority keys)") simp_all
  with found s f e d have "status = Ok" "r_signature r = ct_signature c" by (cases status; simp)+
  then show ?thesis using that [of data r] s f e d r by (simp add: receipt_at_def)
qed

lemma checked_signature:
  assumes "checkReceiptUnder C data E sid name authority keys = (Some r, Ok)"
  shows "topLevelSignature data = Some (r_signature r)"
proof -
  from assms obtain obj r0 where obj: "parse_object data = Some obj" "receiptFrom obj = Some r0" "r_signature r = r_signature r0"
    by (auto simp: checkReceiptUnder_def Let_def Option.bind_eq_Some_conv split: option.splits if_splits)
  have "memberString obj ''signature'' = Some (r_signature r0)" by (rule receiptFrom_members(7) [OF obj(2)])
  with obj show ?thesis by (auto simp: topLevelSignature_def parse_object_def split: sum.splits jvalue.splits)
qed

lemma judge_file_signatures:
  "sr_signatures (sc_result (judge_file C E sid authority keys (name, data) s)) =
     (case topLevelSignature data of
        Some signature \<Rightarrow> (sr_signatures (sc_result s))(trim_suffix name ''.json'' \<mapsto> signature)
      | None \<Rightarrow> sr_signatures (sc_result s))"
  by (auto simp: judge_file_def Let_def split: option.splits prod.splits)

lemma trim_suffix_whole: "has_suffix s suf \<Longrightarrow> trim_suffix s suf @ suf = s"
  by (simp add: has_suffix_def trim_suffix_def) (metis append_take_drop_id)

lemma trim_suffix_inject:
  "has_suffix a suf \<Longrightarrow> has_suffix b suf \<Longrightarrow> trim_suffix a suf = trim_suffix b suf \<longleftrightarrow> a = b"
  by (metis trim_suffix_whole)

lemma fold_signatures_kept:
  "name \<notin> fst ` set files \<Longrightarrow> list_all (\<lambda>f. has_suffix (fst f) ''.json'') files \<Longrightarrow> has_suffix name ''.json'' \<Longrightarrow>
     sr_signatures (sc_result (fold (judge_file C E sid authority keys) files s)) (trim_suffix name ''.json'') =
     sr_signatures (sc_result s) (trim_suffix name ''.json'')"
proof (induction files arbitrary: s)
  case (Cons f files)
  obtain n d where "f = (n, d)" by (cases f)
  with Cons trim_suffix_inject [of n "''.json''" name] show ?case by (auto simp: judge_file_signatures split: option.splits)
qed simp

lemma fold_signatures:
  "(name, data) \<in> set files \<Longrightarrow> distinct (map fst files) \<Longrightarrow> list_all (\<lambda>f. has_suffix (fst f) ''.json'') files \<Longrightarrow>
     topLevelSignature data = Some signature \<Longrightarrow>
     sr_signatures (sc_result (fold (judge_file C E sid authority keys) files s)) (trim_suffix name ''.json'') = Some signature"
proof (induction files arbitrary: s)
  case (Cons f files)
  show ?case
  proof (cases "f = (name, data)")
    case True
    with Cons fold_signatures_kept [of name files C E sid authority keys] show ?thesis
      by (simp add: judge_file_signatures)
  qed (use Cons in auto)
qed simp

lemma verify_sessions_map:
  "verify_sessions C E authority keys xs = Some results \<Longrightarrow> map_of xs sid = Some entry \<Longrightarrow>
     \<exists>res. map_of results sid = Some res \<and> verifySessionUnder C E sid entry authority keys = Some res"
proof (induction xs arbitrary: results)
  case (Cons x xs)
  then show ?case by (cases x) (auto simp: Option.bind_eq_Some_conv split: if_splits)
qed simp

lemma map_Some_names:
  "map f xs = map Some ys \<Longrightarrow> (\<And>e x. f e = Some x \<Longrightarrow> g x = h e) \<Longrightarrow> map g ys = map h xs"
proof (induction xs arbitrary: ys)
  case (Cons x xs)
  then obtain y zs where "ys = y # zs" "f x = Some y" "map f xs = map Some zs" by (cases ys) auto
  with Cons show ?case by simp
qed simp

lemma map_set_in: "x \<in> set xs \<Longrightarrow> f x = y \<Longrightarrow> y \<in> set (map f xs)"
  by auto

lemma receipt_files_in:
  assumes "receipt_files entries = Some files" and "(name, RegularFile (Some data)) \<in> set entries"
    and "has_suffix name ''.json''" and "distinct (map fst entries)"
  shows "(name, data) \<in> set files" and "distinct (map fst files)" and "list_all (\<lambda>f. has_suffix (fst f) ''.json'') files"
proof -
  let ?es = "sort_key fst (filter (\<lambda>(name, e). e \<noteq> SubDirectory \<and> has_suffix name ''.json'') entries)"
  let ?f = "\<lambda>(name, e). case e of RegularFile (Some data) \<Rightarrow> Some (name, data) | _ \<Rightarrow> None"
  have files: "map ?f ?es = map Some files" using assms(1) option_list_map by (auto simp: receipt_files_def)
  have each: "?f e = Some x \<Longrightarrow> fst x = fst e" for e x
    by (auto split: prod.splits file_entry.splits option.splits)
  have names: "map fst files = map fst ?es"
    by (rule map_Some_names [OF files each])
  have "(name, RegularFile (Some data)) \<in> set ?es" using assms(2,3) by auto
  then have "Some (name, data) \<in> set (map ?f ?es)" by (rule map_set_in) simp
  then show "(name, data) \<in> set files" unfolding files by auto
  have "distinct (map fst (filter (\<lambda>(name, e). e \<noteq> SubDirectory \<and> has_suffix name ''.json'') entries))"
    using assms(4) by (rule distinct_map_filter)
  then show "distinct (map fst files)" unfolding names by (rule distinct_sort_key_map)
  have "fst x \<in> fst ` set ?es" if "x \<in> set files" for x using that names by (metis image_eqI image_set)
  then show "list_all (\<lambda>f. has_suffix (fst f) ''.json'') files" by (fastforce simp: list_all_iff)
qed

text \<open>A citation the executor resolved resolves for the verifier, as long as the receipts stay.\<close>

lemma resolves_kept:
  assumes "resolveCitation C E authority keys c" and "store_kept E E'" and "names_once E'"
    and "listSessions E' = Some sessions" and "verify_sessions C E' authority' keys' sessions = Some results"
  shows "resolves results c"
proof -
  let ?name = "format_int (ct_index c) @ ''.json''"
  obtain data r where at: "receipt_at E (ct_session c) ?name = Some data"
    and checked: "checkReceiptUnder C data E (ct_session c) ?name authority keys = (Some r, Ok)"
    and sig: "r_signature r = ct_signature c" by (rule resolveCitation_at [OF assms(1)])
  from at assms(2) have "receipt_at E' (ct_session c) ?name = Some data" by (simp add: store_kept_def)
  then obtain all files where all: "ev_receipts E' = There all" "map_of all (ct_session c) = Some (SessionFiles files)"
    and held: "map_of files ?name = Some (RegularFile (Some data))"
    by (auto simp: receipt_at_def split: look.splits option.splits session_entry.splits file_entry.splits)
  have once: "distinct (map fst all)" "distinct (map fst files)"
    using assms(3) all map_of_SomeD [OF all(2)] by (auto simp: names_once_def)
  have "sessions = sort_key fst (filter (\<lambda>(name, e). e \<noteq> NotADirectory) all)"
    using assms(4) all(1) by (simp add: listSessions_def)
  moreover have "distinct (map fst (filter (\<lambda>(name, e). e \<noteq> NotADirectory) all))" using once(1) by (rule distinct_map_filter)
  ultimately have "distinct (map fst sessions)" and "(ct_session c, SessionFiles files) \<in> set sessions"
    using map_of_SomeD [OF all(2)] distinct_sort_key_map by auto
  then have "map_of sessions (ct_session c) = Some (SessionFiles files)" by (rule map_of_is_SomeI)
  from verify_sessions_map [OF assms(5) this] obtain res where res: "map_of results (ct_session c) = Some res"
    and verified: "verifySessionUnder C E' (ct_session c) (SessionFiles files) authority' keys' = Some res" by blast
  from verified obtain fs where fs: "receipt_files files = Some fs"
    and sigs: "sr_signatures res = sr_signatures (sc_result (fold (judge_file C E' (ct_session c) authority' keys') fs empty_scan))"
    by (auto simp: verifySessionUnder_def Option.bind_eq_Some_conv Let_def)
  have json: "has_suffix ?name ''.json''" by (rule has_suffix_append)
  note found = receipt_files_in [OF fs map_of_SomeD [OF held] json once(2)]
  have "sr_signatures res (trim_suffix ?name ''.json'') = Some (ct_signature c)"
    unfolding sigs sig [symmetric] by (rule fold_signatures [OF found checked_signature [OF checked]])
  then show ?thesis unfolding trim_suffix_append using res by (simp add: resolves_def)
qed

section \<open>The record\<close>

text \<open>Two walks of one tree hand on the same bytes for a digest both want.\<close>

definition handed_by :: "bool \<Rightarrow> decisionWalk \<Rightarrow> bytes \<rightharpoonup> bytes" where
  "handed_by exact w = map_of (if exact then dw_handedExact w else dw_handed w)"

lemma note_same:
  assumes "handed_by b w h = handed_by b w' h" and "e = b \<Longrightarrow> h \<in> set want \<longleftrightarrow> h \<in> set want'"
  shows "handed_by b (note_candidate C want path d isRecord e w) h = handed_by b (note_candidate C want' path d isRecord e w') h"
  using assms by (cases b; cases e) (auto simp: handed_by_def note_candidate_fields map_of_handed_once)

lemma read_same:
  assumes "handed_by b w h = handed_by b w' h" and "\<not> b \<Longrightarrow> h \<in> set want \<longleftrightarrow> h \<in> set want'"
  shows "handed_by b (read_candidate C want path d w) h = handed_by b (read_candidate C want' path d w') h"
proof -
  have "handed_by b (read_candidate C v path d u) h = handed_by b (note_candidate C v path d True False u) h" for v u
    by (auto simp: read_candidate_def Let_def handed_by_def split: record_cites.splits)
  with note_same [OF assms(1), of False want want' C path d True] assms(2) show ?thesis by simp
qed

lemma walk_tree_same:
  assumes "if b then h \<in> set exact \<longleftrightarrow> h \<in> set exact' else h \<in> set wanted \<longleftrightarrow> h \<in> set wanted'"
  shows "handed_by b (walk_tree C wanted exact tree) h = handed_by b (walk_tree C wanted' exact' tree) h"
proof -
  have want: "\<not> b \<Longrightarrow> h \<in> set wanted \<longleftrightarrow> h \<in> set wanted'" "False = b \<Longrightarrow> h \<in> set wanted \<longleftrightarrow> h \<in> set wanted'"
    "True = b \<Longrightarrow> h \<in> set exact \<longleftrightarrow> h \<in> set exact'" using assms by auto
  have line: "handed_by b (walk_line C wanted exact path l w) h = handed_by b (walk_line C wanted' exact' path l w') h"
    if "handed_by b w h = handed_by b w' h" for path l w w'
    unfolding walk_line_def Let_def
    using read_same [OF note_same [OF that want(3)] want(1)] read_same [OF that want(1)] note_same [OF that want(3)] that
    by (cases "l = []"; cases "trim_suffix l [CHR 0x0D] = []") simp_all
  have lines: "handed_by b (fold (walk_line C wanted exact path) ls w) h = handed_by b (fold (walk_line C wanted' exact' path) ls w') h"
    if "handed_by b w h = handed_by b w' h" for path ls w w'
    using that
  proof (induction ls arbitrary: w w')
    case (Cons l ls)
    show ?case using Cons.IH [OF line [OF Cons.prems]] by simp
  qed simp
  have file_same: "handed_by b (walk_file C wanted exact f w) h = handed_by b (walk_file C wanted' exact' f w') h"
    if "handed_by b w h = handed_by b w' h" for f w w'
    unfolding walk_file_def
    using lines [OF note_same [OF note_same [OF that want(2)] want(3)]] note_same [OF read_same [OF that want(1)] want(3)]
    by (cases f; cases "has_suffix (fst f) ''.jsonl''") simp_all
  have "handed_by b (fold (walk_file C wanted exact) tree w) h = handed_by b (fold (walk_file C wanted' exact') tree w') h"
    if "handed_by b w h = handed_by b w' h" for w w'
    using that
  proof (induction tree arbitrary: w w')
    case (Cons f tree)
    show ?case using Cons.IH [OF file_same [OF Cons.prems]] by simp
  qed simp
  then show ?thesis by (simp add: walk_tree_def)
qed

end
