(* ===== verification/Action_Found.thy ===== *)
theory Action_Found
  imports Action_Verifies
begin

text \<open>
  The receipt of a judged action as it is read back, and what a verifier finds of it.
\<close>

section \<open>The receipt as it is read back\<close>

lemma receiptFrom_action:
  assumes "receiptFrom obj = Some r" and "r_version r = receiptVersion3" and "obj_get obj ''kind'' = Some (VString ''action'')"
    and "obj_get obj ''action'' = Some a"
    and read: "\<And>r. \<exists>d. validateAction a r = Some (r\<lparr> r_delivery := d, r_exactRecord := (exact \<or> r_exactRecord r), r_cites := cites,
      r_recordDigest := rd, r_packDigest := pd \<rparr>)"
  shows "r_kind r = ''action''" "r_exactRecord r = exact" "r_cites r = cites" "r_recordDigest r = rd" "r_packDigest r = pd"
    and "r_witness r = Option.bind (obj_get obj ''witness'') witnessMemberOf"
proof -
  from assms(1) obtain r0 r1 n prev where
    common: "common_members obj = Some r0" and checked: "version_checked obj r0 = Some r1"
    and prev: "(case prev of VNull \<Rightarrow> Some (r1\<lparr> r_callIndex := n \<rparr>)
        | VString p \<Rightarrow> Some (r1\<lparr> r_callIndex := n, r_prevSignature := Some p \<rparr>) | _ \<Rightarrow> None) = Some r"
    unfolding receiptFrom_def version_checked_def [symmetric] Let_def Option.bind_eq_Some_conv by auto
  then have r: "\<exists>p. r = r1\<lparr> r_callIndex := n, r_prevSignature := p \<rparr>"
    by (cases prev) (auto intro: exI [of _ "r_prevSignature r1"])
  have fresh: "\<not> r_exactRecord r0" "r_witness r0 = None"
    using common by (auto simp: common_members_def Option.bind_eq_Some_conv)
  have "r_version r0 = receiptVersion3"
    using version_checked_common [OF checked] r assms(2) by (auto simp: same_common_def)
  then have "validateVersion3 obj r0 = Some r1" using checked by (simp add: version_checked_def receiptVersion_def receiptVersion3_def)
  then obtain k r2 r3 where kind: "memberString obj ''kind'' = Some k" "validate_kind obj k r0 = Some r2"
    and witness: "(case obj_get obj ''witness'' of
             None \<Rightarrow> Some r2
           | Some w \<Rightarrow> do { naming \<leftarrow> witnessMemberOf w; Some (r2\<lparr> r_witness := Some naming \<rparr>) }) = Some r3"
    and r1: "r1 = r3\<lparr> r_kind := k \<rparr>"
    unfolding validateVersion3_def Option.bind_eq_Some_conv option.inject by blast
  have k: "k = ''action''" using kind(1) assms(3) by (simp add: memberString_def)
  then have action: "validateAction a r0 = Some r2" using kind(2) assms(4) by (simp add: validate_kind_def split: option.splits)
  obtain d where r2: "r2 = r0\<lparr> r_delivery := d, r_exactRecord := (exact \<or> r_exactRecord r0), r_cites := cites,
      r_recordDigest := rd, r_packDigest := pd \<rparr>" using read [of r0] action by auto
  have r3: "r3 = r2\<lparr> r_witness := Option.bind (obj_get obj ''witness'') witnessMemberOf \<rparr>"
    using witness fresh(2) r2 by (auto simp: Option.bind_eq_Some_conv split: option.splits)
  show "r_kind r = ''action''" "r_exactRecord r = exact" "r_cites r = cites" "r_recordDigest r = rd" "r_packDigest r = pd"
    "r_witness r = Option.bind (obj_get obj ''witness'') witnessMemberOf"
    using r r1 r2 r3 k fresh by auto
qed

text \<open>The service that mints: its own store, witnesses of their form, and a session that can go on.\<close>

definition mints_ok :: "crypto \<Rightarrow> gatewayService \<Rightarrow> bytes \<Rightarrow> bool" where
  "mints_ok C g sid \<longleftrightarrow>
     own_store C (gw_store g) \<and> valid_utf8 (st_authority (gw_store g)) \<and> witnesses_ok g \<and>
     0 \<le> ss_index (session_of g sid) \<and> ss_index (session_of g sid) \<le> maxSafeInteger \<and>
     valid_utf8 (ss_prev (session_of g sid))"

lemma action_mintingD:
  assumes "action_minting C g j uncertain output now drawn argsSalt requestSalt = Some m"
  obtains e where "parseEnvelope output = Some e" "mt_version m = receiptVersion3" "mt_session m = jd_session j"
    "mt_source m = jd_platform j @ ''/write''" "mt_who m = Some (jd_who j)" "mt_kind m = ''action''"
    "mt_detail m = action_detail C j uncertain e requestSalt" "mt_delegation m = None" "mt_reconciler m = None" "mt_now m = now"
    "mt_witness m = (if gw_witnessedBy g \<noteq> Map.empty then witnessMember g (recordTrail (jd_recorded j)) else None)"
  using assms by (auto simp: action_minting_def Option.bind_eq_Some_conv)

lemma action_input_ok:
  assumes "judged_ok j" and "mints_ok C g (jd_session j)"
    and minted: "action_minting C g j uncertain output now drawn argsSalt requestSalt = Some m"
    and "wf output" and "jdepth output \<le> maxNesting" and "valid_utf8 now"
  shows "input_ok (receipt_input g m (digest_of C d))"
proof -
  obtain e where m: "parseEnvelope output = Some e" "mt_version m = receiptVersion3" "mt_session m = jd_session j"
    "mt_source m = jd_platform j @ ''/write''" "mt_who m = Some (jd_who j)" "mt_kind m = ''action''"
    "mt_detail m = action_detail C j uncertain e requestSalt" "mt_delegation m = None" "mt_reconciler m = None" "mt_now m = now"
    "mt_witness m = (if gw_witnessedBy g \<noteq> Map.empty then witnessMember g (recordTrail (jd_recorded j)) else None)"
    by (rule action_mintingD [OF minted])
  note env = parseEnvelope_ok [OF m(1) assms(4,5)]
  have detail: "detail_ok ''action'' (mt_detail m)"
    using action_validates [OF assms(1) env, of C uncertain requestSalt] by (fastforce simp: detail_ok_def m(7))
  have "fits (mt_detail m)" unfolding m(7) by (rule action_fits [OF assms(1) env])
  moreover have "valid_utf8 (jd_platform j @ ''/write'')"
    using assms(1) by (subst valid_utf8_append) (simp_all add: judged_ok_def valid_utf8_ascii)
  moreover have "\<forall>w. mt_witness m = Some w \<longrightarrow> fits w \<and> witnessMemberOf (VObject w) \<noteq> None"
    using witnessMember_ok assms(2) by (auto simp: m(11) mints_ok_def split: if_splits)
  ultimately show ?thesis
    using detail assms(1,2,6) m(2-6,8-10)
    by (simp add: input_ok_def receipt_input_def judged_ok_def mints_ok_def)
qed

text \<open>The receipt of a judged action is read back as what was judged.\<close>

lemma action_receipt:
  assumes ok: "judged_ok j" and g: "mints_ok C g (jd_session j)"
    and minted: "action_minting C g j uncertain output now drawn argsSalt requestSalt = Some m"
    and written: "wf output" "jdepth output \<le> maxNesting" and now: "valid_utf8 now"
  obtains r where "receiptFrom (stamped C (gw_store g) (buildReceipt C (receipt_input g m (digest_of C d)))) = Some r"
    "r_kind r = ''action''" "r_sessionID r = jd_session j" "r_exactRecord r = jd_exact j" "r_cites r = jd_cites j"
    "r_recordDigest r = dc_recordDigest (jd_decision j)" "r_packDigest r = dc_packDigest (jd_decision j)"
    "\<And>w. r_witness r = Some w \<Longrightarrow>
       wn_trail w = recordTrail (jd_recorded j) \<and> isLowerHexOfLen (wn_trail w) 32 \<and> gw_witnessedBy g \<noteq> Map.empty"
proof -
  let ?inp = "receipt_input g m (digest_of C d)"
  let ?obj = "stamped C (gw_store g) (buildReceipt C ?inp)"
  obtain e where m: "parseEnvelope output = Some e" "mt_version m = receiptVersion3" "mt_session m = jd_session j"
    "mt_kind m = ''action''" "mt_detail m = action_detail C j uncertain e requestSalt"
    "mt_witness m = (if gw_witnessedBy g \<noteq> Map.empty then witnessMember g (recordTrail (jd_recorded j)) else None)"
    by (rule action_mintingD [OF minted])
  have own: "own_store C (gw_store g)" using g by (simp add: mints_ok_def)
  note inp = action_input_ok [OF ok g minted written now, of d]
  have v3: "in_version ?inp = receiptVersion3" "in_kind ?inp = ''action''" using m by (simp_all add: receipt_input_def)
  obtain r where r: "receiptFrom ?obj = Some r" "r_version r = in_version ?inp" "r_sessionID r = in_sessionID ?inp"
    by (rule built_receipt [OF inp own]) blast
  note get = built_get3 [OF inp v3(1), of C "gw_store g"]
  have a: "obj_get ?obj ''action'' = Some (VObject (action_detail C j uncertain e requestSalt))"
    using get(5) v3(2) m(5) by (simp add: receipt_input_def)
  have kind: "obj_get ?obj ''kind'' = Some (VString ''action'')" using get(4) v3(2) by simp
  have version: "r_version r = receiptVersion3" using r(2) v3(1) by simp
  note read = receiptFrom_action [OF r(1) version kind a action_validates [OF ok parseEnvelope_ok [OF m(1) written]]]
  have "wn_trail w = recordTrail (jd_recorded j) \<and> isLowerHexOfLen (wn_trail w) 32 \<and> gw_witnessedBy g \<noteq> Map.empty"
    if "r_witness r = Some w" for w
    using that m(6) unfolding read(6) get(10)
    by (auto simp: receipt_input_def witnessMember_def witnessMemberOf_def requireObject_def requireString_def memberString_def
        obj_get_def Option.bind_eq_Some_conv split: if_splits)
  moreover have "r_sessionID r = jd_session j" using r(3) m(3) by (simp add: receipt_input_def)
  ultimately show ?thesis using that [OF r(1) read(1) _ read(2-5)] by blast
qed

section \<open>The record as the verifier finds it\<close>

lemma walked_tree:
  assumes "walkDecisionRecords C F dir (There files) wanted exacts = Some (walk, there)" and "there"
  shows "walk = walk_tree C wanted exacts files"
proof -
  from assms obtain info where info: "statInput F dir = Some info"
    "(case info of
        None \<Rightarrow> Some (empty_walk, False)
      | Some StatDir \<Rightarrow> Some (walk_tree C wanted exacts files, True)
      | Some _ \<Rightarrow> None) = Some (walk, there)"
    by (auto simp: walkDecisionRecords_def Option.bind_eq_Some_conv split: if_splits)
  with assms(2) show ?thesis by (cases info; cases "the info") auto
qed

lemma judged_record:
  fixes C :: crypto and wanted exacts :: "bytes list" and files :: "(bytes \<times> bytes) list"
  assumes judged: "judge_record C F dir (There files) witnesses policy d cites arguments = Inr (exact, recorded)"
  defines "h \<equiv> trim_digest (dc_recordDigest d)" and "walk \<equiv> walk_tree C wanted exacts files"
  assumes "h \<in> set (if exact then exacts else wanted)"
  shows "h \<in> set (if exact then dw_foundExact walk else dw_found walk)"
    and "policy \<noteq> None \<or> witnesses \<Longrightarrow> recorded = (case handed_by exact walk h of Some data \<Rightarrow> data | None \<Rightarrow> [])"
    and "policy = Some p \<Longrightarrow> \<exists>signed. holdToPolicy C recorded d cites arguments p signed = None"
proof -
  define e where "e = (case policy of None \<Rightarrow> False | Some p \<Rightarrow> pol_signers p \<noteq> [])"
  let ?w = "walk_tree C (if e then [] else [h]) (if e then [h] else []) files"
  obtain walk' there where walked: "walkDecisionRecords C F dir (There files) (if e then [] else [h]) (if e then [h] else []) = Some (walk', there)"
    and hold: "there" "h \<in> set (dw_found walk') \<union> set (dw_foundExact walk')"
    using judged by (auto simp: judge_record_def Let_def e_def h_def split: if_splits option.splits prod.splits)
  have w: "walk' = ?w" by (rule walked_tree [OF walked hold(1)])
  let ?kept = "map_of (if e then dw_handedExact ?w else dw_handed ?w) h"
  let ?recorded = "if policy \<noteq> None \<or> witnesses then (case ?kept of Some data \<Rightarrow> data | None \<Rightarrow> []) else []"
  have out: "exact = e" "recorded = ?recorded"
    "policy = Some p \<Longrightarrow> \<exists>signed. holdToPolicy C recorded d cites arguments p signed = None" for p
    using judged walked [unfolded w] hold [unfolded w]
    unfolding judge_record_def Let_def h_def [symmetric] e_def [symmetric]
    by (auto split: if_splits option.splits)
  note mine = walk_tree_holds [of C "if e then [] else [h]" "if e then [h] else []" files, unfolded walk_holds_def]
  note theirs = walk_tree_holds [of C wanted exacts files, folded walk_def, unfolded walk_holds_def]
  show "h \<in> set (if exact then dw_foundExact walk else dw_found walk)"
    using mine theirs hold(2) assms(4) unfolding w out(1) by (cases e) auto
  have same: "handed_by e ?w h = handed_by e walk h"
    unfolding walk_def by (rule walk_tree_same) (use assms(4) out(1) in auto)
  show "recorded = (case handed_by exact walk h of Some data \<Rightarrow> data | None \<Rightarrow> [])" if "policy \<noteq> None \<or> witnesses"
    using that out(2) same by (simp add: out(1) handed_by_def)
  show "\<exists>signed. holdToPolicy C recorded d cites arguments p signed = None" if "policy = Some p" by (rule out(3) [OF that])
qed

text \<open>What a verifier finds of the receipt of a judged action.\<close>

lemma findings_of_action:
  assumes "list_all (resolves results) (r_cites r)" and "r_exactRecord r = exact" and "h = trim_digest (r_recordDigest r)"
    and "h \<in> set (if exact then dw_foundExact walk else dw_found walk)"
    and "\<And>data. handed_by exact walk h = Some data \<Longrightarrow> rc_understood (recordClaimsOf data) \<Longrightarrow>
      r_witness r = None \<or> rc_trail (recordClaimsOf data) = wn_trail (the (r_witness r))"
  shows "\<forall>x \<in> set (fst (action_findings results walk True r)). status_of x \<in> {Some DecisionPackMismatch, Some DecisionCitesMismatch}"
  using assms by (cases "r_witness r") (auto simp: action_findings_def Let_def handed_by_def split: option.splits)

lemma no_findings_of_action:
  assumes "list_all (resolves results) (r_cites r)" and "r_exactRecord r = exact" and "h = trim_digest (r_recordDigest r)"
    and "h \<in> set (if exact then dw_foundExact walk else dw_found walk)"
    and "handed_by exact walk h = Some data"
    and "rc_understood (recordClaimsOf data)" "rc_packDigest (recordClaimsOf data) = r_packDigest r"
      "rc_citesRead (recordClaimsOf data)" "sameCitations (rc_cites (recordClaimsOf data)) (r_cites r)"
      "r_witness r = None \<or> rc_trail (recordClaimsOf data) = wn_trail (the (r_witness r))"
  shows "action_findings results walk True r = ([], [])"
  using assms by (auto simp: action_findings_def Let_def handed_by_def split: option.splits)

lemma recordTrail_claims:
  assumes "isLowerHexOfLen (recordTrail data) 32"
  shows "rc_trail (recordClaimsOf data) = recordTrail data"
  using assms by (auto simp: recordTrail_def recordClaimsOf_def isLowerHexOfLen_def Let_def split: option.splits if_splits)

end
