(* ===== verification/Sample_Action.thy ===== *)
theory Sample_Action
  imports Action_Found Sample_Run Policy_Claims
begin

text \<open>
  A concrete action: a request under a closed policy, on the sample store, that climbs the ladder and
  whose receipt is minted.
\<close>

definition acting_cite :: citation where
  "acting_cite = \<lparr> ct_session = ''s1'', ct_index = 0, ct_signature = sample_signature (sample_core 0 None) \<rparr>"

definition acting_record :: bytes where
  "acting_record =
     canon (VObject
       [(''cites'', VArray [cited_value acting_cite]),
        (''disposition'', VObject [(''handoff'', VObject [(''state'', VString ''none'')]), (''kind'', VString ''outcome''),
           (''outcomeId'', VString ''approve'')]),
        (''inputs'', VObject [(''facts'', VObject [(''amount'', VInt 5)])]), (''kind'', VString ''evaluation''),
        (''pack'', VObject [(''digest'', VString sample_digest)]), (''recordVersion'', VString ''1'')])"

definition acting_decision :: decision where
  "acting_decision = \<lparr> dc_recordDigest = digest_of sample_crypto acting_record, dc_packDigest = sample_digest \<rparr>"

definition acting_policy :: decisionPolicy where
  "acting_policy = sample_policy\<lparr> pol_digest := sample_digest \<rparr>"

definition acting_source :: writeSource where
  "acting_source =
     \<lparr> ws_binding = ''crm-binding'', ws_argv = [''wrap'', ''--tools=send,hold'', ''--'', ''server''], ws_tools = [''hold'', ''send''],
       ws_policies = [''send'' \<mapsto> acting_policy], ws_recovery = Map.empty, ws_endpoint = [], ws_transport = [],
       ws_approval = None, ws_provenance = None, ws_sandbox = None \<rparr>"

definition acting_config :: actConfig where
  "acting_config =
     \<lparr> ac_sources = [''crm/write'' \<mapsto> acting_source], ac_requireActionKey = False, ac_decisionRecords = ''d'' \<rparr>"

definition acting_disk :: files where
  "acting_disk =
     \<lparr> fs_stat = (\<lambda>p. if p = ''d'' then StatDir else StatNotExist),
       fs_lstat = (\<lambda>p. if p = ''d'' then StatDir else StatNotExist), fs_readFile = (\<lambda>p. None) \<rparr>"

definition acting_caller :: caller where
  "acting_caller = \<lparr> cl_issuer = ''idp'', cl_subject = ''agent'', cl_tokenDigest = sample_digest \<rparr>"

definition acting_arguments :: members where
  "acting_arguments = [(''amount'', VInt 5), (''to'', VArray [VString ''ops''])]"

definition acting_request :: actRequest where
  "acting_request =
     \<lparr> rq_act_session = canon (VString ''s2''), rq_act_platform = canon (VString ''crm''), rq_act_tool = canon (VString ''send''),
       rq_act_arguments = canon (VObject acting_arguments),
       rq_act_decision = canon (VObject [(''packDigest'', VString sample_digest),
         (''recordDigest'', VString (dc_recordDigest acting_decision))]),
       rq_act_cites = canon (VArray [cited_value acting_cite]), rq_act_key = [], rq_act_keyScope = [], rq_act_reconcile = [],
       rq_act_who = Some acting_caller \<rparr>"

definition acting_service :: gatewayService where
  "acting_service = sample_service\<lparr> gw_receiptVersion := receiptVersion3 \<rparr>"

definition acting_tree :: "(bytes \<times> bytes) list" where
  "acting_tree = [(''2026/01.json'', acting_record)]"

definition acting_judged :: judged where
  "acting_judged =
     \<lparr> jd_session = ''s2'', jd_platform = ''crm'', jd_tool = ''send'', jd_spec = narrowTools acting_source ''send'',
       jd_policy = Some acting_policy, jd_arguments = acting_arguments, jd_key = [], jd_keyScoped = False,
       jd_reconcile = False, jd_who = acting_caller, jd_decision = acting_decision, jd_cites = [acting_cite],
       jd_exact = False, jd_recorded = acting_record \<rparr>"

section \<open>The members of the request\<close>

lemma canon_read:
  assumes "wf v" and "jdepth v \<le> maxNesting"
  shows "parseMember (canon v) = Some (norm_json v)"
proof -
  have "canon v \<noteq> []" using canonWrite_first [OF assms(1)] by (auto simp: canon_def)
  then show ?thesis using parseJSON_canon_space [OF assms, of "[]"] by (simp add: parseMember_def)
qed

lemma string_read: "valid_utf8 s \<Longrightarrow> parseString (canon (VString s)) = Some s"
  using canon_read [of "VString s"] by (simp add: parseString_def maxNesting_def)

lemma sample_digest_form: "isDigest sample_digest"
  by code_simp

lemma acting_members:
  "parseString (rq_act_session acting_request) = Some ''s2''"
  "parseString (rq_act_platform acting_request) = Some ''crm''"
  "parseString (rq_act_tool acting_request) = Some ''send''"
  by (simp_all add: acting_request_def string_read valid_utf8_ascii)

lemma acting_given: "parse_arguments (rq_act_arguments acting_request) = Some acting_arguments"
proof -
  have "parse_arguments (canon (VObject acting_arguments)) = Some acting_arguments" by code_simp
  then show ?thesis by (simp add: acting_request_def)
qed

lemma acting_claimed:
  "Option.bind (parseMember (rq_act_decision acting_request)) parseDecision = Some acting_decision"
proof -
  let ?v = "VObject [(''packDigest'', VString sample_digest), (''recordDigest'', VString (dc_recordDigest acting_decision))]"
  have "isDigest (dc_recordDigest acting_decision)" by (simp add: acting_decision_def)
  moreover have "wf ?v" "jdepth ?v \<le> maxNesting"
    using sample_digest_form calculation by (simp_all add: wf_VObject_iff valid_utf8_ascii isDigest_utf8 maxNesting_def)
  moreover have "norm_json ?v = ?v" by code_simp
  ultimately show ?thesis
    using canon_read [of ?v] sample_digest_form
    by (simp add: acting_request_def parseDecision_def requireObject_def exactlyMembers_def all_required_def memberString_def
        present_def obj_get_def acting_decision_def)
qed

lemma acting_cited_ok: "citation_ok acting_cite"
  using sample_session sample_crypto_signs
  by (simp add: signs_ok_def citation_ok_def acting_cite_def maxSafeInteger_def isSignature3_def sample_signature_def stamp_signature_def)

lemma acting_cites: "Option.bind (parseMember (rq_act_cites acting_request)) parse_cites = Some [acting_cite]"
proof -
  let ?v = "VArray [cited_value acting_cite]"
  have "norm_json ?v = VArray [VObject [(''callIndex'', VInt 0), (''sessionId'', VString ''s1''),
      (''signature'', VString (ct_signature acting_cite))]]"
    by (simp add: norm_json.simps cited_value_def acting_cite_def less_eq_char_def less_char_def)
  then show ?thesis
    using canon_read [of ?v] cited_values_fit [of "[acting_cite]"] acting_cited_ok
    by (simp add: acting_request_def parse_cites_def maxNesting_def parseCitations_def parse_citation_def citation_ok_def
        acting_cite_def requireObject_def requireString_def memberString_def member_int_def obj_get_def exactlyMembers_def
        all_required_def present_def)
qed

section \<open>What the ladder reads\<close>

lemma acting_resolves:
  "resolveCitation sample_crypto sample_evidence ''gw'' [\<lparr> rk_key = sample_seed, rk_keyID = keyIDFor sample_crypto sample_seed \<rparr>]
     acting_cite"
proof -
  let ?keys = "[\<lparr> rk_key = sample_seed, rk_keyID = keyIDFor sample_crypto sample_seed \<rparr>]"
  have key: "key_position ?keys (st_keyID sample_store) = Some 0" "rk_key (?keys ! 0) = st_publicKey sample_store"
    using sample_facts(1) by (simp_all add: sample_store_def newStoreOn_def)
  let ?data = "snd (entry_of sample_crypto sample_store sample_cores 0)"
  have name: "fst (entry_of sample_crypto sample_store sample_cores 0) = ''0.json''"
    by (simp add: entry_of_def format_int_def)
  have "checkReceiptUnder sample_crypto ?data sample_evidence ''s1'' ''0.json'' ''gw'' ?keys =
      (Some (read_at sample_crypto sample_store sample_cores sample_receipts 0 0), Ok)"
    using passed_entry [OF sample_chain sample_own_store _ key, of sample_evidence 0] by (simp add: name)
  moreover have "r_signature (read_at sample_crypto sample_store sample_cores sample_receipts 0 0) = ct_signature acting_cite"
    using sample_receipts_nth(10) [of 0] by (simp add: read_at_def acting_cite_def sample_cores_def Let_def)
  moreover have "map_of sample_files ''0.json'' = Some (RegularFile (Some ?data))"
    using name by (simp add: sample_files_def upt_rec [of 0] entry_of_def)
  ultimately show ?thesis
    by (simp add: resolveCitation_def sample_evidence_def acting_cite_def format_int_def)
qed

lemma acting_reaches:
  "judge_session sample_crypto True acting_service acting_request = Some ''s2''"
  "judge_cites sample_crypto acting_service sample_evidence acting_request = Some [acting_cite]"
proof -
  have log: "gw_log acting_service = LogAt []" "gw_store acting_service = sample_store" "gw_sessions acting_service = Map.empty"
    "gw_receipts acting_service = []"
    by (simp_all add: acting_service_def sample_service_def)
  have walk: "engineWalk sample_crypto [] (st_publicKey sample_store) = Inr (start_walk sample_crypto sample_seed)"
    using sample_empty_walk sample_facts(1) by (simp add: sample_store_def newStoreOn_def)
  have "requireSession ''s2''" by (simp add: requireSession_def sessionPattern_def is_name_char_def is_digit_def less_eq_char_def)
  moreover have "sessionOpen sample_crypto True acting_service ''s2'' = None"
    using walk by (simp add: sessionOpen_def loadEngineSeals_def log start_walk_def sessionMintedHere_def)
  ultimately show "judge_session sample_crypto True acting_service acting_request = Some ''s2''"
    by (simp add: judge_session_def acting_members)
  have "reachedKeys sample_crypto acting_service = Some [\<lparr> rk_key = sample_seed, rk_keyID = keyIDFor sample_crypto sample_seed \<rparr>]"
    by (simp add: reachedKeys_def log walk start_walk_def)
  then show "judge_cites sample_crypto acting_service sample_evidence acting_request = Some [acting_cite]"
    using acting_cites acting_resolves
    by (auto simp: judge_cites_def Option.bind_eq_Some_conv log sample_store_def newStoreOn_def)
qed

lemma acting_held:
  "holdToPolicy sample_crypto acting_record acting_decision [acting_cite] (VObject acting_arguments) acting_policy
     \<lparr> se_beside = False, se_lines = [] \<rparr> = None"
  by code_simp

lemma acting_recorded:
  "judge_record sample_crypto acting_disk ''d'' (There acting_tree) False (Some acting_policy) acting_decision [acting_cite]
     (VObject acting_arguments) = Inr (False, acting_record)"
proof -
  let ?h = "trim_digest (dc_recordDigest acting_decision)"
  have h: "?h = hex_encode (sha256 sample_crypto acting_record)"
    unfolding acting_decision_def digest_of_def trim_digest_def decision.simps cut_prefix_append by simp
  have reach: "walkDecisionRecords sample_crypto acting_disk ''d'' (There acting_tree) [?h] [] =
      Some (walk_tree sample_crypto [?h] [] acting_tree, True)"
    by (simp add: walkDecisionRecords_def requirePlainSpelling_def path_components_def registryContainerReachable_def
        pathAncestors_def statInput_def acting_disk_def)
  have walk: "dw_found (walk_tree sample_crypto [?h] [] acting_tree) = [?h]"
    "dw_handed (walk_tree sample_crypto [?h] [] acting_tree) = [(?h, acting_record)]"
    by (simp_all add: walk_tree_def walk_file_def acting_tree_def has_suffix_def read_candidate_def note_candidate_fields
        h empty_walk_def handed_once_def Let_def split: record_cites.split)
  show ?thesis
    using acting_held
    by (simp add: judge_record_def Let_def acting_policy_def sample_policy_def [THEN arg_cong, of pol_signers] reach walk)
qed

lemma acting_judges:
  "judge_act sample_crypto acting_config True acting_service sample_evidence acting_disk (There acting_tree) acting_request =
     Inr acting_judged"
proof -
  have parts: "rq_act_who acting_request = Some acting_caller" "gw_receiptVersion acting_service = receiptVersion3"
    "gw_witnessedBy acting_service = Map.empty" "ac_sources acting_config ''crm/write'' = Some acting_source"
    "judge_key acting_config acting_request = Some ([], False, False)" "ac_decisionRecords acting_config = ''d''"
    "''send'' \<in> set (ws_tools acting_source)" "ws_policies acting_source ''send'' = Some acting_policy"
    by (simp_all add: acting_request_def acting_service_def sample_service_def acting_config_def acting_source_def judge_key_def
        parseActionKeyScope_def)
  show ?thesis
    unfolding judge_act_def
    by (simp add: parts acting_members acting_given acting_claimed acting_reaches acting_recorded and_then_def or_refuse_def
        judge_arguments_def acting_judged_def)
qed

section \<open>The mint\<close>

definition acting_output :: jvalue where
  "acting_output =
     VObject [(''acquisition'', VObject
         [(''adapter'', VObject [(''name'', VString ''mcp''), (''version'', VString ''1''), (''digest'', VString sample_digest)]),
          (''endpoint'', VNull), (''snapshot'', VNull), (''peerIdentity'', VNull), (''upstreamToken'', VNull),
          (''statement'', VNull), (''schema'', VNull), (''observedAt'', VString sample_time)]),
       (''result'', VNull)]"

definition acting_minting :: minting where
  "acting_minting =
     the (action_minting sample_crypto acting_service acting_judged False acting_output sample_time True ''salt'' ''pepper'')"

lemma acting_mints: "mints_ok sample_crypto acting_service ''s2''"
  using sample_own_store
  by (simp add: mints_ok_def acting_service_def sample_service_def sample_store_def newStoreOn_def witnesses_ok_def session_of_def
      new_session_def valid_utf8_ascii maxSafeInteger_def)

lemma acting_written:
  "wf acting_output" "jdepth acting_output \<le> maxNesting"
  "action_minting sample_crypto acting_service acting_judged False acting_output sample_time True ''salt'' ''pepper'' =
     Some acting_minting"
proof -
  show "wf acting_output" "jdepth acting_output \<le> maxNesting"
    using sample_digest_form sample_facts(4)
    by (simp_all add: acting_output_def wf_VObject_iff valid_utf8_ascii isDigest_utf8 maxNesting_def)
  have "parseEnvelope acting_output \<noteq> None" by code_simp
  then show "action_minting sample_crypto acting_service acting_judged False acting_output sample_time True ''salt'' ''pepper'' =
     Some acting_minting"
    unfolding acting_minting_def action_minting_def by auto
qed

lemma acting_config_ok: "config_ok acting_config"
  using sample_digest_form
  by (auto simp: config_ok_def acting_config_def source_ok_def acting_source_def acting_policy_def split: if_splits)

lemma acting_verified:
  obtains results where "verify_sessions sample_crypto sample_evidence ''gw''
    [\<lparr> rk_key = sample_seed, rk_keyID = keyIDFor sample_crypto sample_seed \<rparr>] [(''s1'', SessionFiles sample_files)] = Some results"
proof -
  let ?keys = "[\<lparr> rk_key = sample_seed, rk_keyID = keyIDFor sample_crypto sample_seed \<rparr>]"
  have key: "key_position ?keys (st_keyID sample_store) = Some 0" "rk_key (?keys ! 0) = st_publicKey sample_store"
    using sample_facts(1) by (simp_all add: sample_store_def newStoreOn_def)
  obtain res where "verifySessionUnder sample_crypto sample_evidence ''s1'' (SessionFiles sample_files) ''gw'' ?keys = Some res"
    by (rule verifySession_recorded [OF sample_chain sample_own_store key sample_holds, of sample_evidence]) auto
  then show thesis using that by simp
qed

end
