(* ===== verification/Executor_Claims.thy ===== *)
theory Executor_Claims
  imports Sample_Action
begin

text \<open>
  The properties of the executor: the receipt of a judged action passes the verifier's checks, in its
  form, in its citations and in its decision.
\<close>

section \<open>The property\<close>

text \<open>C10: What the executor judges before it sends a write is what the verifier finds after it.  The
  receipt of a judged action is read back as an action with the citations and the decision of the
  request; on a store that keeps the receipts the executor read, and the same decision-record directory,
  every citation of it resolves, its record is found and its trail is the record's; and when the tool has
  a policy the verifier reports nothing of it at all.\<close>

theorem judged_action_verifies:
  assumes judged: "judge_act C cfg looks g E F (There files) rq = Inr j"
    and ok: "config_ok cfg" "caller_ok (jd_who j)" "mints_ok C g' (jd_session j)" "gw_witnessedBy g' = gw_witnessedBy g"
    and minted: "action_minting C g' j uncertain output now drawn argsSalt requestSalt = Some m"
    and input: "wf output" "jdepth output \<le> maxNesting" "valid_utf8 now"
    and kept: "store_kept E E'" "names_once E'"
    and verified: "listSessions E' = Some sessions" "verify_sessions C E' authority keys sessions = Some results"
    and want: "trim_digest (dc_recordDigest (jd_decision j)) \<in> set (if jd_exact j then exacts else wanted)"
  shows "\<exists>r. receiptFrom (stamped C (gw_store g') (buildReceipt C (receipt_input g' m (digest_of C d)))) = Some r \<and>
    r_kind r = ''action'' \<and> r_cites r = jd_cites j \<and> r_recordDigest r = dc_recordDigest (jd_decision j) \<and>
    r_packDigest r = dc_packDigest (jd_decision j) \<and> r_exactRecord r = jd_exact j \<and>
    (\<forall>x \<in> set (fst (action_findings results (walk_tree C wanted exacts files) True r)).
       status_of x \<in> {Some DecisionPackMismatch, Some DecisionCitesMismatch}) \<and>
    (jd_policy j \<noteq> None \<longrightarrow> action_findings results (walk_tree C wanted exacts files) True r = ([], []))"
proof -
  obtain spec given where found: "judge_cites C g E rq = Some (jd_cites j)"
    "judge_record C F (ac_decisionRecords cfg) (There files) (gw_witnessedBy g \<noteq> Map.empty) (jd_policy j) (jd_decision j)
       (jd_cites j) (VObject (jd_arguments j)) = Inr (jd_exact j, jd_recorded j)"
    by (rule judge_actD [OF judged])
  obtain r where r: "receiptFrom (stamped C (gw_store g') (buildReceipt C (receipt_input g' m (digest_of C d)))) = Some r"
    "r_kind r = ''action''" "r_sessionID r = jd_session j" "r_exactRecord r = jd_exact j" "r_cites r = jd_cites j"
    "r_recordDigest r = dc_recordDigest (jd_decision j)" "r_packDigest r = dc_packDigest (jd_decision j)"
    and naming: "\<And>w. r_witness r = Some w \<Longrightarrow>
       wn_trail w = recordTrail (jd_recorded j) \<and> isLowerHexOfLen (wn_trail w) 32 \<and> gw_witnessedBy g' \<noteq> Map.empty"
    by (rule action_receipt [OF judged_request_ok(1) [OF judged ok(1,2)] ok(3) minted input, of d]) blast
  let ?walk = "walk_tree C wanted exacts files" and ?h = "trim_digest (dc_recordDigest (jd_decision j))"
  note there = judged_record [OF found(2) want]
  have each: "resolveCitation C E (st_authority (gw_store g)) keys c" if "c \<in> set (jd_cites j)" "reachedKeys C g = Some keys" for c keys
    using found(1) that by (auto simp: judge_cites_def Option.bind_eq_Some_conv list_all_iff)
  obtain ks where "reachedKeys C g = Some ks" using found(1) by (auto simp: judge_cites_def Option.bind_eq_Some_conv)
  with each resolves_kept [OF _ kept verified] have resolved: "list_all (resolves results) (r_cites r)"
    unfolding r(5) list_all_iff by blast
  have h: "?h = trim_digest (r_recordDigest r)" by (simp add: r(6))
  have trail: "r_witness r = None \<or> rc_trail (recordClaimsOf data) = wn_trail (the (r_witness r))"
    if "handed_by (jd_exact j) ?walk ?h = Some data" for data
    using naming there(2) that ok(4) recordTrail_claims by (cases "r_witness r") auto
  note unfound = findings_of_action [OF resolved r(4) h there(1) trail]
  have "action_findings results ?walk True r = ([], [])" if policy: "jd_policy j = Some p" for p
  proof -
    obtain signed where held: "holdToPolicy C (jd_recorded j) (jd_decision j) (jd_cites j) (VObject (jd_arguments j)) p signed = None"
      using there(3) [OF policy] by blast
    then obtain rr cs where read: "readRuntimeRecord (jd_recorded j) = Some rr" "rr_packDigest rr = dc_packDigest (jd_decision j)"
      "record_citations rr = Some cs" "set cs = set (jd_cites j)"
      unfolding holdToPolicy_None by blast
    have "readRuntimeRecord [] = None" by code_simp
    with read(1) there(2) policy obtain data where data: "handed_by (jd_exact j) ?walk ?h = Some data" "jd_recorded j = data"
      by (cases "handed_by (jd_exact j) ?walk ?h") auto
    show ?thesis
      by (rule no_findings_of_action [OF resolved r(4) h there(1) data(1) _ _ _ _ trail [OF data(1)]])
        (use read r data(2) in \<open>auto simp: recordClaimsOf_def sameCitations_iff\<close>)
  qed
  with r unfound show ?thesis by auto
qed

text \<open>The sample action, on the sample store.\<close>

theorem judged_action_verifies_witness:
  "\<exists>r results.
     verify_sessions sample_crypto sample_evidence ''gw'' [\<lparr> rk_key = sample_seed, rk_keyID = keyIDFor sample_crypto sample_seed \<rparr>]
       [(''s1'', SessionFiles sample_files)] = Some results \<and>
     receiptFrom (stamped sample_crypto sample_store
       (buildReceipt sample_crypto (receipt_input acting_service acting_minting (digest_of sample_crypto (canon VNull))))) = Some r \<and>
     action_findings results (walk_tree sample_crypto [trim_digest (dc_recordDigest acting_decision)] [] acting_tree) True r =
       ([], [])"
proof -
  obtain results where results: "verify_sessions sample_crypto sample_evidence ''gw''
      [\<lparr> rk_key = sample_seed, rk_keyID = keyIDFor sample_crypto sample_seed \<rparr>] [(''s1'', SessionFiles sample_files)] = Some results"
    by (rule acting_verified)
  have facts: "caller_ok (jd_who acting_judged)" "jd_session acting_judged = ''s2''" "valid_utf8 sample_time"
    "trim_digest (dc_recordDigest (jd_decision acting_judged)) \<in> set (if jd_exact acting_judged then []
       else [trim_digest (dc_recordDigest acting_decision)])" "jd_policy acting_judged = Some acting_policy"
    "gw_store acting_service = sample_store"
    using sample_digest_form sample_facts(4)
    by (simp_all add: caller_ok_def acting_judged_def acting_caller_def valid_utf8_ascii acting_service_def sample_service_def)
  have kept: "store_kept sample_evidence sample_evidence" "names_once sample_evidence"
    using sample_holds by (simp_all add: store_kept_def names_once_def sample_evidence_def holds_chain_def)
  show ?thesis
    using judged_action_verifies [OF acting_judges acting_config_ok facts(1) acting_mints [folded facts(2)] refl
        acting_written(3,1,2) facts(3) kept sample_sessions results facts(4), of "canon VNull"]
    unfolding facts(5,6) using results by blast
qed

end
