(* ===== verification/Execution.thy ===== *)
theory Execution
  imports Executor
begin

text \<open>
  The identity of a keyed action and what is retained of one (\<^verbatim>\<open>action_execution.go\<close>): the fingerprint
  a key is bound to, the envelope of an uncertain dispatch, and the answer a retry is given from the
  journal.

  What a sandbox's probe measures and the digest of the running executable are arguments.
\<close>

section \<open>What a source is approved to be\<close>

definition with_text :: "bytes \<Rightarrow> bytes \<Rightarrow> members \<Rightarrow> members" where
  "with_text name s v = (if s = [] then v else obj_set v name (VString s))"

definition with_words :: "bytes \<Rightarrow> bytes list \<Rightarrow> members \<Rightarrow> members" where
  "with_words name list v = (if list = [] then v else obj_set v name (VArray (map VString list)))"

definition approval_value :: "sourceApproval option \<Rightarrow> jvalue" where
  "approval_value approval =
     (case approval of
        None \<Rightarrow> VNull
      | Some a \<Rightarrow>
          let v = with_text ''image'' (ap_image a) [];
              v = with_text ''url'' (ap_url a) v;
              v = with_words ''headers'' (ap_headers a) v;
              v = with_text ''platformEndpoint'' (ap_platformEndpoint a) v;
              v = with_words ''serverArguments'' (ap_serverArgs a) v;
              v = with_words ''command'' (ap_command a) v;
              v = (if ap_customer a then obj_set v ''customer'' (VBool True) else v);
              v = with_text ''descriptorPin'' (ap_descriptorPin a) v;
              v = with_text ''ownerDeclarationPin'' (ap_ownerDeclarationPin a) v;
              v = with_text ''approvedOperation'' (ap_approvedOperation a) v;
              v = with_text ''approvedPlatform'' (ap_approvedPlatform a) v;
              v = with_text ''approvedBinding'' (ap_approvedBinding a) v
          in VObject (with_text ''sandboxSource'' (ap_sandboxSource a) v))"

definition actionInstallFlags :: "bytes list" where
  "actionInstallFlags =
     [''--credentials='', ''--runtime='', ''--sandbox-workspace='', ''--sandbox-policy='', ''--descriptor-snapshot='',
      ''--owner-declaration-file='']"

text \<open>What follows \<^verbatim>\<open>--\<close> is the server's own command line, and is kept whole.\<close>

fun approved_words :: "bool \<Rightarrow> bytes list \<Rightarrow> bytes list" where
  "approved_words own [] = []"
| "approved_words own (word # words) =
     (let own = (own \<and> word \<noteq> ''--'') in
      if own \<and> list_ex (\<lambda>flag. cut_prefix flag word \<noteq> None) actionInstallFlags then approved_words own words
      else word # approved_words own words)"

definition actionApprovedArgv :: "bytes list \<Rightarrow> jvalue" where
  "actionApprovedArgv argv = VArray (map VString (approved_words True (drop 1 argv)))"

definition actionSandboxIdentity :: "(writeSource \<Rightarrow> bytes option) \<Rightarrow> writeSource \<Rightarrow> jvalue option" where
  "actionSandboxIdentity probe spec =
     (case ws_sandbox spec of
        None \<Rightarrow> Some VNull
      | Some selector \<Rightarrow>
          map_option (\<lambda>digest. VObject (obj_set (obj_set [] ''source'' (VString selector)) ''policy'' (VString digest)))
            (probe spec))"

section \<open>The identity of a keyed action\<close>

definition identity_request ::
  "crypto \<Rightarrow> bytes \<Rightarrow> bytes \<Rightarrow> jvalue \<Rightarrow> jvalue \<Rightarrow> jvalue \<Rightarrow> writeSource \<Rightarrow> actionRecovery option \<Rightarrow> members" where
  "identity_request C platform tool args decision cites spec recovery =
     (let v = obj_set [] ''platform'' (VString platform);
          v = obj_set v ''tool'' (VString tool);
          v = obj_set v ''arguments'' args;
          v = obj_set v ''decision'' decision;
          v = obj_set v ''cites'' cites;
          v = obj_set v ''binding'' (VString (ws_binding spec));
          v = obj_set v ''recovery'' (VString (recovery_digest C recovery))
      in case ws_policies spec tool of None \<Rightarrow> v | Some policy \<Rightarrow> obj_set v ''policy'' (VString (pol_digest policy)))"

definition source_identity :: "bool \<Rightarrow> jvalue \<Rightarrow> writeSource \<Rightarrow> members" where
  "source_identity named sandbox spec =
     (let v = obj_set [] ''binding'' (VString (ws_binding spec));
          v = obj_set v ''endpoint'' (VString (ws_endpoint spec));
          v = obj_set v ''transport'' (VString (ws_transport spec));
          v = obj_set v ''sandbox'' sandbox;
          v = (if named
               then obj_set (obj_set v ''tools'' (VArray (map VString (ws_tools spec)))) ''approval'' (approval_value (ws_approval spec))
               else obj_set v ''argv'' (actionApprovedArgv (ws_argv spec)))
      in case ws_provenance spec of None \<Rightarrow> v | Some p \<Rightarrow> obj_set v ''descriptorProvenance'' (provenance_value p))"

text \<open>What is hashed, under each version of the identity.\<close>

definition identity_values ::
  "crypto \<Rightarrow> (writeSource \<Rightarrow> bytes option) \<Rightarrow> bytes \<Rightarrow> bytes \<Rightarrow> jvalue \<Rightarrow> jvalue \<Rightarrow> jvalue \<Rightarrow> writeSource \<Rightarrow> actionRecovery option \<Rightarrow>
     writeSource \<Rightarrow> (bool \<Rightarrow> members) option" where
  "identity_values C probe platform tool args decision cites spec recovery live =
     do {
       sandbox \<leftarrow> actionSandboxIdentity probe spec;
       let request = identity_request C platform tool args decision cites spec recovery;
       let written = (\<lambda>named. obj_set request ''writeSource'' (VObject (source_identity named sandbox spec)));
       (case Option.bind recovery rec_readBack of
          None \<Rightarrow> Some written
        | Some rb \<Rightarrow> do {
            let reader = narrowTools live (rb_tool rb);
            sandbox \<leftarrow> actionSandboxIdentity probe reader;
            Some (\<lambda>named. obj_set (written named) ''readSource'' (VObject (source_identity named sandbox reader))) }) }"

definition actionFingerprint ::
  "crypto \<Rightarrow> (writeSource \<Rightarrow> bytes option) \<Rightarrow> bytes \<Rightarrow> bytes \<Rightarrow> jvalue \<Rightarrow> jvalue \<Rightarrow> jvalue \<Rightarrow> writeSource \<Rightarrow> actionRecovery option \<Rightarrow>
     writeSource \<Rightarrow> actionIdentity option" where
  "actionFingerprint C probe platform tool args decision cites spec recovery live =
     map_option (\<lambda>v. \<lparr> ai_fingerprint = actionHash C ''action-identity'' (VObject (v True)),
         ai_previous = actionHash C ''action-intent'' (VObject (v False)) \<rparr>)
       (identity_values C probe platform tool args decision cites spec recovery live)"

section \<open>Uncertain dispatches\<close>

definition uncertainActionEnvelope :: "bytes \<Rightarrow> bytes \<Rightarrow> jvalue" where
  "uncertainActionEnvelope digest now =
     (let adapter = obj_set [] ''name'' (VString ''judgment-pack-gateway/uncertainty'');
          adapter = obj_set adapter ''version'' (VString ''1'');
          adapter = obj_set adapter ''digest'' (VString digest);
          acquisition = fold (\<lambda>name a. obj_set a name VNull)
            [''endpoint'', ''statement'', ''snapshot'', ''peerIdentity'', ''schema'', ''upstreamToken''] [];
          acquisition = obj_set acquisition ''adapter'' (VObject adapter);
          acquisition = obj_set acquisition ''observedAt'' (VString now);
          answer = obj_set (obj_set [] ''outcome'' (VString ''uncertain'')) ''observer'' (VString ''gateway'')
      in VObject (obj_set (obj_set [] ''result'' (VObject answer)) ''acquisition'' (VObject acquisition)))"

definition reconciliation_member :: "members \<Rightarrow> bytes \<Rightarrow> bytes \<Rightarrow> actionReadBack \<Rightarrow> jvalue \<Rightarrow> members" where
  "reconciliation_member action key contract rb result =
     obj_set (obj_set (obj_set (obj_set [] ''action'' (VObject action)) ''key'' (VString key)) ''contract'' (VString contract))
       ''outcome'' (VString (readBack_outcome rb key result))"

section \<open>Retained answers\<close>

definition commits :: "crypto \<Rightarrow> members \<Rightarrow> bytes \<Rightarrow> bytes \<Rightarrow> bytes \<Rightarrow> members \<Rightarrow> bytes \<Rightarrow> bool" where
  "commits C salts entry label canonical obj member =
     (let salt = string_of salts entry in
      isLowerHexOfLen salt 64 \<and>
      commitmentOver C (case hex_decode salt of Some s \<Rightarrow> s | None \<Rightarrow> []) label canonical = string_of obj member)"

text \<open>The response a retry is given, and the outcome it records.\<close>

definition readActionResponse ::
  "crypto \<Rightarrow> gatewayService \<Rightarrow> evidence \<Rightarrow> bytes \<Rightarrow> caller \<Rightarrow> bytes \<Rightarrow> bytes \<Rightarrow> members \<Rightarrow> bytes \<Rightarrow> (members \<times> bytes) option" where
  "readActionResponse C g E raw who key contract arguments request =
     do {
       obj \<leftarrow> parse_object raw;
       require (exactlyMembers obj [(''result'', True), (''receipt'', True), (''salts'', True)]);
       rv \<leftarrow> obj_get obj ''receipt'';
       ro \<leftarrow> requireObject rv;
       r \<leftarrow> receiptFrom ro;
       require (r_kind r = ''action'' \<and> r_authority r = st_authority (gw_store g));
       av \<leftarrow> obj_get ro ''action'';
       action \<leftarrow> requireObject av;
       dv \<leftarrow> obj_get action ''delivery'';
       delivery \<leftarrow> requireObject dv;
       let outcome = string_of delivery ''outcome'';
       require (string_of delivery ''key'' = key \<and> string_of delivery ''contract'' = contract);
       require (outcome = ''response'' \<or> outcome = ''uncertain'');
       iv \<leftarrow> obj_get action ''requester'';
       identity \<leftarrow> requireObject iv;
       require (string_of identity ''issuer'' = cl_issuer who \<and> string_of identity ''subject'' = cl_subject who);
       keys \<leftarrow> reachedKeys C g;
       require (resolveCitation C E (st_authority (gw_store g)) keys (citation_of r));
       require (snd (checkReceiptUnder C (canon (VObject ro)) E (r_sessionID r) (format_int (r_callIndex r) @ ''.json'')
         (st_authority (gw_store g)) keys) = Ok);
       result \<leftarrow> obj_get obj ''result'';
       require (digest_of C (canon result) = r_resultDigest r);
       sv \<leftarrow> obj_get obj ''salts'';
       salts \<leftarrow> requireObject sv;
       require (exactlyMembers salts [(''args'', True), (''request'', True)]);
       require (commits C salts ''args'' ''args:'' (canon (VObject arguments)) ro ''argumentsCommitment'');
       require (commits C salts ''request'' ''request:'' request action ''request'');
       Some (obj, outcome) }"

end
