(* ===== verification/Ladder.thy ===== *)
theory Ladder
  imports Execution "HOL-Library.Multiset"
begin

text \<open>
  A judged action on its way to its target (\<^verbatim>\<open>act.go\<close> from the key on): the journal is consulted before
  anything is sent, a reconciling request closes its key, a dispatch is claimed before the write program
  is started, and what became of it is minted and retained.

  A request is a state machine: each stage is one call the handler makes, on the journal, on the service
  or on the write program, and \<open>act_next\<close> is the rest of the handler up to the next call.  Between two
  stages any other request may run.  A call on the journal is one step; where it makes several of the
  filesystem, an exclusive creation decides it, and the step is that creation.  What the system and the
  program answer in one stage is the record \<open>ladder_env\<close>.
\<close>

section \<open>The program and what the system answers\<close>

text \<open>The write program was started and answered, was started and failed, or was never started.\<close>

datatype program_run = Ran jvalue | Failed | NotStarted bytes

record ladder_env =
  le_journal :: journal_env
  le_now :: bytes
  le_publishers :: bool
  le_mkdir :: bool
  le_removes :: bool
  le_run :: program_run
  le_executable :: "bytes option"
  le_evidence :: evidence
  le_drawn :: bool
  le_argsSalt :: bytes
  le_requestSalt :: bytes
  le_directory :: fsIndexed
  le_write :: write_env
  le_evidenceSyncs :: bool

section \<open>A request with its key\<close>

text \<open>A request with what identifies it: the process that serves it, the authority of that process, and
  the identity of what it asks.\<close>

record keyed =
  kd_process :: nat
  kd_authority :: bytes
  kd_judged :: judged
  kd_identity :: actionIdentity

definition has_key :: "keyed \<Rightarrow> bool" where
  "has_key k \<longleftrightarrow> jd_key (kd_judged k) \<noteq> []"

definition namespace_of :: "crypto \<Rightarrow> keyed \<Rightarrow> bytes" where
  "namespace_of C k =
     (let j = kd_judged k in
      actionNamespace C (kd_authority k) None (cl_issuer (jd_who j)) (cl_subject (jd_who j)) (jd_key j))"

definition first_of :: "crypto \<Rightarrow> keyed \<Rightarrow> actionKeyFirstScope" where
  "first_of C k =
     (let j = kd_judged k in
      actionFirstScope C (kd_authority k) None (cl_issuer (jd_who j)) (cl_subject (jd_who j)) (jd_key j) (namespace_of C k))"

definition contract_of :: "crypto \<Rightarrow> keyed \<Rightarrow> bytes" where
  "contract_of C k = recovery_digest C (ws_recovery (jd_spec (kd_judged k)) (jd_tool (kd_judged k)))"

datatype act_answer =
    Taken
  | KeyError journal_error
  | OutcomeUnknown
  | NotDispatched
  | KeyIsClosed
  | RetainedInvalid
  | Retained members
  | ReadsBack members
  | PublisherRefused
  | NotAdmitted refusal
  | NeverStarted
  | ProgramFailed
  | NotMinted
  | NotRecorded
  | Acted members

text \<open>The next call of a request.\<close>

datatype stage =
    Indexing
  | Foreign_looking
  | Reconcile_looking
  | Closing_unseen
  | Holding
  | Lost_looking
  | Reserving
  | Looking_closed
  | Holding_again
  | Reading
  | Attempting
  | Closing nat
  | Policing nat bool
  | Admitting nat bool
  | Claiming nat
  | Rechecking
  | Running nat
  | Freeing nat bytes
  | Minting "jvalue option"
  | Recording bool members
  | Abandoning "act_answer option"
  | Close_syncing
  | Close_indexing
  | Ending act_answer

record act_run =
  ar_keyed :: keyed
  ar_foreign :: bool
  ar_indexed :: bool
  ar_reserved :: bool
  ar_stage :: stage

text \<open>What all requests share: the journal, the services of the processes, and what has been sent.\<close>

record ladder_world =
  lw_journal :: journal_dir
  lw_services :: "nat \<Rightarrow> gatewayService"
  lw_sent :: "(keyed \<times> nat) multiset"

section \<open>The answer a program wrote\<close>

text \<open>\<^verbatim>\<open>encoding/json\<close> on a response: members by name, every integer of the safe range as its digits.\<close>

primrec json_marshal :: "jvalue \<Rightarrow> bytes" where
  "json_marshal (VObject ms) =
     CHR ''{'' #
     comma_join (map (\<lambda>(n, w). json_text n @ CHR '':'' # w)
                     (sort_key fst (map (map_prod id json_marshal) ms))) @ ''}''"
| "json_marshal (VArray vs) = CHR ''['' # comma_join (map json_marshal vs) @ '']''"
| "json_marshal (VString s) = json_text s"
| "json_marshal (VInt i) = format_int i"
| "json_marshal (VBool b) = (if b then ''true'' else ''false'')"
| "json_marshal VNull = ''null''"
| "json_marshal (VNumber s) = s"

definition act_response :: "jvalue \<Rightarrow> members \<Rightarrow> bytes \<Rightarrow> bytes \<Rightarrow> members" where
  "act_response answer stored argsSalt requestSalt =
     [(''result'', answer), (''receipt'', VObject stored),
      (''salts'', VObject [(''args'', VString (hex_encode argsSalt)), (''request'', VString (hex_encode requestSalt))])]"

section \<open>The stages\<close>

definition to_stage :: "stage \<Rightarrow> act_run \<Rightarrow> act_answer + act_run" where
  "to_stage st r = Inr (r\<lparr> ar_stage := st \<rparr>)"

text \<open>A request that holds a reservation of its session releases it at its end.\<close>

definition to_answer :: "act_answer \<Rightarrow> act_run \<Rightarrow> act_answer + act_run" where
  "to_answer a r = (if ar_reserved r then Inr (r\<lparr> ar_stage := Ending a \<rparr>) else Inl a)"

definition entry_at :: "journal_dir \<Rightarrow> bytes \<Rightarrow> action_entry" where
  "entry_at j name = (case map_of j name of Some (Directory private root) \<Rightarrow> root | _ \<Rightarrow> [])"

definition put_entry :: "bytes \<Rightarrow> action_entry \<Rightarrow> journal_dir \<Rightarrow> journal_dir" where
  "put_entry name root j =
     (case map_of j name of Some (Directory private _) \<Rightarrow> AList.update name (Directory private root) j | _ \<Rightarrow> j)"

text \<open>A call that changes the journal, and one that changes the entry held.\<close>

definition on_journal :: "('a \<times> journal_dir) \<Rightarrow> ladder_world \<Rightarrow> ('a \<Rightarrow> act_answer + act_run) \<Rightarrow> (act_answer + act_run) \<times> ladder_world" where
  "on_journal call w next = (case call of (answer, j) \<Rightarrow> (next answer, w\<lparr> lw_journal := j \<rparr>))"

definition on_entry ::
  "bytes \<Rightarrow> (action_entry \<Rightarrow> 'a \<times> action_entry) \<Rightarrow> ladder_world \<Rightarrow> ('a \<Rightarrow> act_answer + act_run) \<Rightarrow> (act_answer + act_run) \<times> ladder_world" where
  "on_entry name call w next =
     on_journal (case call (entry_at (lw_journal w) name) of (answer, root) \<Rightarrow> (answer, put_entry name root (lw_journal w))) w next"

definition on_service :: "nat \<Rightarrow> (gatewayService \<Rightarrow> 'a \<times> gatewayService) \<Rightarrow> ladder_world \<Rightarrow> ('a \<Rightarrow> act_answer + act_run) \<Rightarrow> (act_answer + act_run) \<times> ladder_world" where
  "on_service p call w next =
     (case call (lw_services w p) of (answer, g) \<Rightarrow> (next answer, w\<lparr> lw_services := (lw_services w)(p := g) \<rparr>))"

text \<open>Before the reservation: the first scope of the key, and a key no request has seen.\<close>

definition may_hold :: "act_run \<Rightarrow> bool" where
  "may_hold r \<longleftrightarrow> jd_keyScoped (kd_judged (ar_keyed r))"

definition reconciles :: "act_run \<Rightarrow> bool" where
  "reconciles r \<longleftrightarrow> jd_reconcile (kd_judged (ar_keyed r))"

definition scope_next :: "crypto \<Rightarrow> ladder_env \<Rightarrow> act_run \<Rightarrow> ladder_world \<Rightarrow> (act_answer + act_run) \<times> ladder_world" where
  "scope_next C le r w =
     (let env = le_journal le; j = lw_journal w; k = ar_keyed r; name = namespace_of C k; first = first_of C k in
      case ar_stage r of
        Indexing \<Rightarrow>
          (case keyIndexed env j first of
             Inr b \<Rightarrow> to_stage Reconcile_looking (r\<lparr> ar_indexed := b \<rparr>)
           | Inl FirstScopeConflict \<Rightarrow> to_stage Foreign_looking (r\<lparr> ar_foreign := True \<rparr>)
           | Inl e \<Rightarrow> to_answer (KeyError e) r, w)
      | Foreign_looking \<Rightarrow> (if has_entry env j name then to_stage Reconcile_looking r else to_answer Taken r, w)
      | Reconcile_looking \<Rightarrow>
          (if reconciles r \<and> \<not> has_entry env j name
           then (if ar_indexed r then to_answer OutcomeUnknown r else to_stage Closing_unseen r)
           else to_stage Holding r, w)
      | Closing_unseen \<Rightarrow>
          on_journal (reserveClosed env (le_now le) name (kd_identity k) None j) w
            (\<lambda>answer. case answer of
               Inr _ \<Rightarrow> to_stage Holding r
             | Inl RecordExists \<Rightarrow> to_stage Holding r
             | Inl e \<Rightarrow> to_answer (KeyError e) r)
      | Holding \<Rightarrow>
          (if may_hold r \<and> \<not> reconciles r \<and> \<not> ar_foreign r then
             on_journal (holdKeyIndex env first j) w
               (\<lambda>answer. case answer of
                  Inr _ \<Rightarrow> to_stage Reserving r
                | Inl FirstScopeConflict \<Rightarrow> to_stage Lost_looking r
                | Inl e \<Rightarrow> to_answer (KeyError e) r)
           else (to_stage Reserving r, w))
      | Lost_looking \<Rightarrow>
          (if has_entry env j name then to_stage Reserving (r\<lparr> ar_foreign := True \<rparr>) else to_answer Taken r, w)
      | Reserving \<Rightarrow>
          (if reconciles r \<or> ar_foreign r then
             (case openReservation env name (kd_identity k) None j of
                Inl e \<Rightarrow> to_answer (KeyError e) r
              | Inr _ \<Rightarrow> to_stage Looking_closed r, w)
           else on_journal (reserveScoped env name (kd_identity k) None j) w
             (\<lambda>answer. case answer of
                Inl e \<Rightarrow> to_answer (KeyError e) r
              | Inr (_, fresh) \<Rightarrow> to_stage (if fresh then Attempting else Looking_closed) r))
      | _ \<Rightarrow> (Inr r, w))"

text \<open>On the reservation: what it holds, and the attempt a dispatch would claim.\<close>

definition entry_next :: "crypto \<Rightarrow> ladder_env \<Rightarrow> act_run \<Rightarrow> ladder_world \<Rightarrow> (act_answer + act_run) \<times> ladder_world" where
  "entry_next C le r w =
     (let env = le_journal le; k = ar_keyed r; d = kd_judged k; name = namespace_of C k; first = first_of C k;
          root = entry_at (lw_journal w) name in
      case ar_stage r of
        Looking_closed \<Rightarrow> (to_stage (if closed env root then Close_syncing else Holding_again) r, w)
      | Holding_again \<Rightarrow>
          (if reconciles r \<and> may_hold r \<and> \<not> ar_foreign r then
             on_journal (holdKeyIndex env first (lw_journal w)) w
               (\<lambda>answer. case answer of
                  Inr _ \<Rightarrow> to_stage Reading (r\<lparr> ar_indexed := True \<rparr>)
                | Inl FirstScopeConflict \<Rightarrow> to_stage Reading (r\<lparr> ar_foreign := True \<rparr>)
                | Inl e \<Rightarrow> to_answer (KeyError e) r)
           else (to_stage Reading r, w))
      | Reading \<Rightarrow>
          (case claim_read env root ''action.json'' actionJournalResponseLimit of
             Inr saved \<Rightarrow>
               (case readActionResponse C (lw_services w (kd_process k)) (le_evidence le) saved (jd_who d) (jd_key d)
                       (contract_of C k) (jd_arguments d) (act_request d) of
                  None \<Rightarrow> to_answer RetainedInvalid r
                | Some (response, outcome) \<Rightarrow>
                    to_answer (if outcome = ''response'' then Retained response else ReadsBack response) r)
           | Inl RecordAbsent \<Rightarrow> to_stage Attempting r
           | Inl e \<Rightarrow> to_answer (KeyError e) r, w)
      | Attempting \<Rightarrow>
          (case attempt env root of
             Inl KeyClosed \<Rightarrow> to_stage Close_syncing r
           | Inl e \<Rightarrow> to_answer (KeyError e) r
           | Inr (n, begun) \<Rightarrow>
               if ar_foreign r \<and> \<not> begun then to_answer Taken r
               else if reconciles r \<and> \<not> begun then to_stage (Closing n) r
               else to_stage (Policing n begun) r, w)
      | Closing n \<Rightarrow>
          on_entry name (closeDispatch env (le_now le) n) w
            (\<lambda>answer. case answer of
               Inr _ \<Rightarrow> to_stage Close_syncing r
             | Inl KeyClosed \<Rightarrow> to_stage Close_syncing r
             | Inl DispatchClaimed \<Rightarrow> to_stage (Policing n True) r
             | Inl e \<Rightarrow> to_answer (KeyError e) r)
      | Close_syncing \<Rightarrow>
          (if ar_foreign r then to_answer Taken r
           else if \<not> je_syncs env then to_answer (KeyError JournalUnavailable) r
           else if reconciles r then to_stage Close_indexing r
           else to_answer KeyIsClosed r, w)
      | Close_indexing \<Rightarrow>
          on_journal (holdKeyIndex env first (lw_journal w)) w
            (\<lambda>answer. case answer of
               Inr _ \<Rightarrow> to_answer NotDispatched r
             | Inl FirstScopeConflict \<Rightarrow> to_answer Taken r
             | Inl e \<Rightarrow> to_answer (KeyError e) r)
      | _ \<Rightarrow> (Inr r, w))"

text \<open>The dispatch: admission, the claim, the program, and the receipt.\<close>

definition sent_next :: "crypto \<Rightarrow> act_run \<Rightarrow> program_run \<Rightarrow> nat \<Rightarrow> act_answer + act_run" where
  "sent_next C r outcome n =
     (let unsure = (if has_key (ar_keyed r) then to_stage (Minting None) r else to_answer ProgramFailed r) in
      case outcome of
        Ran output \<Rightarrow> (case readEnvelope output ''mcp'' of None \<Rightarrow> unsure | Some _ \<Rightarrow> to_stage (Minting (Some output)) r)
      | Failed \<Rightarrow> unsure
      | NotStarted reason \<Rightarrow> (if has_key (ar_keyed r) then to_stage (Freeing n reason) r else to_answer ProgramFailed r))"

definition dispatch_next :: "crypto \<Rightarrow> ladder_env \<Rightarrow> act_run \<Rightarrow> ladder_world \<Rightarrow> (act_answer + act_run) \<times> ladder_world" where
  "dispatch_next C le r w =
     (let env = le_journal le; k = ar_keyed r; d = kd_judged k; name = namespace_of C k; p = kd_process k;
          root = entry_at (lw_journal w) name in
      case ar_stage r of
        Policing n begun \<Rightarrow>
          (if \<not> begun \<and> \<not> le_publishers le then to_answer PublisherRefused r else to_stage (Admitting n begun) r, w)
      | Admitting n begun \<Rightarrow>
          on_service p (admitAction (le_mkdir le) (jd_session d)) w
            (\<lambda>answer. case answer of
               Inl e \<Rightarrow> to_answer (NotAdmitted e) r
             | Inr _ \<Rightarrow>
                 to_stage (if begun then Rechecking else if has_key k then Claiming n else Running n)
                   (r\<lparr> ar_reserved := True \<rparr>))
      | Claiming n \<Rightarrow>
          on_entry name (claimDispatchUnder env n None []) w
            (\<lambda>answer. case answer of
               Inr _ \<Rightarrow> to_stage (Running n) r
             | Inl KeyClosed \<Rightarrow> to_stage (Abandoning None) r
             | Inl DispatchClaimed \<Rightarrow> to_stage Rechecking r
             | Inl e \<Rightarrow> to_answer (KeyError e) r)
      | Rechecking \<Rightarrow> (to_stage (if closed env root then Abandoning None else Minting None) r, w)
      | Running n \<Rightarrow>
          (sent_next C r (le_run le) n,
           (case le_run le of NotStarted _ \<Rightarrow> w | _ \<Rightarrow> w\<lparr> lw_sent := add_mset (k, n) (lw_sent w) \<rparr>))
      | Freeing n reason \<Rightarrow>
          on_entry name (releaseDispatch env n reason) w
            (\<lambda>answer. case answer of
               Inr _ \<Rightarrow> to_stage (Abandoning (Some NeverStarted)) r
             | Inl _ \<Rightarrow> to_stage (Minting None) r)
      | Minting observed \<Rightarrow>
          (case (case observed of
                   Some output \<Rightarrow> Some output
                 | None \<Rightarrow> map_option (\<lambda>digest. uncertainActionEnvelope digest (le_now le)) (le_executable le)) of
             None \<Rightarrow> (to_answer NotMinted r, w)
           | Some output \<Rightarrow>
               (case action_minting C (lw_services w p) d (observed = None) output (le_now le) (le_drawn le) (le_argsSalt le)
                       (le_requestSalt le) of
                  None \<Rightarrow> (to_answer NotMinted r, w)
                | Some m \<Rightarrow>
                    on_service p (mint C (le_directory le) (le_write le) m) w
                      (\<lambda>answer. case answer of
                         Inl _ \<Rightarrow> to_answer NotMinted r
                       | Inr stored \<Rightarrow>
                           (let response = act_response (mt_result m) stored (le_argsSalt le) (le_requestSalt le) in
                            if has_key k then to_stage (Recording (observed = None) response) r
                            else to_answer (Acted response) r))))
      | Recording uncertain response \<Rightarrow>
          (if \<not> le_evidenceSyncs le then (to_answer NotRecorded r, w)
           else on_entry name (publish env ''action.json'' (json_marshal (VObject response)) actionJournalResponseLimit) w
             (\<lambda>answer. case answer of
                Inl _ \<Rightarrow> to_answer NotRecorded r
              | Inr _ \<Rightarrow> to_answer (if uncertain then ReadsBack response else Acted response) r))
      | Abandoning next \<Rightarrow>
          on_service p (\<lambda>g. ((), abandonUnminted (le_removes le) (jd_session d) g)) w
            (\<lambda>_. case next of None \<Rightarrow> to_stage Close_syncing r | Some a \<Rightarrow> to_answer a r)
      | Ending a \<Rightarrow> on_service p (\<lambda>g. ((), release (jd_session d) g)) w (\<lambda>_. Inl a)
      | _ \<Rightarrow> (Inr r, w))"

definition act_next :: "crypto \<Rightarrow> ladder_env \<Rightarrow> act_run \<Rightarrow> ladder_world \<Rightarrow> (act_answer + act_run) \<times> ladder_world" where
  "act_next C le r w =
     (case ar_stage r of
        Indexing \<Rightarrow> scope_next C le r w
      | Foreign_looking \<Rightarrow> scope_next C le r w
      | Reconcile_looking \<Rightarrow> scope_next C le r w
      | Closing_unseen \<Rightarrow> scope_next C le r w
      | Holding \<Rightarrow> scope_next C le r w
      | Lost_looking \<Rightarrow> scope_next C le r w
      | Reserving \<Rightarrow> scope_next C le r w
      | Looking_closed \<Rightarrow> entry_next C le r w
      | Holding_again \<Rightarrow> entry_next C le r w
      | Reading \<Rightarrow> entry_next C le r w
      | Attempting \<Rightarrow> entry_next C le r w
      | Closing n \<Rightarrow> entry_next C le r w
      | Close_syncing \<Rightarrow> entry_next C le r w
      | Close_indexing \<Rightarrow> entry_next C le r w
      | _ \<Rightarrow> dispatch_next C le r w)"

text \<open>A request as it starts: with a key at the journal, without one at the publishers' policy.\<close>

definition act_start :: "keyed \<Rightarrow> act_run" where
  "act_start k =
     \<lparr> ar_keyed = k, ar_foreign = False, ar_indexed = False, ar_reserved = False,
       ar_stage = (if has_key k then Indexing else Policing 0 False) \<rparr>"

end
