(* ===== verification/Ladder_Journal.thy ===== *)
theory Ladder_Journal
  imports Ladder Journal_Run
begin

text \<open>
  What each call of a request leaves of the journal: it changes one directory, adds records to it and
  removes none, and an entry that appears is a reservation, open or closed.
\<close>

section \<open>Directories\<close>

definition is_entry :: "journal_dir \<Rightarrow> bytes \<Rightarrow> bool" where
  "is_entry j name \<longleftrightarrow> (\<exists>private root. map_of j name = Some (Directory private root))"

lemma entry_at_directory [simp]: "map_of j name = Some (Directory private root) \<Longrightarrow> entry_at j name = root"
  by (simp add: entry_at_def)

lemma entry_at_none: "\<not> is_entry j name \<Longrightarrow> entry_at j name = []"
  by (auto simp: is_entry_def entry_at_def split: option.splits journal_node.splits)

lemma put_entry_other: "other \<noteq> name \<Longrightarrow> map_of (put_entry name root j) other = map_of j other"
  by (auto simp: put_entry_def update_conv' split: option.splits journal_node.splits)

lemma put_entry_here: "is_entry j name \<Longrightarrow> entry_at (put_entry name root j) name = root"
  by (auto simp: put_entry_def is_entry_def entry_at_def update_conv')

lemma is_entry_put [simp]: "is_entry (put_entry name root j) other = is_entry j other"
  by (auto simp: put_entry_def is_entry_def update_conv' split: option.splits journal_node.splits)

lemma namespace_not_index [simp]: "namespace_of C k \<noteq> actionIndexDirectory" "actionIndexDirectory \<noteq> namespace_of C k"
proof -
  have "length (namespace_of C k) = 64"
    by (simp add: namespace_of_def actionNamespace_def actionHash_def Let_def)
  moreover have "length actionIndexDirectory = 5" by (simp add: actionIndexDirectory_def)
  ultimately show "namespace_of C k \<noteq> actionIndexDirectory" "actionIndexDirectory \<noteq> namespace_of C k" by auto
qed

section \<open>The index of first scopes\<close>

lemma readKeyIndex_True:
  "readKeyIndex env index first = Inr True \<Longrightarrow> map_of index (fs_file first) = Some (Whole (fs_record first))"
  by (auto simp: readKeyIndex_def readActionRecord_def Let_def
      split: if_splits sum.splits option.splits journal_file.splits journal_error.splits jvalue.splits)

lemma readKeyIndex_False: "readKeyIndex env index first = Inr False \<Longrightarrow> map_of index (fs_file first) = None"
  by (auto simp: readKeyIndex_def readActionRecord_def
      split: if_splits sum.splits option.splits journal_file.splits journal_error.splits jvalue.splits)

lemma openActionDirectory_Inr: "openActionDirectory env j name = Inr root \<Longrightarrow> \<exists>private. map_of j name = Some (Directory private root)"
  by (auto simp: openActionDirectory_def split: option.splits journal_node.splits if_splits)

lemma publishActionRecord_kept: "publishActionRecord env r root = (answer, root') \<Longrightarrow> kept root root'"
  by (auto simp: publishActionRecord_def kept_def update_conv' split: if_splits)

lemma publishActionRecord_Inr:
  "publishActionRecord env r root = (Inr (), root') \<Longrightarrow> map_of root' (rec_name r) = Some (Whole (rec_raw r))"
  by (auto simp: publishActionRecord_def update_conv' split: if_splits)

text \<open>Holding the index in a journal that has its directory.\<close>

definition hold_in :: "journal_env \<Rightarrow> actionKeyFirstScope \<Rightarrow> journal_dir \<Rightarrow> (journal_error + unit) \<times> journal_dir" where
  "hold_in env first j =
     (case openActionDirectory env j actionIndexDirectory of
        Inl e \<Rightarrow> (Inl e, j)
      | Inr index \<Rightarrow>
          (case readKeyIndex env index first of
             Inl e \<Rightarrow> (Inl e, j)
           | Inr True \<Rightarrow> (if je_syncs env then Inr () else Inl JournalUnavailable, j)
           | Inr False \<Rightarrow>
               (case publishActionRecord env
                  \<lparr> rec_name = fs_file first, rec_raw = fs_record first, rec_limit = actionIndexLimit \<rparr> index of
                  (answer, index) \<Rightarrow>
                    let j = AList.update actionIndexDirectory (Directory True index) j in
                    (case answer of
                       Inr _ \<Rightarrow> (Inr (), j)
                     | Inl RecordExists \<Rightarrow>
                         (case readKeyIndex env index first of
                            Inl e \<Rightarrow> (Inl e, j)
                          | Inr _ \<Rightarrow> (if je_syncs env then Inr () else Inl JournalUnavailable, j))
                     | Inl e \<Rightarrow> (Inl e, j)))))"

definition with_index :: "journal_dir \<Rightarrow> journal_dir" where
  "with_index j =
     (if map_of j actionIndexDirectory = None then AList.update actionIndexDirectory (Directory True []) j else j)"

lemma holdKeyIndex_in:
  "holdKeyIndex env first j =
     (if map_of j actionIndexDirectory = None \<and> \<not> je_mkdir env then (Inl JournalUnavailable, j) else hold_in env first (with_index j))"
  by (simp add: holdKeyIndex_def hold_in_def with_index_def Let_def)

lemma with_index: "M \<noteq> actionIndexDirectory \<Longrightarrow> map_of (with_index j) M = map_of j M"
  "entry_at (with_index j) actionIndexDirectory = entry_at j actionIndexDirectory"
  by (auto simp: with_index_def update_conv' entry_at_def)

lemma hold_in_leaves:
  assumes "hold_in env first j = (answer, j')"
  shows "M \<noteq> actionIndexDirectory \<Longrightarrow> map_of j' M = map_of j M"
    and "kept (entry_at j actionIndexDirectory) (entry_at j' actionIndexDirectory)"
    and "answer = Inr () \<Longrightarrow> map_of (entry_at j' actionIndexDirectory) (fs_file first) = Some (Whole (fs_record first))"
proof -
  let ?rec = "\<lparr> rec_name = fs_file first, rec_raw = fs_record first, rec_limit = actionIndexLimit \<rparr>"
  consider (same) "j' = j" "answer \<noteq> Inr ()"
    | (there) index where "openActionDirectory env j actionIndexDirectory = Inr index" "readKeyIndex env index first = Inr True" "j' = j"
    | (made) index index' published where "openActionDirectory env j actionIndexDirectory = Inr index"
        "readKeyIndex env index first = Inr False"
        "publishActionRecord env ?rec index = (published, index')" "j' = AList.update actionIndexDirectory (Directory True index') j"
        "answer = Inr () \<Longrightarrow> published = Inr ()"
  proof (cases "openActionDirectory env j actionIndexDirectory")
    case (Inl e)
    with assms same show ?thesis by (auto simp: hold_in_def)
  next
    case index: (Inr index)
    show ?thesis
    proof (cases "readKeyIndex env index first")
      case (Inl e)
      with assms index same show ?thesis by (auto simp: hold_in_def)
    next
      case (Inr b)
      show ?thesis
      proof (cases b)
        case True
        with Inr have read: "readKeyIndex env index first = Inr True" by simp
        with assms index have "j' = j" by (simp add: hold_in_def)
        then show ?thesis by (rule there [OF index read])
      next
        case False
        obtain published index' where pub: "publishActionRecord env ?rec index = (published, index')" by fastforce
        have "map_of index (fs_file first) = None" using readKeyIndex_False Inr False by simp
        then have "published \<noteq> Inl RecordExists"
          using pub by (auto simp: publishActionRecord_def split: if_splits)
        moreover have "j' = AList.update actionIndexDirectory (Directory True index') j \<and> (answer = Inr () \<longrightarrow> published = Inr ())"
          using assms index Inr False pub calculation
          by (auto simp: hold_in_def Let_def split: sum.splits journal_error.splits)
        moreover have "readKeyIndex env index first = Inr False" using Inr False by simp
        ultimately show ?thesis using made [OF index _ pub] by blast
      qed
    qed
  qed
  note cases = this
  show "map_of j' M = map_of j M" if "M \<noteq> actionIndexDirectory"
    using that by (cases rule: cases) (simp_all add: update_conv')
  show "kept (entry_at j actionIndexDirectory) (entry_at j' actionIndexDirectory)"
  proof (cases rule: cases)
    case (made index index' published)
    obtain p where "map_of j actionIndexDirectory = Some (Directory p index)" using openActionDirectory_Inr [OF made(1)] by blast
    with made publishActionRecord_kept [OF made(3)] show ?thesis by (simp add: entry_at_def update_conv')
  qed simp_all
  show "map_of (entry_at j' actionIndexDirectory) (fs_file first) = Some (Whole (fs_record first))" if "answer = Inr ()"
  proof (cases rule: cases)
    case same
    with that show ?thesis by simp
  next
    case (there index)
    obtain p where "map_of j actionIndexDirectory = Some (Directory p index)" using openActionDirectory_Inr [OF there(1)] by blast
    with there readKeyIndex_True show ?thesis by simp
  next
    case (made index index' published)
    then show ?thesis using publishActionRecord_Inr [of env ?rec index index'] that by (simp add: entry_at_def update_conv')
  qed
qed

lemma holdKeyIndex_leaves:
  assumes "holdKeyIndex env first j = (answer, j')"
  shows "M \<noteq> actionIndexDirectory \<Longrightarrow> map_of j' M = map_of j M"
    and "kept (entry_at j actionIndexDirectory) (entry_at j' actionIndexDirectory)"
    and "answer = Inr () \<Longrightarrow> map_of (entry_at j' actionIndexDirectory) (fs_file first) = Some (Whole (fs_record first))"
  using assms hold_in_leaves [of env first "with_index j" answer j'] with_index
  by (auto simp: holdKeyIndex_in split: if_splits)

lemma holdKeyIndex_entry:
  "holdKeyIndex env first j = (answer, j') \<Longrightarrow> is_entry j actionIndexDirectory \<Longrightarrow> is_entry j' actionIndexDirectory"
  by (auto simp: holdKeyIndex_def is_entry_def update_conv' Let_def
      split: if_splits sum.splits bool.splits prod.splits journal_error.splits)

section \<open>Reservations\<close>

definition entry_records :: "actionRecord list \<Rightarrow> action_entry" where
  "entry_records records = map (\<lambda>r. (rec_name r, Whole (rec_raw r))) records"

lemma publishEntry_leaves:
  "publishEntry env name records j = (answer, j') \<Longrightarrow>
     j' = j \<and> answer \<noteq> Inr () \<or> map_of j name = None \<and> j' = AList.update name (Directory True (entry_records records)) j"
  by (auto simp: publishEntry_def entry_records_def split: if_splits option.splits journal_node.splits)

lemma reserveClosed_leaves:
  assumes "reserveClosed env now name identity scope j = (answer, j')"
  shows "j' = j \<or> map_of j name = None \<and> j' = AList.update name (Directory True (entry_records (reservationRecords identity scope @
    [\<lparr> rec_name = actionDispatchName 1, rec_raw = closedMarker now 1, rec_limit = 1024 \<rparr>]))) j"
  using assms by (auto simp: reserveClosed_def dest: publishEntry_leaves split: if_splits)

lemma reserveScoped_leaves:
  assumes "reserveScoped env name identity scope j = (answer, j')"
  shows "j' = j \<or> map_of j name = None \<and> j' = AList.update name (Directory True (entry_records (reservationRecords identity scope))) j"
    and "answer = Inr (root, fresh) \<Longrightarrow> map_of j' name = Some (Directory True root) \<or> (\<exists>private. map_of j' name = Some (Directory private root))"
proof -
  obtain made j1 where made: "publishUnlessPresent env name (reservationRecords identity scope) j = (made, j1)" by fastforce
  obtain a j2 where pub: "publishEntry env name (reservationRecords identity scope) j = (a, j2)" by fastforce
  have one: "j1 = j \<or> map_of j name = None \<and> j1 = AList.update name (Directory True (entry_records (reservationRecords identity scope))) j"
    using made pub publishEntry_leaves [OF pub]
    by (auto simp: publishUnlessPresent_def split: if_splits sum.splits journal_error.splits)
  have "j' = j \<or> j' = j1"
    using assms made by (auto simp: reserveScoped_def split: if_splits sum.splits option.splits)
  with one show "j' = j \<or> map_of j name = None \<and> j' = AList.update name (Directory True (entry_records (reservationRecords identity scope))) j"
    by blast
  show "map_of j' name = Some (Directory True root) \<or> (\<exists>private. map_of j' name = Some (Directory private root))"
    if "answer = Inr (root, fresh)"
  proof -
    from assms made that have "j' = j1" "holdEntry env j1 name = Inr root"
      by (auto simp: reserveScoped_def split: if_splits sum.splits option.splits)
    then show ?thesis using openActionDirectory_Inr by (fastforce simp: holdEntry_def split: if_splits)
  qed
qed

lemma openReservation_entry: "openReservation env name identity scope j = Inr root \<Longrightarrow> is_entry j name"
  using openActionDirectory_Inr
  by (fastforce simp: openReservation_def holdEntry_def is_entry_def split: if_splits sum.splits option.splits)

lemma reservation_new:
  "key_new \<lparr> ky_root = entry_records (reservationRecords identity None), ky_requests = {#}, ky_sent = {#} \<rparr>"
  "key_new \<lparr> ky_root = entry_records (reservationRecords identity None @
     [\<lparr> rec_name = actionDispatchName 1, rec_raw = raw, rec_limit = limit \<rparr>]), ky_requests = {#}, ky_sent = {#} \<rparr>"
  by (auto simp: key_new_def entry_records_def reservationRecords_def answered_def marked_def actionNotDispatchedName_def
      actionDispatchName_def split: if_splits)

section \<open>Closed keys\<close>

lemma closedMarker_closed:
  assumes "map_of root (actionDispatchName n) = Some (Whole (closedMarker now n))" and "n \<in> {1..actionDispatchAttempts}"
    and "valid_utf8 now" and "length (closedMarker now n) \<le> actionScopeLimit"
  shows "closedAt os_answers root n"
proof -
  let ?v = "VObject [(''attempt'', VInt (int n)), (''closed'', VBool True), (''closedAt'', VString now)]"
  let ?ms = "[(''attempt'', VInt (int n)), (''closed'', VBool True), (''closedAt'', VString now)]"
  have ok: "wf ?v" "jdepth ?v \<le> maxNesting"
    using assms(2,3) by (simp_all add: wf_VObject_iff valid_utf8_ascii in_safe_range_def minSafeInteger_def maxSafeInteger_def
        actionDispatchAttempts_def maxNesting_def)
  have "parse_object (canon ?v) = Some (norm_members ?ms)" using parse_object_canon [of ?ms "[]"] ok by simp
  then have parses: "parseJSON (closedMarker now n) = Inr (VObject (norm_members ?ms))"
    by (auto simp: parse_object_def closedMarker_def split: sum.splits jvalue.splits)
  have name: "actionJournalName (actionDispatchName n)"
    using assms(2) by (auto simp: actionJournalName_def list_ex_iff simp del: upt_Suc)
  have "claim_read os_answers root (actionDispatchName n) actionScopeLimit = Inr (closedMarker now n)"
    using assms(1,4) name parses by (simp add: claim_read_def readActionRecord_def os_answers_def)
  moreover have "obj_get (norm_members ?ms) ''closed'' = Some (VBool True)" "obj_get (norm_members ?ms) ''attempt'' = Some (VInt (int n))"
    using ok(1) by (simp_all add: obj_get_norm') (simp_all add: obj_get_def)
  ultimately show ?thesis using parses by (simp add: closedAt_def)
qed

lemma closed_from: "closedAt env root n \<Longrightarrow> n \<in> {1..actionDispatchAttempts} \<Longrightarrow> closed os_answers root"
  using closedAt_answers [of env root n root] by (auto simp: closed_def list_ex_iff simp del: upt_Suc)

lemma closed_kept: "closed env root \<Longrightarrow> kept root root' \<Longrightarrow> closed os_answers root'"
  using closed_stays by (fastforce simp: closed_def list_ex_iff simp del: upt_Suc)

lemma attempt_closed: "attempt env root = Inl KeyClosed \<Longrightarrow> closed os_answers root"
proof -
  have "\<exists>n \<in> set ns. closedAt env root n" if "attempt_from env root ns = Inl KeyClosed" for ns
    using that by (induction ns) (auto split: if_splits sum.splits)
  then show "attempt env root = Inl KeyClosed \<Longrightarrow> closed os_answers root"
    unfolding attempt_def by (fastforce intro: closed_from simp del: upt_Suc)
qed

lemma taken_marker_closed:
  "taken_marker env n given = (Inl KeyClosed, root) \<Longrightarrow> fst given \<noteq> Inl KeyClosed \<Longrightarrow> closedAt env root n"
  by (auto simp: taken_marker_def split: prod.splits sum.splits journal_error.splits if_splits)

lemma claim_closed: "claimDispatchUnder env n None [] root = (Inl KeyClosed, root') \<Longrightarrow> closedAt env root' n"
  unfolding claimDispatchUnder_def
  by (erule taken_marker_closed) (auto simp: put_def split: if_splits option.splits)

lemma close_closed:
  assumes "closeDispatch env now n root = (answer, root')" and "answer = Inr () \<or> answer = Inl KeyClosed"
    and "n \<in> {1..actionDispatchAttempts}" and "valid_utf8 now"
  shows "closed os_answers root'"
proof (cases "answer = Inl KeyClosed")
  case True
  let ?rec = "\<lparr> rec_name = actionDispatchName n, rec_raw = closedMarker now n, rec_limit = 1024 \<rparr>"
  have "fst (publishActionRecord env ?rec root) \<noteq> Inl KeyClosed" by (auto simp: publishActionRecord_def)
  then have "closedAt env root' n"
    using assms(1) True taken_marker_closed by (auto simp: closeDispatch_def split: if_splits)
  then show ?thesis by (rule closed_from [OF _ assms(3)])
next
  case False
  let ?rec = "\<lparr> rec_name = actionDispatchName n, rec_raw = closedMarker now n, rec_limit = 1024 \<rparr>"
  have inr: "answer = Inr ()" using assms(2) False by simp
  obtain a b where pub: "publishActionRecord env ?rec root = (a, b)" by fastforce
  with assms(1) inr have "a = Inr ()" "b = root'"
    by (auto simp: closeDispatch_def taken_marker_def split: if_splits sum.splits journal_error.splits)
  with pub have rec_ok: "length (closedMarker now n) \<le> 1024" "map_of root' (actionDispatchName n) = Some (Whole (closedMarker now n))"
    by (auto simp: publishActionRecord_def record_valid_def update_conv' split: if_splits)
  moreover have "(1024::nat) \<le> actionScopeLimit" by (simp add: actionScopeLimit_def)
  ultimately have "closedAt os_answers root' n"
    using closedMarker_closed [OF rec_ok(2) assms(3,4)] order_trans [OF rec_ok(1)] by blast
  then show ?thesis by (rule closed_from [OF _ assms(3)])
qed

end
