(* ===== verification/Ladder_Step.thy ===== *)
theory Ladder_Step
  imports Ladder_Journal
begin

text \<open>
  One call of a request with a key, whatever the others did before it: what it needs of the journal and
  what it leaves.  What a request has of its key is its phase in the dispatch machine of the journal;
  every call is a step of that machine, makes the entry, or leaves it as it was.
\<close>

section \<open>What a stage stands for\<close>

primrec phase_of :: "stage \<Rightarrow> phase multiset" where
  "phase_of Indexing = {#}"
| "phase_of Foreign_looking = {#}"
| "phase_of Reconcile_looking = {#}"
| "phase_of Closing_unseen = {#}"
| "phase_of Holding = {#}"
| "phase_of Lost_looking = {#}"
| "phase_of Reserving = {#}"
| "phase_of Looking_closed = {#}"
| "phase_of Holding_again = {#}"
| "phase_of Reading = {#}"
| "phase_of Attempting = {#}"
| "phase_of (Closing n) = {#Found n#}"
| "phase_of (Policing n begun) = (if begun then {#} else {#Found n#})"
| "phase_of (Admitting n begun) = (if begun then {#} else {#Found n#})"
| "phase_of (Claiming n) = {#Found n#}"
| "phase_of Rechecking = {#}"
| "phase_of (Running n) = {#Granted n#}"
| "phase_of (Freeing n reason) = {#Granted n#}"
| "phase_of (Minting observed) = {#}"
| "phase_of (Recording uncertain response) = {#}"
| "phase_of (Abandoning answer) = {#}"
| "phase_of Close_syncing = {#}"
| "phase_of Close_indexing = {#}"
| "phase_of (Ending answer) = {#}"

text \<open>Before the first scope of the key is held, and before the entry is there.\<close>

definition early :: "stage \<Rightarrow> bool" where
  "early st \<longleftrightarrow> st \<in> {Indexing, Foreign_looking, Reconcile_looking, Closing_unseen, Holding, Lost_looking} \<or> (\<exists>a. st = Ending a)"

definition unreserved :: "stage \<Rightarrow> bool" where
  "unreserved st \<longleftrightarrow> early st \<or> st = Reserving"

text \<open>The answers, and the stages on the way to them, that tell a caller nothing was or will be sent.\<close>

definition shut_answer :: "act_answer \<Rightarrow> bool" where
  "shut_answer a \<longleftrightarrow> a = NotDispatched \<or> a = KeyIsClosed"

definition shut_stage :: "stage \<Rightarrow> bool" where
  "shut_stage st \<longleftrightarrow>
     (case st of
        Close_syncing \<Rightarrow> True
      | Close_indexing \<Rightarrow> True
      | Abandoning next \<Rightarrow> (case next of None \<Rightarrow> True | Some a \<Rightarrow> shut_answer a)
      | Ending a \<Rightarrow> shut_answer a
      | _ \<Rightarrow> False)"

definition sending :: "stage \<Rightarrow> bool" where
  "sending st \<longleftrightarrow>
     (case st of
        Policing n begun \<Rightarrow> \<not> begun
      | Admitting n begun \<Rightarrow> \<not> begun
      | Claiming n \<Rightarrow> True
      | Running n \<Rightarrow> True
      | Freeing n reason \<Rightarrow> True
      | _ \<Rightarrow> False)"

lemmas stage_defs = early_def unreserved_def shut_answer_def shut_stage_def sending_def

text \<open>The index holds the first scope of the request's key.\<close>

definition indexed_in :: "crypto \<Rightarrow> journal_dir \<Rightarrow> keyed \<Rightarrow> bool" where
  "indexed_in C j k \<longleftrightarrow>
     map_of (entry_at j actionIndexDirectory) (fs_file (first_of C k)) = Some (Whole (fs_record (first_of C k)))"

definition scoped :: "keyed \<Rightarrow> bool" where
  "scoped k \<longleftrightarrow> jd_keyScoped (kd_judged k)"

definition asks_outcome :: "keyed \<Rightarrow> bool" where
  "asks_outcome k \<longleftrightarrow> jd_reconcile (kd_judged k)"

definition answer_ok :: "crypto \<Rightarrow> journal_dir \<Rightarrow> keyed \<Rightarrow> act_answer \<Rightarrow> bool" where
  "answer_ok C j k a \<longleftrightarrow> (shut_answer a \<longrightarrow> closed os_answers (entry_at j (namespace_of C k)))"

definition sent_ok :: "crypto \<Rightarrow> journal_dir \<Rightarrow> keyed \<Rightarrow> bool" where
  "sent_ok C j k \<longleftrightarrow> is_entry j (namespace_of C k) \<and> \<not> asks_outcome k \<and> (scoped k \<longrightarrow> indexed_in C j k)"

definition stage_ok :: "crypto \<Rightarrow> journal_dir \<Rightarrow> keyed \<Rightarrow> bool \<Rightarrow> stage \<Rightarrow> bool" where
  "stage_ok C j k foreign st \<longleftrightarrow>
     (\<not> unreserved st \<longrightarrow> is_entry j (namespace_of C k)) \<and>
     (\<not> early st \<and> scoped k \<and> \<not> foreign \<and> \<not> asks_outcome k \<longrightarrow> indexed_in C j k) \<and>
     (shut_stage st \<longrightarrow> closed os_answers (entry_at j (namespace_of C k))) \<and>
     (sending st \<longrightarrow> \<not> foreign \<and> \<not> asks_outcome k)"

definition out_ok :: "crypto \<Rightarrow> journal_dir \<Rightarrow> keyed \<Rightarrow> act_answer + act_run \<Rightarrow> bool" where
  "out_ok C j k out \<longleftrightarrow>
     (case out of
        Inl a \<Rightarrow> answer_ok C j k a
      | Inr r \<Rightarrow> ar_keyed r = k \<and> stage_ok C j k (ar_foreign r) (ar_stage r))"

definition phase_in :: "act_answer + act_run \<Rightarrow> phase multiset" where
  "phase_in out = (case out of Inl _ \<Rightarrow> {#} | Inr r \<Rightarrow> phase_of (ar_stage r))"

lemma to_stage_out [simp]:
  "out_ok C j k (to_stage st r) \<longleftrightarrow> ar_keyed r = k \<and> stage_ok C j k (ar_foreign r) st"
  "phase_in (to_stage st r) = phase_of st"
  by (simp_all add: out_ok_def to_stage_def phase_in_def)

lemma to_answer_out [simp]:
  "ar_keyed r = k \<Longrightarrow> out_ok C j k (to_answer a r) = answer_ok C j k a"
  "phase_in (to_answer a r) = {#}"
  by (simp_all add: out_ok_def to_answer_def phase_in_def stage_ok_def answer_ok_def stage_defs)

lemma open_answer [simp]: "\<not> shut_answer a \<Longrightarrow> answer_ok C j k a"
  by (simp add: answer_ok_def)

lemma shut_answers [simp]:
  "shut_answer NotDispatched" "shut_answer KeyIsClosed" "\<not> shut_answer Taken" "\<not> shut_answer (KeyError e)"
  "\<not> shut_answer OutcomeUnknown" "\<not> shut_answer RetainedInvalid" "\<not> shut_answer (Retained ms)"
  "\<not> shut_answer (ReadsBack ms)" "\<not> shut_answer PublisherRefused" "\<not> shut_answer (NotAdmitted f)"
  "\<not> shut_answer NeverStarted" "\<not> shut_answer ProgramFailed" "\<not> shut_answer NotMinted"
  "\<not> shut_answer NotRecorded" "\<not> shut_answer (Acted ms)"
  by (simp_all add: shut_answer_def)

section \<open>The journal only grows\<close>

definition grows :: "journal_dir \<Rightarrow> journal_dir \<Rightarrow> bool" where
  "grows j j' \<longleftrightarrow> (\<forall>M. (is_entry j M \<longrightarrow> is_entry j' M) \<and> kept (entry_at j M) (entry_at j' M))"

lemma grows_refl [simp]: "grows j j"
  by (simp add: grows_def)

lemma grows_holds:
  assumes "grows j j'"
  shows "is_entry j M \<Longrightarrow> is_entry j' M" "indexed_in C j k \<Longrightarrow> indexed_in C j' k"
    "closed env (entry_at j M) \<Longrightarrow> closed os_answers (entry_at j' M)"
  using assms by (auto simp: grows_def indexed_in_def kept_def intro: closed_kept)

lemma grows_ok:
  assumes "grows j j'"
  shows "stage_ok C j k f st \<Longrightarrow> stage_ok C j' k f st" "answer_ok C j k a \<Longrightarrow> answer_ok C j' k a"
    "sent_ok C j k \<Longrightarrow> sent_ok C j' k"
  using grows_holds [OF assms] unfolding stage_ok_def answer_ok_def sent_ok_def by blast+

lemma same_names_grow:
  assumes "\<And>M. M \<noteq> N \<Longrightarrow> map_of j' M = map_of j M" and "is_entry j N \<Longrightarrow> is_entry j' N"
    and "kept (entry_at j N) (entry_at j' N)"
  shows "grows j j'"
proof -
  have "is_entry j' M = is_entry j M" "entry_at j' M = entry_at j M" if "M \<noteq> N" for M
    using assms(1) [OF that] by (simp_all add: is_entry_def entry_at_def)
  with assms(2,3) show ?thesis unfolding grows_def by (metis kept_refl)
qed

section \<open>One call\<close>

text \<open>A call of a request with a key is sound when, beside any other requests \<open>Q\<close> and dispatches \<open>S\<close> of
  its key: the journal grows, only in the request's entry and the index; what it goes on to is sound; and
  the invariant of the dispatch machine is kept, with what the call has sent.\<close>

definition step_ok :: "crypto \<Rightarrow> act_run \<Rightarrow> (act_answer + act_run) \<times> ladder_world \<Rightarrow> ladder_world \<Rightarrow> phase multiset \<Rightarrow> nat multiset \<Rightarrow> bool" where
  "step_ok C r step w Q S \<longleftrightarrow>
     (let k = ar_keyed r; N = namespace_of C k; out = fst step; j = lw_journal w; j' = lw_journal (snd step) in
      grows j j' \<and> (\<forall>M. M \<noteq> N \<longrightarrow> M \<noteq> actionIndexDirectory \<longrightarrow> map_of j' M = map_of j M) \<and> out_ok C j' k out \<and>
      (\<exists>new. lw_sent (snd step) = lw_sent w + image_mset (Pair k) new \<and> (new \<noteq> {#} \<longrightarrow> sent_ok C j' k) \<and>
         key_ok \<lparr> ky_root = entry_at j' N, ky_requests = phase_in out + Q, ky_sent = S + new \<rparr>))"

text \<open>What a call finds: a sound request, and the requests and dispatches of its key, which are none when
  the key has no entry.\<close>

definition ready :: "crypto \<Rightarrow> act_run \<Rightarrow> ladder_world \<Rightarrow> phase multiset \<Rightarrow> nat multiset \<Rightarrow> bool" where
  "ready C r w Q S \<longleftrightarrow>
     (let k = ar_keyed r; N = namespace_of C k; j = lw_journal w in
      stage_ok C j k (ar_foreign r) (ar_stage r) \<and>
      key_ok \<lparr> ky_root = entry_at j N, ky_requests = phase_of (ar_stage r) + Q, ky_sent = S \<rparr> \<and>
      (\<not> is_entry j N \<longrightarrow> Q = {#} \<and> S = {#}))"

abbreviation entry_name :: "crypto \<Rightarrow> act_run \<Rightarrow> bytes" where
  "entry_name C r \<equiv> namespace_of C (ar_keyed r)"

lemma readyD:
  assumes "ready C r w Q S"
  shows "stage_ok C (lw_journal w) (ar_keyed r) (ar_foreign r) (ar_stage r)"
    "key_ok \<lparr> ky_root = entry_at (lw_journal w) (entry_name C r), ky_requests = phase_of (ar_stage r) + Q, ky_sent = S \<rparr>"
    "\<not> is_entry (lw_journal w) (entry_name C r) \<Longrightarrow> Q = {#} \<and> S = {#}"
  using assms by (simp_all add: ready_def Let_def)

text \<open>A call that leaves the journal as it is.\<close>

lemma same_call:
  assumes call: "ready C r w Q S" and "lw_journal (snd step) = lw_journal w"
    and "lw_sent (snd step) = lw_sent w + image_mset (Pair (ar_keyed r)) new"
    and "new \<noteq> {#} \<Longrightarrow> sent_ok C (lw_journal w) (ar_keyed r)"
    and "key_ok \<lparr> ky_root = entry_at (lw_journal w) (entry_name C r), ky_requests = phase_in (fst step) + Q, ky_sent = S + new \<rparr>"
    and "out_ok C (lw_journal w) (ar_keyed r) (fst step)"
  shows "step_ok C r step w Q S"
  using assms unfolding step_ok_def Let_def by (auto intro!: exI [of _ new])

text \<open>A call that changes neither the journal nor what was sent.\<close>

lemma quiet_call:
  assumes call: "ready C r w Q S"
    and "lw_journal (snd step) = (lw_journal w)" "lw_sent (snd step) = lw_sent w" "phase_in (fst step) \<subseteq># phase_of (ar_stage r)"
    and "out_ok C (lw_journal w) (ar_keyed r) (fst step)"
  shows "step_ok C r step w Q S"
proof -
  have "key_ok \<lparr> ky_root = entry_at (lw_journal w) (entry_name C r), ky_requests = phase_in (fst step) + Q, ky_sent = S \<rparr>"
    by (rule key_ok_fewer [OF readyD(2) [OF call]]) (simp add: assms(4))
  with assms(2,3,5) show ?thesis by (simp add: step_ok_def Let_def exI [of _ "{#}"])
qed

text \<open>A call on the index.\<close>

lemma index_call:
  assumes call: "ready C r w Q S"
    and "holdKeyIndex env (first_of C (ar_keyed r)) (lw_journal w) = (answer, lw_journal (snd step))" "lw_sent (snd step) = lw_sent w"
    and "phase_in (fst step) = {#}"
    and "\<lbrakk> stage_ok C (lw_journal (snd step)) (ar_keyed r) (ar_foreign r) (ar_stage r); answer = Inr () \<Longrightarrow> indexed_in C (lw_journal (snd step)) (ar_keyed r) \<rbrakk> \<Longrightarrow>
      out_ok C (lw_journal (snd step)) (ar_keyed r) (fst step)"
  shows "step_ok C r step w Q S"
proof -
  note left = holdKeyIndex_leaves [OF assms(2)]
  have "is_entry (lw_journal w) actionIndexDirectory \<Longrightarrow> is_entry (lw_journal (snd step)) actionIndexDirectory"
    using holdKeyIndex_entry [OF assms(2)] by blast
  then have grown: "grows (lw_journal w) (lw_journal (snd step))" using left by (intro same_names_grow [of actionIndexDirectory])
  have "entry_at (lw_journal (snd step)) (entry_name C r) = entry_at (lw_journal w) (entry_name C r)" using left(1) [of "entry_name C r"] by (simp add: entry_at_def)
  then have "key_ok \<lparr> ky_root = entry_at (lw_journal (snd step)) (entry_name C r), ky_requests = phase_in (fst step) + Q, ky_sent = S \<rparr>"
    using key_ok_fewer [OF readyD(2) [OF call], of Q] assms(4) by simp
  moreover have "out_ok C (lw_journal (snd step)) (ar_keyed r) (fst step)"
    using left(3) by (intro assms(5) grows_ok [OF grown] readyD(1) [OF call]) (simp add: indexed_in_def)
  ultimately show ?thesis using grown left(1) assms(3) by (simp add: step_ok_def Let_def exI [of _ "{#}"])
qed

text \<open>A call that makes the entry.\<close>

lemma making_call:
  assumes call: "ready C r w Q S"
    and "map_of (lw_journal w) (entry_name C r) = None" "lw_journal (snd step) = AList.update (entry_name C r) (Directory True root) (lw_journal w)"
    and "key_new \<lparr> ky_root = root, ky_requests = {#}, ky_sent = {#} \<rparr>"
    and "lw_sent (snd step) = lw_sent w" "phase_in (fst step) = {#}"
    and "\<lbrakk> stage_ok C (lw_journal (snd step)) (ar_keyed r) (ar_foreign r) (ar_stage r); is_entry (lw_journal (snd step)) (entry_name C r) \<rbrakk> \<Longrightarrow>
      out_ok C (lw_journal (snd step)) (ar_keyed r) (fst step)"
  shows "step_ok C r step w Q S"
proof -
  have none: "\<not> is_entry (lw_journal w) (entry_name C r)" using assms(2) by (simp add: is_entry_def)
  have others: "M \<noteq> (entry_name C r) \<Longrightarrow> map_of (lw_journal (snd step)) M = map_of (lw_journal w) M" for M
    using assms(3) by (simp add: update_conv')
  have here: "is_entry (lw_journal (snd step)) (entry_name C r)" "entry_at (lw_journal (snd step)) (entry_name C r) = root"
    using assms(3) by (auto simp: is_entry_def entry_at_def update_conv')
  have grown: "grows (lw_journal w) (lw_journal (snd step))"
    using others none here by (intro same_names_grow [of "entry_name C r"]) (simp_all add: entry_at_none kept_def)
  have "out_ok C (lw_journal (snd step)) (ar_keyed r) (fst step)" by (intro assms(7) grows_ok [OF grown] readyD(1) [OF call] here)
  with grown others here readyD(3) [OF call none] key_new_ok [OF assms(4)] assms(5,6) show ?thesis
    by (simp add: step_ok_def Let_def exI [of _ "{#}"])
qed

text \<open>A call on the entry.\<close>

lemma entry_call:
  assumes call: "ready C r w Q S"
    and "\<not> unreserved (ar_stage r)" "lw_journal (snd step) = put_entry (entry_name C r) root (lw_journal w)" "kept (entry_at (lw_journal w) (entry_name C r)) root"
    and "lw_sent (snd step) = lw_sent w"
    and "key_ok \<lparr> ky_root = root, ky_requests = phase_in (fst step) + Q, ky_sent = S \<rparr>"
    and "\<lbrakk> stage_ok C (lw_journal (snd step)) (ar_keyed r) (ar_foreign r) (ar_stage r); entry_at (lw_journal (snd step)) (entry_name C r) = root \<rbrakk> \<Longrightarrow>
      out_ok C (lw_journal (snd step)) (ar_keyed r) (fst step)"
  shows "step_ok C r step w Q S"
proof -
  have entry: "is_entry (lw_journal w) (entry_name C r)" using readyD(1) [OF call] assms(2) by (simp add: stage_ok_def)
  have here: "entry_at (lw_journal (snd step)) (entry_name C r) = root" using put_entry_here [OF entry] assms(3) by simp
  have others: "M \<noteq> (entry_name C r) \<Longrightarrow> map_of (lw_journal (snd step)) M = map_of (lw_journal w) M" for M
    using assms(3) by (simp add: put_entry_other)
  have grown: "grows (lw_journal w) (lw_journal (snd step))"
    using others assms(3,4) here by (intro same_names_grow [of "entry_name C r"]) simp_all
  have "out_ok C (lw_journal (snd step)) (ar_keyed r) (fst step)" by (intro assms(7) grows_ok [OF grown] readyD(1) [OF call] here)
  with grown others here assms(5,6) show ?thesis by (simp add: step_ok_def Let_def exI [of _ "{#}"])
qed

end
