(* ===== verification/Ladder_Calls.thy ===== *)
theory Ladder_Calls
  imports Ladder_Step
begin

text \<open>Every call of a request with a key is sound, stage by stage.\<close>

section \<open>What each stage needs\<close>

definition held_at :: "crypto \<Rightarrow> journal_dir \<Rightarrow> keyed \<Rightarrow> bool \<Rightarrow> bool" where
  "held_at C j k foreign \<longleftrightarrow> (scoped k \<and> \<not> foreign \<and> \<not> asks_outcome k \<longrightarrow> indexed_in C j k)"

definition reserved_at :: "crypto \<Rightarrow> journal_dir \<Rightarrow> keyed \<Rightarrow> bool \<Rightarrow> bool" where
  "reserved_at C j k foreign \<longleftrightarrow> is_entry j (namespace_of C k) \<and> held_at C j k foreign"

definition shut_at :: "crypto \<Rightarrow> journal_dir \<Rightarrow> keyed \<Rightarrow> bool" where
  "shut_at C j k \<longleftrightarrow> closed os_answers (entry_at j (namespace_of C k))"

lemma stage_ok_at [simp]:
  "stage_ok C j k f Indexing" "stage_ok C j k f Foreign_looking" "stage_ok C j k f Reconcile_looking"
  "stage_ok C j k f Closing_unseen" "stage_ok C j k f Holding" "stage_ok C j k f Lost_looking"
  "stage_ok C j k f Reserving = held_at C j k f"
  "stage_ok C j k f Looking_closed = reserved_at C j k f" "stage_ok C j k f Holding_again = reserved_at C j k f"
  "stage_ok C j k f Reading = reserved_at C j k f" "stage_ok C j k f Attempting = reserved_at C j k f"
  "stage_ok C j k f (Closing n) = reserved_at C j k f" "stage_ok C j k f Rechecking = reserved_at C j k f"
  "stage_ok C j k f (Minting observed) = reserved_at C j k f" "stage_ok C j k f (Recording b ms) = reserved_at C j k f"
  "stage_ok C j k f (Policing n begun) = (reserved_at C j k f \<and> (begun \<or> \<not> f \<and> \<not> asks_outcome k))"
  "stage_ok C j k f (Admitting n begun) = (reserved_at C j k f \<and> (begun \<or> \<not> f \<and> \<not> asks_outcome k))"
  "stage_ok C j k f (Claiming n) = (reserved_at C j k f \<and> \<not> f \<and> \<not> asks_outcome k)"
  "stage_ok C j k f (Running n) = (reserved_at C j k f \<and> \<not> f \<and> \<not> asks_outcome k)"
  "stage_ok C j k f (Freeing n reason) = (reserved_at C j k f \<and> \<not> f \<and> \<not> asks_outcome k)"
  "stage_ok C j k f Close_syncing = (reserved_at C j k f \<and> shut_at C j k)"
  "stage_ok C j k f Close_indexing = (reserved_at C j k f \<and> shut_at C j k)"
  "stage_ok C j k f (Abandoning None) = (reserved_at C j k f \<and> shut_at C j k)"
  "stage_ok C j k f (Abandoning (Some a)) = (reserved_at C j k f \<and> answer_ok C j k a)"
  "stage_ok C j k f (Ending a) = answer_ok C j k a"
  by (auto simp: stage_ok_def stage_defs held_at_def reserved_at_def shut_at_def answer_ok_def)

lemma shut_at_answer [simp]: "shut_at C j k \<Longrightarrow> answer_ok C j k a"
  by (simp add: shut_at_def answer_ok_def)

lemma of_request [simp]: "reconciles r = asks_outcome (ar_keyed r)" "may_hold r = scoped (ar_keyed r)"
  by (simp_all add: reconciles_def asks_outcome_def may_hold_def scoped_def)

lemma held_indexed [simp]: "indexed_in C j k \<Longrightarrow> held_at C j k f" "held_at C j k True" "asks_outcome k \<Longrightarrow> held_at C j k f"
  "\<not> scoped k \<Longrightarrow> held_at C j k f"
  by (simp_all add: held_at_def)

lemma reserved_atD: "reserved_at C j k f \<Longrightarrow> is_entry j (namespace_of C k)" "reserved_at C j k f \<Longrightarrow> held_at C j k f"
  by (simp_all add: reserved_at_def)

lemma reserved_foreign [simp]: "reserved_at C j k f \<Longrightarrow> reserved_at C j k True"
  by (simp add: reserved_at_def)

lemma on_journal_eq: "call = (answer, j) \<Longrightarrow> on_journal call w next = (next answer, w\<lparr> lw_journal := j \<rparr>)"
  by (simp add: on_journal_def)

lemma on_entry_eq:
  "call (entry_at (lw_journal w) name) = (answer, root) \<Longrightarrow>
     on_entry name call w next = (next answer, w\<lparr> lw_journal := put_entry name root (lw_journal w) \<rparr>)"
  by (simp add: on_entry_def on_journal_def)

lemma on_service_eq:
  "lw_journal (snd (on_service p call w next)) = lw_journal w" "lw_sent (snd (on_service p call w next)) = lw_sent w"
  "fst (on_service p call w next) = next (fst (call (lw_services w p)))"
  by (simp_all add: on_service_def split: prod.splits)

section \<open>Before the reservation\<close>

lemma looking_calls:
  assumes call: "ready C r w Q S" and "ar_stage r \<in> {Indexing, Foreign_looking, Reconcile_looking, Lost_looking}"
  shows "step_ok C r (act_next C le r w) w Q S"
  by (rule quiet_call [OF call])
    (use assms(2) in \<open>auto simp: act_next_def scope_next_def Let_def split: sum.splits journal_error.splits\<close>)

lemma closing_unseen_call:
  assumes call: "ready C r w Q S" and st: "ar_stage r = Closing_unseen"
  shows "step_ok C r (act_next C le r w) w Q S"
proof -
  let ?call = "reserveClosed (le_journal le) (le_now le) (entry_name C r) (kd_identity (ar_keyed r)) None (lw_journal w)"
  obtain answer j' where run: "?call = (answer, j')" by fastforce
  have eq: "act_next C le r w = ((case answer of Inr _ \<Rightarrow> to_stage Holding r | Inl RecordExists \<Rightarrow> to_stage Holding r
      | Inl e \<Rightarrow> to_answer (KeyError e) r), w\<lparr> lw_journal := j' \<rparr>)"
    by (simp add: act_next_def scope_next_def Let_def st on_journal_eq [OF run])
  have out: "out_ok C j'' (ar_keyed r) (fst (act_next C le r w))" "phase_in (fst (act_next C le r w)) = {#}" for j''
    by (simp_all add: eq split: sum.splits journal_error.splits)
  from reserveClosed_leaves [OF run] show ?thesis
  proof (elim disjE conjE)
    assume "j' = lw_journal w"
    with out show ?thesis by (intro quiet_call [OF call]) (simp_all add: eq)
  next
    assume none: "map_of (lw_journal w) (entry_name C r) = None"
      and made: "j' = AList.update (entry_name C r) (Directory True (entry_records (reservationRecords (kd_identity (ar_keyed r)) None @
        [\<lparr> rec_name = actionDispatchName 1, rec_raw = closedMarker (le_now le) 1, rec_limit = 1024 \<rparr>]))) (lw_journal w)"
    show ?thesis
      by (rule making_call [OF call none _ reservation_new(2)]) (use out made in \<open>simp_all add: eq\<close>)
  qed
qed

lemma holding_call:
  assumes call: "ready C r w Q S" and st: "ar_stage r = Holding"
  shows "step_ok C r (act_next C le r w) w Q S"
proof (cases "scoped (ar_keyed r) \<and> \<not> asks_outcome (ar_keyed r) \<and> \<not> ar_foreign r")
  case True
  obtain answer j' where run: "holdKeyIndex (le_journal le) (first_of C (ar_keyed r)) (lw_journal w) = (answer, j')" by fastforce
  have eq: "act_next C le r w = ((case answer of Inr _ \<Rightarrow> to_stage Reserving r | Inl FirstScopeConflict \<Rightarrow> to_stage Lost_looking r
      | Inl e \<Rightarrow> to_answer (KeyError e) r), w\<lparr> lw_journal := j' \<rparr>)"
    using True by (simp add: act_next_def scope_next_def Let_def st on_journal_eq [OF run])
  show ?thesis
    by (rule index_call [OF call, of "le_journal le" answer])
      (auto simp: eq run split: sum.splits journal_error.splits)
next
  case False
  then show ?thesis
    by (intro quiet_call [OF call]) (auto simp: act_next_def scope_next_def Let_def st held_at_def)
qed

lemma reserving_call:
  assumes call: "ready C r w Q S" and st: "ar_stage r = Reserving"
  shows "step_ok C r (act_next C le r w) w Q S"
proof -
  have held: "held_at C (lw_journal w) (ar_keyed r) (ar_foreign r)" using readyD(1) [OF call] st by simp
  show ?thesis
  proof (cases "asks_outcome (ar_keyed r) \<or> ar_foreign r")
    case True
    then show ?thesis
      using held openReservation_entry
      by (intro quiet_call [OF call])
        (fastforce simp: act_next_def scope_next_def Let_def st reserved_at_def split: sum.splits)+
  next
    case False
    obtain answer j' where run:
      "reserveScoped (le_journal le) (entry_name C r) (kd_identity (ar_keyed r)) None (lw_journal w) = (answer, j')" by fastforce
    have eq: "act_next C le r w = ((case answer of Inl e \<Rightarrow> to_answer (KeyError e) r
        | Inr (_, fresh) \<Rightarrow> to_stage (if fresh then Attempting else Looking_closed) r), w\<lparr> lw_journal := j' \<rparr>)"
      using False by (simp add: act_next_def scope_next_def Let_def st on_journal_eq [OF run])
    have there: "is_entry j' (entry_name C r)" if "answer = Inr (root, fresh)" for root fresh
      using reserveScoped_leaves(2) [OF run that] by (auto simp: is_entry_def)
    have out: "phase_in (fst (act_next C le r w)) = {#}"
      "held_at C j' (ar_keyed r) (ar_foreign r) \<Longrightarrow> out_ok C j' (ar_keyed r) (fst (act_next C le r w))"
      using there by (auto simp: eq reserved_at_def split: sum.splits)
    from reserveScoped_leaves(1) [OF run] show ?thesis
    proof (elim disjE conjE)
      assume "j' = lw_journal w"
      with out held show ?thesis by (intro quiet_call [OF call]) (simp_all add: eq)
    next
      assume none: "map_of (lw_journal w) (entry_name C r) = None"
        and made: "j' = AList.update (entry_name C r) (Directory True (entry_records (reservationRecords (kd_identity (ar_keyed r)) None)))
          (lw_journal w)"
      show ?thesis
        by (rule making_call [OF call none _ reservation_new(1)]) (use out made st in \<open>simp_all add: eq\<close>)
    qed
  qed
qed

section \<open>On the reservation\<close>

lemma reading_calls:
  assumes call: "ready C r w Q S" and "ar_stage r \<in> {Looking_closed, Reading, Close_syncing}"
  shows "step_ok C r (act_next C le r w) w Q S"
  using assms(2) readyD(1) [OF call]
  by (intro quiet_call [OF call])
    (auto simp: act_next_def entry_next_def Let_def shut_at_def
       split: sum.splits journal_error.splits option.splits prod.splits intro: closed_kept [OF _ kept_refl])

lemma holding_again_call:
  assumes call: "ready C r w Q S" and st: "ar_stage r = Holding_again"
  shows "step_ok C r (act_next C le r w) w Q S"
proof (cases "asks_outcome (ar_keyed r) \<and> scoped (ar_keyed r) \<and> \<not> ar_foreign r")
  case True
  obtain answer j' where run: "holdKeyIndex (le_journal le) (first_of C (ar_keyed r)) (lw_journal w) = (answer, j')" by fastforce
  have eq: "act_next C le r w = ((case answer of Inr _ \<Rightarrow> to_stage Reading (r\<lparr> ar_indexed := True \<rparr>)
      | Inl FirstScopeConflict \<Rightarrow> to_stage Reading (r\<lparr> ar_foreign := True \<rparr>)
      | Inl e \<Rightarrow> to_answer (KeyError e) r), w\<lparr> lw_journal := j' \<rparr>)"
    using True by (simp add: act_next_def entry_next_def Let_def st on_journal_eq [OF run])
  show ?thesis
    by (rule index_call [OF call, of "le_journal le" answer])
      (auto simp: eq run st split: sum.splits journal_error.splits)
next
  case False
  then show ?thesis
    using readyD(1) [OF call] st by (intro quiet_call [OF call]) (auto simp: act_next_def entry_next_def Let_def)
qed

lemma close_indexing_call:
  assumes call: "ready C r w Q S" and st: "ar_stage r = Close_indexing"
  shows "step_ok C r (act_next C le r w) w Q S"
proof -
  obtain answer j' where run: "holdKeyIndex (le_journal le) (first_of C (ar_keyed r)) (lw_journal w) = (answer, j')" by fastforce
  have eq: "act_next C le r w = ((case answer of Inr _ \<Rightarrow> to_answer NotDispatched r | Inl FirstScopeConflict \<Rightarrow> to_answer Taken r
      | Inl e \<Rightarrow> to_answer (KeyError e) r), w\<lparr> lw_journal := j' \<rparr>)"
    by (simp add: act_next_def entry_next_def Let_def st on_journal_eq [OF run])
  show ?thesis
    by (rule index_call [OF call, of "le_journal le" answer])
      (auto simp: eq run st split: sum.splits journal_error.splits)
qed

lemma attempting_call:
  assumes call: "ready C r w Q S" and st: "ar_stage r = Attempting"
  shows "step_ok C r (act_next C le r w) w Q S"
proof -
  have here: "reserved_at C (lw_journal w) (ar_keyed r) (ar_foreign r)" using readyD(1) [OF call] st by simp
  let ?root = "entry_at (lw_journal w) (entry_name C r)"
  have key: "key_ok \<lparr> ky_root = ?root, ky_requests = Q, ky_sent = S \<rparr>" using readyD(2) [OF call] st by simp
  have eq: "act_next C le r w =
     (case attempt (le_journal le) ?root of
        Inl KeyClosed \<Rightarrow> to_stage Close_syncing r
      | Inl e \<Rightarrow> to_answer (KeyError e) r
      | Inr (n, begun) \<Rightarrow>
          if ar_foreign r \<and> \<not> begun then to_answer Taken r
          else if reconciles r \<and> \<not> begun then to_stage (Closing n) r
          else to_stage (Policing n begun) r, w)"
    by (simp add: act_next_def entry_next_def Let_def st)
  have out: "out_ok C (lw_journal w) (ar_keyed r) (fst (act_next C le r w))"
    using here attempt_closed [of "le_journal le" ?root]
    by (auto simp: eq shut_at_def split: sum.splits journal_error.splits prod.splits)
  show ?thesis
  proof (cases "\<exists>n. attempt (le_journal le) ?root = Inr (n, False)")
    case True
    then obtain n where found: "attempt (le_journal le) ?root = Inr (n, False)" by blast
    have "key_ok \<lparr> ky_root = ?root, ky_requests = add_mset (Found n) Q, ky_sent = S \<rparr>"
      using key_step_ok [OF key_step.Look [OF found] key] .
    moreover have "phase_in (fst (act_next C le r w)) \<subseteq># {#Found n#}" by (simp add: eq found)
    ultimately have "key_ok \<lparr> ky_root = ?root, ky_requests = phase_in (fst (act_next C le r w)) + Q, ky_sent = S \<rparr>"
      by (elim key_ok_fewer) (metis add_mset_add_single subset_mset.add_right_mono add.commute)
    with out show ?thesis by (intro same_call [OF call, of _ "{#}"]) (simp_all add: eq)
  next
    case False
    then have "phase_in (fst (act_next C le r w)) = {#}"
      by (auto simp: eq split: sum.splits journal_error.splits prod.splits)
    with out show ?thesis by (intro quiet_call [OF call]) (simp_all add: eq)
  qed
qed

lemma closing_call:
  assumes call: "ready C r w Q S" and now: "valid_utf8 (le_now le)" and st: "ar_stage r = Closing n"
  shows "step_ok C r (act_next C le r w) w Q S"
proof -
  let ?root = "entry_at (lw_journal w) (entry_name C r)"
  have key: "key_ok \<lparr> ky_root = ?root, ky_requests = add_mset (Found n) Q, ky_sent = S \<rparr>" using readyD(2) [OF call] st by simp
  have n: "n \<in> {1..actionDispatchAttempts}" using key_okD(4) [OF key, of n] by simp
  obtain answer root' where run: "closeDispatch (le_journal le) (le_now le) n ?root = (answer, root')" by fastforce
  have eq: "act_next C le r w = ((case answer of Inr _ \<Rightarrow> to_stage Close_syncing r | Inl KeyClosed \<Rightarrow> to_stage Close_syncing r
      | Inl DispatchClaimed \<Rightarrow> to_stage (Policing n True) r | Inl e \<Rightarrow> to_answer (KeyError e) r),
      w\<lparr> lw_journal := put_entry (entry_name C r) root' (lw_journal w) \<rparr>)"
    by (simp add: act_next_def entry_next_def Let_def st
      on_entry_eq [where call = "closeDispatch (le_journal le) (le_now le) n", OF run])
  have phase: "phase_in (fst (act_next C le r w)) = {#}" by (auto simp: eq split: sum.splits journal_error.splits)
  have shut: "closed os_answers root'" if "answer = Inr () \<or> answer = Inl KeyClosed" by (rule close_closed [OF run that n now])
  show ?thesis
  proof (rule entry_call [OF call, of _ root'])
    show "kept ?root root'" using close_written [OF run] written_kept by blast
    show "key_ok \<lparr> ky_root = root', ky_requests = phase_in (fst (act_next C le r w)) + Q, ky_sent = S \<rparr>"
      using key_step_ok [OF key_step.Close [OF _ run] key] phase by simp
    show "out_ok C (lw_journal (snd (act_next C le r w))) (ar_keyed r) (fst (act_next C le r w))"
      if "stage_ok C (lw_journal (snd (act_next C le r w))) (ar_keyed r) (ar_foreign r) (ar_stage r)"
        "entry_at (lw_journal (snd (act_next C le r w))) (entry_name C r) = root'"
      using that shut by (auto simp: eq st shut_at_def split: sum.splits journal_error.splits)
  qed (simp_all add: eq st stage_defs)
qed

section \<open>The dispatch\<close>

lemma service_calls:
  assumes call: "ready C r w Q S" and key: "has_key (ar_keyed r)"
    and "(\<exists>n begun. ar_stage r \<in> {Policing n begun, Admitting n begun}) \<or> (\<exists>next. ar_stage r = Abandoning next) \<or>
      (\<exists>observed. ar_stage r = Minting observed) \<or> (\<exists>a. ar_stage r = Ending a) \<or> ar_stage r = Rechecking"
  shows "step_ok C r (act_next C le r w) w Q S"
proof (rule quiet_call [OF call])
  note defs = act_next_def dispatch_next_def Let_def on_service_eq
  note sound = readyD(1) [OF call]
  show "lw_journal (snd (act_next C le r w)) = lw_journal w" "lw_sent (snd (act_next C le r w)) = lw_sent w"
    using assms(3) by (auto simp: defs split: option.splits)
  show "phase_in (fst (act_next C le r w)) \<subseteq># phase_of (ar_stage r)"
    using assms(3) key by (auto simp: defs phase_in_def [of "Inl a" for a] split: option.splits sum.splits)
  show "out_ok C (lw_journal w) (ar_keyed r) (fst (act_next C le r w))"
    using assms(3) key sound by (auto simp: defs out_ok_def [of _ _ _ "Inl a" for a] shut_at_def
      split: option.splits sum.splits intro: closed_kept [OF _ kept_refl])
qed

lemma claiming_call:
  assumes call: "ready C r w Q S" and st: "ar_stage r = Claiming n"
  shows "step_ok C r (act_next C le r w) w Q S"
proof -
  let ?root = "entry_at (lw_journal w) (entry_name C r)"
  have key: "key_ok \<lparr> ky_root = ?root, ky_requests = add_mset (Found n) Q, ky_sent = S \<rparr>" using readyD(2) [OF call] st by simp
  have n: "n \<in> {1..actionDispatchAttempts}" using key_okD(4) [OF key, of n] by simp
  obtain answer root' where run: "claimDispatchUnder (le_journal le) n None [] ?root = (answer, root')" by fastforce
  have eq: "act_next C le r w = ((case answer of Inr _ \<Rightarrow> to_stage (Running n) r | Inl KeyClosed \<Rightarrow> to_stage (Abandoning None) r
      | Inl DispatchClaimed \<Rightarrow> to_stage Rechecking r | Inl e \<Rightarrow> to_answer (KeyError e) r),
      w\<lparr> lw_journal := put_entry (entry_name C r) root' (lw_journal w) \<rparr>)"
    by (simp add: act_next_def dispatch_next_def Let_def st
      on_entry_eq [where call = "claimDispatchUnder (le_journal le) n None []", OF run])
  have plain: "marker_ok None []" by (simp add: marker_ok_def)
  have shut: "closed os_answers root'" if "answer = Inl KeyClosed"
    using run that by (intro closed_from [OF claim_closed n]) simp
  show ?thesis
  proof (rule entry_call [OF call, of _ root'])
    show "kept ?root root'" using claim_written [OF run] written_kept by blast
    show "key_ok \<lparr> ky_root = root', ky_requests = phase_in (fst (act_next C le r w)) + Q, ky_sent = S \<rparr>"
    proof (cases answer)
      case (Inl e)
      then have "phase_in (fst (act_next C le r w)) = {#}" by (auto simp: eq split: journal_error.splits)
      moreover have "claimDispatchUnder (le_journal le) n None [] ?root = (Inl e, root')" using run Inl by simp
      ultimately show ?thesis using key_step_ok [OF key_step.Claim_refused [OF _ plain] key, of n] by simp
    next
      case (Inr u)
      then have "claimDispatchUnder (le_journal le) n None [] ?root = (Inr (), root')" using run by simp
      with Inr show ?thesis using key_step_ok [OF key_step.Claim [OF _ plain] key, of n] by (simp add: eq)
    qed
    show "out_ok C (lw_journal (snd (act_next C le r w))) (ar_keyed r) (fst (act_next C le r w))"
      if "stage_ok C (lw_journal (snd (act_next C le r w))) (ar_keyed r) (ar_foreign r) (ar_stage r)"
        "entry_at (lw_journal (snd (act_next C le r w))) (entry_name C r) = root'"
      using that shut by (auto simp: eq st shut_at_def split: sum.splits journal_error.splits)
  qed (simp_all add: eq st stage_defs)
qed

lemma running_call:
  assumes call: "ready C r w Q S" and key: "has_key (ar_keyed r)" and st: "ar_stage r = Running n"
  shows "step_ok C r (act_next C le r w) w Q S"
proof -
  let ?root = "entry_at (lw_journal w) (entry_name C r)"
  have granted: "key_ok \<lparr> ky_root = ?root, ky_requests = add_mset (Granted n) Q, ky_sent = S \<rparr>" using readyD(2) [OF call] st by simp
  have here: "reserved_at C (lw_journal w) (ar_keyed r) (ar_foreign r)" "\<not> ar_foreign r" "\<not> asks_outcome (ar_keyed r)"
    using readyD(1) [OF call] unfolding st stage_ok_at by blast+
  have eq: "act_next C le r w = (sent_next C r (le_run le) n,
      (case le_run le of NotStarted _ \<Rightarrow> w | _ \<Rightarrow> w\<lparr> lw_sent := add_mset (ar_keyed r, n) (lw_sent w) \<rparr>))"
    by (simp add: act_next_def dispatch_next_def Let_def st)
  have out: "out_ok C (lw_journal w) (ar_keyed r) (fst (act_next C le r w))"
    using here key by (auto simp: eq sent_next_def Let_def split: program_run.splits option.splits)
  show ?thesis
  proof (cases "\<exists>reason. le_run le = NotStarted reason")
    case True
    with out key show ?thesis by (intro quiet_call [OF call]) (auto simp: eq st sent_next_def)
  next
    case False
    have "phase_in (fst (act_next C le r w)) = {#}" "lw_journal (snd (act_next C le r w)) = lw_journal w"
      "lw_sent (snd (act_next C le r w)) = add_mset (ar_keyed r, n) (lw_sent w)"
      using False key by (auto simp: eq sent_next_def Let_def split: program_run.splits option.splits)
    moreover have "sent_ok C (lw_journal w) (ar_keyed r)"
      using here by (simp add: sent_ok_def reserved_at_def held_at_def)
    moreover have "key_ok \<lparr> ky_root = ?root, ky_requests = Q, ky_sent = add_mset n S \<rparr>"
      using key_step_ok [OF key_step.Start [of n] granted] by simp
    ultimately show ?thesis using out by (intro same_call [OF call, of _ "{#n#}"]) simp_all
  qed
qed

lemma freeing_call:
  assumes call: "ready C r w Q S" and st: "ar_stage r = Freeing n reason"
  shows "step_ok C r (act_next C le r w) w Q S"
proof -
  let ?root = "entry_at (lw_journal w) (entry_name C r)"
  have granted: "key_ok \<lparr> ky_root = ?root, ky_requests = add_mset (Granted n) Q, ky_sent = S \<rparr>" using readyD(2) [OF call] st by simp
  obtain answer root' where run: "releaseDispatch (le_journal le) n reason ?root = (answer, root')" by fastforce
  have eq: "act_next C le r w = ((case answer of Inr _ \<Rightarrow> to_stage (Abandoning (Some NeverStarted)) r | Inl _ \<Rightarrow> to_stage (Minting None) r),
      w\<lparr> lw_journal := put_entry (entry_name C r) root' (lw_journal w) \<rparr>)"
    by (simp add: act_next_def dispatch_next_def Let_def st
      on_entry_eq [where call = "releaseDispatch (le_journal le) n reason", OF run])
  have phase: "phase_in (fst (act_next C le r w)) = {#}" by (auto simp: eq split: sum.splits)
  show ?thesis
  proof (rule entry_call [OF call, of _ root'])
    show "kept ?root root'" using release_written [OF run] written_kept by blast
    show "key_ok \<lparr> ky_root = root', ky_requests = phase_in (fst (act_next C le r w)) + Q, ky_sent = S \<rparr>"
      using key_step_ok [OF key_step.Not_started [OF _ run] granted] phase by simp
    show "out_ok C (lw_journal (snd (act_next C le r w))) (ar_keyed r) (fst (act_next C le r w))"
      if "stage_ok C (lw_journal (snd (act_next C le r w))) (ar_keyed r) (ar_foreign r) (ar_stage r)"
      using that by (auto simp: eq st split: sum.splits)
  qed (simp_all add: eq st stage_defs)
qed

lemma recording_call:
  assumes call: "ready C r w Q S" and st: "ar_stage r = Recording uncertain response"
  shows "step_ok C r (act_next C le r w) w Q S"
proof (cases "le_evidenceSyncs le")
  case False
  then show ?thesis by (intro quiet_call [OF call]) (simp_all add: act_next_def dispatch_next_def Let_def st)
next
  case True
  let ?root = "entry_at (lw_journal w) (entry_name C r)"
  have key: "key_ok \<lparr> ky_root = ?root, ky_requests = Q, ky_sent = S \<rparr>" using readyD(2) [OF call] st by simp
  obtain answer root' where run: "publish (le_journal le) ''action.json'' (json_marshal (VObject response)) actionJournalResponseLimit ?root =
    (answer, root')" by fastforce
  have eq: "act_next C le r w = ((case answer of Inl _ \<Rightarrow> to_answer NotRecorded r
      | Inr _ \<Rightarrow> to_answer (if uncertain then ReadsBack response else Acted response) r),
      w\<lparr> lw_journal := put_entry (entry_name C r) root' (lw_journal w) \<rparr>)"
    using True by (simp add: act_next_def dispatch_next_def Let_def st
      on_entry_eq [where call = "publish (le_journal le) ''action.json'' (json_marshal (VObject response)) actionJournalResponseLimit", OF run]
      del: json_marshal.simps)
  have phase: "phase_in (fst (act_next C le r w)) = {#}" by (auto simp: eq split: sum.splits)
  show ?thesis
  proof (rule entry_call [OF call, of _ root'])
    show "kept ?root root'" using publish_written [OF run] written_kept by blast
    show "key_ok \<lparr> ky_root = root', ky_requests = phase_in (fst (act_next C le r w)) + Q, ky_sent = S \<rparr>"
      using key_step_ok [OF key_step.Answer [OF _ run] key] phase by simp
    show "out_ok C (lw_journal (snd (act_next C le r w))) (ar_keyed r) (fst (act_next C le r w))"
      by (auto simp: eq split: sum.splits)
  qed (simp_all add: eq st stage_defs)
qed

text \<open>Every call.\<close>

lemma act_call:
  assumes call: "ready C r w Q S" and "has_key (ar_keyed r)" and "valid_utf8 (le_now le)"
  shows "step_ok C r (act_next C le r w) w Q S"
proof (cases "ar_stage r")
  case Indexing
  then show ?thesis by (intro looking_calls [OF call]) simp
next
  case Foreign_looking
  then show ?thesis by (intro looking_calls [OF call]) simp
next
  case Reconcile_looking
  then show ?thesis by (intro looking_calls [OF call]) simp
next
  case Lost_looking
  then show ?thesis by (intro looking_calls [OF call]) simp
next
  case Looking_closed
  then show ?thesis by (intro reading_calls [OF call]) simp
next
  case Reading
  then show ?thesis by (intro reading_calls [OF call]) simp
next
  case Close_syncing
  then show ?thesis by (intro reading_calls [OF call]) simp
qed (rule closing_unseen_call holding_call reserving_call holding_again_call attempting_call closing_call close_indexing_call
       claiming_call running_call freeing_call recording_call service_calls; use assms in \<open>auto; fail\<close>)+

end
