(* ===== verification/Ladder_Run.thy ===== *)
theory Ladder_Run
  imports Ladder_Calls
begin

text \<open>
  All requests of all processes over one journal: they arrive, make their calls in any order, and die at
  any point; services change by anything else that happens in their processes.  The invariant of a run,
  and that every step keeps it.
\<close>

record ladder_system =
  ls_world :: ladder_world
  ls_runs :: "act_run multiset"
  ls_answers :: "(keyed \<times> act_answer) multiset"

text \<open>The strings of a request are those of JSON documents.\<close>

definition request_texts :: "keyed \<Rightarrow> bool" where
  "request_texts k \<longleftrightarrow>
     valid_utf8 (kd_authority k) \<and> valid_utf8 (jd_key (kd_judged k)) \<and>
     valid_utf8 (cl_issuer (jd_who (kd_judged k))) \<and> valid_utf8 (cl_subject (jd_who (kd_judged k)))"

inductive ladder_step :: "crypto \<Rightarrow> ladder_system \<Rightarrow> ladder_system \<Rightarrow> bool" for C where
  Arrive: "request_texts k \<Longrightarrow> ladder_step C \<lparr> ls_world = w, ls_runs = R, ls_answers = A \<rparr>
    \<lparr> ls_world = w, ls_runs = add_mset (act_start k) R, ls_answers = A \<rparr>"
| Go: "r \<in># R \<Longrightarrow> valid_utf8 (le_now le) \<Longrightarrow> act_next C le r w = (Inr r', w') \<Longrightarrow>
    ladder_step C \<lparr> ls_world = w, ls_runs = R, ls_answers = A \<rparr>
      \<lparr> ls_world = w', ls_runs = add_mset r' (R - {#r#}), ls_answers = A \<rparr>"
| Answer: "r \<in># R \<Longrightarrow> valid_utf8 (le_now le) \<Longrightarrow> act_next C le r w = (Inl a, w') \<Longrightarrow>
    ladder_step C \<lparr> ls_world = w, ls_runs = R, ls_answers = A \<rparr>
      \<lparr> ls_world = w', ls_runs = R - {#r#}, ls_answers = add_mset (ar_keyed r, a) A \<rparr>"
| Die: "r \<in># R \<Longrightarrow>
    ladder_step C \<lparr> ls_world = w, ls_runs = R, ls_answers = A \<rparr>
      \<lparr> ls_world = w, ls_runs = R - {#r#}, ls_answers = A \<rparr>"
| Elsewhere: "ladder_step C \<lparr> ls_world = w, ls_runs = R, ls_answers = A \<rparr>
    \<lparr> ls_world = w\<lparr> lw_services := services \<rparr>, ls_runs = R, ls_answers = A \<rparr>"

text \<open>A journal whose entries are as they were reserved, and nobody at work.\<close>

definition ladder_start :: "ladder_system \<Rightarrow> bool" where
  "ladder_start s \<longleftrightarrow>
     ls_runs s = {#} \<and> ls_answers s = {#} \<and> lw_sent (ls_world s) = {#} \<and>
     (\<forall>N. key_new \<lparr> ky_root = entry_at (lw_journal (ls_world s)) N, ky_requests = {#}, ky_sent = {#} \<rparr>)"

section \<open>What holds of a run\<close>

definition at_key :: "crypto \<Rightarrow> bytes \<Rightarrow> keyed \<Rightarrow> bool" where
  "at_key C N k \<longleftrightarrow> has_key k \<and> namespace_of C k = N"

definition phases_at :: "crypto \<Rightarrow> bytes \<Rightarrow> act_run multiset \<Rightarrow> phase multiset" where
  "phases_at C N R = sum_mset (image_mset (\<lambda>r. if at_key C N (ar_keyed r) then phase_of (ar_stage r) else {#}) R)"

definition sent_at :: "crypto \<Rightarrow> bytes \<Rightarrow> (keyed \<times> nat) multiset \<Rightarrow> nat multiset" where
  "sent_at C N S = image_mset snd (filter_mset (\<lambda>p. at_key C N (fst p)) S)"

definition key_at :: "crypto \<Rightarrow> bytes \<Rightarrow> ladder_world \<Rightarrow> act_run multiset \<Rightarrow> key_run" where
  "key_at C N w R =
     \<lparr> ky_root = entry_at (lw_journal w) N, ky_requests = phases_at C N R, ky_sent = sent_at C N (lw_sent w) \<rparr>"

text \<open>A request without a key reaches only these stages.\<close>

definition keyless :: "stage \<Rightarrow> bool" where
  "keyless st \<longleftrightarrow>
     (\<exists>n. st = Policing n False \<or> st = Admitting n False \<or> st = Running n) \<or> (\<exists>output. st = Minting (Some output)) \<or>
     (\<exists>a. st = Ending a)"

definition request_ok :: "crypto \<Rightarrow> journal_dir \<Rightarrow> act_run \<Rightarrow> bool" where
  "request_ok C j r \<longleftrightarrow>
     (if has_key (ar_keyed r) then stage_ok C j (ar_keyed r) (ar_foreign r) (ar_stage r) else keyless (ar_stage r))"

definition ladder_ok :: "crypto \<Rightarrow> ladder_system \<Rightarrow> bool" where
  "ladder_ok C s \<longleftrightarrow>
     (\<forall>r \<in># ls_runs s. request_ok C (lw_journal (ls_world s)) r) \<and>
     (\<forall>(k, a) \<in># ls_answers s. has_key k \<longrightarrow> answer_ok C (lw_journal (ls_world s)) k a) \<and>
     (\<forall>(k, n) \<in># lw_sent (ls_world s). has_key k \<longrightarrow> sent_ok C (lw_journal (ls_world s)) k) \<and>
     (\<forall>r \<in># ls_runs s. request_texts (ar_keyed r)) \<and> (\<forall>(k, n) \<in># lw_sent (ls_world s). request_texts k) \<and>
     (\<forall>N. N \<noteq> actionIndexDirectory \<longrightarrow> key_ok (key_at C N (ls_world s) (ls_runs s)))"

lemma phases_at_add [simp]:
  "phases_at C N (add_mset r R) = (if at_key C N (ar_keyed r) then phase_of (ar_stage r) else {#}) + phases_at C N R"
  "phases_at C N {#} = {#}"
  by (simp_all add: phases_at_def)

lemma sent_at_add [simp]:
  "sent_at C N (S + T) = sent_at C N S + sent_at C N T" "sent_at C N {#} = {#}"
  "sent_at C N (image_mset (Pair k) new) = (if at_key C N k then new else {#})"
  by (simp_all add: sent_at_def filter_mset_image_mset multiset.map_comp comp_def)

lemma start_ok: "ladder_start s \<Longrightarrow> ladder_ok C s"
  by (auto simp: ladder_start_def ladder_ok_def key_at_def sent_at_def phases_at_def intro: key_new_ok)

text \<open>Without an entry there is no phase and no dispatch.\<close>

lemma phase_reserved: "stage_ok C j k f st \<Longrightarrow> phase_of st \<noteq> {#} \<Longrightarrow> is_entry j (namespace_of C k)"
  by (cases st) (auto simp: reserved_at_def split: if_splits)

lemma absent_none:
  assumes runs: "\<forall>r \<in># R. request_ok C (lw_journal w) r"
    and sent: "\<forall>(k, n) \<in># lw_sent w. has_key k \<longrightarrow> sent_ok C (lw_journal w) k" and none: "\<not> is_entry (lw_journal w) N"
  shows "phases_at C N R = {#}" "sent_at C N (lw_sent w) = {#}"
proof -
  have "phase_of (ar_stage r) = {#}" if "r \<in># R" "at_key C N (ar_keyed r)" for r
    using runs that none phase_reserved by (fastforce simp: request_ok_def at_key_def)
  then show "phases_at C N R = {#}" unfolding phases_at_def by (intro sum_mset.neutral) auto
  have "\<not> at_key C N k" if "(k, n) \<in># lw_sent w" for k n
    using sent that none by (auto simp: at_key_def sent_ok_def)
  then have "filter_mset (\<lambda>p. at_key C N (fst p)) (lw_sent w) = filter_mset (\<lambda>_. False) (lw_sent w)"
    by (intro filter_mset_cong) auto
  then show "sent_at C N (lw_sent w) = {#}" by (simp add: sent_at_def)
qed

section \<open>Every step keeps it\<close>

lemma keyless_call:
  assumes "\<not> has_key (ar_keyed r)" and "keyless (ar_stage r)" and "act_next C le r w = (out, w')"
  shows "lw_journal w' = lw_journal w" "\<exists>new. lw_sent w' = lw_sent w + image_mset (Pair (ar_keyed r)) new"
    "case out of Inl a \<Rightarrow> True | Inr r' \<Rightarrow> keyless (ar_stage r') \<and> ar_keyed r' = ar_keyed r"
proof -
  note defs = act_next_def dispatch_next_def Let_def sent_next_def on_service_def to_stage_def to_answer_def keyless_def
  show "lw_journal w' = lw_journal w"
    using assms by (auto simp: defs split: option.splits prod.splits program_run.splits)
  have one: "\<exists>new. {#(ar_keyed r, n)#} = image_mset (Pair (ar_keyed r)) new" for n
    by (rule exI [of _ "{#n#}"]) simp
  show "\<exists>new. lw_sent w' = lw_sent w + image_mset (Pair (ar_keyed r)) new"
    using assms by (auto simp: defs one split: option.splits prod.splits program_run.splits)
  show "case out of Inl a \<Rightarrow> True | Inr r' \<Rightarrow> keyless (ar_stage r') \<and> ar_keyed r' = ar_keyed r"
    using assms by (auto simp: defs split: option.splits prod.splits program_run.splits sum.splits if_splits)
qed

text \<open>A call of one request among the others.\<close>

lemma call_kept:
  assumes ok: "ladder_ok C \<lparr> ls_world = w, ls_runs = add_mset r Q, ls_answers = A \<rparr>"
    and now: "valid_utf8 (le_now le)" and run: "act_next C le r w = (out, w')"
  shows "grows (lw_journal w) (lw_journal w')"
    and "\<exists>new. lw_sent w' = lw_sent w + image_mset (Pair (ar_keyed r)) new \<and>
      (new \<noteq> {#} \<longrightarrow> has_key (ar_keyed r) \<longrightarrow> sent_ok C (lw_journal w') (ar_keyed r))"
    and "case out of Inl a \<Rightarrow> has_key (ar_keyed r) \<longrightarrow> answer_ok C (lw_journal w') (ar_keyed r) a
      | Inr r' \<Rightarrow> request_ok C (lw_journal w') r' \<and> ar_keyed r' = ar_keyed r"
    and "N \<noteq> actionIndexDirectory \<Longrightarrow>
      key_ok (key_at C N w' (case out of Inl a \<Rightarrow> Q | Inr r' \<Rightarrow> add_mset r' Q))"
proof -
  have parts: "request_ok C (lw_journal w) r" "\<forall>r \<in># Q. request_ok C (lw_journal w) r"
    "\<forall>(k, n) \<in># lw_sent w. has_key k \<longrightarrow> sent_ok C (lw_journal w) k"
    "\<And>N. N \<noteq> actionIndexDirectory \<Longrightarrow> key_ok (key_at C N w (add_mset r Q))"
    using ok by (auto simp: ladder_ok_def)
  have "grows (lw_journal w) (lw_journal w') \<and>
    (\<exists>new. lw_sent w' = lw_sent w + image_mset (Pair (ar_keyed r)) new \<and>
      (new \<noteq> {#} \<longrightarrow> has_key (ar_keyed r) \<longrightarrow> sent_ok C (lw_journal w') (ar_keyed r))) \<and>
    (case out of Inl a \<Rightarrow> has_key (ar_keyed r) \<longrightarrow> answer_ok C (lw_journal w') (ar_keyed r) a
      | Inr r' \<Rightarrow> request_ok C (lw_journal w') r' \<and> ar_keyed r' = ar_keyed r) \<and>
    (\<forall>N. N \<noteq> actionIndexDirectory \<longrightarrow> key_ok (key_at C N w' (case out of Inl a \<Rightarrow> Q | Inr r' \<Rightarrow> add_mset r' Q)))"
    (is "?grows \<and> ?sent \<and> ?out \<and> ?key")
  proof (cases "has_key (ar_keyed r)")
    case False
    with parts(1) have plain: "keyless (ar_stage r)" by (simp add: request_ok_def)
    note left = keyless_call [OF False plain run]
    have out: "?out" using left(3) False by (auto simp: request_ok_def split: sum.splits)
    from left(2) obtain new where "lw_sent w' = lw_sent w + image_mset (Pair (ar_keyed r)) new" by blast
    then have "key_at C N w' (case out of Inl a \<Rightarrow> Q | Inr r' \<Rightarrow> add_mset r' Q) = key_at C N w (add_mset r Q)" for N
      using left(1,3) False by (auto simp: key_at_def at_key_def split: sum.splits)
    with parts(4) out left(1,2) False show ?thesis by simp
  next
    case True
    let ?N = "namespace_of C (ar_keyed r)"
    have here: "at_key C ?N (ar_keyed r)" using True by (simp add: at_key_def)
    have "ready C r w (phases_at C ?N Q) (sent_at C ?N (lw_sent w))"
      using parts(1) parts(4) [of ?N] absent_none [OF parts(2,3)] True here
      by (simp add: ready_def Let_def request_ok_def key_at_def)
    from act_call [OF this True now] run have step: "step_ok C r (out, w') w (phases_at C ?N Q) (sent_at C ?N (lw_sent w))" by simp
    then obtain new where grown: "grows (lw_journal w) (lw_journal w')"
      and others: "\<And>M. M \<noteq> ?N \<Longrightarrow> M \<noteq> actionIndexDirectory \<Longrightarrow> map_of (lw_journal w') M = map_of (lw_journal w) M"
      and out: "out_ok C (lw_journal w') (ar_keyed r) out"
      and sent: "lw_sent w' = lw_sent w + image_mset (Pair (ar_keyed r)) new" "new \<noteq> {#} \<Longrightarrow> sent_ok C (lw_journal w') (ar_keyed r)"
      and key: "key_ok \<lparr> ky_root = entry_at (lw_journal w') ?N, ky_requests = phase_in out + phases_at C ?N Q,
        ky_sent = sent_at C ?N (lw_sent w) + new \<rparr>"
      by (auto simp: step_ok_def Let_def)
    have "key_ok (key_at C N w' (case out of Inl a \<Rightarrow> Q | Inr r' \<Rightarrow> add_mset r' Q))" if "N \<noteq> actionIndexDirectory" for N
    proof (cases "N = ?N")
      case True
      with key sent here out show ?thesis by (auto simp: key_at_def phase_in_def out_ok_def split: sum.splits)
    next
      case False
      then have "\<not> at_key C N (ar_keyed r)" by (simp add: at_key_def)
      moreover have "entry_at (lw_journal w') N = entry_at (lw_journal w) N"
        using others [OF False that] by (simp add: entry_at_def)
      ultimately show ?thesis
        using parts(4) [OF that] sent(1) out by (auto simp: key_at_def out_ok_def split: sum.splits)
    qed
    moreover have "?out" using out True by (auto simp: out_ok_def request_ok_def split: sum.splits)
    ultimately show ?thesis using grown sent by blast
  qed
  then show "?grows" "?sent" "?out" "N \<noteq> actionIndexDirectory \<Longrightarrow>
      key_ok (key_at C N w' (case out of Inl a \<Rightarrow> Q | Inr r' \<Rightarrow> add_mset r' Q))" by blast+
qed

lemma ladder_okI:
  assumes "\<And>r. r \<in># ls_runs s \<Longrightarrow> request_ok C (lw_journal (ls_world s)) r \<and> request_texts (ar_keyed r)"
    and "\<And>k a. (k, a) \<in># ls_answers s \<Longrightarrow> has_key k \<Longrightarrow> answer_ok C (lw_journal (ls_world s)) k a"
    and "\<And>k n. (k, n) \<in># lw_sent (ls_world s) \<Longrightarrow> (has_key k \<longrightarrow> sent_ok C (lw_journal (ls_world s)) k) \<and> request_texts k"
    and "\<And>N. N \<noteq> actionIndexDirectory \<Longrightarrow> key_ok (key_at C N (ls_world s) (ls_runs s))"
  shows "ladder_ok C s"
  using assms unfolding ladder_ok_def by blast

lemma ladder_okD:
  assumes "ladder_ok C s"
  shows "r \<in># ls_runs s \<Longrightarrow> request_ok C (lw_journal (ls_world s)) r \<and> request_texts (ar_keyed r)"
    and "(k, a) \<in># ls_answers s \<Longrightarrow> has_key k \<Longrightarrow> answer_ok C (lw_journal (ls_world s)) k a"
    and "(k, n) \<in># lw_sent (ls_world s) \<Longrightarrow> has_key k \<Longrightarrow> sent_ok C (lw_journal (ls_world s)) k"
    and "(k, n) \<in># lw_sent (ls_world s) \<Longrightarrow> request_texts k"
    and "N \<noteq> actionIndexDirectory \<Longrightarrow> key_ok (key_at C N (ls_world s) (ls_runs s))"
  using assms unfolding ladder_ok_def by blast+

lemma request_grows: "grows j j' \<Longrightarrow> request_ok C j r \<Longrightarrow> request_ok C j' r"
  by (simp add: request_ok_def grows_ok)

lemma call_ok:
  assumes ok: "ladder_ok C \<lparr> ls_world = w, ls_runs = R, ls_answers = A \<rparr>" and r: "r \<in># R"
    and now: "valid_utf8 (le_now le)" and run: "act_next C le r w = (out, w')"
  shows "ladder_ok C (case out of
      Inl a \<Rightarrow> \<lparr> ls_world = w', ls_runs = R - {#r#}, ls_answers = add_mset (ar_keyed r, a) A \<rparr>
    | Inr r' \<Rightarrow> \<lparr> ls_world = w', ls_runs = add_mset r' (R - {#r#}), ls_answers = A \<rparr>)" (is "ladder_ok C ?s")
proof -
  have "ladder_ok C \<lparr> ls_world = w, ls_runs = add_mset r (R - {#r#}), ls_answers = A \<rparr>" using ok r by simp
  note left = call_kept [OF this now run] and old = ladder_okD [OF ok, simplified]
  note grown = left(1)
  from left(2) obtain new where new: "lw_sent w' = lw_sent w + image_mset (Pair (ar_keyed r)) new"
    "new \<noteq> {#} \<Longrightarrow> has_key (ar_keyed r) \<Longrightarrow> sent_ok C (lw_journal w') (ar_keyed r)" by blast
  have sent: "(has_key k \<longrightarrow> sent_ok C (lw_journal w') k) \<and> request_texts k" if "(k, n) \<in># lw_sent w'" for k n
  proof (cases "(k, n) \<in># lw_sent w")
    case True
    with old(3,4) grows_ok(3) [OF grown] show ?thesis by blast
  next
    case False
    with that new(1) have "k = ar_keyed r" "new \<noteq> {#}" by auto
    with new(2) old(1) [OF r] show ?thesis by simp
  qed
  have others: "request_ok C (lw_journal w') q \<and> request_texts (ar_keyed q)" if "q \<in># R - {#r#}" for q
    using old(1) [OF in_diffD [OF that]] request_grows [OF grown] by blast
  have answers: "answer_ok C (lw_journal w') k a" if "(k, a) \<in># A" "has_key k" for k a
    using old(2) [OF that] grows_ok(2) [OF grown] by blast
  show ?thesis
  proof (cases out)
    case (Inl a)
    show ?thesis
      unfolding Inl sum.case
      by (rule ladder_okI) (use sent others answers left(3,4) Inl in auto)
  next
    case (Inr r')
    have "request_texts (ar_keyed r')" "request_ok C (lw_journal w') r'" using left(3) old(1) [OF r] Inr by simp_all
    then show ?thesis
      unfolding Inr sum.case
      by (intro ladder_okI) (use sent others answers left(4) Inr in auto)
  qed
qed

lemma ladder_step_ok:
  assumes "ladder_step C s s'" and ok: "ladder_ok C s"
  shows "ladder_ok C s'"
  using assms(1)
proof (cases rule: ladder_step.cases)
  case (Arrive k w R A)
  note old = ladder_okD [OF ok [unfolded Arrive(1)], simplified]
  have "request_ok C (lw_journal w) (act_start k)" "phase_of (ar_stage (act_start k)) = {#} \<or> \<not> has_key k"
    by (auto simp: request_ok_def act_start_def keyless_def)
  moreover have "ar_keyed (act_start k) = k" by (simp add: act_start_def)
  ultimately have "key_at C N w (add_mset (act_start k) R) = key_at C N w R" for N
    by (auto simp: key_at_def at_key_def)
  with old Arrive(3) \<open>request_ok C (lw_journal w) (act_start k)\<close> \<open>ar_keyed (act_start k) = k\<close> show ?thesis
    unfolding Arrive(2) by (intro ladder_okI) auto
next
  case (Go r R le w r' w' A)
  then show ?thesis using call_ok [OF ok [unfolded Go(1)] Go(3,4,5)] by simp
next
  case (Answer r R le w a w' A)
  then show ?thesis using call_ok [OF ok [unfolded Answer(1)] Answer(3,4,5)] by simp
next
  case (Die r R w A)
  note old = ladder_okD [OF ok [unfolded Die(1)], simplified]
  have R: "add_mset r (R - {#r#}) = R" using Die(3) by simp
  have "phases_at C N (R - {#r#}) \<subseteq># phases_at C N R" for N
    using phases_at_add(1) [of C N r "R - {#r#}"] unfolding R by simp
  then have "key_ok (key_at C N w (R - {#r#}))" if "N \<noteq> actionIndexDirectory" for N
    using old(5) [OF that] key_ok_fewer unfolding key_at_def by blast
  with old show ?thesis unfolding Die(2) by (intro ladder_okI) (auto dest: in_diffD)
next
  case (Elsewhere w R A services)
  from ladder_okD [OF ok [unfolded Elsewhere(1)], simplified] show ?thesis
    unfolding Elsewhere(2) by (intro ladder_okI) (auto simp: key_at_def)
qed

lemma ladder_steps_ok: "(ladder_step C)\<^sup>*\<^sup>* s s' \<Longrightarrow> ladder_ok C s \<Longrightarrow> ladder_ok C s'"
  by (induction rule: rtranclp_induct) (auto intro: ladder_step_ok)

lemma answers_stay: "(ladder_step C)\<^sup>*\<^sup>* s s' \<Longrightarrow> p \<in># ls_answers s \<Longrightarrow> p \<in># ls_answers s'"
  by (induction rule: rtranclp_induct) (auto elim: ladder_step.cases)

section \<open>The calls of one request\<close>

fun act_calls :: "crypto \<Rightarrow> ladder_env list \<Rightarrow> act_run \<Rightarrow> ladder_world \<Rightarrow> (act_answer + act_run) \<times> ladder_world" where
  "act_calls C [] r w = (Inr r, w)"
| "act_calls C (le # les) r w =
     (case act_next C le r w of
        (Inl a, w) \<Rightarrow> (Inl a, w)
      | (Inr r, w) \<Rightarrow> act_calls C les r w)"

lemma act_calls_append:
  "act_calls C (les @ les') r w =
     (case act_calls C les r w of (Inl a, w) \<Rightarrow> (Inl a, w) | (Inr r, w) \<Rightarrow> act_calls C les' r w)"
  by (induction C les r w rule: act_calls.induct) (auto split: prod.splits sum.splits)

lemma act_calls_steps:
  assumes "act_calls C les r w = (Inr r', w')" and "\<forall>le \<in> set les. valid_utf8 (le_now le)"
  shows "(ladder_step C)\<^sup>*\<^sup>* \<lparr> ls_world = w, ls_runs = add_mset r R, ls_answers = A \<rparr>
    \<lparr> ls_world = w', ls_runs = add_mset r' R, ls_answers = A \<rparr>"
  using assms
proof (induction C les r w rule: act_calls.induct)
  case (2 C le les r w)
  from 2(2) obtain q v where next_: "act_next C le r w = (Inr q, v)" and rest: "act_calls C les q v = (Inr r', w')"
    by (auto split: prod.splits sum.splits)
  have "ladder_step C \<lparr> ls_world = w, ls_runs = add_mset r R, ls_answers = A \<rparr>
    \<lparr> ls_world = v, ls_runs = add_mset q (add_mset r R - {#r#}), ls_answers = A \<rparr>"
    by (rule ladder_step.Go [OF _ _ next_]) (use 2(3) in simp_all)
  with 2(1) [OF next_ [symmetric] refl rest] 2(3) show ?case by (simp add: converse_rtranclp_into_rtranclp)
qed simp

section \<open>Every request ends\<close>

text \<open>How many calls a request at a stage still makes, at most.\<close>

primrec calls_left :: "stage \<Rightarrow> nat" where
  "calls_left Indexing = 21"
| "calls_left Foreign_looking = 20"
| "calls_left Reconcile_looking = 19"
| "calls_left Closing_unseen = 18"
| "calls_left Holding = 17"
| "calls_left Lost_looking = 16"
| "calls_left Reserving = 15"
| "calls_left Looking_closed = 14"
| "calls_left Holding_again = 13"
| "calls_left Reading = 12"
| "calls_left Attempting = 11"
| "calls_left (Closing n) = 10"
| "calls_left (Policing n begun) = 9"
| "calls_left (Admitting n begun) = 8"
| "calls_left (Claiming n) = 7"
| "calls_left (Running n) = 6"
| "calls_left Rechecking = 5"
| "calls_left (Freeing n reason) = 5"
| "calls_left (Abandoning answer) = 4"
| "calls_left Close_syncing = 3"
| "calls_left Close_indexing = 2"
| "calls_left (Minting observed) = 3"
| "calls_left (Recording uncertain response) = 2"
| "calls_left (Ending answer) = 1"

lemma act_next_ends:
  assumes "act_next C le r w = (Inr r', w')"
  shows "calls_left (ar_stage r') < calls_left (ar_stage r)"
proof -
  show ?thesis
    using assms
    by (cases "ar_stage r")
      (auto simp: act_next_def scope_next_def entry_next_def dispatch_next_def sent_next_def on_entry_def on_journal_def on_service_def
        Let_def to_stage_def to_answer_def
        split: sum.splits journal_error.splits prod.splits option.splits if_splits program_run.splits)
qed

text \<open>The calls of a request, each with what the system answers and the world it finds.\<close>

fun calls_among :: "crypto \<Rightarrow> (ladder_env \<times> ladder_world) list \<Rightarrow> act_run \<Rightarrow> act_answer + act_run" where
  "calls_among C [] r = Inr r"
| "calls_among C ((le, w) # found) r = (case fst (act_next C le r w) of Inl a \<Rightarrow> Inl a | Inr r \<Rightarrow> calls_among C found r)"

lemma calls_end: "calls_left (ar_stage r) \<le> length found \<Longrightarrow> \<exists>a. calls_among C found r = Inl a"
proof (induction C found r rule: calls_among.induct)
  case (1 C r)
  then show ?case by (cases "ar_stage r") simp_all
next
  case (2 C le w found r)
  show ?case
  proof (cases "fst (act_next C le r w)")
    case (Inr q)
    then have "calls_left (ar_stage q) < calls_left (ar_stage r)" by (intro act_next_ends) (simp add: prod_eq_iff)
    with 2 Inr show ?thesis by simp
  qed simp
qed

end
