(* ===== verification/Sample_Ladder.thy ===== *)
theory Sample_Ladder
  imports Ladder_Run Sample_Run
begin

text \<open>A keyed action on an empty journal, call by call, until its program is started.\<close>

section \<open>A keyed action\<close>

definition keyed_source :: writeSource where
  "keyed_source =
     \<lparr> ws_binding = ''crm'', ws_argv = [''wrap''], ws_tools = [], ws_policies = Map.empty, ws_recovery = Map.empty,
       ws_endpoint = [], ws_transport = [], ws_approval = None, ws_provenance = None, ws_sandbox = None \<rparr>"

definition keyed_judged :: judged where
  "keyed_judged =
     \<lparr> jd_session = ''s2'', jd_platform = ''crm'', jd_tool = ''send'', jd_spec = keyed_source, jd_policy = None,
       jd_arguments = [], jd_key = ''k1'', jd_keyScoped = True, jd_reconcile = False,
       jd_who = \<lparr> cl_issuer = ''idp'', cl_subject = ''agent'', cl_tokenDigest = [] \<rparr>,
       jd_decision = \<lparr> dc_recordDigest = [], dc_packDigest = [] \<rparr>, jd_cites = [], jd_exact = False, jd_recorded = [] \<rparr>"

definition keyed_request :: keyed where
  "keyed_request =
     \<lparr> kd_process = 0, kd_authority = ''gw'', kd_judged = keyed_judged,
       kd_identity = \<lparr> ai_fingerprint = replicate 64 (CHR ''a''), ai_previous = [] \<rparr> \<rparr>"

definition keyed_env :: ladder_env where
  "keyed_env =
     \<lparr> le_journal = os_answers, le_now = sample_time, le_publishers = True, le_mkdir = True, le_removes = True,
       le_run = Failed, le_executable = None,
       le_evidence = \<lparr> ev_root = Absent, ev_receipts = Absent, ev_artifacts = Map.empty, ev_regular = (\<lambda>_. False) \<rparr>,
       le_drawn = True, le_argsSalt = [], le_requestSalt = [], le_directory = sample_directory, le_write = os_fine,
       le_evidenceSyncs = True \<rparr>"

definition keyed_world :: ladder_world where
  "keyed_world = \<lparr> lw_journal = [], lw_services = (\<lambda>_. sample_service), lw_sent = {#} \<rparr>"

definition keyed_first :: actionKeyFirstScope where
  "keyed_first = first_of sample_crypto keyed_request"

definition keyed_name :: bytes where
  "keyed_name = namespace_of sample_crypto keyed_request"

definition keyed_indexed :: journal_dir where
  "keyed_indexed = [(actionIndexDirectory, Directory True [(fs_file keyed_first, Whole (fs_record keyed_first))])]"

definition keyed_entry :: action_entry where
  "keyed_entry = entry_records (reservationRecords (kd_identity keyed_request) None)"

lemma keyed_codes:
  "json_valid (fs_record keyed_first)" "length (fs_record keyed_first) \<le> actionIndexLimit"
  "reserveScoped os_answers keyed_name (kd_identity keyed_request) None [] =
     (Inr (keyed_entry, True), [(keyed_name, Directory True keyed_entry)])"
  "attempt os_answers keyed_entry = Inr (1, False)" "json_valid (dispatch_marker 1)" "length (dispatch_marker 1) \<le> 1024"
  by code_simp+

lemma keyed_names: "keyed_name \<noteq> actionIndexDirectory" "actionIndexDirectory \<noteq> keyed_name"
  unfolding keyed_name_def by simp_all

lemma keyed_hold: "holdKeyIndex os_answers keyed_first [] = (Inr (), keyed_indexed)"
  using keyed_codes(1,2)
  by (simp add: holdKeyIndex_def os_answers_def openActionDirectory_def readKeyIndex_def readActionRecord_def
      publishActionRecord_def record_valid_def Let_def keyed_indexed_def)

lemma keyed_reserve:
  "reserveScoped os_answers keyed_name (kd_identity keyed_request) None keyed_indexed =
     (Inr (keyed_entry, True), keyed_indexed @ [(keyed_name, Directory True keyed_entry)])"
proof -
  have named: "identity_named keyed_name (kd_identity keyed_request)"
    using keyed_codes(3) by (auto simp: reserveScoped_def split: if_splits)
  obtain made j where pub: "publishEntry os_answers keyed_name (reservationRecords (kd_identity keyed_request) None) [] = (made, j)"
    by fastforce
  have valid: "list_all record_valid (reservationRecords (kd_identity keyed_request) None)"
    using keyed_codes(3) named pub
    by (auto simp: reserveScoped_def publishUnlessPresent_def publishEntry_def os_answers_def split: if_splits)
  show ?thesis
    using named valid keyed_names
    by (simp add: reserveScoped_def publishUnlessPresent_def publishEntry_def holdEntry_def openActionDirectory_def
        os_answers_def identity_named_def keyed_indexed_def keyed_entry_def entry_records_def)
qed

lemma keyed_claim:
  "claimDispatchUnder os_answers 1 None [] keyed_entry =
     (Inr (), AList.update (actionDispatchName 1) (Whole (dispatch_marker 1)) keyed_entry)"
proof -
  have free: "map_of keyed_entry (actionDispatchName 1) = None"
    by (simp add: keyed_entry_def entry_records_def reservationRecords_def actionDispatchName_def)
  have name: "actionJournalName (actionDispatchName 1)"
    by (simp add: actionJournalName_def actionDispatchAttempts_def upt_rec)
  show ?thesis using free name keyed_codes(5,6) by (simp add: claimDispatchUnder_def put_def os_answers_def taken_marker_def)
qed

lemma keyed_run:
  "\<exists>r w. act_calls sample_crypto (replicate 9 keyed_env) (act_start keyed_request) keyed_world = (Inr r, w) \<and>
     lw_sent w = {#(keyed_request, 1)#}"
proof -
  let ?r = "\<lambda>st. \<lparr> ar_keyed = keyed_request, ar_foreign = False, ar_indexed = False, ar_reserved = False, ar_stage = st \<rparr>"
  have facts: "has_key keyed_request" "\<not> asks_outcome keyed_request" "scoped keyed_request"
    "jd_session (kd_judged keyed_request) = ''s2''" "kd_process keyed_request = 0"
    by (simp_all add: has_key_def asks_outcome_def scoped_def keyed_request_def keyed_judged_def)
  have env: "le_journal keyed_env = os_answers" "le_publishers keyed_env" "le_mkdir keyed_env" "le_run keyed_env = Failed"
    by (simp_all add: keyed_env_def)
  note stages = act_next_def scope_next_def entry_next_def dispatch_next_def Let_def facts env keyed_first_def [symmetric]
    keyed_name_def [symmetric] to_stage_def on_journal_def on_entry_def on_service_def
  have looked: "keyIndexed os_answers [] keyed_first = Inr False" by (simp add: keyIndexed_def os_answers_def)
  define j where "j = keyed_indexed @ [(keyed_name, Directory True keyed_entry)]"
  define g where "g = snd (admitAction True ''s2'' sample_service)"
  have "fst (admitAction True ''s2'' sample_service) = Inr ()"
    by (simp add: admitAction_def sample_service_def newAdmissionGate_def session_of_def new_session_def Let_def put_session_def)
  then have admitted: "admitAction True ''s2'' sample_service = (Inr (), g)" by (simp add: g_def prod_eq_iff)
  have here: "entry_at j keyed_name = keyed_entry" using keyed_names by (simp add: j_def keyed_indexed_def entry_at_def)
  have "act_start keyed_request = ?r Indexing" using facts by (simp add: act_start_def)
  moreover have "act_calls sample_crypto (replicate 4 keyed_env) (?r Indexing) keyed_world =
    (Inr (?r Attempting), keyed_world\<lparr> lw_journal := j \<rparr>)"
    using looked keyed_hold keyed_reserve by (simp add: numeral_eq_Suc stages keyed_world_def j_def)
  moreover have "act_calls sample_crypto (replicate 3 keyed_env) (?r Attempting) (keyed_world\<lparr> lw_journal := j \<rparr>) =
    (Inr ((?r (Claiming 1))\<lparr> ar_reserved := True \<rparr>), keyed_world\<lparr> lw_journal := j, lw_services := (\<lambda>_. sample_service)(0 := g) \<rparr>)"
    using here keyed_codes(4) admitted by (simp add: numeral_eq_Suc stages keyed_world_def)
  moreover obtain w where "act_calls sample_crypto (replicate 2 keyed_env) ((?r (Claiming 1))\<lparr> ar_reserved := True \<rparr>)
    (keyed_world\<lparr> lw_journal := j, lw_services := (\<lambda>_. sample_service)(0 := g) \<rparr>) =
      (Inr ((?r (Minting None))\<lparr> ar_reserved := True \<rparr>), w)" "lw_sent w = {#(keyed_request, 1)#}"
    using here keyed_claim by (simp add: numeral_eq_Suc stages keyed_world_def sent_next_def)
  moreover have "replicate 9 keyed_env = replicate 4 keyed_env @ replicate 3 keyed_env @ replicate 2 keyed_env"
    by (simp flip: replicate_add)
  ultimately show ?thesis by (simp add: act_calls_append)
qed

end
