(* ===== verification/Execution_Claims.thy ===== *)
theory Execution_Claims
  imports Execution Policy_Held Service_Reads
begin

text \<open>
  The property of the identity a key is bound to: the bytes that are hashed determine everything the
  action was approved to be.
\<close>

section \<open>Members of canonical values\<close>

lemma same_members:
  assumes "norm_json (VObject ms) = norm_json (VObject ms')" and "wf (VObject ms)" and "wf (VObject ms')"
  shows "map_option norm_json (obj_get ms n) = map_option norm_json (obj_get ms' n)"
proof -
  have "norm_members ms = norm_members ms'" using assms(1) by (simp add: norm_VObject norm_members_def)
  then show ?thesis using obj_get_norm' [OF assms(2), of n] obj_get_norm' [OF assms(3), of n] by simp
qed

section \<open>Approvals\<close>

lemma obj_get_Nil: "obj_get [] n = None"
  by (simp add: obj_get_def)

lemma obj_get_with:
  "obj_get (with_text n s v) m = (if m = n \<and> s \<noteq> [] then Some (VString s) else obj_get v m)"
  "obj_get (with_words n l v) m = (if m = n \<and> l \<noteq> [] then Some (VArray (map VString l)) else obj_get v m)"
  by (simp_all add: with_text_def with_words_def obj_get_set)

lemma strings_inject: "map (norm_json \<circ> VString) l = map (norm_json \<circ> VString) l' \<longleftrightarrow> l = l'"
  by (simp add: inj_map_eq_map inj_def)

text \<open>The members of an approval, one for each field that is set.\<close>

definition approval_members :: "sourceApproval \<Rightarrow> members" where
  "approval_members p = (case approval_value (Some p) of VObject ms \<Rightarrow> ms | _ \<Rightarrow> [])"

lemma approval_object: "approval_value (Some p) = VObject (approval_members p)"
  by (simp add: approval_members_def approval_value_def Let_def)

definition text_member :: "bytes \<Rightarrow> jvalue option" where
  "text_member s = (if s = [] then None else Some (VString s))"

definition words_member :: "bytes list \<Rightarrow> jvalue option" where
  "words_member l = (if l = [] then None else Some (VArray (map VString l)))"

lemma member_inject:
  "map_option norm_json (text_member s) = map_option norm_json (text_member t) \<Longrightarrow> s = t"
  "map_option norm_json (words_member l) = map_option norm_json (words_member m) \<Longrightarrow> l = m"
  by (auto simp: text_member_def words_member_def strings_inject split: if_splits)

lemma approval_get:
  "obj_get (approval_members p) ''image'' = text_member (ap_image p)"
  "obj_get (approval_members p) ''url'' = text_member (ap_url p)"
  "obj_get (approval_members p) ''platformEndpoint'' = text_member (ap_platformEndpoint p)"
  "obj_get (approval_members p) ''headers'' = words_member (ap_headers p)"
  "obj_get (approval_members p) ''serverArguments'' = words_member (ap_serverArgs p)"
  "obj_get (approval_members p) ''command'' = words_member (ap_command p)"
  "obj_get (approval_members p) ''customer'' = (if ap_customer p then Some (VBool True) else None)"
  "obj_get (approval_members p) ''descriptorPin'' = text_member (ap_descriptorPin p)"
  "obj_get (approval_members p) ''ownerDeclarationPin'' = text_member (ap_ownerDeclarationPin p)"
  "obj_get (approval_members p) ''approvedOperation'' = text_member (ap_approvedOperation p)"
  "obj_get (approval_members p) ''approvedPlatform'' = text_member (ap_approvedPlatform p)"
  "obj_get (approval_members p) ''approvedBinding'' = text_member (ap_approvedBinding p)"
  "obj_get (approval_members p) ''sandboxSource'' = text_member (ap_sandboxSource p)"
  by (simp_all add: approval_members_def approval_value_def Let_def obj_get_with obj_get_set obj_get_Nil
      text_member_def words_member_def del: obj_set.simps)

text \<open>So the value determines the approval.\<close>

lemma approval_inject:
  assumes same: "norm_json (approval_value a) = norm_json (approval_value b)"
    and "wf (approval_value a)" and "wf (approval_value b)"
  shows "a = b"
proof (cases a)
  case None
  with same show ?thesis by (cases b) (simp_all add: approval_object norm_VObject, simp add: approval_value_def)
next
  case (Some p)
  with same obtain q where q: "b = Some q"
    by (cases b) (simp_all add: approval_object norm_VObject, simp add: approval_value_def)
  have member: "map_option norm_json (obj_get (approval_members p) n) = map_option norm_json (obj_get (approval_members q) n)" for n
    using same assms(2,3) unfolding Some q approval_object by (rule same_members)
  have "ap_customer p = ap_customer q" using member [of "''customer''"] by (simp add: approval_get split: if_splits)
  then have "p = q"
    by (intro sourceApproval.equality member_inject member [of "''image''", unfolded approval_get]
        member [of "''url''", unfolded approval_get] member [of "''platformEndpoint''", unfolded approval_get]
        member [of "''headers''", unfolded approval_get] member [of "''serverArguments''", unfolded approval_get]
        member [of "''command''", unfolded approval_get] member [of "''descriptorPin''", unfolded approval_get]
        member [of "''ownerDeclarationPin''", unfolded approval_get] member [of "''approvedOperation''", unfolded approval_get]
        member [of "''approvedPlatform''", unfolded approval_get] member [of "''approvedBinding''", unfolded approval_get]
        member [of "''sandboxSource''", unfolded approval_get]) simp_all
  with Some q show ?thesis by simp
qed

section \<open>The fingerprint\<close>

text \<open>What a keyed action is identified by.\<close>

record identified =
  id_platform :: bytes
  id_tool :: bytes
  id_args :: jvalue
  id_decision :: jvalue
  id_cites :: jvalue
  id_spec :: writeSource
  id_recovery :: "actionRecovery option"
  id_live :: writeSource

definition fingerprint_of :: "crypto \<Rightarrow> (writeSource \<Rightarrow> bytes option) \<Rightarrow> identified \<Rightarrow> actionIdentity option" where
  "fingerprint_of C probe i =
     actionFingerprint C probe (id_platform i) (id_tool i) (id_args i) (id_decision i) (id_cites i) (id_spec i)
       (id_recovery i) (id_live i)"

definition identity_of :: "crypto \<Rightarrow> (writeSource \<Rightarrow> bytes option) \<Rightarrow> identified \<Rightarrow> members option" where
  "identity_of C probe i =
     map_option (\<lambda>v. v True)
       (identity_values C probe (id_platform i) (id_tool i) (id_args i) (id_decision i) (id_cites i) (id_spec i)
          (id_recovery i) (id_live i))"

text \<open>The bytes that are hashed.\<close>

definition identity_bytes :: "crypto \<Rightarrow> (writeSource \<Rightarrow> bytes option) \<Rightarrow> identified \<Rightarrow> bytes option" where
  "identity_bytes C probe i =
     map_option (\<lambda>v. ''judgment-pack-gateway/action-identity/1:'' @ canon (VObject v)) (identity_of C probe i)"

text \<open>The source a read-back of the action reads.\<close>

definition reader_of :: "identified \<Rightarrow> writeSource option" where
  "reader_of i = map_option (\<lambda>rb. narrowTools (id_live i) (rb_tool rb)) (Option.bind (id_recovery i) rec_readBack)"

text \<open>Two sources are approved to be the same.\<close>

definition same_source :: "(writeSource \<Rightarrow> bytes option) \<Rightarrow> writeSource \<Rightarrow> (writeSource \<Rightarrow> bytes option) \<Rightarrow> writeSource \<Rightarrow> bool" where
  "same_source probe s probe' s' \<longleftrightarrow>
     ws_binding s = ws_binding s' \<and> ws_endpoint s = ws_endpoint s' \<and> ws_transport s = ws_transport s' \<and>
     ws_tools s = ws_tools s' \<and> ws_approval s = ws_approval s' \<and>
     map_option norm_json (map_option provenance_value (ws_provenance s)) =
       map_option norm_json (map_option provenance_value (ws_provenance s')) \<and>
     (ws_sandbox s = None \<longleftrightarrow> ws_sandbox s' = None) \<and>
     (\<forall>selector selector'. ws_sandbox s = Some selector \<longrightarrow> ws_sandbox s' = Some selector' \<longrightarrow>
        selector = selector' \<and> probe s = probe' s')"

lemma source_identity_get:
  "obj_get (source_identity True sandbox s) ''binding'' = Some (VString (ws_binding s))"
  "obj_get (source_identity True sandbox s) ''endpoint'' = Some (VString (ws_endpoint s))"
  "obj_get (source_identity True sandbox s) ''transport'' = Some (VString (ws_transport s))"
  "obj_get (source_identity True sandbox s) ''sandbox'' = Some sandbox"
  "obj_get (source_identity True sandbox s) ''tools'' = Some (VArray (map VString (ws_tools s)))"
  "obj_get (source_identity True sandbox s) ''approval'' = Some (approval_value (ws_approval s))"
  "obj_get (source_identity True sandbox s) ''descriptorProvenance'' = map_option provenance_value (ws_provenance s)"
  by (simp_all add: source_identity_def Let_def obj_get_set obj_get_Nil del: obj_set.simps split: option.splits)

lemma sandbox_inject:
  assumes "actionSandboxIdentity probe s = Some v" and "actionSandboxIdentity probe' s' = Some v'"
    and "norm_json v = norm_json v'"
  shows "(ws_sandbox s = None \<longleftrightarrow> ws_sandbox s' = None) \<and>
    (\<forall>selector selector'. ws_sandbox s = Some selector \<longrightarrow> ws_sandbox s' = Some selector' \<longrightarrow>
       selector = selector' \<and> probe s = probe' s')"
  using assms by (auto simp: actionSandboxIdentity_def norm_VObject split: option.splits)

lemma source_inject:
  assumes sandbox: "actionSandboxIdentity probe s = Some v" "actionSandboxIdentity probe' s' = Some v'"
    and same: "norm_json (VObject (source_identity True v s)) = norm_json (VObject (source_identity True v' s'))"
    and wf: "wf (VObject (source_identity True v s))" "wf (VObject (source_identity True v' s'))"
  shows "same_source probe s probe' s'"
proof -
  note member = same_members [OF same wf]
  have "ws_binding s = ws_binding s'" "ws_endpoint s = ws_endpoint s'" "ws_transport s = ws_transport s'"
    using member [of "''binding''"] member [of "''endpoint''"] member [of "''transport''"]
    by (simp_all add: source_identity_get)
  moreover have "ws_tools s = ws_tools s'"
    using member [of "''tools''"] by (simp add: source_identity_get strings_inject)
  moreover have "ws_approval s = ws_approval s'"
    using member [of "''approval''"] wf_member [OF wf(1) source_identity_get(6)] wf_member [OF wf(2) source_identity_get(6)]
    by (intro approval_inject) (simp_all add: source_identity_get)
  moreover have "map_option norm_json (map_option provenance_value (ws_provenance s)) =
      map_option norm_json (map_option provenance_value (ws_provenance s'))"
    using member [of "''descriptorProvenance''"] by (simp add: source_identity_get)
  moreover have "norm_json v = norm_json v'" using member [of "''sandbox''"] by (simp add: source_identity_get)
  ultimately show ?thesis using sandbox_inject [OF sandbox] unfolding same_source_def by blast
qed

lemma identity_get:
  assumes "identity_of C probe i = Some ms"
  shows "obj_get ms ''platform'' = Some (VString (id_platform i))" "obj_get ms ''tool'' = Some (VString (id_tool i))"
    "obj_get ms ''arguments'' = Some (id_args i)" "obj_get ms ''decision'' = Some (id_decision i)"
    "obj_get ms ''cites'' = Some (id_cites i)"
    "obj_get ms ''recovery'' = Some (VString (recovery_digest C (id_recovery i)))"
    "obj_get ms ''policy'' = map_option (\<lambda>p. VString (pol_digest p)) (ws_policies (id_spec i) (id_tool i))"
    "\<exists>v. actionSandboxIdentity probe (id_spec i) = Some v \<and>
       obj_get ms ''writeSource'' = Some (VObject (source_identity True v (id_spec i)))"
    "reader_of i = None \<Longrightarrow> obj_get ms ''readSource'' = None"
    "reader_of i = Some reader \<Longrightarrow> \<exists>v. actionSandboxIdentity probe reader = Some v \<and>
       obj_get ms ''readSource'' = Some (VObject (source_identity True v reader))"
  using assms
  by (auto simp: identity_of_def identity_values_def identity_request_def reader_of_def Let_def obj_get_set obj_get_Nil
      simp del: obj_set.simps split: option.splits bind_splits)

text \<open>C16: The fingerprint a key is bound to determines what was approved.  Of two keyed actions with the
  same fingerprint, whose hashed bytes do not collide, the platform, the tool, the arguments, the decision
  and the citations are the same up to the order of members; so are the recovery contract and the policy by
  digest; and so is everything the write source, and the source of a read-back, is approved to be: its
  binding, endpoint, transport, tools, every field of its approval, its descriptor provenance and the
  measured policy of its sandbox.\<close>

theorem fingerprint_binds:
  assumes "fingerprint_of C probe i = Some a" and "fingerprint_of C probe' i' = Some b"
    and "ai_fingerprint a = ai_fingerprint b"
    and "\<And>m m'. identity_bytes C probe i = Some m \<Longrightarrow> identity_bytes C probe' i' = Some m' \<Longrightarrow>
      sha256 C m = sha256 C m' \<Longrightarrow> m = m'"
    and "\<And>v. identity_of C probe i = Some v \<or> identity_of C probe' i' = Some v \<Longrightarrow>
      wf (VObject v) \<and> jdepth (VObject v) \<le> maxNesting"
  shows "id_platform i = id_platform i' \<and> id_tool i = id_tool i' \<and>
    norm_json (id_args i) = norm_json (id_args i') \<and> norm_json (id_decision i) = norm_json (id_decision i') \<and>
    norm_json (id_cites i) = norm_json (id_cites i') \<and>
    recovery_digest C (id_recovery i) = recovery_digest C (id_recovery i') \<and>
    map_option pol_digest (ws_policies (id_spec i) (id_tool i)) = map_option pol_digest (ws_policies (id_spec i') (id_tool i')) \<and>
    same_source probe (id_spec i) probe' (id_spec i') \<and>
    (reader_of i = None \<longleftrightarrow> reader_of i' = None) \<and>
    (\<forall>r r'. reader_of i = Some r \<longrightarrow> reader_of i' = Some r' \<longrightarrow> same_source probe r probe' r')"
proof -
  obtain v where v: "identity_of C probe i = Some v"
      "ai_fingerprint a = hex_encode (sha256 C (''judgment-pack-gateway/action-identity/1:'' @ canon (VObject v)))"
    using assms(1) by (auto simp: fingerprint_of_def actionFingerprint_def identity_of_def actionHash_def)
  obtain v' where v': "identity_of C probe' i' = Some v'"
      "ai_fingerprint b = hex_encode (sha256 C (''judgment-pack-gateway/action-identity/1:'' @ canon (VObject v')))"
    using assms(2) by (auto simp: fingerprint_of_def actionFingerprint_def identity_of_def actionHash_def)
  let ?domain = "''judgment-pack-gateway/action-identity/1:''"
  have bytes: "identity_bytes C probe i = Some (?domain @ canon (VObject v))"
    "identity_bytes C probe' i' = Some (?domain @ canon (VObject v'))"
    using v(1) v'(1) by (simp_all add: identity_bytes_def)
  have "sha256 C (?domain @ canon (VObject v)) = sha256 C (?domain @ canon (VObject v'))"
    by (rule hex_encode_inj) (use assms(3) v(2) v'(2) in simp)
  from assms(4) [OF bytes this] have "canon (VObject v) = canon (VObject v')" by simp
  then have same: "norm_json (VObject v) = norm_json (VObject v')"
    using assms(5) v(1) v'(1) by (intro canon_eq_norm) auto
  have wf: "wf (VObject v)" "wf (VObject v')" using assms(5) v(1) v'(1) by auto
  note member = same_members [OF same wf] and get = identity_get [OF v(1)] and get' = identity_get [OF v'(1)]
  have "id_platform i = id_platform i'" "id_tool i = id_tool i'"
    using member [of "''platform''"] member [of "''tool''"] get(1,2) get'(1,2) by simp_all
  moreover have "norm_json (id_args i) = norm_json (id_args i')" "norm_json (id_decision i) = norm_json (id_decision i')"
    "norm_json (id_cites i) = norm_json (id_cites i')"
    using member [of "''arguments''"] member [of "''decision''"] member [of "''cites''"] get(3-5) get'(3-5) by simp_all
  moreover have "recovery_digest C (id_recovery i) = recovery_digest C (id_recovery i')"
    using member [of "''recovery''"] get(6) get'(6) by simp
  moreover have policies: "map_option pol_digest (ws_policies (id_spec i) (id_tool i)) = map_option pol_digest (ws_policies (id_spec i') (id_tool i'))"
    using member [of "''policy''"] unfolding get(7) get'(7)
    by (cases "ws_policies (id_spec i) (id_tool i)"; cases "ws_policies (id_spec i') (id_tool i')") simp_all
  have source: "same_source probe s probe' s'"
    if "\<exists>w. actionSandboxIdentity probe s = Some w \<and> obj_get v n = Some (VObject (source_identity True w s))"
      "\<exists>w. actionSandboxIdentity probe' s' = Some w \<and> obj_get v' n = Some (VObject (source_identity True w s'))" for s s' n
  proof -
    from that obtain w w' where sandbox: "actionSandboxIdentity probe s = Some w" "actionSandboxIdentity probe' s' = Some w'"
      and there: "obj_get v n = Some (VObject (source_identity True w s))" "obj_get v' n = Some (VObject (source_identity True w' s'))"
      by blast
    show ?thesis
      by (rule source_inject [OF sandbox _ wf_member [OF wf(1) there(1)] wf_member [OF wf(2) there(2)]])
        (use member [of n] there in simp)
  qed
  from get(8) get'(8) have same_write: "same_source probe (id_spec i) probe' (id_spec i')" by (rule source)
  have readers: "reader_of i = None \<longleftrightarrow> reader_of i' = None"
  proof (cases "reader_of i")
    case None
    with get(9) member [of "''readSource''"] have "obj_get v' ''readSource'' = None" by simp
    with None get'(10) show ?thesis by (cases "reader_of i'") auto
  next
    case (Some r)
    with get(10) member [of "''readSource''"] have "obj_get v' ''readSource'' \<noteq> None" by (cases "obj_get v' ''readSource''") auto
    with Some get'(9) show ?thesis by (cases "reader_of i'") auto
  qed
  moreover have "\<forall>r r'. reader_of i = Some r \<longrightarrow> reader_of i' = Some r' \<longrightarrow> same_source probe r probe' r'"
    using source [OF get(10) get'(10)] by blast
  ultimately show ?thesis using same_write policies readers by blast
qed

text \<open>One action asked for twice, its arguments written in another order.\<close>

definition sample_source :: "bytes \<Rightarrow> writeSource" where
  "sample_source program =
     \<lparr> ws_binding = ''b'', ws_argv = [program], ws_tools = [''send''], ws_policies = Map.empty, ws_recovery = Map.empty,
       ws_endpoint = [], ws_transport = [],
       ws_approval = Some \<lparr> ap_image = ''i'', ap_url = [], ap_platformEndpoint = [], ap_headers = [], ap_serverArgs = [''x''],
         ap_command = [], ap_customer = False, ap_descriptorPin = [], ap_ownerDeclarationPin = [], ap_approvedOperation = [],
         ap_approvedPlatform = [], ap_approvedBinding = [], ap_sandboxSource = [] \<rparr>,
       ws_provenance = None, ws_sandbox = None \<rparr>"

definition sample_identified :: "bytes \<Rightarrow> members \<Rightarrow> identified" where
  "sample_identified program arguments =
     \<lparr> id_platform = ''crm'', id_tool = ''send'', id_args = VObject arguments, id_decision = VObject [], id_cites = VArray [],
       id_spec = sample_source program, id_recovery = None, id_live = sample_source program \<rparr>"

theorem fingerprint_binds_witness:
  "map_option ai_fingerprint (fingerprint_of sample_crypto (\<lambda>_. None)
       (sample_identified ''old'' [(''a'', VInt 1), (''b'', VInt 2)])) =
     map_option ai_fingerprint (fingerprint_of sample_crypto (\<lambda>_. None)
       (sample_identified ''new'' [(''b'', VInt 2), (''a'', VInt 1)])) \<and>
   norm_json (VObject [(''a'', VInt 1), (''b'', VInt 2)]) = norm_json (VObject [(''b'', VInt 2), (''a'', VInt 1)]) \<and>
   same_source (\<lambda>_. None) (sample_source ''old'') (\<lambda>_. None) (sample_source ''new'')"
proof -
  let ?C = sample_crypto and ?p = "\<lambda>_. None"
  let ?i = "sample_identified ''old'' [(''a'', VInt 1), (''b'', VInt 2)]"
  let ?j = "sample_identified ''new'' [(''b'', VInt 2), (''a'', VInt 1)]"
  note defs = sample_identified_def sample_source_def identity_of_def identity_values_def actionSandboxIdentity_def Let_def
  have same: "identity_bytes ?C ?p ?i = identity_bytes ?C ?p ?j" by code_simp
  obtain v where v: "identity_of ?C ?p ?i = Some v" by (simp add: defs)
  obtain w where w: "identity_of ?C ?p ?j = Some w" by (simp add: defs)
  have "case identity_of ?C ?p ?i of None \<Rightarrow> False | Some v \<Rightarrow> wf (VObject v) \<and> jdepth (VObject v) \<le> maxNesting"
    "case identity_of ?C ?p ?j of None \<Rightarrow> False | Some v \<Rightarrow> wf (VObject v) \<and> jdepth (VObject v) \<le> maxNesting"
    by code_simp+
  then have ok: "wf (VObject u) \<and> jdepth (VObject u) \<le> maxNesting"
    if "identity_of ?C ?p ?i = Some u \<or> identity_of ?C ?p ?j = Some u" for u
    using that by auto
  have canon: "canon (VObject v) = canon (VObject w)" using same v w by (simp add: identity_bytes_def)
  obtain a where a: "fingerprint_of ?C ?p ?i = Some a"
      "ai_fingerprint a = actionHash ?C ''action-identity'' (VObject v)"
    using v by (auto simp: fingerprint_of_def actionFingerprint_def identity_of_def)
  obtain b where b: "fingerprint_of ?C ?p ?j = Some b"
      "ai_fingerprint b = actionHash ?C ''action-identity'' (VObject w)"
    using w by (auto simp: fingerprint_of_def actionFingerprint_def identity_of_def)
  have equal: "ai_fingerprint a = ai_fingerprint b" unfolding a(2) b(2) by (simp add: actionHash_def canon)
  from fingerprint_binds [OF a(1) b(1) equal _ ok] same have "norm_json (id_args ?i) = norm_json (id_args ?j) \<and>
      same_source ?p (id_spec ?i) ?p (id_spec ?j)" by auto
  with a(1) b(1) equal show ?thesis by (simp add: sample_identified_def)
qed

end
