(* ===== verification/Marshal.thy ===== *)
theory Marshal
  imports Ladder
begin

text \<open>What \<^verbatim>\<open>encoding/json\<close> writes is read back: the second writer of values the parser agrees with.\<close>

section \<open>Strings\<close>

lemma parse_code_escape:
  assumes "readHex4 h = Inr (r, u)" and "\<not> is_surrogate r"
  shows "Canon.parseString sb (CHR 0x5C # CHR ''u'' # h) = Canon.parseString (sb @ encode_rune r) u"
proof -
  have "parseUnicodeEscape h = Inr (r, u)" using assms by (simp add: parseUnicodeEscape_def)
  then show ?thesis by (subst Canon.parseString.simps) (simp add: short_escape_def)
qed

lemma parse_json_rune:
  assumes "is_scalar r"
  shows "Canon.parseString sb (json_rune r @ u) = Canon.parseString (sb @ encode_rune r) u"
proof -
  have markup: "Canon.parseString sb (CHR 0x5C # ''u00'' @ [hex_digit (n div 16), hex_digit (n mod 16)] @ u) =
      Canon.parseString (sb @ encode_rune n) u" if "n \<in> {0x3C, 0x3E, 0x26}" for n
  proof -
    have "readHex4 (''00'' @ [hex_digit (n div 16), hex_digit (n mod 16)] @ u) = Inr (n, u)"
      using that by (auto simp: readHex4_def)
    then show ?thesis
      using that parse_code_escape [of "''00'' @ [hex_digit (n div 16), hex_digit (n mod 16)] @ u" n u sb]
      by (auto simp: is_surrogate_def)
  qed
  have separator: "Canon.parseString sb (CHR 0x5C # ''u2028'' @ u) = Canon.parseString (sb @ encode_rune 0x2028) u"
    "Canon.parseString sb (CHR 0x5C # ''u2029'' @ u) = Canon.parseString (sb @ encode_rune 0x2029) u"
    using parse_code_escape [of "''2028'' @ u" "0x2028" u sb] parse_code_escape [of "''2029'' @ u" "0x2029" u sb]
    by (simp_all add: readHex4_def hex_val_def is_digit_def is_surrogate_def)
  consider "r \<in> {0x3C, 0x3E, 0x26}" | "r = 0x2028" | "r = 0x2029" | "json_rune r = escape_rune r"
    unfolding json_rune_def by (cases "r \<in> {0x3C, 0x3E, 0x26}"; cases "r = 0x2028"; cases "r = 0x2029") auto
  then show ?thesis
  proof cases
    case 1
    with markup [OF 1] show ?thesis by (simp add: json_rune_def)
  next
    case 2
    with separator(1) show ?thesis by (simp add: json_rune_def)
  next
    case 3
    with separator(2) show ?thesis by (simp add: json_rune_def)
  next
    case 4
    with parse_escape_rune [OF assms] show ?thesis by simp
  qed
qed

lemma json_runes_encode:
  assumes "is_scalar r"
  shows "json_runes (encode_rune r @ s) = json_rune r @ json_runes s"
  using decode_rune_encode [OF assms, of s] decode_rune_encode_not_error [OF assms, of s]
  by (subst json_runes.simps) auto

lemma parseString_json:
  "valid_utf8 s \<Longrightarrow> Canon.parseString sb (json_runes s @ CHR 0x22 # t) = Inr (sb @ s, t)"
proof (induction s arbitrary: sb rule: valid_utf8_induct)
  case Nil
  have "json_runes [] = []" by (simp add: json_runes.simps)
  then show ?case by (subst Canon.parseString.simps) simp
next
  case (Rune r s)
  then show ?case by (simp add: json_runes_encode parse_json_rune)
qed

section \<open>Values\<close>

definition json_quoted :: "bytes \<Rightarrow> bytes" where
  "json_quoted s = json_runes s @ [CHR 0x22]"

lemma json_text_quoted: "json_text s = CHR 0x22 # json_quoted s"
  by (simp add: json_text_def json_quoted_def)

lemma json_marshal_object:
  "json_marshal (VObject ms) =
     CHR ''{'' # comma_join (map (\<lambda>(n, v). CHR 0x22 # json_quoted n @ CHR '':'' # json_marshal v) (sort_key fst ms)) @ ''}''"
proof -
  have "map (\<lambda>(n, w). json_text n @ CHR '':'' # w) (map (on_value json_marshal) xs)
      = map (\<lambda>(n, v). CHR 0x22 # json_quoted n @ CHR '':'' # json_marshal v) xs" for xs
    by (auto simp: json_text_quoted)
  then show ?thesis by (simp only: json_marshal.simps map_prod_on_value sort_key_on_value)
qed

interpretation marshalled: value_writer json_quoted json_marshal
  using parseString_json [of _ "[]"]
  by unfold_locales (simp_all add: json_marshal_object json_quoted_def json_text_quoted del: json_marshal.simps(1))

lemma parseJSON_marshal:
  assumes "wf v" and "jdepth v \<le> maxNesting"
  shows "parseJSON (json_marshal v) = Inr (norm_json v)"
  using marshalled.parse_written_space [OF assms, of "[]"] by simp

end
