(* ===== verification/Replay.thy ===== *)
theory Replay
  imports Marshal Action_Found Service_Chain
begin

text \<open>
  The answer of an action as it is retained and read again: what is written beside the receipt, what is
  read of it, and the receipt where the store holds it.
\<close>

lemma obj_get_empty: "obj_get [] n = None"
  by (simp add: obj_get_def)

section \<open>The receipt in the store\<close>

lemma receipt_at_service:
  "receipt_at (evidence_of g) sid name = (case map_of (gw_receipts g) sid of None \<Rightarrow> None | Some fs \<Rightarrow> map_of fs name)"
proof -
  have sessions: "map_of (map (\<lambda>(sid, fs). (sid, SessionFiles (session_files fs))) xs) sid =
      map_option (\<lambda>fs. SessionFiles (session_files fs)) (map_of xs sid)" for xs
    by (induction xs) auto
  have "map_of (session_files fs) name = map_option (\<lambda>d. RegularFile (Some d)) (map_of fs name)" for fs
    by (induction fs) (auto simp: session_files_def)
  then show ?thesis by (simp add: receipt_at_def evidence_of_def sessions split: option.splits)
qed

text \<open>What a mint that answered a receipt has put into the store.\<close>

lemma mint_stored:
  assumes "mint C x env m g = (Inr stored, g')" and "mt_kind m = ''action''"
  defines "sid \<equiv> mt_session m" and "d \<equiv> canon (mt_result m)"
  shows "stored = stamped C (gw_store g) (buildReceipt C (receipt_input g m (digest_of C d)))"
    and "receipt_at (evidence_of g') sid (format_int (ss_index (session_of g sid)) @ ''.json'') =
      Some (stamped_bytes C (gw_store g) (buildReceipt C (receipt_input g m (digest_of C d))))"
    and "ev_artifacts (evidence_of g') (hex_encode (sha256 C d)) = Some d"
    and "ss_index (session_of g sid) \<le> maxSafeInteger"
proof -
  have kind: "mt_kind m = ''acquisition'' \<or> mt_kind m = ''action''" using assms(2) by simp
  have "stored = stamped C (gw_store g) (buildReceipt C (receipt_input g m (digest_of C d))) \<and>
    receipt_at (evidence_of g') sid (format_int (ss_index (session_of g sid)) @ ''.json'') =
      Some (stamped_bytes C (gw_store g) (buildReceipt C (receipt_input g m (digest_of C d)))) \<and>
    ev_artifacts (evidence_of g') (hex_encode (sha256 C d)) = Some d \<and> ss_index (session_of g sid) \<le> maxSafeInteger"
  proof (rule mint_cases [OF assms(1) kind])
    fix fs artifacts core signature
    assume minted: "core = buildReceipt C (receipt_input g m (digest_of C (canon (mt_result m))))"
      "Inr stored = Inr (stamped C (gw_store g) core)" "ss_index (session_of g (mt_session m)) \<le> maxSafeInteger"
      "fsBlobs_putBlob C env (canon (mt_result m)) (gw_artifacts g) = (Inr (digest_of C (canon (mt_result m))), artifacts)"
      "g' = put_session (mt_session m) ((session_of g (mt_session m))\<lparr> ss_index := ss_index (session_of g (mt_session m)) + 1, ss_prev := signature,
          ss_created := ss_created (session_of g (mt_session m)) \<or> map_of (gw_receipts g) (mt_session m) = None \<and> mt_kind m = ''acquisition'' \<rparr>)
        (g\<lparr> gw_artifacts := artifacts, gw_receipts := AList.update (mt_session m)
             (AList.update (entry_file (format_int (ss_index (session_of g (mt_session m))))) (stamped_bytes C (gw_store g) core) fs)
             (gw_receipts g) \<rparr>)"
    obtain old where "artifacts = Some old" "map_of old (hex_encode (sha256 C d)) = Some d"
      using minted(4) by (auto simp: d_def fsBlobs_put_Inr fsWriteFile_Inr update_conv')
    with minted show ?thesis
      by (simp add: sid_def d_def receipt_at_service update_conv' put_session_def entry_file_def ev_artifacts_of)
  qed simp_all
  then show "stored = stamped C (gw_store g) (buildReceipt C (receipt_input g m (digest_of C d)))"
    "receipt_at (evidence_of g') sid (format_int (ss_index (session_of g sid)) @ ''.json'') =
      Some (stamped_bytes C (gw_store g) (buildReceipt C (receipt_input g m (digest_of C d))))"
    "ev_artifacts (evidence_of g') (hex_encode (sha256 C d)) = Some d" "ss_index (session_of g sid) \<le> maxSafeInteger"
    by blast+
qed

section \<open>The answer that is retained\<close>

lemma response_read:
  assumes "wf (VObject ms)" and "jdepth (VObject ms) \<le> maxNesting"
  shows "parse_object (json_marshal (VObject ms)) = Some (norm_members ms)"
  using parseJSON_marshal [OF assms] by (simp add: parse_object_def norm_members_value)

lemma response_domain:
  assumes "wf answer" "Suc (jdepth answer) \<le> maxNesting" "wf (VObject stored)" "jdepth (VObject stored) < maxNesting"
  shows "wf (VObject (act_response answer stored a b))" "jdepth (VObject (act_response answer stored a b)) \<le> maxNesting"
proof -
  show "wf (VObject (act_response answer stored a b))"
    using assms(1,3) by (simp add: act_response_def wf_VObject_iff valid_utf8_ascii)
  have "Suc (jdepth v) \<le> maxNesting" if member: "(n, v) \<in> set (act_response answer stored a b)" for n v
  proof -
    consider "v = answer" | "v = VObject stored"
      | "v = VObject [(''args'', VString (hex_encode a)), (''request'', VString (hex_encode b))]"
      using member by (auto simp: act_response_def)
    then show ?thesis
    proof cases
      case 3
      then show ?thesis by (simp add: maxNesting_def)
    qed (use assms(2,4) in \<open>simp_all del: jdepth.simps\<close>)
  qed
  then show "jdepth (VObject (act_response answer stored a b)) \<le> maxNesting"
    unfolding jdepth_VObject_le by (auto simp: maxNesting_def)
qed

lemma response_get:
  "obj_get (act_response answer stored a b) ''result'' = Some answer"
  "obj_get (act_response answer stored a b) ''receipt'' = Some (VObject stored)"
  "obj_get (act_response answer stored a b) ''salts'' =
     Some (VObject [(''args'', VString (hex_encode a)), (''request'', VString (hex_encode b))])"
  "exactlyMembers (act_response answer stored a b) [(''result'', True), (''receipt'', True), (''salts'', True)]"
  by (simp_all add: act_response_def obj_get_def exactlyMembers_def present_def)

lemma commits_salt:
  assumes "string_of salts entry = hex_encode salt" and "length salt = 32"
  shows "commits C salts entry label canonical obj member \<longleftrightarrow>
    commitmentOver C salt label canonical = string_of obj member"
  using assms by (simp add: commits_def Let_def)

lemma mt_result_domain:
  assumes "action_minting C g j uncertain output now drawn argsSalt requestSalt = Some m"
    and "wf output" and "jdepth output \<le> maxNesting"
  shows "wf (mt_result m)" "Suc (jdepth (mt_result m)) \<le> maxNesting"
    and "mt_arguments m = canon (VObject (jd_arguments j))" "mt_salt m = argsSalt"
proof -
  from assms(1) obtain e where e: "parseEnvelope output = Some e" and m: "mt_result m = env_result e"
    and rest: "mt_arguments m = canon (VObject (jd_arguments j))" "mt_salt m = argsSalt"
    by (auto simp: action_minting_def Option.bind_eq_Some_conv)
  then obtain obj where obj: "output = VObject obj" "obj_get obj ''result'' = Some (env_result e)"
    by (auto simp: parseEnvelope_def Option.bind_eq_Some_conv Let_def requireObject_iff)
  from obj(2) have "(''result'', env_result e) \<in> set obj" by (simp add: obj_get_def map_of_SomeD)
  with assms(3) [unfolded obj(1) jdepth_VObject_le] have "Suc (jdepth (env_result e)) \<le> maxNesting" by fastforce
  with wf_member [OF assms(2) [unfolded obj(1)] obj(2)] m rest
  show "wf (mt_result m)" "Suc (jdepth (mt_result m)) \<le> maxNesting"
    "mt_arguments m = canon (VObject (jd_arguments j))" "mt_salt m = argsSalt" by simp_all
qed

section \<open>The receipt as a retry reads it\<close>

lemma retained_receipt:
  assumes ok: "judged_ok j" "mints_ok C g (jd_session j)"
    and minted: "action_minting C g j uncertain output now drawn argsSalt requestSalt = Some m" "mint C x env m g = (Inr stored, g')"
    and written: "wf output" "jdepth output \<le> maxNesting" "valid_utf8 now"
    and kept: "store_kept (evidence_of g') E"
      "\<And>d a. ev_artifacts (evidence_of g') d = Some a \<Longrightarrow> ev_artifacts E d = Some a"
    and key: "key_position keys (st_keyID (gw_store g)) = Some pos" "rk_key (keys ! pos) = st_publicKey (gw_store g)"
  obtains r where "receiptFrom stored = Some r" "r_kind r = ''action''" "r_authority r = st_authority (gw_store g)"
    "r_resultDigest r = digest_of C (canon (mt_result m))" "wf (VObject stored)" "jdepth (VObject stored) \<le> maxNesting"
    "resolveCitation C E (st_authority (gw_store g)) keys (citation_of r)"
    "snd (checkReceiptUnder C (canon (VObject (norm_members stored))) E (r_sessionID r) (format_int (r_callIndex r) @ ''.json'')
       (st_authority (gw_store g)) keys) = Ok"
    "obj_get stored ''action'' = Some (VObject (mt_detail m))"
    "string_of stored ''argumentsCommitment'' = commitmentOver C argsSalt ''args:'' (canon (VObject (jd_arguments j)))"
proof -
  let ?d = "canon (mt_result m)" and ?st = "gw_store g"
  let ?inp = "receipt_input g m (digest_of C ?d)"
  let ?core = "buildReceipt C ?inp"
  obtain e where m: "mt_version m = receiptVersion3" "mt_session m = jd_session j" "mt_kind m = ''action''"
    "mt_detail m = action_detail C j uncertain e requestSalt" "parseEnvelope output = Some e"
    by (rule action_mintingD [OF minted(1)])
  note stored = mint_stored [OF minted(2) m(3)]
  note domain = mt_result_domain [OF minted(1) written(1,2)]
  have own: "own_store C ?st" using ok(2) by (simp add: mints_ok_def)
  have inp: "input_ok ?inp" by (rule action_input_ok [OF ok minted(1) written])
  have v3: "in_version ?inp = receiptVersion3" "in_kind ?inp = ''action''" using m by (simp_all add: receipt_input_def)
  obtain r where r: "receiptFrom (stamped C ?st ?core) = Some r" "r_version r = in_version ?inp" "r_sessionID r = in_sessionID ?inp"
    "r_callIndex r = in_callIndex ?inp" "r_authority r = in_authority ?inp" "r_resultDigest r = in_resultDigest ?inp"
    "r_kind r = (if in_version ?inp = receiptVersion3 then in_kind ?inp else [])"
    by (rule built_receipt [OF inp own]) blast
  note get = built_get3 [OF inp v3(1), of C ?st]
  have plain: "\<not> names_descriptors (stamped C ?st ?core)"
  proof (rule built_plain [OF inp])
    have "obj_get (mt_detail m) ''descriptorProvenance'' = None"
      unfolding m(4) action_detail_def Let_def
      by (simp add: obj_get_set set_from_def obj_get_empty del: obj_set.simps split: option.splits)
    then show "obj_get (in_detail ?inp) ''descriptorProvenance'' = None" by (simp add: receipt_input_def)
  qed
  have at: "r_sessionID r = jd_session j" "r_callIndex r = ss_index (session_of g (jd_session j))" "r_authority r = st_authority ?st"
    "r_resultDigest r = digest_of C ?d" using r m(2) by (simp_all add: receipt_input_def)
  note stampable = built_stampable [OF inp]
  have checked: "checkReceiptUnder C (stamped_bytes C ?st ?core) E (r_sessionID r) (format_int (r_callIndex r) @ ''.json'')
      (r_authority r) keys = (Some (r\<lparr> r_obj := norm_members (stamped C ?st ?core), r_keyPos := int pos \<rparr>), Ok)"
    by (rule stamped_verifies [OF stampable own r(1) _ key at(4)])
      (use r(2) v3(1) kept(2) [OF stored(3)] stored(4) at(2) m(2) plain in simp_all)
  have place: "receipt_at E (r_sessionID r) (format_int (r_callIndex r) @ ''.json'') = Some (stamped_bytes C ?st ?core)"
    using kept(1) stored(2) at(1,2) m(2) by (simp add: store_kept_def)
  have "resolveCitation C E (st_authority ?st) keys (citation_of r)"
  proof -
    from place obtain sessions files where "ev_receipts E = There sessions" "map_of sessions (r_sessionID r) = Some (SessionFiles files)"
      "map_of files (format_int (r_callIndex r) @ ''.json'') = Some (RegularFile (Some (stamped_bytes C ?st ?core)))"
      by (auto simp: receipt_at_def split: look.splits option.splits session_entry.splits file_entry.splits)
    with checked at(3) show ?thesis by (simp add: resolveCitation_def citation_of_def Let_def)
  qed
  moreover have "checkReceiptUnder C (canon (VObject (norm_members (stamped C ?st ?core)))) = checkReceiptUnder C (stamped_bytes C ?st ?core)"
    using stamped_parse [OF stampable own] parse_object_canon [OF stamped_wf(1,2) [OF stampable own], of "[]"]
    by (simp add: checkReceiptUnder_def canon_norm_members fun_eq_iff)
  ultimately show ?thesis
    using that [of r] r v3 at checked stored(1) stamped_wf(1,2) [OF stampable own] get(2,5) domain(3,4)
    by (simp add: receipt_input_def string_of_def memberString_def)
qed

end
