(* ===== verification/Replay_Claims.thy ===== *)
theory Replay_Claims
  imports Replay Sample_Action
begin

text \<open>
  The property of retained answers: what a keyed action minted and retained is what a retry is given,
  and only the same request is given it.
\<close>

section \<open>What a retry reads\<close>

lemma detail_members:
  assumes "envelope_ok e" and "jd_key j \<noteq> []"
    and wf: "wf (VObject (action_detail C j uncertain e requestSalt))"
  defines "action \<equiv> norm_members (action_detail C j uncertain e requestSalt)"
  obtains delivery identity where "obj_get action ''delivery'' = Some (VObject delivery)"
    "string_of delivery ''outcome'' = (if uncertain then ''uncertain'' else ''response'')"
    "string_of delivery ''key'' = jd_key j" "string_of delivery ''contract'' = recovery_digest C (ws_recovery (jd_spec j) (jd_tool j))"
    "obj_get action ''requester'' = Some (VObject identity)"
    "string_of identity ''issuer'' = cl_issuer (jd_who j)" "string_of identity ''subject'' = cl_subject (jd_who j)"
    "string_of action ''request'' = commitmentOver C requestSalt ''request:'' (act_request j)"
proof -
  let ?detail = "action_detail C j uncertain e requestSalt"
  note get = action_detail_get [OF assms(1), of C j uncertain requestSalt]
  have delivery: "obj_get ?detail ''delivery'' = Some (VObject (delivery_member C j uncertain))" using get(2) assms(2) by simp
  note wfs = wf_member [OF wf delivery] wf_member [OF wf get(1)]
  have "string_of (delivery_member C j uncertain) ''outcome'' = (if uncertain then ''uncertain'' else ''response'')"
    "string_of (delivery_member C j uncertain) ''key'' = jd_key j"
    "string_of (delivery_member C j uncertain) ''contract'' = recovery_digest C (ws_recovery (jd_spec j) (jd_tool j))"
    "string_of (identityObject (jd_who j)) ''issuer'' = cl_issuer (jd_who j)"
    "string_of (identityObject (jd_who j)) ''subject'' = cl_subject (jd_who j)"
    by (simp_all add: delivery_member_def identityObject_def string_of_def memberString_def obj_get_set obj_get_empty del: obj_set.simps)
  moreover have "obj_get action ''delivery'' = Some (VObject (norm_members (delivery_member C j uncertain)))"
    "obj_get action ''requester'' = Some (VObject (norm_members (identityObject (jd_who j))))"
    "string_of action ''request'' = commitmentOver C requestSalt ''request:'' (act_request j)"
    using wf delivery get(1,7)
    by (simp_all add: action_def receipt_norm norm_members_value) (simp add: string_of_def memberString_def)
  ultimately show ?thesis using that members_norm(3) [OF wfs(1)] members_norm(3) [OF wfs(2)] by simp
qed

lemma response_parts:
  assumes resp: "wf (VObject (act_response answer stored a b))"
  defines "read \<equiv> norm_members (act_response answer stored a b)"
  obtains salts where "exactlyMembers read [(''result'', True), (''receipt'', True), (''salts'', True)]"
    "obj_get read ''receipt'' = Some (VObject (norm_members stored))" "obj_get read ''result'' = Some (norm_json answer)"
    "obj_get read ''salts'' = Some (VObject salts)" "string_of salts ''args'' = hex_encode a" "string_of salts ''request'' = hex_encode b"
    "exactlyMembers salts [(''args'', True), (''request'', True)]"
proof -
  let ?salts = "[(''args'', VString (hex_encode a)), (''request'', VString (hex_encode b))]"
  have salts: "wf (VObject ?salts)" by (simp add: wf_VObject_iff valid_utf8_ascii)
  have "string_of (norm_members ?salts) ''args'' = hex_encode a" "string_of (norm_members ?salts) ''request'' = hex_encode b"
    "exactlyMembers (norm_members ?salts) [(''args'', True), (''request'', True)]"
    unfolding members_norm(3) [OF salts] exactlyMembers_norm [OF salts]
    by (simp_all add: string_of_def memberString_def obj_get_def exactlyMembers_def present_def)
  moreover have "exactlyMembers read [(''result'', True), (''receipt'', True), (''salts'', True)]"
    "obj_get read ''receipt'' = Some (VObject (norm_members stored))" "obj_get read ''result'' = Some (norm_json answer)"
    "obj_get read ''salts'' = Some (VObject (norm_members ?salts))"
    using response_get resp by (simp_all add: read_def receipt_norm norm_members_value)
  ultimately show ?thesis using that by blast
qed

text \<open>C17: The answer of a keyed action that was minted and retained is the answer of every retry.  While the
  store keeps what the mint put there and the registry reaches the key that signed, the bytes retained are
  read as exactly that response with its outcome by the requester of the action, under its key, with its
  recovery contract, its arguments and its request; a caller with another issuer or subject, another key or
  contract, or arguments or a request that do not open the receipt's commitments, is given nothing.\<close>

theorem retained_answer_replays:
  assumes ok: "judged_ok j" "jd_key j \<noteq> []" "mints_ok C g (jd_session j)"
    and minted: "action_minting C g j uncertain output now drawn argsSalt requestSalt = Some m" "mint C x env m g = (Inr stored, g')"
    and written: "wf output" "jdepth output \<le> maxNesting" "valid_utf8 now" "length argsSalt = 32" "length requestSalt = 32"
      "jdepth (VObject stored) < maxNesting"
    and kept: "store_kept (evidence_of g') E"
      "\<And>d a. ev_artifacts (evidence_of g') d = Some a \<Longrightarrow> ev_artifacts E d = Some a"
    and reader: "st_authority (gw_store q) = st_authority (gw_store g)" "reachedKeys C q = Some keys"
      "key_position keys (st_keyID (gw_store g)) = Some pos" "rk_key (keys ! pos) = st_publicKey (gw_store g)"
  shows "readActionResponse C q E (json_marshal (VObject (act_response (mt_result m) stored argsSalt requestSalt)))
      who key contract arguments request =
    (if cl_issuer who = cl_issuer (jd_who j) \<and> cl_subject who = cl_subject (jd_who j) \<and> key = jd_key j \<and>
        contract = recovery_digest C (ws_recovery (jd_spec j) (jd_tool j)) \<and>
        commitmentOver C argsSalt ''args:'' (canon (VObject arguments)) =
          commitmentOver C argsSalt ''args:'' (canon (VObject (jd_arguments j))) \<and>
        commitmentOver C requestSalt ''request:'' request = commitmentOver C requestSalt ''request:'' (act_request j)
     then Some (norm_members (act_response (mt_result m) stored argsSalt requestSalt),
       if uncertain then ''uncertain'' else ''response'')
     else None)"
proof -
  let ?resp = "act_response (mt_result m) stored argsSalt requestSalt"
  obtain r where r: "receiptFrom stored = Some r" "r_kind r = ''action''" "r_authority r = st_authority (gw_store g)"
    "r_resultDigest r = digest_of C (canon (mt_result m))" "wf (VObject stored)" "jdepth (VObject stored) \<le> maxNesting"
    "resolveCitation C E (st_authority (gw_store g)) keys (citation_of r)"
    "snd (checkReceiptUnder C (canon (VObject (norm_members stored))) E (r_sessionID r) (format_int (r_callIndex r) @ ''.json'')
       (st_authority (gw_store g)) keys) = Ok"
    "obj_get stored ''action'' = Some (VObject (mt_detail m))"
    "string_of stored ''argumentsCommitment'' = commitmentOver C argsSalt ''args:'' (canon (VObject (jd_arguments j)))"
    by (rule retained_receipt [OF ok(1,3) minted written(1-3) kept reader(3,4)])
  obtain e where e: "parseEnvelope output = Some e" "mt_detail m = action_detail C j uncertain e requestSalt"
    by (rule action_mintingD [OF minted(1)])
  note domain = mt_result_domain [OF minted(1) written(1,2)]
  note resp = response_domain [OF domain(1,2) r(5) written(6), of argsSalt requestSalt]
  note read = response_read [OF resp]
  have detail: "wf (VObject (action_detail C j uncertain e requestSalt))" using wf_member [OF r(5,9)] e(2) by simp
  obtain delivery identity where action:
    "obj_get (norm_members (mt_detail m)) ''delivery'' = Some (VObject delivery)"
    "string_of delivery ''outcome'' = (if uncertain then ''uncertain'' else ''response'')"
    "string_of delivery ''key'' = jd_key j" "string_of delivery ''contract'' = recovery_digest C (ws_recovery (jd_spec j) (jd_tool j))"
    "obj_get (norm_members (mt_detail m)) ''requester'' = Some (VObject identity)"
    "string_of identity ''issuer'' = cl_issuer (jd_who j)" "string_of identity ''subject'' = cl_subject (jd_who j)"
    "string_of (norm_members (mt_detail m)) ''request'' = commitmentOver C requestSalt ''request:'' (act_request j)"
    unfolding e(2) by (rule detail_members [OF parseEnvelope_ok [OF e(1) written(1,2)] ok(2) detail])
  obtain salts where parts: "exactlyMembers (norm_members ?resp) [(''result'', True), (''receipt'', True), (''salts'', True)]"
    "obj_get (norm_members ?resp) ''receipt'' = Some (VObject (norm_members stored))"
    "obj_get (norm_members ?resp) ''result'' = Some (norm_json (mt_result m))"
    "obj_get (norm_members ?resp) ''salts'' = Some (VObject salts)"
    and salts: "string_of salts ''args'' = hex_encode argsSalt" "string_of salts ''request'' = hex_encode requestSalt"
    "exactlyMembers salts [(''args'', True), (''request'', True)]"
    by (rule response_parts [OF resp(1)])
  have receipt: "receiptFrom (norm_members stored) = Some (r\<lparr> r_obj := norm_members stored \<rparr>)"
    "obj_get (norm_members stored) ''action'' = Some (VObject (norm_members (mt_detail m)))"
    "string_of (norm_members stored) ''argumentsCommitment'' = commitmentOver C argsSalt ''args:'' (canon (VObject (jd_arguments j)))"
    using receiptFrom_norm [OF r(5)] r(1,9,10) r(5) by (simp_all add: receipt_norm norm_members_value)
  have same: "digest_of C (canon (norm_json (mt_result m))) = r_resultDigest r"
    "citation_of (r\<lparr> r_obj := norm_members stored \<rparr>) = citation_of r"
    using r(4) by (simp_all add: canon_def canonWrite_norm citation_of_def)
  note commit = commits_salt [OF salts(1) written(4)] commits_salt [OF salts(2) written(5)]
  have outcome: "string_of delivery ''outcome'' = ''response'' \<or> string_of delivery ''outcome'' = ''uncertain''"
    using action(2) by simp
  show ?thesis
    unfolding readActionResponse_def
    using r(2,3,7,8) reader(1,2) outcome
    by (simp add: read parts receipt same action salts commit requireObject_def Let_def del: json_marshal.simps)
      (auto simp: require_def)
qed

section \<open>A retained answer\<close>

definition keyed_action :: judged where
  "keyed_action = acting_judged\<lparr> jd_key := replicate 64 (CHR ''a'') \<rparr>"

definition keyed_salt :: bytes where
  "keyed_salt = replicate 32 (CHR ''s'')"

definition keyed_minting :: minting where
  "keyed_minting =
     the (action_minting sample_crypto acting_service keyed_action False acting_output sample_time True keyed_salt keyed_salt)"

lemma keyed_minting:
  "action_minting sample_crypto acting_service keyed_action False acting_output sample_time True keyed_salt keyed_salt =
     Some keyed_minting"
  "mt_session keyed_minting = ''s2''" "mt_kind keyed_minting = ''action''" "mt_drawn keyed_minting" "mt_result keyed_minting = VNull"
proof -
  have "case parseEnvelope acting_output of None \<Rightarrow> False | Some e \<Rightarrow> env_result e = VNull" by code_simp
  then obtain e where "parseEnvelope acting_output = Some e" "env_result e = VNull" by (auto split: option.splits)
  then show "action_minting sample_crypto acting_service keyed_action False acting_output sample_time True keyed_salt keyed_salt =
     Some keyed_minting"
    "mt_session keyed_minting = ''s2''" "mt_kind keyed_minting = ''action''" "mt_drawn keyed_minting" "mt_result keyed_minting = VNull"
    by (simp_all add: keyed_minting_def action_minting_def keyed_action_def acting_judged_def)
qed

lemma keyed_mint:
  obtains stored g' where "mint sample_crypto sample_directory os_fine keyed_minting acting_service = (Inr stored, g')"
proof -
  have returnable: "returnableResult VNull" by code_simp
  have session: "requireSession ''s2''" by (simp add: requireSession_def sessionPattern_def is_name_char_def is_digit_def less_eq_char_def)
  have dir: "seriesDir sample_directory ''s2'' = Some ''s2''" by (rule seriesDir_plain) (use requireSession_plain [OF session] in simp)
  have service: "gw_artifacts acting_service = Some []" "gw_receipts acting_service = []" "session_of acting_service ''s2'' = new_session"
    by (simp_all add: acting_service_def sample_service_def session_of_def)
  let ?d = "digest_of sample_crypto (canon VNull)"
  have put: "retain (fsBlobs sample_crypto os_fine) (canon VNull) (Some []) =
      (Inr ?d, Some [(hex_encode (sha256 sample_crypto (canon VNull)), canon VNull)])"
    by (simp add: retain_def fsBlobs_def fsBlobs_putBlob_def Let_def fsWriteFile_fine)
  have stamp: "\<exists>x receipts. stampInto sample_crypto (fsIndexed_ops sample_directory) st (buildReceipt sample_crypto inp) [] = (Inr x, receipts)"
    if inp: "in_kind inp = ''action''" "in_sessionID inp = ''s2''" "in_callIndex inp = 0" for st inp
    using buildReceipt_place [of inp sample_crypto] session dir inp
    by (simp add: stampInto_def fsIndexed_ops_def fsIndexed_makeSeries_def fsIndexed_createIndexed_def
        maxSafeInteger_def minSafeInteger_def Let_def fsWriteFile_fine)
      (auto simp: sample_directory_def fsWriteFile_fine)
  let ?g = "acting_service\<lparr> gw_artifacts := Some [(hex_encode (sha256 sample_crypto (canon VNull)), canon VNull)] \<rparr>"
  have "in_kind (receipt_input ?g keyed_minting ?d) = ''action''" "in_sessionID (receipt_input ?g keyed_minting ?d) = ''s2''"
    "in_callIndex (receipt_input ?g keyed_minting ?d) = 0"
    using service(3) by (simp_all add: receipt_input_def keyed_minting(2,3) session_of_def new_session_def split: option.splits)
  from stamp [OF this, of "gw_store acting_service"] obtain x receipts where
    "stampInto sample_crypto (fsIndexed_ops sample_directory) (gw_store acting_service)
       (buildReceipt sample_crypto (receipt_input ?g keyed_minting ?d)) [] = (Inr x, receipts)" by blast
  then have "\<exists>stored g'. mint sample_crypto sample_directory os_fine keyed_minting acting_service = (Inr stored, g')"
    using returnable put by (simp add: mint_def keyed_minting service Let_def split: prod.splits)
  then show ?thesis using that by blast
qed

lemma keyed_judged: "judged_ok keyed_action" "jd_session keyed_action = ''s2''"
proof -
  have "caller_ok (jd_who acting_judged)"
    using sample_digest_form by (simp add: caller_ok_def acting_judged_def acting_caller_def valid_utf8_ascii)
  note judged_request_ok(1) [OF acting_judges acting_config_ok this]
  then show "judged_ok keyed_action"
    by (simp add: judged_ok_def keyed_action_def isLowerHexOfLen_def is_lower_hex_def list_all_iff)
  show "jd_session keyed_action = ''s2''" by (simp add: keyed_action_def acting_judged_def)
qed

text \<open>The receipt is not deep: its detail has a level below it, and that one members of two.\<close>

lemma jdepth_set_from:
  assumes "jdepth (VObject ms) \<le> d" and "jdepth (VObject src) \<le> d"
  shows "jdepth (VObject (set_from src ms n)) \<le> d"
proof (cases "obj_get src n")
  case (Some v)
  then have "(n, v) \<in> set src" by (simp add: obj_get_def map_of_SomeD)
  from jdepth_member [OF this] assms(2) have "Suc (jdepth v) \<le> d" by linarith
  from jdepth_obj_set [OF assms(1) this] Some show ?thesis by (simp add: set_from_def)
qed (use assms(1) in \<open>simp add: set_from_def\<close>)

lemma keyed_detail_depth:
  assumes "parseEnvelope acting_output = Some e"
  shows "jdepth (VObject (action_detail sample_crypto keyed_action False e salt)) \<le> 4"
proof -
  have "case parseEnvelope acting_output of None \<Rightarrow> True | Some e \<Rightarrow> jdepth (VObject (env_acquisition e)) \<le> 4"
    by code_simp
  with assms have acquired: "jdepth (VObject (env_acquisition e)) \<le> 4" by (simp del: jdepth.simps)
  have members: "jdepth (VObject (identityObject (jd_who keyed_action))) \<le> 3"
    "jdepth (VObject (delivery_member sample_crypto keyed_action False)) \<le> 3"
    "jdepth (VObject (decided_member keyed_action)) \<le> 3" "jdepth (VObject (called_member keyed_action)) \<le> 3"
    "jdepth (VArray (map cited_value (jd_cites keyed_action))) \<le> 3"
    by (simp_all add: keyed_action_def acting_judged_def cited_value_def identityObject_def delivery_member_def decided_member_def
        called_member_def Let_def)
  have empty: "jdepth (VObject []) \<le> 4" by simp
  show ?thesis
    unfolding action_detail_def Let_def
    using members empty by (auto intro!: jdepth_set_from [OF _ acquired] jdepth_obj_set simp del: jdepth.simps(1,2) obj_set.simps split: option.splits)
qed

lemma keyed_stored_depth:
  assumes "mint sample_crypto sample_directory os_fine keyed_minting acting_service = (Inr stored, g)"
  shows "jdepth (VObject stored) < maxNesting"
proof -
  obtain e where e: "parseEnvelope acting_output = Some e" "mt_who keyed_minting = Some acting_caller"
    "mt_detail keyed_minting = action_detail sample_crypto keyed_action False e keyed_salt"
    "mt_delegation keyed_minting = None" "mt_reconciler keyed_minting = None" "mt_witness keyed_minting = None"
    "mt_version keyed_minting = receiptVersion3"
    by (rule action_mintingD [OF keyed_minting(1)])
      (simp add: keyed_action_def acting_judged_def acting_service_def sample_service_def)
  have who: "jdepth (VObject (identityObject acting_caller)) \<le> 4" by (simp add: identityObject_def)
  have empty: "jdepth (VObject []) \<le> 5" by simp
  have "jdepth (VObject stored) \<le> 5"
    unfolding mint_stored(1) [OF assms keyed_minting(3)] stamped_def stamp_core_def buildReceipt_def receipt_input_def Let_def
    using keyed_detail_depth [OF e(1), of keyed_salt] who empty
    by (auto intro!: jdepth_obj_set simp: e(2-7) set_some_def simp del: obj_set.simps jdepth.simps(1,2))
  then show ?thesis by (simp add: maxNesting_def)
qed

theorem retained_answer_replays_witness:
  "\<exists>m stored g E.
     mint sample_crypto sample_directory os_fine m acting_service = (Inr stored, g) \<and>
     readActionResponse sample_crypto acting_service E
       (json_marshal (VObject (act_response (mt_result m) stored keyed_salt keyed_salt))) acting_caller (jd_key keyed_action)
       (recovery_digest sample_crypto (ws_recovery (jd_spec keyed_action) (jd_tool keyed_action)))
       (jd_arguments keyed_action) (act_request keyed_action) =
     Some (norm_members (act_response (mt_result m) stored keyed_salt keyed_salt), ''response'') \<and>
     readActionResponse sample_crypto acting_service E
       (json_marshal (VObject (act_response (mt_result m) stored keyed_salt keyed_salt))) acting_caller [CHR ''b'']
       (recovery_digest sample_crypto (ws_recovery (jd_spec keyed_action) (jd_tool keyed_action)))
       (jd_arguments keyed_action) (act_request keyed_action) = None"
proof -
  obtain stored g where minted: "mint sample_crypto sample_directory os_fine keyed_minting acting_service = (Inr stored, g)"
    by (rule keyed_mint)
  let ?keys = "[\<lparr> rk_key = sample_seed, rk_keyID = keyIDFor sample_crypto sample_seed \<rparr>]"
  have log: "gw_log acting_service = LogAt []" "gw_store acting_service = sample_store"
    by (simp_all add: acting_service_def sample_service_def)
  have "engineWalk sample_crypto [] (st_publicKey sample_store) = Inr (start_walk sample_crypto sample_seed)"
    using sample_empty_walk sample_facts(1) by (simp add: sample_store_def newStoreOn_def)
  then have reached: "reachedKeys sample_crypto acting_service = Some ?keys"
    by (simp add: reachedKeys_def log start_walk_def)
  have key: "key_position ?keys (st_keyID (gw_store acting_service)) = Some 0"
    "rk_key (?keys ! 0) = st_publicKey (gw_store acting_service)"
    using sample_facts(1) by (simp_all add: log sample_store_def newStoreOn_def)
  have given: "jd_key keyed_action \<noteq> []" "valid_utf8 sample_time" "length keyed_salt = 32" "jd_who keyed_action = acting_caller"
    "[CHR ''b''] \<noteq> jd_key keyed_action"
    using sample_facts(4) by (simp_all add: keyed_action_def keyed_salt_def acting_judged_def numeral_eq_Suc)
  note replays = retained_answer_replays [OF keyed_judged(1) given(1) acting_mints [folded keyed_judged(2)] keyed_minting(1)
    minted acting_written(1,2) given(2,3,3) keyed_stored_depth [OF minted] _ _ refl reached key, of "evidence_of g"]
  show ?thesis
    by (rule exI [of _ keyed_minting], rule exI [of _ stored], rule exI [of _ g], rule exI [of _ "evidence_of g"])
      (use minted in \<open>simp add: replays store_kept_def given(4,5) del: json_marshal.simps\<close>)
qed

end
