(* ===== verification/Delegation.thy ===== *)
theory Delegation
  imports Receipts
begin

text \<open>
  Delegation statements (\<^verbatim>\<open>delegation_statement.go\<close>): a chain of signed links, each bounded by the one
  above it, and what a chain admits at a time.  A refusal is its name, and the reason of an
  \<^verbatim>\<open>out-of-scope\<close>; the sentence that explains it is left out.  An instant is its number of nanoseconds from the
  start of year 0, and a difference of two instants is not saturated: it is only ever compared with a day.
\<close>

section \<open>Instants\<close>

definition days_before_year :: "nat \<Rightarrow> nat" where
  "days_before_year y = 365 * y + (y + 3) div 4 - (y + 99) div 100 + (y + 399) div 400"

definition days_before_month :: "nat \<Rightarrow> nat \<Rightarrow> nat" where
  "days_before_month y m = sum_list (map (days_in y) [1..<m])"

definition second_ns :: int where
  "second_ns = 1000000000"

definition millisecond_ns :: int where
  "millisecond_ns = 1000000"

text \<open>The instant of a time's fields, from the year to the millisecond.\<close>

definition instant_of :: "nat list \<Rightarrow> int" where
  "instant_of f =
     (let day = days_before_year (f ! 0) + days_before_month (f ! 0) (f ! 1) + (f ! 2 - 1);
          second = ((day * 24 + f ! 3) * 60 + f ! 4) * 60 + f ! 5
      in int (second * 1000 + f ! 6) * millisecond_ns)"

definition delegation_instant :: "bytes \<Rightarrow> int option" where
  "delegation_instant s = map_option instant_of (parseDelegationTime s)"

definition year_days :: "nat \<Rightarrow> nat" where
  "year_days y = (if leap_year y then 366 else 365)"

text \<open>The year of a day and the day within it, and the same of a month.\<close>

function civil_year :: "nat \<Rightarrow> nat \<Rightarrow> nat \<times> nat" where
  "civil_year y d = (if d < year_days y then (y, d) else civil_year (Suc y) (d - year_days y))"
  by pat_completeness auto
termination by (relation "measure snd") (auto simp: year_days_def split: if_splits)

function civil_month :: "nat \<Rightarrow> nat \<Rightarrow> nat \<Rightarrow> nat \<times> nat" where
  "civil_month y m d = (if d < days_in y m then (m, d) else civil_month y (Suc m) (d - days_in y m))"
  by pat_completeness auto
termination by (relation "measure (\<lambda>(y, m, d). d)") (auto simp: days_in_def split: if_splits)

declare civil_year.simps [simp del] civil_month.simps [simp del]

definition padded :: "nat \<Rightarrow> nat \<Rightarrow> bytes" where
  "padded w n = replicate (w - length (format_nat n)) (CHR ''0'') @ format_nat n"

definition delegationTime :: "int \<Rightarrow> bytes" where
  "delegationTime t =
     (let ms = nat (t div millisecond_ns); second = ms div 1000; day = second div 86400; clock = second mod 86400;
          (y, in_year) = civil_year 0 day; (m, in_month) = civil_month y 1 in_year
      in padded 4 y @ ''-'' @ padded 2 m @ ''-'' @ padded 2 (in_month + 1) @ ''T'' @ padded 2 (clock div 3600) @ '':'' @
         padded 2 (clock div 60 mod 60) @ '':'' @ padded 2 (clock mod 60) @ ''.'' @ padded 3 (ms mod 1000) @ ''Z'')"

definition truncated :: "int \<Rightarrow> int" where
  "truncated t = t - t mod millisecond_ns"

section \<open>Forms\<close>

definition delegationContext :: bytes where
  "delegationContext = ''judgment-pack/delegation/1:''"

definition maxDelegationLifetime :: int where
  "maxDelegationLifetime = 24 * 3600 * second_ns"

definition maxStatementBytes :: nat where
  "maxStatementBytes = 65536"

definition maxScopeEntries :: nat where
  "maxScopeEntries = 256"

definition maxScopeTools :: nat where
  "maxScopeTools = 256"

definition maxScopeLimits :: nat where
  "maxScopeLimits = 16"

record delegationRefusal =
  rf_name :: bytes
  rf_scopeReason :: bytes

definition refuse :: "bytes \<Rightarrow> delegationRefusal" where
  "refuse name = \<lparr> rf_name = name, rf_scopeReason = [] \<rparr>"

definition principal_value :: "principalRef \<Rightarrow> members" where
  "principal_value p =
     obj_set (obj_set (obj_set [] ''kind'' (VString (pr_kind p))) ''issuer'' (VString (pr_issuer p)))
       ''subject'' (VString (pr_subject p))"

definition isGatewayAudienceName :: "bytes \<Rightarrow> bool" where
  "isGatewayAudienceName s \<longleftrightarrow> s \<noteq> [] \<and> length s \<le> 256 \<and> list_all (\<lambda>c. 0x21 \<le> byte c \<and> byte c \<le> 0x7e) s"

definition isLimitName :: "bytes \<Rightarrow> bool" where
  "isLimitName s \<longleftrightarrow>
     s = ''calls'' \<or>
     (case cut_prefix ''x-'' s of
        None \<Rightarrow> False
      | Some n \<Rightarrow> n \<noteq> [] \<and> length n \<le> 128 \<and> list_all is_name_char n \<and> s \<noteq> ''x-.'' \<and> s \<noteq> ''x-..'')"

text \<open>The strength of an effect, by the order of the effect classes.\<close>

definition effectClasses :: "bytes list" where
  "effectClasses = [''pure'', ''read'', ''read-external'', ''propose'', ''act'']"

definition effectStrength :: "bytes \<Rightarrow> nat option" where
  "effectStrength s = map_of (zip effectClasses [0..<5]) s"

definition stringOf :: "jvalue \<Rightarrow> bytes option" where
  "stringOf v = (case v of VString s \<Rightarrow> Some s | _ \<Rightarrow> None)"

fun increasing :: "('a \<Rightarrow> 'a \<Rightarrow> bool) \<Rightarrow> 'a list \<Rightarrow> bool" where
  "increasing R (x # y # xs) = (R x y \<and> increasing R (y # xs))"
| "increasing R xs = True"

definition sortedStrings :: "jvalue \<Rightarrow> nat \<Rightarrow> bytes list option" where
  "sortedStrings v most =
     (case v of
        VArray vs \<Rightarrow> do {
          require (vs \<noteq> [] \<and> length vs \<le> most);
          out \<leftarrow> option_list (map stringOf vs);
          require (increasing (<) out);
          Some out }
      | _ \<Rightarrow> None)"

definition validSoftware :: "jvalue \<Rightarrow> bool" where
  "validSoftware v =
     (case exactObject v [''package'', ''version''] of
        Some obj \<Rightarrow> string_of obj ''package'' \<noteq> [] \<and> string_of obj ''version'' \<noteq> []
      | None \<Rightarrow>
          (case exactObject v [''harness''] of
             Some obj \<Rightarrow> isDigest (string_of obj ''harness'')
           | None \<Rightarrow> False))"

section \<open>Scopes\<close>

record scopeEntry =
  se_audienceKind :: bytes
  se_audienceName :: bytes
  se_source :: bytes
  se_tools :: "bytes list"
  se_effects :: "bytes list"
  se_limits :: "(bytes \<times> int) list"

definition effects_of :: "jvalue \<Rightarrow> bytes list option" where
  "effects_of v =
     (case v of
        VArray vs \<Rightarrow> do {
          require (vs \<noteq> []);
          out \<leftarrow> option_list (map stringOf vs);
          strengths \<leftarrow> option_list (map effectStrength out);
          require (increasing (<) strengths);
          Some out }
      | _ \<Rightarrow> None)"

definition limit_of :: "bytes \<times> jvalue \<Rightarrow> (bytes \<times> int) option" where
  "limit_of m =
     (case m of (name, v) \<Rightarrow> (case v of VInt n \<Rightarrow> if isLimitName name \<and> 0 \<le> n then Some (name, n) else None | _ \<Rightarrow> None))"

text \<open>A Go map of limits, kept in the order of its names.\<close>

definition limits_of :: "jvalue \<Rightarrow> (bytes \<times> int) list option" where
  "limits_of v =
     (case v of
        VObject ms \<Rightarrow> do {
          require (length ms \<le> maxScopeLimits);
          limits \<leftarrow> option_list (map limit_of ms);
          Some (sort_key fst limits) }
      | _ \<Rightarrow> None)"

definition parseScopeEntry :: "jvalue \<Rightarrow> scopeEntry option" where
  "parseScopeEntry v = do {
     obj \<leftarrow> exactObject v [''audience'', ''source'', ''tools'', ''effects'', ''limits''];
     audienceV \<leftarrow> obj_get obj ''audience'';
     audience \<leftarrow> exactObject audienceV [''kind'', ''name''];
     let kind = string_of audience ''kind'';
     let name = string_of audience ''name'';
     require (if kind = ''gateway'' then isGatewayAudienceName name
              else if kind = ''agent-host'' then isFlatTokenString name else False);
     source \<leftarrow> memberString obj ''source'';
     require (source \<noteq> []);
     toolsV \<leftarrow> obj_get obj ''tools'';
     tools \<leftarrow> sortedStrings toolsV maxScopeTools;
     effectsV \<leftarrow> obj_get obj ''effects'';
     effects \<leftarrow> effects_of effectsV;
     limitsV \<leftarrow> obj_get obj ''limits'';
     limits \<leftarrow> limits_of limitsV;
     Some \<lparr> se_audienceKind = kind, se_audienceName = name, se_source = source, se_tools = tools, se_effects = effects,
            se_limits = limits \<rparr> }"

definition entryLess :: "scopeEntry \<Rightarrow> scopeEntry \<Rightarrow> bool" where
  "entryLess a b =
     (if se_audienceKind a \<noteq> se_audienceKind b then se_audienceKind a < se_audienceKind b
      else if se_audienceName a \<noteq> se_audienceName b then se_audienceName a < se_audienceName b
      else se_source a < se_source b)"

section \<open>Links\<close>

record delegationLink =
  dl_obj :: members
  dl_id :: bytes
  dl_host :: bytes
  dl_keyID :: bytes
  dl_sub :: principalRef
  dl_agent :: bytes
  dl_software :: jvalue
  dl_entries :: "scopeEntry list"
  dl_mayDelegate :: bool
  dl_issuedAt :: int
  dl_expiresAt :: int
  dl_parentID :: bytes
  dl_parentHash :: bytes
  dl_depth :: int
  dl_signature :: bytes
  dl_canonical :: bytes
  dl_digest :: bytes

definition v1Members :: "bytes list" where
  "v1Members = [''delegationVersion'', ''id'', ''host'', ''keyId'', ''sub'', ''act'', ''scope'', ''mayDelegate'', ''issuedAt'',
     ''expiresAt'', ''parent'', ''depth'', ''signature'']"

definition link_scope :: "jvalue \<Rightarrow> scopeEntry list option" where
  "link_scope v = do {
     scope \<leftarrow> exactObject v [''sources''];
     sourcesV \<leftarrow> obj_get scope ''sources'';
     sources \<leftarrow> (case sourcesV of VArray vs \<Rightarrow> Some vs | _ \<Rightarrow> None);
     require (sources \<noteq> [] \<and> length sources \<le> maxScopeEntries);
     entries \<leftarrow> option_list (map parseScopeEntry sources);
     require (increasing entryLess entries);
     Some entries }"

text \<open>The name and the digest of the parent, empty for a root.\<close>

definition link_parent :: "jvalue \<Rightarrow> int \<Rightarrow> (bytes \<times> bytes) option" where
  "link_parent v depth =
     (if v = VNull then do { require (depth = 0); Some ([], []) }
      else do {
        parent \<leftarrow> exactObject v [''id'', ''digest''];
        let i = string_of parent ''id'';
        let h = string_of parent ''digest'';
        require (isOpaqueID i \<and> isDigest h);
        require (depth \<noteq> 0);
        Some (i, h) })"

definition parseLink :: "crypto \<Rightarrow> members \<Rightarrow> delegationLink option" where
  "parseLink C obj = do {
     require (list_all (present obj) v1Members);
     i \<leftarrow> memberString obj ''id'';
     require (isOpaqueID i);
     host \<leftarrow> memberString obj ''host'';
     require (isFlatTokenString host);
     keyID \<leftarrow> memberString obj ''keyId'';
     require (isLowerHexOfLen keyID 32);
     subV \<leftarrow> obj_get obj ''sub'';
     sub \<leftarrow> parsePrincipalRef subV;
     actV \<leftarrow> obj_get obj ''act'';
     act \<leftarrow> exactObject actV [''agent'', ''software''];
     agent \<leftarrow> memberString act ''agent'';
     require (isOpaqueID agent);
     software \<leftarrow> obj_get act ''software'';
     require (validSoftware software);
     scopeV \<leftarrow> obj_get obj ''scope'';
     entries \<leftarrow> link_scope scopeV;
     may \<leftarrow> (case obj_get obj ''mayDelegate'' of Some (VBool b) \<Rightarrow> Some b | _ \<Rightarrow> None);
     issued \<leftarrow> Option.bind (memberString obj ''issuedAt'') delegation_instant;
     expires \<leftarrow> Option.bind (memberString obj ''expiresAt'') delegation_instant;
     require (issued < expires);
     require (expires - issued \<le> maxDelegationLifetime);
     depth \<leftarrow> (case obj_get obj ''depth'' of Some (VInt n) \<Rightarrow> Some n | _ \<Rightarrow> None);
     require (0 \<le> depth);
     parentV \<leftarrow> obj_get obj ''parent'';
     parent \<leftarrow> link_parent parentV depth;
     signature \<leftarrow> memberString obj ''signature'';
     require (isSignature3 signature);
     let canonical = canon (VObject obj);
     require (length canonical \<le> maxStatementBytes);
     Some \<lparr> dl_obj = obj, dl_id = i, dl_host = host, dl_keyID = keyID, dl_sub = sub, dl_agent = agent, dl_software = software,
            dl_entries = entries, dl_mayDelegate = may, dl_issuedAt = issued, dl_expiresAt = expires,
            dl_parentID = fst parent, dl_parentHash = snd parent, dl_depth = depth, dl_signature = signature,
            dl_canonical = canonical, dl_digest = digest_of C canonical \<rparr> }"

definition link_signingInput :: "delegationLink \<Rightarrow> bytes" where
  "link_signingInput l = delegationContext @ canon (VObject (filter (\<lambda>m. fst m \<noteq> ''signature'') (dl_obj l)))"

section \<open>Chains\<close>

record delegationChain =
  ch_links :: "delegationLink list"
  ch_canonical :: bytes

definition ch_root :: "delegationChain \<Rightarrow> delegationLink" where
  "ch_root c = hd (ch_links c)"

definition ch_leaf :: "delegationChain \<Rightarrow> delegationLink" where
  "ch_leaf c = last (ch_links c)"

definition ch_digests :: "delegationChain \<Rightarrow> jvalue list" where
  "ch_digests c = map (\<lambda>l. VString (dl_digest l)) (ch_links c)"

definition readOnly :: "delegationChain \<Rightarrow> bool" where
  "readOnly c =
     list_all (\<lambda>l. list_all (\<lambda>e. list_all (\<lambda>f. f \<noteq> ''propose'' \<and> f \<noteq> ''act'') (se_effects e)) (dl_entries l)) (ch_links c)"

text \<open>The keys pinned for each issuing host, by key identifier.\<close>

type_synonym delegationKeys = "bytes \<Rightarrow> bytes \<Rightarrow> bytes option"

definition link_signed :: "crypto \<Rightarrow> delegationKeys \<Rightarrow> delegationLink \<Rightarrow> bool" where
  "link_signed C keys l =
     (case (keys (dl_host l) (dl_keyID l), hex_decode (dl_signature l)) of
        (Some key, Some signature) \<Rightarrow> ed_verify C key (link_signingInput l) signature
      | _ \<Rightarrow> False)"

text \<open>Clauses 0 to 3 for a link and the one below it.\<close>

definition link_follows :: "delegationLink \<Rightarrow> delegationLink \<Rightarrow> bool" where
  "link_follows p c \<longleftrightarrow>
     dl_parentID c = dl_id p \<and> dl_parentHash c = dl_digest p \<and>
     dl_depth c = dl_depth p + 1 \<and> dl_depth c \<le> int maxDelegationDepth \<and> dl_host c = dl_host p"

definition entry_at :: "delegationLink \<Rightarrow> bytes \<Rightarrow> bytes \<Rightarrow> bytes \<Rightarrow> scopeEntry option" where
  "entry_at l kind name source =
     find (\<lambda>e. se_audienceKind e = kind \<and> se_audienceName e = name \<and> se_source e = source) (dl_entries l)"

definition entry_narrows :: "delegationLink \<Rightarrow> scopeEntry \<Rightarrow> bool" where
  "entry_narrows p e =
     (case entry_at p (se_audienceKind e) (se_audienceName e) (se_source e) of
        None \<Rightarrow> False
      | Some parent \<Rightarrow>
          list_all (\<lambda>t. t \<in> set (se_tools parent)) (se_tools e) \<and>
          list_all (\<lambda>f. f \<in> set (se_effects parent)) (se_effects e) \<and>
          list_all (\<lambda>(name, bound). case map_of (se_limits e) name of None \<Rightarrow> False | Some mine \<Rightarrow> mine \<le> bound)
            (se_limits parent))"

definition narrows :: "delegationLink \<Rightarrow> delegationLink \<Rightarrow> bool" where
  "narrows c p \<longleftrightarrow>
     dl_sub c = dl_sub p \<and> dl_issuedAt p \<le> dl_issuedAt c \<and> dl_expiresAt c \<le> dl_expiresAt p \<and>
     list_all (entry_narrows p) (dl_entries c) \<and> dl_mayDelegate p"

definition link_pairs :: "delegationLink list \<Rightarrow> (delegationLink \<times> delegationLink) list" where
  "link_pairs links = zip links (tl links)"

definition link_object :: "jvalue \<Rightarrow> members option" where
  "link_object v = do { obj \<leftarrow> requireObject v; _ \<leftarrow> memberString obj ''delegationVersion''; Some obj }"

text \<open>Steps 1 to 7, in order.\<close>

definition chain_of ::
  "crypto \<Rightarrow> delegationKeys \<Rightarrow> bytes \<Rightarrow> delegationLink list \<Rightarrow> delegationRefusal + delegationChain" where
  "chain_of C keys canonical links =
     (if \<not> list_all (\<lambda>l. keys (dl_host l) (dl_keyID l) \<noteq> None) links then Inl (refuse ''key-mismatch'')
      else if \<not> list_all (link_signed C keys) links then Inl (refuse ''signature-mismatch'')
      else if dl_parentID (hd links) \<noteq> [] \<or> dl_depth (hd links) \<noteq> 0 then Inl (refuse ''chain-broken'')
      else if \<not> list_all (\<lambda>(p, c). link_follows p c) (link_pairs links) then Inl (refuse ''chain-broken'')
      else if \<not> list_all (\<lambda>(p, c). narrows c p) (link_pairs links) then Inl (refuse ''widened'')
      else Inr \<lparr> ch_links = links, ch_canonical = canonical \<rparr>)"

definition verifyDelegationChain :: "crypto \<Rightarrow> jvalue \<Rightarrow> delegationKeys \<Rightarrow> delegationRefusal + delegationChain" where
  "verifyDelegationChain C chainV keys =
     (case chainV of
        VArray arr \<Rightarrow>
          if arr = [] \<or> length arr > maxDelegationDepth + 1 then Inl (refuse ''malformed'')
          else case option_list (map link_object arr) of
            None \<Rightarrow> Inl (refuse ''malformed'')
          | Some objs \<Rightarrow>
              if \<not> list_all (\<lambda>obj. string_of obj ''delegationVersion'' = ''1'') objs then Inl (refuse ''unsupported-version'')
              else case option_list (map (parseLink C) objs) of
                None \<Rightarrow> Inl (refuse ''malformed'')
              | Some links \<Rightarrow> chain_of C keys (canon chainV) links
      | _ \<Rightarrow> Inl (refuse ''malformed''))"

section \<open>What a chain admits\<close>

definition timeRefusal :: "delegationChain \<Rightarrow> int \<Rightarrow> delegationRefusal option" where
  "timeRefusal c t =
     (if \<not> list_all (\<lambda>l. dl_issuedAt l \<le> t) (ch_links c) then Some (refuse ''not-yet-valid'')
      else if \<not> list_all (\<lambda>l. t < dl_expiresAt l) (ch_links c) then Some (refuse ''expired'')
      else None)"

text \<open>The first failing reason of one link; the empty text for none.\<close>

definition link_reason :: "bytes \<Rightarrow> bytes \<Rightarrow> bytes \<Rightarrow> bytes \<Rightarrow> bool \<Rightarrow> delegationLink \<Rightarrow> bytes" where
  "link_reason audience source tool effect sourceToolOnly l =
     (case entry_at l ''gateway'' audience source of
        None \<Rightarrow> ''source''
      | Some entry \<Rightarrow>
          if tool = [] \<or> tool \<notin> set (se_tools entry) then ''tool''
          else if sourceToolOnly then []
          else if effect = [] \<or> effect \<notin> set (se_effects entry) then ''effect''
          else if list_ex (\<lambda>(name, _). name \<noteq> ''calls'') (se_limits entry) then ''limit-unknown''
          else [])"

definition scopeCheck :: "delegationChain \<Rightarrow> bytes \<Rightarrow> bytes \<Rightarrow> bytes \<Rightarrow> bytes \<Rightarrow> bool \<Rightarrow> delegationRefusal option" where
  "scopeCheck c audience source tool effect sourceToolOnly =
     map_option (\<lambda>reason. \<lparr> rf_name = ''out-of-scope'', rf_scopeReason = reason \<rparr>)
       (find (\<lambda>reason. reason \<noteq> []) (map (link_reason audience source tool effect sourceToolOnly) (ch_links c)))"

definition scopeRefusal :: "delegationChain \<Rightarrow> bytes \<Rightarrow> bytes \<Rightarrow> bytes \<Rightarrow> bytes \<Rightarrow> delegationRefusal option" where
  "scopeRefusal c audience source tool effect = scopeCheck c audience source tool effect False"

definition sourceToolRefusal :: "delegationChain \<Rightarrow> bytes \<Rightarrow> bytes \<Rightarrow> bytes \<Rightarrow> bool" where
  "sourceToolRefusal c audience source tool \<longleftrightarrow> scopeCheck c audience source tool [] True \<noteq> None"

section \<open>Lists of answers\<close>

lemma option_list_iff: "option_list xs = Some ys \<longleftrightarrow> xs = map Some ys"
proof (induction xs arbitrary: ys)
  case (Cons x xs)
  then show ?case by (cases x; cases ys) (auto simp: Option.bind_eq_Some_conv)
qed auto

end
