(* ===== verification/Tokens.thy ===== *)
theory Tokens
  imports Delegation Builder
begin

text \<open>
  Tokens (\<^verbatim>\<open>identity.go\<close>): the issuer's key set, a compact token held to it, and the
  base64url both are written in.  RSA and ECDSA over P-256 are not code of the repository: whether a
  signature verifies is an argument, the record \<open>jws\<close>.  An instant is as in \<open>Delegation\<close>.
\<close>

section \<open>base64url\<close>

definition b64_alphabet :: bytes where
  "b64_alphabet = ''ABCDEFGHIJKLMNOPQRSTUVWXYZabcdefghijklmnopqrstuvwxyz0123456789-_''"

definition b64_char :: "nat \<Rightarrow> char" where
  "b64_char n = b64_alphabet ! n"

definition b64_val :: "char \<Rightarrow> nat option" where
  "b64_val c = map_of (zip b64_alphabet [0..<64]) c"

text \<open>The values of six bits each that spell bytes, three bytes as four of them.\<close>

fun b64_split :: "nat list \<Rightarrow> nat list" where
  "b64_split [] = []"
| "b64_split [a] = [a div 4, a mod 4 * 16]"
| "b64_split [a, b] = [a div 4, a mod 4 * 16 + b div 16, b mod 16 * 4]"
| "b64_split (a # b # c # rest) =
     [a div 4, a mod 4 * 16 + b div 16, b mod 16 * 4 + c div 64, c mod 64] @ b64_split rest"

fun b64_join :: "nat list \<Rightarrow> nat list option" where
  "b64_join [] = Some []"
| "b64_join [a] = None"
| "b64_join [a, b] = (if b mod 16 \<noteq> 0 then None else Some [a * 4 + b div 16])"
| "b64_join [a, b, c] = (if c mod 4 \<noteq> 0 then None else Some [a * 4 + b div 16, b mod 16 * 16 + c div 4])"
| "b64_join (a # b # c # d # rest) =
     map_option (\<lambda>bs. [a * 4 + b div 16, b mod 16 * 16 + c div 4, c mod 4 * 64 + d] @ bs) (b64_join rest)"

definition b64_encode :: "bytes \<Rightarrow> bytes" where
  "b64_encode b = map b64_char (b64_split (map byte b))"

text \<open>The decoder passes over line breaks, as the library's does.\<close>

definition b64_decode :: "bytes \<Rightarrow> bytes option" where
  "b64_decode s = do {
     vs \<leftarrow> option_list (map b64_val (filter (\<lambda>c. c \<noteq> CHR 0x0A \<and> c \<noteq> CHR 0x0D) s));
     bs \<leftarrow> b64_join vs;
     Some (map char_of bs) }"

definition segment :: "bytes \<Rightarrow> bytes option" where
  "segment s = do { b \<leftarrow> b64_decode s; require (b64_encode b = s); Some b }"

section \<open>Members\<close>

text \<open>A member as a text, empty when it is absent; \<open>None\<close> when it is no text.\<close>

definition member_text :: "members \<Rightarrow> bytes \<Rightarrow> bytes option" where
  "member_text obj name =
     (case obj_get obj name of None \<Rightarrow> Some [] | Some (VString s) \<Rightarrow> Some s | Some _ \<Rightarrow> None)"

definition integerMember :: "members \<Rightarrow> bytes \<Rightarrow> int option option" where
  "integerMember obj name =
     (case obj_get obj name of None \<Rightarrow> Some None | Some (VInt n) \<Rightarrow> Some (Some n) | Some _ \<Rightarrow> None)"

definition stringsMember :: "members \<Rightarrow> bytes \<Rightarrow> bool \<Rightarrow> bytes list option option" where
  "stringsMember obj name oneAllowed =
     (case obj_get obj name of
        None \<Rightarrow> Some None
      | Some (VString s) \<Rightarrow> if oneAllowed then Some (Some [s]) else None
      | Some (VArray vs) \<Rightarrow> map_option Some (option_list (map stringOf vs))
      | Some _ \<Rightarrow> None)"

section \<open>Keys\<close>

datatype keyMaterial =
    RSAKey int int
  | ECKey int int
  | EdKey bytes

record jwsKey =
  jk_alg :: bytes
  jk_key :: keyMaterial

record jws =
  rsa_verify :: "int \<Rightarrow> int \<Rightarrow> bytes \<Rightarrow> bytes \<Rightarrow> bool"
  ec_verify :: "int \<Rightarrow> int \<Rightarrow> bytes \<Rightarrow> int \<Rightarrow> int \<Rightarrow> bool"

definition p256P :: int where
  "p256P = 2 ^ 256 - 2 ^ 224 + 2 ^ 192 + 2 ^ 96 - 1"

definition p256B :: int where
  "p256B = 0x5ac635d8aa3a93e7b3ebbd55769886bc651d06b0cc53b0f63bce3c3e27d2604b"

definition p256_on_curve :: "int \<Rightarrow> int \<Rightarrow> bool" where
  "p256_on_curve x y \<longleftrightarrow>
     0 \<le> x \<and> x < p256P \<and> 0 \<le> y \<and> y < p256P \<and> (y * y - (x * x * x - 3 * x + p256B)) mod p256P = 0"

definition maxRSAExponent :: int where
  "maxRSAExponent = 2 ^ 31 - 1"

text \<open>A coordinate, a modulus or an exponent, as its bytes.\<close>

definition key_part :: "members \<Rightarrow> bytes \<Rightarrow> bytes option" where
  "key_part jwk name = do { s \<leftarrow> member_text jwk name; require (s \<noteq> []); segment s }"

definition key_material :: "members \<Rightarrow> bytes \<Rightarrow> bytes \<Rightarrow> jwsKey option" where
  "key_material jwk kty crv =
     (if kty = ''RSA'' then do {
        n \<leftarrow> key_part jwk ''n'';
        e \<leftarrow> key_part jwk ''e'';
        let modulus = bytes_int 0 n;
        let exponent = bytes_int 0 e;
        require (2 ^ 2047 \<le> modulus);
        require (3 \<le> exponent \<and> exponent \<le> maxRSAExponent \<and> odd exponent);
        Some \<lparr> jk_alg = ''RS256'', jk_key = RSAKey modulus exponent \<rparr> }
      else if kty = ''EC'' then do {
        require (crv = ''P-256'');
        x \<leftarrow> key_part jwk ''x'';
        y \<leftarrow> key_part jwk ''y'';
        require (length x = 32 \<and> length y = 32);
        require (p256_on_curve (bytes_int 0 x) (bytes_int 0 y));
        Some \<lparr> jk_alg = ''ES256'', jk_key = ECKey (bytes_int 0 x) (bytes_int 0 y) \<rparr> }
      else if kty = ''OKP'' then do {
        require (crv = ''Ed25519'');
        x \<leftarrow> key_part jwk ''x'';
        require (length x = 32);
        Some \<lparr> jk_alg = ''EdDSA'', jk_key = EdKey x \<rparr> }
      else None)"

definition read_key :: "jvalue \<Rightarrow> (bytes \<times> jwsKey) list \<Rightarrow> (bytes \<times> jwsKey) option" where
  "read_key item keys = do {
     jwk \<leftarrow> requireObject item;
     kid \<leftarrow> member_text jwk ''kid'';
     require (kid \<noteq> []);
     require (map_of keys kid = None);
     use \<leftarrow> member_text jwk ''use'';
     require (use = [] \<or> use = ''sig'');
     ops \<leftarrow> stringsMember jwk ''key_ops'' False;
     require (case ops of None \<Rightarrow> True | Some names \<Rightarrow> ''verify'' \<in> set names);
     kty \<leftarrow> member_text jwk ''kty'';
     crv \<leftarrow> member_text jwk ''crv'';
     pk \<leftarrow> key_material jwk kty crv;
     alg \<leftarrow> member_text jwk ''alg'';
     require (alg = [] \<or> alg = jk_alg pk);
     Some (kid, pk) }"

fun read_keys :: "jvalue list \<Rightarrow> (bytes \<times> jwsKey) list \<Rightarrow> (bytes \<times> jwsKey) list option" where
  "read_keys [] keys = Some keys"
| "read_keys (item # items) keys = do { entry \<leftarrow> read_key item keys; read_keys items (keys @ [entry]) }"

definition parseKeySet :: "bytes \<Rightarrow> (bytes \<times> jwsKey) list option" where
  "parseKeySet data = do {
     keySet \<leftarrow> parse_object data;
     keysValue \<leftarrow> obj_get keySet ''keys'';
     items \<leftarrow> (case keysValue of VArray vs \<Rightarrow> Some vs | _ \<Rightarrow> None);
     require (items \<noteq> []);
     read_keys items [] }"

section \<open>Tokens\<close>

definition verifySignature :: "crypto \<Rightarrow> jws \<Rightarrow> jwsKey \<Rightarrow> bytes \<Rightarrow> bytes \<Rightarrow> bool" where
  "verifySignature C J key signed signature =
     (case jk_key key of
        RSAKey n e \<Rightarrow> rsa_verify J n e (sha256 C signed) signature
      | ECKey x y \<Rightarrow>
          length signature = 64 \<and>
          ec_verify J x y (sha256 C signed) (bytes_int 0 (take 32 signature)) (bytes_int 0 (drop 32 signature))
      | EdKey k \<Rightarrow> ed_verify C k signed signature)"

record identityConfig =
  ic_issuer :: bytes
  ic_audience :: bytes
  ic_keys :: "(bytes \<times> jwsKey) list"

definition tokenLeeway :: int where
  "tokenLeeway = 30 * second_ns"

definition maxTokenBytes :: nat where
  "maxTokenBytes = 8192"

text \<open>\<^verbatim>\<open>time.Unix\<close> of a number of seconds.\<close>

definition unix_instant :: "int \<Rightarrow> int" where
  "unix_instant n = (int (days_before_year 1970) * 86400 + n) * second_ns"

text \<open>A token that names another audience than the engine's is told apart, for it may be a submitter's.\<close>

datatype token_error = NotEngineAudience | TokenRefused

definition refused_token :: "'a option \<Rightarrow> token_error + 'a" where
  "refused_token x = (case x of None \<Rightarrow> Inl TokenRefused | Some y \<Rightarrow> Inr y)"

text \<open>The header, the key it names and the claims, once the signature verifies.\<close>

definition token_claims :: "crypto \<Rightarrow> jws \<Rightarrow> bytes \<Rightarrow> identityConfig \<Rightarrow> members option" where
  "token_claims C J token cfg = do {
     require (length token \<le> maxTokenBytes);
     let parts = split_on CHR ''.'' token;
     require (length parts = 3);
     headerBytes \<leftarrow> segment (parts ! 0);
     header \<leftarrow> parse_object headerBytes;
     require (obj_get header ''crit'' = None);
     alg \<leftarrow> member_text header ''alg'';
     kid \<leftarrow> member_text header ''kid'';
     require (kid \<noteq> []);
     key \<leftarrow> map_of (ic_keys cfg) kid;
     require (alg = jk_alg key);
     signature \<leftarrow> segment (parts ! 2);
     require (verifySignature C J key (parts ! 0 @ ''.'' @ parts ! 1) signature);
     payload \<leftarrow> segment (parts ! 1);
     parse_object payload }"

text \<open>What the claims say once the issuer and the audience are the ones asked for.\<close>

definition token_subject :: "members \<Rightarrow> int \<Rightarrow> bytes option" where
  "token_subject claims now = do {
     subject \<leftarrow> member_text claims ''sub'';
     require (subject \<noteq> []);
     expiry \<leftarrow> integerMember claims ''exp'';
     expires \<leftarrow> expiry;
     require (now < unix_instant expires + tokenLeeway);
     start \<leftarrow> integerMember claims ''nbf'';
     require (case start of None \<Rightarrow> True | Some notBefore \<Rightarrow> unix_instant notBefore \<le> now + tokenLeeway);
     Some subject }"

definition verifyTokenFor ::
  "crypto \<Rightarrow> jws \<Rightarrow> bytes \<Rightarrow> identityConfig \<Rightarrow> bytes \<Rightarrow> int \<Rightarrow> token_error + caller \<times> bytes list" where
  "verifyTokenFor C J token cfg audience now =
     (case do {
        claims \<leftarrow> token_claims C J token cfg;
        issuer \<leftarrow> member_text claims ''iss'';
        require (issuer = ic_issuer cfg);
        named \<leftarrow> stringsMember claims ''aud'' True;
        Some (claims, case named of None \<Rightarrow> [] | Some names \<Rightarrow> names) } of
      None \<Rightarrow> Inl TokenRefused
    | Some (claims, audiences) \<Rightarrow>
        if audience \<notin> set audiences then Inl (if audience = ic_audience cfg then NotEngineAudience else TokenRefused)
        else refused_token (map_option (\<lambda>subject.
               (\<lparr> cl_issuer = ic_issuer cfg, cl_subject = subject, cl_tokenDigest = digest_of C token \<rparr>, audiences))
             (token_subject claims now)))"

definition verifyToken :: "crypto \<Rightarrow> jws \<Rightarrow> bytes \<Rightarrow> identityConfig \<Rightarrow> int \<Rightarrow> token_error + caller \<times> bytes list" where
  "verifyToken C J token cfg now = verifyTokenFor C J token cfg (ic_audience cfg) now"

section \<open>A segment has one spelling\<close>

lemma length_b64_alphabet: "length b64_alphabet = 64"
  by code_simp

lemma distinct_b64_alphabet: "distinct b64_alphabet"
  by (simp add: b64_alphabet_def)

lemma b64_val_char: "n < 64 \<Longrightarrow> b64_val (b64_char n) = Some n"
  using map_of_zip_nth [of b64_alphabet "[0..<64]" n] length_b64_alphabet distinct_b64_alphabet
  by (simp add: b64_val_def b64_char_def)

lemma b64_char_other:
  assumes "n < 64"
  shows "b64_char n \<noteq> CHR 0x0A" and "b64_char n \<noteq> CHR 0x0D" and "b64_char n \<noteq> CHR ''.''"
proof -
  have "b64_char n \<in> set b64_alphabet" using assms length_b64_alphabet by (simp add: b64_char_def)
  then show "b64_char n \<noteq> CHR 0x0A" and "b64_char n \<noteq> CHR 0x0D" and "b64_char n \<noteq> CHR ''.''"
    by (auto simp: b64_alphabet_def)
qed

lemma b64_split_bound: "\<forall>b \<in> set bs. b < 256 \<Longrightarrow> \<forall>v \<in> set (b64_split bs). v < 64"
  by (induction bs rule: b64_split.induct) auto

lemma high_bits:
  assumes "(b :: nat) < 256"
  shows "b div 16 div 16 = 0" "b div 64 div 4 = 0" "b div 16 mod 16 = b div 16" "b div 64 mod 4 = b div 64"
proof -
  from assms have "b div 16 < 16" "b div 64 < 4" by simp_all
  then show "b div 16 div 16 = 0" "b div 64 div 4 = 0" "b div 16 mod 16 = b div 16" "b div 64 mod 4 = b div 64"
    by simp_all
qed

lemma b64_join_split: "\<forall>b \<in> set bs. b < 256 \<Longrightarrow> b64_join (b64_split bs) = Some bs"
  by (induction bs rule: b64_split.induct) (simp_all add: high_bits)

lemma b64_decode_encode: "b64_decode (b64_encode b) = Some b"
proof -
  let ?vs = "b64_split (map byte b)"
  have small: "v < 64" if "v \<in> set ?vs" for v
    using b64_split_bound [of "map byte b"] that by (auto simp: byte_less_256)
  have "filter (\<lambda>c. c \<noteq> CHR 0x0A \<and> c \<noteq> CHR 0x0D) (b64_encode b) = b64_encode b"
    unfolding filter_id_conv b64_encode_def using small b64_char_other by auto
  moreover have "option_list (map b64_val (b64_encode b)) = Some ?vs"
    using small b64_val_char by (auto simp: b64_encode_def option_list_iff)
  moreover have "b64_join ?vs = Some (map byte b)" by (rule b64_join_split) (auto simp: byte_less_256)
  ultimately show ?thesis by (simp add: b64_decode_def o_def)
qed

lemma b64_encode_no_dot: "CHR ''.'' \<notin> set (b64_encode b)"
proof -
  have "v < 64" if "v \<in> set (b64_split (map byte b))" for v
    using b64_split_bound [of "map byte b"] that by (auto simp: byte_less_256)
  with b64_char_other(3) show ?thesis by (fastforce simp: b64_encode_def)
qed

lemma segment_iff: "segment s = Some b \<longleftrightarrow> s = b64_encode b"
  by (auto simp: segment_def Option.bind_eq_Some_conv b64_decode_encode)

end
