(* ===== verification/Delegation_Chain.thy ===== *)
theory Delegation_Chain
  imports Delegation
begin

text \<open>
  What a verified chain establishes: every link is signed under a key pinned for the one issuing host, and
  is bounded by each link above it, so that the last link decides what the chain admits.
\<close>

section \<open>Adjacent links\<close>

lemma link_pairs_all:
  "list_all (\<lambda>(p, c). R p c) (link_pairs links) \<longleftrightarrow> (\<forall>k. Suc k < length links \<longrightarrow> R (links ! k) (links ! Suc k))"
  by (auto simp: link_pairs_def list_all_length nth_tl)

text \<open>A relation of adjacent links that is a preorder relates every link to those below it.\<close>

lemma adjacent_chain:
  assumes adjacent: "\<And>k. Suc k < length links \<Longrightarrow> R (links ! Suc k) (links ! k)"
    and "\<And>l. R l l" and trans: "\<And>a b c. R a b \<Longrightarrow> R b c \<Longrightarrow> R a c"
    and "j < length links" and "i \<le> j"
  shows "R (links ! j) (links ! i)"
  using assms(4,5)
proof (induction j)
  case (Suc j)
  show ?case
  proof (cases "i = Suc j")
    case False
    with Suc have "R (links ! j) (links ! i)" by simp
    with adjacent [of j] Suc.prems(1) trans show ?thesis by blast
  qed (simp add: assms(2))
qed (simp add: assms(2))

section \<open>What is verified\<close>

lemma verified_chain:
  assumes "verifyDelegationChain C v keys = Inr c"
  obtains arr where "v = VArray arr" "ch_canonical c = canon v" "ch_links c \<noteq> []" "length (ch_links c) \<le> maxDelegationDepth + 1"
    "\<And>l. l \<in> set (ch_links c) \<Longrightarrow> \<exists>obj. parseLink C obj = Some l"
    "\<And>l. l \<in> set (ch_links c) \<Longrightarrow> link_signed C keys l"
    "dl_parentID (ch_root c) = []" "dl_depth (ch_root c) = 0"
    "\<And>k. Suc k < length (ch_links c) \<Longrightarrow> link_follows (ch_links c ! k) (ch_links c ! Suc k)"
    "\<And>k. Suc k < length (ch_links c) \<Longrightarrow> narrows (ch_links c ! Suc k) (ch_links c ! k)"
proof -
  obtain arr where v: "v = VArray arr" using assms by (cases v) (simp_all add: verifyDelegationChain_def)
  with assms obtain objs links where size: "arr \<noteq> []" "length arr \<le> maxDelegationDepth + 1"
    and parsed: "option_list (map link_object arr) = Some objs" "option_list (map (parseLink C) objs) = Some links"
    and chain: "chain_of C keys (canon v) links = Inr c"
    by (auto simp: verifyDelegationChain_def not_less split: if_splits option.splits)
  have lengths: "length links = length arr" and all: "l \<in> set links \<Longrightarrow> \<exists>obj. parseLink C obj = Some l" for l
  proof -
    from parsed have maps: "map link_object arr = map Some objs" "map (parseLink C) objs = map Some links"
      by (simp_all add: option_list_iff)
    from maps [THEN arg_cong, of length] show "length links = length arr" by simp
    assume "l \<in> set links"
    then have "Some l \<in> set (map (parseLink C) objs)" using maps(2) by simp
    then show "\<exists>obj. parseLink C obj = Some l" by (auto simp: eq_commute [of "Some l"])
  qed
  from chain have c: "ch_links c = links" "ch_canonical c = canon v" "list_all (link_signed C keys) links"
    "dl_parentID (hd links) = []" "dl_depth (hd links) = 0"
    "list_all (\<lambda>(p, c). link_follows p c) (link_pairs links)" "list_all (\<lambda>(p, c). narrows c p) (link_pairs links)"
    by (auto simp: chain_of_def split: if_splits)
  show thesis
  proof (rule that [OF v c(2)])
    show "ch_links c \<noteq> []" using c(1) lengths size by auto
    show "length (ch_links c) \<le> maxDelegationDepth + 1" using c(1) lengths size by simp
    show "\<exists>obj. parseLink C obj = Some l" if "l \<in> set (ch_links c)" for l using that c(1) all by simp
    show "link_signed C keys l" if "l \<in> set (ch_links c)" for l using that c(1,3) by (simp add: list_all_iff)
    show "dl_parentID (ch_root c) = []" "dl_depth (ch_root c) = 0" using c by (simp_all add: ch_root_def)
    show "link_follows (ch_links c ! k) (ch_links c ! Suc k)" "narrows (ch_links c ! Suc k) (ch_links c ! k)"
      if "Suc k < length (ch_links c)" for k
      using that c by (simp_all add: link_pairs_all)
  qed
qed

section \<open>What a link admits, the links above it admit\<close>

text \<open>What an entry admits is within what another does: its tools, its effects, and its bounds.\<close>

definition entry_within :: "scopeEntry \<Rightarrow> scopeEntry \<Rightarrow> bool" where
  "entry_within e p \<longleftrightarrow>
     set (se_tools e) \<subseteq> set (se_tools p) \<and> set (se_effects e) \<subseteq> set (se_effects p) \<and>
     (\<forall>n bound. map_of (se_limits p) n = Some bound \<longrightarrow> (\<exists>mine \<le> bound. map_of (se_limits e) n = Some mine))"

definition link_within :: "delegationLink \<Rightarrow> delegationLink \<Rightarrow> bool" where
  "link_within l p \<longleftrightarrow>
     dl_host l = dl_host p \<and> dl_sub l = dl_sub p \<and> dl_issuedAt p \<le> dl_issuedAt l \<and> dl_expiresAt l \<le> dl_expiresAt p \<and>
     (\<forall>kind name source e. entry_at l kind name source = Some e \<longrightarrow>
        (\<exists>e'. entry_at p kind name source = Some e' \<and> entry_within e e'))"

lemma entry_within_trans: "entry_within a b \<Longrightarrow> entry_within b c \<Longrightarrow> entry_within a c"
  unfolding entry_within_def by (meson order_trans)

lemma entry_within_refl: "entry_within e e"
  unfolding entry_within_def by blast

lemma link_within_refl: "link_within l l"
  by (simp add: link_within_def entry_within_refl)

lemma link_within_trans:
  assumes "link_within a b" and "link_within b c"
  shows "link_within a c"
proof -
  have "\<exists>e'. entry_at c kind name source = Some e' \<and> entry_within e e'"
    if at: "entry_at a kind name source = Some e" for kind name source e
  proof -
    from assms(1) at obtain e' where "entry_at b kind name source = Some e'" "entry_within e e'"
      unfolding link_within_def by blast
    with assms(2) entry_within_trans show ?thesis unfolding link_within_def by blast
  qed
  moreover have "dl_host a = dl_host c" "dl_sub a = dl_sub c" "dl_issuedAt c \<le> dl_issuedAt a" "dl_expiresAt a \<le> dl_expiresAt c"
    using assms by (auto simp: link_within_def)
  ultimately show ?thesis unfolding link_within_def by blast
qed

lemma entry_atD:
  assumes "entry_at l kind name source = Some e"
  shows "e \<in> set (dl_entries l)" "se_audienceKind e = kind" "se_audienceName e = name" "se_source e = source"
  using assms by (auto simp: entry_at_def find_Some_iff)

lemma narrows_within:
  assumes "narrows c p" and "dl_host c = dl_host p"
  shows "link_within c p"
proof -
  have "\<exists>e'. entry_at p kind name source = Some e' \<and> entry_within e e'"
    if at: "entry_at c kind name source = Some e" for kind name source e
  proof -
    note e = entry_atD [OF at]
    from assms(1) e(1) have "entry_narrows p e" by (simp add: narrows_def list_all_iff)
    then obtain e' where e': "entry_at p kind name source = Some e'"
      "\<forall>t \<in> set (se_tools e). t \<in> set (se_tools e')" "\<forall>f \<in> set (se_effects e). f \<in> set (se_effects e')"
      "\<forall>(n, bound) \<in> set (se_limits e'). case map_of (se_limits e) n of None \<Rightarrow> False | Some mine \<Rightarrow> mine \<le> bound"
      unfolding entry_narrows_def e(2-4) by (auto simp: list_all_iff split: option.splits)
    have "\<exists>mine \<le> bound. map_of (se_limits e) n = Some mine" if "map_of (se_limits e') n = Some bound" for n bound
      using e'(4) map_of_SomeD [OF that] by (cases "map_of (se_limits e) n") auto
    with e' show ?thesis by (auto simp: entry_within_def)
  qed
  with assms show ?thesis by (simp add: link_within_def narrows_def)
qed

lemma chain_within:
  assumes "verifyDelegationChain C v keys = Inr c" and "j < length (ch_links c)" and "i \<le> j"
  shows "link_within (ch_links c ! j) (ch_links c ! i)"
proof (rule verified_chain [OF assms(1)])
  assume follows: "\<And>k. Suc k < length (ch_links c) \<Longrightarrow> link_follows (ch_links c ! k) (ch_links c ! Suc k)"
    and narrow: "\<And>k. Suc k < length (ch_links c) \<Longrightarrow> narrows (ch_links c ! Suc k) (ch_links c ! k)"
  have "link_within (ch_links c ! Suc k) (ch_links c ! k)" if "Suc k < length (ch_links c)" for k
    using narrows_within [OF narrow [OF that]] follows [OF that] by (simp add: link_follows_def)
  then show ?thesis by (rule adjacent_chain) (use assms(2,3) link_within_refl link_within_trans in auto)
qed

lemma leaf_within:
  assumes "verifyDelegationChain C v keys = Inr c" and "l \<in> set (ch_links c)"
  shows "link_within (ch_leaf c) l"
proof -
  from assms(2) obtain i where i: "i < length (ch_links c)" "l = ch_links c ! i" by (auto simp: in_set_conv_nth)
  from i(1) have "i \<le> length (ch_links c) - 1" "length (ch_links c) - 1 < length (ch_links c)" by auto
  from chain_within [OF assms(1) this(2,1)] i show ?thesis
    by (metis ch_leaf_def last_conv_nth length_0_conv not_less_zero)
qed

lemma leaf_member: "verifyDelegationChain C v keys = Inr c \<Longrightarrow> ch_leaf c \<in> set (ch_links c)"
  by (rule verified_chain, assumption) (simp_all add: ch_leaf_def last_in_set)

text \<open>A link with nothing against a call has nothing against it in a link above.\<close>

lemma reason_within:
  assumes within: "link_within l p" and l: "link_reason audience source tool effect only l = []"
  shows "link_reason audience source tool effect only p = []"
proof -
  from l obtain e where e: "entry_at l ''gateway'' audience source = Some e" "tool \<noteq> []" "tool \<in> set (se_tools e)"
    and rest: "only \<or> effect \<noteq> [] \<and> effect \<in> set (se_effects e) \<and> \<not> list_ex (\<lambda>(n, _). n \<noteq> ''calls'') (se_limits e)"
    by (auto simp: link_reason_def split: option.splits if_splits)
  from within e(1) obtain e' where e': "entry_at p ''gateway'' audience source = Some e'" "entry_within e e'"
    unfolding link_within_def by blast
  have names: "n \<in> fst ` set (se_limits e)" if "n \<in> fst ` set (se_limits e')" for n
  proof -
    from that obtain bound where "map_of (se_limits e') n = Some bound" by (metis domD dom_map_of_conv_image_fst)
    with e'(2) obtain mine where "map_of (se_limits e) n = Some mine" unfolding entry_within_def by blast
    then show ?thesis by (metis domI dom_map_of_conv_image_fst)
  qed
  have "\<not> list_ex (\<lambda>(n, _). n \<noteq> ''calls'') (se_limits e')" if known: "\<not> list_ex (\<lambda>(n, _). n \<noteq> ''calls'') (se_limits e)"
  proof
    assume "list_ex (\<lambda>(n, _). n \<noteq> ''calls'') (se_limits e')"
    then obtain n where "n \<in> fst ` set (se_limits e')" "n \<noteq> ''calls''" by (force simp: list_ex_iff)
    with names [of n] known show False by (auto simp: list_ex_iff)
  qed
  moreover have "set (se_effects e) \<subseteq> set (se_effects e')" using e'(2) by (simp add: entry_within_def)
  ultimately have "only \<or> effect \<noteq> [] \<and> effect \<in> set (se_effects e') \<and> \<not> list_ex (\<lambda>(n, _). n \<noteq> ''calls'') (se_limits e')"
    using rest by auto
  moreover have "tool \<in> set (se_tools e')" using e(3) e'(2) unfolding entry_within_def by blast
  ultimately show ?thesis using e(2) e'(1) by (auto simp: link_reason_def)
qed

lemma scopeCheck_None:
  "scopeCheck c audience source tool effect only = None \<longleftrightarrow>
     (\<forall>l \<in> set (ch_links c). link_reason audience source tool effect only l = [])"
  by (auto simp: scopeCheck_def find_None_iff)

lemma scope_leaf:
  assumes "verifyDelegationChain C v keys = Inr c"
  shows "scopeCheck c audience source tool effect only = None \<longleftrightarrow> link_reason audience source tool effect only (ch_leaf c) = []"
  unfolding scopeCheck_None using reason_within leaf_within [OF assms] leaf_member [OF assms] by blast

lemma time_leaf:
  assumes "verifyDelegationChain C v keys = Inr c"
  shows "timeRefusal c t = None \<longleftrightarrow> dl_issuedAt (ch_leaf c) \<le> t \<and> t < dl_expiresAt (ch_leaf c)"
proof -
  have "dl_issuedAt l \<le> dl_issuedAt (ch_leaf c) \<and> dl_expiresAt (ch_leaf c) \<le> dl_expiresAt l" if "l \<in> set (ch_links c)" for l
    using leaf_within [OF assms that] by (simp add: link_within_def)
  with leaf_member [OF assms] show ?thesis
    by (auto simp: timeRefusal_def list_all_iff split: if_splits) fastforce+
qed

text \<open>Depths count the links, and every link but the last permits one below it.\<close>

lemma chain_depth:
  assumes "verifyDelegationChain C v keys = Inr c" and "i < length (ch_links c)"
  shows "dl_depth (ch_links c ! i) = int i"
proof (rule verified_chain [OF assms(1)])
  assume root: "ch_links c \<noteq> []" "dl_depth (ch_root c) = 0"
    and follows: "\<And>k. Suc k < length (ch_links c) \<Longrightarrow> link_follows (ch_links c ! k) (ch_links c ! Suc k)"
  show ?thesis using assms(2)
  proof (induction i)
    case 0
    with root show ?case by (simp add: ch_root_def hd_conv_nth)
  next
    case (Suc i)
    with follows [of i] show ?case by (simp add: link_follows_def)
  qed
qed

end
