(* ===== verification/Delegation_Service.thy ===== *)
theory Delegation_Service
  imports Tokens Delegation_Chain Policy
begin

text \<open>
  The gateway as it enforces delegations (\<^verbatim>\<open>delegation_credential.go\<close>, \<^verbatim>\<open>delegation_admission.go\<close>): the
  credentials an issuing host binds and revokes, the proofs of possession they are presented with, and the
  admission of a delegated call.  Each definition is what a handler does under the lock of the
  service; what an issuing host answers to a read is the argument \<open>post\<close>, and the random bytes of a
  credential are an argument too.  Go compares the credentials of its map by their addresses, so
  each carries the number it was allocated under.  A clock is read as an instant of \<open>Delegation\<close>.
\<close>

section \<open>State\<close>

record delegationHost =
  dh_host :: bytes
  dh_requester :: bytes
  dh_keys :: "bytes \<Rightarrow> bytes option"

record boundCredential =
  bc_serial :: nat
  bc_digest :: bytes
  bc_host :: bytes
  bc_chain :: delegationChain
  bc_software :: bytes
  bc_jkt :: bytes
  bc_expires :: int

record delegationService =
  ds_audience :: bytes
  ds_hosts :: "(bytes \<times> delegationHost) list"
  ds_operators :: "bytes list"
  ds_bearerReadOnly :: bool
  ds_credentials :: "(bytes \<times> boundCredential) list"
  ds_proofs :: "(bytes \<times> int) list"
  ds_allocated :: nat

definition newDelegationService ::
  "bytes \<Rightarrow> (bytes \<times> delegationHost) list \<Rightarrow> bytes list \<Rightarrow> bool \<Rightarrow> delegationService" where
  "newDelegationService audience hosts operators bearerReadOnly =
     \<lparr> ds_audience = audience, ds_hosts = hosts, ds_operators = operators, ds_bearerReadOnly = bearerReadOnly,
       ds_credentials = [], ds_proofs = [], ds_allocated = 0 \<rparr>"

definition service_keys :: "delegationService \<Rightarrow> delegationKeys" where
  "service_keys d host = (case map_of (ds_hosts d) host of None \<Rightarrow> (\<lambda>_. None) | Some h \<Rightarrow> dh_keys h)"

definition hostOf :: "delegationService \<Rightarrow> caller \<Rightarrow> bool \<Rightarrow> delegationHost option" where
  "hostOf d who delegated = (if delegated then None else find (\<lambda>h. dh_requester h = cl_subject who) (map snd (ds_hosts d)))"

definition credentialPrefix :: bytes where
  "credentialPrefix = ''jpd1_''"

definition credentialLifetime :: int where
  "credentialLifetime = 300 * second_ns"

definition maxLiveCredentials :: nat where
  "maxLiveCredentials = 4096"

definition maxProofsRemembered :: nat where
  "maxProofsRemembered = 65536"

definition proofWindow :: int where
  "proofWindow = 60 * second_ns"

definition maxProofJTI :: nat where
  "maxProofJTI = 256"

definition maxProofSize :: nat where
  "maxProofSize = 8192"

definition pruned :: "int \<Rightarrow> delegationService \<Rightarrow> delegationService" where
  "pruned t d =
     d\<lparr> ds_credentials := filter (\<lambda>(_, c). t < bc_expires c) (ds_credentials d),
        ds_proofs := filter (\<lambda>(_, until). t \<le> until) (ds_proofs d) \<rparr>"

section \<open>What an issuing host answers\<close>

record delegatedCall =
  ca_source :: bytes
  ca_tool :: bytes
  ca_effect :: bytes
  ca_count :: bool

definition readBody :: "delegationService \<Rightarrow> delegationHost \<Rightarrow> members" where
  "readBody d host =
     (let body = obj_set [] ''readVersion'' (VString ''1'');
          body = obj_set body ''host'' (VString (dh_host host));
          a = obj_set (obj_set [] ''kind'' (VString ''gateway'')) ''name'' (VString (ds_audience d))
      in obj_set body ''audience'' (VObject a))"

definition call_value :: "delegatedCall \<Rightarrow> members" where
  "call_value call =
     obj_set (obj_set (obj_set (obj_set [] ''source'' (VString (ca_source call))) ''tool'' (VString (ca_tool call)))
       ''effect'' (VString (ca_effect call))) ''count'' (VBool (ca_count call))"

definition admission_body :: "delegationService \<Rightarrow> delegationHost \<Rightarrow> delegationChain \<Rightarrow> delegatedCall option \<Rightarrow> int \<Rightarrow> members" where
  "admission_body d host chain call t =
     (let body = obj_set (readBody d host) ''chain'' (VArray (ch_digests chain));
          body = obj_set body ''call'' (case call of None \<Rightarrow> VNull | Some c \<Rightarrow> VObject (call_value c))
      in obj_set body ''at'' (VString (delegationTime t)))"

definition hostRefusals :: "bytes list" where
  "hostRefusals = [''expired'', ''agent-unregistered'', ''software-mismatch'', ''not-issued'', ''revoked'', ''subject-mismatch'',
     ''subject-unauthorized'']"

definition beforeScope :: "bytes list" where
  "beforeScope = [''expired'', ''agent-unregistered'', ''software-mismatch'', ''not-issued'', ''revoked'']"

definition scopeReasons :: "bytes list" where
  "scopeReasons = [''source'', ''tool'', ''effect'', ''limit-unknown'', ''limit'']"

text \<open>What an answer says of a read that names a call, or none; \<open>None\<close> admits.\<close>

definition admission_verdict :: "members option \<Rightarrow> bool \<Rightarrow> delegationRefusal option" where
  "admission_verdict answer named =
     (case answer of
        None \<Rightarrow> Some (refuse ''admission-unknown'')
      | Some a \<Rightarrow>
          (let verdict = string_of a ''admission''; refusal = string_of a ''refusal''; reason = string_of a ''reason'' in
           if verdict = ''admit'' \<and> length a = 1 then None
           else if verdict \<noteq> ''refuse'' then Some (refuse ''admission-unknown'')
           else if refusal = ''out-of-scope'' \<and> named then
             (if length a \<noteq> 3 \<or> reason \<notin> set scopeReasons then Some (refuse ''admission-unknown'')
              else Some \<lparr> rf_name = ''out-of-scope'', rf_scopeReason = reason \<rparr>)
           else if length a \<noteq> 2 \<or> refusal \<notin> set hostRefusals then Some (refuse ''admission-unknown'')
           else Some (refuse refusal)))"

type_synonym hostAnswers = "delegationHost \<Rightarrow> members \<Rightarrow> members option"

definition admissionReadAt ::
  "hostAnswers \<Rightarrow> delegationService \<Rightarrow> delegationHost \<Rightarrow> delegationChain \<Rightarrow> delegatedCall option \<Rightarrow> int \<Rightarrow>
    delegationRefusal option" where
  "admissionReadAt post d host chain call t =
     admission_verdict (post host (admission_body d host chain call t)) (call \<noteq> None)"

datatype standing = Current | Removed | StandingUnknown

definition standingRead :: "hostAnswers \<Rightarrow> delegationService \<Rightarrow> delegationHost \<Rightarrow> principalRef \<Rightarrow> standing" where
  "standingRead post d host sub =
     (case post host (obj_set (readBody d host) ''standing'' (VObject (principal_value sub))) of
        None \<Rightarrow> StandingUnknown
      | Some a \<Rightarrow>
          if length a \<noteq> 1 then StandingUnknown
          else if string_of a ''standing'' = ''current'' then Current
          else if string_of a ''standing'' = ''removed'' then Removed else StandingUnknown)"

section \<open>Binding a credential\<close>

definition proof_part :: "members \<Rightarrow> bytes \<Rightarrow> bytes option" where
  "proof_part obj name = do { s \<leftarrow> memberString obj name; b \<leftarrow> segment s; require (length b = 32); Some b }"

text \<open>The thumbprint covers the members named.\<close>

definition thumbprint :: "crypto \<Rightarrow> members \<Rightarrow> bytes list \<Rightarrow> bytes" where
  "thumbprint C obj names =
     b64_encode (sha256 C (canon (VObject (fold (\<lambda>m thumb. obj_set thumb m (VString (string_of obj m))) names []))))"

definition proofKey :: "crypto \<Rightarrow> jvalue \<Rightarrow> (jwsKey \<times> bytes) option" where
  "proofKey C v = do {
     obj \<leftarrow> requireObject v;
     require (obj_get obj ''d'' = None);
     let kty = string_of obj ''kty'';
     let crv = string_of obj ''crv'';
     (if kty = ''OKP'' \<and> crv = ''Ed25519'' then do {
        x \<leftarrow> proof_part obj ''x'';
        require (unusableSigningKey x = []);
        Some (\<lparr> jk_alg = ''EdDSA'', jk_key = EdKey x \<rparr>, thumbprint C obj [''crv'', ''kty'', ''x'']) }
      else if kty = ''EC'' \<and> crv = ''P-256'' then do {
        x \<leftarrow> proof_part obj ''x'';
        y \<leftarrow> proof_part obj ''y'';
        require (p256_on_curve (bytes_int 0 x) (bytes_int 0 y));
        Some (\<lparr> jk_alg = ''ES256'', jk_key = ECKey (bytes_int 0 x) (bytes_int 0 y) \<rparr>,
              thumbprint C obj [''crv'', ''kty'', ''x'', ''y'']) }
      else None) }"

datatype bind_error = BindRefused delegationRefusal | BindUnavailable

record boundAnswer =
  ba_credential :: bytes
  ba_tokenType :: bytes
  ba_expiresAt :: bytes
  ba_id :: bytes
  ba_chain :: "jvalue list"

text \<open>The members of the request, as the bytes they are written in.\<close>

record bindRequest =
  br_chain :: "bytes option"
  br_software :: "bytes option"
  br_key :: "bytes option"

definition or_refused :: "bytes \<Rightarrow> 'a option \<Rightarrow> bind_error + 'a" where
  "or_refused name x = (case x of None \<Rightarrow> Inl (BindRefused (refuse name)) | Some y \<Rightarrow> Inr y)"

definition parsed_within :: "bytes option \<Rightarrow> nat \<Rightarrow> jvalue option" where
  "parsed_within raw n = do { data \<leftarrow> raw; case parseJSONWithin data n of Inr v \<Rightarrow> Some v | Inl _ \<Rightarrow> None }"

text \<open>The chain and the software, and the thumbprint of the key, empty for a bearer credential.\<close>

definition bind_given ::
  "crypto \<Rightarrow> delegationService \<Rightarrow> delegationHost \<Rightarrow> bindRequest \<Rightarrow> bind_error + delegationChain \<times> jvalue \<times> bytes" where
  "bind_given C d host body =
     (case parsed_within (br_chain body) maxArgumentValues of
        None \<Rightarrow> Inl (BindRefused (refuse ''malformed''))
      | Some chainV \<Rightarrow>
          (case verifyDelegationChain C chainV (service_keys d) of
             Inl r \<Rightarrow> Inl (BindRefused r)
           | Inr chain \<Rightarrow>
               if dl_host (ch_root chain) \<noteq> dh_host host then Inl (BindRefused (refuse ''host-unauthenticated''))
               else or_refused ''malformed'' (do {
                 software \<leftarrow> parsed_within (br_software body) 64;
                 require (validSoftware software);
                 key \<leftarrow> br_key body;
                 jkt \<leftarrow> (if key = ''null'' then Some []
                        else do { keyV \<leftarrow> parsed_within (Some key) 64; (_, thumb) \<leftarrow> proofKey C keyV; Some thumb });
                 Some (chain, software, jkt) })))"

definition bind_refusal ::
  "hostAnswers \<Rightarrow> delegationService \<Rightarrow> delegationHost \<Rightarrow> delegationChain \<Rightarrow> jvalue \<Rightarrow> bytes \<Rightarrow> int \<Rightarrow> delegationRefusal option" where
  "bind_refusal post d host chain software jkt t =
     (case timeRefusal chain t of
        Some r \<Rightarrow> Some r
      | None \<Rightarrow>
          if canon (dl_software (ch_leaf chain)) \<noteq> canon software then Some (refuse ''software-mismatch'')
          else case admissionReadAt post d host chain None t of
            Some r \<Rightarrow> Some r
          | None \<Rightarrow>
              if jkt = [] \<and> \<not> (ds_bearerReadOnly d \<and> readOnly chain) then Some (refuse ''sender-constraint-required'')
              else None)"

definition new_credential ::
  "crypto \<Rightarrow> delegationService \<Rightarrow> delegationHost \<Rightarrow> delegationChain \<Rightarrow> jvalue \<Rightarrow> bytes \<Rightarrow> int \<Rightarrow> bytes \<Rightarrow> boundCredential" where
  "new_credential C d host chain software jkt t token =
     \<lparr> bc_serial = ds_allocated d, bc_digest = digest_of C token, bc_host = dh_host host, bc_chain = chain,
       bc_software = canon software, bc_jkt = jkt,
       bc_expires = min (t + credentialLifetime) (dl_expiresAt (ch_leaf chain)) \<rparr>"

definition keep_credential :: "boundCredential \<Rightarrow> delegationService \<Rightarrow> delegationService" where
  "keep_credential c d =
     d\<lparr> ds_credentials := AList.update (bc_digest c) c (ds_credentials d), ds_allocated := Suc (ds_allocated d) \<rparr>"

definition bind ::
  "crypto \<Rightarrow> hostAnswers \<Rightarrow> int \<Rightarrow> bytes \<Rightarrow> delegationHost \<Rightarrow> bindRequest \<Rightarrow> delegationService \<Rightarrow>
    (bind_error + boundAnswer) \<times> delegationService" where
  "bind C post now raw host body d =
     (case bind_given C d host body of
        Inl e \<Rightarrow> (Inl e, d)
      | Inr (chain, software, jkt) \<Rightarrow>
          (let t = truncated now in
           case bind_refusal post d host chain software jkt t of
             Some r \<Rightarrow> (Inl (BindRefused r), d)
           | None \<Rightarrow>
               (let token = credentialPrefix @ b64_encode raw;
                    c = new_credential C d host chain software jkt t token;
                    d' = pruned t d
                in if length (ds_credentials d') \<ge> maxLiveCredentials then (Inl BindUnavailable, d')
                   else (Inr \<lparr> ba_credential = token, ba_tokenType = (if jkt = [] then ''Bearer'' else ''DPoP''),
                               ba_expiresAt = delegationTime (bc_expires c), ba_id = dl_id (ch_leaf chain),
                               ba_chain = ch_digests chain \<rparr>,
                         keep_credential c d'))))"

section \<open>Ending credentials\<close>

text \<open>What the one member of the request names; a member that is no text is \<open>None\<close>.\<close>

definition revokes :: "bytes \<Rightarrow> bytes \<Rightarrow> bytes \<Rightarrow> boundCredential \<Rightarrow> bool" where
  "revokes host which name c \<longleftrightarrow>
     bc_host c = host \<and>
     (if which = ''credential'' then bc_digest c = name
      else list_ex (\<lambda>l. (which = ''delegation'' \<and> dl_id l = name) \<or> (which = ''agent'' \<and> dl_agent l = name)) (ch_links (bc_chain c)))"

definition revoke ::
  "delegationHost \<Rightarrow> (bytes \<times> bytes option) list \<Rightarrow> delegationService \<Rightarrow> (delegationRefusal + nat) \<times> delegationService" where
  "revoke host body d =
     (case body of
        [(which, Some name)] \<Rightarrow>
          if (which = ''credential'' \<and> isDigest name) \<or> ((which = ''delegation'' \<or> which = ''agent'') \<and> isOpaqueID name) then
            (let (ended, kept) = List.partition (\<lambda>(_, c). revokes (dh_host host) which name c) (ds_credentials d)
             in (Inr (length ended), d\<lparr> ds_credentials := kept \<rparr>))
          else (Inl (refuse ''malformed''), d)
      | _ \<Rightarrow> (Inl (refuse ''malformed''), d))"

section \<open>Presenting a credential\<close>

record presentedRequest =
  pq_proofs :: "bytes list"
  pq_method :: bytes
  pq_host :: bytes
  pq_path :: bytes

text \<open>A proof of possession up to its use: the id of the proof and the instant it was made at.\<close>

definition proof_claims ::
  "crypto \<Rightarrow> jws \<Rightarrow> presentedRequest \<Rightarrow> bytes \<Rightarrow> bytes \<Rightarrow> int \<Rightarrow> (bytes \<times> int) option" where
  "proof_claims C J rq token jkt t = do {
     require (length (pq_proofs rq) = 1);
     let prf = hd (pq_proofs rq);
     require (length prf \<le> maxProofSize);
     let parts = split_on CHR ''.'' prf;
     require (length parts = 3);
     headerBytes \<leftarrow> segment (parts ! 0);
     header \<leftarrow> parse_object headerBytes;
     require (string_of header ''typ'' = ''dpop+jwt'');
     jwkV \<leftarrow> obj_get header ''jwk'';
     (key, thumb) \<leftarrow> proofKey C jwkV;
     require (string_of header ''alg'' = jk_alg key);
     require (thumb = jkt);
     signature \<leftarrow> segment (parts ! 2);
     require (verifySignature C J key (parts ! 0 @ ''.'' @ parts ! 1) signature);
     payload \<leftarrow> segment (parts ! 1);
     claims \<leftarrow> parse_object payload;
     let jti = string_of claims ''jti'';
     require (jti \<noteq> [] \<and> length jti \<le> maxProofJTI);
     require (string_of claims ''htm'' = pq_method rq);
     let uri = pq_host rq @ pq_path rq;
     require (string_of claims ''htu'' = ''http://'' @ uri \<or> string_of claims ''htu'' = ''https://'' @ uri);
     made \<leftarrow> integerMember claims ''iat'';
     iat \<leftarrow> made;
     let at = unix_instant iat;
     require (t - proofWindow \<le> at \<and> at \<le> t + proofWindow);
     require (string_of claims ''ath'' = b64_encode (sha256 C token));
     Some (jti, at) }"

text \<open>A proof is used once while it is remembered.\<close>

definition use_proof :: "bytes \<Rightarrow> int \<Rightarrow> int \<Rightarrow> delegationService \<Rightarrow> bool \<times> delegationService" where
  "use_proof jti at t d =
     (let d = pruned t d in
      if map_of (ds_proofs d) jti \<noteq> None then (False, d)
      else if length (ds_proofs d) \<ge> maxProofsRemembered then (False, d)
      else (True, d\<lparr> ds_proofs := (jti, at + proofWindow) # ds_proofs d \<rparr>))"

definition verifyProof ::
  "crypto \<Rightarrow> jws \<Rightarrow> presentedRequest \<Rightarrow> bytes \<Rightarrow> bytes \<Rightarrow> int \<Rightarrow> delegationService \<Rightarrow> bool \<times> delegationService" where
  "verifyProof C J rq token jkt t d =
     (case proof_claims C J rq token jkt t of None \<Rightarrow> (False, d) | Some (jti, at) \<Rightarrow> use_proof jti at t d)"

record reservationScope =
  rs_sub :: principalRef
  rs_rootActor :: bytes
  rs_host :: bytes

record delegatedSender =
  sn_kind :: bytes
  sn_issuer :: bytes
  sn_subject :: bytes
  sn_scope :: reservationScope
  sn_credential :: "boundCredential option"

definition scope_value :: "reservationScope \<Rightarrow> members" where
  "scope_value s =
     obj_set (obj_set (obj_set [] ''sub'' (VObject (principal_value (rs_sub s)))) ''rootActor'' (VString (rs_rootActor s)))
       ''host'' (VString (rs_host s))"

definition parseReservationScope :: "jvalue \<Rightarrow> reservationScope option" where
  "parseReservationScope v = do {
     obj \<leftarrow> exactObject v [''sub'', ''rootActor'', ''host''];
     subV \<leftarrow> obj_get obj ''sub'';
     sub \<leftarrow> parsePrincipalRef subV;
     root \<leftarrow> memberString obj ''rootActor'';
     host \<leftarrow> memberString obj ''host'';
     require (isOpaqueID root \<and> isFlatTokenString host);
     Some \<lparr> rs_sub = sub, rs_rootActor = root, rs_host = host \<rparr> }"

definition reconcilerMember :: "delegatedSender \<Rightarrow> members" where
  "reconcilerMember s =
     obj_set (obj_set (obj_set [] ''kind'' (VString (sn_kind s))) ''issuer'' (VString (sn_issuer s)))
       ''subject'' (VString (sn_subject s))"

definition actor_of :: "boundCredential \<Rightarrow> bytes \<Rightarrow> caller \<times> delegatedSender" where
  "actor_of c digest =
     (let leaf = ch_leaf (bc_chain c); root = ch_root (bc_chain c) in
      (\<lparr> cl_issuer = pr_issuer (dl_sub leaf), cl_subject = pr_subject (dl_sub leaf), cl_tokenDigest = digest \<rparr>,
       \<lparr> sn_kind = ''actor'', sn_issuer = bc_host c, sn_subject = dl_agent leaf,
         sn_scope = \<lparr> rs_sub = dl_sub leaf, rs_rootActor = dl_agent root, rs_host = bc_host c \<rparr>,
         sn_credential = Some c \<rparr>))"

definition present_credential ::
  "crypto \<Rightarrow> jws \<Rightarrow> presentedRequest \<Rightarrow> bytes \<Rightarrow> bytes \<Rightarrow> int \<Rightarrow> delegationService \<Rightarrow>
    (delegationRefusal + caller \<times> delegatedSender) \<times> delegationService" where
  "present_credential C J rq token scheme now d =
     (let mismatch = Inl (refuse ''credential-mismatch'') in
      if cut_prefix credentialPrefix token = None \<or> length token > 128 then (mismatch, d)
      else
        (let digest = digest_of C token in
         case map_of (ds_credentials d) digest of
           None \<Rightarrow> (mismatch, d)
         | Some c \<Rightarrow>
             if \<not> now < bc_expires c then (mismatch, d)
             else if bc_jkt c = [] then (if scheme \<noteq> ''Bearer'' then (mismatch, d) else (Inr (actor_of c digest), d))
             else if scheme \<noteq> ''DPoP'' then (mismatch, d)
             else case verifyProof C J rq token (bc_jkt c) now d of
               (ok, d') \<Rightarrow> (if ok then Inr (actor_of c digest) else mismatch, d')))"

definition live :: "delegationService \<Rightarrow> boundCredential \<Rightarrow> int \<Rightarrow> bool" where
  "live d c t \<longleftrightarrow> map_of (ds_credentials d) (bc_digest c) = Some c \<and> t < bc_expires c"

section \<open>Admitting a call\<close>

definition delegationMember :: "delegationChain \<Rightarrow> int \<Rightarrow> members" where
  "delegationMember c t =
     (let leaf = ch_leaf c;
          v = obj_set [] ''id'' (VString (dl_id leaf));
          v = obj_set v ''host'' (VString (dl_host leaf));
          v = obj_set v ''actor'' (VString (dl_agent leaf));
          v = obj_set v ''subject'' (VObject (principal_value (dl_sub leaf)));
          v = obj_set v ''chain'' (VArray (ch_digests c))
      in obj_set v ''admittedAt'' (VString (delegationTime t)))"

text \<open>What is left of a call's admission once the host's answer and the gateway's own scope check are in.\<close>

definition admission_outcome :: "delegationRefusal option \<Rightarrow> delegationRefusal option \<Rightarrow> delegationRefusal option" where
  "admission_outcome own answer =
     (case answer of
        Some r \<Rightarrow> if rf_name r \<in> set beforeScope \<or> rf_name r = ''admission-unknown'' then Some r
                  else (case own of Some o' \<Rightarrow> Some o' | None \<Rightarrow> Some r)
      | None \<Rightarrow> own)"

definition admitDelegated ::
  "crypto \<Rightarrow> hostAnswers \<Rightarrow> int \<Rightarrow> delegationService \<Rightarrow> delegatedSender option \<Rightarrow> delegatedCall \<Rightarrow> delegationRefusal + members" where
  "admitDelegated C post now d sender call =
     (case Option.bind sender (\<lambda>s. if sn_kind s = ''actor'' then sn_credential s else None) of
        None \<Rightarrow> Inl (refuse ''action-key-actor-only'')
      | Some c \<Rightarrow>
          (let t = truncated now in
           if \<not> live d c t then Inl (refuse ''credential-mismatch'')
           else case parseJSON (ch_canonical (bc_chain c)) of
             Inl _ \<Rightarrow> Inl (refuse ''malformed'')
           | Inr chainV \<Rightarrow>
               (case verifyDelegationChain C chainV (service_keys d) of
                  Inl r \<Rightarrow> Inl r
                | Inr chain \<Rightarrow>
                    (case timeRefusal chain t of
                       Some r \<Rightarrow> Inl r
                     | None \<Rightarrow>
                         (case map_of (ds_hosts d) (bc_host c) of
                            None \<Rightarrow> Inl (refuse ''credential-mismatch'')
                          | Some host \<Rightarrow>
                              (let own = scopeRefusal chain (ds_audience d) (ca_source call) (ca_tool call) (ca_effect call);
                                   asked = call\<lparr> ca_count := ca_count call \<and> own = None \<rparr>;
                                   answer = admissionReadAt post d host chain (Some asked) t
                               in case admission_outcome own answer of
                                    Some r \<Rightarrow> Inl r
                                  | None \<Rightarrow> Inr (delegationMember chain t)))))))"

text \<open>The row of the sender table for a request on a delegated scope made with a token.\<close>

definition senderFor ::
  "hostAnswers \<Rightarrow> delegationService \<Rightarrow> caller option \<Rightarrow> bool \<Rightarrow> reservationScope \<Rightarrow> delegationRefusal + delegatedSender" where
  "senderFor post d who delegated scope =
     (let unauthenticated = Inl (refuse ''action-key-unauthenticated'') in
      case (who, map_of (ds_hosts d) (rs_host scope)) of
        (Some w, Some host) \<Rightarrow>
          if delegated then unauthenticated
          else
            (let sender = (\<lambda>kind. \<lparr> sn_kind = kind, sn_issuer = cl_issuer w, sn_subject = cl_subject w, sn_scope = scope,
                                    sn_credential = None \<rparr>) in
             if cl_issuer w = pr_issuer (rs_sub scope) \<and> cl_subject w = pr_subject (rs_sub scope) then
               (case standingRead post d host (rs_sub scope) of
                  Current \<Rightarrow> Inr (sender ''subject'')
                | Removed \<Rightarrow> unauthenticated
                | StandingUnknown \<Rightarrow> Inl (refuse ''standing-unknown''))
             else if cl_subject w = dh_requester host then Inr (sender ''host'')
             else if cl_subject w \<in> set (ds_operators d) then Inr (sender ''operator'')
             else unauthenticated)
      | _ \<Rightarrow> unauthenticated)"

end
