(* ===== verification/Delegation_Norm.thy ===== *)
theory Delegation_Norm
  imports Delegation_Chain Receipt_Norm "HOL-Library.Multiset"
begin

text \<open>
  A chain is read from its canonical bytes as it was verified: every check answers alike for a value of the
  canonical domain and for its normal form, so that the chain kept with a credential is the chain that was
  bound.
\<close>

section \<open>Parts of a link\<close>

lemma stringOf_norm [simp]: "stringOf (norm_json v) = stringOf v"
  by (cases v) (simp_all add: stringOf_def norm_members_value)

lemma stringOf_norms [simp]: "map (stringOf \<circ> norm_json) vs = map stringOf vs"
  by simp

lemma array_norm:
  "(case norm_json v of VArray vs \<Rightarrow> f vs | _ \<Rightarrow> None) = (case v of VArray vs \<Rightarrow> f (map norm_json vs) | _ \<Rightarrow> None)"
  by (cases v) (simp_all add: norm_members_value)

lemma sortedStrings_norm: "sortedStrings (norm_json v) n = sortedStrings v n"
  unfolding sortedStrings_def array_norm by (cases v) simp_all

lemma effects_of_norm: "effects_of (norm_json v) = effects_of v"
  unfolding effects_of_def array_norm by (cases v) simp_all

lemma validSoftware_norm:
  assumes "wf v"
  shows "validSoftware (norm_json v) = validSoftware v"
proof -
  have "string_of (norm_members obj) n = string_of obj n" if "exactObject v names = Some obj" for obj names n
    using exactObject_wf [OF assms that] by (rule members_norm)
  then show ?thesis
    by (cases "exactObject v [''package'', ''version'']"; cases "exactObject v [''harness'']")
      (simp_all add: validSoftware_def exactObject_norm [OF assms])
qed

lemma link_parent_norm:
  assumes "wf v"
  shows "link_parent (norm_json v) depth = link_parent v depth"
proof -
  have "string_of (norm_members obj) n = string_of obj n" if "exactObject v names = Some obj" for obj names n
    using exactObject_wf [OF assms that] by (rule members_norm)
  then show ?thesis
    by (cases "exactObject v [''id'', ''digest'']") (simp_all add: link_parent_def exactObject_norm [OF assms])
qed

text \<open>The limits of an entry do not depend on the order of their members.\<close>

lemma limit_of_norm: "limit_of (n, norm_json v) = limit_of (n, v)"
  by (cases v) (simp_all add: limit_of_def norm_members_value)

lemma limit_of_name: "limit_of m = Some l \<Longrightarrow> fst l = fst m"
  by (cases m; cases "snd m") (auto simp: limit_of_def split: if_splits)

lemma option_list_permuted:
  assumes "mset xs = mset ys" and "option_list (map f xs) = Some us"
  obtains vs where "option_list (map f ys) = Some vs" "mset vs = mset us"
proof -
  have f: "map f xs = map Some us" using assms(2) by (simp add: option_list_iff)
  have "f y = Some (the (f y))" if "y \<in> set ys" for y
  proof -
    have "y \<in> set xs" using that assms(1) mset_eq_setD by blast
    then have "f y \<in> set (map Some us)" using f by (metis image_eqI set_map)
    then show ?thesis by auto
  qed
  then have "map f ys = map Some (map (the \<circ> f) ys)" by simp
  then have "option_list (map f ys) = Some (map (the \<circ> f) ys)" unfolding option_list_iff .
  moreover have "us = map (the \<circ> f) xs" using f by (metis (no_types, lifting) list.map_comp map_idI option.sel comp_apply)
  then have "mset (map (the \<circ> f) ys) = mset us" using assms(1) by (metis mset_map)
  ultimately show ?thesis by (rule that)
qed

lemma sort_by_name:
  assumes "mset xs = mset ys" and "distinct (map fst xs)"
  shows "sort_key fst xs = sort_key fst ys"
proof (rule map_sorted_distinct_set_unique [of fst])
  have same: "set xs = set ys" using assms(1) by (rule mset_eq_setD)
  have "mset (map fst xs) = mset (map fst ys)" using assms(1) by simp
  then have "distinct (map fst ys)" using assms(2) by (metis mset_eq_imp_distinct_iff)
  then show "distinct (map fst (sort_key fst ys))" by (simp add: distinct_map)
  show "distinct (map fst (sort_key fst xs))" using assms(2) by (simp add: distinct_map)
  show "inj_on fst (set (sort_key fst xs) \<union> set (sort_key fst ys))" using assms(2) same by (simp add: distinct_map)
qed (use assms(1) mset_eq_setD in auto)

lemma norm_members_mset: "mset (norm_members ms) = mset (map (on_value norm_json) ms)"
  by (simp add: norm_members_def)

lemma limit_names: "map limit_of ms = map Some us \<Longrightarrow> map fst us = map fst ms"
  by (induction ms arbitrary: us) (auto dest: limit_of_name)

lemma limits_sorted:
  assumes names: "distinct (map fst ms)" and perm: "mset ms = mset ms'"
  shows "map_option (sort_key fst) (option_list (map limit_of ms)) = map_option (sort_key fst) (option_list (map limit_of ms'))"
proof (cases "option_list (map limit_of ms)")
  case None
  have "option_list (map limit_of ms') = None"
  proof (rule ccontr)
    assume "option_list (map limit_of ms') \<noteq> None"
    then obtain us where "option_list (map limit_of ms') = Some us" by blast
    from option_list_permuted [OF perm [symmetric] this] None show False by auto
  qed
  with None show ?thesis by simp
next
  case (Some us)
  from option_list_permuted [OF perm Some] obtain vs where vs: "option_list (map limit_of ms') = Some vs" "mset vs = mset us" .
  have "map fst us = map fst ms" using Some by (intro limit_names) (simp add: option_list_iff)
  then have "sort_key fst us = sort_key fst vs" using names vs(2) by (intro sort_by_name) simp_all
  with Some vs(1) show ?thesis by simp
qed

lemma limits_of_norm:
  assumes "wf v"
  shows "limits_of (norm_json v) = limits_of v"
proof (cases v)
  case (VObject ms)
  have names: "distinct (map fst ms)" using assms VObject by (simp add: wf_names)
  have same: "map limit_of (map (on_value norm_json) ms) = map limit_of ms"
    by (simp add: limit_of_norm split_beta)
  have "map_option (sort_key fst) (option_list (map limit_of (map (on_value norm_json) ms))) =
      map_option (sort_key fst) (option_list (map limit_of (norm_members ms)))"
    by (rule limits_sorted) (use names in \<open>simp_all add: norm_members_mset o_def split_beta\<close>)
  then have "map_option (sort_key fst) (option_list (map limit_of (norm_members ms))) =
      map_option (sort_key fst) (option_list (map limit_of ms))" unfolding same by simp
  moreover have "length (norm_members ms) = length ms" by (simp add: norm_members_def)
  ultimately show ?thesis
    using VObject by (cases "option_list (map limit_of ms)"; cases "option_list (map limit_of (norm_members ms))")
      (simp_all add: limits_of_def norm_members_value)
qed (simp_all add: limits_of_def)

section \<open>Links\<close>

lemma bind_exactObject_norm:
  assumes "wf v" and "\<And>ms. wf (VObject ms) \<Longrightarrow> f (norm_members ms) = g ms"
  shows "Option.bind (exactObject (norm_json v) names) f = Option.bind (exactObject v names) g"
  using assms exactObject_wf [OF assms(1)] by (cases "exactObject v names") (simp_all add: exactObject_norm)

lemma parseScopeEntry_norm:
  assumes "wf v"
  shows "parseScopeEntry (norm_json v) = parseScopeEntry v"
  unfolding parseScopeEntry_def Let_def
  apply (rule bind_exactObject_norm [OF assms])
  subgoal premises obj for obj
    unfolding members_norm [OF obj]
    apply (rule bind_obj_get_norm [OF obj])
    apply (rule bind_exactObject_norm, assumption)
    subgoal premises audience for _ audience
      unfolding members_norm [OF audience(2)]
      apply (rule Option.bind_cong [OF refl])+
      apply (rule bind_obj_get_norm [OF obj])
      apply (simp only: sortedStrings_norm)
      apply (rule Option.bind_cong [OF refl])
      apply (rule bind_obj_get_norm [OF obj])
      apply (simp only: effects_of_norm)
      apply (rule Option.bind_cong [OF refl])
      apply (rule bind_obj_get_norm [OF obj])
      apply (simp only: limits_of_norm)
      done
    done
  done

lemma link_scope_norm:
  assumes "wf v"
  shows "link_scope (norm_json v) = link_scope v"
  unfolding link_scope_def
proof (rule bind_exactObject_norm [OF assms], rule bind_obj_get_norm, assumption)
  fix w assume "wf w"
  have same: "option_list (map (parseScopeEntry \<circ> norm_json) vs) = option_list (map parseScopeEntry vs)" if w: "w = VArray vs" for vs
  proof -
    have "map (parseScopeEntry \<circ> norm_json) vs = map parseScopeEntry vs"
      using wf_element [OF \<open>wf w\<close> [unfolded w]] by (simp add: parseScopeEntry_norm)
    then show ?thesis by (rule arg_cong)
  qed
  show "(case norm_json w of VArray vs \<Rightarrow> Some vs | _ \<Rightarrow> None) \<bind>
      (\<lambda>sources. require (sources \<noteq> [] \<and> length sources \<le> maxScopeEntries) \<bind>
        (\<lambda>_. option_list (map parseScopeEntry sources) \<bind> (\<lambda>entries. require (increasing entryLess entries) \<bind> (\<lambda>_. Some entries)))) =
    (case w of VArray vs \<Rightarrow> Some vs | _ \<Rightarrow> None) \<bind>
      (\<lambda>sources. require (sources \<noteq> [] \<and> length sources \<le> maxScopeEntries) \<bind>
        (\<lambda>_. option_list (map parseScopeEntry sources) \<bind> (\<lambda>entries. require (increasing entryLess entries) \<bind> (\<lambda>_. Some entries))))"
    by (cases w) (simp_all add: norm_members_value same)
qed

text \<open>A link read from its normal form differs in the order of the members it keeps, and in nothing a
  check or a digest depends on.\<close>

definition link_norm :: "delegationLink \<Rightarrow> delegationLink" where
  "link_norm l = l\<lparr> dl_obj := norm_members (dl_obj l), dl_software := norm_json (dl_software l) \<rparr>"

lemma link_norm_fields [simp]:
  "dl_id (link_norm l) = dl_id l" "dl_host (link_norm l) = dl_host l" "dl_keyID (link_norm l) = dl_keyID l"
  "dl_sub (link_norm l) = dl_sub l" "dl_agent (link_norm l) = dl_agent l" "dl_entries (link_norm l) = dl_entries l"
  "dl_mayDelegate (link_norm l) = dl_mayDelegate l" "dl_issuedAt (link_norm l) = dl_issuedAt l"
  "dl_expiresAt (link_norm l) = dl_expiresAt l" "dl_parentID (link_norm l) = dl_parentID l"
  "dl_parentHash (link_norm l) = dl_parentHash l" "dl_depth (link_norm l) = dl_depth l"
  "dl_signature (link_norm l) = dl_signature l" "dl_canonical (link_norm l) = dl_canonical l"
  "dl_digest (link_norm l) = dl_digest l" "dl_obj (link_norm l) = norm_members (dl_obj l)"
  by (simp_all add: link_norm_def)

lemma bind_link_get:
  assumes "wf (VObject ms)" and "\<And>v. wf v \<Longrightarrow> f (norm_json v) = map_option h (g v)"
  shows "Option.bind (obj_get (norm_members ms) n) f = map_option h (Option.bind (obj_get ms n) g)"
  using assms wf_member [OF assms(1), of n] by (cases "obj_get ms n") (simp_all add: obj_get_norm')

lemma bind_link_object:
  assumes "wf v" and "\<And>ms. wf (VObject ms) \<Longrightarrow> f (norm_members ms) = map_option h (g ms)"
  shows "Option.bind (exactObject (norm_json v) names) f = map_option h (Option.bind (exactObject v names) g)"
  using assms exactObject_wf [OF assms(1)] by (cases "exactObject v names") (simp_all add: exactObject_norm)

lemma bind_link:
  assumes "\<And>v. f v = map_option h (g v)"
  shows "Option.bind x f = map_option h (Option.bind x g)"
  using assms by (cases x) simp_all

lemma scalar_member_norm:
  assumes "wf (VObject ms)"
  shows "(case obj_get (norm_members ms) n of Some (VBool b) \<Rightarrow> Some b | _ \<Rightarrow> None) =
      (case obj_get ms n of Some (VBool b) \<Rightarrow> Some b | _ \<Rightarrow> None)"
    and "(case obj_get (norm_members ms) n of Some (VInt i) \<Rightarrow> Some i | _ \<Rightarrow> None) =
      (case obj_get ms n of Some (VInt i) \<Rightarrow> Some i | _ \<Rightarrow> None)"
  by (cases "obj_get ms n"; cases "the (obj_get ms n)"; simp add: obj_get_norm' [OF assms] norm_members_value)+

lemma parseLink_norm:
  assumes "wf (VObject obj)"
  shows "parseLink C (norm_members obj) = map_option link_norm (parseLink C obj)"
  unfolding parseLink_def Let_def members_norm [OF assms] scalar_member_norm [OF assms] canon_norm_members
  apply (rule bind_link)+
  apply (rule bind_link_get [OF assms])
  apply (simp only: parsePrincipalRef_norm)
  apply (rule bind_link)
  apply (rule bind_link_get [OF assms])
  apply (rule bind_link_object, assumption)
  subgoal premises act for _ _ _ _ _ _ _ _ _ _ act
    unfolding members_norm [OF act(3)]
    apply (rule bind_link)+
    apply (rule bind_link_get [OF act(3)])
    apply (simp only: validSoftware_norm)
    apply (rule bind_link)
    apply (rule bind_link_get [OF assms])
    apply (simp only: link_scope_norm)
    apply (rule bind_link)+
    apply (rule bind_link_get [OF assms])
    apply (simp only: link_parent_norm)
    apply (rule bind_link)+
    apply (simp add: link_norm_def)
    done
  done

section \<open>Chains\<close>

definition chain_norm :: "delegationChain \<Rightarrow> delegationChain" where
  "chain_norm c = c\<lparr> ch_links := map link_norm (ch_links c) \<rparr>"

lemma link_signingInput_norm [simp]: "link_signingInput (link_norm l) = link_signingInput l"
  using norm_members_filter [of "\<lambda>n. n \<noteq> ''signature''" "dl_obj l"] by (simp add: link_signingInput_def canon_norm_members)

lemma link_checks_norm [simp]:
  "link_signed C keys (link_norm l) = link_signed C keys l"
  "link_follows (link_norm p) (link_norm c) = link_follows p c" "narrows (link_norm c) (link_norm p) = narrows c p"
  "link_reason audience source tool effect only (link_norm l) = link_reason audience source tool effect only l"
  by (simp_all add: link_signed_def link_follows_def narrows_def
      entry_narrows_def [abs_def] entry_at_def [abs_def] link_reason_def split: option.split)

lemma link_pairs_norm: "link_pairs (map link_norm links) = map (map_prod link_norm link_norm) (link_pairs links)"
  unfolding link_pairs_def map_tl [symmetric] zip_map_map map_prod_def ..

lemma chain_of_norm:
  assumes "links \<noteq> []"
  shows "chain_of C keys canonical (map link_norm links) = map_sum id chain_norm (chain_of C keys canonical links)"
proof -
  have "list_all (\<lambda>(p, c). R p c) (link_pairs (map link_norm links)) = list_all (\<lambda>(p, c). R' p c) (link_pairs links)"
    if "\<And>p c. R (link_norm p) (link_norm c) = R' p c" for R R'
    using that by (simp add: link_pairs_norm list_all_iff split_beta)
  note pairs = this [of link_follows link_follows] this [of "\<lambda>p c. narrows c p" "\<lambda>p c. narrows c p"]
  have "list_all (link_signed C keys) (map link_norm links) = list_all (link_signed C keys) links"
    "list_all (\<lambda>l. keys (dl_host l) (dl_keyID l) \<noteq> None) (map link_norm links) =
      list_all (\<lambda>l. keys (dl_host l) (dl_keyID l) \<noteq> None) links"
    by (simp_all add: list_all_iff)
  then show ?thesis
    using pairs assms by (simp add: chain_of_def hd_map chain_norm_def)
qed

lemma option_list_norm:
  assumes "\<And>x. x \<in> set xs \<Longrightarrow> f (g x) = map_option h (f' x)"
  shows "option_list (map f (map g xs)) = map_option (map h) (option_list (map f' xs))"
  using assms
proof (induction xs)
  case (Cons x xs)
  then show ?case by (cases "f' x"; cases "option_list (map f' xs)") simp_all
qed simp

lemma link_object_norm:
  assumes "wf v"
  shows "link_object (norm_json v) = map_option norm_members (link_object v)"
proof (cases v)
  case (VObject ms)
  with assms show ?thesis
    by (cases "memberString ms ''delegationVersion''")
      (simp_all add: link_object_def requireObject_def norm_members_value members_norm)
qed (simp_all add: link_object_def requireObject_def norm_json.simps)

lemma link_object_wf: "wf v \<Longrightarrow> link_object v = Some obj \<Longrightarrow> wf (VObject obj)"
  by (auto simp: link_object_def Option.bind_eq_Some_conv dest: requireObject_wf)

lemma verifyDelegationChain_norm:
  assumes "wf v"
  shows "verifyDelegationChain C (norm_json v) keys = map_sum id chain_norm (verifyDelegationChain C v keys)"
proof (cases v)
  case (VArray arr)
  note arr = wf_element [OF assms [unfolded VArray]]
  have objects: "option_list (map link_object (map norm_json arr)) = map_option (map norm_members) (option_list (map link_object arr))"
    by (rule option_list_norm) (rule link_object_norm, rule arr)
  show ?thesis
  proof (cases "option_list (map link_object arr)")
    case None
    with VArray objects show ?thesis by (simp add: verifyDelegationChain_def refuse_def)
  next
    case (Some objs)
    then have from_arr: "map link_object arr = map Some objs" by (simp add: option_list_iff)
    have wf: "wf (VObject obj)" if "obj \<in> set objs" for obj
    proof -
      from that have "Some obj \<in> set (map link_object arr)" unfolding from_arr by simp
      then obtain x where "x \<in> set arr" "link_object x = Some obj" by auto
      with arr link_object_wf show ?thesis by blast
    qed
    have versions: "list_all (\<lambda>obj. string_of obj ''delegationVersion'' = ''1'') (map norm_members objs) =
        list_all (\<lambda>obj. string_of obj ''delegationVersion'' = ''1'') objs"
      using wf by (auto simp: list_all_iff members_norm)
    have parsed: "option_list (map (parseLink C) (map norm_members objs)) = map_option (map link_norm) (option_list (map (parseLink C) objs))"
      by (rule option_list_norm) (rule parseLink_norm, rule wf)
    have canonical: "canon (norm_json v) = canon v" by (simp add: canon_def canonWrite_norm)
    have sizes: "length objs = length arr" using arg_cong [OF from_arr, of length] by simp
    show ?thesis
    proof (cases "option_list (map (parseLink C) objs)")
      case None
      with VArray Some objects versions parsed show ?thesis by (simp add: verifyDelegationChain_def refuse_def)
    next
      case (Some links)
      have "length links = length arr"
        using Some sizes by (metis length_map option_list_iff)
      then have "arr \<noteq> [] \<Longrightarrow> links \<noteq> []" by auto
      with VArray Some \<open>option_list (map link_object arr) = Some objs\<close> objects versions parsed canonical show ?thesis
        by (simp add: verifyDelegationChain_def chain_of_norm)
    qed
  qed
qed (simp_all add: verifyDelegationChain_def norm_json.simps)

text \<open>The chain kept in canonical bytes is verified again as the chain it was.\<close>

lemma chain_reread:
  assumes "verifyDelegationChain C v keys = Inr c" and "wf v" and "jdepth v \<le> maxNesting"
  shows "parseJSON (ch_canonical c) = Inr (norm_json v)" "verifyDelegationChain C (norm_json v) keys = Inr (chain_norm c)"
proof -
  have "ch_canonical c = canon v" by (rule verified_chain [OF assms(1)])
  with parseJSON_canon_space [OF assms(2,3), of "[]"] show "parseJSON (ch_canonical c) = Inr (norm_json v)" by simp
  show "verifyDelegationChain C (norm_json v) keys = Inr (chain_norm c)"
    using assms(1) by (simp add: verifyDelegationChain_norm [OF assms(2)])
qed

lemma chain_norm_facts:
  assumes "ch_links c \<noteq> []"
  shows "ch_leaf (chain_norm c) = link_norm (ch_leaf c)" "ch_root (chain_norm c) = link_norm (ch_root c)"
    "ch_digests (chain_norm c) = ch_digests c" "readOnly (chain_norm c) = readOnly c"
    "timeRefusal (chain_norm c) t = timeRefusal c t"
    "scopeCheck (chain_norm c) audience source tool effect only = scopeCheck c audience source tool effect only"
  using assms
  by (simp_all add: chain_norm_def ch_leaf_def ch_root_def last_map hd_map ch_digests_def readOnly_def timeRefusal_def scopeCheck_def
      list_all_iff o_def)

end
