(* ===== verification/Delegation_Run.thy ===== *)
theory Delegation_Run
  imports Delegation_Service Delegation_Norm
begin

text \<open>
  The enforcing gateway as requests reach it: hosts bind and revoke credentials, runs present them with their
  proofs, in any order and at any clock readings.  The history of a run holds, newest first, what each
  step did and the clock it read.
\<close>

section \<open>Runs\<close>

datatype delegation_event =
    Bound boundCredential
  | Ended bytes bytes bytes
  | Proved bytes int
  | Quiet

type_synonym delegation_history = "(int \<times> delegation_event) list"

definition presented ::
  "crypto \<Rightarrow> jws \<Rightarrow> presentedRequest \<Rightarrow> bytes \<Rightarrow> int \<Rightarrow> delegationRefusal + caller \<times> delegatedSender \<Rightarrow> delegation_event" where
  "presented C J rq token now answer =
     (case answer of
        Inr (who, s) \<Rightarrow>
          (case sn_credential s of
             None \<Rightarrow> Quiet
           | Some c \<Rightarrow>
               if bc_jkt c = [] then Quiet
               else case proof_claims C J rq token (bc_jkt c) now of None \<Rightarrow> Quiet | Some (jti, at) \<Rightarrow> Proved jti at)
      | Inl _ \<Rightarrow> Quiet)"

definition bind_event :: "crypto \<Rightarrow> bind_error + boundAnswer \<Rightarrow> delegationService \<Rightarrow> delegation_event" where
  "bind_event C answer d =
     (case answer of
        Inl _ \<Rightarrow> Quiet
      | Inr a \<Rightarrow> (case map_of (ds_credentials d) (digest_of C (ba_credential a)) of None \<Rightarrow> Quiet | Some c \<Rightarrow> Bound c))"

definition revoke_event :: "delegationHost \<Rightarrow> (bytes \<times> bytes option) list \<Rightarrow> delegationRefusal + nat \<Rightarrow> delegation_event" where
  "revoke_event host body answer =
     (case answer of
        Inl _ \<Rightarrow> Quiet
      | Inr _ \<Rightarrow> (case body of [(which, Some name)] \<Rightarrow> Ended (dh_host host) which name | _ \<Rightarrow> Quiet))"

inductive delegation_step ::
  "crypto \<Rightarrow> jws \<Rightarrow> delegationService \<times> delegation_history \<Rightarrow> delegationService \<times> delegation_history \<Rightarrow> bool"
  for C J where
  binds: "map_of (ds_hosts d) name = Some host \<Longrightarrow> bind C post now raw host body d = (answer, d') \<Longrightarrow>
    delegation_step C J (d, h) (d', (now, bind_event C answer d') # h)"
| ends: "map_of (ds_hosts d) name = Some host \<Longrightarrow> revoke host body d = (answer, d') \<Longrightarrow>
    delegation_step C J (d, h) (d', (now, revoke_event host body answer) # h)"
| presents: "present_credential C J rq token scheme now d = (answer, d') \<Longrightarrow>
    delegation_step C J (d, h) (d', (now, presented C J rq token now answer) # h)"

definition delegation_reaches ::
  "crypto \<Rightarrow> jws \<Rightarrow> bytes \<Rightarrow> (bytes \<times> delegationHost) list \<Rightarrow> bytes list \<Rightarrow> bool \<Rightarrow>
    delegationService \<times> delegation_history \<Rightarrow> bool" where
  "delegation_reaches C J audience hosts operators bearer =
     (delegation_step C J)\<^sup>*\<^sup>* (newDelegationService audience hosts operators bearer, [])"

text \<open>A revocation ends a credential.\<close>

definition ends_credential :: "delegation_event \<Rightarrow> boundCredential \<Rightarrow> bool" where
  "ends_credential e c = (case e of Ended host which name \<Rightarrow> revokes host which name c | _ \<Rightarrow> False)"

definition still_bound :: "delegation_history \<Rightarrow> boundCredential \<Rightarrow> int \<Rightarrow> bool" where
  "still_bound h c now \<longleftrightarrow>
     (\<exists>h1 h2. h = h1 @ (now, Bound c) # h2 \<and> (\<forall>e \<in> snd ` set h1. \<not> ends_credential e c))"

section \<open>What a binding establishes\<close>

text \<open>What is known of a credential bound at a clock reading.\<close>

definition bound_ok :: "crypto \<Rightarrow> delegationService \<Rightarrow> int \<Rightarrow> boundCredential \<Rightarrow> bool" where
  "bound_ok C d now c \<longleftrightarrow>
     (\<exists>v. wf v \<and> jdepth v \<le> maxNesting \<and> verifyDelegationChain C v (service_keys d) = Inr (bc_chain c)) \<and>
     dl_host (ch_root (bc_chain c)) = bc_host c \<and>
     bc_expires c \<le> truncated now + credentialLifetime \<and> bc_expires c \<le> dl_expiresAt (ch_leaf (bc_chain c)) \<and>
     dl_issuedAt (ch_leaf (bc_chain c)) \<le> truncated now \<and>
     (bc_jkt c = [] \<longrightarrow> ds_bearerReadOnly d \<and> readOnly (bc_chain c))"

lemma parsed_within_domain:
  assumes "parsed_within raw n = Some v"
  shows "wf v" "jdepth v \<le> maxNesting"
proof -
  from assms obtain data where raw: "raw = Some data" by (cases raw) (simp_all add: parsed_within_def)
  with assms have "parseJSONWithin data n = Inr v"
    by (cases "parseJSONWithin data n") (simp_all add: parsed_within_def)
  then show "wf v" "jdepth v \<le> maxNesting"
    using document_reads [of data n False False] by (auto simp: parseJSONWithin_def)
qed

text \<open>The configuration does not change.\<close>

definition same_config :: "delegationService \<Rightarrow> delegationService \<Rightarrow> bool" where
  "same_config d d' \<longleftrightarrow>
     ds_audience d' = ds_audience d \<and> ds_hosts d' = ds_hosts d \<and> ds_operators d' = ds_operators d \<and>
     ds_bearerReadOnly d' = ds_bearerReadOnly d"

lemma same_config_trans: "same_config a b \<Longrightarrow> same_config b c \<Longrightarrow> same_config a c"
  by (simp add: same_config_def)

lemma same_config_keys: "same_config d d' \<Longrightarrow> service_keys d' = service_keys d"
  by (simp add: same_config_def service_keys_def fun_eq_iff)

lemma bound_ok_config: "same_config d d' \<Longrightarrow> bound_ok C d' now c = bound_ok C d now c"
  using same_config_keys [of d d'] by (simp add: bound_ok_def same_config_def)

lemma bind_cases:
  assumes "bind C post now raw host body d = (answer, d')"
  obtains (refused) e where "answer = Inl e" "d' = d \<or> d' = pruned (truncated now) d"
  | (bound) c a where "answer = Inr a" "d' = keep_credential c (pruned (truncated now) d)" "bc_digest c = digest_of C (ba_credential a)"
    "bound_ok C d now c" "bc_host c = dh_host host"
proof (cases "bind_given C d host body")
  case (Inl e)
  with assms show ?thesis by (intro refused) (auto simp: bind_def)
next
  case (Inr given)
  obtain chain software jkt where given: "given = (chain, software, jkt)" by (cases given)
  let ?t = "truncated now" and ?token = "credentialPrefix @ b64_encode raw"
  let ?c = "new_credential C d host chain software jkt ?t ?token"
  from Inr given obtain v where v: "parsed_within (br_chain body) maxArgumentValues = Some v"
    "verifyDelegationChain C v (service_keys d) = Inr chain" and root: "dl_host (ch_root chain) = dh_host host"
    by (auto simp: bind_given_def or_refused_def Let_def Option.bind_eq_Some_conv split: option.splits sum.splits if_splits)
  consider r where "bind_refusal post d host chain software jkt ?t = Some r" "answer = Inl (BindRefused r)" "d' = d"
    | "bind_refusal post d host chain software jkt ?t = None" "answer = Inl BindUnavailable" "d' = pruned ?t d"
    | a where "bind_refusal post d host chain software jkt ?t = None" "answer = Inr a" "ba_credential a = ?token"
        "d' = keep_credential ?c (pruned ?t d)"
    using assms Inr given by (auto simp: bind_def Let_def split: option.splits if_splits)
  then show ?thesis
  proof cases
    case 3
    from 3(1) have none: "timeRefusal chain ?t = None" "jkt = [] \<longrightarrow> ds_bearerReadOnly d \<and> readOnly chain"
      by (auto simp: bind_refusal_def split: option.splits if_splits)
    have "bound_ok C d now ?c"
      using v(2) parsed_within_domain [OF v(1)] root none(2) time_leaf [OF v(2), of ?t] none(1)
      unfolding bound_ok_def by (auto simp: new_credential_def)
    with 3 show ?thesis by (intro bound [of a ?c]) (simp_all add: new_credential_def)
  qed (use refused in auto)
qed

section \<open>What a run keeps\<close>

definition delegation_ok :: "crypto \<Rightarrow> delegationService \<times> delegation_history \<Rightarrow> bool" where
  "delegation_ok C s \<longleftrightarrow>
     (case s of (d, h) \<Rightarrow>
        (\<forall>(digest, c) \<in> set (ds_credentials d). digest = bc_digest c \<and> (\<exists>now. still_bound h c now)) \<and>
        (\<forall>(now, e) \<in> set h. \<forall>c. e = Bound c \<longrightarrow> bound_ok C d now c))"

lemma still_bound_Cons:
  assumes "still_bound h c now" and "\<not> ends_credential (snd e) c"
  shows "still_bound (e # h) c now"
proof -
  from assms(1) obtain h1 h2 where "h = h1 @ (now, Bound c) # h2" "\<forall>e \<in> snd ` set h1. \<not> ends_credential e c"
    unfolding still_bound_def by blast
  then have "e # h = (e # h1) @ (now, Bound c) # h2" "\<forall>e' \<in> snd ` set (e # h1). \<not> ends_credential e' c"
    using assms(2) by auto
  then show ?thesis unfolding still_bound_def by blast
qed

lemma still_bound_now: "still_bound ((now, Bound c) # h) c now"
  unfolding still_bound_def by (rule exI [of _ "[]"]) simp

text \<open>A step that adds no credential and ends those it says it does keeps what a run keeps.\<close>

lemma delegation_ok_fewer:
  assumes ok: "delegation_ok C (d, h)" and config: "same_config d d'"
    and fewer: "set (ds_credentials d') \<subseteq> set (ds_credentials d)"
    and ended: "\<And>c. (bc_digest c, c) \<in> set (ds_credentials d') \<Longrightarrow> \<not> ends_credential e c" and "\<And>c. e \<noteq> Bound c"
  shows "delegation_ok C (d', (now, e) # h)"
proof -
  have "digest = bc_digest c \<and> (\<exists>now'. still_bound ((now, e) # h) c now')" if "(digest, c) \<in> set (ds_credentials d')" for digest c
  proof -
    from ok that fewer have old: "digest = bc_digest c" "\<exists>now'. still_bound h c now'" by (auto simp: delegation_ok_def)
    with ended [of c] that still_bound_Cons [of h c _ "(now, e)"] show ?thesis by auto
  qed
  moreover have "bound_ok C d' t c" if "(t, Bound c) \<in> set ((now, e) # h)" for t c
    using ok that assms(5) by (auto simp: delegation_ok_def bound_ok_config [OF config])
  ultimately show ?thesis by (auto simp: delegation_ok_def)
qed

lemma pruned_facts:
  "same_config d (pruned t d)" "set (ds_credentials (pruned t d)) \<subseteq> set (ds_credentials d)"
  by (auto simp: pruned_def same_config_def)

lemma use_proof_facts:
  assumes "use_proof jti at t d = (ok, d')"
  shows "same_config d d'" "set (ds_credentials d') \<subseteq> set (ds_credentials d)"
  using assms by (auto simp: use_proof_def pruned_def same_config_def Let_def split: if_splits)

lemma present_facts:
  assumes "present_credential C J rq token scheme now d = (answer, d')"
  shows "same_config d d'" "set (ds_credentials d') \<subseteq> set (ds_credentials d)"
proof -
  consider "d' = d" | jti at ok where "use_proof jti at now d = (ok, d')"
    using assms by (auto simp: present_credential_def verifyProof_def Let_def split: if_splits option.splits prod.splits)
  then show "same_config d d'" "set (ds_credentials d') \<subseteq> set (ds_credentials d)"
    by (cases; simp add: same_config_def use_proof_facts [unfolded same_config_def])+
qed

lemma revoke_facts:
  assumes "revoke host body d = (answer, d')"
  shows "same_config d d'" "set (ds_credentials d') \<subseteq> set (ds_credentials d)"
    and "(digest, c) \<in> set (ds_credentials d') \<Longrightarrow> \<not> ends_credential (revoke_event host body answer) c"
proof -
  consider "d' = d" "\<exists>r. answer = Inl r"
    | which name where "body = [(which, Some name)]" "\<exists>n. answer = Inr n"
        "d' = d\<lparr> ds_credentials := filter (\<lambda>x. \<not> (case x of (_, c) \<Rightarrow> revokes (dh_host host) which name c)) (ds_credentials d) \<rparr>"
    using assms by (auto simp: revoke_def o_def split: list.splits option.splits prod.splits if_splits)
  then show "same_config d d'" "set (ds_credentials d') \<subseteq> set (ds_credentials d)"
    "(digest, c) \<in> set (ds_credentials d') \<Longrightarrow> \<not> ends_credential (revoke_event host body answer) c"
    by (cases; auto simp: same_config_def revoke_event_def ends_credential_def)+
qed

lemma updated_entry: "x \<in> set (AList.update k v xs) \<Longrightarrow> x = (k, v) \<or> x \<in> set xs"
  by (induction xs) (auto split: if_splits)

lemma delegation_ok_step:
  assumes "delegation_step C J (d, h) (d', h')" and ok: "delegation_ok C (d, h)"
  shows "delegation_ok C (d', h') \<and> same_config d d'"
  using assms(1)
proof cases
  case (binds name host post now raw body answer)
  from binds(3) show ?thesis
  proof (cases rule: bind_cases)
    case (refused e)
    with ok binds(1) pruned_facts [where d = d] show ?thesis
      by (auto simp: bind_event_def ends_credential_def same_config_def intro!: delegation_ok_fewer [OF ok])
  next
    case (bound c a)
    have config: "same_config d d'" unfolding bound(2) by (simp add: same_config_def keep_credential_def pruned_def)
    have event: "bind_event C answer d' = Bound c"
      unfolding bind_event_def bound(1,2) by (simp add: keep_credential_def bound(3) [symmetric] update_conv')
    have "digest = bc_digest x \<and> (\<exists>t. still_bound h' x t)" if "(digest, x) \<in> set (ds_credentials d')" for digest x
    proof -
      from that have "(digest, x) = (bc_digest c, c) \<or> (digest, x) \<in> set (ds_credentials d)"
        unfolding bound(2) by (auto simp: keep_credential_def pruned_def dest: updated_entry)
      then show ?thesis
      proof
        assume "(digest, x) = (bc_digest c, c)"
        with still_bound_now show ?thesis unfolding binds(1) event by blast
      next
        assume "(digest, x) \<in> set (ds_credentials d)"
        with ok have "digest = bc_digest x" "\<exists>t. still_bound h x t" by (auto simp: delegation_ok_def)
        with still_bound_Cons [of h x _ "(now, Bound c)"] show ?thesis
          unfolding binds(1) event by (auto simp: ends_credential_def)
      qed
    qed
    moreover have "bound_ok C d' t x" if "(t, Bound x) \<in> set h'" for t x
      using that ok bound(4) unfolding binds(1) event bound_ok_config [OF config] by (auto simp: delegation_ok_def)
    ultimately show ?thesis using config by (auto simp: delegation_ok_def)
  qed
next
  case (ends name host body answer now)
  note facts = revoke_facts [OF ends(3)]
  have "delegation_ok C (d', (now, revoke_event host body answer) # h)"
    by (rule delegation_ok_fewer [OF ok facts(1,2)])
      (use facts(3) in \<open>auto simp: revoke_event_def split: sum.splits list.splits option.splits\<close>)
  with ends(1) facts(1) show ?thesis by simp
next
  case (presents rq token scheme now answer)
  note facts = present_facts [OF presents(2)]
  have "delegation_ok C (d', (now, presented C J rq token now answer) # h)"
    by (rule delegation_ok_fewer [OF ok facts])
      (auto simp: presented_def ends_credential_def split: sum.splits option.splits prod.splits)
  with presents(1) facts(1) show ?thesis by simp
qed

lemma delegation_reaches_ok:
  assumes "delegation_reaches C J audience hosts operators bearer (d, h)"
  shows "delegation_ok C (d, h)" "same_config (newDelegationService audience hosts operators bearer) d"
proof -
  let ?d = "newDelegationService audience hosts operators bearer"
  have "delegation_ok C s \<and> same_config ?d (fst s)" if "(delegation_step C J)\<^sup>*\<^sup>* (?d, []) s" for s
    using that
  proof (induction rule: rtranclp_induct)
    case base
    then show ?case by (simp add: delegation_ok_def newDelegationService_def same_config_def)
  next
    case (step s s')
    then show ?case using delegation_ok_step [of C J "fst s" "snd s" "fst s'" "snd s'"] same_config_trans by fastforce
  qed
  from this [OF assms [unfolded delegation_reaches_def]] show "delegation_ok C (d, h)" "same_config ?d d" by auto
qed

end
