(* ===== verification/Delegation_Claims.thy ===== *)
theory Delegation_Claims
  imports Delegation_Run
begin

text \<open>
  The properties of delegations: what the last link of a chain decides, what a delegated call was admitted
  under, and how often a proof of possession is taken.
\<close>

section \<open>Chains\<close>

text \<open>A chain of delegations only narrows.  Every link of a chain that is verified is signed under a key
  pinned for its host, its depth is its place, and the last link is within it: the same host and subject, a
  validity inside its own, and each source it admits with no tool, effect or bound that the link does not
  admit.  So the checks of a call against every link, in time and in scope, are the checks against the
  last.\<close>

theorem leaf_decides:
  assumes "verifyDelegationChain C v keys = Inr c"
  shows "(\<forall>l \<in> set (ch_links c). link_signed C keys l \<and> link_within (ch_leaf c) l) \<and>
    (\<forall>i < length (ch_links c). dl_depth (ch_links c ! i) = int i) \<and>
    (\<forall>t. timeRefusal c t = None \<longleftrightarrow> dl_issuedAt (ch_leaf c) \<le> t \<and> t < dl_expiresAt (ch_leaf c)) \<and>
    (\<forall>audience source tool effect. scopeRefusal c audience source tool effect = None \<longleftrightarrow>
       link_reason audience source tool effect False (ch_leaf c) = [])"
proof (intro conjI)
  show "\<forall>l \<in> set (ch_links c). link_signed C keys l \<and> link_within (ch_leaf c) l"
    using leaf_within [OF assms] by (auto intro: verified_chain [OF assms])
  show "\<forall>i < length (ch_links c). dl_depth (ch_links c ! i) = int i"
    using chain_depth [OF assms] by blast
  show "\<forall>t. timeRefusal c t = None \<longleftrightarrow> dl_issuedAt (ch_leaf c) \<le> t \<and> t < dl_expiresAt (ch_leaf c)"
    using time_leaf [OF assms] by blast
  show "\<forall>audience source tool effect. scopeRefusal c audience source tool effect = None \<longleftrightarrow>
      link_reason audience source tool effect False (ch_leaf c) = []"
    using scope_leaf [OF assms] by (simp add: scopeRefusal_def)
qed

section \<open>Admission\<close>

lemma delegationMember_norm: "ch_links c \<noteq> [] \<Longrightarrow> delegationMember (chain_norm c) t = delegationMember c t"
  by (simp add: delegationMember_def chain_norm_facts Let_def)

lemma admission_body_norm:
  "ch_links c \<noteq> [] \<Longrightarrow> admission_body d host (chain_norm c) call t = admission_body d host c call t"
  by (simp add: admission_body_def chain_norm_facts)

text \<open>An effect that a read-only chain admits is a reading one.\<close>

lemma readOnly_effect:
  assumes "readOnly c" and "l \<in> set (ch_links c)" and "link_reason audience source tool effect False l = []"
  shows "effect \<noteq> ''propose'' \<and> effect \<noteq> ''act''"
proof -
  from assms(3) obtain e where "entry_at l ''gateway'' audience source = Some e" "effect \<in> set (se_effects e)"
    by (auto simp: link_reason_def split: option.splits if_splits)
  with assms(1,2) entry_atD(1) show ?thesis by (force simp: readOnly_def list_all_iff)
qed

lemma verdict_admits:
  "admission_verdict answer named = None \<longleftrightarrow> (\<exists>a. answer = Some a \<and> string_of a ''admission'' = ''admit'' \<and> length a = 1)"
  by (cases answer) (auto simp: admission_verdict_def Let_def)

lemma live_credential: "live d c t \<Longrightarrow> (bc_digest c, c) \<in> set (ds_credentials d)"
  by (simp add: live_def map_of_SomeD)

text \<open>What a delegated call is admitted under.  In every run of the enforcing gateway, a call it admits
  is made through a credential that an issuing host bound less than five minutes before by that host's
  request, that no revocation has ended since, and whose chain, verified under the keys pinned now, is in
  its validity and admits the call's source, tool and effect; the host that bound it has just answered that
  it admits this call of this chain; the receipt's member names that chain; and a credential that is bound to no
  key admits no call that proposes or acts.\<close>

theorem delegated_call_admitted:
  assumes "delegation_reaches C J audience hosts operators bearer (d, h)"
    and "admitDelegated C post now d (Some s) call = Inr m"
  shows "\<exists>c t host. sn_credential s = Some c \<and> still_bound h c t \<and> truncated now < truncated t + credentialLifetime \<and>
    (\<forall>l \<in> set (ch_links (bc_chain c)). link_signed C (service_keys d) l) \<and>
    timeRefusal (bc_chain c) (truncated now) = None \<and>
    scopeRefusal (bc_chain c) audience (ca_source call) (ca_tool call) (ca_effect call) = None \<and>
    map_of hosts (bc_host c) = Some host \<and> dl_host (ch_root (bc_chain c)) = bc_host c \<and>
    (\<exists>a. post host (admission_body d host (bc_chain c) (Some call) (truncated now)) = Some a \<and>
       string_of a ''admission'' = ''admit'' \<and> length a = 1) \<and>
    m = delegationMember (bc_chain c) (truncated now) \<and>
    (bc_jkt c = [] \<longrightarrow> ca_effect call \<noteq> ''propose'' \<and> ca_effect call \<noteq> ''act'')"
proof -
  let ?t = "truncated now"
  note run = delegation_reaches_ok [OF assms(1)]
  have config: "ds_audience d = audience" "ds_hosts d = hosts" using run(2) by (simp_all add: same_config_def newDelegationService_def)
  obtain c where c: "sn_credential s = Some c" "live d c ?t"
    using assms(2) by (auto simp: admitDelegated_def Let_def split: if_splits option.splits)
  have cred: "(bc_digest c, c) \<in> set (ds_credentials d)" using c(2) by (rule live_credential)
  then obtain t where bound: "still_bound h c t" using run(1) by (auto simp: delegation_ok_def)
  then have "(t, Bound c) \<in> set h" by (auto simp: still_bound_def)
  with run(1) have "bound_ok C d t c" by (auto simp: delegation_ok_def)
  then obtain v where v: "wf v" "jdepth v \<le> maxNesting" "verifyDelegationChain C v (service_keys d) = Inr (bc_chain c)"
    and facts: "dl_host (ch_root (bc_chain c)) = bc_host c" "bc_expires c \<le> truncated t + credentialLifetime"
    "bc_jkt c = [] \<longrightarrow> readOnly (bc_chain c)"
    unfolding bound_ok_def by blast
  note reread = chain_reread [OF v(3,1,2)]
  have links: "ch_links (bc_chain c) \<noteq> []" by (rule verified_chain [OF v(3)])
  have signed: "\<forall>l \<in> set (ch_links (bc_chain c)). link_signed C (service_keys d) l" by (auto intro: verified_chain [OF v(3)])
  let ?own = "scopeRefusal (bc_chain c) audience (ca_source call) (ca_tool call) (ca_effect call)"
  from assms(2) c reread obtain host where host: "map_of hosts (bc_host c) = Some host"
    and time: "timeRefusal (bc_chain c) ?t = None"
    and outcome: "admission_outcome ?own (admissionReadAt post d host (chain_norm (bc_chain c))
        (Some (call\<lparr> ca_count := ca_count call \<and> ?own = None \<rparr>)) ?t) = None"
    and m: "m = delegationMember (bc_chain c) ?t"
    by (auto simp: admitDelegated_def Let_def config chain_norm_facts [OF links] scopeRefusal_def delegationMember_norm [OF links]
        split: if_splits option.splits)
  from outcome have own: "?own = None" by (auto simp: admission_outcome_def split: option.splits if_splits)
  with outcome obtain a where answer: "post host (admission_body d host (bc_chain c) (Some call) ?t) = Some a"
    "string_of a ''admission'' = ''admit''" "length a = 1"
    by (auto simp: admission_outcome_def admissionReadAt_def admission_body_norm [OF links] verdict_admits
        split: option.splits if_splits)
  have "link_reason audience (ca_source call) (ca_tool call) (ca_effect call) False (ch_leaf (bc_chain c)) = []"
    using own scope_leaf [OF v(3)] by (simp add: scopeRefusal_def)
  with readOnly_effect facts(3) leaf_member [OF v(3)] have "bc_jkt c = [] \<longrightarrow> ca_effect call \<noteq> ''propose'' \<and> ca_effect call \<noteq> ''act''"
    by blast
  moreover have "?t < truncated t + credentialLifetime" using c(2) facts(2) by (auto simp: live_def)
  ultimately show ?thesis using c(1) bound signed time own host facts(1) answer m by blast
qed

section \<open>Proofs of possession\<close>

lemma proof_claims_window: "proof_claims C J rq token jkt now = Some (jti, at) \<Longrightarrow> now \<le> at + proofWindow"
  by (auto simp: proof_claims_def Option.bind_eq_Some_conv Let_def split_beta)

lemma use_proof_proofs:
  assumes "use_proof jti at now d = (ok, d')"
  shows "x \<in> set (ds_proofs d) \<Longrightarrow> now \<le> snd x \<Longrightarrow> x \<in> set (ds_proofs d')"
    and "ok \<Longrightarrow> (jti, at + proofWindow) \<in> set (ds_proofs d')"
    and "ok \<Longrightarrow> (jti, until) \<in> set (ds_proofs d) \<Longrightarrow> until < now"
proof -
  show "x \<in> set (ds_proofs d) \<Longrightarrow> now \<le> snd x \<Longrightarrow> x \<in> set (ds_proofs d')"
    "ok \<Longrightarrow> (jti, at + proofWindow) \<in> set (ds_proofs d')"
    using assms by (cases x; auto simp: use_proof_def pruned_def Let_def split: if_splits)+
  show "until < now" if "ok" "(jti, until) \<in> set (ds_proofs d)"
  proof (rule ccontr)
    assume "\<not> until < now"
    with that(2) have "(jti, until) \<in> set (ds_proofs (pruned now d))" by (simp add: pruned_def)
    then have "map_of (ds_proofs (pruned now d)) jti \<noteq> None" by (metis map_of_eq_None_iff fst_conv image_eqI)
    with assms that(1) show False by (auto simp: use_proof_def Let_def split: if_splits)
  qed
qed

lemma present_cases:
  assumes "present_credential C J rq token scheme now d = (answer, d')"
  obtains (quiet) "d' = d" "\<And>who. answer = Inr who \<Longrightarrow> \<exists>c digest. bc_jkt c = [] \<and> who = actor_of c digest"
  | (proved) c ok where "verifyProof C J rq token (bc_jkt c) now d = (ok, d')"
      "answer = (if ok then Inr (actor_of c (digest_of C token)) else Inl (refuse ''credential-mismatch''))" "bc_jkt c \<noteq> []"
proof (cases "map_of (ds_credentials d) (digest_of C token)")
  case None
  with assms show ?thesis by (intro quiet) (auto simp: present_credential_def Let_def split: if_splits)
next
  case (Some c)
  show ?thesis
  proof (cases "answer = fst (present_credential C J rq token scheme now d) \<and> d' = d \<and>
      (\<forall>who. answer = Inr who \<longrightarrow> bc_jkt c = [] \<and> who = actor_of c (digest_of C token))")
    case True
    then show ?thesis by (intro quiet) blast+
  next
    case False
    with assms Some show ?thesis
      by (intro proved [of c "fst (verifyProof C J rq token (bc_jkt c) now d)"])
        (auto simp: present_credential_def Let_def split: if_splits prod.splits)
  qed
qed

text \<open>What a step does to the proofs that are remembered: one that could still be presented is kept, and
  one that is taken was not remembered and is from now on.\<close>

lemma step_proofs:
  assumes "delegation_step C J (d, h) (d', h')"
  obtains now e where "h' = (now, e) # h"
    "\<And>x. x \<in> set (ds_proofs d) \<Longrightarrow> now \<le> snd x \<Longrightarrow> x \<in> set (ds_proofs d')"
    "\<And>jti at. e = Proved jti at \<Longrightarrow> now \<le> at + proofWindow \<and> (jti, at + proofWindow) \<in> set (ds_proofs d') \<and>
       (\<forall>until. (jti, until) \<in> set (ds_proofs d) \<longrightarrow> until < now)"
  using assms
proof cases
  case (binds name host post now raw body answer)
  have early: "truncated now \<le> now" by (simp add: truncated_def millisecond_ns_def)
  have kept: "x \<in> set (ds_proofs d')" if "x \<in> set (ds_proofs d)" "now \<le> snd x" for x
    using binds(3) by (cases rule: bind_cases) (use that early in \<open>auto simp: pruned_def keep_credential_def\<close>)
  show thesis
    by (rule that [OF binds(1) kept]) (auto simp: bind_event_def split: sum.splits option.splits)
next
  case (ends name host body answer now)
  have "ds_proofs d' = ds_proofs d"
    using ends(3) by (auto simp: revoke_def split: list.splits option.splits prod.splits if_splits)
  then show thesis
    by (intro that [OF ends(1)]) (auto simp: revoke_event_def split: sum.splits list.splits option.splits)
next
  case (presents rq token scheme now answer)
  show thesis
    using presents(2)
  proof (cases rule: present_cases)
    case quiet
    have "presented C J rq token now answer = Quiet"
    proof (cases answer)
      case (Inr who)
      with quiet(2) obtain c digest where "bc_jkt c = []" "who = actor_of c digest" by blast
      with Inr show ?thesis by (simp add: presented_def actor_of_def Let_def)
    qed (simp add: presented_def)
    with quiet(1) show ?thesis by (intro that [OF presents(1)]) simp_all
  next
    case (proved c ok)
    show ?thesis
    proof (cases "proof_claims C J rq token (bc_jkt c) now")
      case None
      with proved(1,2) have "d' = d" "presented C J rq token now answer = Quiet"
        by (simp_all add: verifyProof_def presented_def)
      then show ?thesis by (intro that [OF presents(1)]) simp_all
    next
      case (Some claim)
      obtain jti at where claim: "claim = (jti, at)" by (cases claim)
      with Some proved(1) have used: "use_proof jti at now d = (ok, d')" by (simp add: verifyProof_def)
      have "presented C J rq token now answer = (if ok then Proved jti at else Quiet)"
        using proved(2,3) Some claim by (simp add: presented_def actor_of_def Let_def)
      with use_proof_proofs [OF used] proof_claims_window [OF Some [unfolded claim]] show ?thesis
        by (intro that [OF presents(1)]) (auto split: if_splits)
    qed
  qed
qed

definition proofs_kept :: "delegationService \<times> delegation_history \<Rightarrow> bool" where
  "proofs_kept s \<longleftrightarrow>
     (case s of (d, h) \<Rightarrow>
        sorted_wrt (\<lambda>x y. fst y \<le> fst x) h \<longrightarrow>
        (\<forall>jti at. distinct (filter (\<lambda>e. e = Proved jti at) (map snd h)) \<and>
           (Proved jti at \<in> snd ` set h \<longrightarrow>
              (jti, at + proofWindow) \<in> set (ds_proofs d) \<or> at + proofWindow < fst (hd h))))"

lemma proofs_kept_step:
  assumes "delegation_step C J (d, h) (d', h')" and kept: "proofs_kept (d, h)"
  shows "proofs_kept (d', h')"
proof (rule step_proofs [OF assms(1)])
  fix now e
  assume h': "h' = (now, e) # h"
    and old: "\<And>x. x \<in> set (ds_proofs d) \<Longrightarrow> now \<le> snd x \<Longrightarrow> x \<in> set (ds_proofs d')"
    and taken: "\<And>jti at. e = Proved jti at \<Longrightarrow> now \<le> at + proofWindow \<and> (jti, at + proofWindow) \<in> set (ds_proofs d') \<and>
       (\<forall>until. (jti, until) \<in> set (ds_proofs d) \<longrightarrow> until < now)"
  have "distinct (filter (\<lambda>e. e = Proved jti at) (map snd h')) \<and>
      (Proved jti at \<in> snd ` set h' \<longrightarrow> (jti, at + proofWindow) \<in> set (ds_proofs d') \<or> at + proofWindow < fst (hd h'))"
    if order: "sorted_wrt (\<lambda>x y. fst y \<le> fst x) h'" for jti at
  proof -
    from order kept have before: "distinct (filter (\<lambda>e. e = Proved jti at) (map snd h))"
      "Proved jti at \<in> snd ` set h \<Longrightarrow> (jti, at + proofWindow) \<in> set (ds_proofs d) \<or> at + proofWindow < fst (hd h)"
      by (auto simp: proofs_kept_def h')
    have clock: "fst (hd h) \<le> now" if "h \<noteq> []" using order that by (cases h) (simp_all add: h')
    have "Proved jti at \<notin> snd ` set h" if e: "e = Proved jti at"
    proof
      assume there: "Proved jti at \<in> snd ` set h"
      then have "h \<noteq> []" by auto
      from before(2) [OF there] clock [OF this] taken [OF e] show False by fastforce
    qed
    with before(1) have "distinct (filter (\<lambda>e. e = Proved jti at) (map snd h'))" by (auto simp: h')
    moreover have "(jti, at + proofWindow) \<in> set (ds_proofs d') \<or> at + proofWindow < fst (hd h')" if there: "Proved jti at \<in> snd ` set h'"
    proof (cases "e = Proved jti at")
      case False
      with there have earlier: "Proved jti at \<in> snd ` set h" by (auto simp: h')
      then have "h \<noteq> []" by auto
      from before(2) [OF earlier] clock [OF this] old [of "(jti, at + proofWindow)"] show ?thesis by (auto simp: h')
    qed (use taken in simp)
    ultimately show ?thesis by blast
  qed
  then show ?thesis by (auto simp: proofs_kept_def h')
qed

text \<open>A proof of possession is taken once.  In every run whose clock readings do not go back in the order
  the requests take the lock, no proof, by its id and the instant it was made at, is accepted twice.\<close>

theorem proof_taken_once:
  assumes "delegation_reaches C J audience hosts operators bearer (d, h)"
    and "sorted_wrt (\<lambda>x y. fst y \<le> fst x) h"
  shows "distinct (filter (\<lambda>e. e = Proved jti at) (map snd h))"
proof -
  let ?d = "newDelegationService audience hosts operators bearer"
  have "proofs_kept s" if "(delegation_step C J)\<^sup>*\<^sup>* (?d, []) s" for s
    using that
  proof (induction rule: rtranclp_induct)
    case (step s s')
    then show ?case using proofs_kept_step [of C J "fst s" "snd s" "fst s'" "snd s'"] by simp
  qed (simp add: proofs_kept_def)
  from this [OF assms(1) [unfolded delegation_reaches_def]] assms(2) show ?thesis by (simp add: proofs_kept_def)
qed

end
