(* ===== verification/Spec2Isabelle.thy ===== *)
theory Spec2Isabelle
  imports Canon_Domain Registry_Claims Store_Claims Verify_Claims Service_Claims Journal_Claims Policy_Claims Executor_Claims
    Ladder_Claims Execution_Claims Replay_Claims Delegation_Claims
begin

text \<open>
  The judgment-pack gateway: a verification library of its core.

  The program.  The gateway stands between a requester, the sources it reads and the platforms it writes
  to.  Every read and every write it performs is recorded as a receipt: a canonical JSON object, signed with
  the gateway's key, linked by its \<^verbatim>\<open>prevSignature\<close> to the receipt before it in its session, and
  created once under its index.  A session is ended by a seal, a line of the registry that holds how many
  receipts the session has.  A verifier that is given the store, the registry and one public key says which
  of this is as it should be.  A write is performed only for a requester who names a decision record and
  cites the receipts it rests on, and, under a key of the requester's choosing, at most once.  All of it is
  the Go code of \<^verbatim>\<open>src/go\<close>; a path below is relative to it.

  Layers.  \<open>Gateway_Prelude\<close> and \<open>Utf8\<close> are the part of Go's standard library that the rest uses on
  bytes and text.  A Go \<^verbatim>\<open>byte\<close> is a \<^typ>\<open>char\<close>; an answer beside an error is an option where a
  caller looks only at whether there was one, and a sum where callers tell errors apart.

  \<^item> Canonical JSON (\<^verbatim>\<open>canon.go\<close>).  \<open>Canon\<close> has the values, their canonical bytes and the parser,
    a recursive descent with the program's bounds on nesting and on the number of values.  It is given fuel, three units
    for each byte and one more, and \<open>Canon_Domain\<close> shows that a parse never runs out of it; \<open>Canon_Roundtrip\<close> shows
    that printing and parsing are inverse up to the order of members, over the locale \<open>value_writer\<close>,
    which \<open>Marshal\<close> interprets a second time for \<^verbatim>\<open>encoding/json\<close>; \<open>Canon_Lines\<close> has the files of one object a line.
  \<^item> Keys (\<^verbatim>\<open>verify.go\<close>, \<^verbatim>\<open>record_signature.go\<close>).  SHA-256 and Ed25519 are of the standard
    library: they are the record \<open>crypto\<close>, an argument wherever they are used, and \<open>signs_ok\<close> is
    what the gateway relies on of a key.  The rule for public keys is arithmetic on the curve in
    \<open>Keys\<close>; \<open>Sound_Key\<close> computes one key through the whole of it.
  \<^item> Registry (\<^verbatim>\<open>rotation.go\<close>, \<^verbatim>\<open>verify.go\<close>).  \<open>Registry\<close> walks the lines of a registry from a pinned
    key through its rotations; \<open>Registry_Walk\<close> shows what a walk establishes; \<open>Rotate\<close> and
    \<open>Rotate_Recovery\<close> (\<^verbatim>\<open>rotate_key.go\<close>) are the rotation of the gateway's own key over its files and
    the resumption of one that stopped at any call.
  \<^item> Storage (\<^verbatim>\<open>store_contract.go\<close>, \<^verbatim>\<open>store_fs.go\<close>, \<^verbatim>\<open>store.go\<close>, \<^verbatim>\<open>store_leases.go\<close>).  \<open>Store_Contract\<close> states
    the contract as locales over records of operations; \<open>Store_FS\<close> interprets each on directories of
    files, with every failure of the operating system an argument; \<open>Store\<close> is the write path
    over any storage of the contract and \<open>Leases\<close> the leases with fencing tokens.
  \<^item> Receipts (\<^verbatim>\<open>verify.go\<close>, \<^verbatim>\<open>verify_v3.go\<close>, \<^verbatim>\<open>action_receipt.go\<close>, \<^verbatim>\<open>remote_acquisition.go\<close>,
    \<^verbatim>\<open>witness_named.go\<close>, \<^verbatim>\<open>descriptor_provenance.go\<close>, \<^verbatim>\<open>receipt_builder.go\<close>).  \<open>Endpoints\<close> and
    \<open>Receipts\<close> read one, \<open>Builder\<close> builds one; \<open>Receipt_Norm\<close> shows that reading does not depend on
    the order of members, \<open>Minted\<close> and \<open>Built\<close> that what is built and stamped is read back.
  \<^item> Verification (\<^verbatim>\<open>verify.go\<close>, \<^verbatim>\<open>verify_v3.go\<close>, \<^verbatim>\<open>decision_policy.go\<close>).  \<open>Paths\<close> and \<open>Records\<close> read
    the inputs, \<open>Scanner\<close> shows that the loops of the reader end, \<open>Verify\<close> is the report, \<open>Verify_Sound\<close> what a
    clean report establishes and \<open>Verify_Complete\<close> what is enough for one.
  \<^item> Signer (\<^verbatim>\<open>serve.go\<close>, \<^verbatim>\<open>gate.go\<close>).  \<open>Gate\<close> is the maintenance gate, \<open>Service\<close> the
    steps of a handler under the lock of the service; \<open>Service_Run\<close>, \<open>Service_Store\<close> and
    \<open>Service_Chain\<close> are every interleaving of handlers and what the store holds at every moment of one.
  \<^item> Decision policies (\<^verbatim>\<open>decision_policy.go\<close>, \<^verbatim>\<open>record_signature.go\<close>).  \<open>Pointers\<close>, \<open>Pointer_Paths\<close>,
    \<open>Record_Signature\<close>, \<open>Policy\<close> and \<open>Policy_Held\<close>.
  \<^item> Executor (\<^verbatim>\<open>act.go\<close>, \<^verbatim>\<open>action_journal.go\<close>, \<^verbatim>\<open>action_key_index.go\<close>, \<^verbatim>\<open>action_execution.go\<close>,
    \<^verbatim>\<open>action_recovery.go\<close>).  \<open>Executor\<close> is the ladder a write climbs and its receipt,
    \<open>Execution\<close> the identity of a keyed action and what is retained of it, \<open>Journal\<close> and
    \<open>Reservations\<close> the journal of keys.  \<open>Ladder\<close> is the handler of a keyed write from its key on: a state
    machine of one stage for each call it makes; \<open>Ladder_Step\<close>, \<open>Ladder_Calls\<close> and \<open>Ladder_Run\<close> run any number of
    them, in any number of processes that crash and restart, on one journal.
    \<open>Action_Receipt\<close>, \<open>Action_Verifies\<close>, \<open>Action_Found\<close>, \<open>Marshal\<close> and \<open>Replay\<close> carry a judged
    action to its receipt, to the verifier's findings and to the answer of a retry.

  How the parts meet.  The verifier and the signer are modelled apart, from their own files, and the properties tie
  them together: a store the signer wrote verifies (\<open>Service_Claims\<close>), what the executor judged is
  what the verifier finds (\<open>Executor_Claims\<close>), a rotated key is reached by the walk that judges it
  (\<open>Registry_Claims\<close>), and an answer retained by one process is read as that answer by
  another (\<open>Replay_Claims\<close>).  The theories named \<open>_Claims\<close> hold the properties, each with a concrete
  application; \<open>Sample_Store\<close>, \<open>Sample_Run\<close>, \<open>Sample_Action\<close> and \<open>Sample_Ladder\<close> are the
  stores, runs and requests they are applied to.

  Interfaces.  The spaces of the store contract (\<open>blob_space\<close>, \<open>indexed_space\<close>, \<open>append_log\<close>,
  \<open>document_space\<close>) are interpreted on the filesystem kind; a writer of values on the canonical
  form and on \<^verbatim>\<open>encoding/json\<close>.  A lemma proved over an interface is used through its interpretation only.

  State and steps.  Shared state is explicit: the directories of the store, the sessions in memory, the journal, the
  disk of a rotation.  A handler that holds a lock is one step; between two steps, and between any two calls on the
  journal, every other request, a crash or a restart may come.  Runs are inductive step relations, and their
  properties invariants of every reachable state.  A write torn by a crash is one of the answers of
  the operating system.

  Bounds.  The parser's nesting and value budgets, the number of dispatch attempts (16), the sizes of policies and
  sidecars and the safe range of integers are the program's, and are kept.  Loops that consume bytes are
  recursions on them.  A request on a key makes at most 21 calls, whatever it is answered.  The generation of the
  gate is a 64-bit word and wraps.

  Not modelled.  HTTP and MCP framing, processes and their sandboxes, the engine's configuration and the
  capture of descriptors: what they answer is an argument.  The witness is a second service with its own log;
  the receipt member that names one is modelled.  Of the executor, the read-back
  that settles an uncertain dispatch and delegated senders are left out; the lock on a key within one process only
  removes interleavings and is left out too.  The adapters speak the protocols of third parties;
  the gateway reads only their envelopes.  Texts of refusals and diagnostics are left out everywhere, except where a
  caller branches on them.
\<close>

end
